(* ===== verification/Prelude.thy ===== *)
theory Prelude
  imports Complex_Main "HOL-Library.AList" "HOL-Library.List_Lexorder" "HOL-Library.Char_ord"
    "HOL-Library.Product_Lexorder" "HOL-Library.Multiset" "HOL-Library.Word"
begin

text \<open>
  What every component shares: Python's insertion-ordered dictionaries as association lists,
  negative list slices, the truthiness idiom \<open>x or default\<close>, and two interfaces. The locale
  \<open>inv_system\<close> is an operation-labelled transition function with an invariant that every
  operation keeps; its runs keep it too. The locale \<open>rate_gate\<close> is the contract of every
  component that is asked before an action and told after it (\<open>allows\<close> / \<open>record\<close>): what it
  promises about one call, and what a caller that always asks first gets for a whole run.
  Times are reals: Python floats are modelled without rounding.
\<close>

named_theorems dict_simps \<open>reading a dictionary after it was changed\<close>
named_theorems step_defs \<open>the operations of the components, for proofs by unfolding\<close>

type_synonym time = real
type_synonym agent_id = string

subsection \<open>Insertion-ordered dictionaries\<close>

text \<open>
  A Python \<open>dict\<close> is an association list in insertion order. Assigning to an existing key
  keeps its place; a new key goes to the end; deletion removes the key.
\<close>

type_synonym ('k, 'v) dict = "('k \<times> 'v) list"

abbreviation dget :: "('k, 'v) dict \<Rightarrow> 'k \<Rightarrow> 'v option" where
  "dget d k \<equiv> map_of d k"

abbreviation dset :: "'k \<Rightarrow> 'v \<Rightarrow> ('k, 'v) dict \<Rightarrow> ('k, 'v) dict" where
  "dset \<equiv> AList.update"

abbreviation ddel :: "'k \<Rightarrow> ('k, 'v) dict \<Rightarrow> ('k, 'v) dict" where
  "ddel \<equiv> AList.delete"

abbreviation dkeys :: "('k, 'v) dict \<Rightarrow> 'k list" where
  "dkeys d \<equiv> map fst d"

abbreviation dvals :: "('k, 'v) dict \<Rightarrow> 'v list" where
  "dvals d \<equiv> map snd d"

abbreviation dhas :: "('k, 'v) dict \<Rightarrow> 'k \<Rightarrow> bool" where
  "dhas d k \<equiv> map_of d k \<noteq> None"

definition dget_or :: "('k, 'v) dict \<Rightarrow> 'k \<Rightarrow> 'v \<Rightarrow> 'v" where
  "dget_or d k x = (case dget d k of None \<Rightarrow> x | Some v \<Rightarrow> v)"

abbreviation wf_dict :: "('k, 'v) dict \<Rightarrow> bool" where
  "wf_dict d \<equiv> distinct (map fst d)"

text \<open>Lookups stay lookups: the simplifier does not turn them into membership.\<close>

declare map_of_eq_Some_iff [simp del] Some_eq_map_of_iff [simp del]

lemma dget_dset [simp, dict_simps]:
  "dget (dset k v d) k' = (if k' = k then Some v else dget d k')"
  by (simp add: update_conv')

lemma dget_ddel [simp, dict_simps]:
  "dget (ddel k d) k' = (if k' = k then None else dget d k')"
  by (simp add: delete_conv')

lemma dget_or_dset [simp, dict_simps]:
  "dget_or (dset k v d) k' x = (if k' = k then v else dget_or d k' x)"
  by (simp add: dget_or_def)

lemma dget_or_Nil [simp]: "dget_or [] k x = x"
  by (simp add: dget_or_def)

lemma wf_dict_dset [simp]: "wf_dict d \<Longrightarrow> wf_dict (dset k v d)"
  by (rule distinct_update)

lemma wf_dict_ddel [simp]: "wf_dict d \<Longrightarrow> wf_dict (ddel k d)"
  by (rule distinct_delete)

lemma dget_in_dvals: "dget d k = Some v \<Longrightarrow> v \<in> set (dvals d)"
  by (force dest: map_of_SomeD)

lemma in_dvals_dget:
  assumes "wf_dict d" and "v \<in> set (dvals d)"
  obtains k where "dget d k = Some v"
  using assms by (auto simp: map_of_eq_Some_iff)

lemma dset_new: "dget d k = None \<Longrightarrow> dset k v d = d @ [(k, v)]"
  by (induction d) (auto split: if_splits)

lemma set_dvals_dset: "set (dvals (dset k v d)) \<subseteq> insert v (set (dvals d))"
  by (induction d) auto

lemma set_dvals_ddel: "set (dvals (ddel k d)) \<subseteq> set (dvals d)"
  by (auto simp: AList.delete_eq)

lemma length_dset: "length (dset k v d) = (if dhas d k then length d else Suc (length d))"
  by (induction d) auto

subsection \<open>Python lists and defaults\<close>

text \<open>
  The slice \<open>xs[-w:]\<close>: the last \<open>w\<close> elements for a positive \<open>w\<close>, and, since \<open>-0\<close> is
  \<open>0\<close> and a negative width counts from the front, everything from index \<open>-w\<close> otherwise.
\<close>

definition py_last :: "int \<Rightarrow> 'a list \<Rightarrow> 'a list" where
  "py_last w xs = (if 0 < w then drop (length xs - nat w) xs else drop (nat (- w)) xs)"

lemma length_py_last: "0 < w \<Longrightarrow> length (py_last w xs) = min (nat w) (length xs)"
  by (auto simp: py_last_def)

lemma set_py_last: "set (py_last w xs) \<subseteq> set xs"
  by (auto simp: py_last_def dest: in_set_dropD)

lemma py_last_all: "0 < w \<Longrightarrow> int (length xs) \<le> w \<Longrightarrow> py_last w xs = xs"
  by (simp add: py_last_def)

text \<open>
  \<open>now or time.time()\<close>: the argument is used unless it is absent or \<open>0\<close>, which Python
  counts as false. \<open>time.time() if now is None else now\<close> uses any argument given.
\<close>

definition now_or :: "time option \<Rightarrow> time \<Rightarrow> time" where
  "now_or now clock = (case now of None \<Rightarrow> clock | Some t \<Rightarrow> if t = 0 then clock else t)"

definition now_default :: "time option \<Rightarrow> time \<Rightarrow> time" where
  "now_default now clock = (case now of None \<Rightarrow> clock | Some t \<Rightarrow> t)"

lemma now_or_Some [simp]: "t \<noteq> 0 \<Longrightarrow> now_or (Some t) clock = t"
  by (simp add: now_or_def)

lemma now_or_None [simp]: "now_or None clock = clock"
  by (simp add: now_or_def)

lemma now_default_simps [simp]:
  "now_default None clock = clock" "now_default (Some t) clock = t"
  by (simp_all add: now_default_def)

lemma length_filter_mono:
  "(\<And>x. x \<in> set xs \<Longrightarrow> P x \<Longrightarrow> Q x) \<Longrightarrow> length (filter P xs) \<le> length (filter Q xs)"
  by (induction xs) auto

text \<open>\<open>str\<close> of a natural number.\<close>

fun decimal :: "nat \<Rightarrow> string" where
  "decimal n = (if n < 10 then [''0123456789'' ! n]
     else decimal (n div 10) @ [''0123456789'' ! (n mod 10)])"

declare decimal.simps [simp del]

lemma decimal_digits:
  assumes "\<And>k. k < 10 \<Longrightarrow> P (''0123456789'' ! k)"
  shows "list_all P (decimal n)"
  using assms
proof (induction n rule: decimal.induct)
  case (1 n)
  then show ?case by (subst decimal.simps) auto
qed

lemma decimal_not_Nil [simp]: "decimal n \<noteq> []"
  by (subst decimal.simps) simp

lemma below_ten: "(k::nat) < 10 \<Longrightarrow> k = 0 \<or> k = 1 \<or> k = 2 \<or> k = 3 \<or> k = 4 \<or> k = 5 \<or> k = 6 \<or> k = 7 \<or> k = 8 \<or> k = 9"
  by presburger

text \<open>\<open>str.lower\<close> and \<open>str.upper\<close> on ASCII.\<close>

definition lower_char :: "char \<Rightarrow> char" where
  "lower_char c = (let n = (of_char c :: nat) in if 65 \<le> n \<and> n \<le> 90 then char_of (n + 32) else c)"

definition upper_char :: "char \<Rightarrow> char" where
  "upper_char c = (let n = (of_char c :: nat) in if 97 \<le> n \<and> n \<le> 122 then char_of (n - 32) else c)"

abbreviation lower :: "string \<Rightarrow> string" where "lower \<equiv> map lower_char"
abbreviation upper :: "string \<Rightarrow> string" where "upper \<equiv> map upper_char"

lemma lower_examples: "lower ''Ok1'' = ''ok1''" "upper ''Ok1'' = ''OK1''"
  by (code_simp, code_simp)

text \<open>\<open>str.isspace\<close> and \<open>str.strip\<close> on Latin-1.\<close>

definition is_space :: "char \<Rightarrow> bool" where
  "is_space c = (let n = (of_char c :: nat) in
     (9 \<le> n \<and> n \<le> 13) \<or> (28 \<le> n \<and> n \<le> 32) \<or> n = 133 \<or> n = 160)"

definition strip_text :: "string \<Rightarrow> string" where
  "strip_text s = rev (dropWhile is_space (rev (dropWhile is_space s)))"

subsection \<open>Invariants of operation-labelled systems\<close>

locale inv_system =
  fixes apply_op :: "'op \<Rightarrow> 's \<Rightarrow> 's"
    and inv :: "'s \<Rightarrow> bool"
    and allowed :: "'op \<Rightarrow> bool"
  assumes op_keeps_inv: "inv s \<Longrightarrow> allowed a \<Longrightarrow> inv (apply_op a s)"
begin

lemma run_keeps_inv: "inv s \<Longrightarrow> list_all allowed ops \<Longrightarrow> inv (fold apply_op ops s)"
  by (induction ops arbitrary: s) (auto intro: op_keeps_inv)

lemma run_prefix_inv:
  assumes "inv s" and "list_all allowed ops"
  shows "inv (fold apply_op (take n ops) s)"
  using assms by (intro run_keeps_inv) (auto simp: list_all_iff dest: in_set_takeD)

end

subsection \<open>Ask-then-record gates\<close>

text \<open>
  \<open>ask s c t\<close> answers a call \<open>c\<close> at time \<open>t\<close> (and may tidy the state); \<open>note_run s c t\<close> is
  told when it was executed. \<open>load s t\<close> is how many executions count at time \<open>t\<close>, \<open>counts c\<close>
  says which calls are counted. The provider promises to admit a counted call only below
  \<open>limit\<close>, to count one execution at most once, and that time alone never adds load.
\<close>

definition guarded_step ::
  "('s \<Rightarrow> 'c \<Rightarrow> time \<Rightarrow> bool \<times> 's) \<Rightarrow> ('s \<Rightarrow> 'c \<Rightarrow> time \<Rightarrow> 's) \<Rightarrow> 's \<Rightarrow> 'c \<Rightarrow> time \<Rightarrow> 's"
  where "guarded_step ask note_run s c t =
     (let (b, s') = ask s c t in if b then note_run s' c t else s')"

fun guarded ::
  "('s \<Rightarrow> 'c \<Rightarrow> time \<Rightarrow> bool \<times> 's) \<Rightarrow> ('s \<Rightarrow> 'c \<Rightarrow> time \<Rightarrow> 's) \<Rightarrow> 's \<Rightarrow> ('c \<times> time) list \<Rightarrow> 's"
  where
  "guarded ask note_run s [] = s"
| "guarded ask note_run s ((c, t) # cs) =
     guarded ask note_run (guarded_step ask note_run s c t) cs"

locale rate_gate =
  fixes ask :: "'s \<Rightarrow> 'c \<Rightarrow> time \<Rightarrow> bool \<times> 's"
    and note_run :: "'s \<Rightarrow> 'c \<Rightarrow> time \<Rightarrow> 's"
    and counts :: "'c \<Rightarrow> bool"
    and load :: "'s \<Rightarrow> time \<Rightarrow> nat"
    and limit :: nat
    and ok :: "'s \<Rightarrow> time \<Rightarrow> bool"
  assumes ask_below: "ok s t \<Longrightarrow> counts c \<Longrightarrow> ask s c t = (True, s') \<Longrightarrow> load s' t < limit"
    and ask_load: "ok s t \<Longrightarrow> ask s c t = (b, s') \<Longrightarrow> load s' t = load s t"
    and ask_ok: "ok s t \<Longrightarrow> ask s c t = (b, s') \<Longrightarrow> ok s' t"
    and load_note: "ok s t \<Longrightarrow> load (note_run s c t) t \<le> load s t + (if counts c then 1 else 0)"
    and load_mono: "ok s t \<Longrightarrow> t \<le> t' \<Longrightarrow> load s t' \<le> load s t"
    and ok_note: "ok s t \<Longrightarrow> ok (note_run s c t) t"
    and ok_later: "ok s t \<Longrightarrow> t \<le> t' \<Longrightarrow> ok s t'"
begin

lemma guarded_step_ok: "ok s t \<Longrightarrow> ok (guarded_step ask note_run s c t) t"
  by (auto simp: guarded_step_def split: prod.split intro: ok_note ask_ok)

lemma guarded_step_load:
  assumes "ok s t" and "load s t \<le> limit"
  shows "load (guarded_step ask note_run s c t) t \<le> limit"
proof -
  obtain b s' where a: "ask s c t = (b, s')" by fastforce
  have "load s' t \<le> limit" using ask_load [OF assms(1) a] assms(2) by simp
  moreover have "load (note_run s' c t) t \<le> limit" if b
    using load_note [OF ask_ok [OF assms(1) a], of c] ask_below [OF assms(1), of c s'] a that
      \<open>load s' t \<le> limit\<close> by (cases "counts c") auto
  ultimately show ?thesis by (simp add: guarded_step_def a)
qed

lemma guarded_load:
  "ok s t \<Longrightarrow> load s t \<le> limit \<Longrightarrow> sorted (t # map snd cs) \<Longrightarrow>
     ok (guarded ask note_run s cs) (last (t # map snd cs)) \<and>
     load (guarded ask note_run s cs) (last (t # map snd cs)) \<le> limit"
proof (induction cs arbitrary: s t)
  case Nil
  then show ?case by simp
next
  case (Cons cu cs)
  obtain c u where cu: "cu = (c, u)" by (cases cu)
  have "t \<le> u" using Cons.prems cu by simp
  then have u: "ok s u" "load s u \<le> limit"
    using Cons.prems load_mono [of s t u] ok_later by (auto intro: order_trans)
  then have "ok (guarded_step ask note_run s c u) u" "load (guarded_step ask note_run s c u) u \<le> limit"
    by (simp_all add: guarded_step_ok guarded_step_load)
  with Cons.IH [of "guarded_step ask note_run s c u" u] Cons.prems cu show ?case by simp
qed

text \<open>Other properties of the state that single guarded calls keep, run by run.\<close>

lemma guarded_keeps:
  assumes step: "\<And>s c t. ok s t \<Longrightarrow> P s t \<Longrightarrow> P (guarded_step ask note_run s c t) t"
    and later: "\<And>s t t'. ok s t \<Longrightarrow> P s t \<Longrightarrow> t \<le> t' \<Longrightarrow> P s t'"
  shows "ok s t \<Longrightarrow> P s t \<Longrightarrow> sorted (t # map snd cs) \<Longrightarrow>
     P (guarded ask note_run s cs) (last (t # map snd cs))"
proof (induction cs arbitrary: s t)
  case Nil
  then show ?case by simp
next
  case (Cons cu cs)
  obtain c u where cu: "cu = (c, u)" by (cases cu)
  have "t \<le> u" using Cons.prems cu by simp
  then have "ok s u" "P s u" using Cons.prems later ok_later by auto
  then have "ok (guarded_step ask note_run s c u) u" "P (guarded_step ask note_run s c u) u"
    by (simp_all add: guarded_step_ok step)
  with Cons.IH [of "guarded_step ask note_run s c u" u] Cons.prems cu show ?case by simp
qed

end

end
