(* ===== verification/Models.thy ===== *)
theory Models
  imports Prelude
begin

text \<open>
  The domain objects of \<open>src/src/harkeniq/models.py\<close>: its enumerations as datatypes with the
  source's members, its dataclasses as records. Field names carry a prefix where two classes
  share one. Texts composed for people (messages, reasons) are kept as values of a datatype
  that says which text it is and what was put into it. \<open>VerdictSeverity\<close> is a linear order,
  as the comparison methods of the class make it.
\<close>

subsection \<open>Enumerations\<close>

datatype severity = SevUnknown | SevHealthy | SevTrending | SevWarning | SevCritical

text \<open>\<open>_VERDICT_ORDER.index(self)\<close>: the position in the ordering list.\<close>

fun verdict_order :: "severity \<Rightarrow> nat" where
  "verdict_order SevUnknown = 0"
| "verdict_order SevHealthy = 1"
| "verdict_order SevTrending = 2"
| "verdict_order SevWarning = 3"
| "verdict_order SevCritical = 4"

lemma verdict_order_inj [simp]: "verdict_order a = verdict_order b \<longleftrightarrow> a = b"
  by (cases a; cases b) simp_all

definition verdict_less :: "severity \<Rightarrow> severity \<Rightarrow> bool" where
  "verdict_less a b \<longleftrightarrow> verdict_order a < verdict_order b"

definition verdict_less_eq :: "severity \<Rightarrow> severity \<Rightarrow> bool" where
  "verdict_less_eq a b \<longleftrightarrow> a = b \<or> verdict_less a b"

instantiation severity :: linorder
begin

definition less_severity :: "severity \<Rightarrow> severity \<Rightarrow> bool" where
  "less_severity = verdict_less"

definition less_eq_severity :: "severity \<Rightarrow> severity \<Rightarrow> bool" where
  "less_eq_severity = verdict_less_eq"

instance
proof
  fix x y z :: severity
  show "x < y \<longleftrightarrow> x \<le> y \<and> \<not> y \<le> x"
    by (auto simp: less_severity_def less_eq_severity_def verdict_less_def verdict_less_eq_def)
  show "x \<le> x" by (simp add: less_eq_severity_def verdict_less_eq_def)
  show "x \<le> y \<Longrightarrow> y \<le> z \<Longrightarrow> x \<le> z"
    by (auto simp: less_severity_def less_eq_severity_def verdict_less_def verdict_less_eq_def)
  show "x \<le> y \<Longrightarrow> y \<le> x \<Longrightarrow> x = y"
    by (auto simp: less_severity_def less_eq_severity_def verdict_less_def verdict_less_eq_def)
  have "verdict_order x \<noteq> verdict_order y \<or> x = y" by simp
  then show "x \<le> y \<or> y \<le> x"
    by (auto simp: less_severity_def less_eq_severity_def verdict_less_def verdict_less_eq_def)
qed

end

lemma severity_le_order: "a \<le> b \<longleftrightarrow> verdict_order a \<le> verdict_order (b :: severity)"
proof -
  have "verdict_order a = verdict_order b \<longleftrightarrow> a = b" by (rule verdict_order_inj)
  then show ?thesis by (auto simp: less_severity_def less_eq_severity_def verdict_less_def verdict_less_eq_def)
qed

datatype agent_state =
  Booting | Observing | Evaluating | Deciding | AwaitingAuth | Acting | Reporting

datatype peer_status = PeerUnknown | PeerAlive | PeerUnresponsive

datatype action_type =
    IdentifyLed | CollectDiagnostics | FanReset
  | SelClear | BmcReset | PowerCycle | PowerCapAdjust
  | ConfigRestore
  | FirmwareUpdate | FirmwareRollback
  | ClearCounters | InterfaceReset | InterfaceDisable | InterfaceEnable

text \<open>\<open>ActionType.value\<close> and the constructor call \<open>ActionType(value)\<close>.\<close>

fun action_value :: "action_type \<Rightarrow> string" where
  "action_value IdentifyLed = ''IDENTIFY_LED''"
| "action_value CollectDiagnostics = ''COLLECT_DIAGNOSTICS''"
| "action_value FanReset = ''FAN_RESET''"
| "action_value SelClear = ''SEL_CLEAR''"
| "action_value BmcReset = ''BMC_RESET''"
| "action_value PowerCycle = ''POWER_CYCLE''"
| "action_value PowerCapAdjust = ''POWER_CAP_ADJUST''"
| "action_value ConfigRestore = ''CONFIG_RESTORE''"
| "action_value FirmwareUpdate = ''FIRMWARE_UPDATE''"
| "action_value FirmwareRollback = ''FIRMWARE_ROLLBACK''"
| "action_value ClearCounters = ''CLEAR_COUNTERS''"
| "action_value InterfaceReset = ''INTERFACE_RESET''"
| "action_value InterfaceDisable = ''INTERFACE_DISABLE''"
| "action_value InterfaceEnable = ''INTERFACE_ENABLE''"

definition all_actions :: "action_type list" where
  "all_actions = [IdentifyLed, CollectDiagnostics, FanReset, SelClear, BmcReset, PowerCycle,
     PowerCapAdjust, ConfigRestore, FirmwareUpdate, FirmwareRollback, ClearCounters,
     InterfaceReset, InterfaceDisable, InterfaceEnable]"

definition action_of_value :: "string \<Rightarrow> action_type option" where
  "action_of_value s = find (\<lambda>a. action_value a = s) all_actions"

lemma action_value_inj [simp]: "action_value a = action_value b \<longleftrightarrow> a = b"
  by (cases a; cases b) simp_all

lemma action_of_value_value [simp]: "action_of_value (action_value a) = Some a"
  by (cases a) (simp_all add: action_of_value_def all_actions_def)

lemma action_of_value_Some: "action_of_value s = Some a \<longleftrightarrow> s = action_value a"
proof
  assume "action_of_value s = Some a"
  then show "s = action_value a" by (auto simp: action_of_value_def find_Some_iff)
qed simp

datatype action_status =
  ActPending | ActApproved | ActDenied | ActExecuting | ActCompleted | ActFailed

datatype playbook_status = PbRunning | PbPaused | PbCompleted | PbFailed | PbRolledBack

datatype claim_status = ClaimActive | ClaimLapsed | ClaimResolved

datatype quorum_verdict = DeviceDown | LinkDown | NodeFailed | Isolated | Inconclusive

subsection \<open>Actions\<close>

text \<open>
  The text of a failed outcome (\<open>ActionOutcome.error_message\<close>) is composed by whoever
  refuses or fails the action, so it is a type parameter of the outcome and of the action.
\<close>

record 'err action_outcome =
  out_action_id :: string
  out_type :: action_type
  out_target :: string
  out_success :: bool
  out_error :: "'err option"
  out_duration_ms :: real
  out_timestamp :: time

record 'err action =
  act_id :: string
  act_type :: action_type
  act_params :: "(string, string) dict"
  act_status :: action_status
  act_sensor_id :: string
  act_skill_name :: string
  act_severity :: severity
  act_proposed_at :: time
  act_approved_at :: "time option"
  act_completed_at :: "time option"
  act_outcome :: "'err action_outcome option"

subsection \<open>Peers and heartbeats\<close>

type_synonym health = "(string, string) dict"

record peer =
  peer_id :: string
  peer_host :: string
  peer_port :: int
  peer_last_heartbeat :: "time option"
  peer_status :: peer_status
  peer_last_health :: "health option"
  peer_health_buffer :: "health list"
  peer_name :: "string option"

record heartbeat_packet =
  hb_v :: int
  hb_agent_id :: string
  hb_name :: string
  hb_seq :: int
  hb_ts :: time
  hb_state :: string
  hb_health_summary :: health
  hb_hmac :: string

subsection \<open>State transitions\<close>

record state_transition =
  from_state :: agent_state
  to_state :: agent_state
  tr_reason :: string
  tr_timestamp :: time

subsection \<open>Debounce, baselines and trends\<close>

record debounce_config =
  db_count :: int
  db_window :: int

record debounce_state =
  ds_sensor_id :: string
  ds_skill_name :: string
  ds_window :: "severity list"
  ds_window_size :: int
  ds_threshold_count :: int
  ds_current :: severity
  ds_last_transition_at :: "time option"

record regression_state =
  sum_x :: real
  sum_y :: real
  sum_xy :: real
  sum_x2 :: real
  sum_y2 :: real
  reg_n :: int
  eviction_count :: int

record baseline =
  bl_sensor_id :: string
  bl_mean :: real
  bl_stddev :: real
  bl_variance :: real
  bl_m2 :: real
  bl_min :: "real option"
  bl_max :: "real option"
  bl_count :: int
  bl_ring :: "(time \<times> real) list"
  bl_buffer_size :: int
  bl_first_at :: "time option"
  bl_last_at :: "time option"
  bl_degraded :: bool
  bl_critical_pause :: int
  bl_regression :: regression_state

end
