(* ===== verification/Agent_State.thy ===== *)
theory Agent_State
  imports Models
begin

text \<open>
  The agent's state machine (\<open>src/src/harkeniq/state/machine.py\<close>): the transition table, the
  guarded transition with its \<open>ValueError\<close>, and the recorded history. The invariant says that
  the history is a path of the table from \<open>BOOTING\<close> to the current state.
\<close>

record state_machine =
  sm_state :: agent_state
  sm_history :: "state_transition list"

datatype transition_error = InvalidTransition agent_state agent_state

definition init_machine :: state_machine where
  "init_machine = \<lparr>sm_state = Booting, sm_history = []\<rparr>"

fun transition_table :: "agent_state \<Rightarrow> agent_state list" where
  "transition_table Booting = [Observing]"
| "transition_table Observing = [Evaluating]"
| "transition_table Evaluating = [Deciding]"
| "transition_table Deciding = [Observing, AwaitingAuth]"
| "transition_table AwaitingAuth = [Acting, Reporting]"
| "transition_table Acting = [Reporting]"
| "transition_table Reporting = [Observing]"

definition can_transition :: "state_machine \<Rightarrow> agent_state \<Rightarrow> bool" where
  "can_transition m s = (s \<in> set (transition_table (sm_state m)))"

definition transition ::
  "time \<Rightarrow> agent_state \<Rightarrow> string \<Rightarrow> state_machine \<Rightarrow>
     (transition_error + state_transition) \<times> state_machine" where
  "transition clock s reason m =
     (if \<not> can_transition m s then (Inl (InvalidTransition (sm_state m) s), m)
      else (let r = \<lparr>from_state = sm_state m, to_state = s, tr_reason = reason,
                     tr_timestamp = clock\<rparr>
            in (Inr r, m\<lparr>sm_state := s, sm_history := sm_history m @ [r]\<rparr>)))"

text \<open>A history that is a path of the table from one state to another.\<close>

fun path :: "agent_state \<Rightarrow> state_transition list \<Rightarrow> agent_state \<Rightarrow> bool" where
  "path s [] t = (s = t)"
| "path s (r # rs) t =
     (from_state r = s \<and> to_state r \<in> set (transition_table s) \<and> path (to_state r) rs t)"

lemma path_append: "path s (xs @ ys) t \<longleftrightarrow> (\<exists>u. path s xs u \<and> path u ys t)"
  by (induction xs arbitrary: s) auto

definition machine_inv :: "state_machine \<Rightarrow> bool" where
  "machine_inv m = path Booting (sm_history m) (sm_state m)"

type_synonym machine_op = "time \<times> agent_state \<times> string"

fun machine_step :: "machine_op \<Rightarrow> state_machine \<Rightarrow> state_machine" where
  "machine_step (clock, s, reason) m = snd (transition clock s reason m)"

interpretation machine: inv_system machine_step machine_inv "\<lambda>_. True"
proof
  fix m :: state_machine and op :: machine_op
  assume "machine_inv m"
  then show "machine_inv (machine_step op m)"
    by (cases op) (auto simp: machine_inv_def transition_def can_transition_def Let_def path_append)
qed

lemma machine_inv_init [simp]: "machine_inv init_machine"
  by (simp add: machine_inv_def init_machine_def)

text \<open>
  Going backwards along a path: which states can come before. From \<open>ACTING\<close> the way back is
  forced for four transitions.
\<close>

lemma path_snocE:
  assumes "path s (xs @ [r]) t"
  obtains "path s xs (from_state r)" "to_state r = t" "t \<in> set (transition_table (from_state r))"
  using assms by (auto simp: path_append)

lemma path_last_step:
  assumes "path s xs t" and "s \<noteq> t"
  obtains ys r where "xs = ys @ [r]" "path s ys (from_state r)" "to_state r = t"
    "t \<in> set (transition_table (from_state r))"
  using assms by (cases xs rule: rev_cases) (auto elim: path_snocE)

lemma before_acting: "Acting \<in> set (transition_table s) \<longleftrightarrow> s = AwaitingAuth"
  and before_awaiting: "AwaitingAuth \<in> set (transition_table s) \<longleftrightarrow> s = Deciding"
  and before_deciding: "Deciding \<in> set (transition_table s) \<longleftrightarrow> s = Evaluating"
  and before_evaluating: "Evaluating \<in> set (transition_table s) \<longleftrightarrow> s = Observing"
  by (cases s; simp)+

lemma acting_path:
  assumes "path Booting xs Acting"
  obtains ys where "map to_state xs = ys @ [Evaluating, Deciding, AwaitingAuth, Acting]"
    "ys \<noteq> []" "last ys = Observing"
proof -
  obtain x1 r1 where 1: "xs = x1 @ [r1]" "to_state r1 = Acting" "path Booting x1 AwaitingAuth"
    using assms by (rule path_last_step) (auto simp: before_acting)
  obtain x2 r2 where 2: "x1 = x2 @ [r2]" "to_state r2 = AwaitingAuth" "path Booting x2 Deciding"
    using 1(3) by (rule path_last_step) (auto simp: before_awaiting)
  obtain x3 r3 where 3: "x2 = x3 @ [r3]" "to_state r3 = Deciding" "path Booting x3 Evaluating"
    using 2(3) by (rule path_last_step) (auto simp: before_deciding)
  obtain x4 r4 where 4: "x3 = x4 @ [r4]" "to_state r4 = Evaluating" "path Booting x4 Observing"
    using 3(3) by (rule path_last_step) (auto simp: before_evaluating)
  obtain x5 r5 where 5: "x4 = x5 @ [r5]" "to_state r5 = Observing"
    using 4(3) by (rule path_last_step) auto
  show ?thesis
    by (rule that [of "map to_state x4"]) (simp_all add: 1 2 3 4 5)
qed

subsection \<open>Properties\<close>

text \<open>Whatever transitions are requested, the recorded history is a path of the transition table
  from booting to the current state, and every time the agent entered \<open>ACTING\<close> it had just
  observed, evaluated, decided and waited for authorization, in this order.\<close>

theorem acting_only_after_auth:
  assumes "m = fold machine_step ops init_machine"
  shows "path Booting (sm_history m) (sm_state m)
    \<and> (\<forall>pre r post. sm_history m = pre @ r # post \<longrightarrow> to_state r = Acting \<longrightarrow>
        (\<exists>ys. ys \<noteq> [] \<and> last ys = Observing \<and>
           map to_state pre = ys @ [Evaluating, Deciding, AwaitingAuth]))"
proof -
  have inv: "path Booting (sm_history m) (sm_state m)"
    using machine.run_keeps_inv [OF machine_inv_init, of ops] assms
    by (simp add: machine_inv_def list_all_iff)
  have "\<exists>ys. ys \<noteq> [] \<and> last ys = Observing \<and>
      map to_state pre = ys @ [Evaluating, Deciding, AwaitingAuth]"
    if h: "sm_history m = pre @ r # post" and a: "to_state r = Acting" for pre r post
  proof -
    have "path Booting (pre @ [r]) Acting"
      using inv a unfolding h by (auto simp: path_append)
    from acting_path [OF this] show ?thesis by (metis butlast.simps(2) butlast_append
          butlast_snoc list.distinct(1) map_append list.simps(8,9))
  qed
  with inv show ?thesis by blast
qed

text \<open>A run through one cycle; the request to act at once is refused.\<close>

definition demo_cycle :: "machine_op list" where
  "demo_cycle = [(1, Acting, ''''), (2, Observing, ''''), (3, Evaluating, ''''),
     (4, Deciding, ''''), (5, AwaitingAuth, ''''), (6, Acting, '''')]"

lemma acting_only_after_auth_witness:
  "sm_state (fold machine_step demo_cycle init_machine) = Acting \<and>
   path Booting (sm_history (fold machine_step demo_cycle init_machine)) Acting"
proof -
  have "sm_state (fold machine_step demo_cycle init_machine) = Acting"
    by (simp add: demo_cycle_def init_machine_def transition_def can_transition_def Let_def)
  with acting_only_after_auth [OF refl, of demo_cycle] show ?thesis by metis
qed

end
