(* ===== verification/Action_Queue.thy ===== *)
theory Action_Queue
  imports Models
begin

text \<open>
  The approval queue of proposed actions (\<open>src/src/harkeniq/actions/queue.py\<close>). \<open>enqueue\<close> is
  told the identifier that \<open>uuid4\<close> made. The invariant: actions are filed under their own
  identifiers, and no two blocking actions share a sensor and an action type.
\<close>

type_synonym 'err queue = "(string, 'err action) dict"

datatype action_error = UnknownAction string | NotPending string action_status

definition blocking_statuses :: "action_status list" where
  "blocking_statuses = [ActPending, ActApproved, ActExecuting, ActDenied]"

definition new_action ::
  "string \<Rightarrow> time \<Rightarrow> action_type \<Rightarrow> string \<Rightarrow> string \<Rightarrow> severity \<Rightarrow> (string, string) dict \<Rightarrow>
     'err action" where
  "new_action i clock ty sensor skill sev ps =
     \<lparr>act_id = i, act_type = ty, act_params = ps, act_status = ActPending,
      act_sensor_id = sensor, act_skill_name = skill, act_severity = sev,
      act_proposed_at = clock, act_approved_at = None, act_completed_at = None,
      act_outcome = None\<rparr>"

definition blocks :: "action_type \<Rightarrow> string \<Rightarrow> 'err action \<Rightarrow> bool" where
  "blocks ty sensor a \<longleftrightarrow>
     act_sensor_id a = sensor \<and> act_type a = ty \<and> act_status a \<in> set blocking_statuses"

definition enqueue ::
  "string \<Rightarrow> time \<Rightarrow> action_type \<Rightarrow> string \<Rightarrow> string \<Rightarrow> severity \<Rightarrow>
     (string, string) dict option \<Rightarrow> 'err queue \<Rightarrow> 'err action option \<times> 'err queue" where
  "enqueue i clock ty sensor skill sev params q =
     (if \<exists>a \<in> set (dvals q). blocks ty sensor a then (None, q)
      else (let a = new_action i clock ty sensor skill sev (case params of None \<Rightarrow> [] | Some p \<Rightarrow> p)
            in (Some a, dset (act_id a) a q)))"

definition require_action :: "string \<Rightarrow> 'err queue \<Rightarrow> action_error + 'err action" where
  "require_action i q = (case dget q i of None \<Rightarrow> Inl (UnknownAction i) | Some a \<Rightarrow> Inr a)"

definition approve ::
  "time \<Rightarrow> string \<Rightarrow> 'err queue \<Rightarrow> (action_error + 'err action) \<times> 'err queue" where
  "approve clock i q =
     (case require_action i q of
        Inl e \<Rightarrow> (Inl e, q)
      | Inr a \<Rightarrow>
          if act_status a \<noteq> ActPending then (Inl (NotPending i (act_status a)), q)
          else (let a' = a\<lparr>act_status := ActApproved, act_approved_at := Some clock\<rparr>
                in (Inr a', dset i a' q)))"

definition deny ::
  "time \<Rightarrow> string \<Rightarrow> 'err queue \<Rightarrow> (action_error + 'err action) \<times> 'err queue" where
  "deny clock i q =
     (case require_action i q of
        Inl e \<Rightarrow> (Inl e, q)
      | Inr a \<Rightarrow>
          if act_status a \<noteq> ActPending then (Inl (NotPending i (act_status a)), q)
          else (let a' = a\<lparr>act_status := ActDenied, act_completed_at := Some clock\<rparr>
                in (Inr a', dset i a' q)))"

definition pending :: "'err queue \<Rightarrow> 'err action list" where
  "pending q = filter (\<lambda>a. act_status a = ActPending) (dvals q)"

definition approved :: "'err queue \<Rightarrow> 'err action list" where
  "approved q = filter (\<lambda>a. act_status a = ActApproved) (dvals q)"

definition restore_actions :: "'err action list \<Rightarrow> 'err queue \<Rightarrow> 'err queue" where
  "restore_actions actions q = fold (\<lambda>a. dset (act_id a) a) actions q"

subsection \<open>The queue's invariant\<close>

text \<open>
  Stated through lookups: every action stands under its own identifier, and a sensor and type
  have at most one blocking action.
\<close>

definition queue_inv :: "'err queue \<Rightarrow> bool" where
  "queue_inv q \<longleftrightarrow> wf_dict q \<and> (\<forall>i a. dget q i = Some a \<longrightarrow> act_id a = i) \<and>
     (\<forall>i j a b. dget q i = Some a \<longrightarrow> dget q j = Some b \<longrightarrow>
        blocks (act_type a) (act_sensor_id a) a \<longrightarrow> blocks (act_type a) (act_sensor_id a) b \<longrightarrow> i = j)"

datatype queue_op =
    QEnqueue string time action_type string string severity "(string, string) dict option"
  | QApprove time string
  | QDeny time string

fun queue_step :: "queue_op \<Rightarrow> 'err queue \<Rightarrow> 'err queue" where
  "queue_step (QEnqueue i clock ty sensor skill sev ps) q =
     snd (enqueue i clock ty sensor skill sev ps q)"
| "queue_step (QApprove clock i) q = snd (approve clock i q)"
| "queue_step (QDeny clock i) q = snd (deny clock i q)"

lemma blocks_new_action [simp]:
  "act_id (new_action i clock ty sensor skill sev ps) = i"
  "act_type (new_action i clock ty sensor skill sev ps) = ty"
  "act_sensor_id (new_action i clock ty sensor skill sev ps) = sensor"
  "act_status (new_action i clock ty sensor skill sev ps) = ActPending"
  by (simp_all add: new_action_def)

lemma no_blocker_dget:
  "\<not> (\<exists>a \<in> set (dvals q). blocks ty sensor a) \<Longrightarrow> dget q i = Some a \<Longrightarrow> \<not> blocks ty sensor a"
  using dget_in_dvals by fastforce

lemma enqueue_inv:
  assumes "queue_inv q"
  shows "queue_inv (snd (enqueue i clock ty sensor skill sev ps q))"
proof (cases "\<exists>a \<in> set (dvals q). blocks ty sensor a")
  case True
  then show ?thesis using assms by (simp add: enqueue_def)
next
  case False
  note free = no_blocker_dget [OF False]
  show ?thesis
    using assms False free
    by (auto simp: enqueue_def Let_def queue_inv_def blocks_def) 
qed

text \<open>Approving and denying change one pending action's status, and a pending action blocks.\<close>

lemma set_status_inv:
  assumes "queue_inv q" and "dget q i = Some a" and "act_status a = ActPending"
    and "act_id a' = act_id a" "act_type a' = act_type a" "act_sensor_id a' = act_sensor_id a"
  shows "queue_inv (dset i a' q)"
proof -
  have a: "blocks (act_type a) (act_sensor_id a) a"
    using assms(3) by (simp add: blocks_def blocking_statuses_def)
  have same: "j = i" if "dget q j = Some b" "blocks (act_type a) (act_sensor_id a) b" for j b
    using assms(1,2) a that unfolding queue_inv_def by metis
  show ?thesis
    unfolding queue_inv_def
  proof (intro conjI allI impI)
    show "wf_dict (dset i a' q)" using assms(1) by (simp add: queue_inv_def)
    fix j b
    assume "dget (dset i a' q) j = Some b"
    then show "act_id b = j"
      using assms unfolding queue_inv_def by (auto split: if_splits)
  next
    fix j k b c
    assume jk: "dget (dset i a' q) j = Some b" "dget (dset i a' q) k = Some c"
      and bl: "blocks (act_type b) (act_sensor_id b) b" "blocks (act_type b) (act_sensor_id b) c"
    show "j = k"
    proof (cases "j = i \<or> k = i")
      case True
      have "act_type c = act_type b" "act_sensor_id c = act_sensor_id b"
        using bl by (auto simp: blocks_def)
      with True jk bl same assms(5,6) show ?thesis by (auto split: if_splits)
    next
      case False
      with jk bl assms(1) show ?thesis unfolding queue_inv_def by simp
    qed
  qed
qed

lemma approve_inv: "queue_inv q \<Longrightarrow> queue_inv (snd (approve clock i q))"
  by (auto simp: approve_def require_action_def Let_def split: option.split intro!: set_status_inv)

lemma deny_inv: "queue_inv q \<Longrightarrow> queue_inv (snd (deny clock i q))"
  by (auto simp: deny_def require_action_def Let_def split: option.split intro!: set_status_inv)

interpretation action_queue: inv_system queue_step queue_inv "\<lambda>_. True"
proof
  fix q :: "'err queue" and op
  assume "queue_inv q"
  then show "queue_inv (queue_step op q)"
    by (cases op) (simp_all add: enqueue_inv approve_inv deny_inv)
qed

lemma queue_inv_empty [simp]: "queue_inv []"
  by (simp add: queue_inv_def)

subsection \<open>A denial is final\<close>

definition fresh_op :: "string set \<Rightarrow> queue_op \<Rightarrow> bool" where
  "fresh_op used op = (case op of QEnqueue i _ _ _ _ _ _ \<Rightarrow> i \<notin> used | _ \<Rightarrow> True)"

lemma denied_stays:
  assumes "dget q i = Some a" and "act_status a = ActDenied" and "fresh_op {i} op"
  shows "dget (queue_step op q) i = Some a"
  using assms
  by (cases op; cases "dget q (case op of QApprove _ j \<Rightarrow> j | QDeny _ j \<Rightarrow> j | _ \<Rightarrow> i)")
    (auto simp: enqueue_def approve_def deny_def require_action_def Let_def fresh_op_def)

lemma denied_stays_run:
  assumes "dget q i = Some a" and "act_status a = ActDenied" and "list_all (fresh_op {i}) ops"
  shows "dget (fold queue_step ops q) i = Some a"
  using assms by (induction ops arbitrary: q) (simp_all add: denied_stays)

lemma denied_blocks:
  assumes "dget q i = Some a" and "act_status a = ActDenied"
  shows "enqueue j clock (act_type a) (act_sensor_id a) skill sev ps q = (None, q)"
proof -
  have "blocks (act_type a) (act_sensor_id a) a"
    using assms(2) by (simp add: blocks_def blocking_statuses_def)
  with dget_in_dvals [OF assms(1)]
  have "\<exists>b \<in> set (dvals q). blocks (act_type a) (act_sensor_id a) b" by blast
  then show ?thesis unfolding enqueue_def by (rule if_P)
qed

subsection \<open>Properties\<close>

text \<open>Whatever is proposed, approved and denied, at most one action of a sensor and type is ever
  open (pending, approved, executing) or denied.\<close>

theorem one_open_action:
  assumes "q = fold queue_step ops []"
    and "dget q i = Some a" and "dget q j = Some b"
    and "blocks ty sensor a" and "blocks ty sensor b"
  shows "i = j"
proof -
  have "queue_inv q"
    unfolding assms(1) by (rule action_queue.run_keeps_inv) (simp_all add: list_all_iff)
  moreover have "blocks (act_type a) (act_sensor_id a) a" "blocks (act_type a) (act_sensor_id a) b"
    using assms(4,5) by (auto simp: blocks_def)
  ultimately show ?thesis using assms(2,3) unfolding queue_inv_def by blast
qed

text \<open>A denial is final: after an operator denied an action, no later call on the queue changes
  it, and the same action is never proposed again for its sensor.\<close>

theorem denial_is_final:
  assumes "deny clock i q = (Inr a, q')" and "list_all (fresh_op {i}) ops"
  shows "dget (fold queue_step ops q') i = Some a
    \<and> enqueue j clock' (act_type a) (act_sensor_id a) skill sev ps (fold queue_step ops q') =
        (None, fold queue_step ops q')
    \<and> (\<exists>e. fst (approve clock' i (fold queue_step ops q')) = Inl e)"
proof -
  have a: "dget q' i = Some a" "act_status a = ActDenied"
    using assms(1) by (auto simp: deny_def require_action_def Let_def split: option.splits if_splits)
  have later: "dget (fold queue_step ops q') i = Some a"
    by (rule denied_stays_run [OF a assms(2)])
  moreover have "fst (approve clock' i (fold queue_step ops q')) = Inl (NotPending i ActDenied)"
    using later a(2) by (simp add: approve_def require_action_def)
  ultimately show ?thesis using denied_blocks [OF later a(2)] by blast
qed

definition demo_queue :: "nat queue" where
  "demo_queue = fold queue_step
     [QEnqueue ''x'' 1 FanReset ''fan1'' ''fans'' SevWarning None,
      QEnqueue ''y'' 2 FanReset ''fan1'' ''fans'' SevWarning None,
      QEnqueue ''z'' 3 FanReset ''fan2'' ''fans'' SevWarning None] []"

lemma demo_queue_eval:
  "demo_queue =
     [(''x'', new_action ''x'' 1 FanReset ''fan1'' ''fans'' SevWarning []),
      (''z'', new_action ''z'' 3 FanReset ''fan2'' ''fans'' SevWarning [])]"
  by (simp add: demo_queue_def enqueue_def blocks_def blocking_statuses_def Let_def)

lemma one_open_action_witness:
  "\<exists>b. dget demo_queue ''z'' = Some b \<and> \<not> blocks FanReset ''fan1'' b"
proof -
  have x: "dget demo_queue ''x'' = Some (new_action ''x'' 1 FanReset ''fan1'' ''fans'' SevWarning [])"
    "blocks FanReset ''fan1'' (new_action ''x'' 1 FanReset ''fan1'' ''fans'' SevWarning [] :: nat action)"
    by (simp_all add: demo_queue_eval blocks_def blocking_statuses_def)
  obtain b where z: "dget demo_queue ''z'' = Some b" by (simp add: demo_queue_eval)
  then have "\<not> blocks FanReset ''fan1'' b"
    using one_open_action [OF demo_queue_def x(1) z x(2)] by auto
  with z show ?thesis by blast
qed

lemma denial_is_final_witness:
  "fst (enqueue ''w'' 9 FanReset ''fan1'' ''fans'' SevCritical None
     (fold queue_step [QApprove 6 ''x'', QApprove 6 ''z''] (snd (deny 5 ''x'' demo_queue)))) = None"
proof -
  obtain a q' where d: "deny 5 ''x'' demo_queue = (Inr a, q')"
    and "act_type a = FanReset" "act_sensor_id a = ''fan1''"
    by (simp add: demo_queue_eval deny_def require_action_def Let_def)
  with denial_is_final [OF d, of "[QApprove 6 ''x'', QApprove 6 ''z'']" "''w''" 9 "''fans''"
      SevCritical None]
  show ?thesis by (simp add: fresh_op_def)
qed

end
