(* ===== verification/Values.thy ===== *)
theory Values
  imports Models
begin

text \<open>
  Python values as the dynamically typed parts of the program see them (evidence, device state,
  skill contexts, JSON payloads), with the language's truth value, equality and ordering.
  \<open>bool\<close> is a subclass of \<open>int\<close>: \<open>True == 1\<close> and \<open>0 == False\<close> hold. Ordering two values of
  unrelated types raises \<open>TypeError\<close>, the value \<open>None\<close> of the comparison.
\<close>

type_synonym byte = "8 word"
type_synonym bytes = "8 word list"

datatype pyval =
    PyNone
  | PyBool bool
  | PyInt int
  | PyFloat real
  | PyStr string
  | PyList "pyval list"
  | PyDict "(string \<times> pyval) list"

type_synonym pydict = "(string, pyval) dict"

fun py_number :: "pyval \<Rightarrow> real option" where
  "py_number (PyBool b) = Some (if b then 1 else 0)"
| "py_number (PyInt i) = Some (real_of_int i)"
| "py_number (PyFloat r) = Some r"
| "py_number _ = None"

fun py_truthy :: "pyval \<Rightarrow> bool" where
  "py_truthy PyNone = False"
| "py_truthy (PyBool b) = b"
| "py_truthy (PyInt i) = (i \<noteq> 0)"
| "py_truthy (PyFloat r) = (r \<noteq> 0)"
| "py_truthy (PyStr s) = (s \<noteq> [])"
| "py_truthy (PyList xs) = (xs \<noteq> [])"
| "py_truthy (PyDict d) = (d \<noteq> [])"

fun py_eq :: "pyval \<Rightarrow> pyval \<Rightarrow> bool"
  and py_eq_list :: "pyval list \<Rightarrow> pyval list \<Rightarrow> bool"
  and py_eq_items :: "(string \<times> pyval) list \<Rightarrow> (string \<times> pyval) list \<Rightarrow> bool" where
  "py_eq PyNone v = (v = PyNone)"
| "py_eq (PyBool b) v = (py_number v = Some (if b then 1 else 0))"
| "py_eq (PyInt i) v = (py_number v = Some (real_of_int i))"
| "py_eq (PyFloat r) v = (py_number v = Some r)"
| "py_eq (PyStr s) v = (v = PyStr s)"
| "py_eq (PyList xs) v = (case v of PyList ys \<Rightarrow> py_eq_list xs ys | _ \<Rightarrow> False)"
| "py_eq (PyDict d) v =
     (case v of PyDict e \<Rightarrow> length d = length e \<and> py_eq_items d e | _ \<Rightarrow> False)"
| "py_eq_list [] ys = (ys = [])"
| "py_eq_list (x # xs) ys = (case ys of [] \<Rightarrow> False | y # ys' \<Rightarrow> py_eq x y \<and> py_eq_list xs ys')"
| "py_eq_items [] e = True"
| "py_eq_items ((k, v) # d) e =
     ((case dget e k of None \<Rightarrow> False | Some w \<Rightarrow> py_eq v w) \<and> py_eq_items d e)"

definition as_dict :: "pyval \<Rightarrow> pydict option" where
  "as_dict v = (case v of PyDict d \<Rightarrow> Some d | _ \<Rightarrow> None)"

definition as_str :: "pyval \<Rightarrow> string option" where
  "as_str v = (case v of PyStr s \<Rightarrow> Some s | _ \<Rightarrow> None)"

lemma as_dict_Some [simp]: "as_dict v = Some d \<longleftrightarrow> v = PyDict d"
  by (cases v) (auto simp: as_dict_def)

lemma as_str_Some [simp]: "as_str v = Some s \<longleftrightarrow> v = PyStr s"
  by (cases v) (auto simp: as_str_def)

text \<open>\<open>a < b\<close>; \<open>None\<close> is the \<open>TypeError\<close> of unordered types (strings and numbers are ordered).\<close>

definition py_less :: "pyval \<Rightarrow> pyval \<Rightarrow> bool option" where
  "py_less a b =
     (case (py_number a, py_number b) of
        (Some x, Some y) \<Rightarrow> Some (x < y)
      | _ \<Rightarrow> (case (a, b) of (PyStr s, PyStr t) \<Rightarrow> Some (s < t) | _ \<Rightarrow> None))"

text \<open>\<open>json.dumps(..., sort_keys=True)\<close>: the object with the keys of every object sorted.\<close>

fun canonical :: "pyval \<Rightarrow> pyval" where
  "canonical (PyList xs) = PyList (map canonical xs)"
| "canonical (PyDict d) = PyDict (sort_key fst (map (\<lambda>(k, v). (k, canonical v)) d))"
| "canonical v = v"

lemma sort_items_map:
  "sort_key fst (map (\<lambda>(k, v). (k, f v)) d) = map (\<lambda>(k, v). (k, f v)) (sort_key fst d)"
proof -
  have ins: "insort_key fst (k, f v) (map (\<lambda>(k, v). (k, f v)) e) =
      map (\<lambda>(k, v). (k, f v)) (insort_key fst (k, v) e)" for k v e
    by (induction e) auto
  show ?thesis by (induction d) (auto simp: ins)
qed

lemma dget_sort_items: "wf_dict d \<Longrightarrow> dget (sort_key fst d) k = dget d k"
proof (induction d)
  case (Cons p d)
  have "dget (insort_key fst p e) k = dget (p # e) k" if "fst p \<notin> fst ` set e" for e :: "('a \<times> 'b) list"
    using that by (induction e) auto
  then show ?case using Cons by simp
qed simp

lemma dget_map_values: "dget (map (\<lambda>(k, v). (k, f v)) d) k = map_option f (dget d k)"
  by (induction d) auto

lemma py_eq_scalar_refl: "py_number v = Some r \<Longrightarrow> py_eq v v"
  by (cases v) auto

lemma py_eq_numbers:
  "py_number v = Some r \<Longrightarrow> py_eq v w \<longleftrightarrow> py_number w = Some r"
  by (cases v) auto

end
