(* ===== verification/Auth_Lease.thy ===== *)
theory Auth_Lease
  imports Values
begin

text \<open>
  The authorization lease that a site manager signs for an agent
  (\<open>src/src/harkeniq/autonomy/lease.py\<close>): building, parsing and checking it. The JSON codec, the
  Ed25519 check and the clock are parameters. A signed payload whose fields have other JSON types
  than the class declares would be stored unchecked by the program; here it is the error
  \<open>LeaseIllTyped\<close>, outside the modelled cases.
\<close>

definition sig_len :: nat where
  "sig_len = 64"

datatype lease_error =
    LeaseTooShort | LeaseBadSignature | LeaseNotJson | LeaseAgentMismatch pyval | LeaseIllTyped

record auth_lease =
  al_agent_id :: agent_id
  action_classes :: "string list"
  risk_ceiling :: string
  budget_remaining :: "(string, int) dict"
  lease_expiry :: time
  grace_expiry :: time
  suppression_domains :: "string list"
  stop_switch :: bool
  issued_at :: time

fun py_strs :: "pyval list \<Rightarrow> string list option" where
  "py_strs [] = Some []"
| "py_strs (PyStr s # vs) = map_option ((#) s) (py_strs vs)"
| "py_strs _ = None"

fun py_ints :: "pydict \<Rightarrow> (string, int) dict option" where
  "py_ints [] = Some []"
| "py_ints ((k, PyInt i) # d) = map_option ((#) (k, i)) (py_ints d)"
| "py_ints _ = None"

definition str_list :: "pyval \<Rightarrow> string list option" where
  "str_list v = (case v of PyList vs \<Rightarrow> py_strs vs | _ \<Rightarrow> None)"

definition int_dict :: "pyval \<Rightarrow> (string, int) dict option" where
  "int_dict v = (case v of PyDict d \<Rightarrow> py_ints d | _ \<Rightarrow> None)"

definition str_val :: "pyval \<Rightarrow> string option" where
  "str_val v = (case v of PyStr s \<Rightarrow> Some s | _ \<Rightarrow> None)"

definition lease_of_dict :: "agent_id \<Rightarrow> pydict \<Rightarrow> lease_error + auth_lease" where
  "lease_of_dict aid d =
     (case (str_list (dget_or d ''action_classes'' (PyList [])),
            str_val (dget_or d ''risk_ceiling'' (PyStr ''none'')),
            int_dict (dget_or d ''budget_remaining'' (PyDict [])),
            py_number (dget_or d ''lease_expiry'' (PyInt 0)),
            py_number (dget_or d ''grace_expiry'' (PyInt 0)),
            str_list (dget_or d ''suppression_domains'' (PyList [])),
            py_number (dget_or d ''issued_at'' (PyInt 0))) of
        (Some acts, Some risk, Some budget, Some expiry, Some grace, Some doms, Some issued) \<Rightarrow>
          Inr \<lparr>al_agent_id = aid, action_classes = acts, risk_ceiling = risk,
               budget_remaining = budget, lease_expiry = expiry, grace_expiry = grace,
               suppression_domains = doms,
               stop_switch = py_truthy (dget_or d ''stop_switch'' (PyBool False)),
               issued_at = issued\<rparr>
      | _ \<Rightarrow> Inl LeaseIllTyped)"

definition parse_lease ::
  "(bytes \<Rightarrow> pyval option) \<Rightarrow> (bytes \<Rightarrow> bytes \<Rightarrow> bool) \<Rightarrow> agent_id \<Rightarrow> bytes \<Rightarrow>
     lease_error + auth_lease" where
  "parse_lease json_loads verify_sm me raw =
     (if length raw \<le> sig_len then Inl LeaseTooShort
      else (let payload = take (length raw - sig_len) raw;
                signature = drop (length raw - sig_len) raw in
        if \<not> verify_sm payload signature then Inl LeaseBadSignature
        else (case json_loads payload of
            None \<Rightarrow> Inl LeaseNotJson
          | Some (PyDict d) \<Rightarrow>
              if dget_or d ''agent_id'' PyNone \<noteq> PyStr me
              then Inl (LeaseAgentMismatch (dget_or d ''agent_id'' PyNone))
              else lease_of_dict me d
          | Some _ \<Rightarrow> Inl LeaseIllTyped)))"

definition al_is_valid :: "time option \<Rightarrow> time \<Rightarrow> auth_lease \<Rightarrow> bool" where
  "al_is_valid now clock l \<longleftrightarrow> now_or now clock < lease_expiry l"

definition is_in_grace :: "time option \<Rightarrow> time \<Rightarrow> auth_lease \<Rightarrow> bool" where
  "is_in_grace now clock l \<longleftrightarrow>
     lease_expiry l \<le> now_or now clock \<and> now_or now clock < grace_expiry l"

definition is_fully_expired :: "time option \<Rightarrow> time \<Rightarrow> auth_lease \<Rightarrow> bool" where
  "is_fully_expired now clock l \<longleftrightarrow> grace_expiry l \<le> now_or now clock"

datatype lease_verdict = Execute | Propose | Deny

definition risk_rank :: "string \<Rightarrow> nat" where
  "risk_rank r = (if r = ''low'' then 1 else if r = ''medium'' then 2
     else if r = ''high'' then 3 else 0)"

definition allows_action ::
  "auth_lease \<Rightarrow> string \<Rightarrow> string \<Rightarrow> bool \<Rightarrow> time option \<Rightarrow> time \<Rightarrow> lease_verdict" where
  "allows_action l act risk sm_connected now clock =
     (let t = now_or now clock in
      if stop_switch l then Deny
      else if is_fully_expired (Some t) clock l then Deny
      else if is_in_grace (Some t) clock l then Propose
      else if \<not> al_is_valid (Some t) clock l then Propose
      else if act \<notin> set (action_classes l) then Deny
      else if dget_or (budget_remaining l) act 0 = 0 then Propose
      else if \<not> sm_connected \<and> 2 \<le> risk_rank risk then Propose
      else Execute)"

definition build_lease_payload ::
  "time \<Rightarrow> agent_id \<Rightarrow> string list \<Rightarrow> string \<Rightarrow> (string, int) dict \<Rightarrow> real \<Rightarrow> real \<Rightarrow>
     string list option \<Rightarrow> bool \<Rightarrow> pyval" where
  "build_lease_payload clock aid acts risk budget duration grace doms stop =
     canonical (PyDict [(''v'', PyInt 1), (''agent_id'', PyStr aid),
       (''action_classes'', PyList (map PyStr (sort acts))),
       (''risk_ceiling'', PyStr risk),
       (''budget_remaining'', PyDict (map (\<lambda>(k, i). (k, PyInt i)) budget)),
       (''lease_expiry'', PyFloat (clock + duration)),
       (''grace_expiry'', PyFloat (clock + duration + grace)),
       (''suppression_domains'',
          PyList (map PyStr (sort (case doms of None \<Rightarrow> [] | Some ds \<Rightarrow> ds)))),
       (''stop_switch'', PyBool stop), (''issued_at'', PyFloat clock)])"

subsection \<open>What the checks decide\<close>

text \<open>
  The effective time of a check: an explicit \<open>0\<close> falls back to the clock, twice when the
  check passes it on, with the same result.
\<close>

lemma now_or_idem [simp]: "now_or (Some (now_or now clock)) clock = now_or now clock"
  by (simp add: now_or_def split: option.split)

lemma allows_action_cases:
  fixes now clock
  defines "t \<equiv> now_or now clock"
  shows "allows_action l act risk conn now clock = Execute \<longleftrightarrow>
      \<not> stop_switch l \<and> t < lease_expiry l \<and> t < grace_expiry l \<and> act \<in> set (action_classes l) \<and>
      dget_or (budget_remaining l) act 0 \<noteq> 0 \<and> (conn \<or> risk_rank risk < 2)"
    and "allows_action l act risk conn now clock = Deny \<longleftrightarrow>
      stop_switch l \<or> grace_expiry l \<le> t \<or> t < lease_expiry l \<and> act \<notin> set (action_classes l)"
  unfolding t_def
  by (auto simp: allows_action_def Let_def is_fully_expired_def is_in_grace_def al_is_valid_def)

text \<open>The branch \<open>not self.is_valid(now)\<close> is never taken: the two tests before it leave only valid leases.\<close>

lemma invalid_branch_unreachable:
  "\<not> is_fully_expired now clock l \<Longrightarrow> \<not> is_in_grace now clock l \<Longrightarrow> al_is_valid now clock l"
  by (auto simp: is_fully_expired_def is_in_grace_def al_is_valid_def)

lemma py_strs_map [simp]: "py_strs (map PyStr ss) = Some ss"
  by (induction ss) simp_all

lemma py_ints_map [simp]: "py_ints (map (\<lambda>(k, i). (k, PyInt i)) d) = Some d"
  by (induction d) auto

lemma dget_canonical:
  "wf_dict d \<Longrightarrow> canonical (PyDict d) = PyDict e \<Longrightarrow> dget e k = map_option canonical (dget d k)"
  by (auto simp: sort_items_map dget_map_values dget_sort_items)

lemma canonical_ints:
  "sort_key fst (map (\<lambda>x. case case x of (k, i) \<Rightarrow> (k, PyInt i) of (k, v) \<Rightarrow> (k, canonical v)) d) =
     map (\<lambda>(k, i). (k, PyInt i)) (sort_key fst d)"
  by (subst sort_items_map [symmetric]) (simp add: case_prod_unfold)

text \<open>What the site manager builds, an agent of that name reads back.\<close>

lemma parse_build:
  assumes verify: "verify_sm payload sg" and sg: "length sg = sig_len" and ne: "payload \<noteq> []"
    and json: "json_loads payload =
      Some (build_lease_payload clock me acts risk budget duration grace doms stop)"
  shows "parse_lease json_loads verify_sm me (payload @ sg) =
    Inr \<lparr>al_agent_id = me, action_classes = sort acts, risk_ceiling = risk,
      budget_remaining = sort_key fst budget, lease_expiry = clock + duration,
      grace_expiry = clock + duration + grace,
      suppression_domains = sort (case doms of None \<Rightarrow> [] | Some ds \<Rightarrow> ds),
      stop_switch = stop, issued_at = clock\<rparr>"
proof -
  obtain e where e: "build_lease_payload clock me acts risk budget duration grace doms stop = PyDict e"
    by (simp add: build_lease_payload_def)
  then have get: "dget e k = map_option canonical (dget
     [(''v'', PyInt 1), (''agent_id'', PyStr me),
       (''action_classes'', PyList (map PyStr (sort acts))),
       (''risk_ceiling'', PyStr risk),
       (''budget_remaining'', PyDict (map (\<lambda>(k, i). (k, PyInt i)) budget)),
       (''lease_expiry'', PyFloat (clock + duration)),
       (''grace_expiry'', PyFloat (clock + duration + grace)),
       (''suppression_domains'',
          PyList (map PyStr (sort (case doms of None \<Rightarrow> [] | Some ds \<Rightarrow> ds)))),
       (''stop_switch'', PyBool stop), (''issued_at'', PyFloat clock)] k)" for k
    unfolding build_lease_payload_def by (intro dget_canonical) simp_all
  have "0 < length payload" using ne by simp
  then show ?thesis
    by (simp add: parse_lease_def Let_def sg verify json e lease_of_dict_def dget_or_def get
        str_list_def int_dict_def str_val_def comp_def canonical_ints)
qed

lemma parse_lease_authentic:
  assumes "parse_lease json_loads verify_sm me raw = Inr l"
  shows "al_agent_id l = me"
    and "\<exists>payload sg. raw = payload @ sg \<and> length sg = sig_len \<and> verify_sm payload sg"
proof -
  have "length raw > sig_len"
    and "verify_sm (take (length raw - sig_len) raw) (drop (length raw - sig_len) raw)"
    using assms by (auto simp: parse_lease_def Let_def split: if_splits)
  then show "\<exists>payload sg. raw = payload @ sg \<and> length sg = sig_len \<and> verify_sm payload sg"
    by (intro exI [of _ "take (length raw - sig_len) raw"]
        exI [of _ "drop (length raw - sig_len) raw"]) simp
  show "al_agent_id l = me"
    using assms
    by (auto simp: parse_lease_def Let_def lease_of_dict_def split: if_splits option.splits
        pyval.splits)
qed

subsection \<open>Properties\<close>

text \<open>A lease lets an action execute exactly when the stop switch is off, the lease and its grace
  period are running, the action class is permitted, its budget is not used up, and the site
  manager is connected or the risk is below medium; a stop switch or a fully expired lease always
  denies.\<close>

theorem lease_executes_iff:
  "(allows_action l act risk conn now clock = Execute \<longleftrightarrow>
      \<not> stop_switch l \<and> now_or now clock < lease_expiry l \<and> now_or now clock < grace_expiry l \<and>
      act \<in> set (action_classes l) \<and> dget_or (budget_remaining l) act 0 \<noteq> 0 \<and>
      (conn \<or> risk_rank risk < 2))
   \<and> (allows_action l act risk conn now clock = Deny \<longleftrightarrow>
      stop_switch l \<or> grace_expiry l \<le> now_or now clock \<or>
      now_or now clock < lease_expiry l \<and> act \<notin> set (action_classes l))"
  using allows_action_cases by blast

text \<open>An agent accepts a lease only with a valid site manager signature over the bytes before the
  last 64 and only when it names this agent; and what the site manager builds and signs for an
  agent, that agent reads back as built.\<close>

theorem lease_round_trip:
  assumes "verify_sm payload sg" and "length sg = sig_len" and "payload \<noteq> []"
    and "json_loads payload =
      Some (build_lease_payload clock me acts risk budget duration grace doms stop)"
  shows "parse_lease json_loads verify_sm me (payload @ sg) =
      Inr \<lparr>al_agent_id = me, action_classes = sort acts, risk_ceiling = risk,
        budget_remaining = sort_key fst budget, lease_expiry = clock + duration,
        grace_expiry = clock + duration + grace,
        suppression_domains = sort (case doms of None \<Rightarrow> [] | Some ds \<Rightarrow> ds),
        stop_switch = stop, issued_at = clock\<rparr>
    \<and> (\<forall>raw l. parse_lease json_loads verify_sm me raw = Inr l \<longrightarrow> al_agent_id l = me \<and>
        (\<exists>p s. raw = p @ s \<and> length s = sig_len \<and> verify_sm p s))"
proof (intro conjI allI impI)
  fix raw l
  assume l: "parse_lease json_loads verify_sm me raw = Inr l"
  show "al_agent_id l = me" and "\<exists>p s. raw = p @ s \<and> length s = sig_len \<and> verify_sm p s"
    by (rule parse_lease_authentic [OF l])+
qed (rule parse_build; fact assms)

lemma lease_round_trip_witness:
  "\<exists>l. parse_lease (\<lambda>_. Some (build_lease_payload 100 ''me'' [''b'', ''a''] ''low'' [] 300 60 None False))
      (\<lambda>p s. p = [7]) ''me'' ([7] @ replicate 64 0) = Inr l \<and>
    action_classes l = [''a'', ''b''] \<and> lease_expiry l = 400"
  using lease_round_trip [of "\<lambda>p s. p = [7]" "[7]" "replicate 64 0"
      "\<lambda>_. Some (build_lease_payload 100 ''me'' [''b'', ''a''] ''low'' [] 300 60 None False)"
      100 "''me''" "[''b'', ''a'']" "''low''" "[]" 300 60 None False]
  by (simp add: sig_len_def)

end
