(* ===== verification/Budgets.thy ===== *)
theory Budgets
  imports Models
begin

text \<open>
  The agent's local budget counters and stop switch (\<open>src/src/harkeniq/autonomy/budget.py\<close>), and
  the bound they give: between two refreshes an action with \<open>n\<close> runs left is granted at most
  \<open>n\<close> times by a caller that asks before every run and reports it after.
\<close>

record budget_entry =
  be_action_type :: action_type
  remaining :: int
  used_this_period :: int
  last_reset :: time

record budget_enforcer =
  bu_budgets :: "(string, budget_entry) dict"
  bu_stop :: bool

definition init_budgets :: budget_enforcer where
  "init_budgets = \<lparr>bu_budgets = [], bu_stop = False\<rparr>"

definition update_entry ::
  "time \<Rightarrow> string \<times> int \<Rightarrow> (string, budget_entry) dict \<Rightarrow> (string, budget_entry) dict" where
  "update_entry clock kv d =
     (let (act, r) = kv in
      case action_of_value act of
        None \<Rightarrow> d
      | Some ty \<Rightarrow>
          (case dget d act of
             None \<Rightarrow> dset act \<lparr>be_action_type = ty, remaining = r, used_this_period = 0,
                              last_reset = clock\<rparr> d
           | Some e \<Rightarrow> dset act (e\<lparr>remaining := r\<rparr>) d))"

definition update_from_lease ::
  "time \<Rightarrow> (string, int) dict \<Rightarrow> bool \<Rightarrow> budget_enforcer \<Rightarrow> budget_enforcer" where
  "update_from_lease clock rem stop b =
     b\<lparr>bu_stop := stop, bu_budgets := fold (update_entry clock) rem (bu_budgets b)\<rparr>"

definition bu_allows :: "action_type \<Rightarrow> budget_enforcer \<Rightarrow> bool" where
  "bu_allows ty b =
     (if bu_stop b then False
      else (case dget (bu_budgets b) (action_value ty) of
          None \<Rightarrow> True
        | Some e \<Rightarrow> if remaining e = -1 then True else 0 < remaining e))"

definition bu_consume :: "action_type \<Rightarrow> budget_enforcer \<Rightarrow> budget_enforcer" where
  "bu_consume ty b =
     (case dget (bu_budgets b) (action_value ty) of
        None \<Rightarrow> b
      | Some e \<Rightarrow>
          if remaining e = -1 then b
          else b\<lparr>bu_budgets := dset (action_value ty)
                 (e\<lparr>remaining := max 0 (remaining e - 1),
                    used_this_period := used_this_period e + 1\<rparr>) (bu_budgets b)\<rparr>)"

definition bu_state :: "budget_enforcer \<Rightarrow> (string \<times> (int \<times> int)) list" where
  "bu_state b = map (\<lambda>(k, e). (k, (remaining e, used_this_period e))) (bu_budgets b)"

definition activate_stop :: "budget_enforcer \<Rightarrow> budget_enforcer" where
  "activate_stop b = b\<lparr>bu_stop := True\<rparr>"

definition deactivate_stop :: "budget_enforcer \<Rightarrow> budget_enforcer" where
  "deactivate_stop b = b\<lparr>bu_stop := False\<rparr>"

definition bu_remaining :: "string \<Rightarrow> budget_enforcer \<Rightarrow> int option" where
  "bu_remaining k b = map_option remaining (dget (bu_budgets b) k)"

definition bu_used :: "string \<Rightarrow> budget_enforcer \<Rightarrow> int option" where
  "bu_used k b = map_option used_this_period (dget (bu_budgets b) k)"

subsection \<open>Refreshing from a lease\<close>

lemma update_entry_get:
  "dget (update_entry clock (act, r) d) k =
     (if k = act \<and> action_of_value act \<noteq> None
      then Some (case dget d act of
          None \<Rightarrow> \<lparr>be_action_type = the (action_of_value act), remaining = r,
                  used_this_period = 0, last_reset = clock\<rparr>
        | Some e \<Rightarrow> e\<lparr>remaining := r\<rparr>)
      else dget d k)"
  by (auto simp: update_entry_def split: option.split)

lemma update_entries_other:
  "k \<notin> set (dkeys rem) \<Longrightarrow> dget (fold (update_entry clock) rem d) k = dget d k"
  by (induction rem arbitrary: d) (auto simp: update_entry_get)

lemma update_entries_get:
  assumes "dget rem (action_value ty) = Some r" and "wf_dict rem"
  shows "\<exists>e. dget (fold (update_entry clock) rem d) (action_value ty) = Some e \<and> remaining e = r \<and>
    (case dget d (action_value ty) of None \<Rightarrow> used_this_period e = 0
       | Some e0 \<Rightarrow> used_this_period e = used_this_period e0)"
  using assms
proof (induction rem arbitrary: d)
  case (Cons kv rem)
  obtain k v where kv: "kv = (k, v)" by fastforce
  show ?case
  proof (cases "k = action_value ty")
    case True
    then have "action_value ty \<notin> set (dkeys rem)" using Cons.prems kv by simp
    with True Cons.prems kv show ?thesis
      by (auto simp: update_entries_other update_entry_get split: option.split)
  next
    case False
    with Cons.prems kv Cons.IH [of "update_entry clock kv d"] show ?thesis
      by (simp add: update_entry_get)
  qed
qed simp

lemma update_from_lease_remaining:
  assumes "dget rem (action_value ty) = Some r" and "wf_dict rem"
  shows "bu_remaining (action_value ty) (update_from_lease clock rem stop b) = Some r"
    and "bu_used (action_value ty) (update_from_lease clock rem stop b) =
      Some (case bu_used (action_value ty) b of None \<Rightarrow> 0 | Some u \<Rightarrow> u)"
  using update_entries_get [OF assms, of clock "bu_budgets b"]
  by (auto simp: bu_remaining_def bu_used_def update_from_lease_def split: option.splits)

subsection \<open>Asking before every run\<close>

text \<open>One attempt: ask, and if granted run the action and report it.\<close>

definition attempt :: "action_type \<Rightarrow> bool list \<times> budget_enforcer \<Rightarrow> bool list \<times> budget_enforcer" where
  "attempt ty s = (let (gs, b) = s in
     if bu_allows ty b then (gs @ [True], bu_consume ty b) else (gs @ [False], b))"

definition attempts :: "action_type list \<Rightarrow> budget_enforcer \<Rightarrow> bool list \<times> budget_enforcer" where
  "attempts tys b = fold attempt tys ([], b)"

text \<open>How many runs of \<open>ty\<close> were granted.\<close>

definition granted :: "action_type \<Rightarrow> action_type list \<Rightarrow> budget_enforcer \<Rightarrow> nat" where
  "granted ty tys b = length (filter (\<lambda>(a, g). a = ty \<and> g) (zip tys (fst (attempts tys b))))"

fun grants :: "action_type \<Rightarrow> action_type list \<Rightarrow> budget_enforcer \<Rightarrow> nat" where
  "grants ty [] b = 0"
| "grants ty (a # as) b =
     (if bu_allows a b then (if a = ty then 1 else 0) + grants ty as (bu_consume a b)
      else grants ty as b)"

lemma attempts_log: "fold attempt tys (gs, b) =
    (gs @ fst (fold attempt tys ([], b)), snd (fold attempt tys ([], b)))"
proof (induction tys arbitrary: gs b)
  case (Cons a as)
  obtain g b' where 1: "attempt a ([], b) = ([g], b')" and 2: "\<And>gs. attempt a (gs, b) = (gs @ [g], b')"
    by (cases "bu_allows a b") (auto simp: attempt_def)
  show ?case using Cons [of "gs @ [g]" b'] Cons [of "[g]" b'] by (simp add: 1 2)
qed simp

lemma granted_grants: "granted ty tys b = grants ty tys b"
proof (induction tys arbitrary: b)
  case Nil
  then show ?case by (simp add: granted_def)
next
  case (Cons a as)
  let ?b = "if bu_allows a b then bu_consume a b else b"
  have "attempts (a # as) b = (bu_allows a b # fst (attempts as ?b), snd (attempts as ?b))"
    using attempts_log [of as "[bu_allows a b]" ?b] by (cases "bu_allows a b") (simp_all add: attempts_def attempt_def)
  then have "granted ty (a # as) b = (if a = ty \<and> bu_allows a b then 1 else 0) + granted ty as ?b"
    by (auto simp: granted_def)
  with Cons show ?case by auto
qed

lemma bu_remaining_consume:
  "bu_remaining k (bu_consume ty b) =
     (if k = action_value ty then map_option (\<lambda>r. if r = -1 then r else max 0 (r - 1)) (bu_remaining k b)
      else bu_remaining k b)"
  by (auto simp: bu_remaining_def bu_consume_def split: option.split)

lemma bu_stop_consume [simp]: "bu_stop (bu_consume ty b) = bu_stop b"
  by (simp add: bu_consume_def split: option.split)

lemma bu_allows_remaining:
  "bu_allows ty b \<longleftrightarrow> \<not> bu_stop b \<and>
     (case bu_remaining (action_value ty) b of None \<Rightarrow> True | Some r \<Rightarrow> r = -1 \<or> 0 < r)"
  by (auto simp: bu_allows_def bu_remaining_def split: option.split)

lemma grants_eq:
  assumes "bu_remaining (action_value ty) b = Some (int n)"
  shows "grants ty as b = (if bu_stop b then 0 else min n (count_list as ty))"
  using assms
proof (induction as arbitrary: b n)
  case Nil
  then show ?case by simp
next
  case (Cons a as)
  show ?case
  proof (cases "a = ty \<and> bu_allows a b")
    case True
    then obtain k where k: "n = Suc k" and stop: "\<not> bu_stop b"
      using Cons.prems by (cases n) (auto simp: bu_allows_remaining)
    have "bu_remaining (action_value ty) (bu_consume ty b) = Some (int k)"
      using Cons.prems k by (simp add: bu_remaining_consume)
    from Cons.IH [OF this] True k stop show ?thesis by auto
  next
    case False
    have other: "bu_remaining (action_value ty) (bu_consume a b) = Some (int n)" if "a \<noteq> ty"
      using Cons.prems that by (simp add: bu_remaining_consume)
    have zero: "n = 0 \<or> bu_stop b" if "a = ty"
      using False that Cons.prems by (auto simp: bu_allows_remaining)
    show ?thesis
      using False other zero Cons.IH [of b n] Cons.IH [of "bu_consume a b" n] Cons.prems
      by (cases "a = ty") auto
  qed
qed

subsection \<open>Properties\<close>

text \<open>After a lease refreshed the budget of an action to \<open>n\<close> runs, a caller that asks before and
  reports after every run gets exactly the first \<open>n\<close> runs of that action, whatever other actions
  it attempts in between, and none while the stop switch is on.\<close>

theorem budget_bounds_runs:
  assumes "dget rem (action_value ty) = Some (int n)" and "wf_dict rem"
  shows "granted ty tys (update_from_lease clock rem stop b) =
    (if stop then 0 else min n (count_list tys ty))"
proof -
  have "bu_stop (update_from_lease clock rem stop b) = stop" by (simp add: update_from_lease_def)
  then show ?thesis
    using grants_eq [OF update_from_lease_remaining(1) [OF assms]] by (simp add: granted_grants)
qed

text \<open>A new lease sets the runs that remain and leaves the count of used runs as it was: the
  counter is not reset.\<close>

theorem refresh_keeps_used:
  assumes "dget rem (action_value ty) = Some r" and "wf_dict rem"
    and "bu_used (action_value ty) b = Some u"
  shows "bu_used (action_value ty) (update_from_lease clock rem stop b) = Some u
    \<and> bu_remaining (action_value ty) (update_from_lease clock rem stop b) = Some r"
  using update_from_lease_remaining [OF assms(1,2)] assms(3) by simp

lemma budget_bounds_runs_witness:
  "granted FanReset [FanReset, PowerCycle, FanReset, FanReset]
     (update_from_lease 0 [(''FAN_RESET'', 2)] False init_budgets) = 2"
  using budget_bounds_runs [of "[(''FAN_RESET'', 2)]" FanReset 2] by simp

lemma refresh_keeps_used_witness:
  "bu_used ''FAN_RESET'' (update_from_lease 9 [(''FAN_RESET'', 5)] False
     (bu_consume FanReset (update_from_lease 0 [(''FAN_RESET'', 2)] False init_budgets))) = Some 1"
proof -
  have "bu_used (action_value FanReset)
      (bu_consume FanReset (update_from_lease 0 [(''FAN_RESET'', 2)] False init_budgets)) = Some 1"
    by (simp add: bu_used_def bu_consume_def update_from_lease_def update_entry_def init_budgets_def
        action_of_value_def all_actions_def)
  from refresh_keeps_used [OF _ _ this, of "[(''FAN_RESET'', 5)]" 5 9 False] show ?thesis by simp
qed

end
