(* ===== verification/Blast_Radius.thy ===== *)
theory Blast_Radius
  imports Models
begin

text \<open>
  The agent-local rate limiter (\<open>src/src/harkeniq/autonomy/blast_radius.py\<close>). The history is a
  \<open>defaultdict(list)\<close>, so it is a total function. The limiter is shown to be a \<open>rate_gate\<close>
  over the log of everything that was executed, although it only keeps the last entries.
\<close>

record rate_limit =
  max_per_window :: nat
  window_seconds :: real
  cooldown_seconds :: real

record limiter =
  bl_limits :: "(action_type, rate_limit) dict"
  bl_history :: "action_type \<Rightarrow> time list"

abbreviation rl :: "nat \<Rightarrow> real \<Rightarrow> real \<Rightarrow> rate_limit" where
  "rl n w c \<equiv> \<lparr>max_per_window = n, window_seconds = w, cooldown_seconds = c\<rparr>"

definition default_limits :: "(action_type, rate_limit) dict" where
  "default_limits =
     [(IdentifyLed, rl 999 60 0),
      (CollectDiagnostics, rl 999 60 0),
      (FanReset, rl 2 86400 300),
      (SelClear, rl 999 3600 0),
      (BmcReset, rl 1 14400 900),
      (PowerCycle, rl 1 1800 1800),
      (PowerCapAdjust, rl 3 3600 300),
      (ClearCounters, rl 999 3600 0),
      (InterfaceReset, rl 1 1800 1800),
      (InterfaceDisable, rl 1 1800 1800),
      (InterfaceEnable, rl 3 1800 60)]"

text \<open>\<open>limits or dict(DEFAULT_LIMITS)\<close>: an empty dictionary counts as absent.\<close>

definition init_limiter :: "(action_type, rate_limit) dict option \<Rightarrow> limiter" where
  "init_limiter limits =
     \<lparr>bl_limits = (case limits of None \<Rightarrow> default_limits
                    | Some ls \<Rightarrow> if ls = [] then default_limits else ls),
      bl_history = (\<lambda>_. [])\<rparr>"

definition in_window :: "real \<Rightarrow> time \<Rightarrow> time list \<Rightarrow> time list" where
  "in_window w t ts = filter (\<lambda>x. t - w < x) ts"

definition br_allows :: "action_type \<Rightarrow> time option \<Rightarrow> time \<Rightarrow> limiter \<Rightarrow> bool" where
  "br_allows a now clock l =
     (let t = now_or now clock in
      case dget (bl_limits l) a of
        None \<Rightarrow> True
      | Some rlim \<Rightarrow>
          (let h = bl_history l a in
           if h \<noteq> [] \<and> t - last h < cooldown_seconds rlim then False
           else \<not> max_per_window rlim \<le> length (in_window (window_seconds rlim) t h)))"

definition br_record :: "action_type \<Rightarrow> time option \<Rightarrow> time \<Rightarrow> limiter \<Rightarrow> limiter" where
  "br_record a now clock l =
     (let t = now_or now clock;
          h = bl_history l a @ [t]
      in l\<lparr>bl_history := (bl_history l)(a := if 100 < length h then py_last 50 h else h)\<rparr>)"

definition br_reset :: "action_type option \<Rightarrow> limiter \<Rightarrow> limiter" where
  "br_reset a l =
     l\<lparr>bl_history := (case a of Some a' \<Rightarrow> (bl_history l)(a' := []) | None \<Rightarrow> (\<lambda>_. []))\<rparr>"

subsection \<open>The limiter against the full log\<close>

text \<open>
  A limiter with the log of all executions. The kept history of an action is the log's own, or
  its last entries, at least 50 of them.
\<close>

type_synonym logged = "limiter \<times> (action_type \<times> time) list"

definition log_of :: "action_type \<Rightarrow> logged \<Rightarrow> time list" where
  "log_of a s = map snd (filter (\<lambda>e. fst e = a) (snd s))"

definition ask_limiter :: "logged \<Rightarrow> action_type \<Rightarrow> time \<Rightarrow> bool \<times> logged" where
  "ask_limiter s a t = (br_allows a None t (fst s), s)"

definition note_limiter :: "logged \<Rightarrow> action_type \<Rightarrow> time \<Rightarrow> logged" where
  "note_limiter s a t = (br_record a None t (fst s), snd s @ [(a, t)])"

definition kept :: "time list \<Rightarrow> time list \<Rightarrow> bool" where
  "kept h xs \<longleftrightarrow> h = xs \<or> (50 \<le> length h \<and> (\<exists>old. xs = old @ h))"

definition limiter_ok :: "action_type \<Rightarrow> rate_limit \<Rightarrow> logged \<Rightarrow> time \<Rightarrow> bool" where
  "limiter_ok a rlim s t \<longleftrightarrow> dget (bl_limits (fst s)) a = Some rlim \<and>
     kept (bl_history (fst s) a) (log_of a s) \<and> sorted (log_of a s) \<and>
     (\<forall>x \<in> set (log_of a s). x \<le> t)"

lemma log_of_note: "log_of a (note_limiter s b t) = log_of a s @ (if b = a then [t] else [])"
  by (simp add: log_of_def note_limiter_def)

definition trim_history :: "time list \<Rightarrow> time list" where
  "trim_history h = (if 100 < length h then py_last 50 h else h)"

lemma note_limiter_fst:
  "bl_limits (fst (note_limiter s b t)) = bl_limits (fst s)"
  "bl_history (fst (note_limiter s b t)) a =
     (if b = a then trim_history (bl_history (fst s) a @ [t]) else bl_history (fst s) a)"
  by (simp_all add: note_limiter_def br_record_def trim_history_def Let_def)

lemma kept_snoc:
  assumes "kept h xs"
  shows "kept (trim_history (h @ [t])) (xs @ [t])"
proof (cases "100 < length (h @ [t])")
  case True
  let ?n = "length (h @ [t]) - 50"
  obtain old where old: "xs = old @ h" using assms by (auto simp: kept_def)
  have "xs @ [t] = (old @ take ?n (h @ [t])) @ drop ?n (h @ [t])" by (simp add: old)
  moreover have "trim_history (h @ [t]) = drop ?n (h @ [t])"
    using True by (simp add: trim_history_def py_last_def)
  moreover have "50 \<le> length (drop ?n (h @ [t]))" using True by simp
  ultimately show ?thesis unfolding kept_def by metis
next
  case False
  with assms show ?thesis by (auto simp: kept_def trim_history_def)
qed

lemma window_sorted_split:
  assumes "sorted (old @ h)" and "x \<in> set h" and "x \<le> t - w"
  shows "in_window w t old = []"
  using assms by (fastforce simp: in_window_def sorted_append filter_empty_conv)

lemma kept_window:
  assumes "kept h xs" and "sorted xs" and "length (in_window w t h) < n" and "n \<le> 50"
  shows "in_window w t xs = in_window w t h"
  using assms(1) unfolding kept_def
proof (elim disjE conjE exE)
  fix old
  assume h: "50 \<le> length h" "xs = old @ h"
  have "\<exists>x \<in> set h. x \<le> t - w"
  proof (rule ccontr)
    assume "\<not> (\<exists>x \<in> set h. x \<le> t - w)"
    then have "in_window w t h = h" by (auto simp: in_window_def filter_id_conv not_le)
    with assms h show False by simp
  qed
  then show ?thesis
    using assms h window_sorted_split by (auto simp: in_window_def)
qed (simp add: in_window_def)

lemma in_window_mono:
  "t \<le> t' \<Longrightarrow> length (in_window w t' xs) \<le> length (in_window w t xs)"
  by (auto simp: in_window_def intro: length_filter_mono)

text \<open>
  Every limit of at most 50 per window is enforced over the full log, for each action type
  \<open>a\<close> with limit \<open>rlim\<close>, whatever other actions run in between.
\<close>

interpretation blast: rate_gate ask_limiter note_limiter "\<lambda>c. c = a"
    "\<lambda>s t. length (in_window (window_seconds rlim) t (log_of a s))" "max_per_window rlim"
    "\<lambda>s t. max_per_window rlim \<le> 50 \<and> limiter_ok a rlim s t" for a rlim
proof (unfold_locales, goal_cases)
  case (1 s t c s')
  then have "s' = s" "length (in_window (window_seconds rlim) t (bl_history (fst s) a))
      < max_per_window rlim"
    by (auto simp: ask_limiter_def br_allows_def limiter_ok_def Let_def split: if_splits)
  with 1 kept_window show ?case
    by (metis limiter_ok_def)
next
  case (4 s t c)
  then show ?case by (simp add: log_of_note in_window_def)
next
  case (5 s t t')
  then show ?case by (simp add: in_window_mono)
next
  case (6 s t c)
  then show ?case
    by (auto simp: limiter_ok_def log_of_note note_limiter_fst sorted_append intro: kept_snoc)
next
  case (7 s t t')
  then show ?case by (force simp: limiter_ok_def)
qed (auto simp: ask_limiter_def)

subsection \<open>The bound of the kept history\<close>

datatype limiter_op = LimRecord action_type "time option" time | LimReset "action_type option"

fun limiter_step :: "limiter_op \<Rightarrow> limiter \<Rightarrow> limiter" where
  "limiter_step (LimRecord a now clock) l = br_record a now clock l"
| "limiter_step (LimReset a) l = br_reset a l"

definition history_bounded :: "limiter \<Rightarrow> bool" where
  "history_bounded l \<longleftrightarrow> (\<forall>a. length (bl_history l a) \<le> 100)"

interpretation limiter: inv_system limiter_step history_bounded "\<lambda>_. True"
proof
  fix l op
  assume "history_bounded l"
  then show "history_bounded (limiter_step op l)"
    by (cases op) (auto simp: history_bounded_def br_record_def br_reset_def Let_def
        length_py_last not_less split: option.split)
qed

lemma limits_step: "bl_limits (limiter_step op l) = bl_limits l"
  by (cases op) (simp_all add: br_record_def br_reset_def Let_def)

lemma limits_run: "bl_limits (fold limiter_step ops l) = bl_limits l"
  by (induction ops arbitrary: l) (simp_all add: limits_step)

text \<open>A limit above the 100 kept entries cannot be reached, so only the cooldown can refuse.\<close>

lemma unreachable_limit:
  assumes "history_bounded l" and "dget (bl_limits l) a = Some rlim"
    and "100 < max_per_window rlim" and "cooldown_seconds rlim \<le> 0"
    and "\<forall>x \<in> set (bl_history l a). x \<le> now_or now clock"
  shows "br_allows a now clock l"
proof -
  have "length (in_window w t (bl_history l a)) \<le> length (bl_history l a)" for w t
    by (simp add: in_window_def)
  also have "length (bl_history l a) < max_per_window rlim"
    using assms(1,3) unfolding history_bounded_def by (rule_tac le_less_trans) auto
  finally have "length (in_window w t (bl_history l a)) < max_per_window rlim" for w t .
  moreover have "bl_history l a \<noteq> [] \<Longrightarrow> last (bl_history l a) \<le> now_or now clock"
    using assms(5) by simp
  ultimately show ?thesis
    using assms(2,4) by (auto simp: br_allows_def Let_def not_le)
qed

lemma unreachable_all_run:
  assumes "history_bounded (fst s)" "dget (bl_limits (fst s)) a = Some rlim" "100 < max_per_window rlim" "cooldown_seconds rlim \<le> 0"
    and "sorted (map snd calls)" "\<forall>x \<in> set (bl_history (fst s) a). \<forall>t \<in> snd ` set calls. x \<le> t"
  shows "log_of a (guarded ask_limiter note_limiter s calls) = log_of a s @ map snd (filter (\<lambda>c. fst c = a) calls)"
  using assms
proof (induction calls arbitrary: s)
  case (Cons c calls)
  obtain b t where c: "c = (b, t)" by fastforce
  let ?s = "guarded_step ask_limiter note_limiter s b t"
  have s: "?s = s \<or> ?s = note_limiter s b t" by (auto simp: guarded_step_def ask_limiter_def)
  have adm: "?s = note_limiter s b t" if "b = a"
    using unreachable_limit [OF Cons.prems(1-4), of None t] Cons.prems(6) that c
    by (simp add: guarded_step_def ask_limiter_def now_or_def)
  have "fst (note_limiter s b t) = limiter_step (LimRecord b None t) (fst s)" by (simp add: note_limiter_def)
  then have "history_bounded (fst ?s)" "dget (bl_limits (fst ?s)) a = Some rlim"
    using s Cons.prems(1,2) limiter.op_keeps_inv [of "fst s" "LimRecord b None t"] limits_step [of "LimRecord b None t" "fst s"] by auto
  moreover have "\<forall>x \<in> set (bl_history (fst ?s) a). \<forall>u \<in> snd ` set calls. x \<le> u"
  proof -
    have "set (bl_history (fst ?s) a) \<subseteq> insert t (set (bl_history (fst s) a))"
      using s by (auto simp: note_limiter_fst trim_history_def py_last_def dest!: in_set_dropD split: if_splits)
    then show ?thesis using Cons.prems(5,6) c by auto
  qed
  ultimately have "log_of a (guarded ask_limiter note_limiter ?s calls) = log_of a ?s @ map snd (filter (\<lambda>c. fst c = a) calls)"
    using Cons.IH [of ?s] Cons.prems(3,4,5) by simp
  moreover have "log_of a ?s = log_of a s @ (if b = a then [t] else [])" using s adm by (auto simp: log_of_note)
  ultimately show ?case using c by simp
qed simp

subsection \<open>Properties\<close>

text \<open>C40: A caller that asks before and reports after every execution, at times that do not go back. For a limit of at most
  50 there are never more than \<open>max_per_window\<close> executions of the action type inside its window, although the
  limiter forgets all but the last entries. A limit of more than 100 without a cooldown is not enforced at all: everything asked
  for runs. In the default table the limits are 1 to 3, which are enforced, and 999, which are not.\<close>

theorem rate_limit_enforced:
  assumes "dget (bl_limits (init_limiter limits)) a = Some rlim" and "sorted (map snd calls)" and "calls \<noteq> []"
  shows "(max_per_window rlim \<le> 50 \<longrightarrow> length (in_window (window_seconds rlim) (snd (last calls))
      (log_of a (guarded ask_limiter note_limiter (init_limiter limits, []) calls))) \<le> max_per_window rlim) \<and>
    (100 < max_per_window rlim \<and> cooldown_seconds rlim \<le> 0 \<longrightarrow>
      log_of a (guarded ask_limiter note_limiter (init_limiter limits, []) calls) = map snd (filter (\<lambda>c. fst c = a) calls)) \<and>
    (\<forall>b r. dget (bl_limits (init_limiter None)) b = Some r \<longrightarrow>
      max_per_window r \<in> {1, 2, 3} \<or> max_per_window r = 999 \<and> cooldown_seconds r = 0)"
proof (intro conjI impI allI)
  let ?s = "(init_limiter limits, [])" and ?t = "snd (hd calls)"
  assume le: "max_per_window rlim \<le> 50"
  have srt: "sorted (?t # map snd calls)"
    using assms(2,3) by (cases calls) auto
  have "max_per_window rlim \<le> 50 \<and> limiter_ok a rlim ?s ?t"
    using assms(1) le by (simp add: limiter_ok_def log_of_def kept_def init_limiter_def)
  from blast.guarded_load [OF this _ srt]
  have "length (in_window (window_seconds rlim) (last (?t # map snd calls))
      (log_of a (guarded ask_limiter note_limiter ?s calls))) \<le> max_per_window rlim"
    by (simp add: log_of_def in_window_def)
  moreover have "last (?t # map snd calls) = snd (last calls)"
    using assms(3) by (simp add: last_map)
  ultimately show "length (in_window (window_seconds rlim) (snd (last calls))
      (log_of a (guarded ask_limiter note_limiter ?s calls))) \<le> max_per_window rlim" by simp
next
  assume c: "100 < max_per_window rlim \<and> cooldown_seconds rlim \<le> 0"
  have "log_of a (guarded ask_limiter note_limiter (init_limiter limits, []) calls) =
      log_of a (init_limiter limits, []) @ map snd (filter (\<lambda>c. fst c = a) calls)"
  proof (rule unreachable_all_run)
    show "dget (bl_limits (fst (init_limiter limits, []))) a = Some rlim" using assms(1) by simp
    show "100 < max_per_window rlim" "cooldown_seconds rlim \<le> 0" using c by blast+
  qed (use assms(2) in \<open>simp_all add: init_limiter_def history_bounded_def\<close>)
  then show "log_of a (guarded ask_limiter note_limiter (init_limiter limits, []) calls) = map snd (filter (\<lambda>c. fst c = a) calls)"
    by (simp add: log_of_def)
next
  fix b r assume "dget (bl_limits (init_limiter None)) b = Some r"
  then show "max_per_window r \<in> {1, 2, 3} \<or> max_per_window r = 999 \<and> cooldown_seconds r = 0"
    by (auto simp: init_limiter_def default_limits_def split: if_splits)
qed

text \<open>The limits of 999 per window never refuse anything: the history is cut to at most 100
  entries, so a limit above 100 with no cooldown is unreachable.\<close>

theorem limit_999_never_refuses:
  assumes "a \<in> {IdentifyLed, CollectDiagnostics, SelClear, ClearCounters}"
    and "l = fold limiter_step ops (init_limiter None)"
    and "\<forall>x \<in> set (bl_history l a). x \<le> now_or now clock"
  shows "br_allows a now clock l"
proof -
  have "history_bounded l"
    unfolding assms(2)
    by (rule limiter.run_keeps_inv) (simp_all add: history_bounded_def init_limiter_def list_all_iff)
  moreover obtain rlim where "dget (bl_limits l) a = Some rlim" "max_per_window rlim = 999"
    "cooldown_seconds rlim = 0"
    using assms(1) by (auto simp: assms(2) limits_run init_limiter_def default_limits_def)
  ultimately show ?thesis using assms(3) by (intro unreachable_limit) auto
qed

theorem rate_limit_enforced_witness:
  "length (in_window 86400 500 (log_of FanReset (guarded ask_limiter note_limiter (init_limiter None, [])
     [(FanReset, 100), (PowerCycle, 150), (FanReset, 450), (FanReset, 500)]))) \<le> 2 \<and>
   log_of IdentifyLed (guarded ask_limiter note_limiter (init_limiter None, []) (replicate 1500 (IdentifyLed, 7))) = replicate 1500 7"
proof
  show "length (in_window 86400 500 (log_of FanReset (guarded ask_limiter note_limiter (init_limiter None, [])
     [(FanReset, 100), (PowerCycle, 150), (FanReset, 450), (FanReset, 500)]))) \<le> 2"
    using rate_limit_enforced [of None FanReset "rl 2 86400 300"
        "[(FanReset, 100), (PowerCycle, 150), (FanReset, 450), (FanReset, 500)]", THEN conjunct1]
    by (simp add: init_limiter_def default_limits_def)
  have "dget (bl_limits (init_limiter None)) IdentifyLed = Some (rl 999 60 0)" by (simp add: init_limiter_def default_limits_def)
  then show "log_of IdentifyLed (guarded ask_limiter note_limiter (init_limiter None, []) (replicate 1500 (IdentifyLed, 7))) = replicate 1500 7"
    using rate_limit_enforced [of None IdentifyLed "rl 999 60 0" "replicate 1500 (IdentifyLed, 7)", THEN conjunct2, THEN conjunct1]
    by (simp add: filter_replicate del: guarded.simps)
qed

lemma limit_999_never_refuses_witness:
  "br_allows IdentifyLed (Some 5) 5
     (fold limiter_step (replicate 2 (LimRecord IdentifyLed (Some 4) 4)) (init_limiter None))"
  by (rule limit_999_never_refuses [OF _ refl])
    (simp_all add: numeral_2_eq_2 br_record_def Let_def init_limiter_def)

end
