(* ===== verification/Network_Safety.thy ===== *)
theory Network_Safety
  imports Models
begin

text \<open>
  The two safety mechanisms for network actions (\<open>src/src/harkeniq/autonomy/network_safety.py\<close>):
  the resolver of the interfaces that carry the agent's own management path, which answers
  \<open>None\<close> whenever it cannot tell, and the tracker that spaces disruptive actions per LAG and
  per switch. The reading of addresses (\<open>socket.inet_aton\<close>), of the route table and of host
  names are parameters; each of them can fail.
\<close>

unbundle bit_operations_syntax

subsection \<open>The management path\<close>

type_synonym ip = "32 word"
type_synonym route = "string \<times> string \<times> string"

definition ip_in_subnet ::
  "(string \<Rightarrow> ip option) \<Rightarrow> string \<Rightarrow> string \<Rightarrow> string \<Rightarrow> bool option" where
  "ip_in_subnet inet_aton ip dest netmask =
     (case (inet_aton ip, inet_aton dest, inet_aton netmask) of
        (Some i, Some d, Some m) \<Rightarrow> Some (i AND m = d AND m)
      | _ \<Rightarrow> None)"

text \<open>\<open>bin(mask).count("1")\<close>\<close>

definition prefix_bits :: "ip \<Rightarrow> nat" where
  "prefix_bits m = length (filter (bit m) [0..<32])"

definition better_route ::
  "(string \<Rightarrow> ip option) \<Rightarrow> string \<Rightarrow> route \<Rightarrow> (nat \<times> string) option \<Rightarrow> (nat \<times> string) option" where
  "better_route inet_aton sm_ip r best =
     (let (dest, netmask, iface) = r in
      case ip_in_subnet inet_aton sm_ip dest netmask of
        Some True \<Rightarrow>
          (case inet_aton netmask of
             None \<Rightarrow> best
           | Some m \<Rightarrow>
               (let prefix = prefix_bits m in
                case best of
                  None \<Rightarrow> Some (prefix, iface)
                | Some (p, _) \<Rightarrow> if p < prefix then Some (prefix, iface) else best))
      | _ \<Rightarrow> best)"

definition expand_lags :: "(string, string list) dict \<Rightarrow> string \<Rightarrow> string set" where
  "expand_lags lags egress =
     fold (\<lambda>(lag, members) acc.
         if egress = lag \<or> egress \<in> set members then insert lag acc \<union> set members else acc)
       lags {egress}"

definition management_interfaces ::
  "(string \<Rightarrow> ip option) \<Rightarrow> (string \<Rightarrow> string option) \<Rightarrow> route list option \<Rightarrow>
     (string, string list) dict \<Rightarrow> string \<Rightarrow> string set option" where
  "management_interfaces inet_aton resolve_host routes lags sm_host =
     (case (resolve_host sm_host, routes) of
        (Some sm_ip, Some rs) \<Rightarrow>
          if rs = [] then None
          else (case fold (better_route inet_aton sm_ip) rs None of
              None \<Rightarrow> None
            | Some (_, egress) \<Rightarrow> Some (expand_lags lags egress))
      | _ \<Rightarrow> None)"

text \<open>The routes that match an address, with their prefix lengths.\<close>

definition matching :: "(string \<Rightarrow> ip option) \<Rightarrow> string \<Rightarrow> route \<Rightarrow> nat option" where
  "matching inet_aton sm_ip r =
     (let (dest, netmask, _) = r in
      case ip_in_subnet inet_aton sm_ip dest netmask of
        Some True \<Rightarrow> map_option prefix_bits (inet_aton netmask)
      | _ \<Rightarrow> None)"

lemma better_route_eq:
  "better_route inet_aton sm_ip r best =
     (case matching inet_aton sm_ip r of
        None \<Rightarrow> best
      | Some p \<Rightarrow> (case best of None \<Rightarrow> Some (p, snd (snd r))
          | Some (q, _) \<Rightarrow> if q < p then Some (p, snd (snd r)) else best))"
  by (cases r) (auto simp: better_route_def matching_def Let_def split: option.split bool.split)

lemma better_route_None:
  "better_route inet_aton sm_ip r best = None \<longleftrightarrow>
     best = None \<and> matching inet_aton sm_ip r = None"
  by (auto simp: better_route_eq split: option.splits if_splits)

lemma better_route_Some:
  assumes "better_route inet_aton sm_ip r best = Some (p, e)"
  shows "best = Some (p, e) \<or> matching inet_aton sm_ip r = Some p \<and> snd (snd r) = e"
    and "best = Some (q, e') \<Longrightarrow> q \<le> p"
    and "matching inet_aton sm_ip r = Some q \<Longrightarrow> q \<le> p"
  using assms by (auto simp: better_route_eq split: option.splits if_splits)

lemma best_route_none:
  "fold (better_route inet_aton sm_ip) rs best = None \<longleftrightarrow>
     best = None \<and> (\<forall>r \<in> set rs. matching inet_aton sm_ip r = None)"
  by (induction rs arbitrary: best) (auto simp: better_route_None)

lemma best_route_sound:
  "fold (better_route inet_aton sm_ip) rs best = Some (p, egress) \<Longrightarrow>
     best = Some (p, egress) \<or>
     (\<exists>r \<in> set rs. matching inet_aton sm_ip r = Some p \<and> snd (snd r) = egress)"
proof (induction rs arbitrary: best)
  case (Cons r rs)
  then show ?case
    using Cons.IH [of "better_route inet_aton sm_ip r best"] better_route_Some(1) by fastforce
qed simp

lemma best_route_max:
  "fold (better_route inet_aton sm_ip) rs best = Some (p, egress) \<Longrightarrow>
     (\<forall>q e. best = Some (q, e) \<longrightarrow> q \<le> p) \<and>
     (\<forall>r \<in> set rs. \<forall>q. matching inet_aton sm_ip r = Some q \<longrightarrow> q \<le> p)"
proof (induction rs arbitrary: best)
  case (Cons r rs)
  let ?b = "better_route inet_aton sm_ip r best"
  have fold: "fold (better_route inet_aton sm_ip) rs ?b = Some (p, egress)"
    using Cons.prems by simp
  note rest = Cons.IH [OF fold]
  show ?case
  proof (cases ?b)
    case None
    then show ?thesis using rest by (auto simp: better_route_None)
  next
    case (Some pe)
    obtain p' e' where b: "?b = Some (p', e')" using Some by (cases pe) simp
    have "p' \<le> p" using rest b by simp
    then show ?thesis
      using rest better_route_Some(2,3) [OF b] by (auto intro: le_trans)
  qed
qed simp

lemma expand_lags_set:
  "expand_lags lags egress = {egress} \<union>
     \<Union> {insert lag (set members) | lag members. (lag, members) \<in> set lags \<and>
           (egress = lag \<or> egress \<in> set members)}"
proof -
  have "fold (\<lambda>(lag, members) acc.
         if egress = lag \<or> egress \<in> set members then insert lag acc \<union> set members else acc) lags A =
     A \<union> \<Union> {insert lag (set members) | lag members. (lag, members) \<in> set lags \<and>
           (egress = lag \<or> egress \<in> set members)}" for A
  proof (induction lags arbitrary: A)
    case (Cons lm lags)
    obtain lag members where lm: "lm = (lag, members)" by fastforce
    have *: "{insert l (set ms) | l ms. (l, ms) \<in> set (lm # lags) \<and> (egress = l \<or> egress \<in> set ms)} =
        (if egress = lag \<or> egress \<in> set members then {insert lag (set members)} else {}) \<union>
        {insert l (set ms) | l ms. (l, ms) \<in> set lags \<and> (egress = l \<or> egress \<in> set ms)}"
      by (auto simp: lm)
    show ?case unfolding * by (simp add: Cons lm Un_assoc)
  qed simp
  then show ?thesis by (simp add: expand_lags_def)
qed

text \<open>The answer: unknown exactly when a lookup fails or no route matches; else the longest match's interface.\<close>

lemma management_None:
  "management_interfaces inet_aton resolve_host routes lags sm_host = None \<longleftrightarrow>
     resolve_host sm_host = None \<or> routes = None \<or>
     (\<forall>r \<in> set (the routes). matching inet_aton (the (resolve_host sm_host)) r = None)"
proof (cases "resolve_host sm_host"; cases routes)
  fix ip rs
  assume "resolve_host sm_host = Some ip" "routes = Some rs"
  moreover have "fold (better_route inet_aton ip) rs None = None \<longleftrightarrow>
      (\<forall>r \<in> set rs. matching inet_aton ip r = None)"
    by (simp add: best_route_none)
  ultimately show ?thesis
    by (auto simp: management_interfaces_def split: option.split)
qed (simp_all add: management_interfaces_def)

lemma management_Some:
  assumes "management_interfaces inet_aton resolve_host (Some rs) lags sm_host = Some ifs"
    and "resolve_host sm_host = Some ip"
  obtains r p where "r \<in> set rs" "matching inet_aton ip r = Some p"
    "\<And>s q. s \<in> set rs \<Longrightarrow> matching inet_aton ip s = Some q \<Longrightarrow> q \<le> p"
    "ifs = expand_lags lags (snd (snd r))"
proof -
  obtain p egress where best: "fold (better_route inet_aton ip) rs None = Some (p, egress)"
    and ifs: "ifs = expand_lags lags egress"
    using assms by (auto simp: management_interfaces_def split: if_splits option.splits)
  from best_route_sound [OF best] best_route_max [OF best] ifs show ?thesis
    by (auto intro: that)
qed

subsection \<open>Fault domains\<close>

definition domain_window_s :: real where
  "domain_window_s = 1800"

text \<open>The keys \<open>f"lag:{lag}"\<close> and \<open>f"switch:{switch_id}"\<close>.\<close>

datatype domain = LagDomain string | SwitchDomain string

record domain_record =
  dr_timestamps :: "time list"
  dr_ports :: "(time \<times> string) list"

record tracker =
  tk_window :: real
  tk_domains :: "(domain, domain_record) dict"

definition empty_record :: domain_record where
  "empty_record = \<lparr>dr_timestamps = [], dr_ports = []\<rparr>"

definition init_tracker :: "real \<Rightarrow> tracker" where
  "init_tracker w = \<lparr>tk_window = w, tk_domains = []\<rparr>"

definition prune :: "real \<Rightarrow> time \<Rightarrow> domain_record \<Rightarrow> domain_record" where
  "prune w now r =
     r\<lparr>dr_timestamps := filter (\<lambda>t. now - w < t) (dr_timestamps r),
       dr_ports := filter (\<lambda>(t, _). now - w < t) (dr_ports r)\<rparr>"

definition prune_domain :: "domain \<Rightarrow> time \<Rightarrow> tracker \<Rightarrow> tracker" where
  "prune_domain d now k =
     k\<lparr>tk_domains := dset d (prune (tk_window k) now (dget_or (tk_domains k) d empty_record))
         (tk_domains k)\<rparr>"

definition dom_rec :: "tracker \<Rightarrow> domain \<Rightarrow> domain_record" where
  "dom_rec k d = dget_or (tk_domains k) d empty_record"

datatype tracker_refusal = LagBusy string string | SwitchBusy string

definition tk_allows ::
  "string \<Rightarrow> string option \<Rightarrow> string \<Rightarrow> time option \<Rightarrow> time \<Rightarrow> tracker \<Rightarrow>
     tracker_refusal option \<times> tracker" where
  "tk_allows port lag sid now clock k =
     (let t = now_default now clock;
          switch_check = (\<lambda>k1.
            let k2 = prune_domain (SwitchDomain sid) t k1 in
            if dr_timestamps (dom_rec k2 (SwitchDomain sid)) \<noteq> [] then (Some (SwitchBusy sid), k2)
            else (None, k2))
      in case lag of
           None \<Rightarrow> switch_check k
         | Some l \<Rightarrow>
             (let k1 = prune_domain (LagDomain l) t k;
                  others = filter (\<lambda>p. p \<noteq> port) (map snd (dr_ports (dom_rec k1 (LagDomain l))))
              in if others \<noteq> [] then (Some (LagBusy l (hd (sort others))), k1)
                 else switch_check k1))"

definition tk_record ::
  "string \<Rightarrow> string option \<Rightarrow> string \<Rightarrow> time option \<Rightarrow> time \<Rightarrow> tracker \<Rightarrow> tracker" where
  "tk_record port lag sid now clock k =
     (let t = now_default now clock;
          k1 = (case lag of
              None \<Rightarrow> k
            | Some l \<Rightarrow>
                (let r = dom_rec k (LagDomain l) in
                 k\<lparr>tk_domains := dset (LagDomain l) (r\<lparr>dr_ports := dr_ports r @ [(t, port)]\<rparr>)
                     (tk_domains k)\<rparr>));
          r = dom_rec k1 (SwitchDomain sid)
      in k1\<lparr>tk_domains := dset (SwitchDomain sid)
              (r\<lparr>dr_timestamps := dr_timestamps r @ [t]\<rparr>) (tk_domains k1)\<rparr>)"

subsection \<open>The tracker against the full log\<close>

text \<open>
  The tracker with the log of all disruptive actions. Pruning only forgets what left the window,
  so inside the window every domain record agrees with the log.
\<close>

record call =
  c_port :: string
  c_lag :: "string option"
  c_switch :: string

type_synonym tracked = "tracker \<times> (call \<times> time) list"

definition ask_tracker :: "tracked \<Rightarrow> call \<Rightarrow> time \<Rightarrow> bool \<times> tracked" where
  "ask_tracker s c t =
     (let (r, k) = tk_allows (c_port c) (c_lag c) (c_switch c) (Some t) t (fst s)
      in (r = None, (k, snd s)))"

definition note_tracker :: "tracked \<Rightarrow> call \<Rightarrow> time \<Rightarrow> tracked" where
  "note_tracker s c t =
     (tk_record (c_port c) (c_lag c) (c_switch c) (Some t) t (fst s), snd s @ [(c, t)])"

definition switch_log :: "string \<Rightarrow> (call \<times> time) list \<Rightarrow> time list" where
  "switch_log sid xs = map snd (filter (\<lambda>(c, t). c_switch c = sid) xs)"

definition lag_log :: "string \<Rightarrow> (call \<times> time) list \<Rightarrow> (time \<times> string) list" where
  "lag_log l xs = map (\<lambda>(c, t). (t, c_port c)) (filter (\<lambda>(c, t). c_lag c = Some l) xs)"

definition recent :: "real \<Rightarrow> time \<Rightarrow> time list \<Rightarrow> time list" where
  "recent w t xs = filter (\<lambda>x. t - w < x) xs"

definition recent_ports :: "real \<Rightarrow> time \<Rightarrow> (time \<times> string) list \<Rightarrow> (time \<times> string) list" where
  "recent_ports w t xs = filter (\<lambda>(x, _). t - w < x) xs"

definition tracker_ok :: "real \<Rightarrow> tracked \<Rightarrow> time \<Rightarrow> bool" where
  "tracker_ok w s t \<longleftrightarrow> tk_window (fst s) = w \<and>
     (\<forall>sid. recent w t (dr_timestamps (dom_rec (fst s) (SwitchDomain sid))) =
        recent w t (switch_log sid (snd s))) \<and>
     (\<forall>l. recent_ports w t (dr_ports (dom_rec (fst s) (LagDomain l))) =
        recent_ports w t (lag_log l (snd s)))"

lemma recent_idem [simp]: "recent w t (recent w t xs) = recent w t xs"
  by (simp add: recent_def)

lemma recent_ports_idem [simp]: "recent_ports w t (recent_ports w t xs) = recent_ports w t xs"
  by (simp add: recent_ports_def)

lemma recent_append [simp]: "recent w t (xs @ ys) = recent w t xs @ recent w t ys"
  by (simp add: recent_def)

lemma recent_ports_append [simp]:
  "recent_ports w t (xs @ ys) = recent_ports w t xs @ recent_ports w t ys"
  by (simp add: recent_ports_def)

lemma recent_later: "t \<le> t' \<Longrightarrow> recent w t' xs = recent w t' (recent w t xs)"
  by (auto simp: recent_def intro!: filter_cong)

lemma recent_ports_later:
  "t \<le> t' \<Longrightarrow> recent_ports w t' xs = recent_ports w t' (recent_ports w t xs)"
  by (auto simp: recent_ports_def intro!: filter_cong)

lemma dom_rec_prune:
  "dom_rec (prune_domain d t k) e =
     (if e = d then prune (tk_window k) t (dom_rec k d) else dom_rec k e)"
  "tk_window (prune_domain d t k) = tk_window k"
  by (simp_all add: dom_rec_def prune_domain_def dget_or_def)

lemma prune_recent:
  "dr_timestamps (prune w t r) = recent w t (dr_timestamps r)"
  "dr_ports (prune w t r) = recent_ports w t (dr_ports r)"
  by (simp_all add: prune_def recent_def recent_ports_def)

lemma tracker_ok_prune:
  "tracker_ok w (k, xs) t \<Longrightarrow> tracker_ok w (prune_domain d t k, xs) t"
  by (auto simp: tracker_ok_def dom_rec_prune prune_recent)

lemma tk_allows_state:
  "\<exists>ds. snd (tk_allows port lag sid (Some t) clock k) = fold (\<lambda>d. prune_domain d t) ds k"
proof -
  have 0: "k' = fold (\<lambda>d. prune_domain d t) [] k'" for k' by simp
  have 1: "prune_domain d t k' = fold (\<lambda>d. prune_domain d t) [d] k'" for d k' by simp
  have 2: "prune_domain d' t (prune_domain d t k') = fold (\<lambda>d. prune_domain d t) [d, d'] k'"
    for d d' k' by simp
  show ?thesis
    by (auto simp: tk_allows_def Let_def split: option.split intro: 0 1 2)
qed

lemma tracker_ok_ask: "tracker_ok w s t \<Longrightarrow> tracker_ok w (snd (ask_tracker s c t)) t"
proof -
  assume ok: "tracker_ok w s t"
  have "tracker_ok w (fold (\<lambda>d. prune_domain d t) ds (fst s), snd s) t" for ds
    using ok by (induction ds rule: rev_induct) (simp_all add: tracker_ok_prune)
  then show ?thesis
    using tk_allows_state [of "c_port c" "c_lag c" "c_switch c" t t "fst s"]
    by (auto simp: ask_tracker_def split: prod.split)
qed

text \<open>What an admitted call may conclude about the window.\<close>

lemma admitted_switch:
  assumes "tracker_ok w s t" and "fst (ask_tracker s c t)"
  shows "recent w t (switch_log (c_switch c) (snd s)) = []"
  using assms
  by (auto simp: ask_tracker_def tk_allows_def Let_def tracker_ok_def dom_rec_prune prune_recent
      split: option.splits if_splits)

lemma admitted_lag:
  assumes "tracker_ok w s t" and "fst (ask_tracker s c t)" and "c_lag c = Some l"
    and "(x, p) \<in> set (recent_ports w t (lag_log l (snd s)))"
  shows "p = c_port c"
  using assms
  by (auto simp: ask_tracker_def tk_allows_def Let_def tracker_ok_def dom_rec_prune prune_recent
      filter_empty_conv split: option.splits if_splits)

lemma dom_rec_record:
  "dr_timestamps (dom_rec (tk_record port lag sid (Some t) clock k) (SwitchDomain d)) =
     dr_timestamps (dom_rec k (SwitchDomain d)) @ (if d = sid then [t] else [])"
  "dr_ports (dom_rec (tk_record port lag sid (Some t) clock k) (LagDomain l)) =
     dr_ports (dom_rec k (LagDomain l)) @ (if lag = Some l then [(t, port)] else [])"
  "tk_window (tk_record port lag sid (Some t) clock k) = tk_window k"
  by (simp_all add: tk_record_def Let_def dom_rec_def dget_or_def split: option.split)

lemma switch_log_snoc [simp]:
  "switch_log sid (xs @ [(c, t)]) = switch_log sid xs @ (if c_switch c = sid then [t] else [])"
  by (simp add: switch_log_def)

lemma lag_log_snoc [simp]:
  "lag_log l (xs @ [(c, t)]) = lag_log l xs @ (if c_lag c = Some l then [(t, c_port c)] else [])"
  by (simp add: lag_log_def)

lemma tracker_ok_note: "tracker_ok w s t \<Longrightarrow> tracker_ok w (note_tracker s c t) t"
  by (auto simp: tracker_ok_def note_tracker_def dom_rec_record)

lemma recent_agree_later: "recent w t xs = recent w t ys \<Longrightarrow> t \<le> t' \<Longrightarrow> recent w t' xs = recent w t' ys"
  using recent_later [of t t' w xs] recent_later [of t t' w ys] by (rule_tac trans) auto

lemma recent_ports_agree_later:
  "recent_ports w t xs = recent_ports w t ys \<Longrightarrow> t \<le> t' \<Longrightarrow> recent_ports w t' xs = recent_ports w t' ys"
  using recent_ports_later [of t t' w xs] recent_ports_later [of t t' w ys]
  by (rule_tac trans) auto

lemma tracker_ok_later: "tracker_ok w s t \<Longrightarrow> t \<le> t' \<Longrightarrow> tracker_ok w s t'"
  unfolding tracker_ok_def
  by (intro conjI allI) (auto intro: recent_agree_later recent_ports_agree_later)

lemma ask_tracker_log [simp]: "snd (snd (ask_tracker s c t)) = snd s"
  by (simp add: ask_tracker_def split: prod.split)

text \<open>One disruptive action per switch and window: a \<open>rate_gate\<close> with limit 1 for every switch.\<close>

interpretation switch: rate_gate ask_tracker note_tracker "\<lambda>c. c_switch c = sid"
    "\<lambda>s t. length (recent w t (switch_log sid (snd s)))" 1 "tracker_ok w" for sid w
proof (unfold_locales, goal_cases)
  case (1 s t c s')
  then have "recent w t (switch_log sid (snd s)) = []"
    using admitted_switch [of w s t c] by simp
  moreover have "snd s' = snd s" using ask_tracker_log [of s c t] 1 by simp
  ultimately show ?case by simp
next
  case (2 s t c b s')
  then show ?case using ask_tracker_log [of s c t] by simp
next
  case (3 s t c b s')
  then show ?case using tracker_ok_ask [of w s t c] by simp
next
  case (4 s t c)
  then show ?case by (simp add: note_tracker_def recent_def)
next
  case (5 s t t')
  then show ?case by (auto simp: recent_def intro: length_filter_mono)
next
  case (6 s t c)
  then show ?case by (rule tracker_ok_note)
next
  case (7 s t t')
  then show ?case by (rule tracker_ok_later)
qed

text \<open>Never two ports of one LAG inside the window.\<close>

definition lag_exclusive :: "real \<Rightarrow> string \<Rightarrow> tracked \<Rightarrow> time \<Rightarrow> bool" where
  "lag_exclusive w l s t \<longleftrightarrow>
     (\<forall>(x, p) \<in> set (recent_ports w t (lag_log l (snd s))).
        \<forall>(y, q) \<in> set (recent_ports w t (lag_log l (snd s))). p = q)"

lemma lag_exclusive_step:
  assumes "tracker_ok w s t" and "lag_exclusive w l s t"
  shows "lag_exclusive w l (guarded_step ask_tracker note_tracker s c t) t"
proof -
  obtain b s' where a: "ask_tracker s c t = (b, s')"
    by (cases "ask_tracker s c t")
  have s': "snd s' = snd s" using ask_tracker_log [of s c t] a by simp
  have port: "p = c_port c" if "b" "c_lag c = Some l"
    "(x, p) \<in> set (recent_ports w t (lag_log l (snd s)))" for x p
    using admitted_lag [OF assms(1)] that a by simp
  have "lag_exclusive w l s' t" using assms(2) s' by (simp add: lag_exclusive_def)
  moreover have "lag_exclusive w l (note_tracker s' c t) t" if b
    using assms(2) port [OF that] s'
    by (auto simp: lag_exclusive_def note_tracker_def recent_ports_def)
  ultimately show ?thesis by (simp add: guarded_step_def a)
qed

lemma lag_exclusive_later:
  "lag_exclusive w l s t \<Longrightarrow> t \<le> t' \<Longrightarrow> lag_exclusive w l s t'"
  unfolding lag_exclusive_def by (subst (1 2) recent_ports_later) (auto simp: recent_ports_def)

subsection \<open>Properties\<close>

text \<open>C39: A caller that asks before and reports after every disruptive action, at times that do not
  go back, never runs two of them on one switch inside a window, nor touches two ports of one LAG
  inside a window.\<close>

theorem fault_domains_spaced:
  assumes "sorted (map snd calls)" and "calls \<noteq> []"
  shows "length (recent w (snd (last calls))
      (switch_log sid (snd (guarded ask_tracker note_tracker (init_tracker w, []) calls)))) \<le> 1
    \<and> lag_exclusive w l (guarded ask_tracker note_tracker (init_tracker w, []) calls) (snd (last calls))"
proof -
  let ?s = "(init_tracker w, [])" and ?t = "snd (hd calls)"
  have srt: "sorted (?t # map snd calls)"
    using assms by (cases calls) auto
  have ok: "tracker_ok w ?s ?t"
    by (simp add: tracker_ok_def init_tracker_def dom_rec_def empty_record_def recent_def
        recent_ports_def switch_log_def lag_log_def)
  have last: "last (?t # map snd calls) = snd (last calls)"
    using assms(2) by (simp only: last_ConsR map_is_Nil_conv last_map not_False_eq_True)
  have "length (recent w ?t (switch_log sid (snd ?s))) \<le> 1"
    by (simp add: switch_log_def recent_def)
  from switch.guarded_load [OF ok this srt] have "length (recent w (snd (last calls))
      (switch_log sid (snd (guarded ask_tracker note_tracker ?s calls)))) \<le> 1" by (simp only: last)
  moreover have "lag_exclusive w l ?s ?t"
    by (simp add: lag_exclusive_def lag_log_def recent_ports_def)
  from switch.guarded_keeps [OF lag_exclusive_step lag_exclusive_later ok this srt]
  have "lag_exclusive w l (guarded ask_tracker note_tracker ?s calls) (snd (last calls))" by (simp only: last)
  ultimately show ?thesis by blast
qed

text \<open>The management path is unknown exactly when the host or the routes cannot be read or no
  route matches; otherwise it holds the interface of a route with the longest matching prefix,
  and with it every LAG it belongs to and all their members.\<close>

theorem management_path_resolved:
  assumes "resolve_host sm_host = Some ip"
  shows "case management_interfaces inet_aton resolve_host (Some rs) lags sm_host of
      None \<Rightarrow> (\<forall>r \<in> set rs. matching inet_aton ip r = None)
    | Some ifs \<Rightarrow> \<exists>r p. r \<in> set rs \<and> matching inet_aton ip r = Some p
        \<and> (\<forall>s \<in> set rs. \<forall>q. matching inet_aton ip s = Some q \<longrightarrow> q \<le> p)
        \<and> snd (snd r) \<in> ifs
        \<and> (\<forall>(lag, members) \<in> set lags. snd (snd r) = lag \<or> snd (snd r) \<in> set members \<longrightarrow>
             lag \<in> ifs \<and> set members \<subseteq> ifs)"
proof (cases "management_interfaces inet_aton resolve_host (Some rs) lags sm_host")
  case None
  with management_None [of inet_aton resolve_host "Some rs" lags sm_host] assms show ?thesis by simp
next
  case (Some ifs)
  show ?thesis
  proof (rule management_Some [OF Some assms])
    fix r p
    assume r: "r \<in> set rs" "matching inet_aton ip r = Some p"
      and max: "\<And>s q. s \<in> set rs \<Longrightarrow> matching inet_aton ip s = Some q \<Longrightarrow> q \<le> p"
      and ifs: "ifs = expand_lags lags (snd (snd r))"
    have "snd (snd r) \<in> ifs" by (simp add: ifs expand_lags_set)
    moreover have "\<forall>(lag, members) \<in> set lags. snd (snd r) = lag \<or> snd (snd r) \<in> set members \<longrightarrow>
        lag \<in> ifs \<and> set members \<subseteq> ifs"
      unfolding ifs expand_lags_set by blast
    ultimately show ?thesis
      using r max unfolding Some option.case by (intro exI [of _ r] exI [of _ p]) blast
  qed
qed

definition demo_calls :: "(call \<times> time) list" where
  "demo_calls =
     [(\<lparr>c_port = ''e1'', c_lag = Some ''po1'', c_switch = ''self''\<rparr>, 100),
      (\<lparr>c_port = ''e2'', c_lag = Some ''po1'', c_switch = ''other''\<rparr>, 200)]"

lemma fault_domains_spaced_witness:
  "length (recent 1800 200
     (switch_log ''self'' (snd (guarded ask_tracker note_tracker (init_tracker 1800, []) demo_calls)))) \<le> 1"
  using fault_domains_spaced [of demo_calls 1800 "''self''" "''po1''"]
  by (simp add: demo_calls_def)

definition demo_aton :: "string \<Rightarrow> ip option" where
  "demo_aton s = (if s = ''ip'' then Some 10 else if s = ''zero'' then Some 0 else None)"

lemma management_path_resolved_witness:
  "case management_interfaces demo_aton Some (Some [(''zero'', ''zero'', ''eth0'')]) [] ''ip'' of
      None \<Rightarrow> matching demo_aton ''ip'' (''zero'', ''zero'', ''eth0'') = None
    | Some ifs \<Rightarrow> ''eth0'' \<in> ifs"
  using management_path_resolved [where resolve_host = Some and sm_host = "''ip''" and ip = "''ip''"
      and inet_aton = demo_aton and rs = "[(''zero'', ''zero'', ''eth0'')]" and lags = "[]"]
  by (auto split: option.splits)

end
