(* ===== verification/Claims.thy ===== *)
theory Claims
  imports Values
begin

text \<open>
  Incident claims, acknowledgements and ownership leases
  (\<open>src/src/harkeniq/autonomy/claim.py\<close>). The signed payload is the canonical JSON object; it is
  kept as the object itself with its keys sorted, so the signature functions of the
  cryptography package, which are parameters, sign and verify that value. Reads of
  the clock and the identifiers made by \<open>uuid4\<close> are parameters.
\<close>

type_synonym evidence = pydict
type_synonym message = pyval

record claim =
  claim_id :: string
  claimant_id :: agent_id
  subject_device_id :: string
  cl_evidence :: evidence
  cl_seq :: int
  cl_created_at :: time
  cl_signature :: bytes

definition default_claim_lease_duration :: real where
  "default_claim_lease_duration = 120"

definition claim_new ::
  "string \<Rightarrow> time \<Rightarrow> agent_id \<Rightarrow> string \<Rightarrow> evidence \<Rightarrow> int \<Rightarrow> claim" where
  "claim_new uuid clock claimant subject ev sq =
     \<lparr>claim_id = uuid, claimant_id = claimant, subject_device_id = subject,
      cl_evidence = ev, cl_seq = sq, cl_created_at = clock, cl_signature = []\<rparr>"

definition payload_bytes :: "claim \<Rightarrow> message" where
  "payload_bytes c = canonical (PyDict
     [(''claim_id'', PyStr (claim_id c)),
      (''claimant_id'', PyStr (claimant_id c)),
      (''subject_device_id'', PyStr (subject_device_id c)),
      (''evidence'', PyDict (cl_evidence c)),
      (''seq'', PyInt (cl_seq c)),
      (''created_at'', PyFloat (cl_created_at c))])"

definition claim_sign :: "('sk \<Rightarrow> message \<Rightarrow> bytes) \<Rightarrow> 'sk \<Rightarrow> claim \<Rightarrow> claim" where
  "claim_sign ed_sign sk c = c\<lparr>cl_signature := ed_sign sk (payload_bytes c)\<rparr>"

definition claim_verify :: "('pk \<Rightarrow> message \<Rightarrow> bytes \<Rightarrow> bool) \<Rightarrow> 'pk \<Rightarrow> claim \<Rightarrow> bool" where
  "claim_verify ed_verify pk c = ed_verify pk (payload_bytes c) (cl_signature c)"

record claim_ack =
  ack_claim_id :: string
  acker_id :: agent_id
  ack_accepted :: bool
  ack_signature :: bytes

definition ack_payload :: "claim_ack \<Rightarrow> message" where
  "ack_payload a = canonical (PyDict
     [(''claim_id'', PyStr (ack_claim_id a)),
      (''acker_id'', PyStr (acker_id a)),
      (''accepted'', PyBool (ack_accepted a))])"

definition ack_sign :: "('sk \<Rightarrow> message \<Rightarrow> bytes) \<Rightarrow> 'sk \<Rightarrow> claim_ack \<Rightarrow> claim_ack" where
  "ack_sign ed_sign sk a = a\<lparr>ack_signature := ed_sign sk (ack_payload a)\<rparr>"

definition ack_verify :: "('pk \<Rightarrow> message \<Rightarrow> bytes \<Rightarrow> bool) \<Rightarrow> 'pk \<Rightarrow> claim_ack \<Rightarrow> bool" where
  "ack_verify ed_verify pk a = ed_verify pk (ack_payload a) (ack_signature a)"

record claim_lease =
  cle_claim_id :: string
  cle_owner_id :: agent_id
  cle_subject :: string
  cle_expiry :: time
  cle_evidence :: "evidence list"
  cle_status :: claim_status

definition lease_is_valid :: "time option \<Rightarrow> time \<Rightarrow> claim_lease \<Rightarrow> bool" where
  "lease_is_valid now clock l \<longleftrightarrow> now_or now clock < cle_expiry l"

definition lease_is_lapsed :: "time option \<Rightarrow> time \<Rightarrow> claim_lease \<Rightarrow> bool" where
  "lease_is_lapsed now clock l \<longleftrightarrow> cle_expiry l \<le> now_or now clock"

definition lease_renew :: "time \<Rightarrow> real \<Rightarrow> claim_lease \<Rightarrow> claim_lease" where
  "lease_renew clock duration l =
     l\<lparr>cle_expiry := clock + duration, cle_status := ClaimActive\<rparr>"

definition lease_lapse :: "claim_lease \<Rightarrow> evidence list \<times> claim_lease" where
  "lease_lapse l = (cle_evidence l, l\<lparr>cle_status := ClaimLapsed\<rparr>)"

definition add_evidence :: "evidence \<Rightarrow> claim_lease \<Rightarrow> claim_lease" where
  "add_evidence ev l = l\<lparr>cle_evidence := cle_evidence l @ [ev]\<rparr>"

definition from_claim :: "time \<Rightarrow> real \<Rightarrow> claim \<Rightarrow> claim_lease" where
  "from_claim clock duration c =
     \<lparr>cle_claim_id = claim_id c, cle_owner_id = claimant_id c,
      cle_subject = subject_device_id c, cle_expiry = clock + duration,
      cle_evidence = [cl_evidence c], cle_status = ClaimActive\<rparr>"

definition deterministic_tiebreak :: "claim \<Rightarrow> claim \<Rightarrow> claim" where
  "deterministic_tiebreak a b = (if claimant_id a \<le> claimant_id b then a else b)"

lemma lease_lapsed_iff_not_valid:
  "lease_is_lapsed now clock l \<longleftrightarrow> \<not> lease_is_valid now clock l"
  by (auto simp: lease_is_lapsed_def lease_is_valid_def)

lemma fold_add_evidence:
  "fold add_evidence evs l = l\<lparr>cle_evidence := cle_evidence l @ evs\<rparr>"
  by (induction evs arbitrary: l) (simp_all add: add_evidence_def)

lemma from_claim_simps [simp]:
  "cle_claim_id (from_claim t d c) = claim_id c"
  "cle_owner_id (from_claim t d c) = claimant_id c"
  "cle_subject (from_claim t d c) = subject_device_id c"
  "cle_expiry (from_claim t d c) = t + d"
  "cle_evidence (from_claim t d c) = [cl_evidence c]"
  "cle_status (from_claim t d c) = ClaimActive"
  by (simp_all add: from_claim_def)

lemma claimant_tiebreak:
  "claimant_id (deterministic_tiebreak a b) = min (claimant_id a) (claimant_id b)"
  by (simp add: deterministic_tiebreak_def min_def)

lemma payload_sign [simp]: "payload_bytes (claim_sign ed_sign sk c) = payload_bytes c"
  by (simp add: claim_sign_def payload_bytes_def)

end
