(* ===== verification/Claim_Manager.thy ===== *)
theory Claim_Manager
  imports Claims
begin

text \<open>
  The arbiter of incident ownership (\<open>src/src/harkeniq/autonomy/claim_manager.py\<close>): its four
  tables, one definition per method, the table invariant that every operation keeps, the
  inheritance of evidence across a lapse, and the convergence of the tiebreak: the owner of a
  subject depends on which claims a node has processed, not on their order.

  \<open>process_claim\<close> reads the clock once for the whole call. Its test \<open>winner is claim\<close> compares
  object identities; an inbound claim is a freshly parsed or freshly made object, never the
  stored one, so the test asks whether the tiebreak chose its second argument.
\<close>

record claim_manager =
  cm_my_id :: agent_id
  cm_lease_duration :: real
  cm_active_claims :: "(string, claim) dict"
  cm_leases :: "(string, claim_lease) dict"
  cm_lapsed_evidence :: "(string, evidence list) dict"
  cm_resolved :: "string set"

datatype claim_result = Accepted | Rejected | Superseded

definition init_manager :: "agent_id \<Rightarrow> real \<Rightarrow> claim_manager" where
  "init_manager me d =
     \<lparr>cm_my_id = me, cm_lease_duration = d, cm_active_claims = [], cm_leases = [],
      cm_lapsed_evidence = [], cm_resolved = {}\<rparr>"

definition accept_claim ::
  "time \<Rightarrow> claim \<Rightarrow> evidence list option \<Rightarrow> claim_manager \<Rightarrow> claim_manager" where
  "accept_claim clock c inherited m =
     (let lease = from_claim clock (cm_lease_duration m) c;
          lease' = (case inherited of None \<Rightarrow> lease | Some evs \<Rightarrow> fold add_evidence evs lease)
      in m\<lparr>cm_active_claims := dset (subject_device_id c) c (cm_active_claims m),
           cm_leases := dset (claim_id c) lease' (cm_leases m)\<rparr>)"

definition evict_claim :: "string \<Rightarrow> claim_manager \<Rightarrow> claim_manager" where
  "evict_claim cid m = m\<lparr>cm_leases := ddel cid (cm_leases m)\<rparr>"

definition process_tiebreak ::
  "time \<Rightarrow> claim \<Rightarrow> claim \<Rightarrow> claim_manager \<Rightarrow> claim_result \<times> claim_manager" where
  "process_tiebreak clock existing c m =
     (if claimant_id existing \<le> claimant_id c then (Rejected, m)
      else (Superseded, accept_claim clock c None (evict_claim (claim_id existing) m)))"

definition process_claim ::
  "time \<Rightarrow> claim \<Rightarrow> claim_manager \<Rightarrow> claim_result \<times> claim_manager" where
  "process_claim clock c m =
     (let subject = subject_device_id c in
      if subject \<in> cm_resolved m then (Rejected, m)
      else (case dget (cm_active_claims m) subject of
          None \<Rightarrow>
            (let inherited = dget (cm_lapsed_evidence m) subject;
                 m' = m\<lparr>cm_lapsed_evidence := ddel subject (cm_lapsed_evidence m)\<rparr>
             in (Accepted, accept_claim clock c inherited m'))
        | Some existing \<Rightarrow>
            (case dget (cm_leases m) (claim_id existing) of
                None \<Rightarrow> process_tiebreak clock existing c m
              | Some lease \<Rightarrow>
                  if lease_is_lapsed None clock lease
                  then (let (inherited, lease') = lease_lapse lease;
                            m' = m\<lparr>cm_leases := dset (claim_id existing) lease' (cm_leases m)\<rparr>
                        in (Superseded, accept_claim clock c (Some inherited) m'))
                  else process_tiebreak clock existing c m)))"

definition cm_renew_lease :: "time \<Rightarrow> string \<Rightarrow> claim_manager \<Rightarrow> bool \<times> claim_manager" where
  "cm_renew_lease clock cid m =
     (case dget (cm_leases m) cid of
        None \<Rightarrow> (False, m)
      | Some lease \<Rightarrow>
          if cle_status lease \<noteq> ClaimActive then (False, m)
          else (True, m\<lparr>cm_leases :=
                  dset cid (lease_renew clock (cm_lease_duration m) lease) (cm_leases m)\<rparr>))"

text \<open>One turn of the loop of \<open>tick\<close> over a snapshot of the leases.\<close>

definition tick_lease ::
  "time \<Rightarrow> time \<Rightarrow> string \<times> claim_lease \<Rightarrow> claim_lease list \<times> claim_manager \<Rightarrow>
     claim_lease list \<times> claim_manager" where
  "tick_lease now clock entry acc =
     (let (cid, lease) = entry; (lapsed, m) = acc in
      if cle_status lease = ClaimActive \<and> lease_is_lapsed (Some now) clock lease
      then (let (evs, lease') = lease_lapse lease;
                subject = cle_subject lease;
                active = cm_active_claims m;
                active' = (case dget active subject of
                    Some a \<Rightarrow> if claim_id a = cid then ddel subject active else active
                  | None \<Rightarrow> active)
            in (lapsed @ [lease'],
                m\<lparr>cm_leases := dset cid lease' (cm_leases m),
                  cm_lapsed_evidence := dset subject evs (cm_lapsed_evidence m),
                  cm_active_claims := active'\<rparr>))
      else (lapsed, m))"

definition cm_tick ::
  "time option \<Rightarrow> time \<Rightarrow> claim_manager \<Rightarrow> claim_lease list \<times> claim_manager" where
  "cm_tick now clock m =
     fold (tick_lease (now_default now clock) clock) (cm_leases m) ([], m)"

definition cm_resolve :: "string \<Rightarrow> claim_manager \<Rightarrow> bool \<times> claim_manager" where
  "cm_resolve subject m =
     (case dget (cm_active_claims m) subject of
        None \<Rightarrow> (False, m)
      | Some c \<Rightarrow>
          (True, m\<lparr>cm_active_claims := ddel subject (cm_active_claims m),
                   cm_leases := (case dget (cm_leases m) (claim_id c) of
                       Some l \<Rightarrow> dset (claim_id c) (l\<lparr>cle_status := ClaimResolved\<rparr>) (cm_leases m)
                     | None \<Rightarrow> cm_leases m),
                   cm_resolved := insert subject (cm_resolved m)\<rparr>))"

definition get_owned_claims :: "claim_manager \<Rightarrow> claim list" where
  "get_owned_claims m =
     filter (\<lambda>c. claimant_id c = cm_my_id m \<and>
                 (case dget (cm_leases m) (claim_id c) of
                    None \<Rightarrow> False | Some l \<Rightarrow> cle_status l = ClaimActive))
            (dvals (cm_active_claims m))"

definition get_active_claim :: "claim_manager \<Rightarrow> string \<Rightarrow> claim option" where
  "get_active_claim m subject = dget (cm_active_claims m) subject"

definition get_lease :: "claim_manager \<Rightarrow> string \<Rightarrow> claim_lease option" where
  "get_lease m cid = dget (cm_leases m) cid"

definition is_claimable :: "time \<Rightarrow> claim_manager \<Rightarrow> string \<Rightarrow> bool" where
  "is_claimable clock m subject =
     (if subject \<in> cm_resolved m then False
      else (case dget (cm_active_claims m) subject of
          None \<Rightarrow> True
        | Some c \<Rightarrow> (case dget (cm_leases m) (claim_id c) of
              None \<Rightarrow> True
            | Some l \<Rightarrow> lease_is_lapsed None clock l)))"

lemmas manager_defs =
  process_claim_def process_tiebreak_def accept_claim_def evict_claim_def cm_renew_lease_def
  cm_resolve_def lease_lapse_def Let_def

subsection \<open>The operations as one system\<close>

datatype manager_op =
    OpProcess time claim
  | OpRenew time string
  | OpTick "time option" time
  | OpResolve string

fun manager_step :: "manager_op \<Rightarrow> claim_manager \<Rightarrow> claim_manager" where
  "manager_step (OpProcess clock c) m = snd (process_claim clock c m)"
| "manager_step (OpRenew clock cid) m = snd (cm_renew_lease clock cid m)"
| "manager_step (OpTick now clock) m = snd (cm_tick now clock m)"
| "manager_step (OpResolve s) m = snd (cm_resolve s m)"

text \<open>
  Claim identifiers are made by \<open>uuid4\<close>: a claim identifier belongs to one subject. The function
  \<open>subj\<close> says which.
\<close>

fun op_names_ok :: "(string \<Rightarrow> string) \<Rightarrow> manager_op \<Rightarrow> bool" where
  "op_names_ok subj (OpProcess clock c) = (subj (claim_id c) = subject_device_id c)"
| "op_names_ok subj _ = True"

text \<open>
  The tables agree: every lease is filed under its own claim and subject; every active claim
  stands under its subject, is not resolved, and has an active lease; and every active lease is
  the one of its subject's active claim, so a subject has at most one.
\<close>

definition lease_filed :: "(string \<Rightarrow> string) \<Rightarrow> string \<Rightarrow> claim_lease \<Rightarrow> bool" where
  "lease_filed subj i l \<longleftrightarrow> cle_claim_id l = i \<and> cle_subject l = subj i"

definition leases_ok :: "(string \<Rightarrow> string) \<Rightarrow> (string, claim_lease) dict \<Rightarrow> bool" where
  "leases_ok subj ls \<longleftrightarrow> wf_dict ls \<and> (\<forall>i l. dget ls i = Some l \<longrightarrow> lease_filed subj i l)"

definition has_active_lease :: "(string, claim_lease) dict \<Rightarrow> string \<Rightarrow> bool" where
  "has_active_lease ls i \<longleftrightarrow> (case dget ls i of None \<Rightarrow> False | Some l \<Rightarrow> cle_status l = ClaimActive)"

definition claim_filed :: "(string \<Rightarrow> string) \<Rightarrow> string \<Rightarrow> claim \<Rightarrow> bool" where
  "claim_filed subj s c \<longleftrightarrow> subject_device_id c = s \<and> subj (claim_id c) = s"

definition active_ok ::
  "(string \<Rightarrow> string) \<Rightarrow> (string, claim) dict \<Rightarrow> (string, claim_lease) dict \<Rightarrow> string set \<Rightarrow> bool"
  where "active_ok subj act ls res \<longleftrightarrow> wf_dict act \<and>
     (\<forall>s c. dget act s = Some c \<longrightarrow>
        claim_filed subj s c \<and> s \<notin> res \<and> has_active_lease ls (claim_id c)) \<and>
     (\<forall>i. has_active_lease ls i \<longrightarrow> (\<exists>c. dget act (subj i) = Some c \<and> claim_id c = i))"

definition manager_inv :: "(string \<Rightarrow> string) \<Rightarrow> claim_manager \<Rightarrow> bool" where
  "manager_inv subj m \<longleftrightarrow> leases_ok subj (cm_leases m) \<and>
     active_ok subj (cm_active_claims m) (cm_leases m) (cm_resolved m)"

named_theorems filed \<open>how the table predicates read after an update\<close>

lemma init_manager_inv: "manager_inv subj (init_manager me d)"
  by (simp add: manager_inv_def leases_ok_def active_ok_def init_manager_def has_active_lease_def)

lemma leases_ok_dset [filed]:
  "leases_ok subj ls \<Longrightarrow> lease_filed subj i l \<Longrightarrow> leases_ok subj (dset i l ls)"
  by (simp add: leases_ok_def)

lemma leases_ok_ddel [filed]: "leases_ok subj ls \<Longrightarrow> leases_ok subj (ddel i ls)"
  by (simp add: leases_ok_def)

lemma leases_okD: "leases_ok subj ls \<Longrightarrow> dget ls i = Some l \<Longrightarrow> lease_filed subj i l"
  by (simp add: leases_ok_def)

lemma lease_filed_upd [filed]:
  "lease_filed subj i (l\<lparr>cle_status := st\<rparr>) = lease_filed subj i l"
  "lease_filed subj i (l\<lparr>cle_expiry := x\<rparr>) = lease_filed subj i l"
  "lease_filed subj i (l\<lparr>cle_evidence := e\<rparr>) = lease_filed subj i l"
  by (simp_all add: lease_filed_def)

lemma lease_filed_from_claim [filed]:
  "subj (claim_id c) = subject_device_id c \<Longrightarrow> lease_filed subj (claim_id c) (from_claim t d c)"
  by (simp add: lease_filed_def)

lemma has_active_dset [filed]:
  "has_active_lease (dset i l ls) j \<longleftrightarrow>
     (j = i \<and> cle_status l = ClaimActive) \<or> (j \<noteq> i \<and> has_active_lease ls j)"
  by (simp add: has_active_lease_def)

lemma has_active_ddel [filed]:
  "has_active_lease (ddel i ls) j \<longleftrightarrow> j \<noteq> i \<and> has_active_lease ls j"
  by (simp add: has_active_lease_def)

lemma active_okD:
  assumes "active_ok subj act ls res" and "dget act s = Some c"
  shows "subject_device_id c = s" "subj (claim_id c) = s" "s \<notin> res"
    "has_active_lease ls (claim_id c)"
  using assms by (auto simp: active_ok_def claim_filed_def)

lemma active_ok_owner:
  assumes "active_ok subj act ls res" and "has_active_lease ls i"
  obtains c where "dget act (subj i) = Some c" "claim_id c = i"
  using assms by (auto simp: active_ok_def)

text \<open>
  The three ways an operation changes the tables: the entry of a subject is replaced, it is
  deleted, or no entry changes; leases of other subjects stay as active as they were.
\<close>

lemma active_ok_put:
  assumes "active_ok subj act ls res" and "claim_filed subj s c" and "s \<notin> res"
    and "\<And>i. subj i = s \<Longrightarrow> has_active_lease ls' i \<longleftrightarrow> i = claim_id c"
    and "\<And>i. subj i \<noteq> s \<Longrightarrow> has_active_lease ls' i \<longleftrightarrow> has_active_lease ls i"
  shows "active_ok subj (dset s c act) ls' res"
  using assms by (auto simp: active_ok_def claim_filed_def)

lemma active_ok_drop:
  assumes "active_ok subj act ls res"
    and "\<And>i. subj i = s \<Longrightarrow> \<not> has_active_lease ls' i"
    and "\<And>i. subj i \<noteq> s \<Longrightarrow> has_active_lease ls' i \<longleftrightarrow> has_active_lease ls i"
    and "\<And>r. r \<in> res' \<Longrightarrow> r \<in> res \<or> r = s"
  shows "active_ok subj (ddel s act) ls' res'"
proof -
  have "s' \<notin> res' \<and> claim_filed subj s' c \<and> has_active_lease ls' (claim_id c)"
    if "dget act s' = Some c" "s' \<noteq> s" for s' c
    using that assms(3,4) active_okD [OF assms(1) that(1)] by (auto simp: claim_filed_def)
  moreover have "subj i \<noteq> s \<and> (\<exists>c. dget act (subj i) = Some c \<and> claim_id c = i)"
    if "has_active_lease ls' i" for i
    using that assms(1,2,3) by (metis active_ok_owner)
  ultimately show ?thesis using assms(1) by (simp add: active_ok_def)
qed

lemma active_ok_leases:
  assumes "active_ok subj act ls res"
    and "\<And>i. has_active_lease ls' i \<longleftrightarrow> has_active_lease ls i"
  shows "active_ok subj act ls' res"
  using assms by (simp add: active_ok_def)

lemma accept_claim_eq:
  "accept_claim clock c inh m =
     m\<lparr>cm_active_claims := dset (subject_device_id c) c (cm_active_claims m),
       cm_leases := dset (claim_id c)
         ((from_claim clock (cm_lease_duration m) c)
            \<lparr>cle_evidence := cl_evidence c # (case inh of None \<Rightarrow> [] | Some evs \<Rightarrow> evs)\<rparr>)
         (cm_leases m)\<rparr>"
  by (cases inh) (simp_all add: accept_claim_def fold_add_evidence from_claim_def)

text \<open>
  Accepting a claim repairs the subject's entry: before it, no lease of the subject is active,
  and leases of other subjects are as they were.
\<close>

lemma accept_claim_inv:
  assumes "leases_ok subj (cm_leases m)" and "active_ok subj (cm_active_claims m) ls (cm_resolved m)"
    and "\<And>i. subj i = subject_device_id c \<Longrightarrow> \<not> has_active_lease (cm_leases m) i"
    and "\<And>i. subj i \<noteq> subject_device_id c \<Longrightarrow>
      has_active_lease (cm_leases m) i \<longleftrightarrow> has_active_lease ls i"
    and "subj (claim_id c) = subject_device_id c" and "subject_device_id c \<notin> cm_resolved m"
  shows "manager_inv subj (accept_claim clock c inh m)"
  using assms
  by (auto simp: manager_inv_def accept_claim_eq filed claim_filed_def
      intro!: active_ok_put [where ls = ls])

lemma process_claim_inv:
  assumes inv: "manager_inv subj m" and names: "subj (claim_id c) = subject_device_id c"
  shows "manager_inv subj (snd (process_claim clock c m))"
proof -
  let ?s = "subject_device_id c"
  have ok: "leases_ok subj (cm_leases m)"
      "active_ok subj (cm_active_claims m) (cm_leases m) (cm_resolved m)"
    using inv by (simp_all add: manager_inv_def)
  have acc: "manager_inv subj (accept_claim clock c inh m')"
    if "leases_ok subj (cm_leases m')" "cm_active_claims m' = cm_active_claims m"
      "cm_resolved m' = cm_resolved m" "?s \<notin> cm_resolved m"
      "\<And>i. subj i = ?s \<Longrightarrow> \<not> has_active_lease (cm_leases m') i"
      "\<And>i. subj i \<noteq> ?s \<Longrightarrow> has_active_lease (cm_leases m') i \<longleftrightarrow> has_active_lease (cm_leases m) i"
    for inh m'
    using that ok(2) names by (intro accept_claim_inv [where ls = "cm_leases m"]) auto
  show ?thesis
  proof (cases "?s \<in> cm_resolved m")
    case True
    with inv show ?thesis by (simp add: process_claim_def)
  next
    case False
    show ?thesis
    proof (cases "dget (cm_active_claims m) ?s")
      case None
      then have "\<not> has_active_lease (cm_leases m) i" if "subj i = ?s" for i
        using that ok(2) by (metis active_ok_owner option.distinct(1))
      with None False ok show ?thesis by (simp add: process_claim_def Let_def acc)
    next
      case (Some old)
      have old: "subj (claim_id old) = ?s" by (rule active_okD(2) [OF ok(2) Some])
      have only: "\<not> has_active_lease (cm_leases m) i" if "i \<noteq> claim_id old" "subj i = ?s" for i
        using that ok(2) Some by (metis active_ok_owner option.inject)
      have tie: "manager_inv subj (snd (process_tiebreak clock old c m))"
        using inv False ok(1) old only
        by (auto simp: process_tiebreak_def evict_claim_def filed intro!: acc)
      show ?thesis
      proof (cases "dget (cm_leases m) (claim_id old)")
        case None
        with Some False tie show ?thesis by (simp add: process_claim_def)
      next
        case (Some l)
        with leases_okD [OF ok(1) Some] \<open>dget (cm_active_claims m) ?s = Some old\<close> False tie
          ok(1) old only
        show ?thesis
          by (auto simp: process_claim_def Let_def lease_lapse_def filed intro!: acc)
      qed
    qed
  qed
qed

lemma renew_lease_inv:
  assumes "manager_inv subj m"
  shows "manager_inv subj (snd (cm_renew_lease clock cid m))"
proof (cases "dget (cm_leases m) cid")
  case None
  with assms show ?thesis by (simp add: cm_renew_lease_def)
next
  case (Some l)
  then have "has_active_lease (cm_leases m) cid \<longleftrightarrow> cle_status l = ClaimActive"
    by (simp add: has_active_lease_def)
  with Some assms leases_okD [of subj "cm_leases m" cid l] show ?thesis
    by (auto simp: cm_renew_lease_def lease_renew_def manager_inv_def filed
        intro!: active_ok_leases [where ls = "cm_leases m"])
qed

lemma resolve_inv:
  assumes "manager_inv subj m"
  shows "manager_inv subj (snd (cm_resolve s m))"
proof (cases "dget (cm_active_claims m) s")
  case None
  with assms show ?thesis by (simp add: cm_resolve_def)
next
  case (Some c)
  have ok: "leases_ok subj (cm_leases m)"
      "active_ok subj (cm_active_claims m) (cm_leases m) (cm_resolved m)"
    using assms by (simp_all add: manager_inv_def)
  note c = active_okD [OF ok(2) Some]
  then obtain l where l: "dget (cm_leases m) (claim_id c) = Some l"
    by (auto simp: has_active_lease_def split: option.splits)
  have only: "\<not> has_active_lease (cm_leases m) i" if "i \<noteq> claim_id c" "subj i = s" for i
    using that ok(2) Some by (metis active_ok_owner option.inject)
  from Some l ok leases_okD [OF ok(1) l] only c show ?thesis
    by (auto simp: cm_resolve_def manager_inv_def filed
        intro!: active_ok_drop [where ls = "cm_leases m" and res = "cm_resolved m"])
qed

text \<open>\<open>tick\<close> works through a snapshot whose leases are filed where they belong.\<close>

lemma tick_lease_inv:
  assumes "manager_inv subj m" and "lease_filed subj cid l"
  shows "manager_inv subj (snd (tick_lease now clock (cid, l) (lapsed, m)))"
proof (cases "cle_status l = ClaimActive \<and> lease_is_lapsed (Some now) clock l")
  case False
  with assms show ?thesis by (auto simp: tick_lease_def)
next
  case True
  have ok: "leases_ok subj (cm_leases m)"
      "active_ok subj (cm_active_claims m) (cm_leases m) (cm_resolved m)"
    using assms by (simp_all add: manager_inv_def)
  have subject: "cle_subject l = subj cid" using assms(2) by (simp add: lease_filed_def)
  let ?ls = "dset cid (l\<lparr>cle_status := ClaimLapsed\<rparr>) (cm_leases m)"
  show ?thesis
  proof (cases "\<exists>a. dget (cm_active_claims m) (subj cid) = Some a \<and> claim_id a = cid")
    case dropped: True
    have "\<not> has_active_lease (cm_leases m) i" if "i \<noteq> cid" "subj i = subj cid" for i
      using that ok(2) dropped by (metis active_ok_owner option.inject)
    with True dropped ok assms(2) subject show ?thesis
      by (auto simp: tick_lease_def lease_lapse_def Let_def manager_inv_def filed
          intro!: active_ok_drop [where ls = "cm_leases m" and res = "cm_resolved m"])
  next
    case kept: False
    then have "\<not> has_active_lease (cm_leases m) cid"
      using ok(2) by (metis active_ok_owner)
    with True kept ok assms(2) subject show ?thesis
      by (auto simp: tick_lease_def lease_lapse_def Let_def manager_inv_def filed split: option.split
          intro!: active_ok_leases [where ls = "cm_leases m"])
  qed
qed

lemma tick_inv:
  assumes "manager_inv subj m"
  shows "manager_inv subj (snd (cm_tick now clock m))"
proof -
  have "manager_inv subj (snd (fold (tick_lease t clock) es (acc, m)))"
    if "\<forall>(cid, l) \<in> set es. lease_filed subj cid l" for es acc t
    using assms that
  proof (induction es arbitrary: acc m)
    case Nil
    then show ?case by simp
  next
    case (Cons e es)
    obtain cid l where e: "e = (cid, l)" by fastforce
    have "manager_inv subj (snd (tick_lease t clock e (acc, m)))"
      unfolding e by (rule tick_lease_inv) (use Cons.prems e in auto)
    with Cons.IH [of "snd (tick_lease t clock e (acc, m))" "fst (tick_lease t clock e (acc, m))"]
      Cons.prems show ?case by simp
  qed
  moreover have "lease_filed subj cid l" if "(cid, l) \<in> set (cm_leases m)" for cid l
    using that assms by (auto simp: manager_inv_def leases_ok_def map_of_eq_Some_iff)
  ultimately show ?thesis unfolding cm_tick_def by blast
qed

text \<open>The arbiter as a system whose every run keeps the tables consistent.\<close>

interpretation arbiter: inv_system manager_step "manager_inv subj" "op_names_ok subj" for subj
proof
  fix m op
  assume "manager_inv subj m" "op_names_ok subj op"
  then show "manager_inv subj (manager_step op m)"
    by (cases op) (simp_all add: process_claim_inv renew_lease_inv tick_inv resolve_inv)
qed

subsection \<open>What one call does\<close>

text \<open>The answer of \<open>process_claim\<close> says what became of the active claim.\<close>

lemma process_claim_active:
  assumes "process_claim clock c m = (r, m')"
  shows "r = Rejected \<Longrightarrow> m' = m"
    and "r \<noteq> Rejected \<Longrightarrow> cm_active_claims m' = dset (subject_device_id c) c (cm_active_claims m)"
    and "cm_resolved m' = cm_resolved m" "cm_lease_duration m' = cm_lease_duration m"
  using assms
  by (auto simp: process_claim_def process_tiebreak_def accept_claim_eq evict_claim_def
      lease_lapse_def Let_def split: if_splits option.splits)

lemma process_claim_lease:
  assumes "process_claim clock c m = (r, m')" and "r \<noteq> Rejected"
  obtains l where "dget (cm_leases m') (claim_id c) = Some l"
    "cle_owner_id l = claimant_id c" "cle_subject l = subject_device_id c"
    "cle_expiry l = clock + cm_lease_duration m" "cle_status l = ClaimActive"
    "hd (cle_evidence l) = cl_evidence c"
proof -
  let ?l = "the (dget (cm_leases m') (claim_id c))"
  have "dget (cm_leases m') (claim_id c) = Some ?l \<and> cle_owner_id ?l = claimant_id c \<and>
      cle_subject ?l = subject_device_id c \<and> cle_expiry ?l = clock + cm_lease_duration m \<and>
      cle_status ?l = ClaimActive \<and> hd (cle_evidence ?l) = cl_evidence c"
    using assms
    by (auto simp: process_claim_def process_tiebreak_def accept_claim_eq evict_claim_def
        lease_lapse_def Let_def split: if_splits option.splits)
  then show ?thesis by (intro that [of ?l]) auto
qed

text \<open>Inheritance: the lease of a claim on a lapsed subject starts from the evidence left there.\<close>

lemma process_claim_inherits:
  assumes "subject_device_id c \<notin> cm_resolved m"
    and "dget (cm_active_claims m) (subject_device_id c) = None"
    and "dget (cm_lapsed_evidence m) (subject_device_id c) = Some evs"
  shows "\<exists>l. get_lease (snd (process_claim clock c m)) (claim_id c) = Some l \<and>
    cle_evidence l = cl_evidence c # evs"
    and "dget (cm_lapsed_evidence (snd (process_claim clock c m))) (subject_device_id c) = None"
  using assms by (simp_all add: process_claim_def Let_def accept_claim_eq get_lease_def)

lemma process_claim_takes_over:
  assumes "subject_device_id c \<notin> cm_resolved m"
    and "dget (cm_active_claims m) (subject_device_id c) = Some old"
    and "dget (cm_leases m) (claim_id old) = Some l" and "cle_expiry l \<le> clock"
  shows "fst (process_claim clock c m) = Superseded"
    and "\<exists>l'. get_lease (snd (process_claim clock c m)) (claim_id c) = Some l' \<and>
      cle_evidence l' = cl_evidence c # cle_evidence l"
  using assms
  by (simp_all add: process_claim_def lease_lapse_def lease_is_lapsed_def accept_claim_eq
      get_lease_def)

subsection \<open>Convergence of the tiebreak\<close>

text \<open>
  The owner recorded for a subject while every lease in question is still running. Processing
  claims for it one after another leaves the least claimant.
\<close>

definition owner_of :: "claim_manager \<Rightarrow> string \<Rightarrow> agent_id option" where
  "owner_of m s = map_option claimant_id (dget (cm_active_claims m) s)"

definition process_all :: "(time \<times> claim) list \<Rightarrow> claim_manager \<Rightarrow> claim_manager" where
  "process_all cs m = fold (\<lambda>(t, c) m. snd (process_claim t c m)) cs m"

text \<open>All leases run past the horizon \<open>h\<close>, and all claims are processed before it.\<close>

definition running_until :: "time \<Rightarrow> claim_manager \<Rightarrow> bool" where
  "running_until h m \<longleftrightarrow> (\<forall>i l. dget (cm_leases m) i = Some l \<longrightarrow> h \<le> cle_expiry l)"

fun least_owner :: "agent_id option \<Rightarrow> agent_id \<Rightarrow> agent_id option" where
  "least_owner None a = Some a"
| "least_owner (Some b) a = Some (min b a)"

lemma running_not_lapsed:
  "running_until h m \<Longrightarrow> t < h \<Longrightarrow> dget (cm_leases m) i = Some l \<Longrightarrow> \<not> lease_is_lapsed None t l"
  by (auto simp: running_until_def lease_is_lapsed_def not_le intro: less_le_trans)

lemma process_claim_unlapsed:
  assumes "running_until h m" and "t < h"
  shows "process_claim t c m =
    (if subject_device_id c \<in> cm_resolved m then (Rejected, m)
     else case dget (cm_active_claims m) (subject_device_id c) of
         None \<Rightarrow> (Accepted, accept_claim t c (dget (cm_lapsed_evidence m) (subject_device_id c))
           (m\<lparr>cm_lapsed_evidence := ddel (subject_device_id c) (cm_lapsed_evidence m)\<rparr>))
       | Some old \<Rightarrow> process_tiebreak t old c m)"
  by (auto simp: process_claim_def Let_def running_not_lapsed [OF assms] split: option.split)

lemma running_accept:
  "running_until h m \<Longrightarrow> h \<le> t + cm_lease_duration m \<Longrightarrow> running_until h (accept_claim t c inh m)"
  by (simp add: running_until_def accept_claim_eq)

lemma running_evict: "running_until h m \<Longrightarrow> running_until h (evict_claim i m)"
  by (simp add: running_until_def evict_claim_def)

lemma process_claim_running:
  assumes "running_until h m" and "t < h" and "h \<le> t + cm_lease_duration m"
  shows "running_until h (snd (process_claim t c m))"
proof -
  have "running_until h (m\<lparr>cm_lapsed_evidence := e\<rparr>)" for e
    using assms(1) by (simp add: running_until_def)
  then have "running_until h (accept_claim t c inh (m\<lparr>cm_lapsed_evidence := e\<rparr>))" for inh e
    using assms(3) by (intro running_accept) simp_all
  moreover have "running_until h (snd (process_tiebreak t old c m))" for old
    using assms by (auto simp: process_tiebreak_def intro!: running_accept running_evict)
      (simp add: evict_claim_def)
  ultimately show ?thesis
    using assms(1) by (simp add: process_claim_unlapsed [OF assms(1,2)] split: option.split)
qed

lemma process_claim_owner:
  assumes "running_until h m" and "t < h"
  shows "owner_of (snd (process_claim t c m)) s =
      (if s = subject_device_id c \<and> s \<notin> cm_resolved m
       then least_owner (owner_of m s) (claimant_id c) else owner_of m s)"
proof (cases "subject_device_id c \<in> cm_resolved m")
  case True
  then show ?thesis by (auto simp: process_claim_def)
next
  case False
  then show ?thesis
    by (simp add: process_claim_unlapsed [OF assms] process_tiebreak_def accept_claim_eq
        evict_claim_def owner_of_def min_def split: option.split)
qed

lemma process_all_owner:
  assumes "running_until h m"
    and "\<forall>(t, c) \<in> set cs. t < h \<and> h \<le> t + cm_lease_duration m" and "s \<notin> cm_resolved m"
  shows "owner_of (process_all cs m) s =
    fold (\<lambda>a b. least_owner b a)
      (map (claimant_id \<circ> snd) (filter (\<lambda>(t, c). subject_device_id c = s) cs)) (owner_of m s)"
  using assms
proof (induction cs arbitrary: m)
  case Nil
  then show ?case by (simp add: process_all_def)
next
  case (Cons tc cs)
  obtain t c where tc: "tc = (t, c)" by fastforce
  let ?m = "snd (process_claim t c m)"
  have pres: "cm_resolved ?m = cm_resolved m" "cm_lease_duration ?m = cm_lease_duration m"
    using process_claim_active [of t c m "fst (process_claim t c m)" ?m] by simp_all
  have run: "running_until h ?m" and own: "owner_of ?m s =
      (if s = subject_device_id c then least_owner (owner_of m s) (claimant_id c) else owner_of m s)"
    using Cons.prems process_claim_running [of h m t c] process_claim_owner [of h m t c s]
    by (simp_all add: tc)
  have "owner_of (process_all (tc # cs) m) s = owner_of (process_all cs ?m) s"
    by (simp add: process_all_def tc)
  also have "\<dots> = fold (\<lambda>a b. least_owner b a)
      (map (claimant_id \<circ> snd) (filter (\<lambda>(t, c). subject_device_id c = s) cs)) (owner_of ?m s)"
    by (rule Cons.IH) (use Cons.prems run pres in auto)
  finally show ?case using own by (simp add: tc comp_def)
qed

lemma fold_least_owner:
  "fold (\<lambda>a b. least_owner b a) as (Some x) = Some (Min (insert x (set as)))"
proof (induction as arbitrary: x)
  case Nil
  then show ?case by simp
next
  case (Cons a as)
  have "Min (insert (min x a) (set as)) = Min (insert x (insert a (set as)))"
    by (cases "as = []") (simp_all add: min.assoc)
  with Cons show ?case by simp
qed

lemma fold_least_owner_None:
  "as \<noteq> [] \<Longrightarrow> fold (\<lambda>a b. least_owner b a) as None = Some (Min (set as))"
  by (cases as) (simp_all add: fold_least_owner)

definition claimants_for :: "string \<Rightarrow> (time \<times> claim) list \<Rightarrow> agent_id set" where
  "claimants_for s cs =
     set (map (claimant_id \<circ> snd) (filter (\<lambda>(t, c). subject_device_id c = s) cs))"

lemma fresh_owner:
  assumes "\<forall>(t, c) \<in> set cs. t < h \<and> h \<le> t + d" and "claimants_for s cs \<noteq> {}"
  shows "owner_of (process_all cs (init_manager me d)) s = Some (Min (claimants_for s cs))"
proof -
  let ?as = "map (claimant_id \<circ> snd) (filter (\<lambda>(t, c). subject_device_id c = s) cs)"
  have set: "set ?as = claimants_for s cs"
    by (simp add: claimants_for_def)
  have "owner_of (process_all cs (init_manager me d)) s =
      fold (\<lambda>a b. least_owner b a) ?as (owner_of (init_manager me d) s)"
    using assms(1)
    by (intro process_all_owner [where h = h]) (auto simp: running_until_def init_manager_def)
  moreover have "?as \<noteq> []" using assms(2) set by force
  ultimately show ?thesis
    unfolding set [symmetric] by (simp add: fold_least_owner_None owner_of_def init_manager_def)
qed

subsection \<open>What a tick leaves behind\<close>

definition due_lease :: "time \<Rightarrow> claim_lease \<Rightarrow> bool" where
  "due_lease now l \<longleftrightarrow> cle_status l = ClaimActive \<and> cle_expiry l \<le> now"

text \<open>What a turn of the loop leaves of a subject: its evidence is kept, or nothing changes for it.\<close>

lemma tick_lease_subject:
  assumes "now \<noteq> 0"
  shows "dget (cm_lapsed_evidence (snd (tick_lease now clock (i, l) (acc, m)))) s =
      (if due_lease now l \<and> cle_subject l = s then Some (cle_evidence l)
       else dget (cm_lapsed_evidence m) s)"
    and "dget (cm_active_claims (snd (tick_lease now clock (i, l) (acc, m)))) s =
      (if due_lease now l \<and> cle_subject l = s \<and>
          (case dget (cm_active_claims m) s of None \<Rightarrow> False | Some c \<Rightarrow> claim_id c = i)
       then None else dget (cm_active_claims m) s)"
    and "cm_resolved (snd (tick_lease now clock (i, l) (acc, m))) = cm_resolved m"
    and "cm_lease_duration (snd (tick_lease now clock (i, l) (acc, m))) = cm_lease_duration m"
  using assms
  by (auto simp: tick_lease_def lease_lapse_def lease_is_lapsed_def due_lease_def Let_def
      split: option.split)

lemma tick_others:
  assumes "now \<noteq> 0" and "\<forall>(i, l) \<in> set es. \<not> (due_lease now l \<and> cle_subject l = s)"
  shows "dget (cm_lapsed_evidence (snd (fold (tick_lease now clock) es (acc, m)))) s =
      dget (cm_lapsed_evidence m) s
    \<and> dget (cm_active_claims (snd (fold (tick_lease now clock) es (acc, m)))) s =
      dget (cm_active_claims m) s
    \<and> cm_resolved (snd (fold (tick_lease now clock) es (acc, m))) = cm_resolved m"
  using assms(2)
proof (induction es arbitrary: acc m)
  case (Cons e es)
  obtain i l where e: "e = (i, l)" by (cases e)
  obtain acc1 m1 where t: "tick_lease now clock e (acc, m) = (acc1, m1)"
    by (cases "tick_lease now clock e (acc, m)")
  have "dget (cm_lapsed_evidence m1) s = dget (cm_lapsed_evidence m) s"
    "dget (cm_active_claims m1) s = dget (cm_active_claims m) s" "cm_resolved m1 = cm_resolved m"
    using tick_lease_subject [OF assms(1), of clock i l acc m] Cons.prems t e by auto
  with Cons.IH [of acc1 m1] Cons.prems t show ?case by simp
qed simp

lemma tick_lapses:
  fixes clock
  assumes inv: "manager_inv subj m" and "now \<noteq> 0"
    and l: "dget (cm_leases m) i = Some l" "due_lease now l"
  defines "m' \<equiv> snd (cm_tick (Some now) clock m)"
  shows "dget (cm_lapsed_evidence m') (cle_subject l) = Some (cle_evidence l)"
    and "dget (cm_active_claims m') (cle_subject l) = None"
    and "cm_resolved m' = cm_resolved m"
proof -
  have ok: "leases_ok subj (cm_leases m)"
      "active_ok subj (cm_active_claims m) (cm_leases m) (cm_resolved m)"
    using inv by (simp_all add: manager_inv_def)
  have filed: "lease_filed subj j k" if "dget (cm_leases m) j = Some k" for j k
    using leases_okD [OF ok(1) that] .
  have act: "has_active_lease (cm_leases m) i" using l by (simp add: has_active_lease_def due_lease_def)
  obtain c where c: "dget (cm_active_claims m) (cle_subject l) = Some c" "claim_id c = i"
    using active_ok_owner [OF ok(2) act] filed [OF l(1)] by (auto simp: lease_filed_def)
  obtain pre post where split: "cm_leases m = pre @ (i, l) # post"
    using split_list [OF map_of_SomeD [OF l(1)]] by auto
  have wf: "wf_dict (cm_leases m)" using ok(1) by (simp add: leases_ok_def)
  have keys: "i \<notin> set (dkeys pre) \<union> set (dkeys post)"
    using wf by (simp add: split)
  have no_other: "\<not> (due_lease now k \<and> cle_subject k = cle_subject l)"
    if "(j, k) \<in> set pre \<union> set post" for j k
  proof
    assume k: "due_lease now k \<and> cle_subject k = cle_subject l"
    have "j \<in> set (dkeys pre) \<union> set (dkeys post)" using that by force
    then have "j \<noteq> i" using keys by blast
    have "(j, k) \<in> set (cm_leases m)" using that by (auto simp: split)
    then have jk: "dget (cm_leases m) j = Some k" using wf by (simp add: map_of_eq_Some_iff)
    then have "has_active_lease (cm_leases m) j" using k by (simp add: has_active_lease_def due_lease_def)
    then obtain d where "dget (cm_active_claims m) (subj j) = Some d" "claim_id d = j"
      by (rule active_ok_owner [OF ok(2)])
    moreover have "subj j = cle_subject l" using filed [OF jk] k by (simp add: lease_filed_def)
    ultimately show False using c \<open>j \<noteq> i\<close> by simp
  qed
  have none_before: "\<forall>(j, k) \<in> set pre. \<not> (due_lease now k \<and> cle_subject k = cle_subject l)"
    and none_after: "\<forall>(j, k) \<in> set post. \<not> (due_lease now k \<and> cle_subject k = cle_subject l)"
    using no_other by blast+
  let ?t = "tick_lease now clock"
  obtain a1 m1 where 1: "fold ?t pre ([], m) = (a1, m1)" by (cases "fold ?t pre ([], m)")
  obtain a2 m2 where 2: "?t (i, l) (a1, m1) = (a2, m2)" by (cases "?t (i, l) (a1, m1)")
  have m': "m' = snd (fold ?t post (a2, m2))"
    by (simp add: m'_def cm_tick_def split 1 2)
  have m1: "dget (cm_active_claims m1) (cle_subject l) = Some c" "cm_resolved m1 = cm_resolved m"
    using tick_others [OF assms(2), of pre "cle_subject l" clock "[]" m] none_before c 1 by simp_all
  have m2: "dget (cm_lapsed_evidence m2) (cle_subject l) = Some (cle_evidence l)"
    "dget (cm_active_claims m2) (cle_subject l) = None" "cm_resolved m2 = cm_resolved m"
    using tick_lease_subject [OF assms(2), of clock i l a1 m1] 2 l(2) m1 c(2) by simp_all
  show "dget (cm_lapsed_evidence m') (cle_subject l) = Some (cle_evidence l)"
    "dget (cm_active_claims m') (cle_subject l) = None" "cm_resolved m' = cm_resolved m"
    using tick_others [OF assms(2), of post "cle_subject l" clock a2 m2] no_other m2 m' by auto
qed

lemma no_resolution_undone:
  "cm_resolved m \<subseteq> cm_resolved (manager_step op m)"
proof (cases op)
  case (OpTick now clock)
  have "cm_resolved (snd (fold (tick_lease t clock) es s)) = cm_resolved (snd s)" for es t s
  proof (induction es arbitrary: s)
    case (Cons e es)
    have "cm_resolved (snd (tick_lease t clock e s)) = cm_resolved (snd s)"
      by (auto simp: tick_lease_def lease_lapse_def Let_def split: prod.split)
    with Cons show ?case by simp
  qed simp
  with OpTick show ?thesis by (simp add: cm_tick_def)
next
  case (OpProcess t c)
  then show ?thesis
    using process_claim_active(3) [of t c m "fst (process_claim t c m)" "snd (process_claim t c m)"]
    by simp
qed (auto simp: cm_renew_lease_def cm_resolve_def split: option.split)

lemma resolved_runs: "s \<in> cm_resolved m \<Longrightarrow> s \<in> cm_resolved (fold manager_step ops m)"
  using no_resolution_undone by (induction ops arbitrary: m) fastforce+

subsection \<open>Properties\<close>

text \<open>C24: Whatever calls a node makes, in whatever order, its claim tables stay consistent: an
  active lease belongs to the active claim of its subject, so a subject never has two owners on
  one node, and a resolved subject has none.\<close>

theorem claim_tables_consistent:
  assumes "list_all (op_names_ok subj) ops" and m_def: "m = fold manager_step ops (init_manager me d)"
  shows "(\<forall>i l. get_lease m i = Some l \<longrightarrow> cle_status l = ClaimActive \<longrightarrow>
      (\<exists>c. get_active_claim m (cle_subject l) = Some c \<and> claim_id c = i \<and>
         cle_subject l \<notin> cm_resolved m))
    \<and> (\<forall>i j l k. get_lease m i = Some l \<longrightarrow> get_lease m j = Some k \<longrightarrow>
         cle_status l = ClaimActive \<longrightarrow> cle_status k = ClaimActive \<longrightarrow>
         cle_subject l = cle_subject k \<longrightarrow> i = j)"
proof -
  have inv: "manager_inv subj m"
    unfolding m_def by (rule arbiter.run_keeps_inv [OF init_manager_inv assms(1)])
  have owner: "\<exists>c. get_active_claim m (cle_subject l) = Some c \<and> claim_id c = i \<and>
      cle_subject l \<notin> cm_resolved m"
    if "get_lease m i = Some l" "cle_status l = ClaimActive" for i l
  proof -
    have l: "dget (cm_leases m) i = Some l" "has_active_lease (cm_leases m) i"
      using that by (simp_all add: get_lease_def has_active_lease_def)
    then have subj: "cle_subject l = subj i"
      using inv leases_okD by (auto simp: manager_inv_def lease_filed_def)
    have ok: "active_ok subj (cm_active_claims m) (cm_leases m) (cm_resolved m)"
      using inv by (simp add: manager_inv_def)
    obtain c where c: "dget (cm_active_claims m) (subj i) = Some c" "claim_id c = i"
      using active_ok_owner [OF ok l(2)] .
    with active_okD(3) [OF ok c(1)] show ?thesis by (auto simp: get_active_claim_def subj)
  qed
  have same: "i = j" if "get_lease m i = Some l" "get_lease m j = Some k" "cle_status l = ClaimActive"
    "cle_status k = ClaimActive" "cle_subject l = cle_subject k" for i j l k
    using owner [OF that(1,3)] owner [OF that(2,4)] that(5) by auto
  from owner same show ?thesis by blast
qed

text \<open>C23: The owner of a subject depends only on which claims a node has processed. Two nodes that start with fresh managers
  and process claims, in any orders and at any times, each before the lease of any of its claims runs out, and with the same
  claimants for a subject, agree on its owner: the least claimant identifier, also when another claim was observed
  first. (R-M15 says that the first claim observed wins; that holds only until a
  smaller identifier claims the subject, which then takes it from its owner.)\<close>

theorem tiebreak_converges:
  assumes "\<forall>(t, c) \<in> set cs. t < h \<and> h \<le> t + d" and "\<forall>(t, c) \<in> set cs'. t < h' \<and> h' \<le> t + d'"
    and "claimants_for s cs = claimants_for s cs'" and "claimants_for s cs \<noteq> {}"
  shows "owner_of (process_all cs (init_manager me d)) s = Some (Min (claimants_for s cs))
    \<and> owner_of (process_all cs' (init_manager me' d')) s = Some (Min (claimants_for s cs))"
  using fresh_owner [OF assms(1,4)] fresh_owner [OF assms(2), of s] assms(3,4) by metis

text \<open>A lease that runs out returns its subject to claim with the evidence gathered so far: the
  next claim on it is accepted, and its lease holds the new evidence followed by the old.\<close>

theorem lapse_inherits_evidence:
  assumes "list_all (op_names_ok subj) ops"
    and "get_lease (fold manager_step ops (init_manager me d)) i = Some l"
    and "cle_status l = ClaimActive" and "cle_expiry l \<le> now" and "now \<noteq> 0"
    and "subject_device_id c = cle_subject l"
  shows "\<exists>m'. process_claim t c (snd (cm_tick (Some now) clock
        (fold manager_step ops (init_manager me d)))) = (Accepted, m')
    \<and> (\<exists>k. get_lease m' (claim_id c) = Some k \<and> cle_owner_id k = claimant_id c
        \<and> cle_evidence k = cl_evidence c # cle_evidence l)"
proof -
  let ?m = "fold manager_step ops (init_manager me d)"
  let ?m1 = "snd (cm_tick (Some now) clock ?m)"
  have inv: "manager_inv subj ?m" by (rule arbiter.run_keeps_inv [OF init_manager_inv assms(1)])
  have l: "dget (cm_leases ?m) i = Some l" "due_lease now l"
    using assms by (simp_all add: get_lease_def due_lease_def)
  note lapsed = tick_lapses [OF inv assms(5) l, of clock]
  have ok: "active_ok subj (cm_active_claims ?m) (cm_leases ?m) (cm_resolved ?m)"
      and filed: "lease_filed subj i l"
    using inv leases_okD l by (auto simp: manager_inv_def)
  obtain a where "dget (cm_active_claims ?m) (subj i) = Some a"
    using active_ok_owner [OF ok, of i] l by (auto simp: has_active_lease_def due_lease_def)
  from active_okD(3) [OF ok this] have "cle_subject l \<notin> cm_resolved ?m1"
    using filed lapsed(3) by (simp add: lease_filed_def)
  then show ?thesis
    using lapsed(1,2) assms(6) by (simp add: process_claim_def Let_def accept_claim_eq get_lease_def)
qed

text \<open>A resolved incident stays resolved: whatever happens afterwards, a claim on its subject is
  rejected without any effect, and the subject is not claimable.\<close>

theorem resolved_is_final:
  assumes "cm_resolve s m = (True, m')"
  shows "is_claimable t (fold manager_step ops m') s = False
    \<and> (subject_device_id c = s \<longrightarrow>
        process_claim t c (fold manager_step ops m') = (Rejected, fold manager_step ops m'))"
proof -
  have "s \<in> cm_resolved m'" using assms by (auto simp: cm_resolve_def split: option.splits)
  then have "s \<in> cm_resolved (fold manager_step ops m')" by (rule resolved_runs)
  then show ?thesis by (simp add: is_claimable_def process_claim_def)
qed

text \<open>A claim is rejected exactly when its subject is not claimable and either is resolved or has
  an owner whose identifier is not greater; otherwise the claim becomes the active one.\<close>

theorem process_claim_decides:
  assumes "list_all (op_names_ok subj) ops" and "m = fold manager_step ops (init_manager me d)"
    and "process_claim t c m = (r, m')"
  shows "(r = Rejected \<longleftrightarrow> \<not> is_claimable t m (subject_device_id c) \<and>
      (subject_device_id c \<in> cm_resolved m \<or>
       (\<exists>a. get_active_claim m (subject_device_id c) = Some a \<and> claimant_id a \<le> claimant_id c)))
    \<and> get_active_claim m' (subject_device_id c) =
      (if r = Rejected then get_active_claim m (subject_device_id c) else Some c)"
proof -
  let ?s = "subject_device_id c"
  have "manager_inv subj m"
    unfolding assms(2) by (rule arbiter.run_keeps_inv [OF init_manager_inv assms(1)])
  then have "active_ok subj (cm_active_claims m) (cm_leases m) (cm_resolved m)"
    by (simp add: manager_inv_def)
  note lease' = active_okD(4) [OF this]
  have lease: "dget (cm_leases m) (claim_id a) \<noteq> None" if "dget (cm_active_claims m) ?s = Some a" for a
    using lease' [OF that] by (auto simp: has_active_lease_def split: option.splits)
  have "get_active_claim m' ?s = (if r = Rejected then get_active_claim m ?s else Some c)"
    using process_claim_active(1,2) [OF assms(3)] by (simp add: get_active_claim_def)
  moreover have "r = Rejected \<longleftrightarrow> \<not> is_claimable t m ?s \<and> (?s \<in> cm_resolved m \<or>
      (\<exists>a. get_active_claim m ?s = Some a \<and> claimant_id a \<le> claimant_id c))"
  proof (cases "dget (cm_active_claims m) ?s")
    case None
    with assms(3) show ?thesis
      by (auto simp: process_claim_def is_claimable_def get_active_claim_def Let_def)
  next
    case (Some a)
    with lease obtain l where "dget (cm_leases m) (claim_id a) = Some l" by fastforce
    with Some assms(3) show ?thesis
      by (auto simp: process_claim_def is_claimable_def get_active_claim_def Let_def lease_lapse_def
          process_tiebreak_def split: if_splits)
  qed
  ultimately show ?thesis by simp
qed

subsection \<open>Witnesses\<close>

text \<open>A small mesh: agents \<open>a\<close> and \<open>b\<close> claim device \<open>d\<close>; every claim identifier is for \<open>d\<close>.\<close>

definition claim_a :: claim where
  "claim_a = claim_new ''1'' 10 ''a'' ''d'' [(''e'', PyInt 1)] 1"

definition claim_b :: claim where
  "claim_b = claim_new ''2'' 10 ''b'' ''d'' [(''e'', PyInt 2)] 1"

lemmas mesh_eval = claim_a_def claim_b_def claim_new_def init_manager_def process_claim_def
  process_tiebreak_def accept_claim_eq evict_claim_def from_claim_def get_lease_def
  get_active_claim_def cm_resolve_def lease_is_lapsed_def Let_def

definition demo_manager :: claim_manager where
  "demo_manager = fold manager_step [OpProcess 10 claim_b, OpProcess 11 claim_a] (init_manager ''a'' 120)"

lemma demo_manager_eval:
  "get_lease demo_manager ''1'' = Some (from_claim 11 120 claim_a)"
  by (simp add: demo_manager_def mesh_eval)

lemma claim_tables_consistent_witness:
  "\<exists>c. get_active_claim demo_manager ''d'' = Some c \<and> claim_id c = ''1''"
proof -
  have names: "list_all (op_names_ok (\<lambda>_. ''d'')) [OpProcess 10 claim_b, OpProcess 11 claim_a]"
    by (simp add: claim_a_def claim_b_def claim_new_def)
  have "cle_subject (from_claim 11 120 claim_a) = ''d''" by (simp add: claim_a_def claim_new_def)
  then show ?thesis
    using claim_tables_consistent [OF names demo_manager_def] demo_manager_eval
    by (metis from_claim_simps(6))
qed

lemma tiebreak_converges_witness:
  "owner_of (process_all [(10, claim_b), (11, claim_a)] (init_manager ''a'' 120)) ''d'' = Some ''a''
   \<and> owner_of (process_all [(20, claim_a), (21, claim_b)] (init_manager ''b'' 60)) ''d'' = Some ''a''"
proof -
  have "claimants_for ''d'' [(10 :: time, claim_b), (11, claim_a)] = {''a'', ''b''}"
    "claimants_for ''d'' [(20 :: time, claim_a), (21, claim_b)] = {''a'', ''b''}"
    by (simp_all add: claimants_for_def claim_a_def claim_b_def claim_new_def insert_commute)
  moreover have "Min {''a'', ''b''} = ''a''" by (simp add: min_def)
  ultimately show ?thesis
    using tiebreak_converges [of "[(10, claim_b), (11, claim_a)]" 100 120
        "[(20, claim_a), (21, claim_b)]" 70 60 "''d''" "''a''" "''b''"] by simp
qed

lemma lapse_inherits_evidence_witness:
  "\<exists>m' k. process_claim 131 claim_a (snd (cm_tick (Some 130) 130
        (fold manager_step [OpProcess 10 claim_b] (init_manager ''a'' 120)))) = (Accepted, m')
    \<and> get_lease m' ''1'' = Some k \<and> cle_evidence k = [[(''e'', PyInt 1)], [(''e'', PyInt 2)]]"
  using lapse_inherits_evidence [of "\<lambda>_. ''d''" "[OpProcess 10 claim_b]" "''a''" 120 "''2''"
      "from_claim 10 120 claim_b" 130 claim_a 131 130]
  by (auto simp: mesh_eval)

lemma resolved_is_final_witness:
  "is_claimable 20 (fold manager_step [OpTick None 20] (snd (cm_resolve ''d'' demo_manager))) ''d'' =
    False"
proof -
  have "fst (cm_resolve ''d'' demo_manager)" by (simp add: demo_manager_def mesh_eval)
  then have "cm_resolve ''d'' demo_manager = (True, snd (cm_resolve ''d'' demo_manager))"
    by (cases "cm_resolve ''d'' demo_manager") simp
  from resolved_is_final [OF this, of 20 "[OpTick None 20]"] show ?thesis by blast
qed

lemma process_claim_decides_witness:
  "fst (process_claim 12 claim_b demo_manager) = Rejected"
proof -
  have names: "list_all (op_names_ok (\<lambda>_. ''d'')) [OpProcess 10 claim_b, OpProcess 11 claim_a]"
    by (simp add: claim_a_def claim_b_def claim_new_def)
  obtain r m' where r: "process_claim 12 claim_b demo_manager = (r, m')"
    by (cases "process_claim 12 claim_b demo_manager")
  have "get_active_claim demo_manager ''d'' = Some claim_a" "subject_device_id claim_b = ''d''"
    "\<not> is_claimable 12 demo_manager ''d''" "claimant_id claim_a \<le> claimant_id claim_b"
    by (simp_all add: demo_manager_def mesh_eval is_claimable_def)
  with process_claim_decides [OF names demo_manager_def r] show ?thesis
    by (simp add: r)
qed

end
