(* ===== verification/Claim_Exchange.thy ===== *)
theory Claim_Exchange
  imports Claims
begin

text \<open>
  The reliability layer under the claim protocol (\<open>src/src/harkeniq/autonomy/claim_exchange.py\<close>)
  and the ring of peer keys it checks signatures with
  (\<open>src/src/harkeniq/autonomy/peer_keyring.py\<close>). Outbound claims are resent until every peer
  acknowledged or the retries are used up; inbound claims are checked and buffered. The two
  callables that \<open>ClaimExchange\<close> holds (reachable peers, peer identifiers) are arguments of
  \<open>broadcast\<close>, the only method that calls them.
\<close>

subsection \<open>The key ring\<close>

type_synonym 'pk keyring = "(agent_id, 'pk) dict"

text \<open>
  \<open>hash16\<close> is the first 16 hex digits of SHA-256, \<open>load_pem\<close> gives a key only for a well-formed
  Ed25519 key, \<open>sm_verify\<close> checks the site manager's signature over the sorted bundle; the
  \<open>InvalidSignature\<close> it raises is the result \<open>None\<close>.
\<close>

definition load_key ::
  "(bytes \<Rightarrow> string) \<Rightarrow> (bytes \<Rightarrow> 'pk option) \<Rightarrow> agent_id \<Rightarrow> agent_id \<times> bytes \<Rightarrow>
     nat \<times> 'pk keyring \<Rightarrow> nat \<times> 'pk keyring" where
  "load_key hash16 load_pem me entry acc =
     (let (aid, pem) = entry; (loaded, ring) = acc in
      if aid = me then acc
      else if aid \<noteq> hash16 pem then acc
      else (case load_pem pem of None \<Rightarrow> acc | Some pk \<Rightarrow> (loaded + 1, dset aid pk ring)))"

definition load_from_bundle ::
  "((agent_id, bytes) dict \<Rightarrow> bytes \<Rightarrow> bool) \<Rightarrow> (bytes \<Rightarrow> string) \<Rightarrow> (bytes \<Rightarrow> 'pk option) \<Rightarrow>
     (agent_id, bytes) dict \<Rightarrow> bytes \<Rightarrow> agent_id \<Rightarrow> 'pk keyring \<Rightarrow> (nat \<times> 'pk keyring) option" where
  "load_from_bundle sm_verify hash16 load_pem keys sig me ring =
     (if \<not> sm_verify (sort_key fst keys) sig then None
      else Some (fold (load_key hash16 load_pem me) keys (0, ring)))"

definition keyring_verify ::
  "('pk \<Rightarrow> message \<Rightarrow> bytes \<Rightarrow> bool) \<Rightarrow> 'pk keyring \<Rightarrow> agent_id \<Rightarrow> message \<Rightarrow> bytes \<Rightarrow> bool" where
  "keyring_verify ed_verify ring aid msg sig =
     (case dget ring aid of None \<Rightarrow> False | Some pk \<Rightarrow> ed_verify pk msg sig)"

text \<open>Every key taken from a bundle is filed under the hash of its own encoding.\<close>

definition key_bound :: "(bytes \<Rightarrow> string) \<Rightarrow> (bytes \<Rightarrow> 'pk option) \<Rightarrow> 'pk keyring \<Rightarrow> bool" where
  "key_bound hash16 load_pem ring \<longleftrightarrow>
     (\<forall>aid pk. dget ring aid = Some pk \<longrightarrow> (\<exists>pem. load_pem pem = Some pk \<and> hash16 pem = aid))"

lemma load_key_bound:
  "key_bound hash16 load_pem (snd acc) \<Longrightarrow>
     key_bound hash16 load_pem (snd (load_key hash16 load_pem me entry acc))"
  by (cases acc; cases entry) (auto simp: load_key_def key_bound_def Let_def split: option.split)

lemma load_from_bundle_bound:
  assumes "key_bound hash16 load_pem ring"
    and "load_from_bundle sm_verify hash16 load_pem keys sig me ring = Some (n, ring')"
  shows "key_bound hash16 load_pem ring'" and "sm_verify (sort_key fst keys) sig"
proof -
  have "key_bound hash16 load_pem (snd (fold (load_key hash16 load_pem me) ks acc))"
    if "key_bound hash16 load_pem (snd acc)" for ks acc
    using that by (induction ks arbitrary: acc) (simp_all add: load_key_bound)
  from this [of "(0, ring)" keys] assms show "key_bound hash16 load_pem ring'"
    by (auto simp: load_from_bundle_def split: if_splits)
  show "sm_verify (sort_key fst keys) sig"
    using assms(2) by (simp add: load_from_bundle_def split: if_splits)
qed

subsection \<open>The exchange\<close>

record outbound =
  ob_claim :: claim
  ob_pending :: "agent_id set"
  ob_retries :: int
  ob_next_retry :: time
  ob_acked_by :: "agent_id set"

record exchange =
  ex_interval :: real
  ex_max_retries :: int
  ex_outbound :: "(string, outbound) dict"
  ex_inbound :: "(string, claim) dict"
  ex_acks :: "(string, claim_ack list) dict"

definition init_exchange :: "real \<Rightarrow> int \<Rightarrow> exchange" where
  "init_exchange interval retries =
     \<lparr>ex_interval = interval, ex_max_retries = retries, ex_outbound = [], ex_inbound = [],
      ex_acks = []\<rparr>"

definition fully_acked :: "outbound \<Rightarrow> bool" where
  "fully_acked out = (ob_pending out = {})"

definition exhausted :: "outbound \<Rightarrow> bool" where
  "exhausted out \<longleftrightarrow> ob_retries out \<le> 0 \<and> \<not> fully_acked out"

definition broadcast ::
  "nat \<Rightarrow> agent_id list \<Rightarrow> claim \<Rightarrow> exchange \<Rightarrow> string option \<times> exchange" where
  "broadcast reachable ids c x =
     (if reachable = 0 then (None, x)
      else if ids = [] then (None, x)
      else (Some (claim_id c),
            x\<lparr>ex_outbound := dset (claim_id c)
                \<lparr>ob_claim = c, ob_pending = set ids, ob_retries = ex_max_retries x,
                 ob_next_retry = 0, ob_acked_by = {}\<rparr> (ex_outbound x)\<rparr>))"

text \<open>
  The loop of \<open>get_claims_to_send\<close> over the outbound table, with the removal of the finished
  entries that follows it: what is sent now, and what stays.
\<close>

fun send_loop ::
  "time \<Rightarrow> real \<Rightarrow> (string, outbound) dict \<Rightarrow> claim list \<times> (string, outbound) dict" where
  "send_loop now interval [] = ([], [])"
| "send_loop now interval ((cid, out) # rest) =
     (let (ts, outs) = send_loop now interval rest in
      if fully_acked out then (ts, outs)
      else if exhausted out then (ts, outs)
      else if ob_next_retry out \<le> now
      then (ob_claim out # ts,
            (cid, out\<lparr>ob_retries := ob_retries out - 1, ob_next_retry := now + interval\<rparr>) # outs)
      else (ts, (cid, out) # outs))"

definition get_claims_to_send :: "time option \<Rightarrow> time \<Rightarrow> exchange \<Rightarrow> claim list \<times> exchange" where
  "get_claims_to_send now clock x =
     (let (ts, outs) = send_loop (now_default now clock) (ex_interval x) (ex_outbound x)
      in (ts, x\<lparr>ex_outbound := outs\<rparr>))"

definition receive_claim ::
  "('pk \<Rightarrow> message \<Rightarrow> bytes \<Rightarrow> bool) \<Rightarrow> 'pk keyring \<Rightarrow> claim \<Rightarrow> exchange \<Rightarrow> bool \<times> exchange" where
  "receive_claim ed_verify ring c x =
     (if dhas (ex_inbound x) (claim_id c) then (False, x)
      else (case dget ring (claimant_id c) of
          None \<Rightarrow> (False, x)
        | Some pk \<Rightarrow>
            if \<not> claim_verify ed_verify pk c then (False, x)
            else (True, x\<lparr>ex_inbound := dset (claim_id c) c (ex_inbound x)\<rparr>)))"

definition receive_ack ::
  "('pk \<Rightarrow> message \<Rightarrow> bytes \<Rightarrow> bool) \<Rightarrow> 'pk keyring \<Rightarrow> claim_ack \<Rightarrow> exchange \<Rightarrow> bool \<times> exchange" where
  "receive_ack ed_verify ring a x =
     (case dget (ex_outbound x) (ack_claim_id a) of
        None \<Rightarrow> (False, x)
      | Some out \<Rightarrow>
          (case dget ring (acker_id a) of
             None \<Rightarrow> (False, x)
           | Some pk \<Rightarrow>
               if \<not> ack_verify ed_verify pk a then (False, x)
               else (True,
                 x\<lparr>ex_outbound := dset (ack_claim_id a)
                     (out\<lparr>ob_pending := ob_pending out - {acker_id a},
                          ob_acked_by := insert (acker_id a) (ob_acked_by out)\<rparr>) (ex_outbound x),
                   ex_acks := dset (ack_claim_id a)
                     (dget_or (ex_acks x) (ack_claim_id a) [] @ [a]) (ex_acks x)\<rparr>)))"

definition get_pending_inbound :: "exchange \<Rightarrow> claim list \<times> exchange" where
  "get_pending_inbound x = (dvals (ex_inbound x), x\<lparr>ex_inbound := []\<rparr>)"

definition cancel_outbound :: "string \<Rightarrow> exchange \<Rightarrow> exchange" where
  "cancel_outbound cid x = x\<lparr>ex_outbound := ddel cid (ex_outbound x)\<rparr>"

definition is_fully_acked :: "string \<Rightarrow> exchange \<Rightarrow> bool" where
  "is_fully_acked cid x =
     (case dget (ex_outbound x) cid of None \<Rightarrow> True | Some out \<Rightarrow> fully_acked out)"

subsection \<open>How often a claim is sent\<close>

text \<open>The exchange as a system that also records what it sent and what it was asked to broadcast.\<close>

record traffic =
  tx :: exchange
  tx_sent :: "claim list"
  tx_asked :: "string list"

datatype 'pk exchange_op =
    XBroadcast nat "agent_id list" claim
  | XSend "time option" time
  | XClaim "'pk keyring" claim
  | XAck "'pk keyring" claim_ack
  | XDrain
  | XCancel string

fun exchange_step ::
  "('pk \<Rightarrow> message \<Rightarrow> bytes \<Rightarrow> bool) \<Rightarrow> 'pk exchange_op \<Rightarrow> traffic \<Rightarrow> traffic" where
  "exchange_step ed (XBroadcast reach ids c) s =
     s\<lparr>tx := snd (broadcast reach ids c (tx s)), tx_asked := tx_asked s @ [claim_id c]\<rparr>"
| "exchange_step ed (XSend now clock) s =
     (let (ts, x) = get_claims_to_send now clock (tx s)
      in s\<lparr>tx := x, tx_sent := tx_sent s @ ts\<rparr>)"
| "exchange_step ed (XClaim ring c) s = s\<lparr>tx := snd (receive_claim ed ring c (tx s))\<rparr>"
| "exchange_step ed (XAck ring a) s = s\<lparr>tx := snd (receive_ack ed ring a (tx s))\<rparr>"
| "exchange_step ed XDrain s = s\<lparr>tx := snd (get_pending_inbound (tx s))\<rparr>"
| "exchange_step ed (XCancel cid) s = s\<lparr>tx := cancel_outbound cid (tx s)\<rparr>"

definition sent_count :: "string \<Rightarrow> claim list \<Rightarrow> nat" where
  "sent_count cid cs = length (filter (\<lambda>c. claim_id c = cid) cs)"

definition retries_of :: "string \<Rightarrow> (string, outbound) dict \<Rightarrow> int" where
  "retries_of cid outs = (case dget outs cid of None \<Rightarrow> 0 | Some out \<Rightarrow> max 0 (ob_retries out))"

text \<open>Entries are filed under their claim's identifier.\<close>

definition outs_ok :: "(string, outbound) dict \<Rightarrow> bool" where
  "outs_ok outs \<longleftrightarrow> wf_dict outs \<and>
     (\<forall>cid out. dget outs cid = Some out \<longrightarrow> claim_id (ob_claim out) = cid)"

lemma outs_ok_dset: "outs_ok outs \<Longrightarrow> claim_id (ob_claim out) = cid \<Longrightarrow> outs_ok (dset cid out outs)"
  by (simp add: outs_ok_def)

lemma outs_ok_ddel: "outs_ok outs \<Longrightarrow> outs_ok (ddel cid outs)"
  by (simp add: outs_ok_def)

lemma outs_ok_Cons:
  "outs_ok ((cid, out) # outs) \<longleftrightarrow>
     dget outs cid = None \<and> claim_id (ob_claim out) = cid \<and> outs_ok outs"
  by (auto simp: outs_ok_def map_of_eq_None_iff)
    (metis map_of_eq_None_iff option.distinct(1))

lemma send_loop_keys: "set (dkeys (snd (send_loop now iv outs))) \<subseteq> set (dkeys outs)"
proof (induction outs)
  case (Cons e outs)
  obtain c out ts rest where "e = (c, out)" and "send_loop now iv outs = (ts, rest)"
    by (metis surj_pair)
  with Cons show ?case by auto
qed simp

lemma retries_Cons:
  "retries_of cid ((c, out) # outs) =
     (if cid = c then max 0 (ob_retries out) else retries_of cid outs)"
  by (simp add: retries_of_def)

lemma send_loop_ok:
  "outs_ok outs \<Longrightarrow> outs_ok (snd (send_loop now iv outs)) \<and>
     int (sent_count cid (fst (send_loop now iv outs))) + retries_of cid (snd (send_loop now iv outs))
       \<le> retries_of cid outs"
proof (induction now iv outs rule: send_loop.induct)
  case (1 now iv)
  then show ?case by (simp add: sent_count_def)
next
  case (2 now iv c out rest)
  obtain ts outs where r: "send_loop now iv rest = (ts, outs)" by fastforce
  have ok: "outs_ok rest" "dget rest c = None" "claim_id (ob_claim out) = c"
    using "2.prems" by (simp_all add: outs_ok_Cons)
  have new: "dget outs c = None"
    using ok(2) send_loop_keys [of now iv rest] by (auto simp: r map_of_eq_None_iff)
  have absent: "retries_of c rest = 0" "retries_of c outs = 0"
    using ok(2) new by (simp_all add: retries_of_def)
  have IH: "outs_ok outs" "int (sent_count cid ts) + retries_of cid outs \<le> retries_of cid rest"
    using "2.IH" ok(1) r by simp_all
  show ?case
    using IH ok new absent
    by (auto simp: r retries_Cons outs_ok_Cons sent_count_def exhausted_def)
qed

text \<open>
  Every claim identifier has been sent at most \<open>max_retries\<close> times for each request to
  broadcast it, counting the retries it still has.
\<close>

definition traffic_inv :: "int \<Rightarrow> traffic \<Rightarrow> bool" where
  "traffic_inv n s \<longleftrightarrow> ex_max_retries (tx s) = n \<and> outs_ok (ex_outbound (tx s)) \<and>
     (\<forall>cid. int (sent_count cid (tx_sent s)) + retries_of cid (ex_outbound (tx s)) \<le>
        max 0 n * int (count_list (tx_asked s) cid))"

lemma sent_count_append [simp]: "sent_count cid (xs @ ys) = sent_count cid xs + sent_count cid ys"
  by (simp add: sent_count_def)

lemma retries_dset [simp]:
  "retries_of cid (dset k out outs) = (if cid = k then max 0 (ob_retries out) else retries_of cid outs)"
  by (simp add: retries_of_def)

lemma retries_ddel [simp]: "retries_of cid (ddel k outs) = (if cid = k then 0 else retries_of cid outs)"
  by (simp add: retries_of_def)

lemma retries_nonneg: "0 \<le> retries_of cid outs"
  by (simp add: retries_of_def split: option.split)

lemma broadcast_retries:
  assumes "traffic_inv n s" and "x' = snd (broadcast reach ids c (tx s))"
  shows "retries_of cid (ex_outbound x') \<le>
      retries_of cid (ex_outbound (tx s)) + (if cid = claim_id c then max 0 n else 0)"
    and "outs_ok (ex_outbound x')" and "ex_max_retries x' = n"
  using assms retries_nonneg [of cid "ex_outbound (tx s)"]
  by (auto simp: broadcast_def traffic_inv_def intro: outs_ok_dset)

lemma receive_ack_retries:
  assumes "outs_ok (ex_outbound x)" and "x' = snd (receive_ack ed ring a x)"
  shows "retries_of cid (ex_outbound x') = retries_of cid (ex_outbound x)"
    and "outs_ok (ex_outbound x')" and "ex_max_retries x' = ex_max_retries x"
  using assms
  by (auto simp: receive_ack_def retries_of_def outs_ok_def split: option.split)

lemma receive_claim_outbound [simp]:
  "ex_outbound (snd (receive_claim ed ring c x)) = ex_outbound x"
  "ex_max_retries (snd (receive_claim ed ring c x)) = ex_max_retries x"
  by (simp_all add: receive_claim_def split: option.split)

interpretation exchange: inv_system "exchange_step ed" "traffic_inv n" "\<lambda>_. True" for ed n
proof
  fix s op
  assume inv: "traffic_inv n s"
  then have bound: "int (sent_count cid (tx_sent s)) + retries_of cid (ex_outbound (tx s)) \<le>
      max 0 n * int (count_list (tx_asked s) cid)"
    and ok: "outs_ok (ex_outbound (tx s))" and n: "ex_max_retries (tx s) = n" for cid
    by (simp_all add: traffic_inv_def)
  show "traffic_inv n (exchange_step ed op s)"
  proof (cases op)
    case (XBroadcast reach ids c)
    define x' where "x' = snd (broadcast reach ids c (tx s))"
    note b = broadcast_retries [OF inv x'_def]
    have "int (sent_count cid (tx_sent s)) +
        retries_of cid (ex_outbound x') \<le>
        max 0 n * int (count_list (tx_asked s @ [claim_id c]) cid)" for cid
      using b(1) [of cid] bound [of cid] by (auto simp: algebra_simps)
    with b(2,3) XBroadcast x'_def show ?thesis by (simp add: traffic_inv_def)
  next
    case (XSend now clock)
    obtain ts outs where l: "send_loop (now_default now clock) (ex_interval (tx s))
        (ex_outbound (tx s)) = (ts, outs)" by fastforce
    have "outs_ok outs"
      "int (sent_count cid ts) + retries_of cid outs \<le> retries_of cid (ex_outbound (tx s))" for cid
      using send_loop_ok [OF ok, of "now_default now clock" "ex_interval (tx s)"] by (simp_all add: l)
    moreover from this(2) have "int (sent_count cid (tx_sent s @ ts)) + retries_of cid outs \<le>
        max 0 n * int (count_list (tx_asked s) cid)" for cid
      using bound [of cid] by (smt (verit) sent_count_append of_nat_add)
    ultimately show ?thesis
      using n XSend by (simp add: traffic_inv_def get_claims_to_send_def l)
  next
    case (XAck ring a)
    define x' where "x' = snd (receive_ack ed ring a (tx s))"
    show ?thesis
      using bound n receive_ack_retries [OF ok x'_def] XAck x'_def by (simp add: traffic_inv_def)
  next
    case (XCancel cid)
    have "int (sent_count k (tx_sent s)) \<le> max 0 n * int (count_list (tx_asked s) k)" for k
      using bound [of k] retries_nonneg [of k "ex_outbound (tx s)"] by linarith
    with XCancel show ?thesis
      using bound n ok by (simp add: traffic_inv_def cancel_outbound_def outs_ok_ddel)
  qed (use bound n ok in \<open>simp_all add: traffic_inv_def get_pending_inbound_def\<close>)
qed

subsection \<open>What the inbound buffer holds\<close>

lemma receive_claim_verified:
  assumes "fst (receive_claim ed ring c x)"
  obtains pk where "dget ring (claimant_id c) = Some pk" "claim_verify ed pk c"
  using assms by (auto simp: receive_claim_def split: option.splits if_splits)

definition inbound_verified ::
  "('pk \<Rightarrow> message \<Rightarrow> bytes \<Rightarrow> bool) \<Rightarrow> 'pk keyring \<Rightarrow> exchange \<Rightarrow> bool" where
  "inbound_verified ed ring x \<longleftrightarrow> (\<forall>cid c. dget (ex_inbound x) cid = Some c \<longrightarrow>
     (\<exists>pk. dget ring (claimant_id c) = Some pk \<and> claim_verify ed pk c))"

lemma receive_claim_inbound:
  "inbound_verified ed ring x \<Longrightarrow> inbound_verified ed ring (snd (receive_claim ed ring c x))"
  by (auto simp: inbound_verified_def receive_claim_def split: option.split)

text \<open>An exhausted claim is dropped at the next poll, and then counts as acknowledged by all.\<close>

lemma send_loop_drops:
  assumes "dget outs cid = Some out" and "fully_acked out \<or> exhausted out" and "wf_dict outs"
  shows "dget (snd (send_loop now iv outs)) cid = None"
  using assms
proof (induction now iv outs rule: send_loop.induct)
  case (2 now iv c o' rest)
  obtain ts outs where r: "send_loop now iv rest = (ts, outs)" by fastforce
  show ?case
  proof (cases "c = cid")
    case True
    have "cid \<notin> set (dkeys (snd (send_loop now iv rest)))"
      using send_loop_keys [of now iv rest] True "2.prems"(3) by auto
    with True "2.prems" show ?thesis by (auto simp: r map_of_eq_None_iff)
  next
    case False
    with 2 show ?thesis by (auto simp: r)
  qed
qed simp

subsection \<open>Properties\<close>

definition init_traffic :: "real \<Rightarrow> int \<Rightarrow> traffic" where
  "init_traffic interval retries =
     \<lparr>tx = init_exchange interval retries, tx_sent = [], tx_asked = []\<rparr>"

lemma init_traffic_inv: "traffic_inv n (init_traffic iv n)"
  by (simp add: traffic_inv_def init_traffic_def init_exchange_def outs_ok_def sent_count_def
      retries_of_def)

text \<open>Whatever is broadcast, polled, received, acknowledged and cancelled, a claim is transmitted
  at most \<open>max_retries\<close> times for each request to broadcast it.\<close>

theorem transmissions_bounded:
  "sent_count cid (tx_sent (fold (exchange_step ed) ops (init_traffic iv n))) \<le>
     nat n * count_list (tx_asked (fold (exchange_step ed) ops (init_traffic iv n))) cid"
proof -
  let ?s = "fold (exchange_step ed) ops (init_traffic iv n)"
  have "traffic_inv n ?s"
    by (rule exchange.run_keeps_inv [OF init_traffic_inv]) (simp add: list_all_iff)
  then have "int (sent_count cid (tx_sent ?s)) + retries_of cid (ex_outbound (tx ?s)) \<le>
      max 0 n * int (count_list (tx_asked ?s) cid)" by (simp add: traffic_inv_def)
  with retries_nonneg [of cid "ex_outbound (tx ?s)"]
  have "int (sent_count cid (tx_sent ?s)) \<le> max 0 n * int (count_list (tx_asked ?s) cid)" by linarith
  also have "\<dots> = int (nat n * count_list (tx_asked ?s) cid)" by (simp add: max_def)
  finally show ?thesis by (simp only: of_nat_le_iff)
qed

text \<open>A claim whose retries are used up while peers have not acknowledged it is reported as
  acknowledged by all peers after the next poll.\<close>

theorem exhausted_claim_reported_acked:
  assumes "dget (ex_outbound x) cid = Some out" and "exhausted out"
    and "wf_dict (ex_outbound x)"
  shows "\<not> is_fully_acked cid x \<and> is_fully_acked cid (snd (get_claims_to_send now clock x))"
proof -
  obtain ts outs where l: "send_loop (now_default now clock) (ex_interval x) (ex_outbound x) = (ts, outs)"
    by fastforce
  have "dget outs cid = None"
    using send_loop_drops [OF assms(1) disjI2 [OF assms(2)] assms(3),
        of "now_default now clock" "ex_interval x"] l by simp
  with assms(1,2) show ?thesis
    by (simp add: is_fully_acked_def get_claims_to_send_def l exhausted_def)
qed

text \<open>The keys an agent takes from a bundle are authentic: the site manager signed the whole
  bundle, and each key stands under the hash of its own encoding; a claim enters the inbound
  buffer only when it verifies under the key of its claimant.\<close>

theorem inbound_is_authentic:
  assumes "load_from_bundle sm_verify hash16 load_pem keys sig me [] = Some (n, ring)"
    and "receive_claim ed ring c x = (True, x')"
  shows "sm_verify (sort_key fst keys) sig
    \<and> (\<exists>pem pk. load_pem pem = Some pk \<and> hash16 pem = claimant_id c \<and> claim_verify ed pk c)"
proof -
  have "key_bound hash16 load_pem []" by (simp add: key_bound_def)
  note ring = load_from_bundle_bound [OF this assms(1)]
  obtain pk where "dget ring (claimant_id c) = Some pk" "claim_verify ed pk c"
    using receive_claim_verified [of ed ring c x] assms(2) by auto
  with ring show ?thesis unfolding key_bound_def by blast
qed

definition demo_claim :: claim where
  "demo_claim = claim_new ''1'' 10 ''a'' ''d'' [] 1"

definition demo_exchange :: exchange where
  "demo_exchange = snd (get_claims_to_send (Some 5) 5 (snd (broadcast 1 [''b''] demo_claim (init_exchange 1 1))))"

lemma exhausted_claim_reported_acked_witness:
  "is_fully_acked ''1'' (snd (get_claims_to_send (Some 9) 9 demo_exchange))"
  using exhausted_claim_reported_acked [of demo_exchange "''1''"
      "\<lparr>ob_claim = demo_claim, ob_pending = {''b''}, ob_retries = 0, ob_next_retry = 6, ob_acked_by = {}\<rparr>"
      "Some 9" 9]
  by (simp add: demo_exchange_def broadcast_def init_exchange_def get_claims_to_send_def
      fully_acked_def exhausted_def demo_claim_def claim_new_def)

lemma inbound_is_authentic_witness:
  "\<exists>pem pk. pem = ([7] :: bytes) \<and> pk = (3 :: nat) \<and> claim_verify (\<lambda>k m s. k = 3) pk demo_claim"
  using inbound_is_authentic [of "\<lambda>_ _. True" "\<lambda>_. ''a''" "\<lambda>p. if p = [7] then Some (3 :: nat) else None"
      "[(''a'', [7])]" "[]" "''b''" 1 "[(''a'', 3)]" "\<lambda>k m s. k = 3" demo_claim "init_exchange 1 1"]
  by (auto simp: load_from_bundle_def load_key_def receive_claim_def init_exchange_def
      claim_verify_def demo_claim_def claim_new_def split: if_splits)

end
