(* ===== verification/Peer_Tracker.thy ===== *)
theory Peer_Tracker
  imports Values
begin

text \<open>
  Peer liveness (\<open>src/src/harkeniq/heartbeat/tracker.py\<close>) and the message envelope of the
  mesh port (\<open>src/src/harkeniq/heartbeat/protocol.py\<close>). A \<open>Peer\<close> object handed out in an event is a
  copy here. Popping from an empty list raises \<open>IndexError\<close>, the result \<open>None\<close>; the tracker's
  invariant (the two buffers of a host have the same length) excludes it.
\<close>

subsection \<open>The envelope\<close>

definition max_packet_bytes :: nat where
  "max_packet_bytes = 576"

definition valid_msg_types :: "byte list" where
  "valid_msg_types = [1, 2, 3, 4]"

datatype envelope_error = UnknownMsgType byte | EnvelopeTooLong nat | DatagramTooShort nat

definition build_envelope :: "byte \<Rightarrow> bytes \<Rightarrow> envelope_error + bytes" where
  "build_envelope ty payload =
     (if ty \<notin> set valid_msg_types then Inl (UnknownMsgType ty)
      else if max_packet_bytes < length (ty # payload) then Inl (EnvelopeTooLong (length (ty # payload)))
      else Inr (ty # payload))"

definition parse_envelope :: "bytes \<Rightarrow> envelope_error + byte \<times> bytes" where
  "parse_envelope d =
     (if length d < 2 then Inl (DatagramTooShort (length d))
      else if d ! 0 \<notin> set valid_msg_types then Inl (UnknownMsgType (d ! 0))
      else Inr (d ! 0, drop 1 d))"

lemma parse_build_envelope:
  assumes "build_envelope ty payload = Inr d" and "payload \<noteq> []"
  shows "parse_envelope d = Inr (ty, payload)"
  using assms by (cases payload) (auto simp: build_envelope_def parse_envelope_def split: if_splits)

lemma build_parse_envelope:
  assumes "parse_envelope d = Inr (ty, payload)" and "length d \<le> max_packet_bytes"
  shows "build_envelope ty payload = Inr d"
  using assms by (cases d) (auto simp: build_envelope_def parse_envelope_def split: if_splits)

subsection \<open>The tracker\<close>

definition health_buffer_seconds :: real where
  "health_buffer_seconds = 60"

record peer_event =
  ev_peer :: peer
  ev_old :: peer_status
  ev_new :: peer_status
  ev_at :: time

record peer_tracker =
  pt_interval :: real
  pt_multiplier :: int
  pt_peers :: "(string, peer) dict"
  pt_last_beat :: "(string, time) dict"
  pt_last_seq :: "(string, int) dict"
  pt_health_ts :: "(string, time list) dict"

text \<open>The peers of a configuration: host, and port where the entry gives one.\<close>

definition new_peer :: "int \<Rightarrow> string \<times> int option \<Rightarrow> peer" where
  "new_peer default_port e =
     \<lparr>peer_id = [], peer_host = fst e,
      peer_port = (case snd e of None \<Rightarrow> default_port | Some p \<Rightarrow> p),
      peer_last_heartbeat = None, peer_status = PeerUnknown, peer_last_health = None,
      peer_health_buffer = [], peer_name = None\<rparr>"

definition init_peer_tracker :: "real \<Rightarrow> int \<Rightarrow> int \<Rightarrow> (string \<times> int option) list \<Rightarrow> peer_tracker" where
  "init_peer_tracker interval multiplier default_port entries =
     \<lparr>pt_interval = interval, pt_multiplier = multiplier,
      pt_peers = fold (\<lambda>e. dset (fst e) (new_peer default_port e)) entries [],
      pt_last_beat = [], pt_last_seq = [], pt_health_ts = []\<rparr>"

definition timeout_seconds :: "peer_tracker \<Rightarrow> real" where
  "timeout_seconds t = pt_interval t * of_int (pt_multiplier t)"

fun evict_health :: "time \<Rightarrow> time list \<Rightarrow> health list \<Rightarrow> (time list \<times> health list) option" where
  "evict_health now [] buf = Some ([], buf)"
| "evict_health now (ts # tss) buf =
     (if health_buffer_seconds < now - ts
      then (case buf of [] \<Rightarrow> None | _ # buf' \<Rightarrow> evict_health now tss buf')
      else Some (ts # tss, buf))"

definition record_heartbeat ::
  "heartbeat_packet \<Rightarrow> string \<Rightarrow> time \<Rightarrow> peer_tracker \<Rightarrow>
     (peer_event option \<times> peer_tracker) option" where
  "record_heartbeat pkt host now t =
     (case dget (pt_peers t) host of
        None \<Rightarrow> Some (None, t)
      | Some p \<Rightarrow>
          if (case dget (pt_last_seq t) host of None \<Rightarrow> False | Some s \<Rightarrow> hb_seq pkt \<le> s)
          then Some (None, t)
          else (case evict_health now (dget_or (pt_health_ts t) host [] @ [now])
                       (peer_health_buffer p @ [hb_health_summary pkt]) of
              None \<Rightarrow> None
            | Some (tss, buf) \<Rightarrow>
                (let p' = p\<lparr>peer_id := hb_agent_id pkt, peer_name := Some (hb_name pkt),
                            peer_last_heartbeat := Some now,
                            peer_last_health := Some (hb_health_summary pkt),
                            peer_health_buffer := buf, peer_status := PeerAlive\<rparr>;
                     t' = t\<lparr>pt_last_seq := dset host (hb_seq pkt) (pt_last_seq t),
                            pt_last_beat := dset host now (pt_last_beat t),
                            pt_health_ts := dset host tss (pt_health_ts t),
                            pt_peers := dset host p' (pt_peers t)\<rparr>
                 in Some (if peer_status p \<noteq> PeerAlive
                          then Some \<lparr>ev_peer = p', ev_old = peer_status p, ev_new = PeerAlive,
                                     ev_at = now\<rparr>
                          else None, t'))))"

definition silent :: "peer_tracker \<Rightarrow> time \<Rightarrow> string \<Rightarrow> bool" where
  "silent t now host =
     (case dget (pt_last_beat t) host of None \<Rightarrow> True | Some s \<Rightarrow> timeout_seconds t < now - s)"

definition check_peer ::
  "peer_tracker \<Rightarrow> time \<Rightarrow> string \<times> peer \<Rightarrow> peer_event option \<times> (string \<times> peer)" where
  "check_peer t now e =
     (let (host, p) = e in
      if peer_status p \<noteq> PeerAlive then (None, e)
      else if silent t now host
      then (let p' = p\<lparr>peer_status := PeerUnresponsive\<rparr>
            in (Some \<lparr>ev_peer = p', ev_old = PeerAlive, ev_new = PeerUnresponsive, ev_at = now\<rparr>,
                (host, p')))
      else (None, e))"

definition check_liveness :: "time \<Rightarrow> peer_tracker \<Rightarrow> peer_event list \<times> peer_tracker" where
  "check_liveness now t =
     (let rs = map (check_peer t now) (pt_peers t)
      in (List.map_filter fst rs, t\<lparr>pt_peers := map snd rs\<rparr>))"

definition restore_peer :: "peer \<Rightarrow> peer_tracker \<Rightarrow> peer_tracker" where
  "restore_peer saved t =
     (case dget (pt_peers t) (peer_host saved) of
        None \<Rightarrow> t
      | Some p \<Rightarrow> t\<lparr>pt_peers := dset (peer_host saved)
           (p\<lparr>peer_id := peer_id saved, peer_name := peer_name saved,
              peer_last_heartbeat := peer_last_heartbeat saved,
              peer_last_health := peer_last_health saved,
              peer_status := (if peer_status saved = PeerAlive then PeerUnknown
                              else peer_status saved)\<rparr>) (pt_peers t)\<rparr>)"

definition restore_peers :: "peer list \<Rightarrow> peer_tracker \<Rightarrow> peer_tracker" where
  "restore_peers ps t = fold restore_peer ps t"

definition get_peers :: "peer_tracker \<Rightarrow> peer list" where
  "get_peers t = dvals (pt_peers t)"

subsection \<open>The tracker's invariant\<close>

text \<open>
  Hosts are unique; a host's health summaries and their times have the same length; an alive
  peer has a recorded beat.
\<close>

definition tracked_ok :: "(string, time) dict \<Rightarrow> (string, time list) dict \<Rightarrow> string \<Rightarrow> peer \<Rightarrow> bool" where
  "tracked_ok beats tss host p \<longleftrightarrow>
     length (peer_health_buffer p) = length (dget_or tss host []) \<and>
     (peer_status p = PeerAlive \<longrightarrow> dhas beats host)"

definition tracker_inv :: "peer_tracker \<Rightarrow> bool" where
  "tracker_inv t \<longleftrightarrow> wf_dict (pt_peers t) \<and>
     (\<forall>host p. dget (pt_peers t) host = Some p \<longrightarrow>
        tracked_ok (pt_last_beat t) (pt_health_ts t) host p)"

lemma evict_health_some:
  "length buf = length tss \<Longrightarrow> \<exists>tss' buf'. evict_health now tss buf = Some (tss', buf') \<and>
     length buf' = length tss' \<and> (\<forall>ts \<in> set (take 1 tss'). now - ts \<le> health_buffer_seconds)"
proof (induction tss arbitrary: buf)
  case (Cons ts tss)
  obtain h buf' where "buf = h # buf'" using Cons.prems by (cases buf) auto
  with Cons show ?case by auto
qed simp

lemma record_heartbeat_total:
  assumes "tracker_inv t"
  obtains r t' where "record_heartbeat pkt host now t = Some (r, t')" "tracker_inv t'"
proof (cases "dget (pt_peers t) host")
  case None
  then show ?thesis using assms that by (simp add: record_heartbeat_def)
next
  case (Some p)
  have len: "length (peer_health_buffer p @ [hb_health_summary pkt]) =
      length (dget_or (pt_health_ts t) host [] @ [now])"
    using assms Some by (simp add: tracker_inv_def tracked_ok_def)
  obtain tss buf where ev: "evict_health now (dget_or (pt_health_ts t) host [] @ [now])
      (peer_health_buffer p @ [hb_health_summary pkt]) = Some (tss, buf)"
    and l: "length buf = length tss"
    using evict_health_some [OF len] by metis
  have "tracker_inv t'" if "record_heartbeat pkt host now t = Some (r, t')" for r t'
    using that assms Some l
    by (auto simp: record_heartbeat_def ev Let_def tracker_inv_def tracked_ok_def split: if_splits)
  moreover have "\<exists>r t'. record_heartbeat pkt host now t = Some (r, t')"
    using Some by (simp add: record_heartbeat_def ev Let_def)
  ultimately show ?thesis using that by blast
qed

definition checked :: "peer_tracker \<Rightarrow> time \<Rightarrow> string \<Rightarrow> peer \<Rightarrow> peer" where
  "checked t now host p =
     (if peer_status p = PeerAlive \<and> silent t now host then p\<lparr>peer_status := PeerUnresponsive\<rparr> else p)"

lemma snd_check_peer: "snd (check_peer t now e) = (fst e, checked t now (fst e) (snd e))"
  by (simp add: check_peer_def checked_def Let_def split: prod.split)

lemma check_liveness_peers:
  "pt_peers (snd (check_liveness now t)) = map (\<lambda>(h, p). (h, checked t now h p)) (pt_peers t)"
  by (simp add: check_liveness_def Let_def snd_check_peer case_prod_unfold)

lemma dget_map_entries:
  "dget (map (\<lambda>(h, p). (h, f h p)) d) k = map_option (f k) (dget d k)"
  by (induction d) auto

lemma check_liveness_get:
  "dget (pt_peers (snd (check_liveness now t))) host = map_option (checked t now host) (dget (pt_peers t) host)"
  by (simp add: check_liveness_peers dget_map_entries)

lemma check_liveness_inv: "tracker_inv t \<Longrightarrow> tracker_inv (snd (check_liveness now t))"
proof -
  assume inv: "tracker_inv t"
  have "pt_last_beat (snd (check_liveness now t)) = pt_last_beat t"
    and "pt_health_ts (snd (check_liveness now t)) = pt_health_ts t"
    by (simp_all add: check_liveness_def Let_def)
  moreover have "wf_dict (pt_peers (snd (check_liveness now t)))"
    using inv by (simp add: check_liveness_peers tracker_inv_def case_prod_unfold comp_def)
  ultimately show ?thesis
    using inv by (auto simp: tracker_inv_def check_liveness_get tracked_ok_def checked_def)
qed

lemma restore_peer_inv: "tracker_inv t \<Longrightarrow> tracker_inv (restore_peer p t)"
  by (auto simp: restore_peer_def tracker_inv_def tracked_ok_def split: option.split)

datatype tracker_op =
    TBeat heartbeat_packet string time | TCheck time | TRestore "peer list"

fun tracker_step :: "tracker_op \<Rightarrow> peer_tracker \<Rightarrow> peer_tracker" where
  "tracker_step (TBeat pkt host now) t =
     (case record_heartbeat pkt host now t of None \<Rightarrow> t | Some r \<Rightarrow> snd r)"
| "tracker_step (TCheck now) t = snd (check_liveness now t)"
| "tracker_step (TRestore ps) t = restore_peers ps t"

interpretation peers: inv_system tracker_step tracker_inv "\<lambda>_. True"
proof
  fix t op
  assume inv: "tracker_inv t"
  have "tracker_inv (restore_peers ps t)" for ps
    using inv by (induction ps arbitrary: t) (simp_all add: restore_peers_def restore_peer_inv)
  then show "tracker_inv (tracker_step op t)"
  proof (cases op)
    case (TBeat pkt host now)
    then show ?thesis using record_heartbeat_total [OF inv, of pkt host now] by force
  qed (simp_all add: inv check_liveness_inv)
qed

definition fresh_peers :: "(string, peer) dict \<Rightarrow> bool" where
  "fresh_peers d \<longleftrightarrow> wf_dict d \<and>
     (\<forall>h p. dget d h = Some p \<longrightarrow> peer_health_buffer p = [] \<and> peer_status p = PeerUnknown)"

lemma fresh_peers_dset: "fresh_peers d \<Longrightarrow> fresh_peers (dset h (new_peer dp e) d)"
  by (simp add: fresh_peers_def new_peer_def)

lemma init_peer_tracker_inv: "tracker_inv (init_peer_tracker iv m dp es)"
proof -
  have "fresh_peers (fold (\<lambda>e. dset (fst e) (new_peer dp e)) es d)" if "fresh_peers d" for d
    using that by (induction es arbitrary: d) (simp_all add: fresh_peers_dset)
  from this [of "[]"] show ?thesis
    by (simp add: init_peer_tracker_def tracker_inv_def tracked_ok_def fresh_peers_def)
qed

subsection \<open>Properties\<close>

text \<open>Whatever beats, checks and restores happened, after a liveness check every peer counted
  alive has beaten within the timeout, a peer is made unresponsive only by having been silent for
  longer, and recording a heartbeat never fails.\<close>

theorem liveness_is_recent:
  assumes "t = fold tracker_step ops (init_peer_tracker iv mul port entries)"
    and "dget (pt_peers (snd (check_liveness now t))) host = Some p"
  shows "(peer_status p = PeerAlive \<longrightarrow>
      (\<exists>s. dget (pt_last_beat t) host = Some s \<and> now - s \<le> timeout_seconds t))
    \<and> (peer_status p = PeerUnresponsive \<longrightarrow>
      (\<exists>q. dget (pt_peers t) host = Some q \<and> (peer_status q = PeerUnresponsive \<or>
         (\<exists>s. dget (pt_last_beat t) host = Some s \<and> timeout_seconds t < now - s))))
    \<and> record_heartbeat pkt host' now' t \<noteq> None"
proof -
  have inv: "tracker_inv t"
    unfolding assms(1) by (rule peers.run_keeps_inv [OF init_peer_tracker_inv]) (simp add: list_all_iff)
  obtain q where q: "dget (pt_peers t) host = Some q" and p: "p = checked t now host q"
    using assms(2) by (auto simp: check_liveness_get)
  have "peer_status q = PeerAlive \<Longrightarrow> dhas (pt_last_beat t) host"
    using inv q by (simp add: tracker_inv_def tracked_ok_def)
  moreover have "record_heartbeat pkt host' now' t \<noteq> None"
    using record_heartbeat_total [OF inv, of pkt host' now'] by blast
  ultimately show ?thesis
    using q p by (auto simp: checked_def silent_def split: if_splits option.splits)
qed

text \<open>Every datagram with a sequence number at most the last one seen is ignored, so an agent that
  restarted, and counts from 1 again, stays unresponsive however many heartbeats it sends until
  its counter passes the old value.\<close>

theorem restarted_peer_ignored:
  assumes "dget (pt_last_seq t) host = Some n"
    and "\<forall>(pkt, now) \<in> set beats. hb_seq pkt \<le> n"
  shows "fold (\<lambda>(pkt, now). tracker_step (TBeat pkt host now)) beats t = t"
  using assms(2)
proof (induction beats)
  case (Cons b beats)
  obtain pkt now where b: "b = (pkt, now)" by (cases b)
  have "record_heartbeat pkt host now t = Some (None, t)"
    if "dget (pt_peers t) host = Some p" for p
    using that assms(1) Cons.prems b by (simp add: record_heartbeat_def)
  moreover have "record_heartbeat pkt host now t = Some (None, t)"
    if "dget (pt_peers t) host = None" using that by (simp add: record_heartbeat_def)
  ultimately have "record_heartbeat pkt host now t = Some (None, t)" by fastforce
  with Cons b show ?case by simp
qed simp

text \<open>A message in an envelope is read back as the type and payload it was made of.\<close>

theorem envelope_round_trip:
  assumes "payload \<noteq> []"
  shows "build_envelope ty payload = Inr d \<longleftrightarrow>
    parse_envelope d = Inr (ty, payload) \<and> length d \<le> max_packet_bytes"
  using parse_build_envelope [OF _ assms, of ty d] build_parse_envelope [of d ty payload]
  by (auto simp: build_envelope_def split: if_splits)

definition demo_beat :: "int \<Rightarrow> heartbeat_packet" where
  "demo_beat n = \<lparr>hb_v = 1, hb_agent_id = ''a'', hb_name = ''n'', hb_seq = n, hb_ts = 0, hb_state = '''',
     hb_health_summary = [], hb_hmac = ''''\<rparr>"

definition demo_tracker :: peer_tracker where
  "demo_tracker = fold tracker_step [TBeat (demo_beat 900) ''h'' 100, TCheck 200]
     (init_peer_tracker 10 3 5150 [(''h'', None)])"

lemma demo_tracker_eval:
  "pt_last_seq demo_tracker = [(''h'', 900)] \<and> pt_last_beat demo_tracker = [(''h'', 100)] \<and>
   map_option peer_status (dget (pt_peers demo_tracker) ''h'') = Some PeerUnresponsive"
  by (simp add: demo_tracker_def demo_beat_def init_peer_tracker_def new_peer_def record_heartbeat_def
      health_buffer_seconds_def check_liveness_def check_peer_def silent_def timeout_seconds_def Let_def
      List.map_filter_def)

lemma liveness_is_recent_witness:
  "record_heartbeat (demo_beat 901) ''h'' 300 demo_tracker \<noteq> None"
proof -
  obtain p where "dget (pt_peers (snd (check_liveness 250 demo_tracker))) ''h'' = Some p"
    using demo_tracker_eval by (auto simp: check_liveness_get)
  from liveness_is_recent [OF demo_tracker_def this] show ?thesis by blast
qed

lemma restarted_peer_ignored_witness:
  "map_option peer_status (dget (pt_peers
     (fold (\<lambda>(pkt, now). tracker_step (TBeat pkt ''h'' now)) [(demo_beat 1, 210), (demo_beat 2, 220)]
       demo_tracker)) ''h'') = Some PeerUnresponsive"
  using restarted_peer_ignored [of demo_tracker "''h''" 900 "[(demo_beat 1, 210), (demo_beat 2, 220)]"]
    demo_tracker_eval by (simp add: demo_beat_def)

lemma envelope_round_trip_witness:
  "parse_envelope [2, 5, 6] = Inr (2, [5, 6])"
  using envelope_round_trip [of "[5, 6]" 2 "[2, 5, 6]"]
  by (simp add: build_envelope_def valid_msg_types_def max_packet_bytes_def)

end
