(* ===== verification/Peer_Protocol.thy ===== *)
theory Peer_Protocol
  imports Claim_Manager Claim_Exchange Peer_Tracker
begin

text \<open>
  The mesh protocol of one agent (\<open>src/src/harkeniq/autonomy/peer_protocol.py\<close>): it makes and
  signs a claim, gives it to the local arbiter first and then to the exchange, and gives the
  arbiter what the exchange received. What it relies on in the arbiter is the locale
  \<open>claim_arbiter\<close>; the claim manager provides it.
\<close>

subsection \<open>The interface of an arbiter\<close>

locale claim_arbiter =
  fixes decide :: "time \<Rightarrow> claim \<Rightarrow> 's \<Rightarrow> claim_result \<times> 's"
    and active :: "'s \<Rightarrow> string \<Rightarrow> claim option"
  assumes decide_rejects: "decide t c s = (Rejected, s') \<Longrightarrow> s' = s"
    and decide_takes: "decide t c s = (r, s') \<Longrightarrow> r \<noteq> Rejected \<Longrightarrow>
      active s' (subject_device_id c) = Some c"
    and decide_other: "decide t c s = (r, s') \<Longrightarrow> d \<noteq> subject_device_id c \<Longrightarrow>
      active s' d = active s d"
begin

text \<open>The loop of \<open>receive_claims\<close>: the claims the arbiter took, in order.\<close>

fun settle :: "time \<Rightarrow> claim list \<Rightarrow> 's \<Rightarrow> claim list \<times> 's" where
  "settle t [] s = ([], s)"
| "settle t (c # cs) s =
     (let (r, s1) = decide t c s; (taken, s2) = settle t cs s1
      in (if r = Rejected then taken else c # taken, s2))"

lemma settle_taken: "set (fst (settle t cs s)) \<subseteq> set cs"
proof (induction cs arbitrary: s)
  case (Cons c cs)
  obtain r s1 where "decide t c s = (r, s1)" by (cases "decide t c s")
  with Cons [of s1] show ?case by (auto split: prod.splits)
qed simp

lemma settle_none: "fst (settle t cs s) = [] \<Longrightarrow> snd (settle t cs s) = s"
proof (induction cs arbitrary: s)
  case (Cons c cs)
  obtain r s1 where r: "decide t c s = (r, s1)" by (cases "decide t c s")
  with Cons.prems have "r = Rejected" by (auto split: prod.splits if_splits)
  with r decide_rejects have "s1 = s" by simp
  with Cons.IH [of s] Cons.prems r show ?case by (auto split: prod.splits if_splits)
qed simp

lemma settle_active:
  "active (snd (settle t cs s)) d =
     (case filter (\<lambda>c. subject_device_id c = d) (fst (settle t cs s)) of
        [] \<Rightarrow> active s d
      | c # cs' \<Rightarrow> Some (last (c # cs')))"
proof (induction cs arbitrary: s)
  case (Cons c cs)
  obtain r s1 where r: "decide t c s = (r, s1)" by (cases "decide t c s")
  obtain taken s2 where t: "settle t cs s1 = (taken, s2)" by (cases "settle t cs s1")
  have rej: "active s1 d = active s d" if "r = Rejected \<or> subject_device_id c \<noteq> d"
    using that decide_rejects decide_other r by metis
  have tk: "active s1 d = Some c" if "r \<noteq> Rejected" "subject_device_id c = d"
    using that decide_takes r by blast
  show ?case
    using Cons [of s1] rej tk by (auto simp: r t split: list.splits)
qed simp

end

interpretation manager: claim_arbiter process_claim get_active_claim
proof
  fix t c s s'
  assume "process_claim t c s = (Rejected, s')"
  then show "s' = s" using process_claim_active(1) by blast
next
  fix t c s r s'
  assume "process_claim t c s = (r, s')" "r \<noteq> Rejected"
  then show "get_active_claim s' (subject_device_id c) = Some c"
    using process_claim_active(2) [of t c s r s'] by (simp add: get_active_claim_def)
next
  fix t c s r s' d
  assume p: "process_claim t c s = (r, s')" and d: "d \<noteq> subject_device_id c"
  show "get_active_claim s' d = get_active_claim s d"
    using process_claim_active(1,2) [OF p] d
    by (cases "r = Rejected") (simp_all add: get_active_claim_def)
qed

subsection \<open>The protocol\<close>

text \<open>
  An agent without an identifier has no mesh: manager and exchange are absent together. The
  identity is the signing key.
\<close>

record 'sk protocol =
  pp_tracker :: "peer_tracker option"
  pp_agent_id :: agent_id
  pp_identity :: "'sk option"
  pp_seq :: int
  pp_mesh :: "(claim_manager \<times> exchange) option"

definition init_protocol ::
  "peer_tracker option \<Rightarrow> agent_id \<Rightarrow> 'sk option \<Rightarrow> real \<Rightarrow> real \<Rightarrow> int \<Rightarrow> 'sk protocol" where
  "init_protocol trk me sk duration interval retries =
     \<lparr>pp_tracker = trk, pp_agent_id = me, pp_identity = sk, pp_seq = 0,
      pp_mesh = (if me = [] then None
        else Some (init_manager me duration, init_exchange interval retries))\<rparr>"

definition get_all_peers :: "'sk protocol \<Rightarrow> peer list" where
  "get_all_peers p = (case pp_tracker p of None \<Rightarrow> [] | Some t \<Rightarrow> get_peers t)"

definition get_reachable_peers :: "'sk protocol \<Rightarrow> nat" where
  "get_reachable_peers p =
     length (filter (\<lambda>q. peer_status q = PeerAlive) (get_all_peers p))"

definition get_alive_peer_ids :: "'sk protocol \<Rightarrow> agent_id list" where
  "get_alive_peer_ids p =
     map peer_id (filter (\<lambda>q. peer_status q = PeerAlive \<and> peer_id q \<noteq> []) (get_all_peers p))"

definition broadcast_claim ::
  "('sk \<Rightarrow> message \<Rightarrow> bytes) \<Rightarrow> string \<Rightarrow> time \<Rightarrow> string \<Rightarrow> evidence \<Rightarrow> 'sk protocol \<Rightarrow>
     string option \<times> 'sk protocol" where
  "broadcast_claim ed_sign uuid clock subject ev p =
     (case pp_mesh p of
        None \<Rightarrow> (None, p)
      | Some (m, x) \<Rightarrow>
          (case pp_identity p of
             None \<Rightarrow> (None, p)
           | Some sk \<Rightarrow>
               (let n = pp_seq p + 1;
                    c = claim_sign ed_sign sk (claim_new uuid clock (pp_agent_id p) subject ev n);
                    (r, m') = process_claim clock c m
                in if r = Rejected then (None, p\<lparr>pp_seq := n, pp_mesh := Some (m', x)\<rparr>)
                   else (let (sent, x') =
                           broadcast (get_reachable_peers p) (get_alive_peer_ids p) c x
                         in (sent, p\<lparr>pp_seq := n, pp_mesh := Some (m', x')\<rparr>)))))"

text \<open>The loop over the inbound claims in \<open>receive_claims\<close>.\<close>

fun settle_claims :: "time \<Rightarrow> claim list \<Rightarrow> claim_manager \<Rightarrow> claim list \<times> claim_manager" where
  "settle_claims clock [] m = ([], m)"
| "settle_claims clock (c # cs) m =
     (let (r, m1) = process_claim clock c m; (taken, m2) = settle_claims clock cs m1
      in (if r = Accepted \<or> r = Superseded then c # taken else taken, m2))"

lemma settle_claims_eq: "settle_claims clock cs m = manager.settle clock cs m"
proof (induction cs arbitrary: m)
  case (Cons c cs)
  obtain r m1 where "process_claim clock c m = (r, m1)" by (cases "process_claim clock c m")
  with Cons [of m1] show ?case by (cases r) (auto split: prod.split)
qed simp

definition receive_claims :: "time \<Rightarrow> 'sk protocol \<Rightarrow> claim list \<times> 'sk protocol" where
  "receive_claims clock p =
     (case pp_mesh p of
        None \<Rightarrow> ([], p)
      | Some (m, x) \<Rightarrow>
          (let (inbound, x') = get_pending_inbound x;
               (taken, m') = settle_claims clock inbound m
           in (taken, p\<lparr>pp_mesh := Some (m', x')\<rparr>)))"

definition pp_renew_lease :: "time \<Rightarrow> string \<Rightarrow> 'sk protocol \<Rightarrow> bool \<times> 'sk protocol" where
  "pp_renew_lease clock cid p =
     (case pp_mesh p of
        None \<Rightarrow> (False, p)
      | Some (m, x) \<Rightarrow>
          (let (b, m') = cm_renew_lease clock cid m in (b, p\<lparr>pp_mesh := Some (m', x)\<rparr>)))"

text \<open>What the local arbiter holds about a subject.\<close>

definition local_claim :: "'sk protocol \<Rightarrow> string \<Rightarrow> claim option" where
  "local_claim p subject =
     (case pp_mesh p of None \<Rightarrow> None | Some (m, _) \<Rightarrow> get_active_claim m subject)"

lemma receive_claims_active:
  assumes "receive_claims clock p = (taken, p')"
  shows "local_claim p' d =
    (case filter (\<lambda>c. subject_device_id c = d) taken of
       [] \<Rightarrow> local_claim p d
     | c # cs \<Rightarrow> Some (last (c # cs)))"
proof (cases "pp_mesh p")
  case None
  with assms show ?thesis by (auto simp: receive_claims_def local_claim_def)
next
  case (Some mx)
  obtain m x where mx: "mx = (m, x)" by (cases mx)
  let ?r = "manager.settle clock (dvals (ex_inbound x)) m"
  have "taken = fst ?r" "pp_mesh p' = Some (snd ?r, x\<lparr>ex_inbound := []\<rparr>)"
    using assms by (auto simp: receive_claims_def Some mx get_pending_inbound_def Let_def
        settle_claims_eq split: prod.splits)
  then show ?thesis
    using manager.settle_active [of clock "dvals (ex_inbound x)" m d]
    by (simp add: local_claim_def Some mx split: list.split)
qed

text \<open>Nothing is announced that the local arbiter does not hold as its own claim.\<close>

lemma broadcast_claim_held:
  assumes "broadcast_claim ed_sign uuid clock subject ev p = (Some cid, p')"
  shows "\<exists>c. local_claim p' subject = Some c \<and> claim_id c = cid \<and> claimant_id c = pp_agent_id p"
    and "0 < get_reachable_peers p" and "get_alive_peer_ids p \<noteq> []"
proof -
  obtain m x sk where m: "pp_mesh p = Some (m, x)" and sk: "pp_identity p = Some sk"
    using assms by (auto simp: broadcast_claim_def split: option.splits prod.splits)
  define c where "c = claim_sign ed_sign sk (claim_new uuid clock (pp_agent_id p) subject ev (pp_seq p + 1))"
  obtain r m' where r: "process_claim clock c m = (r, m')" by (cases "process_claim clock c m")
  have c: "subject_device_id c = subject" "claimant_id c = pp_agent_id p"
    by (simp_all add: c_def claim_sign_def claim_new_def)
  have nr: "r \<noteq> Rejected"
    using assms by (auto simp: broadcast_claim_def m sk Let_def r c_def [symmetric])
  have b: "fst (broadcast (get_reachable_peers p) (get_alive_peer_ids p) c x) = Some cid"
    and p': "pp_mesh p' = Some (m', snd (broadcast (get_reachable_peers p) (get_alive_peer_ids p) c x))"
    using assms nr by (auto simp: broadcast_claim_def m sk Let_def r c_def [symmetric] split: prod.splits)
  from b show "0 < get_reachable_peers p" and "get_alive_peer_ids p \<noteq> []"
    by (auto simp: broadcast_def split: if_splits)
  from b have "claim_id c = cid" by (auto simp: broadcast_def split: if_splits)
  moreover have "get_active_claim m' subject = Some c"
    using manager.decide_takes [OF r nr] c by simp
  ultimately show "\<exists>c. local_claim p' subject = Some c \<and> claim_id c = cid \<and> claimant_id c = pp_agent_id p"
    using c p' by (auto simp: local_claim_def)
qed

text \<open>
  An isolated agent announces nothing, but the local arbiter was asked before the number of
  peers: the claim is held all the same.
\<close>

lemma isolated_claim_held:
  assumes "pp_mesh p = Some (m, x)" and "pp_identity p = Some sk" and "get_reachable_peers p = 0"
    and "subject \<notin> cm_resolved m" and "dget (cm_active_claims m) subject = None"
  obtains c p' where "broadcast_claim ed_sign uuid clock subject ev p = (None, p')"
    "local_claim p' subject = Some c" "claimant_id c = pp_agent_id p" "claim_id c = uuid"
proof -
  define c where "c = claim_sign ed_sign sk (claim_new uuid clock (pp_agent_id p) subject ev (pp_seq p + 1))"
  have c: "subject_device_id c = subject" "claimant_id c = pp_agent_id p" "claim_id c = uuid"
    by (simp_all add: c_def claim_sign_def claim_new_def)
  obtain m' where r: "process_claim clock c m = (Accepted, m')"
    using assms(4,5) c by (simp add: process_claim_def Let_def)
  have held: "get_active_claim m' subject = Some c"
    using manager.decide_takes [OF r] c by simp
  show ?thesis
  proof (rule that)
    show "broadcast_claim ed_sign uuid clock subject ev p =
        (None, p\<lparr>pp_seq := pp_seq p + 1, pp_mesh := Some (m', x)\<rparr>)"
      using assms(1-3) r by (simp add: broadcast_claim_def c_def [symmetric] Let_def broadcast_def)
  qed (use held c in \<open>simp_all add: local_claim_def\<close>)
qed

subsection \<open>Properties\<close>

text \<open>Consuming the received claims leaves, for every subject, the last of them that the arbiter
  took as the active claim, or what was active before when it took none.\<close>

theorem received_claims_settle:
  assumes "receive_claims clock p = (taken, p')"
  shows "local_claim p' d =
    (case filter (\<lambda>c. subject_device_id c = d) taken of
       [] \<Rightarrow> local_claim p d
     | c # cs \<Rightarrow> Some (last (c # cs)))"
  by (rule receive_claims_active [OF assms])

text \<open>A claim is announced to peers only after the local arbiter made it the agent's own active
  claim, and only when a peer is alive to witness it.\<close>

theorem announced_claim_is_held:
  assumes "broadcast_claim ed_sign uuid clock subject ev p = (Some cid, p')"
  shows "(\<exists>c. local_claim p' subject = Some c \<and> claim_id c = cid \<and> claimant_id c = pp_agent_id p)
    \<and> 0 < get_reachable_peers p"
  using broadcast_claim_held [OF assms] by blast

text \<open>An agent with no reachable peer that announces a claim is answered \<open>None\<close>, yet its own
  arbiter then holds the claim, under a running lease, as if it had been granted.\<close>

theorem isolated_agent_holds_claim:
  assumes "pp_mesh p = Some (m, x)" and "pp_identity p = Some sk" and "get_reachable_peers p = 0"
    and "subject \<notin> cm_resolved m" and "get_active_claim m subject = None"
  shows "\<exists>p' c. broadcast_claim ed_sign uuid clock subject ev p = (None, p')
    \<and> local_claim p' subject = Some c \<and> claimant_id c = pp_agent_id p"
  using isolated_claim_held [OF assms(1-4), of ed_sign uuid clock ev] assms(5)
  by (metis get_active_claim_def)

definition demo_protocol :: "peer_tracker option \<Rightarrow> nat protocol" where
  "demo_protocol t = init_protocol t ''a'' (Some 7) 120 1 5"

lemma demo_protocol_mesh:
  "pp_mesh (demo_protocol t) = Some (init_manager ''a'' 120, init_exchange 1 5)"
  "pp_identity (demo_protocol t) = Some 7" "pp_agent_id (demo_protocol t) = ''a''"
  by (simp_all add: demo_protocol_def init_protocol_def)

lemma received_claims_settle_witness:
  "local_claim (snd (receive_claims 5 (demo_protocol None))) ''d'' = None"
  using received_claims_settle [of 5 "demo_protocol None" "[]" "snd (receive_claims 5 (demo_protocol None))" "''d''"]
  by (simp add: receive_claims_def demo_protocol_mesh get_pending_inbound_def init_exchange_def
      local_claim_def get_active_claim_def init_manager_def)

lemma isolated_agent_holds_claim_witness:
  "\<exists>p' c. broadcast_claim (\<lambda>_ _. []) ''1'' 10 ''d'' [] (demo_protocol None) = (None, p')
    \<and> local_claim p' ''d'' = Some c \<and> claimant_id c = ''a''"
  using isolated_agent_holds_claim [of "demo_protocol None" "init_manager ''a'' 120" "init_exchange 1 5"
      7 "''d''" "\<lambda>_ _. []" "''1''" 10 "[]"]
  by (simp add: demo_protocol_mesh get_reachable_peers_def get_all_peers_def demo_protocol_def
      init_protocol_def init_manager_def get_active_claim_def)

lemma announced_claim_is_held_witness:
  "0 < get_reachable_peers (demo_protocol
     (Some (fold tracker_step [TBeat (demo_beat 1) ''h'' 100] (init_peer_tracker 10 3 5150 [(''h'', None)]))))"
proof -
  let ?p = "demo_protocol
     (Some (fold tracker_step [TBeat (demo_beat 1) ''h'' 100] (init_peer_tracker 10 3 5150 [(''h'', None)])))"
  have peers: "get_all_peers ?p = [\<lparr>peer_id = ''a'', peer_host = ''h'', peer_port = 5150,
      peer_last_heartbeat = Some 100, peer_status = PeerAlive, peer_last_health = Some [],
      peer_health_buffer = [[]], peer_name = Some ''n''\<rparr>]"
    by (simp add: demo_protocol_def init_protocol_def get_all_peers_def get_peers_def demo_beat_def
        init_peer_tracker_def new_peer_def record_heartbeat_def health_buffer_seconds_def Let_def)
  have "fst (broadcast_claim (\<lambda>_ _. []) ''1'' 10 ''d'' [] ?p) = Some ''1''"
    using peers by (simp add: broadcast_claim_def demo_protocol_mesh process_claim_def init_manager_def
        claim_sign_def claim_new_def broadcast_def get_reachable_peers_def get_alive_peer_ids_def Let_def)
  then have "broadcast_claim (\<lambda>_ _. []) ''1'' 10 ''d'' [] ?p =
      (Some ''1'', snd (broadcast_claim (\<lambda>_ _. []) ''1'' 10 ''d'' [] ?p))"
    by (metis prod.collapse)
  from announced_claim_is_held [OF this] show ?thesis by blast
qed

end
