(* ===== verification/Liveness.thy ===== *)
theory Liveness
  imports Models
begin

text \<open>
  What a node concludes from the liveness of its peers: the quorum engine
  (\<open>src/src/harkeniq/autonomy/quorum.py\<close>), the partition fence
  (\<open>src/src/harkeniq/autonomy/partition_fence.py\<close>) and the autonomy tier
  (\<open>src/src/harkeniq/autonomy/tier.py\<close>). The quorum engine is shown to be a majority vote; the
  fence to be closed from the check that finds no peer until a recovery.
\<close>

subsection \<open>Quorum\<close>

definition min_observers :: nat where
  "min_observers = 2"

text \<open>A peer's view; a missing key reads as \<open>False\<close>.\<close>

record view =
  can_reach_suspect :: "bool option"
  is_alive :: "bool option"

abbreviation flag :: "bool option \<Rightarrow> bool" where
  "flag b \<equiv> (b = Some True)"

definition disambiguate :: "(agent_id, view) dict \<Rightarrow> nat \<Rightarrow> nat \<Rightarrow> quorum_verdict" where
  "disambiguate views my_peers_alive total_peers =
     (if total_peers = 0 then Inconclusive
      else if my_peers_alive = 0 \<and> total_peers > 0 then Isolated
      else (let reachable = filter (\<lambda>(pid, v). flag (is_alive v)) views;
                observer_count = 1 + length reachable in
        if observer_count < min_observers then Inconclusive
        else if length reachable = 0 then Inconclusive
        else (let see = length (filter (\<lambda>v. flag (can_reach_suspect v)) (dvals reachable));
                  lost = length reachable - see in
          if lost = length reachable \<and> length reachable > 0 then DeviceDown
          else if see > 0 \<and> lost = 0 then LinkDown
          else if see > lost then LinkDown
          else if lost > see then DeviceDown
          else Inconclusive)))"

definition check_node_failed :: "bool \<Rightarrow> bool \<Rightarrow> quorum_verdict option" where
  "check_node_failed link_up agent_responding =
     (if link_up \<and> \<not> agent_responding then Some NodeFailed else None)"

text \<open>The specification: a vote of the peers this node can reach.\<close>

definition see_votes :: "(agent_id, view) dict \<Rightarrow> nat" where
  "see_votes views = length (filter (\<lambda>(pid, v). flag (is_alive v) \<and> flag (can_reach_suspect v)) views)"

definition lost_votes :: "(agent_id, view) dict \<Rightarrow> nat" where
  "lost_votes views =
     length (filter (\<lambda>(pid, v). flag (is_alive v) \<and> \<not> flag (can_reach_suspect v)) views)"

lemma alive_votes:
  "length (filter (\<lambda>(pid, v). flag (is_alive v)) views) = see_votes views + lost_votes views"
proof (induction views)
  case (Cons e views)
  then show ?case by (cases e) (simp add: see_votes_def lost_votes_def)
qed (simp add: see_votes_def lost_votes_def)

lemma seeing_votes:
  "length (filter (\<lambda>v. flag (can_reach_suspect v))
     (dvals (filter (\<lambda>(pid, v). flag (is_alive v)) views))) = see_votes views"
proof (induction views)
  case (Cons e views)
  then show ?case by (cases e) (simp add: see_votes_def)
qed (simp add: see_votes_def)

lemma disambiguate_vote:
  "disambiguate views alive ntotal =
     (if ntotal = 0 then Inconclusive else if alive = 0 then Isolated
      else if see_votes views > lost_votes views then LinkDown
      else if lost_votes views > see_votes views then DeviceDown
      else Inconclusive)"
  unfolding disambiguate_def Let_def seeing_votes alive_votes min_observers_def by auto

subsection \<open>The partition fence\<close>

record fence =
  isolated :: bool
  prev_alive :: "nat option"

definition init_fence :: fence where
  "init_fence = \<lparr>isolated = False, prev_alive = None\<rparr>"

definition check_isolation :: "nat \<Rightarrow> nat \<Rightarrow> nat option \<Rightarrow> fence \<Rightarrow> bool \<times> fence" where
  "check_isolation peers_alive total_peers prev f =
     (if total_peers = 0 then (False, f\<lparr>isolated := False\<rparr>)
      else (let was0 = (case prev_alive f of None \<Rightarrow> False | Some n \<Rightarrow> 0 < n);
                was = (case prev of None \<Rightarrow> was0 | Some n \<Rightarrow> 0 < n);
                now_isolated = (peers_alive = 0);
                newly = (now_isolated \<and> was \<and> \<not> isolated f);
                f1 = (if newly then f\<lparr>isolated := True\<rparr> else f);
                f2 = (if now_isolated \<and> \<not> isolated f1 \<and> \<not> was then f1\<lparr>isolated := True\<rparr> else f1)
            in (newly, f2\<lparr>prev_alive := Some peers_alive\<rparr>)))"

definition check_recovery :: "nat \<Rightarrow> fence \<Rightarrow> bool \<times> fence" where
  "check_recovery peers_alive f =
     (if \<not> isolated f then (False, f)
      else if 0 < peers_alive then (True, f\<lparr>isolated := False, prev_alive := Some peers_alive\<rparr>)
      else (False, f))"

definition is_fenced :: "bool \<Rightarrow> fence \<Rightarrow> bool" where
  "is_fenced auth_lease_valid f =
     (if isolated f then True else if \<not> auth_lease_valid then True else False)"

lemma check_isolation_isolated:
  "isolated (snd (check_isolation alive ntotal prev f)) \<longleftrightarrow>
     0 < ntotal \<and> (alive = 0 \<or> isolated f)"
  by (auto simp: check_isolation_def Let_def)

datatype fence_op = FenceCheck nat nat "nat option" | FenceRecover nat

fun fence_step :: "fence_op \<Rightarrow> fence \<Rightarrow> fence" where
  "fence_step (FenceCheck alive ntotal prev) f = snd (check_isolation alive ntotal prev f)"
| "fence_step (FenceRecover alive) f = snd (check_recovery alive f)"

text \<open>No peer in sight: every operation reports no peer alive, and peers are configured.\<close>

fun no_peer_alive :: "fence_op \<Rightarrow> bool" where
  "no_peer_alive (FenceCheck alive ntotal prev) \<longleftrightarrow> alive = 0 \<and> 0 < ntotal"
| "no_peer_alive (FenceRecover alive) \<longleftrightarrow> alive = 0"

interpretation fence: inv_system fence_step isolated no_peer_alive
proof
  fix f :: fence and op
  assume "isolated f" "no_peer_alive op"
  then show "isolated (fence_step op f)"
    by (cases op) (simp_all add: check_isolation_isolated check_recovery_def)
qed

subsection \<open>Tiers\<close>

datatype tier = T1 | T2 | T3

definition calculate_tier :: "peer list \<Rightarrow> tier" where
  "calculate_tier peers =
     (let alive = length (filter (\<lambda>p. peer_status p = PeerAlive) peers)
      in if 2 \<le> alive then T1 else T2)"

subsection \<open>Properties\<close>

text \<open>The verdict about a silent device is a majority vote of the peers this node can reach: none
  reachable isolates this node, more peers that see the device convict the link, more that lost
  it convict the device, and a tie, no votes or no configured peers decide nothing. A node
  failure is never concluded from the vote.\<close>

theorem quorum_is_majority_vote:
  "disambiguate views alive ntotal =
     (if ntotal = 0 then Inconclusive else if alive = 0 then Isolated
      else if see_votes views > lost_votes views then LinkDown
      else if lost_votes views > see_votes views then DeviceDown
      else Inconclusive)
   \<and> disambiguate views alive ntotal \<noteq> NodeFailed"
  by (simp add: disambiguate_vote)

text \<open>From the check that finds configured peers and none alive, the node is fenced, whatever its
  authorization lease says, until a check or recovery reports a peer or no peers are configured.\<close>

theorem isolation_fences:
  assumes "0 < ntotal" and "list_all no_peer_alive ops"
  shows "is_fenced lease_valid (fold fence_step ops (snd (check_isolation 0 ntotal prev f)))"
proof -
  have "isolated (snd (check_isolation 0 ntotal prev f))"
    using assms(1) by (simp add: check_isolation_isolated)
  from fence.run_keeps_inv [OF this assms(2)] show ?thesis by (simp add: is_fenced_def)
qed

lemma isolation_fences_witness:
  "is_fenced True (fold fence_step [FenceRecover 0, FenceCheck 0 3 None]
     (snd (check_isolation 0 3 (Some 2) init_fence)))"
  by (rule isolation_fences) simp_all

end
