(* ===== verification/Suspicion.thy ===== *)
theory Suspicion
  imports Models
begin

text \<open>
  Suspicion scores and the search for a set of components that explains the degraded paths
  (\<open>src/src/harkeniq/autonomy/suspicion.py\<close>). Python iterates over a set in an order the language
  does not fix: the order is the parameter \<open>order\<close>, an enumeration of every finite set.
\<close>

definition max_score :: real where
  "max_score = 1"

record score =
  sc_component :: string
  sc_score :: real
  sc_observer :: agent_id
  sc_updated :: time

definition decay :: "time \<Rightarrow> real \<Rightarrow> score \<Rightarrow> score" where
  "decay now rate s =
     (let s1 = (if 0 < sc_updated s
                then (let elapsed = now - sc_updated s in
                      if 0 < elapsed then s\<lparr>sc_score := max 0 (sc_score s - rate * elapsed)\<rparr> else s)
                else s)
      in s1\<lparr>sc_updated := now\<rparr>)"

record suspicion =
  su_my_id :: agent_id
  su_threshold :: real
  su_decay_rate :: real
  su_scores :: "(string, (agent_id, score) dict) dict"
  su_claimed :: "string set"
  su_bundles :: "(string, string set) dict"
  su_bundle_total :: "(string, int) dict"

definition init_suspicion :: "agent_id \<Rightarrow> real \<Rightarrow> real \<Rightarrow> suspicion" where
  "init_suspicion me threshold rate =
     \<lparr>su_my_id = me, su_threshold = threshold, su_decay_rate = rate, su_scores = [],
      su_claimed = {}, su_bundles = [], su_bundle_total = []\<rparr>"

definition put_score ::
  "string \<Rightarrow> real \<Rightarrow> agent_id \<Rightarrow> time \<Rightarrow> suspicion \<Rightarrow> suspicion" where
  "put_score component sc who now u =
     u\<lparr>su_scores := dset component
         (dset who \<lparr>sc_component = component, sc_score = min (max sc 0) max_score,
                    sc_observer = who, sc_updated = now\<rparr>
           (dget_or (su_scores u) component [])) (su_scores u)\<rparr>"

definition update_local :: "string \<Rightarrow> real \<Rightarrow> time option \<Rightarrow> time \<Rightarrow> suspicion \<Rightarrow> suspicion" where
  "update_local component sc now clock u =
     put_score component sc (su_my_id u) (now_default now clock) u"

definition receive_peer ::
  "string \<Rightarrow> real \<Rightarrow> agent_id \<Rightarrow> time option \<Rightarrow> time \<Rightarrow> suspicion \<Rightarrow> suspicion" where
  "receive_peer component sc peer now clock u =
     put_score component sc peer (now_default now clock) u"

definition combined :: "(agent_id, score) dict \<Rightarrow> real" where
  "combined obs = (if obs = [] then 0 else Max (set (map sc_score (dvals obs))))"

definition get_combined_score :: "string \<Rightarrow> suspicion \<Rightarrow> real" where
  "get_combined_score component u = combined (dget_or (su_scores u) component [])"

definition get_observer_count :: "string \<Rightarrow> suspicion \<Rightarrow> nat" where
  "get_observer_count component u = length (dget_or (su_scores u) component [])"

text \<open>One turn of the loop of \<open>tick\<close>: the observers' scores decay, then the threshold is tested.\<close>

definition tick_component ::
  "time \<Rightarrow> real \<Rightarrow> real \<Rightarrow> string \<times> (agent_id, score) dict \<Rightarrow>
     string list \<times> string set \<times> (string, (agent_id, score) dict) dict \<Rightarrow>
     string list \<times> string set \<times> (string, (agent_id, score) dict) dict" where
  "tick_component now rate threshold entry acc =
     (let (component, obs) = entry; (triggered, claimed, done) = acc;
          obs' = map (\<lambda>(who, s). (who, decay now rate s)) obs;
          done' = done @ [(component, obs')] in
      if component \<in> claimed then (triggered, claimed, done')
      else if threshold \<le> combined obs' \<and> 2 \<le> length obs'
      then (triggered @ [component], insert component claimed, done')
      else (triggered, claimed, done'))"

definition su_tick :: "time option \<Rightarrow> time \<Rightarrow> suspicion \<Rightarrow> string list \<times> suspicion" where
  "su_tick now clock u =
     (let (triggered, claimed, scores) =
        fold (tick_component (now_default now clock) (su_decay_rate u) (su_threshold u))
          (su_scores u) ([], su_claimed u, [])
      in (triggered, u\<lparr>su_scores := scores, su_claimed := claimed\<rparr>))"

definition clear_claimed :: "string \<Rightarrow> suspicion \<Rightarrow> suspicion" where
  "clear_claimed component u =
     u\<lparr>su_claimed := su_claimed u - {component}, su_scores := ddel component (su_scores u)\<rparr>"

definition get_all_scores :: "suspicion \<Rightarrow> (string \<times> real) list" where
  "get_all_scores u = map (\<lambda>(c, _). (c, get_combined_score c u)) (su_scores u)"

definition get_exchange_data :: "suspicion \<Rightarrow> (string \<times> real) list" where
  "get_exchange_data u =
     List.map_filter (\<lambda>(c, obs). case dget obs (su_my_id u) of
         None \<Rightarrow> None
       | Some s \<Rightarrow> if 0 < sc_score s then Some (c, sc_score s) else None) (su_scores u)"

subsection \<open>Bundle coverage\<close>

definition register_bundle :: "string \<Rightarrow> int \<Rightarrow> suspicion \<Rightarrow> suspicion" where
  "register_bundle name ntotal u =
     u\<lparr>su_bundles := dset name {} (su_bundles u), su_bundle_total := dset name ntotal (su_bundle_total u)\<rparr>"

definition record_bundle_measurement :: "string \<Rightarrow> string \<Rightarrow> suspicion \<Rightarrow> suspicion" where
  "record_bundle_measurement name member u =
     (case dget (su_bundles u) name of
        None \<Rightarrow> u
      | Some ms \<Rightarrow> u\<lparr>su_bundles := dset name (insert member ms) (su_bundles u)\<rparr>)"

text \<open>The placeholder members are \<open>member-0\<close>, \<open>member-1\<close>, and so on.\<close>

definition check_bundle_coverage :: "string \<Rightarrow> suspicion \<Rightarrow> string set option" where
  "check_bundle_coverage name u =
     (case dget (su_bundles u) name of
        None \<Rightarrow> None
      | Some measured \<Rightarrow>
          (let ntotal = dget_or (su_bundle_total u) name 0 in
           if ntotal \<le> int (card measured) then None
           else Some (set (map (\<lambda>i. ''member-'' @ decimal i) [0..<nat ntotal]) - measured)))"

subsection \<open>The explaining set\<close>

definition exonerated :: "string set list \<Rightarrow> string set" where
  "exonerated healthy = \<Union> (set healthy)"

definition candidates :: "string set list \<Rightarrow> string set list \<Rightarrow> string set" where
  "candidates degraded healthy = \<Union> ((\<lambda>p. p - exonerated healthy) ` set degraded)"

definition coverage :: "string set list \<Rightarrow> nat list \<Rightarrow> string \<Rightarrow> nat" where
  "coverage degraded uncovered c = length (filter (\<lambda>i. c \<in> degraded ! i) uncovered)"

fun pick_best :: "string set list \<Rightarrow> nat list \<Rightarrow> string list \<Rightarrow> string option \<times> nat \<Rightarrow> string option \<times> nat"
  where
  "pick_best degraded uncovered [] best = best"
| "pick_best degraded uncovered (c # cs) best =
     (let cov = coverage degraded uncovered c in
      pick_best degraded uncovered cs (if snd best < cov then (Some c, cov) else best))"

lemma pick_best_cases:
  "pick_best degraded uncovered cs best = best \<or>
     (\<exists>c \<in> set cs. pick_best degraded uncovered cs best = (Some c, coverage degraded uncovered c) \<and>
        snd best < coverage degraded uncovered c)"
proof (induction cs arbitrary: best)
  case (Cons c cs)
  show ?case
    using Cons [of "if snd best < coverage degraded uncovered c
      then (Some c, coverage degraded uncovered c) else best"]
    by (auto simp: Let_def split: if_splits)
qed simp

lemma pick_best_max:
  "snd best \<le> snd (pick_best degraded uncovered cs best) \<and>
     (\<forall>c \<in> set cs. coverage degraded uncovered c \<le> snd (pick_best degraded uncovered cs best))"
proof (induction cs arbitrary: best)
  case (Cons c cs)
  show ?case
    using Cons [of "if snd best < coverage degraded uncovered c
      then (Some c, coverage degraded uncovered c) else best"]
    by (auto simp: Let_def split: if_splits)
qed simp

lemma picked_covers:
  assumes "(Some c, n) = pick_best degraded uncovered cs (None, 0)"
  shows "length (filter (\<lambda>i. c \<notin> degraded ! i) uncovered) < length uncovered"
proof -
  have "0 < coverage degraded uncovered c"
    using pick_best_cases [of degraded uncovered cs "(None, 0)"] assms by auto
  then obtain i where "i \<in> set uncovered" "c \<in> degraded ! i"
    by (auto simp: coverage_def filter_empty_conv)
  then show ?thesis by (auto intro: length_filter_less)
qed

text \<open>The \<open>while\<close> loop: every turn covers a path, so it ends.\<close>

function explain_loop ::
  "(string set \<Rightarrow> string list) \<Rightarrow> string set list \<Rightarrow> string set \<Rightarrow> nat list \<Rightarrow> string set \<Rightarrow> string set"
  where
  "explain_loop order degraded cands uncovered result =
     (if uncovered = [] then result
      else (case pick_best degraded uncovered (order (cands - result)) (None, 0) of
          (None, _) \<Rightarrow> result
        | (Some c, n) \<Rightarrow>
            if n = 0 then result
            else explain_loop order degraded cands
                   (filter (\<lambda>i. c \<notin> degraded ! i) uncovered) (insert c result)))"
  by pat_completeness auto
termination
  by (relation "measure (\<lambda>(_, _, _, uncovered, _). length uncovered)") (auto dest!: picked_covers)

declare explain_loop.simps [simp del]

definition smallest_explaining_set ::
  "(string set \<Rightarrow> string list) \<Rightarrow> string set list \<Rightarrow> string set list \<Rightarrow> string set" where
  "smallest_explaining_set order degraded healthy =
     (if degraded = [] then {}
      else (let cands = candidates degraded healthy in
        if cands = {} then {}
        else explain_loop order degraded cands [0..<length degraded] {}))"

subsection \<open>What the loop covers\<close>

definition enumerates :: "(string set \<Rightarrow> string list) \<Rightarrow> bool" where
  "enumerates order \<longleftrightarrow> (\<forall>S. finite S \<longrightarrow> set (order S) = S)"

text \<open>
  The result grows within the candidates; every path that stays uncovered has no candidate left
  at the end.
\<close>

lemma explain_loop_sub:
  "finite cands \<Longrightarrow> enumerates order \<Longrightarrow>
     result \<subseteq> explain_loop order degraded cands uncovered result \<and>
     explain_loop order degraded cands uncovered result \<subseteq> result \<union> cands"
proof (induction order degraded cands uncovered result rule: explain_loop.induct)
  case (1 order degraded cands uncovered result)
  let ?p = "pick_best degraded uncovered (order (cands - result)) (None, 0)"
  have elems: "set (order (cands - result)) = cands - result"
    using "1.prems" by (simp add: enumerates_def)
  show ?case
  proof (cases "uncovered = [] \<or> fst ?p = None \<or> snd ?p = 0")
    case True
    then show ?thesis by (subst (1 2) explain_loop.simps) (auto split: prod.split option.split)
  next
    case False
    then obtain c n where p: "?p = (Some c, n)" "n \<noteq> 0" "uncovered \<noteq> []" by (cases ?p) auto
    then have "c \<in> cands"
      using pick_best_cases [of degraded uncovered "order (cands - result)" "(None, 0)"] elems by auto
    with "1.IH" [OF p(3) p(1) [symmetric] refl p(2)] "1.prems" p show ?thesis
      by (subst (1 2) explain_loop.simps) auto
  qed
qed

definition unexplained :: "string set list \<Rightarrow> string set \<Rightarrow> nat list \<Rightarrow> bool" where
  "unexplained degraded result uncovered \<longleftrightarrow>
     (\<forall>i < length degraded. degraded ! i \<inter> result = {} \<longrightarrow> i \<in> set uncovered)"

lemma explain_loop_covers:
  "finite cands \<Longrightarrow> enumerates order \<Longrightarrow> unexplained degraded result uncovered \<Longrightarrow>
     i < length degraded \<Longrightarrow> degraded ! i \<inter> cands \<noteq> {} \<Longrightarrow>
     degraded ! i \<inter> explain_loop order degraded cands uncovered result \<noteq> {}"
proof (induction order degraded cands uncovered result rule: explain_loop.induct)
  case (1 order degraded cands uncovered result)
  let ?p = "pick_best degraded uncovered (order (cands - result)) (None, 0)"
  have elems: "set (order (cands - result)) = cands - result"
    using "1.prems" by (simp add: enumerates_def)
  show ?case
  proof (cases "uncovered = [] \<or> fst ?p = None \<or> snd ?p = 0")
    case True
    then have stop: "explain_loop order degraded cands uncovered result = result"
      by (subst explain_loop.simps) (auto split: prod.split option.split)
    show ?thesis
    proof (rule ccontr)
      assume none: "\<not> ?thesis"
      then have i: "i \<in> set uncovered" and hit: "degraded ! i \<inter> result = {}"
        using "1.prems" stop by (auto simp: unexplained_def)
      then obtain c where c: "c \<in> degraded ! i" "c \<in> cands - result" using "1.prems"(5) by blast
      have "0 < coverage degraded uncovered c"
        using i c(1) by (auto simp: coverage_def filter_empty_conv)
      also have "\<dots> \<le> snd ?p"
        using pick_best_max [of "(None, 0)" degraded uncovered "order (cands - result)"] c(2) elems by auto
      finally have "0 < snd ?p" .
      moreover have "fst ?p \<noteq> None \<or> snd ?p = 0"
        using pick_best_cases [of degraded uncovered "order (cands - result)" "(None, 0)"] by auto
      ultimately show False using True i by auto
    qed
  next
    case False
    then obtain c n where p: "?p = (Some c, n)" "n \<noteq> 0" "uncovered \<noteq> []" by (cases ?p) auto
    have "unexplained degraded (insert c result) (filter (\<lambda>i. c \<notin> degraded ! i) uncovered)"
      using "1.prems"(3) by (auto simp: unexplained_def)
    with "1.IH" [OF p(3) p(1) [symmetric] refl p(2)] "1.prems" p show ?thesis
      by (subst explain_loop.simps) auto
  qed
qed

subsection \<open>What a tick triggers\<close>

lemma tick_fold_claimed:
  assumes "fold (tick_component now rate threshold) es (tr, cl, dn) = (tr', cl', dn')"
  shows "\<exists>new. tr' = tr @ new \<and> cl' = cl \<union> set new \<and> set new \<inter> cl = {} \<and>
    (\<forall>c \<in> set new. \<exists>obs. (c, obs) \<in> set es \<and> 2 \<le> length obs \<and>
       threshold \<le> combined (map (\<lambda>(who, s). (who, decay now rate s)) obs)) \<and>
    distinct new"
  using assms
proof (induction es arbitrary: tr cl dn)
  case (Cons e es)
  obtain c obs where e: "e = (c, obs)" by (cases e)
  obtain tr1 cl1 dn1 where s: "tick_component now rate threshold e (tr, cl, dn) = (tr1, cl1, dn1)"
    by (cases "tick_component now rate threshold e (tr, cl, dn)")
  from Cons obtain new where new: "tr' = tr1 @ new" "cl' = cl1 \<union> set new" "set new \<inter> cl1 = {}"
    "\<forall>c \<in> set new. \<exists>obs. (c, obs) \<in> set es \<and> 2 \<le> length obs \<and>
       threshold \<le> combined (map (\<lambda>(who, s). (who, decay now rate s)) obs)" "distinct new"
    using s by fastforce
  have "tr1 = tr \<and> cl1 = cl \<or> tr1 = tr @ [c] \<and> cl1 = insert c cl \<and> c \<notin> cl \<and> 2 \<le> length obs \<and>
      threshold \<le> combined (map (\<lambda>(who, s). (who, decay now rate s)) obs)"
    using s by (auto simp: tick_component_def e Let_def split: if_splits)
  then show ?case
  proof
    assume "tr1 = tr \<and> cl1 = cl"
    with new show ?thesis by (intro exI [of _ new]) auto
  next
    assume r: "tr1 = tr @ [c] \<and> cl1 = insert c cl \<and> c \<notin> cl \<and> 2 \<le> length obs \<and>
      threshold \<le> combined (map (\<lambda>(who, s). (who, decay now rate s)) obs)"
    with new e show ?thesis by (intro exI [of _ "c # new"]) auto
  qed
qed simp

subsection \<open>Properties\<close>

text \<open>The explaining set holds no component of a healthy path, and it meets every degraded path
  that has a component on no healthy path, whatever order the candidates are tried in.\<close>

theorem explanation_sound:
  assumes "enumerates order" and "\<forall>p \<in> set degraded. finite p"
  shows "smallest_explaining_set order degraded healthy \<inter> exonerated healthy = {}
    \<and> (\<forall>p \<in> set degraded. p - exonerated healthy \<noteq> {} \<longrightarrow>
         p \<inter> smallest_explaining_set order degraded healthy \<noteq> {})"
proof -
  let ?cands = "candidates degraded healthy"
  have fin: "finite ?cands" using assms(2) by (auto simp: candidates_def)
  have sub: "smallest_explaining_set order degraded healthy \<subseteq> ?cands"
    using explain_loop_sub [OF fin assms(1), of "{}" degraded "[0..<length degraded]"]
    by (auto simp: smallest_explaining_set_def Let_def)
  have "p \<inter> smallest_explaining_set order degraded healthy \<noteq> {}"
    if p: "p \<in> set degraded" "p - exonerated healthy \<noteq> {}" for p
  proof -
    obtain i where i: "i < length degraded" "p = degraded ! i" using p(1) by (metis in_set_conv_nth)
    have "p \<inter> ?cands \<noteq> {}" using p unfolding candidates_def by blast
    then have hit: "degraded ! i \<inter> ?cands \<noteq> {}" by (simp add: i(2))
    then have "degraded \<noteq> []" "?cands \<noteq> {}" using i by auto
    moreover have "unexplained degraded {} [0..<length degraded]" by (simp add: unexplained_def)
    ultimately show ?thesis
      using explain_loop_covers [OF fin assms(1) _ i(1) hit] i(2)
      by (simp add: smallest_explaining_set_def Let_def)
  qed
  with sub show ?thesis by (auto simp: candidates_def)
qed

definition trap_paths :: "string set list" where
  "trap_paths = [{''a'', ''c''}, {''a'', ''c''}, {''a''}, {''b'', ''c''}, {''b'', ''c''}, {''b''}]"

lemma pick_best_unique:
  assumes "c \<in> set cs" and "0 < coverage degraded uncovered c"
    and "\<And>d. d \<in> set cs \<Longrightarrow> d \<noteq> c \<Longrightarrow> coverage degraded uncovered d < coverage degraded uncovered c"
  shows "pick_best degraded uncovered cs (None, 0) = (Some c, coverage degraded uncovered c)"
proof -
  have max: "coverage degraded uncovered c \<le> snd (pick_best degraded uncovered cs (None, 0))"
    using pick_best_max [of "(None, 0)" degraded uncovered cs] assms(1) by simp
  with pick_best_cases [of degraded uncovered cs "(None, 0)"] assms(2)
  obtain d where "d \<in> set cs" "pick_best degraded uncovered cs (None, 0) = (Some d, coverage degraded uncovered d)"
    by auto
  with max assms(3) show ?thesis by (cases "d = c") fastforce+
qed

text \<open>The explaining set need not be smallest: two components explain the six degraded paths
  below, and the search answers three.\<close>

theorem explanation_not_smallest:
  assumes "enumerates order"
  shows "smallest_explaining_set order trap_paths [] = {''a'', ''b'', ''c''}
    \<and> (\<forall>p \<in> set trap_paths. p \<inter> {''a'', ''b''} \<noteq> {})"
proof -
  let ?c = "{''a'', ''b'', ''c''}"
  have cands: "candidates trap_paths [] = ?c"
    by (auto simp: candidates_def exonerated_def trap_paths_def)
  have elems: "set (order (?c - S)) = ?c - S" for S
    using assms by (simp add: enumerates_def)
  have cov: "coverage trap_paths [0..<6] ''c'' = 4" "coverage trap_paths [0..<6] ''a'' = 3"
    "coverage trap_paths [0..<6] ''b'' = 3"
    by (simp_all add: coverage_def trap_paths_def upt_rec)
  have 1: "pick_best trap_paths [0..<6] (order (?c - {})) (None, 0) = (Some ''c'', 4)"
  proof -
    have "pick_best trap_paths [0..<6] (order (?c - {})) (None, 0) =
        (Some ''c'', coverage trap_paths [0..<6] ''c'')"
    proof (rule pick_best_unique)
      fix d
      assume "d \<in> set (order (?c - {}))" "d \<noteq> ''c''"
      then have "d = ''a'' \<or> d = ''b''" unfolding elems by blast
      then show "coverage trap_paths [0..<6] d < coverage trap_paths [0..<6] ''c''"
        by (elim disjE) (simp_all only: cov)
    qed (simp_all only: elems cov, simp_all)
    then show ?thesis by (simp only: cov)
  qed
  have rest: "filter (\<lambda>i. ''c'' \<notin> trap_paths ! i) [0..<6] = [2, 5]"
    by (simp add: trap_paths_def upt_rec)
  have "explain_loop order trap_paths ?c [0..<6] {} = explain_loop order trap_paths ?c [2, 5] {''c''}"
    using 1 by (subst explain_loop.simps) (simp add: rest)
  moreover have "explain_loop order trap_paths ?c [2, 5] {''c''} \<subseteq> ?c"
    and "''c'' \<in> explain_loop order trap_paths ?c [2, 5] {''c''}"
    using explain_loop_sub [OF _ assms, of ?c "{''c''}" trap_paths "[2, 5]"] by auto
  moreover have "trap_paths ! i \<inter> explain_loop order trap_paths ?c [2, 5] {''c''} \<noteq> {}"
    if "i \<in> {2, 5}" for i
  proof (rule explain_loop_covers [OF _ assms])
    have "trap_paths ! j \<inter> {''c''} = {} \<longrightarrow> j \<in> {2, 5}" if "j < 6" for j :: nat
    proof -
      have "j \<in> {0, 1, 2, 3, 4, 5}" using that by auto
      then show ?thesis by (auto simp: trap_paths_def)
    qed
    then show "unexplained trap_paths {''c''} [2, 5]"
      by (simp add: unexplained_def) (simp add: trap_paths_def)
  qed (use that in \<open>auto simp: trap_paths_def\<close>)
  then have "''a'' \<in> explain_loop order trap_paths ?c [2, 5] {''c''}"
    and "''b'' \<in> explain_loop order trap_paths ?c [2, 5] {''c''}"
    by (force simp: trap_paths_def)+
  ultimately have "explain_loop order trap_paths ?c [0..<6] {} = ?c" by auto
  moreover have "length trap_paths = 6" "trap_paths \<noteq> []"
    "\<forall>p \<in> set trap_paths. p \<inter> {''a'', ''b''} \<noteq> {}"
    by (simp_all add: trap_paths_def)
  ultimately show ?thesis
    by (simp only: smallest_explaining_set_def Let_def cands if_False insert_not_empty simp_thms)
qed

text \<open>A tick triggers a component only when it was not claimed, its best decayed score reaches the
  threshold and at least two observers are recorded; what was triggered is claimed, and is
  triggered at most once.\<close>

theorem tick_triggers:
  assumes "su_tick now clock u = (triggered, u')"
  shows "distinct triggered \<and> set triggered \<inter> su_claimed u = {}
    \<and> su_claimed u' = su_claimed u \<union> set triggered
    \<and> (\<forall>c \<in> set triggered. \<exists>obs. (c, obs) \<in> set (su_scores u) \<and> 2 \<le> length obs \<and>
         su_threshold u \<le> combined (map (\<lambda>(who, s). (who, decay (now_default now clock) (su_decay_rate u) s)) obs))"
proof -
  obtain tr cl dn where f: "fold (tick_component (now_default now clock) (su_decay_rate u) (su_threshold u))
      (su_scores u) ([], su_claimed u, []) = (tr, cl, dn)"
    by (metis prod_cases3)
  with assms have "triggered = tr" "su_claimed u' = cl" by (auto simp: su_tick_def)
  with tick_fold_claimed [OF f] show ?thesis by auto
qed

text \<open>One observer's suspicion suffices: a second observer whose score is zero counts, so a
  component that a single node suspects is triggered.\<close>

theorem single_observer_triggers:
  assumes "0 \<le> su_threshold u" and "su_threshold u \<le> 1" and "su_my_id u \<noteq> peer"
    and "su_scores u = []" and "component \<notin> su_claimed u" and "now \<noteq> 0"
  shows "fst (su_tick (Some now) clock
    (receive_peer component 0 peer (Some now) clock (update_local component 1 (Some now) clock u))) =
    [component]"
proof -
  have "decay now r \<lparr>sc_component = component, sc_score = s, sc_observer = w, sc_updated = now\<rparr> =
      \<lparr>sc_component = component, sc_score = s, sc_observer = w, sc_updated = now\<rparr>" for r s w
    by (simp add: decay_def)
  with assms show ?thesis
    by (simp add: su_tick_def receive_peer_def update_local_def put_score_def tick_component_def
        combined_def max_score_def dget_or_def Let_def)
qed

lemma enumerates_sorted: "enumerates (sorted_list_of_set)"
  by (simp add: enumerates_def)

lemma explanation_sound_witness:
  "smallest_explaining_set sorted_list_of_set [{''x'', ''y''}] [{''y''}] \<inter> exonerated [{''y''}] = {}"
  using explanation_sound [OF enumerates_sorted, of "[{''x'', ''y''}]" "[{''y''}]"] by simp

lemma explanation_not_smallest_witness:
  "smallest_explaining_set sorted_list_of_set trap_paths [] = {''a'', ''b'', ''c''}"
  using explanation_not_smallest [OF enumerates_sorted] by blast

definition demo_suspicion :: suspicion where
  "demo_suspicion = update_local ''fan'' 1 (Some 5) 5
     (receive_peer ''fan'' (9/10) ''b'' (Some 5) 5 (init_suspicion ''a'' (8/10) (1/100)))"

lemma tick_triggers_witness:
  "su_claimed (snd (su_tick (Some 5) 5 demo_suspicion)) = {''fan''}"
proof -
  have "fst (su_tick (Some 5) 5 demo_suspicion) = [''fan'']" "su_claimed demo_suspicion = {}"
    by (simp_all add: demo_suspicion_def su_tick_def receive_peer_def update_local_def put_score_def
        tick_component_def combined_def max_score_def dget_or_def decay_def init_suspicion_def Let_def)
  with tick_triggers [of "Some 5" 5 demo_suspicion "[''fan'']" "snd (su_tick (Some 5) 5 demo_suspicion)"]
  show ?thesis by (metis Un_commute list.set(1) list.simps(15) prod.collapse sup_bot.right_neutral)
qed

lemma single_observer_triggers_witness:
  "fst (su_tick (Some 5) 5 (receive_peer ''fan'' 0 ''b'' (Some 5) 5
     (update_local ''fan'' 1 (Some 5) 5 (init_suspicion ''a'' (8/10) (1/100))))) = [''fan'']"
  by (rule single_observer_triggers) (simp_all add: init_suspicion_def)

end
