(* ===== verification/Preconditions.thy ===== *)
theory Preconditions
  imports Network_Safety
begin

text \<open>
  The preconditions of the actions (\<open>src/src/harkeniq/autonomy/preconditions.py\<close>) and the
  tables that classify them: risk, reversibility, inverse, parameters. The two input dictionaries
  are records whose fields are absent (\<open>None\<close>) when the key is; the reasons for people are values
  of \<open>check_failure\<close>. The network checks ask the fault-domain tracker, which tidies itself when
  asked, so a check returns the tracker as well. The texts \<open>constraint\<close> and \<open>missing_input\<close> of a
  parameter specification are for display only and left out.
\<close>

subsection \<open>Inputs and results\<close>

record interface =
  lag_name :: "string option"
  oper_state :: "string option"

record device_view =
  sel_percent_full :: "real option"
  dv_firmware_updating :: "bool option"
  thermal_event :: "bool option"
  power_event :: "bool option"
  cap_target :: "int option"
  cap_policy_min :: "int option"
  cap_policy_max :: "int option"
  overall_health :: "string option"
  target_interface :: "string option"
  dv_interfaces :: "(string, interface) dict option"
  diagnosis_confidence :: "real option"
  diagnosis_classification :: "string option"
  prestate_exists :: "bool option"
  counters_snapshot :: "bool option"

record agent_view =
  sel_forwarded :: "bool option"
  bmc_poll_failures :: "int option"
  alive_peer_count :: "int option"
  os_heartbeat_absent :: "real option"
  mgmt_interfaces :: "string set option"
  redundancy_verified :: "bool option"
  corroborating_peers :: "int option"
  network_tracker :: "tracker option"

datatype check_failure =
    SelNotForwarded
  | SelNotFull real
  | BmcResponsive int
  | FirmwareUpdating
  | NeedCorroboration int
  | OsHeartbeatActive real
  | NoThermalOrPowerEvent
  | CapOutsidePolicy int int int
  | Unhealthy string
  | UpdateRunning
  | NoTarget
  | TargetUnknown string
  | MgmtPathUnresolved
  | SelfPreservation string
  | NoRedundantPath
  | QuorumShort int
  | NoTracker
  | TrackerRefused tracker_refusal
  | LowConfidence real
  | NotHardware string
  | NoPrestate string
  | NoSnapshot

record precondition_result =
  passed :: bool
  pr_action :: action_type
  failed_checks :: "check_failure list"

text \<open>A missing key reads as the default of its \<open>get\<close>.\<close>

definition opt_or :: "'a option \<Rightarrow> 'a \<Rightarrow> 'a" where
  "opt_or x d = (case x of None \<Rightarrow> d | Some v \<Rightarrow> v)"

lemma opt_or_simps [simp]: "opt_or None d = d" "opt_or (Some v) d = v"
  by (simp_all add: opt_or_def)

definition note_if :: "bool \<Rightarrow> 'a \<Rightarrow> 'a list" where
  "note_if b x = (if b then [x] else [])"

lemma note_if_Nil [simp]: "note_if b x = [] \<longleftrightarrow> \<not> b" "[] = note_if b x \<longleftrightarrow> \<not> b"
  by (auto simp: note_if_def)

definition verdict :: "action_type \<Rightarrow> check_failure list \<Rightarrow> precondition_result" where
  "verdict a fs = \<lparr>passed = (length fs = 0), pr_action = a, failed_checks = fs\<rparr>"

subsection \<open>The checkers\<close>

definition check_sel_clear :: "device_view \<Rightarrow> agent_view \<Rightarrow> check_failure list" where
  "check_sel_clear d a =
     (let pct = opt_or (sel_percent_full d) 0 in
      note_if (\<not> opt_or (sel_forwarded a) False) SelNotForwarded @
      note_if (pct < 80) (SelNotFull pct))"

definition check_bmc_reset :: "device_view \<Rightarrow> agent_view \<Rightarrow> check_failure list" where
  "check_bmc_reset d a =
     (let n = opt_or (bmc_poll_failures a) 0 in
      note_if (n < 3) (BmcResponsive n) @
      note_if (opt_or (dv_firmware_updating d) False) FirmwareUpdating)"

definition check_power_cycle :: "device_view \<Rightarrow> agent_view \<Rightarrow> check_failure list" where
  "check_power_cycle d a =
     (let n = opt_or (alive_peer_count a) 0; s = opt_or (os_heartbeat_absent a) 0 in
      note_if (n < 2) (NeedCorroboration n) @
      note_if (s < 300) (OsHeartbeatActive s))"

definition check_power_cap_adjust :: "device_view \<Rightarrow> agent_view \<Rightarrow> check_failure list" where
  "check_power_cap_adjust d a =
     (let lo = opt_or (cap_policy_min d) 0; hi = opt_or (cap_policy_max d) 0 in
      note_if (\<not> opt_or (thermal_event d) False \<and> \<not> opt_or (power_event d) False) NoThermalOrPowerEvent @
      (case cap_target d of
         None \<Rightarrow> []
       | Some w \<Rightarrow> note_if (hi > 0 \<and> (w < lo \<or> w > hi)) (CapOutsidePolicy w lo hi)))"

definition check_firmware_update :: "device_view \<Rightarrow> agent_view \<Rightarrow> check_failure list" where
  "check_firmware_update d a =
     (let health = lower (opt_or (overall_health d) []) in
      note_if (health \<notin> {''ok'', ''healthy''}) (Unhealthy health) @
      note_if (opt_or (dv_firmware_updating d) False) UpdateRunning)"

text \<open>The checks shared by reset and disable; asking the tracker tidies it.\<close>

definition network_disruptive_common ::
  "time \<Rightarrow> device_view \<Rightarrow> agent_view \<Rightarrow> check_failure list \<times> agent_view" where
  "network_disruptive_common clock d a =
     (case target_interface d of
        None \<Rightarrow> ([NoTarget], a)
      | Some target \<Rightarrow>
          if target = [] then ([NoTarget], a)
          else (let ifs = opt_or (dv_interfaces d) [] in
            case dget ifs target of
              None \<Rightarrow> ([TargetUnknown target], a)
            | Some iface \<Rightarrow>
                (let self = (case mgmt_interfaces a of
                        None \<Rightarrow> [MgmtPathUnresolved]
                      | Some mgmt \<Rightarrow> note_if (target \<in> mgmt \<or> opt_or (lag_name iface) [] \<in> mgmt)
                          (SelfPreservation target));
                     lag = lag_name iface;
                     lag_redundant = (lag \<noteq> None \<and> (\<exists>(name, other) \<in> set ifs.
                        name \<noteq> target \<and> lag_name other = lag \<and> oper_state other = Some ''Up''));
                     path = note_if (\<not> lag_redundant \<and> \<not> opt_or (redundancy_verified a) False)
                       NoRedundantPath;
                     n = opt_or (corroborating_peers a) 0;
                     quorum = note_if (n < 2) (QuorumShort n);
                     (domain, a') = (case network_tracker a of
                         None \<Rightarrow> ([NoTracker], a)
                       | Some k \<Rightarrow>
                           (let (r, k') = tk_allows target lag ''self'' None clock k
                            in ((case r of None \<Rightarrow> [] | Some why \<Rightarrow> [TrackerRefused why]),
                                a\<lparr>network_tracker := Some k'\<rparr>)))
                 in (self @ path @ quorum @ domain, a'))))"

definition check_interface_disable ::
  "time \<Rightarrow> device_view \<Rightarrow> agent_view \<Rightarrow> check_failure list \<times> agent_view" where
  "check_interface_disable clock d a =
     (let (fs, a') = network_disruptive_common clock d a;
          conf = opt_or (diagnosis_confidence d) 0;
          cls = opt_or (diagnosis_classification d) []
      in (fs @ note_if (conf < 8/10) (LowConfidence conf) @
            note_if (cls \<noteq> ''hardware_degradation'') (NotHardware cls), a'))"

definition check_interface_enable :: "device_view \<Rightarrow> agent_view \<Rightarrow> check_failure list" where
  "check_interface_enable d a =
     (let target = opt_or (target_interface d) [] in
      if target = [] then [NoTarget]
      else note_if (\<not> opt_or (prestate_exists d) False) (NoPrestate target))"

definition check_clear_counters :: "device_view \<Rightarrow> agent_view \<Rightarrow> check_failure list" where
  "check_clear_counters d a = note_if (\<not> opt_or (counters_snapshot d) False) NoSnapshot"

text \<open>\<open>_PRECONDITION_MAP\<close> and \<open>check_preconditions\<close>: an action without a checker passes.\<close>

definition check_preconditions ::
  "time \<Rightarrow> action_type \<Rightarrow> device_view \<Rightarrow> agent_view \<Rightarrow> precondition_result \<times> agent_view" where
  "check_preconditions clock act d a =
     (case act of
        SelClear \<Rightarrow> (verdict act (check_sel_clear d a), a)
      | BmcReset \<Rightarrow> (verdict act (check_bmc_reset d a), a)
      | PowerCycle \<Rightarrow> (verdict act (check_power_cycle d a), a)
      | PowerCapAdjust \<Rightarrow> (verdict act (check_power_cap_adjust d a), a)
      | FirmwareUpdate \<Rightarrow> (verdict act (check_firmware_update d a), a)
      | InterfaceDisable \<Rightarrow> (let (fs, a') = check_interface_disable clock d a in (verdict act fs, a'))
      | InterfaceReset \<Rightarrow> (let (fs, a') = network_disruptive_common clock d a in (verdict act fs, a'))
      | InterfaceEnable \<Rightarrow> (verdict act (check_interface_enable d a), a)
      | ClearCounters \<Rightarrow> (verdict act (check_clear_counters d a), a)
      | _ \<Rightarrow> (verdict act [], a))"

subsection \<open>Risk and reversibility\<close>

fun action_risk :: "action_type \<Rightarrow> string" where
  "action_risk IdentifyLed = ''none''"
| "action_risk CollectDiagnostics = ''none''"
| "action_risk FanReset = ''low''"
| "action_risk SelClear = ''low''"
| "action_risk BmcReset = ''low''"
| "action_risk PowerCycle = ''medium''"
| "action_risk PowerCapAdjust = ''medium''"
| "action_risk ConfigRestore = ''medium''"
| "action_risk FirmwareUpdate = ''high''"
| "action_risk FirmwareRollback = ''high''"
| "action_risk ClearCounters = ''low''"
| "action_risk InterfaceReset = ''high''"
| "action_risk InterfaceDisable = ''high''"
| "action_risk InterfaceEnable = ''low''"

datatype reversibility = RevNone | SelfReverting | Reversible | Irreversible

fun action_reversibility :: "action_type \<Rightarrow> reversibility" where
  "action_reversibility CollectDiagnostics = RevNone"
| "action_reversibility IdentifyLed = Reversible"
| "action_reversibility FanReset = SelfReverting"
| "action_reversibility BmcReset = SelfReverting"
| "action_reversibility PowerCycle = SelfReverting"
| "action_reversibility PowerCapAdjust = Reversible"
| "action_reversibility ConfigRestore = Reversible"
| "action_reversibility FirmwareUpdate = Reversible"
| "action_reversibility FirmwareRollback = Reversible"
| "action_reversibility SelClear = Irreversible"
| "action_reversibility ClearCounters = Irreversible"
| "action_reversibility InterfaceDisable = Reversible"
| "action_reversibility InterfaceEnable = Reversible"
| "action_reversibility InterfaceReset = SelfReverting"

definition inverse_action :: "(action_type, action_type) dict" where
  "inverse_action =
     [(IdentifyLed, IdentifyLed), (PowerCapAdjust, PowerCapAdjust), (ConfigRestore, ConfigRestore),
      (FirmwareUpdate, FirmwareRollback), (FirmwareRollback, FirmwareUpdate),
      (InterfaceDisable, InterfaceEnable), (InterfaceEnable, InterfaceDisable)]"

subsection \<open>Parameters\<close>

datatype param_type = PString | PInteger | PJsonObject
datatype param_source = SrcComponent | SrcDefault | SrcCampaign | SrcAnnotation | SrcUnavailable

record param_spec =
  ps_name :: string
  ps_type :: param_type
  ps_required :: bool
  ps_source :: param_source
  ps_default :: "string option"

abbreviation spec :: "string \<Rightarrow> param_type \<Rightarrow> bool \<Rightarrow> param_source \<Rightarrow> string option \<Rightarrow> param_spec" where
  "spec n t r s d \<equiv> \<lparr>ps_name = n, ps_type = t, ps_required = r, ps_source = s, ps_default = d\<rparr>"

definition reason_param :: param_spec where
  "reason_param = spec ''reason'' PString False SrcAnnotation None"

fun action_parameters :: "action_type \<Rightarrow> param_spec list" where
  "action_parameters CollectDiagnostics = []"
| "action_parameters SelClear = []"
| "action_parameters BmcReset = []"
| "action_parameters FanReset = []"
| "action_parameters IdentifyLed = [spec ''target'' PString True SrcComponent None]"
| "action_parameters InterfaceDisable = [spec ''interface'' PString True SrcComponent None]"
| "action_parameters InterfaceEnable = [spec ''interface'' PString True SrcComponent None]"
| "action_parameters PowerCycle = [spec ''reset_type'' PString False SrcDefault (Some ''ForceRestart'')]"
| "action_parameters PowerCapAdjust = [spec ''target_watts'' PInteger True SrcUnavailable None]"
| "action_parameters ConfigRestore = [spec ''attributes_json'' PJsonObject True SrcUnavailable None]"
| "action_parameters FirmwareUpdate =
     [spec ''target_version'' PString True SrcCampaign None,
      spec ''image_uri'' PString False SrcCampaign None,
      spec ''component'' PString False SrcDefault (Some ''bmc'')]"
| "action_parameters FirmwareRollback =
     [spec ''component'' PString False SrcDefault (Some ''bmc''),
      spec ''expected_version'' PString False SrcCampaign None]"
| "action_parameters ClearCounters = [spec ''interface'' PString True SrcComponent None]"
| "action_parameters InterfaceReset = [spec ''interface'' PString True SrcComponent None]"

datatype param_error = Undeclared "string list" "string list" | MissingParams "string list"

definition sorted_set :: "string list \<Rightarrow> string list" where
  "sorted_set xs = sort (remdups xs)"

definition validate_param_names :: "action_type \<Rightarrow> string list \<Rightarrow> param_error option" where
  "validate_param_names act names =
     (let specs = dset (ps_name reason_param) reason_param
            (map (\<lambda>s. (ps_name s, s)) (action_parameters act));
          unknown = sorted_set (filter (\<lambda>n. n \<notin> set (dkeys specs)) names)
      in if unknown \<noteq> [] then Some (Undeclared unknown (sort (dkeys specs)))
         else (let missing = sort (map fst (filter (\<lambda>(n, s). ps_required s \<and> n \<notin> set names) specs))
               in if missing \<noteq> [] then Some (MissingParams missing) else None))"

end
