(* ===== verification/Action_Executor.thy ===== *)
theory Action_Executor
  imports Values
begin

text \<open>
  The executor of approved actions (\<open>src/src/harkeniq/actions/executor.py\<close>). The device is a
  parameter: the Redfish client, and another protocol's \<open>execute_action\<close>, are functions on a
  world. A step of the executor is a function from the world to a fault or a value, and the
  world after it. The faults that the code raises itself are values of \<open>fault\<close>; \<open>Crash\<close> is an
  exception that \<open>execute\<close> does not catch (a device answer of an unexpected type), for which
  the method does not return an outcome.
\<close>

subsection \<open>The device\<close>

datatype request = Get string | Patch string pyval | Post string pyval

datatype fault =
    RedfishFault string
  | LedNeedsTarget
  | LedMismatch pyval
  | RestoreNeedsAttributes
  | RestoreBadJson
  | RestoreNotObject
  | RestoreUnsupported string
  | RestoreMismatch string pyval pyval
  | UpdateNeedsVersion
  | UpdateUnsupported string
  | UpdateNoTask
  | UpdateTaskEnded pyval
  | UpdateMismatch pyval string
  | RollbackMismatch pyval string
  | TaskUnfinished string
  | CapNeedsInteger
  | CapMismatch pyval int
  | UnknownAction action_type
  | NotAllowed action_type
  | ProtocolFault string
  | Crash

type_synonym 'w client = "request \<Rightarrow> 'w \<Rightarrow> (string + pydict) \<times> 'w"
type_synonym ('w, 'a) step = "'w \<Rightarrow> (fault + 'a) \<times> 'w"

definition ret :: "'a \<Rightarrow> ('w, 'a) step" where
  "ret x w = (Inr x, w)"

definition raise :: "fault \<Rightarrow> ('w, 'a) step" where
  "raise e w = (Inl e, w)"

definition seq :: "('w, 'a) step \<Rightarrow> ('a \<Rightarrow> ('w, 'b) step) \<Rightarrow> ('w, 'b) step" where
  "seq m k w = (case m w of (Inl e, w') \<Rightarrow> (Inl e, w') | (Inr x, w') \<Rightarrow> k x w')"

definition send :: "'w client \<Rightarrow> request \<Rightarrow> ('w, pydict) step" where
  "send client r w = (case client r w of (Inl e, w') \<Rightarrow> (Inl (RedfishFault e), w') | (Inr d, w') \<Rightarrow> (Inr d, w'))"

lemmas step_simps = ret_def raise_def seq_def send_def

lemma seq_Inr:
  "seq m k w = (Inr y, w'') \<longleftrightarrow> (\<exists>x w'. m w = (Inr x, w') \<and> k x w' = (Inr y, w''))"
  by (auto simp: seq_def split: prod.splits sum.splits)

lemma ret_Inr [simp]: "ret x w = (Inr y, w') \<longleftrightarrow> y = x \<and> w' = w"
  by (auto simp: ret_def)

lemma raise_Inr [simp]: "raise e w \<noteq> (Inr y, w')"
  by (simp add: raise_def)

lemma send_Inr: "send client r w = (Inr d, w') \<longleftrightarrow> client r w = (Inr d, w')"
  by (auto simp: send_def split: prod.splits sum.splits)

subsection \<open>Vendors and policy\<close>

definition default_allow_list :: "string list" where
  "default_allow_list = [''IDENTIFY_LED'', ''COLLECT_DIAGNOSTICS'', ''FAN_RESET'']"

definition dispatch_actions :: "string list" where
  "dispatch_actions = [''IDENTIFY_LED'', ''COLLECT_DIAGNOSTICS'', ''FAN_RESET'', ''CONFIG_RESTORE'',
     ''FIRMWARE_UPDATE'', ''FIRMWARE_ROLLBACK'', ''SEL_CLEAR'', ''BMC_RESET'', ''POWER_CYCLE'',
     ''POWER_CAP_ADJUST'']"

definition vendor_ids :: "(string, string \<times> string) dict" where
  "vendor_ids = [(''dell'', (''System.Embedded.1'', ''iDRAC.Embedded.1'')), (''hpe'', (''1'', ''1''))]"

text \<open>
  The executor's configuration. \<open>alt\<close> is the \<open>execute_action\<close> of a protocol other than
  Redfish: it answers success with an error text, or raises.
\<close>

datatype proto_answer = ProtoResult bool string | ProtoRaised string

type_synonym 'w alt_protocol = "string \<Rightarrow> (string, string) dict \<Rightarrow> 'w \<Rightarrow> proto_answer \<times> 'w"

record 'w executor =
  ex_client :: "'w client"
  ex_alt :: "'w alt_protocol option"
  ex_vendor :: string
  ex_chassis :: string
  ex_manager :: string
  ex_allow :: "string list"
  ex_poll_limit :: nat

definition make_executor ::
  "'w client \<Rightarrow> 'w alt_protocol option \<Rightarrow> string \<Rightarrow> string list option \<Rightarrow> 'w executor option" where
  "make_executor client alt vendor allow =
     (let al = (case allow of None \<Rightarrow> default_allow_list | Some l \<Rightarrow> l);
          build = (\<lambda>chassis manager. \<lparr>ex_client = client, ex_alt = alt, ex_vendor = vendor,
             ex_chassis = chassis, ex_manager = manager, ex_allow = al, ex_poll_limit = 60\<rparr>)
      in case alt of
           Some _ \<Rightarrow> Some (build [] [])
         | None \<Rightarrow> (case dget vendor_ids vendor of
               None \<Rightarrow> None
             | Some (chassis, manager) \<Rightarrow> Some (build chassis manager)))"

subsection \<open>Texts\<close>

text \<open>\<open>quote(drive, safe='')\<close>: letters, digits and \<open>_.-~\<close> stay, every other byte is \<open>%XX\<close>.\<close>

definition hex_digit :: "nat \<Rightarrow> char" where
  "hex_digit n = ''0123456789ABCDEF'' ! n"

definition url_safe :: "char \<Rightarrow> bool" where
  "url_safe c = (let n = (of_char c :: nat) in
     (48 \<le> n \<and> n \<le> 57) \<or> (65 \<le> n \<and> n \<le> 90) \<or> (97 \<le> n \<and> n \<le> 122) \<or> c \<in> set ''_.-~'')"

definition quote :: "string \<Rightarrow> string" where
  "quote s = concat (map (\<lambda>c. if url_safe c then [c] else
     [CHR ''%'', hex_digit (of_char c div 16), hex_digit (of_char c mod 16)]) s)"

text \<open>\<open>int(text)\<close> on decimal texts: surrounding blanks, a sign, digits with single underscores between.\<close>

fun digits :: "string \<Rightarrow> bool \<Rightarrow> int \<Rightarrow> int option" where
  "digits [] seen acc = (if seen then Some acc else None)"
| "digits (c # cs) seen acc =
     (let n = (of_char c :: nat) in
      if 48 \<le> n \<and> n \<le> 57 then digits cs True (acc * 10 + (int n - 48))
      else if c = CHR ''_'' \<and> seen then digits cs False acc
      else None)"

definition blank :: "char \<Rightarrow> bool" where
  "blank c = (let n = (of_char c :: nat) in n = 32 \<or> (9 \<le> n \<and> n \<le> 13))"

definition strip :: "string \<Rightarrow> string" where
  "strip s = rev (dropWhile blank (rev (dropWhile blank s)))"

definition int_of_text :: "string \<Rightarrow> int option" where
  "int_of_text s =
     (case strip s of
        CHR ''-'' # ds \<Rightarrow> map_option uminus (digits ds False 0)
      | CHR ''+'' # ds \<Rightarrow> digits ds False 0
      | ds \<Rightarrow> digits ds False 0)"

definition param :: "string \<Rightarrow> string \<Rightarrow> 'err action \<Rightarrow> string" where
  "param k d act = dget_or (act_params act) k d"

subsection \<open>The actions\<close>

definition manager_path :: "'w executor \<Rightarrow> string \<Rightarrow> string" where
  "manager_path e rest = ''/redfish/v1/Managers/'' @ ex_manager e @ rest"

definition attributes_path :: "'w executor \<Rightarrow> string" where
  "attributes_path e = manager_path e (''/Oem/Dell/DellAttributes/'' @ ex_manager e)"

definition identify_led :: "'w executor \<Rightarrow> 'err action \<Rightarrow> ('w, unit) step" where
  "identify_led e act =
     (let drive = param ''target'' [] act;
          path = ''/redfish/v1/Chassis/'' @ ex_chassis e @ ''/Drives/'' @ quote drive in
      if drive = [] then raise LedNeedsTarget
      else seq (send (ex_client e) (Patch path (PyDict [(''IndicatorLED'', PyStr ''Blinking'')]))) (\<lambda>_.
           seq (send (ex_client e) (Get path)) (\<lambda>data.
             if \<not> py_eq (dget_or data ''IndicatorLED'' PyNone) (PyStr ''Blinking'')
             then raise (LedMismatch (dget_or data ''IndicatorLED'' PyNone)) else ret ())))"

definition collect_diagnostics :: "'w executor \<Rightarrow> ('w, unit) step" where
  "collect_diagnostics e =
     (if ex_vendor e = ''dell''
      then seq (send (ex_client e) (Post (manager_path e
             ''/Oem/Dell/DellLCService/Actions/DellLCService.ExportSystemConfiguration'')
             (PyDict [(''ExportFormat'', PyStr ''JSON''), (''ShareType'', PyStr ''Local'')]))) (\<lambda>_. ret ())
      else seq (send (ex_client e) (Get (manager_path e ''/ActiveHealthSystem''))) (\<lambda>_. ret ()))"

text \<open>The read-back loop over the restored attributes.\<close>

fun verify_attributes :: "pydict \<Rightarrow> pydict \<Rightarrow> ('w, unit) step" where
  "verify_attributes current [] = ret ()"
| "verify_attributes current ((k, v) # rest) =
     (let c = dget_or current k PyNone in
      if \<not> py_eq c v then raise (RestoreMismatch k c v) else verify_attributes current rest)"

definition config_restore ::
  "(string \<Rightarrow> pyval option) \<Rightarrow> 'w executor \<Rightarrow> 'err action \<Rightarrow> ('w, unit) step" where
  "config_restore json_loads e act =
     (let raw = param ''attributes_json'' [] act in
      if raw = [] then raise RestoreNeedsAttributes
      else (case json_loads raw of
          None \<Rightarrow> raise RestoreBadJson
        | Some (PyDict attributes) \<Rightarrow>
            if attributes = [] then raise RestoreNotObject
            else if ex_vendor e \<noteq> ''dell'' then raise (RestoreUnsupported (ex_vendor e))
            else (let path = attributes_path e in
              seq (send (ex_client e) (Patch path (PyDict [(''Attributes'', PyDict attributes)]))) (\<lambda>_.
              seq (send (ex_client e) (Get path)) (\<lambda>data.
                case as_dict (dget_or data ''Attributes'' (PyDict [])) of
                  Some current \<Rightarrow> verify_attributes current attributes
                | None \<Rightarrow> raise Crash)))
        | Some _ \<Rightarrow> raise RestoreNotObject))"

fun poll_task :: "'w executor \<Rightarrow> nat \<Rightarrow> string \<Rightarrow> ('w, pyval) step" where
  "poll_task e 0 uri = raise (TaskUnfinished uri)"
| "poll_task e (Suc n) uri =
     seq (send (ex_client e) (Get uri)) (\<lambda>task.
       let state = dget_or task ''TaskState'' (PyStr []) in
       if state \<in> {PyStr ''Completed'', PyStr ''Exception'', PyStr ''Killed'', PyStr ''Cancelled''}
       then ret state else poll_task e n uri)"

definition firmware_update :: "'w executor \<Rightarrow> 'err action \<Rightarrow> ('w, unit) step" where
  "firmware_update e act =
     (let version = param ''target_version'' [] act;
          uri0 = param ''image_uri'' [] act;
          component = param ''component'' ''bmc'' act;
          uri = (if uri0 = [] then ''harkeniq://firmware/'' @ component @ ''-'' @ version @ ''.bin'' else uri0) in
      if version = [] then raise UpdateNeedsVersion
      else if component \<noteq> ''bmc'' then raise (UpdateUnsupported component)
      else seq (send (ex_client e) (Post ''/redfish/v1/UpdateService/Actions/UpdateService.SimpleUpdate''
             (PyDict [(''ImageURI'', PyStr uri), (''Targets'', PyList [])]))) (\<lambda>response.
           let task = dget_or response ''@odata.id'' (PyStr []) in
           case as_str task of
             Some task_uri \<Rightarrow>
               if task_uri = [] then raise UpdateNoTask
               else seq (poll_task e (ex_poll_limit e) task_uri) (\<lambda>state.
                 if state \<noteq> PyStr ''Completed'' then raise (UpdateTaskEnded state)
                 else seq (send (ex_client e) (Get (manager_path e []))) (\<lambda>mgr.
                   let running = dget_or mgr ''FirmwareVersion'' (PyStr []) in
                   if running \<noteq> PyStr version then raise (UpdateMismatch running version) else ret ()))
           | None \<Rightarrow> if \<not> py_truthy task then raise UpdateNoTask else raise Crash))"

definition firmware_rollback :: "'w executor \<Rightarrow> 'err action \<Rightarrow> ('w, unit) step" where
  "firmware_rollback e act =
     seq (send (ex_client e) (Post ''/redfish/v1/UpdateService/Actions/Oem/HarkenIQ.FirmwareRollback''
            (PyDict [(''Component'', PyStr (param ''component'' ''bmc'' act))]))) (\<lambda>response.
       let expected = param ''expected_version'' [] act;
           active = dget_or response ''ActiveVersion'' (PyStr []) in
       if expected \<noteq> [] \<and> active \<noteq> PyStr expected then raise (RollbackMismatch active expected)
       else ret ())"

definition sel_clear :: "'w executor \<Rightarrow> ('w, unit) step" where
  "sel_clear e =
     (let path = (if ex_vendor e = ''dell''
            then manager_path e ''/LogServices/Sel/Actions/LogService.ClearLog''
            else ''/redfish/v1/Systems/'' @ ex_chassis e @ ''/LogServices/IML/Actions/LogService.ClearLog'')
      in seq (send (ex_client e) (Post path (PyDict []))) (\<lambda>_. ret ()))"

definition bmc_reset :: "'w executor \<Rightarrow> ('w, unit) step" where
  "bmc_reset e =
     seq (send (ex_client e) (Post (manager_path e ''/Actions/Manager.Reset'')
       (PyDict [(''ResetType'', PyStr ''GracefulRestart'')]))) (\<lambda>_. ret ())"

definition power_cycle :: "'w executor \<Rightarrow> 'err action \<Rightarrow> ('w, unit) step" where
  "power_cycle e act =
     seq (send (ex_client e) (Post (''/redfish/v1/Systems/'' @ ex_chassis e @ ''/Actions/ComputerSystem.Reset'')
       (PyDict [(''ResetType'', PyStr (param ''reset_type'' ''ForceRestart'' act))]))) (\<lambda>_. ret ())"

text \<open>
  \<open>((data.get("PowerControl") or [{}])[0].get("PowerLimit") or {}).get("LimitInWatts")\<close>; \<open>None\<close>
  where Python raises on an answer of another shape.
\<close>

definition limit_in_watts :: "pydict \<Rightarrow> pyval option" where
  "limit_in_watts data =
     (let controls = dget_or data ''PowerControl'' PyNone in
      case (if py_truthy controls then controls else PyList [PyDict []]) of
        PyList (PyDict control # _) \<Rightarrow>
          (let lim = dget_or control ''PowerLimit'' PyNone in
           case (if py_truthy lim then lim else PyDict []) of
             PyDict l \<Rightarrow> Some (dget_or l ''LimitInWatts'' PyNone)
           | _ \<Rightarrow> None)
      | _ \<Rightarrow> None)"

definition power_cap_adjust :: "'w executor \<Rightarrow> 'err action \<Rightarrow> ('w, unit) step" where
  "power_cap_adjust e act =
     (case int_of_text (param ''target_watts'' [] act) of
        None \<Rightarrow> raise CapNeedsInteger
      | Some target \<Rightarrow>
          (let path = ''/redfish/v1/Chassis/'' @ ex_chassis e @ ''/Power'' in
           seq (send (ex_client e) (Patch path (PyDict [(''PowerControl'',
               PyList [PyDict [(''PowerLimit'', PyDict [(''LimitInWatts'', PyInt target)])]])]))) (\<lambda>_.
           seq (send (ex_client e) (Get path)) (\<lambda>data.
             case limit_in_watts data of
               None \<Rightarrow> raise Crash
             | Some applied \<Rightarrow>
                 if \<not> py_eq applied (PyInt target) then raise (CapMismatch applied target) else ret ()))))"

definition fan_reset :: "'w executor \<Rightarrow> ('w, unit) step" where
  "fan_reset e =
     (if ex_vendor e = ''dell''
      then seq (send (ex_client e) (Patch (attributes_path e)
             (PyDict [(''Attributes'', PyDict [(''ThermalSettings.1.FanSpeedOffset'', PyStr ''Off'')])])))
             (\<lambda>_. ret ())
      else seq (send (ex_client e) (Patch (''/redfish/v1/Chassis/'' @ ex_chassis e @ ''/Thermal'')
             (PyDict [(''Oem'', PyDict [(''Hpe'', PyDict [(''ThermalConfiguration'', PyStr ''OptimalCooling'')])])])))
             (\<lambda>_. ret ()))"

definition via_protocol :: "'w alt_protocol \<Rightarrow> 'err action \<Rightarrow> ('w, unit) step" where
  "via_protocol alt act w =
     (case alt (action_value (act_type act)) (act_params act) w of
        (ProtoRaised err, w') \<Rightarrow> (Inl (ProtocolFault err), w')
      | (ProtoResult ok err, w') \<Rightarrow> if ok then (Inr (), w') else (Inl (ProtocolFault err), w'))"

definition dispatch ::
  "(string \<Rightarrow> pyval option) \<Rightarrow> 'w executor \<Rightarrow> 'err action \<Rightarrow> ('w, unit) step" where
  "dispatch json_loads e act =
     (case ex_alt e of
        Some alt \<Rightarrow> via_protocol alt act
      | None \<Rightarrow>
          (case act_type act of
             IdentifyLed \<Rightarrow> identify_led e act
           | CollectDiagnostics \<Rightarrow> collect_diagnostics e
           | FanReset \<Rightarrow> fan_reset e
           | ConfigRestore \<Rightarrow> config_restore json_loads e act
           | FirmwareUpdate \<Rightarrow> firmware_update e act
           | FirmwareRollback \<Rightarrow> firmware_rollback e act
           | SelClear \<Rightarrow> sel_clear e
           | BmcReset \<Rightarrow> bmc_reset e
           | PowerCycle \<Rightarrow> power_cycle e act
           | PowerCapAdjust \<Rightarrow> power_cap_adjust e act
           | a \<Rightarrow> raise (UnknownAction a)))"

subsection \<open>Executing an action\<close>

text \<open>
  An audit entry names the action class, the target and what happened. \<open>mk\<close> puts a fault into
  the error texts of the caller. \<open>execute\<close> gives the outcome, unless a crash escaped it, the
  updated action, the audit entries in order, and the world.
\<close>

type_synonym audit_entry = "string \<times> string \<times> string"

definition duration_ms :: "time option \<Rightarrow> time \<Rightarrow> real" where
  "duration_ms started finished =
     (case started of None \<Rightarrow> 0 | Some s \<Rightarrow> if s = 0 then 0 else (finished - s) * 1000)"

definition finish ::
  "'err action \<Rightarrow> string \<Rightarrow> bool \<Rightarrow> 'err option \<Rightarrow> real \<Rightarrow> time \<Rightarrow> 'err action_outcome \<times> 'err action" where
  "finish act target success err duration stamp =
     (let out = \<lparr>out_action_id = act_id act, out_type = act_type act, out_target = target,
                 out_success = success, out_error = err, out_duration_ms = duration,
                 out_timestamp = stamp\<rparr>
      in (out, act\<lparr>act_status := (if success then ActCompleted else ActFailed),
                   act_completed_at := Some stamp, act_outcome := Some out\<rparr>))"

definition action_target :: "'err action \<Rightarrow> string" where
  "action_target act =
     (let t = param ''target'' [] act in if t = [] then act_sensor_id act else t)"

record clocks =
  ck_started :: time
  ck_finished :: time
  ck_stamp :: time

definition execute ::
  "(string \<Rightarrow> pyval option) \<Rightarrow> (fault \<Rightarrow> 'err) \<Rightarrow> clocks \<Rightarrow> 'w executor \<Rightarrow> 'err action \<Rightarrow> 'w \<Rightarrow>
     'err action_outcome option \<times> 'err action \<times> audit_entry list \<times> 'w" where
  "execute json_loads mk ck e act w =
     (let target = action_target act;
          note = (\<lambda>what. (action_value (act_type act), target, what)) in
      if action_value (act_type act) \<notin> set (ex_allow e)
      then (let (out, act') = finish act target False (Some (mk (NotAllowed (act_type act)))) 0 (ck_stamp ck)
            in (Some out, act', [note ''refused''], w))
      else (let act1 = act\<lparr>act_status := ActExecuting\<rparr>;
                dur = duration_ms (Some (ck_started ck)) (ck_finished ck) in
        case dispatch json_loads e act1 w of
          (Inl Crash, w') \<Rightarrow> (None, act1, [note ''executing''], w')
        | (Inl f, w') \<Rightarrow>
            (let (out, act') = finish act1 target False (Some (mk f)) dur (ck_stamp ck)
             in (Some out, act', [note ''executing'', note ''failed''], w'))
        | (Inr _, w') \<Rightarrow>
            (let (out, act') = finish act1 target True None dur (ck_stamp ck)
             in (Some out, act', [note ''executing'', note ''success''], w'))))"

text \<open>The four ways a call can end.\<close>

lemma execute_refused:
  assumes "action_value (act_type act) \<notin> set (ex_allow e)"
  shows "execute json_loads mk ck e act w =
    (Some (fst (finish act (action_target act) False (Some (mk (NotAllowed (act_type act)))) 0 (ck_stamp ck))),
     snd (finish act (action_target act) False (Some (mk (NotAllowed (act_type act)))) 0 (ck_stamp ck)),
     [(action_value (act_type act), action_target act, ''refused'')], w)"
  using assms by (simp add: execute_def Let_def split: prod.split)

lemma finish_simps [simp]:
  "out_success (fst (finish act t s e d st)) = s"
  "act_status (snd (finish act t s e d st)) = (if s then ActCompleted else ActFailed)"
  "act_outcome (snd (finish act t s e d st)) = Some (fst (finish act t s e d st))"
  "act_type (snd (finish act t s e d st)) = act_type act"
  "act_id (snd (finish act t s e d st)) = act_id act"
  "act_params (snd (finish act t s e d st)) = act_params act"
  by (simp_all add: finish_def Let_def)

lemma execute_success:
  assumes "execute json_loads mk ck e act w = (Some out, act', audits, w')" and "out_success out"
  shows "action_value (act_type act) \<in> set (ex_allow e)"
    and "dispatch json_loads e (act\<lparr>act_status := ActExecuting\<rparr>) w = (Inr (), w')"
    and "act_status act' = ActCompleted" and "act_outcome act' = Some out"
    and "map (snd \<circ> snd) audits = [''executing'', ''success'']"
  using assms
  by (auto simp: execute_def Let_def finish_def split: if_splits prod.splits sum.splits fault.splits)

lemma execute_type: "act_type (fst (snd (execute json_loads mk ck e act w))) = act_type act"
  by (simp add: execute_def Let_def finish_def split: prod.split sum.split fault.split)

subsection \<open>What a success means\<close>

lemma verify_attributes_Inr:
  "verify_attributes current attrs w = (Inr u, w') \<Longrightarrow>
     w' = w \<and> (\<forall>(k, v) \<in> set attrs. py_eq (dget_or current k PyNone) v)"
  by (induction attrs) (auto simp: Let_def split: if_splits)

lemma identify_led_Inr:
  assumes "identify_led e act w = (Inr u, w')"
  obtains w1 data where "ex_client e (Get (''/redfish/v1/Chassis/'' @ ex_chassis e @ ''/Drives/'' @
      quote (param ''target'' [] act))) w1 = (Inr data, w')"
    "py_eq (dget_or data ''IndicatorLED'' PyNone) (PyStr ''Blinking'')"
  using assms by (auto simp: identify_led_def Let_def seq_Inr send_Inr split: if_splits)

lemma power_cap_Inr:
  assumes "power_cap_adjust e act w = (Inr u, w')"
  obtains w1 data target applied where "int_of_text (param ''target_watts'' [] act) = Some target"
    "ex_client e (Get (''/redfish/v1/Chassis/'' @ ex_chassis e @ ''/Power'')) w1 = (Inr data, w')"
    "limit_in_watts data = Some applied" "py_eq applied (PyInt target)"
  using assms
  by (auto simp: power_cap_adjust_def Let_def seq_Inr send_Inr split: if_splits option.splits)

lemma config_restore_Inr:
  assumes "config_restore json_loads e act w = (Inr u, w')"
  obtains w1 data attrs current where
    "json_loads (param ''attributes_json'' [] act) = Some (PyDict attrs)"
    "ex_client e (Get (attributes_path e)) w1 = (Inr data, w')"
    "dget_or data ''Attributes'' (PyDict []) = PyDict current"
    "\<forall>(k, v) \<in> set attrs. py_eq (dget_or current k PyNone) v"
proof -
  obtain attrs where attrs: "json_loads (param ''attributes_json'' [] act) = Some (PyDict attrs)"
    using assms by (auto simp: config_restore_def Let_def split: if_splits option.splits pyval.splits)
  with assms show ?thesis
    by (auto simp: config_restore_def Let_def seq_Inr send_Inr split: if_splits option.splits
        dest!: verify_attributes_Inr intro: that)
qed

lemma firmware_update_Inr:
  assumes "firmware_update e act w = (Inr u, w')"
  obtains w1 data where "ex_client e (Get (manager_path e [])) w1 = (Inr data, w')"
    "dget_or data ''FirmwareVersion'' (PyStr []) = PyStr (param ''target_version'' [] act)"
  using assms
  by (auto simp: firmware_update_def Let_def seq_Inr send_Inr split: if_splits option.splits)

text \<open>The poll of a firmware task asks at most \<open>n\<close> times, and ends with a final state or a fault.\<close>

lemma poll_task_final:
  "poll_task e n uri w = (Inr s, w') \<Longrightarrow>
     s \<in> {PyStr ''Completed'', PyStr ''Exception'', PyStr ''Killed'', PyStr ''Cancelled''}"
proof (induction n arbitrary: w)
  case (Suc n)
  then show ?case by (auto simp: seq_Inr Let_def split: if_splits)
qed simp

subsection \<open>Properties\<close>

text \<open>An action outside the allow list is refused without any request to the device; every call
  that returns leaves the outcome in the action, with a status that says whether it succeeded and
  an audit trail that ends the same way; and a call that raises leaves the action executing.\<close>

theorem execution_recorded:
  assumes "execute json_loads mk ck e act w = (r, act', audits, w')"
  shows "(action_value (act_type act) \<notin> set (ex_allow e) \<longrightarrow>
      w' = w \<and> act_status act' = ActFailed \<and> map (snd \<circ> snd) audits = [''refused''])
    \<and> act_outcome act' = (case r of None \<Rightarrow> act_outcome act | Some out \<Rightarrow> Some out)
    \<and> act_status act' = (case r of None \<Rightarrow> ActExecuting
        | Some out \<Rightarrow> if out_success out then ActCompleted else ActFailed)
    \<and> last (map (snd \<circ> snd) audits) \<in> (case r of None \<Rightarrow> {''executing''}
        | Some out \<Rightarrow> if out_success out then {''success''} else {''failed'', ''refused''})"
  using assms
  by (auto simp: execute_def Let_def finish_def split: if_splits prod.splits sum.splits fault.splits)

text \<open>Over Redfish, a reported success of a write was read back from the device: the drive's LED
  blinks, the power cap is the requested one, the running firmware is the target version, every
  restored attribute has its policy value.\<close>

theorem success_was_read_back:
  assumes "execute json_loads mk ck e act w = (Some out, act', audits, w')" and "out_success out"
    and "ex_alt e = None"
  shows "case act_type act of
      IdentifyLed \<Rightarrow> \<exists>w1 data. ex_client e (Get (''/redfish/v1/Chassis/'' @ ex_chassis e @ ''/Drives/'' @
          quote (param ''target'' [] act))) w1 = (Inr data, w')
        \<and> py_eq (dget_or data ''IndicatorLED'' PyNone) (PyStr ''Blinking'')
    | PowerCapAdjust \<Rightarrow> \<exists>w1 data target applied. int_of_text (param ''target_watts'' [] act) = Some target
        \<and> ex_client e (Get (''/redfish/v1/Chassis/'' @ ex_chassis e @ ''/Power'')) w1 = (Inr data, w')
        \<and> limit_in_watts data = Some applied \<and> py_eq applied (PyInt target)
    | FirmwareUpdate \<Rightarrow> \<exists>w1 data. ex_client e (Get (manager_path e [])) w1 = (Inr data, w')
        \<and> dget_or data ''FirmwareVersion'' (PyStr []) = PyStr (param ''target_version'' [] act)
    | ConfigRestore \<Rightarrow> \<exists>w1 data attrs current.
        json_loads (param ''attributes_json'' [] act) = Some (PyDict attrs)
        \<and> ex_client e (Get (attributes_path e)) w1 = (Inr data, w')
        \<and> dget_or data ''Attributes'' (PyDict []) = PyDict current
        \<and> (\<forall>(k, v) \<in> set attrs. py_eq (dget_or current k PyNone) v)
    | a \<Rightarrow> a \<notin> {ClearCounters, InterfaceReset, InterfaceDisable, InterfaceEnable}"
proof -
  let ?act = "act\<lparr>act_status := ActExecuting\<rparr>"
  have p: "param k d ?act = param k d act" for k d by (simp add: param_def)
  have d: "dispatch json_loads e ?act w = (Inr (), w')" by (rule execute_success(2) [OF assms(1,2)])
  show ?thesis
  proof (cases "act_type act")
    case IdentifyLed
    then have "identify_led e ?act w = (Inr (), w')" using d assms(3) by (simp add: dispatch_def)
    then show ?thesis by (rule identify_led_Inr) (auto simp: IdentifyLed p)
  next
    case PowerCapAdjust
    then have "power_cap_adjust e ?act w = (Inr (), w')" using d assms(3) by (simp add: dispatch_def)
    then show ?thesis by (rule power_cap_Inr) (auto simp: PowerCapAdjust p)
  next
    case FirmwareUpdate
    then have "firmware_update e ?act w = (Inr (), w')" using d assms(3) by (simp add: dispatch_def)
    then show ?thesis by (rule firmware_update_Inr) (auto simp: FirmwareUpdate p)
  next
    case ConfigRestore
    then have "config_restore json_loads e ?act w = (Inr (), w')" using d assms(3) by (simp add: dispatch_def)
    then show ?thesis by (rule config_restore_Inr) (auto simp: ConfigRestore p)
  qed (use d assms(3) in \<open>simp_all add: dispatch_def\<close>)
qed

definition demo_client :: "nat client" where
  "demo_client r w = (Inr (case r of Get _ \<Rightarrow> [(''Attributes'', PyNone)] | _ \<Rightarrow> []), w + 1)"

definition demo_action :: "action_type \<Rightarrow> (string, string) dict \<Rightarrow> fault action" where
  "demo_action ty ps =
     \<lparr>act_id = ''x'', act_type = ty, act_params = ps, act_status = ActApproved, act_sensor_id = ''s'',
      act_skill_name = '''', act_severity = SevUnknown, act_proposed_at = 0, act_approved_at = None,
      act_completed_at = None, act_outcome = None\<rparr>"

definition demo_executor :: "nat client \<Rightarrow> nat executor" where
  "demo_executor client = the (make_executor client None ''dell'' (Some dispatch_actions))"

definition demo_clocks :: clocks where
  "demo_clocks = \<lparr>ck_started = 10, ck_finished = 11, ck_stamp = 100\<rparr>"

text \<open>A device answer of an unexpected shape escapes the executor: after a config restore whose
  read-back holds \<open>null\<close> attributes no outcome is returned, and the action stays executing.\<close>

theorem executor_can_raise:
  "execute (\<lambda>_. Some (PyDict [(''K'', PyInt 1)])) id demo_clocks (demo_executor demo_client)
     (demo_action ConfigRestore [(''attributes_json'', ''j'')]) 0 =
   (None, (demo_action ConfigRestore [(''attributes_json'', ''j'')])\<lparr>act_status := ActExecuting\<rparr>,
    [(''CONFIG_RESTORE'', ''s'', ''executing'')], 2)"
  by (simp add: execute_def demo_executor_def make_executor_def vendor_ids_def dispatch_actions_def
      demo_action_def dispatch_def config_restore_def param_def dget_or_def seq_def send_def
      demo_client_def as_dict_def raise_def action_target_def Let_def)

definition demo_watts :: "nat client" where
  "demo_watts r w = (Inr (case r of Get _ \<Rightarrow>
     [(''PowerControl'', PyList [PyDict [(''PowerLimit'', PyDict [(''LimitInWatts'', PyInt 7)])]])] | _ \<Rightarrow> []), w + 1)"

lemma demo_watts_eval:
  "execute (\<lambda>_. None) id demo_clocks (demo_executor demo_watts)
     (demo_action PowerCapAdjust [(''target_watts'', ''7'')]) 0 =
   (Some (fst (finish ((demo_action PowerCapAdjust [(''target_watts'', ''7'')])\<lparr>act_status := ActExecuting\<rparr>)
      ''s'' True None 1000 100)),
    snd (finish ((demo_action PowerCapAdjust [(''target_watts'', ''7'')])\<lparr>act_status := ActExecuting\<rparr>)
      ''s'' True None 1000 100),
    [(''POWER_CAP_ADJUST'', ''s'', ''executing''), (''POWER_CAP_ADJUST'', ''s'', ''success'')], 2)"
  by (simp add: execute_def demo_executor_def make_executor_def vendor_ids_def dispatch_actions_def
      demo_action_def dispatch_def power_cap_adjust_def param_def dget_or_def seq_def send_def
      demo_watts_def int_of_text_def strip_def blank_def limit_in_watts_def ret_def
      action_target_def demo_clocks_def duration_ms_def Let_def split: prod.split)

lemma execution_recorded_witness:
  "act_status (fst (snd (execute (\<lambda>_. None) id demo_clocks (demo_executor demo_watts)
     (demo_action PowerCapAdjust [(''target_watts'', ''7'')]) 0))) = ActCompleted"
  using execution_recorded [OF demo_watts_eval] by (simp add: demo_watts_eval)

lemma success_was_read_back_witness:
  "\<exists>w1 data applied. demo_watts (Get ''/redfish/v1/Chassis/System.Embedded.1/Power'') w1 = (Inr data, 2)
     \<and> limit_in_watts data = Some applied"
proof -
  have "ex_alt (demo_executor demo_watts) = None"
    by (simp add: demo_executor_def make_executor_def vendor_ids_def)
  from success_was_read_back [OF demo_watts_eval _ this] show ?thesis
    by (auto simp: demo_action_def demo_executor_def make_executor_def vendor_ids_def)
qed

end
