(* ===== verification/Verification.thy ===== *)
theory Verification
  imports Values
begin

text \<open>
  Post-action verification (\<open>src/src/harkeniq/autonomy/verification.py\<close>, and the decision of
  \<open>_verify_action\<close> in \<open>src/src/harkeniq/agent.py\<close>), the two-ended fault probe
  (\<open>src/src/harkeniq/autonomy/correlation_probe.py\<close>) and the outcome counters of a skill
  (\<open>src/src/harkeniq/autonomy/skill_lifecycle.py\<close>). A comparison of unordered types raises
  \<open>TypeError\<close>, the result \<open>None\<close> of a check.
\<close>

subsection \<open>Verification\<close>

datatype outcome_status = OutSuccess | OutPartial | OutFailure | OutUnknown | OutRollback

definition verification_windows :: "(action_type, real) dict" where
  "verification_windows = [(IdentifyLed, 5), (CollectDiagnostics, 5), (FanReset, 60), (SelClear, 30),
     (BmcReset, 120), (PowerCycle, 300), (PowerCapAdjust, 30)]"

record check =
  chk_description :: string
  chk_field :: string
  chk_operator :: string
  chk_expected :: pyval

abbreviation equals :: "string \<Rightarrow> string \<Rightarrow> pyval \<Rightarrow> check" where
  "equals d f v \<equiv> \<lparr>chk_description = d, chk_field = f, chk_operator = ''equals'', chk_expected = v\<rparr>"

definition verification_checks :: "(action_type, check list) dict" where
  "verification_checks =
     [(SelClear, [equals ''SEL accessible and empty'' ''sel_entry_count'' (PyInt 0)]),
      (BmcReset, [equals ''BMC responds to Redfish'' ''bmc_responsive'' (PyBool True)]),
      (PowerCycle, [equals ''Agent re-registered with SM'' ''agent_registered'' (PyBool True)]),
      (PowerCapAdjust, [equals ''Power draw within target range'' ''power_within_target'' (PyBool True)]),
      (FanReset, [equals ''Fan RPM recovered above threshold'' ''fan_rpm_healthy'' (PyBool True)])]"

text \<open>\<open>value > expected\<close> is \<open>expected < value\<close>.\<close>

definition check_passes :: "pyval \<Rightarrow> string \<Rightarrow> pyval \<Rightarrow> bool option" where
  "check_passes v oper expected =
     (if v = PyNone then Some False
      else if oper = ''equals'' then Some (py_eq v expected)
      else if oper = ''greater_than'' then py_less expected v
      else if oper = ''less_than'' then py_less v expected
      else if oper = ''not_empty'' then Some (py_truthy v)
      else Some False)"

text \<open>The counting loop; \<open>None\<close> when a check raises.\<close>

fun count_passed :: "pydict \<Rightarrow> check list \<Rightarrow> nat option" where
  "count_passed post [] = Some 0"
| "count_passed post (c # cs) =
     (case check_passes (dget_or post (chk_field c) PyNone) (chk_operator c) (chk_expected c) of
        None \<Rightarrow> None
      | Some b \<Rightarrow> map_option (\<lambda>n. (if b then 1 else 0) + n) (count_passed post cs))"

definition evaluate_checks :: "check list \<Rightarrow> pydict \<Rightarrow> outcome_status option" where
  "evaluate_checks checks post =
     (if checks = [] then Some OutSuccess
      else map_option (\<lambda>passed. if passed = length checks then OutSuccess
             else if 0 < passed then OutPartial else OutFailure) (count_passed post checks))"

definition evaluate_verification :: "action_type \<Rightarrow> pydict \<Rightarrow> outcome_status option" where
  "evaluate_verification act post = evaluate_checks (dget_or verification_checks act []) post"

text \<open>\<open>_verify_action\<close>: a check whose input was not observed makes the status unknown.\<close>

definition verify_status :: "action_type \<Rightarrow> pydict \<Rightarrow> outcome_status option" where
  "verify_status act post =
     (let checks = dget_or verification_checks act [] in
      if checks \<noteq> [] \<and> \<not> (\<forall>c \<in> set checks. dhas post (chk_field c)) then Some OutUnknown
      else evaluate_verification act post)"

text \<open>\<open>_collect_post_state\<close>: the fan healths of the polled device, or \<open>None\<close> when the poll failed.\<close>

definition collect_post_state :: "string list option \<Rightarrow> bool \<Rightarrow> pydict" where
  "collect_post_state fans sm_connected =
     (case fans of
        None \<Rightarrow> [(''bmc_responsive'', PyBool False)]
      | Some fs \<Rightarrow> (''bmc_responsive'', PyBool True) #
          (if fs = [] then []
           else [(''fan_rpm_healthy'',
                  PyBool (\<forall>h \<in> set fs. upper (if h = [] then ''OK'' else h) = ''OK''))]))
     @ [(''agent_registered'', PyBool sm_connected)]"

lemma count_passed_bound: "count_passed post cs = Some n \<Longrightarrow> n \<le> length cs"
  by (induction cs arbitrary: n) (auto split: option.splits if_splits)

lemma count_passed_all:
  "count_passed post cs = Some n \<Longrightarrow> n = length cs \<longleftrightarrow>
     (\<forall>c \<in> set cs. check_passes (dget_or post (chk_field c) PyNone) (chk_operator c) (chk_expected c) = Some True)"
proof (induction cs arbitrary: n)
  case (Cons c cs)
  then obtain b m where "check_passes (dget_or post (chk_field c) PyNone) (chk_operator c) (chk_expected c) = Some b"
    "count_passed post cs = Some m" "n = (if b then 1 else 0) + m"
    by (auto split: option.splits)
  with Cons.IH [of m] count_passed_bound [of post cs m] show ?case by auto
qed simp

lemma evaluate_success:
  "evaluate_checks checks post = Some OutSuccess \<longleftrightarrow>
     (\<forall>c \<in> set checks. check_passes (dget_or post (chk_field c) PyNone) (chk_operator c) (chk_expected c) = Some True)"
proof (cases "count_passed post checks")
  case None
  then obtain c where c: "c \<in> set checks"
    "check_passes (dget_or post (chk_field c) PyNone) (chk_operator c) (chk_expected c) = None"
    by (induction checks) (auto split: option.splits)
  then have "evaluate_checks checks post = None" using None by (auto simp: evaluate_checks_def)
  with c show ?thesis by (metis option.distinct(1))
next
  case (Some n)
  with count_passed_all [OF Some] show ?thesis by (auto simp: evaluate_checks_def)
qed

subsection \<open>The two-ended probe\<close>

datatype fault_location = LocalPort | RemotePort | Cable | ProbeInconclusive

definition error_fields :: "string list" where
  "error_fields = [''crc_errors'', ''fcs_errors'', ''interface_resets'', ''rx_errors'']"

definition has_significant_errors :: "pydict \<Rightarrow> bool" where
  "has_significant_errors errors \<longleftrightarrow>
     (\<exists>f \<in> set error_fields. case py_number (dget_or errors f (PyInt 0)) of None \<Rightarrow> False | Some x \<Rightarrow> 0 < x)"

definition diagnose :: "pydict \<Rightarrow> pydict \<Rightarrow> fault_location" where
  "diagnose local_errors remote_errors =
     (let l = has_significant_errors local_errors; r = has_significant_errors remote_errors in
      if l \<and> \<not> r then LocalPort
      else if r \<and> \<not> l then RemotePort
      else if l \<and> r then Cable
      else ProbeInconclusive)"

definition error_counters_from_interface :: "int option \<Rightarrow> int option \<Rightarrow> pydict" where
  "error_counters_from_interface crc rx =
     [(''crc_errors'', PyInt (case crc of None \<Rightarrow> 0 | Some n \<Rightarrow> n)), (''fcs_errors'', PyInt 0),
      (''interface_resets'', PyInt 0), (''rx_errors'', PyInt (case rx of None \<Rightarrow> 0 | Some n \<Rightarrow> n))]"

subsection \<open>Outcome counters\<close>

record outcome_stats =
  success_count :: nat
  failure_count :: nat
  rollback_count :: nat
  total_executions :: nat

definition init_stats :: outcome_stats where
  "init_stats = \<lparr>success_count = 0, failure_count = 0, rollback_count = 0, total_executions = 0\<rparr>"

definition success_rate :: "outcome_stats \<Rightarrow> real" where
  "success_rate s = (if total_executions s = 0 then 1
     else real (success_count s) / real (total_executions s))"

definition record_outcome :: "string \<Rightarrow> outcome_stats \<Rightarrow> outcome_stats" where
  "record_outcome out s =
     (let s1 = s\<lparr>total_executions := total_executions s + 1\<rparr> in
      if out = ''SUCCESS'' then s1\<lparr>success_count := success_count s1 + 1\<rparr>
      else if out = ''FAILURE'' \<or> out = ''UNKNOWN'' then s1\<lparr>failure_count := failure_count s1 + 1\<rparr>
      else if out = ''ROLLBACK_TRIGGERED'' then s1\<lparr>rollback_count := rollback_count s1 + 1\<rparr>
      else s1)"

definition stats_inv :: "outcome_stats \<Rightarrow> bool" where
  "stats_inv s \<longleftrightarrow> success_count s + failure_count s + rollback_count s \<le> total_executions s"

interpretation stats: inv_system record_outcome stats_inv "\<lambda>_. True"
  by unfold_locales (simp add: stats_inv_def record_outcome_def Let_def)

end
