(* ===== verification/Gate.thy ===== *)
theory Gate
  imports Preconditions Auth_Lease Budgets Blast_Radius Peer_Tracker Action_Executor Verification
begin

text \<open>
  The autonomy gate of the agent (\<open>src/src/harkeniq/agent.py\<close>, lines 1225 to 1450): what it knows
  when an action is decided, the chain of checks, the refusal, and the gated execution with its
  accounting. Device execution is the executor's \<open>execute\<close>; config restores run through the
  playbook pipeline, which is a parameter here. The executor exists from startup on. The two clocks the chain reads (wall and
  monotonic) are arguments.
\<close>

datatype gate_reason =
    PreconditionsFailed "check_failure list"
  | StopSwitchActive
  | LeaseFullyExpired
  | LeaseRefusesAutonomous lease_verdict
  | RateLimited

datatype agent_error = RefusedByGate gate_reason | Failed fault

datatype authorization = HumanApproval | AutonomousGrant

text \<open>
  The fields of the agent that the gate reads. \<open>ag_health\<close> is \<open>health_summary()\<close>, empty before
  the first verdicts; \<open>ag_rollup\<close> is the device's own rollup; \<open>ag_cap_policy\<close> holds
  \<open>min_watts\<close> and \<open>max_watts\<close>.
\<close>

record 'w agent =
  ag_executor :: "'w executor"
  ag_lease :: "auth_lease option"
  ag_sm_connected :: bool
  ag_budget :: budget_enforcer
  ag_limiter :: limiter
  ag_health :: "(string, string) dict"
  ag_rollup :: string
  ag_cap_policy :: "(int option \<times> int option) option"
  ag_tracker :: "peer_tracker option"
  ag_poll_failures :: int
  ag_sel_forwarded :: bool
  ag_verifications :: "(string \<times> real) list"

definition overall_of :: "(string, string) dict \<Rightarrow> string \<Rightarrow> string" where
  "overall_of health rollup =
     (if health \<noteq> []
      then (if \<forall>v \<in> set (dvals health). v = ''OK'' then ''ok'' else ''degraded'')
      else (let raw = upper rollup in
            if raw = ''OK'' then ''ok'' else if raw = [] \<or> raw = ''UNKNOWN'' then ''unknown''
            else ''degraded''))"

definition alarming :: "string option \<Rightarrow> bool" where
  "alarming v \<longleftrightarrow> v = Some ''WARNING'' \<or> v = Some ''CRITICAL''"

definition precondition_states :: "'w agent \<Rightarrow> 'err action \<Rightarrow> device_view \<times> agent_view" where
  "precondition_states g act =
     (\<lparr>sel_percent_full = None,
       dv_firmware_updating = Some False,
       thermal_event = Some (alarming (dget (ag_health g) ''thermal'')),
       power_event = Some (alarming (dget (ag_health g) ''psu'')),
       cap_target = (case dget (act_params act) ''target_watts'' of None \<Rightarrow> None | Some s \<Rightarrow> int_of_text s),
       cap_policy_min = (case ag_cap_policy g of None \<Rightarrow> None | Some (lo, _) \<Rightarrow> Some (opt_or lo 0)),
       cap_policy_max = (case ag_cap_policy g of None \<Rightarrow> None | Some (_, hi) \<Rightarrow> Some (opt_or hi 0)),
       overall_health = Some (overall_of (ag_health g) (ag_rollup g)),
       target_interface = None, dv_interfaces = None, diagnosis_confidence = None,
       diagnosis_classification = None, prestate_exists = None, counters_snapshot = None\<rparr>,
      \<lparr>sel_forwarded = Some (ag_sel_forwarded g),
       bmc_poll_failures = Some (ag_poll_failures g),
       alive_peer_count = Some (case ag_tracker g of None \<Rightarrow> 0
         | Some t \<Rightarrow> int (length (filter (\<lambda>p. peer_status p = PeerAlive) (get_peers t)))),
       os_heartbeat_absent = Some 0,
       mgmt_interfaces = None, redundancy_verified = None, corroborating_peers = None,
       network_tracker = None\<rparr>)"

definition authorize_execution ::
  "time \<Rightarrow> time \<Rightarrow> 'w agent \<Rightarrow> 'err action \<Rightarrow> authorization \<Rightarrow> gate_reason option" where
  "authorize_execution clock tick g act auth =
     (if action_value (act_type act) \<notin> set (ex_allow (ag_executor g)) then None
      else (let (dv, av) = precondition_states g act;
                pre = fst (check_preconditions clock (act_type act) dv av) in
        if \<not> passed pre then Some (PreconditionsFailed (failed_checks pre))
        else if (case ag_lease g of None \<Rightarrow> False | Some l \<Rightarrow> stop_switch l) \<or> bu_stop (ag_budget g)
        then Some StopSwitchActive
        else (let lease_verdict = (case ag_lease g of
                  None \<Rightarrow> None
                | Some l \<Rightarrow>
                    (let v = allows_action l (action_value (act_type act)) (action_risk (act_type act))
                               (ag_sm_connected g) None clock in
                     if v = Deny \<and> is_fully_expired None clock l then Some LeaseFullyExpired
                     else if v \<noteq> Execute \<and> auth = AutonomousGrant then Some (LeaseRefusesAutonomous v)
                     else None)) in
          case lease_verdict of
            Some r \<Rightarrow> Some r
          | None \<Rightarrow> if \<not> br_allows (act_type act) None tick (ag_limiter g) then Some RateLimited
                    else None)))"

definition refuse_action :: "time \<Rightarrow> gate_reason \<Rightarrow> agent_error action \<Rightarrow> agent_error action \<times> audit_entry list" where
  "refuse_action stamp reason act =
     (let (out, act') = finish act (action_target act) False (Some (RefusedByGate reason)) 0 stamp
      in (act', [(action_value (act_type act), action_target act, ''refused'')]))"

text \<open>
  \<open>config_run\<close> is \<open>_execute_config_restore_playbook\<close>. An exception that escapes the executor ends the
  call before the accounting. A scheduled verification is the action's identifier with its delay.
\<close>

definition execute_gated ::
  "(string \<Rightarrow> pyval option) \<Rightarrow> (agent_error action \<Rightarrow> 'w \<Rightarrow> agent_error action \<times> audit_entry list \<times> 'w) \<Rightarrow>
     clocks \<Rightarrow> time \<Rightarrow> time \<Rightarrow> authorization \<Rightarrow> agent_error action \<Rightarrow> 'w agent \<Rightarrow> 'w \<Rightarrow>
     agent_error action \<times> audit_entry list \<times> 'w agent \<times> 'w" where
  "execute_gated json_loads config_run ck clock tick auth act g w =
     (case authorize_execution clock tick g act auth of
        Some reason \<Rightarrow> (let (act', audits) = refuse_action (ck_stamp ck) reason act in (act', audits, g, w))
      | None \<Rightarrow>
          (let (returned, act', audits, w') =
             (if act_type act = ConfigRestore
              then (let (a, au, w1) = config_run act w in (True, a, au, w1))
              else (let (r, a, au, w1) = execute json_loads Failed ck (ag_executor g) act w
                    in (r \<noteq> None, a, au, w1)))
           in if returned \<and> (case act_outcome act' of None \<Rightarrow> False | Some out \<Rightarrow> out_success out)
              then (act', audits,
                    g\<lparr>ag_budget := bu_consume (act_type act) (ag_budget g),
                      ag_limiter := br_record (act_type act) None tick (ag_limiter g),
                      ag_verifications := ag_verifications g @
                        (case dget verification_windows (act_type act) of
                           None \<Rightarrow> [] | Some d \<Rightarrow> [(act_id act, d)])\<rparr>, w')
              else (act', audits, g, w')))"

subsection \<open>What an authorization means\<close>

definition preconditions_hold :: "time \<Rightarrow> 'w agent \<Rightarrow> 'err action \<Rightarrow> bool" where
  "preconditions_hold clock g act =
     passed (fst (check_preconditions clock (act_type act) (fst (precondition_states g act))
       (snd (precondition_states g act))))"

definition stopped :: "'w agent \<Rightarrow> bool" where
  "stopped g \<longleftrightarrow> (case ag_lease g of None \<Rightarrow> False | Some l \<Rightarrow> stop_switch l) \<or> bu_stop (ag_budget g)"

text \<open>The order of the questions left out: preconditions, stop switch, a lease that is held, rate limit.\<close>

definition gate_admits :: "time \<Rightarrow> time \<Rightarrow> 'w agent \<Rightarrow> 'err action \<Rightarrow> authorization \<Rightarrow> bool" where
  "gate_admits clock tick g act auth \<longleftrightarrow> preconditions_hold clock g act \<and> \<not> stopped g \<and>
     (case ag_lease g of
        None \<Rightarrow> True
      | Some l \<Rightarrow> (let v = allows_action l (action_value (act_type act)) (action_risk (act_type act)) (ag_sm_connected g) None clock
          in \<not> (v = Deny \<and> is_fully_expired None clock l) \<and> (auth = AutonomousGrant \<longrightarrow> v = Execute))) \<and>
     br_allows (act_type act) None tick (ag_limiter g)"

lemma gate_admits_iff:
  assumes "action_value (act_type act) \<in> set (ex_allow (ag_executor g))"
  shows "authorize_execution clock tick g act auth = None \<longleftrightarrow> gate_admits clock tick g act auth"
  using assms
  by (auto simp: authorize_execution_def preconditions_hold_def stopped_def gate_admits_def Let_def
      case_prod_unfold split: option.split)

lemma execute_gated_refused:
  assumes "authorize_execution clock tick g act auth = Some reason"
  shows "execute_gated json_loads config_run ck clock tick auth act g w =
    (fst (refuse_action (ck_stamp ck) reason act), snd (refuse_action (ck_stamp ck) reason act), g, w)"
  using assms by (simp add: execute_gated_def case_prod_unfold Let_def)

lemma execute_gated_world:
  assumes "act_type act \<noteq> ConfigRestore" and "authorize_execution clock tick g act auth = None"
  shows "snd (snd (snd (execute_gated json_loads config_run ck clock tick auth act g w))) =
    snd (snd (snd (execute json_loads Failed ck (ag_executor g) act w)))"
  using assms by (simp add: execute_gated_def case_prod_unfold Let_def)

lemma refuse_action_status:
  "act_status (fst (refuse_action stamp reason act)) = ActFailed"
  "map (snd \<circ> snd) (snd (refuse_action stamp reason act)) = [''refused'']"
  by (simp_all add: refuse_action_def Let_def case_prod_unfold)

subsection \<open>Inputs the agent cannot observe\<close>

text \<open>The classes whose precondition needs an input that \<open>_precondition_states\<close> never supplies.\<close>

definition unobservable :: "action_type list" where
  "unobservable = [SelClear, PowerCycle, InterfaceReset, InterfaceDisable, InterfaceEnable, ClearCounters]"

lemma unobservable_fail:
  assumes "act_type act \<in> set unobservable"
  shows "\<not> preconditions_hold clock g act"
  using assms
  by (auto simp: unobservable_def preconditions_hold_def precondition_states_def check_preconditions_def
      verdict_def check_sel_clear_def check_power_cycle_def network_disruptive_common_def
      check_interface_disable_def check_interface_enable_def check_clear_counters_def note_if_def Let_def)

subsection \<open>Properties\<close>

text \<open>C22: What the gate lets pass, and what can change the device behind it. The gate admits an action exactly when its class is
  off the allow list, where the executor is left to refuse it, or its preconditions hold, no stop switch is on, a lease that is
  held is not both refusing and fully expired and says execute for work without a human approval, and the rate limit
  admits it; when no lease is held, none is asked. Whenever a gated execution changed the device, the class was
  in the allow list and all of that held, or it was a CONFIG_RESTORE off the list, which goes to its playbook. A refusal
  leaves device, budget and limiter as they were and fails the action with one audit entry.\<close>

theorem gate_protects_device:
  assumes "execute_gated json_loads config_run ck clock tick auth act g w = (act', audits, g', w')"
  shows "(authorize_execution clock tick g act auth = None \<longleftrightarrow>
        (action_value (act_type act) \<in> set (ex_allow (ag_executor g)) \<longrightarrow> gate_admits clock tick g act auth))
    \<and> (w' \<noteq> w \<longrightarrow>
        (if action_value (act_type act) \<in> set (ex_allow (ag_executor g)) then gate_admits clock tick g act auth
         else act_type act = ConfigRestore))
    \<and> (authorize_execution clock tick g act auth \<noteq> None \<longrightarrow>
      w' = w \<and> g' = g \<and> act_status act' = ActFailed \<and> map (snd \<circ> snd) audits = [''refused''])"
proof -
  let ?listed = "action_value (act_type act) \<in> set (ex_allow (ag_executor g))"
  have adm: "authorize_execution clock tick g act auth = None \<longleftrightarrow> (?listed \<longrightarrow> gate_admits clock tick g act auth)"
    using gate_admits_iff [of act g clock tick auth] by (cases ?listed) (simp_all add: authorize_execution_def)
  moreover have "if ?listed then gate_admits clock tick g act auth else act_type act = ConfigRestore" if c: "w' \<noteq> w"
  proof (cases "authorize_execution clock tick g act auth")
    case None
    have "act_type act = ConfigRestore" if l: "\<not> ?listed"
    proof (rule ccontr)
      assume "act_type act \<noteq> ConfigRestore"
      then have "w' = snd (snd (snd (execute json_loads Failed ck (ag_executor g) act w)))"
        using execute_gated_world [OF _ None, of json_loads config_run ck w] assms(1) by simp
      then show False using l c by (simp add: execute_refused)
    qed
    then show ?thesis using None adm by simp
  next
    case (Some r)
    then show ?thesis using assms(1) c by (simp add: execute_gated_refused)
  qed
  moreover have "w' = w \<and> g' = g \<and> act_status act' = ActFailed \<and> map (snd \<circ> snd) audits = [''refused'']"
    if "authorize_execution clock tick g act auth \<noteq> None"
    using that assms(1) refuse_action_status by (auto simp: execute_gated_refused)
  ultimately show ?thesis by blast
qed

text \<open>Classes that need an input the agent never observes (SEL fill, OS heartbeat, the target
  interface, a pre-state, a counter snapshot) are never executed by the gate, whatever the lease,
  the approval and the configuration say.\<close>

theorem unobservable_never_executed:
  assumes "execute_gated json_loads config_run ck clock tick auth act g w = (act', audits, g', w')"
    and "act_type act \<in> set unobservable"
  shows "w' = w \<and> g' = g \<and> act_status act' = ActFailed"
proof -
  have nc: "act_type act \<noteq> ConfigRestore" using assms(2) by (auto simp: unobservable_def)
  show ?thesis
  proof (cases "authorize_execution clock tick g act auth")
    case None
    then have no: "action_value (act_type act) \<notin> set (ex_allow (ag_executor g))"
      using unobservable_fail [OF assms(2)] gate_admits_iff unfolding gate_admits_def by blast
    with None nc assms(1) show ?thesis
      by (auto simp: execute_gated_def execute_refused Let_def split: prod.splits option.splits)
  next
    case (Some r)
    with assms(1) show ?thesis
      using refuse_action_status [of "ck_stamp ck" r act] by (auto simp: execute_gated_refused)
  qed
qed

text \<open>Without a lease, work that rests only on an autonomy grant passes exactly when the same work
  with a human approval would: the gate asks a lease only when one is held.\<close>

theorem grant_without_lease_passes:
  assumes "ag_lease g = None"
  shows "authorize_execution clock tick g act AutonomousGrant =
    authorize_execution clock tick g act HumanApproval"
  by (simp add: authorize_execution_def Let_def case_prod_unfold assms)

text \<open>The gate does not ask the budget: whatever runs remain in the local counters, the answer is
  the same as long as the stop switch is.\<close>

theorem gate_ignores_budget:
  assumes "bu_stop b = bu_stop (ag_budget g)"
  shows "authorize_execution clock tick (g\<lparr>ag_budget := b\<rparr>) act auth =
    authorize_execution clock tick g act auth"
proof -
  have "precondition_states (g\<lparr>ag_budget := b\<rparr>) act = precondition_states g act"
    by (simp add: precondition_states_def)
  then show ?thesis
    unfolding authorize_execution_def by (simp add: assms case_prod_unfold Let_def cong: option.case_cong)
qed

text \<open>With no power cap policy configured, or a target that is not an integer, a power cap action
  passes its preconditions during a thermal or power event whatever its target is.\<close>

theorem cap_unchecked_without_policy:
  assumes "act_type act = PowerCapAdjust"
    and "alarming (dget (ag_health g) ''thermal'') \<or> alarming (dget (ag_health g) ''psu'')"
    and "ag_cap_policy g = None \<or>
      (case dget (act_params act) ''target_watts'' of None \<Rightarrow> True | Some s \<Rightarrow> int_of_text s = None)"
  shows "preconditions_hold clock g act"
  using assms
  by (auto simp: preconditions_hold_def precondition_states_def check_preconditions_def
      check_power_cap_adjust_def verdict_def note_if_def Let_def split: option.splits)

subsection \<open>Witnesses\<close>

definition demo_agent :: "nat agent" where
  "demo_agent =
     \<lparr>ag_executor = demo_executor demo_watts, ag_lease = None, ag_sm_connected = True,
      ag_budget = init_budgets, ag_limiter = init_limiter None, ag_health = [(''thermal'', ''WARNING'')],
      ag_rollup = '''', ag_cap_policy = None, ag_tracker = None, ag_poll_failures = 0,
      ag_sel_forwarded = False, ag_verifications = []\<rparr>"

definition gated_action :: "action_type \<Rightarrow> (string, string) dict \<Rightarrow> agent_error action" where
  "gated_action ty ps =
     \<lparr>act_id = ''x'', act_type = ty, act_params = ps, act_status = ActApproved, act_sensor_id = ''s'',
      act_skill_name = '''', act_severity = SevUnknown, act_proposed_at = 0, act_approved_at = None,
      act_completed_at = None, act_outcome = None\<rparr>"

lemma demo_agent_allows: "set (ex_allow (ag_executor demo_agent)) = set dispatch_actions"
  by (simp add: demo_agent_def demo_executor_def make_executor_def vendor_ids_def)

lemma gated_fan_reset_changes:
  "snd (snd (snd (execute (\<lambda>_. None) Failed demo_clocks (ag_executor demo_agent)
     (gated_action FanReset []) 0))) = 1"
  by (simp add: execute_def demo_agent_def demo_executor_def make_executor_def vendor_ids_def
      dispatch_actions_def gated_action_def dispatch_def fan_reset_def seq_def send_def demo_watts_def
      ret_def Let_def split: prod.split)

lemma fan_reset_authorized:
  "authorize_execution 0 0 demo_agent (gated_action FanReset []) HumanApproval = None"
  by (simp add: authorize_execution_def demo_agent_def gated_action_def check_preconditions_def verdict_def
      init_budgets_def br_allows_def init_limiter_def default_limits_def in_window_def Let_def
      split: prod.split)

theorem gate_protects_device_witness:
  "preconditions_hold 0 demo_agent (gated_action FanReset []) \<and> br_allows FanReset None 0 (ag_limiter demo_agent)"
proof -
  obtain act' audits g' w' where e: "execute_gated (\<lambda>_. None) (\<lambda>a w. (a, [], w)) demo_clocks 0 0 HumanApproval
      (gated_action FanReset []) demo_agent 0 = (act', audits, g', w')"
    by (metis prod_cases4)
  have t: "act_type (gated_action FanReset []) = FanReset" by (simp add: gated_action_def)
  have "w' = 1"
    using execute_gated_world [OF _ fan_reset_authorized, of "\<lambda>_. None" "\<lambda>a w. (a, [], w)" demo_clocks 0]
      gated_fan_reset_changes by (simp add: e t)
  moreover have "action_value FanReset \<in> set (ex_allow (ag_executor demo_agent))" unfolding demo_agent_allows by (simp add: dispatch_actions_def)
  ultimately have "gate_admits 0 0 demo_agent (gated_action FanReset []) HumanApproval"
    using gate_protects_device [OF e, THEN conjunct2, THEN conjunct1] by (simp add: t)
  then show ?thesis by (simp add: gate_admits_def t)
qed

lemma unobservable_never_executed_witness:
  "snd (snd (snd (execute_gated (\<lambda>_. None) (\<lambda>a w. (a, [], w)) demo_clocks 0 0 HumanApproval
      (gated_action SelClear []) demo_agent 0))) = 0"
proof -
  obtain act' audits g' w' where e: "execute_gated (\<lambda>_. None) (\<lambda>a w. (a, [], w)) demo_clocks 0 0 HumanApproval
      (gated_action SelClear []) demo_agent 0 = (act', audits, g', w')"
    by (metis prod_cases4)
  have "act_type (gated_action SelClear []) \<in> set unobservable" by (simp add: gated_action_def unobservable_def)
  from unobservable_never_executed [OF e this] show ?thesis by (simp add: e)
qed

lemma grant_without_lease_passes_witness:
  "authorize_execution 0 0 demo_agent (gated_action FanReset []) AutonomousGrant = None"
  using grant_without_lease_passes [of demo_agent 0 0 "gated_action FanReset []"] fan_reset_authorized
  by (simp add: demo_agent_def)

lemma gate_ignores_budget_witness:
  "authorize_execution 0 0 (demo_agent\<lparr>ag_budget := update_from_lease 0 [(''FAN_RESET'', 0)] False init_budgets\<rparr>)
     (gated_action FanReset []) HumanApproval = None"
  using gate_ignores_budget [of "update_from_lease 0 [(''FAN_RESET'', 0)] False init_budgets" demo_agent 0 0
      "gated_action FanReset []" HumanApproval] fan_reset_authorized
  by (simp add: demo_agent_def update_from_lease_def init_budgets_def)

lemma cap_unchecked_without_policy_witness:
  "preconditions_hold 0 demo_agent (gated_action PowerCapAdjust [(''target_watts'', ''999999'')])"
  by (rule cap_unchecked_without_policy) (simp_all add: gated_action_def demo_agent_def alarming_def)

end
