(* ===== verification/Playbooks.thy ===== *)
theory Playbooks
  imports Verification
begin

text \<open>
  Multi-step playbooks (\<open>src/src/harkeniq/actions/playbook.py\<close>) and their executor
  (\<open>src/src/harkeniq/actions/playbook_executor.py\<close>). The environment of an execution is a record
  of functions on a world: the action executor, the credential provider, the reader of the device
  state, the clock, and the passing of time in a wait. An exception that escapes (a state reader or
  a rollback that raises, a check on unordered types) ends the execution where it is. The
  checkpoint is the list of the states that were persisted.
\<close>

subsection \<open>Playbooks and their executions\<close>

record playbook_step =
  st_index :: int
  st_action :: action_type
  st_description :: string
  st_params :: "(string, string) dict"
  st_preconditions :: "check list"
  st_verification :: "check list"
  st_rollback :: "action_type option"
  st_credential :: bool
  st_wait :: real

datatype step_error =
  PreconditionFailed string | NoCredentials | ActionFailed string | NoExecutor | VerificationFailed

record step_outcome =
  so_index :: int
  so_action :: action_type
  so_success :: bool
  so_error :: "step_error option"
  so_duration_ms :: real
  so_pre :: pydict
  so_post :: pydict
  so_rolled_back :: bool
  so_timestamp :: time

record playbook =
  pb_id :: string
  pb_name :: string
  pb_description :: string
  pb_devices :: "string list"
  pb_steps :: "playbook_step list"
  pb_risk :: string

datatype run_error = StepError "step_error option" | RollbackError nat "step_error option"

record execution =
  pe_id :: string
  pe_playbook :: string
  pe_name :: string
  pe_device :: string
  pe_current :: nat
  pe_outcomes :: "step_outcome list"
  pe_status :: playbook_status
  pe_started :: time
  pe_completed :: "time option"
  pe_error :: "run_error option"

definition is_terminal :: "execution \<Rightarrow> bool" where
  "is_terminal x = (pe_status x \<in> {PbCompleted, PbFailed, PbRolledBack})"

definition record_step :: "step_outcome \<Rightarrow> execution \<Rightarrow> execution" where
  "record_step out x =
     (let x1 = x\<lparr>pe_outcomes := pe_outcomes x @ [out]\<rparr> in
      if so_success out then x1
      else x1\<lparr>pe_status := (if so_rolled_back out then PbRolledBack else PbPaused),
              pe_error := Some (StepError (so_error out))\<rparr>)"

definition complete :: "time \<Rightarrow> execution \<Rightarrow> execution" where
  "complete clock x = x\<lparr>pe_status := PbCompleted, pe_completed := Some clock\<rparr>"

definition fail_execution :: "time \<Rightarrow> run_error \<Rightarrow> execution \<Rightarrow> execution" where
  "fail_execution clock reason x =
     x\<lparr>pe_status := PbFailed, pe_error := Some reason, pe_completed := Some clock\<rparr>"

definition create_execution :: "string \<Rightarrow> time \<Rightarrow> playbook \<Rightarrow> string \<Rightarrow> execution" where
  "create_execution uuid clock pb device =
     \<lparr>pe_id = uuid, pe_playbook = pb_id pb, pe_name = pb_name pb, pe_device = device,
      pe_current = 0, pe_outcomes = [], pe_status = PbRunning, pe_started = clock,
      pe_completed = None, pe_error = None\<rparr>"

subsection \<open>The built-in playbooks\<close>

definition plain_step :: "int \<Rightarrow> action_type \<Rightarrow> string \<Rightarrow> (string, string) dict \<Rightarrow> check list \<Rightarrow> real \<Rightarrow> playbook_step" where
  "plain_step i a d ps vs wait =
     \<lparr>st_index = i, st_action = a, st_description = d, st_params = ps, st_preconditions = [],
      st_verification = vs, st_rollback = None, st_credential = False, st_wait = wait\<rparr>"

definition bmc_recovery :: playbook where
  "bmc_recovery =
     \<lparr>pb_id = ''builtin-bmc-recovery'', pb_name = ''BMC Recovery'',
      pb_description = ''Clear SEL, reset BMC, verify responsiveness'', pb_devices = [''*''],
      pb_steps =
       [plain_step 0 SelClear ''Clear System Event Log to free BMC resources'' []
          [equals ''SEL accessible and empty'' ''sel_entry_count'' (PyInt 0)] 30,
        plain_step 1 BmcReset ''Reset BMC to recover from hung state'' []
          [equals ''BMC responds to Redfish'' ''bmc_responsive'' (PyBool True)] 120],
      pb_risk = ''medium''\<rparr>"

definition thermal_mitigation :: playbook where
  "thermal_mitigation =
     \<lparr>pb_id = ''builtin-thermal-mitigation'', pb_name = ''Thermal Mitigation'',
      pb_description = ''Apply power cap then reset fans to mitigate thermal event'', pb_devices = [''*''],
      pb_steps =
       [plain_step 0 PowerCapAdjust ''Reduce power consumption to lower thermal output''
          [(''target_watts'', ''400'')]
          [equals ''Power within target'' ''power_within_target'' (PyBool True)] 30,
        plain_step 1 FanReset ''Reset fan control to optimal cooling profile'' []
          [equals ''Fan RPM recovered'' ''fan_rpm_healthy'' (PyBool True)] 60],
      pb_risk = ''medium''\<rparr>"

definition disk_replacement_prep :: playbook where
  "disk_replacement_prep =
     \<lparr>pb_id = ''builtin-disk-replacement-prep'', pb_name = ''Disk Replacement Preparation'',
      pb_description = ''Identify failing drive and collect diagnostics for dispatch'', pb_devices = [''*''],
      pb_steps =
       [plain_step 0 IdentifyLed ''Blink LED on the failing drive for physical identification'' [] [] 5,
        plain_step 1 CollectDiagnostics ''Collect full system diagnostics for the dispatch ticket'' [] [] 5],
      pb_risk = ''low''\<rparr>"

definition builtin_playbooks :: "(string, playbook) dict" where
  "builtin_playbooks = map (\<lambda>p. (pb_id p, p)) [bmc_recovery, thermal_mitigation, disk_replacement_prep]"

subsection \<open>One step\<close>

text \<open>
  The action executor answers success with an error text, or raises (\<open>Inl\<close>); the state reader
  answers \<open>None\<close> when it raises; the credential provider says whether credentials came.
\<close>

record 'w pb_env =
  env_execute :: "(action_type \<Rightarrow> (string, string) dict \<Rightarrow> 'w \<Rightarrow> (string + bool \<times> string) \<times> 'w) option"
  env_credentials :: "(string \<Rightarrow> 'w \<Rightarrow> bool \<times> 'w) option"
  env_state :: "(string \<Rightarrow> 'w \<Rightarrow> pydict option \<times> 'w) option"
  env_clock :: "'w \<Rightarrow> time"
  env_sleep :: "real \<Rightarrow> 'w \<Rightarrow> 'w"
  env_wait_scale :: real
  env_dry_run :: bool

definition current_state :: "'w pb_env \<Rightarrow> string \<Rightarrow> 'w \<Rightarrow> pydict option \<times> 'w" where
  "current_state env device w =
     (case env_state env of None \<Rightarrow> (Some [], w) | Some get \<Rightarrow> get device w)"

text \<open>The first check that does not pass, \<open>Inl\<close> when a check raises.\<close>

fun first_failing :: "pydict \<Rightarrow> check list \<Rightarrow> unit + check option" where
  "first_failing state [] = Inr None"
| "first_failing state (c # cs) =
     (case check_passes (dget_or state (chk_field c) PyNone) (chk_operator c) (chk_expected c) of
        None \<Rightarrow> Inl ()
      | Some True \<Rightarrow> first_failing state cs
      | Some False \<Rightarrow> Inr (Some c))"

definition run_action ::
  "'w pb_env \<Rightarrow> playbook_step \<Rightarrow> 'w \<Rightarrow> (string + bool \<times> string) \<times> 'w" where
  "run_action env s w =
     (case env_execute env of
        None \<Rightarrow> (Inr (True, []), w)
      | Some exec \<Rightarrow> if env_dry_run env then (Inr (True, []), w) else exec (st_action s) (st_params s) w)"

definition execute_rollback ::
  "'w pb_env \<Rightarrow> action_type \<Rightarrow> 'w \<Rightarrow> bool option \<times> 'w" where
  "execute_rollback env a w =
     (case env_execute env of
        None \<Rightarrow> (Some True, w)
      | Some exec \<Rightarrow>
          if env_dry_run env then (Some True, w)
          else (case exec a [] w of (Inl _, w') \<Rightarrow> (None, w') | (Inr (ok, _), w') \<Rightarrow> (Some ok, w')))"

definition outcome_of ::
  "playbook_step \<Rightarrow> step_error option \<Rightarrow> pydict \<Rightarrow> pydict \<Rightarrow> real \<Rightarrow> time \<Rightarrow> step_outcome" where
  "outcome_of s err pre post dur now =
     \<lparr>so_index = st_index s, so_action = st_action s, so_success = (err = None), so_error = err,
      so_duration_ms = dur, so_pre = pre, so_post = post, so_rolled_back = False,
      so_timestamp = now\<rparr>"

text \<open>The preconditions and credentials of a step: \<open>Inl\<close> is the outcome that ends it.\<close>

definition step_guard ::
  "'w pb_env \<Rightarrow> playbook_step \<Rightarrow> string \<Rightarrow> 'w \<Rightarrow> (step_outcome option + unit) \<times> 'w" where
  "step_guard env s device w =
     (let now = env_clock env w;
          credentials = (\<lambda>w1.
            if st_credential s
            then (case env_credentials env of
                None \<Rightarrow> (Inr (), w1)
              | Some get \<Rightarrow>
                  (let (ok, w2) = get device w1 in
                   if ok then (Inr (), w2) else (Inl (Some (outcome_of s (Some NoCredentials) [] [] 0 now)), w2)))
            else (Inr (), w1)) in
      if st_preconditions s = [] then credentials w
      else (case current_state env device w of
          (None, w1) \<Rightarrow> (Inl None, w1)
        | (Some state, w1) \<Rightarrow>
            (case first_failing state (st_preconditions s) of
               Inl _ \<Rightarrow> (Inl None, w1)
             | Inr (Some c) \<Rightarrow>
                 (Inl (Some (outcome_of s (Some (PreconditionFailed (chk_description c))) state [] 0 now)), w1)
             | Inr None \<Rightarrow> credentials w1)))"

text \<open>After the action: the wait, the state read and the verification.\<close>

definition step_verify ::
  "'w pb_env \<Rightarrow> playbook_step \<Rightarrow> string \<Rightarrow> time \<Rightarrow> pydict \<Rightarrow> 'w \<Rightarrow> step_outcome option \<times> 'w" where
  "step_verify env s device started pre w =
     (let wait = st_wait s * env_wait_scale env;
          w1 = (if 0 < wait \<and> \<not> env_dry_run env then env_sleep env wait w else w) in
      case current_state env device w1 of
        (None, w2) \<Rightarrow> (None, w2)
      | (Some post, w2) \<Rightarrow>
          (let dur = (env_clock env w2 - started) * 1000;
               ok = (Some (outcome_of s None pre post dur started), w2) in
           if st_verification s \<noteq> [] \<and> \<not> env_dry_run env
           then (case first_failing post (st_verification s) of
               Inl _ \<Rightarrow> (None, w2)
             | Inr (Some _) \<Rightarrow> (Some (outcome_of s (Some VerificationFailed) pre post dur started), w2)
             | Inr None \<Rightarrow> ok)
           else ok))"

definition execute_step ::
  "'w pb_env \<Rightarrow> playbook_step \<Rightarrow> string \<Rightarrow> 'w \<Rightarrow> step_outcome option \<times> 'w" where
  "execute_step env s device w =
     (let started = env_clock env w in
      case step_guard env s device w of
        (Inl ended, w1) \<Rightarrow> (ended, w1)
      | (Inr _, w1) \<Rightarrow>
          (case current_state env device w1 of
             (None, w2) \<Rightarrow> (None, w2)
           | (Some pre, w2) \<Rightarrow>
               (case run_action env s w2 of
                  (Inl err, w3) \<Rightarrow>
                    (Some (outcome_of s (Some (ActionFailed err)) pre [] ((env_clock env w3 - started) * 1000) started), w3)
                | (Inr (ok, err), w3) \<Rightarrow>
                    if \<not> ok
                    then (Some (outcome_of s (Some (ActionFailed err)) pre [] ((env_clock env w3 - started) * 1000) started), w3)
                    else step_verify env s device started pre w3)))"

subsection \<open>A run\<close>

text \<open>
  The loop over the steps from index \<open>i\<close> on. The result is the execution, the states that were
  persisted on the way, whether an exception escaped, and the world.
\<close>

definition set_last_rolled_back :: "execution \<Rightarrow> execution" where
  "set_last_rolled_back x =
     x\<lparr>pe_outcomes := butlast (pe_outcomes x) @ [(last (pe_outcomes x))\<lparr>so_rolled_back := True\<rparr>],
       pe_status := PbRolledBack\<rparr>"

fun run_steps ::
  "'w pb_env \<Rightarrow> string \<Rightarrow> nat \<Rightarrow> playbook_step list \<Rightarrow> execution \<Rightarrow> 'w \<Rightarrow>
     execution \<times> execution list \<times> bool \<times> 'w" where
  "run_steps env device i [] x w = (complete (env_clock env w) x, [], False, w)"
| "run_steps env device i (s # ss) x w =
     (let x1 = x\<lparr>pe_current := i\<rparr> in
      case execute_step env s device w of
        (None, w1) \<Rightarrow> (x1, [], True, w1)
      | (Some out, w1) \<Rightarrow>
          (let x2 = record_step out x1 in
           if so_success out
           then (let (x3, ps, raised, w2) = run_steps env device (i + 1) ss x2 w1
                 in (x3, x2 # ps, raised, w2))
           else (case st_rollback s of
               None \<Rightarrow> (x2, [x2], False, w1)
             | Some a \<Rightarrow>
                 (case execute_rollback env a w1 of
                    (None, w2) \<Rightarrow> (x2, [x2], True, w2)
                  | (Some True, w2) \<Rightarrow> (set_last_rolled_back x2, [x2], False, w2)
                  | (Some False, w2) \<Rightarrow>
                      (fail_execution (env_clock env w2) (RollbackError i (so_error out)) x2, [x2], False, w2)))))"

definition execute_playbook ::
  "'w pb_env \<Rightarrow> string \<Rightarrow> playbook \<Rightarrow> string \<Rightarrow> nat \<Rightarrow> 'w \<Rightarrow> execution \<times> execution list \<times> bool \<times> 'w" where
  "execute_playbook env uuid pb device from_step w =
     (let x0 = (create_execution uuid (env_clock env w) pb device)\<lparr>pe_current := from_step\<rparr>;
          (x, ps, raised, w') = run_steps env device from_step (drop from_step (pb_steps pb)) x0 w
      in (x, x0 # ps @ (if raised then [] else [x]), raised, w'))"

definition resume ::
  "'w pb_env \<Rightarrow> string \<Rightarrow> execution \<Rightarrow> playbook \<Rightarrow> 'w \<Rightarrow> execution \<times> execution list \<times> bool \<times> 'w" where
  "resume env uuid x pb w =
     (if pe_status x \<noteq> PbPaused then (x, [], False, w)
      else (let next_step = pe_current x + 1 in
        if length (pb_steps pb) \<le> next_step then (complete (env_clock env w) x, [], False, w)
        else (let x1 = x\<lparr>pe_status := PbRunning\<rparr>;
                  (r, ps, raised, w') = execute_playbook env uuid pb (pe_device x) next_step w in
          if raised then (x1, ps, True, w')
          else (let x2 = fold record_step (pe_outcomes r) x1;
                    x3 = (if pe_status r = PbCompleted then complete (env_clock env w') x2
                          else x2\<lparr>pe_status := pe_status r, pe_error := pe_error r\<rparr>)
                in (x3, ps @ [x3], False, w')))))"

subsection \<open>What a run guarantees\<close>

text \<open>A finished run over \<open>ss\<close>, as a predicate on the outcomes it appended.\<close>

definition run_shape :: "nat \<Rightarrow> playbook_step list \<Rightarrow> step_outcome list \<Rightarrow> execution \<Rightarrow> bool" where
  "run_shape i ss outs x =
     (if pe_status x = PbCompleted
      then length outs = length ss \<and> (\<forall>out \<in> set outs. so_success out)
      else outs \<noteq> [] \<and> length outs \<le> length ss \<and> pe_current x + 1 = i + length outs \<and>
           (\<forall>out \<in> set (butlast outs). so_success out) \<and> \<not> so_success (last outs) \<and>
           pe_status x =
             (case st_rollback (ss ! (length outs - 1)) of
                None \<Rightarrow> PbPaused
              | Some _ \<Rightarrow> if so_rolled_back (last outs) then PbRolledBack else PbFailed))"

lemma outcome_not_rolled_back:
  assumes "execute_step env s device w = (Some out, w')"
  shows "\<not> so_rolled_back out"
  using assms
  by (auto simp: execute_step_def step_guard_def step_verify_def outcome_of_def Let_def
      split: prod.splits sum.splits option.splits if_splits)

lemma outcome_success_iff:
  assumes "execute_step env s device w = (Some out, w')"
  shows "so_success out \<longleftrightarrow> so_error out = None"
  using assms
  by (auto simp: execute_step_def step_guard_def step_verify_def outcome_of_def Let_def
      split: prod.splits sum.splits option.splits if_splits)

lemma run_shape_Cons:
  assumes "run_shape (i + 1) ss outs x" "so_success out"
  shows "run_shape i (s # ss) (out # outs) x"
  using assms by (cases outs) (auto simp: run_shape_def split: if_splits)

lemma record_step_fields [simp]:
  "pe_outcomes (record_step out x) = pe_outcomes x @ [out]"
  "pe_current (record_step out x) = pe_current x"
  "pe_device (record_step out x) = pe_device x"
  by (simp_all add: record_step_def Let_def)

lemma record_step_status:
  "pe_status (record_step out x) =
     (if so_success out then pe_status x else if so_rolled_back out then PbRolledBack else PbPaused)"
  by (simp add: record_step_def Let_def)

text \<open>What the failing step leaves, by its rollback.\<close>

lemma failed_step_shape:
  assumes out: "execute_step env s device w = (Some out, w1)" "\<not> so_success out"
    and run: "run_steps env device i (s # ss) x w = (x', ps, False, w')"
  shows "\<exists>out'. pe_outcomes x' = pe_outcomes x @ [out'] \<and> run_shape i (s # ss) [out'] x'"
proof -
  note plain = outcome_not_rolled_back[OF out(1)]
  show ?thesis
  proof (cases "st_rollback s")
    case None
    have "x' = record_step out (x\<lparr>pe_current := i\<rparr>)" using run out None by (simp add: Let_def)
    then show ?thesis using out plain None by (simp add: run_shape_def record_step_status)
  next
    case (Some a)
    obtain r w2 where r: "execute_rollback env a w1 = (r, w2)" by fastforce
    consider "r = Some True" | "r = Some False" using run out Some r by (cases r) (auto simp: Let_def)
    then show ?thesis
    proof cases
      case 1
      have "x' = set_last_rolled_back (record_step out (x\<lparr>pe_current := i\<rparr>))"
        using run out Some r 1 by (auto simp: Let_def)
      then show ?thesis using out Some by (simp add: run_shape_def set_last_rolled_back_def)
    next
      case 2
      have "x' = fail_execution (env_clock env w2) (RollbackError i (so_error out)) (record_step out (x\<lparr>pe_current := i\<rparr>))"
        using run out Some r 2 by (auto simp: Let_def)
      then show ?thesis using out Some plain by (simp add: run_shape_def fail_execution_def)
    qed
  qed
qed

lemma run_steps_shape:
  assumes "run_steps env device i ss x w = (x', ps, False, w')"
  shows "\<exists>outs. pe_outcomes x' = pe_outcomes x @ outs \<and> run_shape i ss outs x'"
  using assms
proof (induction ss arbitrary: i x w ps)
  case Nil
  then show ?case by (auto simp: complete_def run_shape_def)
next
  case (Cons s ss)
  obtain o1 w1 where e: "execute_step env s device w = (o1, w1)" by fastforce
  obtain out where out: "o1 = Some out" using Cons.prems e by (cases o1) auto
  show ?case
  proof (cases "so_success out")
    case False
    then show ?thesis using failed_step_shape[OF e[unfolded out] False Cons.prems] by blast
  next
    case True
    obtain ps' where "run_steps env device (i + 1) ss (record_step out (x\<lparr>pe_current := i\<rparr>)) w1 = (x', ps', False, w')"
      using Cons.prems e out True by (auto simp: Let_def split: prod.splits)
    from Cons.IH[OF this] obtain outs where
      outs: "pe_outcomes x' = (pe_outcomes x @ [out]) @ outs" "run_shape (i + 1) ss outs x'" by auto
    have "run_shape i (s # ss) (out # outs) x'" by (rule run_shape_Cons[OF outs(2) True])
    with outs(1) show ?thesis by (intro exI[of _ "out # outs"]) simp
  qed
qed

text \<open>C29: a run that no exception cuts short ends in one of four ways, decided by its outcomes.
It is completed exactly when every step from the start index on was executed and succeeded.
Otherwise it ended at the first step that failed, no step after it was executed, and it is paused
when that step has no rollback, rolled back when its rollback succeeded and failed when it did not.\<close>

theorem playbook_outcome:
  assumes "execute_playbook env uuid pb device k w = (x, ps, False, w')"
  shows "run_shape k (drop k (pb_steps pb)) (pe_outcomes x) x \<and> last ps = x"
proof -
  define x0 where "x0 = (create_execution uuid (env_clock env w) pb device)\<lparr>pe_current := k\<rparr>"
  obtain ps' where run: "run_steps env device k (drop k (pb_steps pb)) x0 w = (x, ps', False, w')"
    and ps: "ps = x0 # ps' @ [x]"
    using assms by (auto simp: execute_playbook_def x0_def Let_def split: prod.splits)
  have "pe_outcomes x0 = []" by (simp add: x0_def create_execution_def)
  with run_steps_shape[OF run] ps show ?thesis by auto
qed

text \<open>A device whose second power command fails: the world counts the actions it was asked for.\<close>

definition demo_env :: "nat \<Rightarrow> nat pb_env" where
  "demo_env bad =
     \<lparr>env_execute = Some (\<lambda>a ps n. (Inr (n + 1 \<noteq> bad, ''''), n + 1)),
      env_credentials = None, env_state = None, env_clock = real, env_sleep = (\<lambda>_ n. n),
      env_wait_scale = 0, env_dry_run = False\<rparr>"

definition demo_playbook :: playbook where
  "demo_playbook =
     \<lparr>pb_id = ''demo'', pb_name = ''demo'', pb_description = [], pb_devices = [''*''],
      pb_steps = [plain_step 0 SelClear [] [] [] 0, plain_step 1 BmcReset [] [] [] 0, plain_step 2 FanReset [] [] [] 0],
      pb_risk = ''low''\<rparr>"

lemmas run_simps =
  execute_playbook_def create_execution_def execute_step_def step_guard_def step_verify_def
  outcome_of_def current_state_def run_action_def record_step_def complete_def
  plain_step_def demo_env_def demo_playbook_def

theorem playbook_outcome_witness:
  "let (x, ps, raised, n) = execute_playbook (demo_env 2) ''u'' demo_playbook ''d'' 0 0 in
   \<not> raised \<and> n = 2 \<and> pe_status x = PbPaused \<and> run_shape 0 (pb_steps demo_playbook) (pe_outcomes x) x"
proof -
  obtain x ps where run: "execute_playbook (demo_env 2) ''u'' demo_playbook ''d'' 0 0 = (x, ps, False, 2)"
    and st: "pe_status x = PbPaused"
    by (simp add: run_simps Let_def)
  from playbook_outcome[OF run] run st show ?thesis by simp
qed

lemma fold_record_step_current [simp]:
  "pe_current (fold record_step outs x) = pe_current x"
  by (induction outs arbitrary: x) simp_all

lemma fold_record_step_device [simp]:
  "pe_device (fold record_step outs x) = pe_device x"
  by (induction outs arbitrary: x) simp_all

lemma resume_keeps_current:
  assumes "resume env uuid x pb w = (x', ps, raised, w')"
  shows "pe_current x' = pe_current x" and "pe_device x' = pe_device x"
  using assms by (auto simp: resume_def complete_def Let_def split: if_splits prod.splits)

lemma execute_playbook_first_persisted:
  "\<exists>rest. fst (snd (execute_playbook env uuid pb device k w)) =
     (create_execution uuid (env_clock env w) pb device)\<lparr>pe_current := k\<rparr> # rest"
  by (auto simp: execute_playbook_def Let_def split: prod.splits)

text \<open>resuming does not move the execution forward. \<open>resume\<close> merges the outcomes of the resumed
run into the paused execution but leaves its step index where it was, so when the resumed run pauses
again, after any number of further steps that succeeded, the next resume starts from the same step as
the first one did: it executes again steps whose success is already recorded.\<close>

theorem resume_repeats_steps:
  assumes first: "resume env uuid x pb w = (x', ps, False, w')"
    and again: "pe_status x' = PbPaused" "pe_current x + 1 < length (pb_steps pb)"
  shows "\<exists>rest. fst (snd (resume env uuid' x' pb w'')) =
           (create_execution uuid' (env_clock env w'') pb (pe_device x))\<lparr>pe_current := pe_current x + 1\<rparr> # rest"
proof -
  note same = resume_keeps_current[OF first]
  obtain r qs raised v where
    run: "execute_playbook env uuid' pb (pe_device x) (pe_current x + 1) w'' = (r, qs, raised, v)"
    by (metis prod_cases4)
  have "\<exists>rest. qs = (create_execution uuid' (env_clock env w'') pb (pe_device x))\<lparr>pe_current := pe_current x + 1\<rparr> # rest"
    using execute_playbook_first_persisted[of env uuid' pb "pe_device x" "pe_current x + 1" w''] run by simp
  then show ?thesis
    using run again same by (auto simp: resume_def Let_def)
qed

definition paused_at_start :: execution where
  "paused_at_start = (create_execution ''u'' 0 demo_playbook ''d'')\<lparr>pe_status := PbPaused\<rparr>"

theorem resume_repeats_steps_witness:
  "let (x1, ps1, raised1, n1) = resume (demo_env 2) ''v'' paused_at_start demo_playbook 0;
       (x2, ps2, raised2, n2) = resume (demo_env 2) ''z'' x1 demo_playbook n1 in
   map so_index (filter so_success (pe_outcomes x1)) = [1] \<and> pe_status x1 = PbPaused \<and>
   ps2 \<noteq> [] \<and> pe_current (hd ps2) = 1 \<and> map so_index (filter so_success (pe_outcomes x2)) = [1, 1, 2]"
proof -
  obtain x1 ps1 where run: "resume (demo_env 2) ''v'' paused_at_start demo_playbook 0 = (x1, ps1, False, 2)"
    and x1: "pe_status x1 = PbPaused" "map so_index (filter so_success (pe_outcomes x1)) = [1]"
            "map so_index (filter so_success (pe_outcomes (fst (resume (demo_env 2) ''z'' x1 demo_playbook 2)))) = [1, 1, 2]"
    by (simp add: resume_def paused_at_start_def run_simps Let_def)
  have n: "pe_current paused_at_start + 1 < length (pb_steps demo_playbook)"
    by (simp add: paused_at_start_def run_simps)
  obtain rest where "fst (snd (resume (demo_env 2) ''z'' x1 demo_playbook 2)) =
      (create_execution ''z'' (env_clock (demo_env 2) 2) demo_playbook (pe_device paused_at_start))
        \<lparr>pe_current := pe_current paused_at_start + 1\<rparr> # rest"
    using resume_repeats_steps[OF run x1(1) n] by blast
  then show ?thesis using run x1
    by (auto simp: Let_def case_prod_unfold paused_at_start_def create_execution_def)
qed

end
