(* ===== verification/Trending.thy ===== *)
theory Trending
  imports Values
begin

text \<open>
  Sensor baselines and trends (\<open>src/src/harkeniq/skills/trending.py\<close>): Welford's running mean and
  variance over a ring buffer, the running sums of a linear regression over the current segment of
  it, and the projection of a trend onto its threshold. Floats are reals without rounding, so the
  periodic rebuilding of the sums changes nothing; infinities are \<open>None\<close>. \<open>update_baseline\<close> answers
  \<open>None\<close> where the code raises. The message of a trend is kept as its template and numbers.
\<close>

subsection \<open>State\<close>

record trend_config =
  tc_window_samples :: int
  tc_min_samples :: int
  tc_critical_pause :: int
  tc_trending_min :: int
  tc_slope_threshold :: real
  tc_r_squared_min :: real
  tc_max_projection_hours :: real
  tc_expected_interval :: real

definition default_trend_config :: trend_config where
  "default_trend_config =
     \<lparr>tc_window_samples = 1440, tc_min_samples = 60, tc_critical_pause = 5, tc_trending_min = 60,
      tc_slope_threshold = 5 / 100, tc_r_squared_min = 1 / 2, tc_max_projection_hours = 90 * 24,
      tc_expected_interval = 60\<rparr>"

text \<open>A segment start \<open>None\<close> is minus infinity.\<close>

record trending =
  te_config :: trend_config
  te_baselines :: "(string, baseline) dict"
  te_counter_prev :: "(string, time \<times> real) dict"
  te_epoch :: "(string, time) dict"
  te_segment :: "(string, time option) dict"
  te_non_ok :: "(string, int) dict"

definition init_trending :: "trend_config \<Rightarrow> trending" where
  "init_trending c =
     \<lparr>te_config = c, te_baselines = [], te_counter_prev = [], te_epoch = [], te_segment = [], te_non_ok = []\<rparr>"

definition fresh_regression :: regression_state where
  "fresh_regression =
     \<lparr>sum_x = 0, sum_y = 0, sum_xy = 0, sum_x2 = 0, sum_y2 = 0, reg_n = 0, eviction_count = 0\<rparr>"

definition fresh_baseline :: "string \<Rightarrow> int \<Rightarrow> baseline" where
  "fresh_baseline sensor cap =
     \<lparr>bl_sensor_id = sensor, bl_mean = 0, bl_stddev = 0, bl_variance = 0, bl_m2 = 0, bl_min = None,
      bl_max = None, bl_count = 0, bl_ring = [], bl_buffer_size = cap, bl_first_at = None,
      bl_last_at = None, bl_degraded = False, bl_critical_pause = 0, bl_regression = fresh_regression\<rparr>"

definition put_baseline :: "string \<Rightarrow> baseline \<Rightarrow> trending \<Rightarrow> trending" where
  "put_baseline sensor b te = te\<lparr>te_baselines := dset sensor b (te_baselines te)\<rparr>"

definition new_baseline :: "string \<Rightarrow> time \<Rightarrow> trending \<Rightarrow> baseline \<times> trending" where
  "new_baseline sensor ts te =
     (let b = fresh_baseline sensor (tc_window_samples (te_config te)) in
      (b, (put_baseline sensor b te)\<lparr>te_epoch := dset sensor ts (te_epoch te),
             te_segment := dset sensor None (te_segment te),
             te_non_ok := dset sensor 0 (te_non_ok te)\<rparr>))"

definition te_confidence :: "string \<Rightarrow> trending \<Rightarrow> real" where
  "te_confidence sensor te =
     (case dget (te_baselines te) sensor of
        None \<Rightarrow> 0
      | Some b \<Rightarrow>
          if tc_min_samples (te_config te) \<le> 0 then 1
          else min 1 (of_int (bl_count b) / of_int (tc_min_samples (te_config te))))"

definition counter_to_rate :: "string \<Rightarrow> real \<Rightarrow> time \<Rightarrow> trending \<Rightarrow> real option \<times> trending" where
  "counter_to_rate sensor value ts te =
     (let te' = te\<lparr>te_counter_prev := dset sensor (ts, value) (te_counter_prev te)\<rparr> in
      case dget (te_counter_prev te) sensor of
        None \<Rightarrow> (None, te')
      | Some (prev_ts, prev_val) \<Rightarrow>
          if value < prev_val then (None, te')
          else (let hours = (ts - prev_ts) / 3600 in
            if hours \<le> 0 then (None, te') else (Some ((value - prev_val) / hours), te')))"

subsection \<open>Running statistics\<close>

definition welford_update :: "real \<Rightarrow> baseline \<Rightarrow> baseline" where
  "welford_update v b =
     (let n = bl_count b + 1;
          delta = v - bl_mean b;
          mean = bl_mean b + delta / of_int n;
          delta2 = v - mean;
          m2 = bl_m2 b + delta * delta2;
          variance = m2 / of_int n
      in b\<lparr>bl_count := n, bl_mean := mean, bl_m2 := m2, bl_variance := variance,
           bl_stddev := sqrt (max 0 variance)\<rparr>)"

definition welford_remove :: "real \<Rightarrow> baseline \<Rightarrow> baseline" where
  "welford_remove v b =
     (if bl_count b \<le> 1
      then b\<lparr>bl_mean := 0, bl_m2 := 0, bl_variance := 0, bl_stddev := 0, bl_count := 0\<rparr>
      else (let delta = v - bl_mean b;
                n = bl_count b - 1;
                mean = bl_mean b - delta / of_int n;
                delta2 = v - mean;
                m2 = bl_m2 b - delta * delta2;
                variance = m2 / of_int n
            in b\<lparr>bl_count := n, bl_mean := mean, bl_m2 := m2, bl_variance := variance,
                 bl_stddev := sqrt (max 0 variance)\<rparr>))"

definition regression_add :: "real \<Rightarrow> real \<Rightarrow> regression_state \<Rightarrow> regression_state" where
  "regression_add x y r =
     r\<lparr>sum_x := sum_x r + x, sum_y := sum_y r + y, sum_xy := sum_xy r + x * y,
       sum_x2 := sum_x2 r + x * x, sum_y2 := sum_y2 r + y * y, reg_n := reg_n r + 1\<rparr>"

definition regression_remove :: "real \<Rightarrow> real \<Rightarrow> regression_state \<Rightarrow> regression_state" where
  "regression_remove x y r =
     r\<lparr>sum_x := sum_x r - x, sum_y := sum_y r - y, sum_xy := sum_xy r - x * y,
       sum_x2 := sum_x2 r - x * x, sum_y2 := sum_y2 r - y * y, reg_n := max 0 (reg_n r - 1)\<rparr>"

definition compute_regression :: "regression_state \<Rightarrow> real \<times> real \<times> real" where
  "compute_regression r =
     (let n = (of_int (reg_n r) :: real); denom_x = n * sum_x2 r - (sum_x r)\<^sup>2 in
      if reg_n r < 2 then (0, 0, 0)
      else if denom_x \<le> 0 then (0, 0, 0)
      else (let denom_y = n * sum_y2 r - (sum_y r)\<^sup>2 in
        if denom_y \<le> 1 / 10 ^ 12 * max 1 (n * sum_y2 r) then (0, sum_y r / n, 0)
        else (let cov = n * sum_xy r - sum_x r * sum_y r;
                  slope = cov / denom_x;
                  intercept = (sum_y r - slope * sum_x r) / n;
                  r_squared = cov\<^sup>2 / (denom_x * denom_y)
              in (slope, intercept, min 1 (max 0 r_squared)))))"

subsection \<open>Learning a sample\<close>

definition x_of :: "trending \<Rightarrow> string \<Rightarrow> time \<Rightarrow> real" where
  "x_of te sensor ts = (ts - dget_or (te_epoch te) sensor ts) / 3600"

definition in_segment :: "trending \<Rightarrow> string \<Rightarrow> time \<Rightarrow> bool" where
  "in_segment te sensor ts =
     (case dget_or (te_segment te) sensor None of None \<Rightarrow> True | Some start \<Rightarrow> start \<le> ts)"

definition recompute_sums :: "trending \<Rightarrow> string \<Rightarrow> baseline \<Rightarrow> baseline" where
  "recompute_sums te sensor b =
     b\<lparr>bl_regression :=
         fold (\<lambda>(ts, v). regression_add (x_of te sensor ts) v)
           (filter (\<lambda>(ts, v). in_segment te sensor ts) (bl_ring b))
           (fresh_regression\<lparr>eviction_count := eviction_count (bl_regression b)\<rparr>)\<rparr>"

text \<open>One round of the eviction loop, for the popped sample.\<close>

definition evict_sample :: "trending \<Rightarrow> string \<Rightarrow> time \<times> real \<Rightarrow> baseline \<Rightarrow> baseline" where
  "evict_sample te sensor old b =
     (let (ts, v) = old;
          b1 = welford_remove v b;
          r1 = (if in_segment te sensor ts then regression_remove (x_of te sensor ts) v (bl_regression b1)
                else bl_regression b1);
          b2 = b1\<lparr>bl_regression := r1\<lparr>eviction_count := eviction_count r1 + 1\<rparr>\<rparr>
      in if eviction_count (bl_regression b2) mod 1000 = 0 then recompute_sums te sensor b2 else b2)"

lemma evict_sample_ring [simp]: "bl_ring (evict_sample te sensor old b) = bl_ring b"
  by (simp add: evict_sample_def recompute_sums_def welford_remove_def case_prod_unfold Let_def)

function evict_loop :: "trending \<Rightarrow> string \<Rightarrow> baseline \<Rightarrow> bool \<Rightarrow> (baseline \<times> bool) option" where
  "evict_loop te sensor b extremum =
     (if bl_buffer_size b \<le> int (length (bl_ring b))
      then (case bl_ring b of
            [] \<Rightarrow> None
          | old # ring \<Rightarrow>
              (let b' = evict_sample te sensor old (b\<lparr>bl_ring := ring\<rparr>) in
               evict_loop te sensor b' (extremum \<or> Some (snd old) \<in> {bl_min b', bl_max b'})))
      else Some (b, extremum))"
  by pat_completeness auto
termination
  by (relation "measure (\<lambda>(te, sensor, b, ex). length (bl_ring b))") auto

declare evict_loop.simps [simp del]

definition opt_min :: "real option \<Rightarrow> real \<Rightarrow> real" where
  "opt_min m v = (case m of None \<Rightarrow> v | Some u \<Rightarrow> min u v)"

definition opt_max :: "real option \<Rightarrow> real \<Rightarrow> real" where
  "opt_max m v = (case m of None \<Rightarrow> v | Some u \<Rightarrow> max u v)"

text \<open>After the eviction: the sample is added and the extremes and marks are brought up to date.\<close>

definition push_sample :: "trending \<Rightarrow> string \<Rightarrow> time \<Rightarrow> real \<Rightarrow> baseline \<Rightarrow> baseline" where
  "push_sample te sensor ts value b =
     (let b1 = welford_update value (b\<lparr>bl_ring := bl_ring b @ [(ts, value)]\<rparr>)
      in b1\<lparr>bl_regression := regression_add (x_of te sensor ts) value (bl_regression b1)\<rparr>)"

definition set_extremes :: "real \<Rightarrow> bool \<Rightarrow> baseline \<Rightarrow> baseline" where
  "set_extremes value extremum b =
     (if extremum
      then (let vals = map snd (bl_ring b) in b\<lparr>bl_min := Some (Min (set vals)), bl_max := Some (Max (set vals))\<rparr>)
      else b\<lparr>bl_min := Some (opt_min (bl_min b) value), bl_max := Some (opt_max (bl_max b) value)\<rparr>)"

definition mark_degraded :: "int \<Rightarrow> int \<Rightarrow> baseline \<Rightarrow> baseline" where
  "mark_degraded learned non_ok b =
     (if bl_count b = learned \<and> real_of_int non_ok > real_of_int learned / 2 then b\<lparr>bl_degraded := True\<rparr> else b)"

definition add_sample ::
  "string \<Rightarrow> real \<Rightarrow> time \<Rightarrow> bool \<Rightarrow> baseline \<Rightarrow> trending \<Rightarrow> baseline \<times> trending" where
  "add_sample sensor value ts extremum b te =
     (let b1 = set_extremes value extremum (push_sample te sensor ts value b);
          b2 = b1\<lparr>bl_first_at := Some (fst (hd (bl_ring b1))), bl_last_at := Some ts\<rparr>;
          b3 = mark_degraded (tc_min_samples (te_config te)) (dget_or (te_non_ok te) sensor 0) b2
      in (b3, put_baseline sensor b3 te))"

definition discontinuity :: "trend_config \<Rightarrow> real \<Rightarrow> baseline \<Rightarrow> bool" where
  "discontinuity c value b =
     (tc_min_samples c \<le> bl_count b \<and> bl_stddev b > 0 \<and> \<bar>value - bl_mean b\<bar> > 5 * bl_stddev b)"

definition toward_failure :: "string option \<Rightarrow> real \<Rightarrow> baseline \<Rightarrow> bool" where
  "toward_failure direction value b =
     ((direction = Some ''rising'' \<and> value > bl_mean b) \<or>
      (direction = Some ''declining'' \<and> value < bl_mean b))"

definition reset_if_jumped ::
  "string \<Rightarrow> real \<Rightarrow> time \<Rightarrow> string option \<Rightarrow> baseline \<Rightarrow> trending \<Rightarrow> baseline \<times> trending" where
  "reset_if_jumped sensor value ts direction b te =
     (if discontinuity (te_config te) value b \<and> \<not> toward_failure direction value b
      then new_baseline sensor ts te else (b, te))"

definition split_at_gap :: "string \<Rightarrow> time \<Rightarrow> baseline \<Rightarrow> trending \<Rightarrow> baseline \<times> trending" where
  "split_at_gap sensor ts b te =
     (if bl_ring b \<noteq> [] \<and> ts - fst (last (bl_ring b)) > 5 * tc_expected_interval (te_config te)
      then (b\<lparr>bl_regression := fresh_regression\<rparr>,
            te\<lparr>te_segment := dset sensor (Some ts) (te_segment te)\<rparr>)
      else (b, te))"

definition count_non_ok :: "string \<Rightarrow> string \<Rightarrow> baseline \<Rightarrow> trending \<Rightarrow> trending" where
  "count_non_ok sensor health b te =
     (if bl_count b < tc_min_samples (te_config te) \<and> health \<noteq> ''OK''
      then te\<lparr>te_non_ok := dset sensor (dget_or (te_non_ok te) sensor 0 + 1) (te_non_ok te)\<rparr> else te)"

definition learn ::
  "string \<Rightarrow> real \<Rightarrow> time \<Rightarrow> string \<Rightarrow> string option \<Rightarrow> baseline \<Rightarrow> trending \<Rightarrow>
     (baseline \<times> trending) option" where
  "learn sensor value ts health direction b te =
     (let (b1, te1) = reset_if_jumped sensor value ts direction b te;
          (b2, te2) = split_at_gap sensor ts b1 te1
      in case evict_loop te2 sensor b2 False of
           None \<Rightarrow> None
         | Some (b3, extremum) \<Rightarrow>
             Some (add_sample sensor value ts extremum b3 (count_non_ok sensor health b3 te2)))"

definition update_baseline ::
  "string \<Rightarrow> real \<Rightarrow> time \<Rightarrow> string \<Rightarrow> string option \<Rightarrow> trending \<Rightarrow> (baseline \<times> trending) option" where
  "update_baseline sensor value ts health direction te =
     (let (b, te1) = (case dget (te_baselines te) sensor of
            None \<Rightarrow> new_baseline sensor ts te | Some b \<Rightarrow> (b, te)) in
      if health = ''Critical''
      then (let b' = b\<lparr>bl_critical_pause := tc_critical_pause (te_config te1)\<rparr> in
            Some (b', put_baseline sensor b' te1))
      else if 0 < bl_critical_pause b
      then (let b' = b\<lparr>bl_critical_pause := bl_critical_pause b - 1\<rparr> in
            Some (b', put_baseline sensor b' te1))
      else learn sensor value ts health direction b te1)"

definition restore_baseline :: "string \<times> baseline \<Rightarrow> trending \<Rightarrow> trending" where
  "restore_baseline p te =
     (let (sensor, b) = p in
      if bl_ring b = [] then put_baseline sensor b te
      else (let te1 = te\<lparr>te_epoch := dset sensor (fst (hd (bl_ring b))) (te_epoch te),
                       te_segment := dset sensor None (te_segment te)\<rparr>
            in put_baseline sensor (recompute_sums te1 sensor b) te1))"

definition restore_baselines :: "(string, baseline) dict \<Rightarrow> trending \<Rightarrow> trending" where
  "restore_baselines bs te = fold restore_baseline bs te"

subsection \<open>The running statistics are the statistics of the buffer\<close>

definition mean_of :: "real list \<Rightarrow> real" where
  "mean_of vs = sum_list vs / of_nat (length vs)"

definition squares_of :: "real list \<Rightarrow> real" where
  "squares_of vs = sum_list (map (\<lambda>v. (v - mean_of vs)\<^sup>2) vs)"

definition stats_of :: "real list \<Rightarrow> baseline \<Rightarrow> bool" where
  "stats_of vs b \<longleftrightarrow> bl_count b = int (length vs) \<and> bl_mean b = mean_of vs \<and> bl_m2 b = squares_of vs \<and>
     bl_variance b = squares_of vs / of_nat (length vs) \<and> bl_stddev b = sqrt (bl_variance b)"

definition reg_of :: "(real \<times> real) list \<Rightarrow> regression_state \<Rightarrow> bool" where
  "reg_of ps r \<longleftrightarrow> reg_n r = int (length ps) \<and> sum_x r = sum_list (map fst ps) \<and>
     sum_y r = sum_list (map snd ps) \<and> sum_xy r = sum_list (map (\<lambda>(x, y). x * y) ps) \<and>
     sum_x2 r = sum_list (map (\<lambda>(x, y). x * x) ps) \<and> sum_y2 r = sum_list (map (\<lambda>(x, y). y * y) ps)"

lemma sum_sq_shift:
  "sum_list (map (\<lambda>v. (v - c)\<^sup>2) vs) =
     sum_list (map (\<lambda>v. v\<^sup>2) vs) - 2 * c * sum_list vs + of_nat (length vs) * (c :: real)\<^sup>2"
  by (induction vs) (auto simp: power2_eq_square algebra_simps)

lemma sum_by_mean: "sum_list vs = mean_of vs * of_nat (length vs)"
  by (cases "vs = []") (auto simp: mean_of_def)

lemma squares_of_alt:
  "squares_of vs = sum_list (map (\<lambda>v. v\<^sup>2) vs) - of_nat (length vs) * (mean_of vs)\<^sup>2"
  unfolding squares_of_def sum_sq_shift by (simp add: sum_by_mean power2_eq_square)

lemma squares_of_nonneg [simp]: "0 \<le> squares_of vs"
  by (auto simp: squares_of_def intro!: sum_list_nonneg)

lemma step_algebra:
  fixes k :: real
  assumes "k \<noteq> 0"
  shows "(m * (k - 1) + v) / k = m + (v - m) / k"
    "k * (m + d / k)\<^sup>2 = k * m\<^sup>2 + 2 * m * d + d\<^sup>2 / k"
    "v - (m + (v - m) / k) = (v - m) * ((k - 1) / k)"
    "(v - m) * (v - (m + (v - m) / k)) = (v - m)\<^sup>2 - (v - m)\<^sup>2 / k"
  using assms by (simp_all add: field_simps power2_eq_square)

lemma mean_of_snoc:
  "mean_of (vs @ [v]) = mean_of vs + (v - mean_of vs) / of_nat (Suc (length vs))"
proof -
  let ?k = "real (Suc (length vs))"
  have "mean_of (vs @ [v]) = (sum_list vs + v) / ?k" by (simp add: mean_of_def)
  also have "sum_list vs = mean_of vs * (?k - 1)" using sum_by_mean[of vs] by simp
  also have "(\<dots> + v) / ?k = mean_of vs + (v - mean_of vs) / ?k" by (rule step_algebra(1)) simp
  finally show ?thesis .
qed

lemma squares_of_snoc:
  "squares_of (vs @ [v]) = squares_of vs + (v - mean_of vs) * (v - mean_of (vs @ [v]))"
proof -
  let ?k = "real (Suc (length vs))" and ?m = "mean_of vs"
  have "?k * (?m + (v - ?m) / ?k)\<^sup>2 = ?k * ?m\<^sup>2 + 2 * ?m * (v - ?m) + (v - ?m)\<^sup>2 / ?k"
    by (rule step_algebra(2)) simp
  moreover have "(v - ?m) * (v - (?m + (v - ?m) / ?k)) = (v - ?m)\<^sup>2 - (v - ?m)\<^sup>2 / ?k"
    by (rule step_algebra(4)) simp
  moreover have "?m\<^sup>2 + 2 * ?m * (v - ?m) + (v - ?m)\<^sup>2 = v\<^sup>2" by (simp add: power2_eq_square algebra_simps)
  moreover have "?k * ?m\<^sup>2 = real (length vs) * ?m\<^sup>2 + ?m\<^sup>2" by (simp add: algebra_simps)
  ultimately show ?thesis
    unfolding squares_of_alt[of "vs @ [v]"] squares_of_alt[of vs] mean_of_snoc by simp
qed

lemma mean_of_Cons: "mean_of (v # vs) = mean_of (vs @ [v])" by (simp add: mean_of_def)
lemma squares_of_Cons: "squares_of (v # vs) = squares_of (vs @ [v])"
  by (simp add: squares_of_def mean_of_Cons)

lemma welford_update_stats:
  assumes "stats_of vs b"
  shows "stats_of (vs @ [v]) (welford_update v b)"
proof -
  have m: "bl_mean (welford_update v b) = mean_of (vs @ [v])"
    using assms by (simp add: welford_update_def stats_of_def mean_of_snoc add.commute Let_def)
  have m2: "bl_m2 (welford_update v b) = squares_of (vs @ [v])"
    using assms m by (simp add: welford_update_def stats_of_def squares_of_snoc Let_def)
  have "bl_variance (welford_update v b) = squares_of (vs @ [v]) / of_nat (length (vs @ [v]))"
    "bl_stddev (welford_update v b) = sqrt (max 0 (bl_variance (welford_update v b)))"
    "bl_count (welford_update v b) = int (length (vs @ [v]))"
    using m2 assms by (simp_all add: welford_update_def stats_of_def add.commute Let_def)
  then show ?thesis using m m2 by (simp add: stats_of_def)
qed

lemma welford_remove_stats:
  assumes "stats_of (v # vs) b"
  shows "stats_of vs (welford_remove v b)"
proof (cases "vs = []")
  case True
  then show ?thesis using assms by (simp add: welford_remove_def stats_of_def mean_of_def squares_of_def)
next
  case False
  let ?n = "real (length vs)"
  have n: "?n \<noteq> 0" "\<not> bl_count b \<le> 1" using False assms by (auto simp: stats_of_def Suc_le_eq)
  have cnt: "bl_count b - 1 = int (length vs)" using assms by (simp add: stats_of_def)
  let ?k = "real (Suc (length vs))"
  have mb: "bl_mean b = mean_of vs + (v - mean_of vs) / ?k"
    using assms by (simp add: stats_of_def mean_of_Cons mean_of_snoc)
  have d: "v - bl_mean b = (v - mean_of vs) * (?n / ?k)"
    using step_algebra(3)[of ?k v "mean_of vs"] unfolding mb by simp
  have m: "bl_mean (welford_remove v b) = mean_of vs"
  proof -
    have "bl_mean (welford_remove v b) = bl_mean b - (v - bl_mean b) / ?n"
      using n(2) cnt by (simp add: welford_remove_def Let_def)
    also have "(v - bl_mean b) / ?n = (v - mean_of vs) / ?k" unfolding d using n(1) by simp
    finally show ?thesis unfolding mb by simp
  qed
  have m2: "bl_m2 (welford_remove v b) = squares_of vs"
  proof -
    have "bl_m2 (welford_remove v b) = bl_m2 b - (v - bl_mean b) * (v - mean_of vs)"
      using n(2) m by (simp add: welford_remove_def Let_def)
    also have "bl_m2 b = squares_of vs + (v - mean_of vs) * (v - bl_mean b)"
      using assms by (simp add: stats_of_def squares_of_Cons squares_of_snoc mean_of_Cons)
    finally show ?thesis by simp
  qed
  have "bl_variance (welford_remove v b) = squares_of vs / ?n"
    "bl_stddev (welford_remove v b) = sqrt (max 0 (bl_variance (welford_remove v b)))"
    "bl_count (welford_remove v b) = int (length vs)"
    using m2 n(2) cnt by (simp_all add: welford_remove_def Let_def)
  then show ?thesis using m m2 by (simp add: stats_of_def)
qed

lemma regression_add_of: "reg_of ps r \<Longrightarrow> reg_of (ps @ [(x, y)]) (regression_add x y r)"
  by (simp add: reg_of_def regression_add_def)

lemma regression_remove_of: "reg_of ((x, y) # ps) r \<Longrightarrow> reg_of ps (regression_remove x y r)"
  by (simp add: reg_of_def regression_remove_def)

lemma reg_of_count [simp]: "reg_of ps (r\<lparr>eviction_count := k\<rparr>) = reg_of ps r"
  by (simp add: reg_of_def)

definition points :: "trending \<Rightarrow> string \<Rightarrow> (time \<times> real) list \<Rightarrow> (real \<times> real) list" where
  "points te sensor ring =
     map (\<lambda>(ts, v). (x_of te sensor ts, v)) (filter (\<lambda>(ts, v). in_segment te sensor ts) ring)"

lemma recompute_sums_of: "reg_of (points te sensor (bl_ring b)) (bl_regression (recompute_sums te sensor b))"
proof -
  have "reg_of (ps @ points te sensor ring)
      (fold (\<lambda>(ts, v). regression_add (x_of te sensor ts) v) (filter (\<lambda>(ts, v). in_segment te sensor ts) ring) r)"
    if "reg_of ps r" for ps ring r
    using that
  proof (induction ring arbitrary: ps r)
    case (Cons p ring)
    obtain ts v where p: "p = (ts, v)" by fastforce
    show ?case
      using Cons.IH[OF regression_add_of[OF Cons.prems, of "x_of te sensor ts" v]] Cons.IH[OF Cons.prems]
      by (auto simp: p points_def)
  qed (simp add: points_def)
  from this[of "[]"] show ?thesis
    by (simp add: recompute_sums_def reg_of_def fresh_regression_def)
qed

subsection \<open>The invariant of a baseline\<close>

definition extremes_of :: "real list \<Rightarrow> baseline \<Rightarrow> bool" where
  "extremes_of vs b \<longleftrightarrow> bl_min b = (if vs = [] then None else Some (Min (set vs))) \<and>
     bl_max b = (if vs = [] then None else Some (Max (set vs)))"

text \<open>Statistics and sums agree with the buffer, whose samples came in time order before \<open>ts\<close>.\<close>

definition ready :: "trending \<Rightarrow> string \<Rightarrow> time \<Rightarrow> baseline \<Rightarrow> bool" where
  "ready te sensor ts b \<longleftrightarrow> stats_of (map snd (bl_ring b)) b \<and>
     reg_of (points te sensor (bl_ring b)) (bl_regression b) \<and> sorted (map fst (bl_ring b)) \<and>
     (\<forall>p \<in> set (bl_ring b). fst p \<le> ts) \<and> 1 \<le> bl_buffer_size b \<and> in_segment te sensor ts"

definition matches :: "trending \<Rightarrow> string \<Rightarrow> time \<Rightarrow> baseline \<Rightarrow> bool" where
  "matches te sensor ts b \<longleftrightarrow> ready te sensor ts b \<and> extremes_of (map snd (bl_ring b)) b \<and>
     int (length (bl_ring b)) \<le> bl_buffer_size b"

lemma x_of_simps [simp]:
  "x_of (put_baseline s b te) = x_of te" "x_of (te\<lparr>te_non_ok := m\<rparr>) = x_of te"
  "x_of (te\<lparr>te_segment := sg\<rparr>) = x_of te"
  by (simp_all add: fun_eq_iff x_of_def put_baseline_def)

lemma in_segment_simps [simp]:
  "in_segment (put_baseline s b te) = in_segment te" "in_segment (te\<lparr>te_non_ok := m\<rparr>) = in_segment te"
  by (simp_all add: fun_eq_iff in_segment_def put_baseline_def)

lemma points_simps [simp]:
  "points (put_baseline s b te) = points te" "points (te\<lparr>te_non_ok := m\<rparr>) = points te"
  by (simp_all add: fun_eq_iff points_def)

lemma count_non_ok_simps [simp]:
  "points (count_non_ok s h b te) = points te" "in_segment (count_non_ok s h b te) = in_segment te"
  "x_of (count_non_ok s h b te) = x_of te"
  "te_config (count_non_ok s h b te) = te_config te"
  by (simp_all add: count_non_ok_def)

lemma in_segment_mono: "in_segment te s t \<Longrightarrow> t \<le> t' \<Longrightarrow> in_segment te s t'"
  by (auto simp: in_segment_def split: option.splits)

lemma ready_mono: "ready te s t b \<Longrightarrow> t \<le> t' \<Longrightarrow> ready te s t' b"
  by (auto simp: ready_def intro: in_segment_mono order_trans)

lemma stats_of_fields [simp]:
  "stats_of vs (b\<lparr>bl_ring := r\<rparr>) = stats_of vs b" "stats_of vs (b\<lparr>bl_regression := g\<rparr>) = stats_of vs b"
  "stats_of vs (b\<lparr>bl_min := m\<rparr>) = stats_of vs b" "stats_of vs (b\<lparr>bl_max := m\<rparr>) = stats_of vs b"
  "stats_of vs (b\<lparr>bl_first_at := t\<rparr>) = stats_of vs b" "stats_of vs (b\<lparr>bl_last_at := t\<rparr>) = stats_of vs b"
  "stats_of vs (b\<lparr>bl_degraded := d\<rparr>) = stats_of vs b" "stats_of vs (b\<lparr>bl_critical_pause := n\<rparr>) = stats_of vs b"
  by (simp_all add: stats_of_def)

lemma welford_keeps [simp]:
  "bl_ring (welford_remove v b) = bl_ring b" "bl_regression (welford_remove v b) = bl_regression b"
  "bl_min (welford_remove v b) = bl_min b" "bl_max (welford_remove v b) = bl_max b"
  "bl_buffer_size (welford_remove v b) = bl_buffer_size b"
  "bl_ring (welford_update v b) = bl_ring b" "bl_regression (welford_update v b) = bl_regression b"
  "bl_min (welford_update v b) = bl_min b" "bl_max (welford_update v b) = bl_max b"
  "bl_buffer_size (welford_update v b) = bl_buffer_size b"
  by (simp_all add: welford_remove_def welford_update_def Let_def)

lemma evict_sample_fields [simp]:
  "bl_min (evict_sample te s old b) = bl_min b" "bl_max (evict_sample te s old b) = bl_max b"
  "bl_buffer_size (evict_sample te s old b) = bl_buffer_size b"
  by (simp_all add: evict_sample_def recompute_sums_def case_prod_unfold Let_def)

lemma evict_sample_keeps:
  assumes "stats_of (map snd (old # rest)) b" "reg_of (points te s (old # rest)) (bl_regression b)"
    and "bl_ring b = rest"
  shows "stats_of (map snd rest) (evict_sample te s old b)"
    "reg_of (points te s rest) (bl_regression (evict_sample te s old b))"
proof -
  obtain ts v where old: "old = (ts, v)" by fastforce
  let ?b1 = "welford_remove v b"
  let ?r1 = "if in_segment te s ts then regression_remove (x_of te s ts) v (bl_regression ?b1) else bl_regression ?b1"
  let ?b2 = "?b1\<lparr>bl_regression := ?r1\<lparr>eviction_count := eviction_count ?r1 + 1\<rparr>\<rparr>"
  have e: "evict_sample te s old b = (if eviction_count (bl_regression ?b2) mod 1000 = 0 then recompute_sums te s ?b2 else ?b2)"
    unfolding evict_sample_def old by (simp add: Let_def)
  have s: "stats_of (map snd rest) ?b2" using welford_remove_stats[of v "map snd rest" b] assms(1) by (simp add: old)
  then show "stats_of (map snd rest) (evict_sample te s old b)"
    unfolding e by (simp add: recompute_sums_def)
  have "reg_of (points te s rest) ?r1"
    using assms(2) by (auto simp: points_def old intro: regression_remove_of)
  then have "reg_of (points te s rest) (bl_regression ?b2)" by simp
  moreover have "reg_of (points te s rest) (bl_regression (recompute_sums te s ?b2))"
    using recompute_sums_of[of te s ?b2] assms(3) by simp
  ultimately show "reg_of (points te s rest) (bl_regression (evict_sample te s old b))"
    unfolding e by auto
qed

lemma evicted_extremum:
  assumes "extremes_of (map snd (old # rest)) b" "bl_min b' = bl_min b" "bl_max b' = bl_max b"
    and "Some (snd old) \<notin> {bl_min b', bl_max b'}"
  shows "extremes_of (map snd rest) b'"
proof (cases "rest = []")
  case True
  then show ?thesis using assms by (simp add: extremes_of_def)
next
  case False
  then show ?thesis using assms by (auto simp: extremes_of_def min_def max_def split: if_splits)
qed

lemma evict_loop_keeps:
  assumes "stats_of (map snd (bl_ring b)) b" "reg_of (points te s (bl_ring b)) (bl_regression b)"
    and "extremum \<or> extremes_of (map snd (bl_ring b)) b" "1 \<le> bl_buffer_size b"
  shows "\<exists>b' ex k. evict_loop te s b extremum = Some (b', ex) \<and> stats_of (map snd (bl_ring b')) b' \<and>
    reg_of (points te s (bl_ring b')) (bl_regression b') \<and> (ex \<or> extremes_of (map snd (bl_ring b')) b') \<and>
    bl_ring b' = drop k (bl_ring b) \<and> int (length (bl_ring b')) < bl_buffer_size b' \<and>
    bl_buffer_size b' = bl_buffer_size b"
  using assms
proof (induction te s b extremum rule: evict_loop.induct)
  case (1 te s b extremum)
  show ?case
  proof (cases "bl_buffer_size b \<le> int (length (bl_ring b))")
    case False
    then show ?thesis using "1.prems" by (subst evict_loop.simps) (auto intro: exI[of _ 0])
  next
    case True
    then obtain old rest where ring: "bl_ring b = old # rest" using "1.prems"(4) by (cases "bl_ring b") auto
    let ?b' = "evict_sample te s old (b\<lparr>bl_ring := rest\<rparr>)"
    let ?ex = "extremum \<or> Some (snd old) \<in> {bl_min ?b', bl_max ?b'}"
    have step: "evict_loop te s b extremum = evict_loop te s ?b' ?ex"
      using True ring by (subst evict_loop.simps) (simp add: Let_def)
    have keeps: "stats_of (map snd rest) ?b'" "reg_of (points te s rest) (bl_regression ?b')"
      using evict_sample_keeps[of old rest "b\<lparr>bl_ring := rest\<rparr>" te s] "1.prems"(1,2) ring by simp_all
    have "?ex \<or> extremes_of (map snd rest) ?b'"
      using evicted_extremum[of old rest b ?b'] "1.prems"(3) ring by auto
    then have "\<exists>b' ex k. evict_loop te s ?b' ?ex = Some (b', ex) \<and> stats_of (map snd (bl_ring b')) b' \<and>
        reg_of (points te s (bl_ring b')) (bl_regression b') \<and> (ex \<or> extremes_of (map snd (bl_ring b')) b') \<and>
        bl_ring b' = drop k (bl_ring ?b') \<and> int (length (bl_ring b')) < bl_buffer_size b' \<and>
        bl_buffer_size b' = bl_buffer_size ?b'"
      using "1.IH"[OF True ring refl] keeps "1.prems"(4) by simp
    then obtain b' ex k where "evict_loop te s b extremum = Some (b', ex)" "stats_of (map snd (bl_ring b')) b'"
      "reg_of (points te s (bl_ring b')) (bl_regression b')" "ex \<or> extremes_of (map snd (bl_ring b')) b'"
      "bl_ring b' = drop (Suc k) (bl_ring b)" "int (length (bl_ring b')) < bl_buffer_size b'"
      "bl_buffer_size b' = bl_buffer_size b"
      unfolding step by (auto simp: ring)
    then show ?thesis by blast
  qed
qed

lemma extremes_of_snoc:
  assumes "extremes_of vs b"
  shows "opt_min (bl_min b) v = Min (set (vs @ [v]))" "opt_max (bl_max b) v = Max (set (vs @ [v]))"
  using assms by (auto simp: extremes_of_def opt_min_def opt_max_def min.commute max.commute)

lemma push_sample_fields [simp]:
  "bl_ring (push_sample te s ts v b) = bl_ring b @ [(ts, v)]"
  "bl_regression (push_sample te s ts v b) = regression_add (x_of te s ts) v (bl_regression b)"
  "bl_min (push_sample te s ts v b) = bl_min b" "bl_max (push_sample te s ts v b) = bl_max b"
  "bl_buffer_size (push_sample te s ts v b) = bl_buffer_size b"
  by (simp_all add: push_sample_def Let_def)

lemma set_extremes_fields [simp]:
  "bl_ring (set_extremes v ex b) = bl_ring b" "bl_regression (set_extremes v ex b) = bl_regression b"
  "bl_buffer_size (set_extremes v ex b) = bl_buffer_size b" "stats_of vs (set_extremes v ex b) = stats_of vs b"
  by (simp_all add: set_extremes_def Let_def)

lemma mark_degraded_fields [simp]:
  "bl_ring (mark_degraded n k b) = bl_ring b" "bl_regression (mark_degraded n k b) = bl_regression b"
  "bl_min (mark_degraded n k b) = bl_min b" "bl_max (mark_degraded n k b) = bl_max b"
  "bl_buffer_size (mark_degraded n k b) = bl_buffer_size b" "stats_of vs (mark_degraded n k b) = stats_of vs b"
  by (simp_all add: mark_degraded_def)

lemma push_sample_stats:
  assumes "stats_of vs b"
  shows "stats_of (vs @ [v]) (push_sample te s ts v b)"
  using welford_update_stats[of vs "b\<lparr>bl_ring := bl_ring b @ [(ts, v)]\<rparr>" v] assms
  by (simp add: push_sample_def Let_def)

lemma set_extremes_of:
  assumes "ex \<or> extremes_of (map snd (bl_ring b)) b"
  shows "extremes_of (map snd (bl_ring b @ [(ts, v)])) (set_extremes v ex (push_sample te s ts v b))"
  using assms extremes_of_snoc[of "map snd (bl_ring b)" b v]
  by (auto simp: set_extremes_def extremes_of_def Let_def)

lemma add_sample_matches:
  assumes "ready te s ts b" "ex \<or> extremes_of (map snd (bl_ring b)) b"
    and "int (length (bl_ring b)) < bl_buffer_size b"
    and "add_sample s v ts ex b te = (b', te')"
  shows "matches te' s ts b' \<and> bl_ring b' = bl_ring b @ [(ts, v)] \<and> te' = put_baseline s b' te"
proof -
  let ?ring = "bl_ring b @ [(ts, v)]"
  let ?b1 = "set_extremes v ex (push_sample te s ts v b)"
  let ?b2 = "?b1\<lparr>bl_first_at := Some (fst (hd (bl_ring ?b1))), bl_last_at := Some ts\<rparr>"
  have b': "b' = mark_degraded (tc_min_samples (te_config te)) (dget_or (te_non_ok te) s 0) ?b2"
    "te' = put_baseline s b' te"
    using assms(4) by (auto simp: add_sample_def Let_def)
  have "stats_of (map snd ?ring) b'"
    using push_sample_stats[of "map snd (bl_ring b)" b v te s ts] assms(1) by (simp add: b'(1) ready_def)
  moreover have "reg_of (points te s ?ring) (bl_regression b')"
    using assms(1) by (auto simp: b'(1) ready_def points_def intro: regression_add_of)
  moreover have "extremes_of (map snd ?ring) b'"
    using set_extremes_of[OF assms(2), of ts v te s] by (simp add: b'(1) extremes_of_def)
  moreover have "sorted (map fst ?ring)" using assms(1) by (auto simp: ready_def sorted_append)
  moreover have "bl_ring b' = ?ring" "bl_buffer_size b' = bl_buffer_size b" by (simp_all add: b'(1))
  ultimately show ?thesis using b'(2) assms(1,3)
    by (auto simp: matches_def ready_def)
qed

lemma fresh_ready:
  shows "stats_of [] (fresh_baseline s cap)" "extremes_of [] (fresh_baseline s cap)"
    "reg_of [] fresh_regression"
  by (simp_all add: fresh_baseline_def stats_of_def mean_of_def squares_of_def extremes_of_def reg_of_def fresh_regression_def)

lemma new_baseline_matches:
  assumes "1 \<le> tc_window_samples (te_config te)" "new_baseline s ts te = (b, te')"
  shows "matches te' s t b" "dget (te_baselines te') s = Some b" "te_config te' = te_config te"
    "bl_ring b = []" "bl_critical_pause b = 0"
proof -
  have b: "b = fresh_baseline s (tc_window_samples (te_config te))"
    "in_segment te' s t" "dget (te_baselines te') s = Some b" "te_config te' = te_config te"
    using assms(2) by (auto simp: new_baseline_def put_baseline_def in_segment_def dget_or_def Let_def)
  then show "matches te' s t b" using fresh_ready assms(1)
    by (simp add: matches_def ready_def points_def) (simp add: fresh_baseline_def)
  show "dget (te_baselines te') s = Some b" "te_config te' = te_config te" by (fact b)+
  show "bl_ring b = []" "bl_critical_pause b = 0" unfolding b(1) by (simp_all add: fresh_baseline_def)
qed

lemma split_at_gap_ready:
  assumes "matches te s ts b" "0 \<le> tc_expected_interval (te_config te)"
    and "split_at_gap s ts b te = (b', te')"
  shows "ready te' s ts b'" "extremes_of (map snd (bl_ring b')) b'" "bl_ring b' = bl_ring b"
    "bl_buffer_size b' = bl_buffer_size b" "te_config te' = te_config te"
    "bl_critical_pause b' = bl_critical_pause b"
proof -
  have "ready te' s ts b' \<and> extremes_of (map snd (bl_ring b')) b' \<and> bl_ring b' = bl_ring b \<and>
    bl_buffer_size b' = bl_buffer_size b \<and> te_config te' = te_config te \<and> bl_critical_pause b' = bl_critical_pause b"
  proof (cases "bl_ring b \<noteq> [] \<and> ts - fst (last (bl_ring b)) > 5 * tc_expected_interval (te_config te)")
    case False
    then show ?thesis using assms(1,3) by (auto simp: split_at_gap_def matches_def)
  next
    case True
    then have e: "b' = b\<lparr>bl_regression := fresh_regression\<rparr>" "te' = te\<lparr>te_segment := dset s (Some ts) (te_segment te)\<rparr>"
      using assms(3) by (auto simp: split_at_gap_def)
    have lt: "fst (last (bl_ring b)) < ts" using True assms(2) by linarith
    have "sorted (map fst (bl_ring b))" using assms(1) by (simp add: matches_def ready_def)
    then have "fst p \<le> fst (last (bl_ring b))" if "p \<in> set (bl_ring b)" for p
      using that True by (cases "bl_ring b" rule: rev_cases) (auto simp: sorted_append)
    with lt have "points te' s (bl_ring b) = []"
      by (fastforce simp: points_def e in_segment_def dget_or_def filter_empty_conv)
    then show ?thesis using assms(1) fresh_ready(3)
      by (auto simp: e matches_def ready_def extremes_of_def in_segment_def dget_or_def)
  qed
  then show "ready te' s ts b'" "extremes_of (map snd (bl_ring b')) b'" "bl_ring b' = bl_ring b"
    "bl_buffer_size b' = bl_buffer_size b" "te_config te' = te_config te"
    "bl_critical_pause b' = bl_critical_pause b" by auto
qed

lemma matches_mono: "matches te s t b \<Longrightarrow> t \<le> t' \<Longrightarrow> matches te s t' b"
  by (auto simp: matches_def intro: ready_mono)

lemma learn_matches:
  assumes "matches te s t b" "t \<le> ts" "0 \<le> tc_expected_interval (te_config te)"
    and "1 \<le> tc_window_samples (te_config te)"
  shows "\<exists>b' te'. learn s v ts h dir b te = Some (b', te') \<and> matches te' s ts b' \<and>
    dget (te_baselines te') s = Some b' \<and> te_config te' = te_config te \<and>
    set (bl_ring b') \<subseteq> insert (ts, v) (set (bl_ring b))"
proof -
  obtain b1 te1 where r: "reset_if_jumped s v ts dir b te = (b1, te1)" by fastforce
  have m1: "matches te1 s ts b1" "te_config te1 = te_config te" "set (bl_ring b1) \<subseteq> set (bl_ring b)"
    using r matches_mono[OF assms(1,2)] new_baseline_matches[OF assms(4), of s ts b1 te1]
    by (auto simp: reset_if_jumped_def split: if_splits)
  obtain b2 te2 where g: "split_at_gap s ts b1 te1 = (b2, te2)" by fastforce
  note m2 = split_at_gap_ready[OF m1(1) _ g]
  have iv: "0 \<le> tc_expected_interval (te_config te1)" using assms(3) m1(2) by simp
  have "stats_of (map snd (bl_ring b2)) b2" "reg_of (points te2 s (bl_ring b2)) (bl_regression b2)" "1 \<le> bl_buffer_size b2"
    using m2(1)[OF iv] by (simp_all add: ready_def)
  from evict_loop_keeps[OF this(1,2) _ this(3), of False] m2(2)[OF iv]
  obtain b3 ex k where e: "evict_loop te2 s b2 False = Some (b3, ex)" "stats_of (map snd (bl_ring b3)) b3"
    "reg_of (points te2 s (bl_ring b3)) (bl_regression b3)" "ex \<or> extremes_of (map snd (bl_ring b3)) b3"
    "bl_ring b3 = drop k (bl_ring b2)" "int (length (bl_ring b3)) < bl_buffer_size b3"
    "bl_buffer_size b3 = bl_buffer_size b2" by blast
  let ?te3 = "count_non_ok s h b3 te2"
  have rd: "ready ?te3 s ts b3"
    using m2(1)[OF iv] e by (auto simp: ready_def sorted_wrt_drop drop_map[symmetric] dest: in_set_dropD)
  obtain b4 te4 where a: "add_sample s v ts ex b3 ?te3 = (b4, te4)" by fastforce
  from add_sample_matches[OF rd e(4,6) a]
  have "matches te4 s ts b4" "bl_ring b4 = bl_ring b3 @ [(ts, v)]" "te4 = put_baseline s b4 ?te3" by auto
  moreover have "learn s v ts h dir b te = Some (b4, te4)" by (simp add: learn_def r g e(1) a)
  moreover have "set (bl_ring b3) \<subseteq> set (bl_ring b)"
    using e(5) m1(3) m2(3)[OF iv] by (auto dest: in_set_dropD)
  ultimately show ?thesis
    using m1(2) m2(5)[OF iv] by (auto simp: put_baseline_def)
qed

lemma matches_pause [simp]:
  "matches (put_baseline s b' te) s ts (b\<lparr>bl_critical_pause := k\<rparr>) = matches te s ts b"
  by (simp add: matches_def ready_def extremes_of_def)

lemma put_baseline_fields [simp]:
  "dget (te_baselines (put_baseline s b te)) s' = (if s' = s then Some b else dget (te_baselines te) s')"
  "te_config (put_baseline s b te) = te_config te"
  by (simp_all add: put_baseline_def)

definition known :: "trending \<Rightarrow> string \<Rightarrow> time \<Rightarrow> (time \<times> real) set \<Rightarrow> bool" where
  "known te s t seen \<longleftrightarrow>
     (case dget (te_baselines te) s of None \<Rightarrow> True | Some b \<Rightarrow> matches te s t b \<and> set (bl_ring b) \<subseteq> seen)"

lemma update_keeps:
  assumes "known te s t seen" "t \<le> ts"
    and "1 \<le> tc_window_samples (te_config te)" "0 \<le> tc_expected_interval (te_config te)"
  shows "\<exists>b' te'. update_baseline s v ts h dir te = Some (b', te') \<and> te_config te' = te_config te \<and>
    known te' s ts (if h = ''Critical'' then seen else insert (ts, v) seen)"
proof -
  obtain b te1 where b: "(case dget (te_baselines te) s of None \<Rightarrow> new_baseline s ts te | Some b \<Rightarrow> (b, te)) = (b, te1)"
    by fastforce
  have m: "matches te1 s ts b" "set (bl_ring b) \<subseteq> seen" "te_config te1 = te_config te"
    using assms(1) b new_baseline_matches[OF assms(3), of s ts b te1] matches_mono[OF _ assms(2)]
    by (auto simp: known_def split: option.splits)
  have paused: ?thesis if "\<And>k. update_baseline s v ts h dir te =
      Some (b\<lparr>bl_critical_pause := n\<rparr>, put_baseline s (b\<lparr>bl_critical_pause := n\<rparr>) te1)" for n
    using that m by (auto simp: known_def)
  consider "h = ''Critical''" | "h \<noteq> ''Critical''" "0 < bl_critical_pause b"
    | "h \<noteq> ''Critical''" "\<not> 0 < bl_critical_pause b" by blast
  then show ?thesis
  proof cases
    case 1
    then show ?thesis using b by (intro paused) (simp add: update_baseline_def Let_def)
  next
    case 2
    then show ?thesis using b by (intro paused) (simp add: update_baseline_def Let_def)
  next
    case 3
    have u: "update_baseline s v ts h dir te = learn s v ts h dir b te1"
      using 3 b by (simp add: update_baseline_def)
    from learn_matches[OF m(1) order_refl, of v h dir] assms(3,4) m(3)
    obtain b' te' where "learn s v ts h dir b te1 = Some (b', te')" "matches te' s ts b'"
      "dget (te_baselines te') s = Some b'" "te_config te' = te_config te1"
      "set (bl_ring b') \<subseteq> insert (ts, v) (set (bl_ring b))" by auto
    then show ?thesis using u m 3(1) by (auto simp: known_def)
  qed
qed

type_synonym reading = "real \<times> time \<times> string \<times> string option"

fun learn_all :: "string \<Rightarrow> reading list \<Rightarrow> trending \<Rightarrow> trending option" where
  "learn_all s [] te = Some te"
| "learn_all s ((v, ts, h, dir) # rs) te =
     (case update_baseline s v ts h dir te of None \<Rightarrow> None | Some (b, te') \<Rightarrow> learn_all s rs te')"

definition healthy_samples :: "reading list \<Rightarrow> (time \<times> real) set" where
  "healthy_samples rs = {(ts, v). \<exists>h dir. (v, ts, h, dir) \<in> set rs \<and> h \<noteq> ''Critical''}"

abbreviation reading_time :: "reading \<Rightarrow> time" where
  "reading_time r \<equiv> fst (snd r)"

lemma known_mono: "known te s t A \<Longrightarrow> A \<subseteq> B \<Longrightarrow> known te s t B"
  by (auto simp: known_def split: option.splits)

lemma learn_all_known:
  assumes "known te s t seen" "sorted (t # map reading_time rs)"
    and "1 \<le> tc_window_samples (te_config te)" "0 \<le> tc_expected_interval (te_config te)"
  shows "\<exists>te' t'. learn_all s rs te = Some te' \<and> known te' s t' (seen \<union> healthy_samples rs)"
  using assms
proof (induction rs arbitrary: te t seen)
  case Nil
  then show ?case by (auto intro: known_mono)
next
  case (Cons r rs)
  obtain v ts h dir where r: "r = (v, ts, h, dir)" by (metis prod_cases4)
  let ?seen = "if h = ''Critical'' then seen else insert (ts, v) seen"
  from update_keeps[OF Cons.prems(1) _ Cons.prems(3,4), of ts v h dir] Cons.prems(2)
  obtain b' te' where u: "update_baseline s v ts h dir te = Some (b', te')" "te_config te' = te_config te"
    "known te' s ts ?seen" by (auto simp: r)
  from Cons.IH[OF u(3)] Cons.prems u(2)
  obtain te2 t2 where "learn_all s rs te' = Some te2" "known te2 s t2 (?seen \<union> healthy_samples rs)"
    by (auto simp: r)
  moreover have "?seen \<union> healthy_samples rs \<subseteq> seen \<union> healthy_samples (r # rs)"
    by (auto simp: r healthy_samples_def)
  ultimately show ?case using u(1) by (auto simp: r intro: known_mono)
qed

subsection \<open>Properties\<close>

text \<open>C26: The running statistics are exact. With a positive window, readings of a sensor in time order
never raise, and whatever the resets, gaps and evictions were, the mean, the variance, the extremes
and the count of its baseline are those of the samples in the buffer, the regression sums are those
of the samples of the current segment, and no sample came from a reading in critical health.\<close>

theorem baseline_is_exact:
  assumes "1 \<le> tc_window_samples c" and "0 \<le> tc_expected_interval c" and "sorted (map reading_time rs)"
  shows "\<exists>te. learn_all s rs (init_trending c) = Some te \<and>
    (case dget (te_baselines te) s of
       None \<Rightarrow> True
     | Some b \<Rightarrow> stats_of (map snd (bl_ring b)) b \<and> extremes_of (map snd (bl_ring b)) b \<and>
         reg_of (points te s (bl_ring b)) (bl_regression b) \<and>
         int (length (bl_ring b)) \<le> bl_buffer_size b \<and> set (bl_ring b) \<subseteq> healthy_samples rs)"
proof -
  let ?t = "if rs = [] then 0 else reading_time (hd rs)"
  have "sorted (?t # map reading_time rs)" using assms(3) by (cases rs) auto
  moreover have "known (init_trending c) s ?t {}" by (simp add: known_def init_trending_def)
  ultimately obtain te t where "learn_all s rs (init_trending c) = Some te" "known te s t ({} \<union> healthy_samples rs)"
    using learn_all_known[of "init_trending c" s ?t "{}" rs] assms(1,2) by (auto simp: init_trending_def)
  then show ?thesis
    by (auto simp: known_def matches_def ready_def split: option.splits)
qed

definition demo_trend :: trend_config where
  "demo_trend = default_trend_config\<lparr>tc_window_samples := 2\<rparr>"

definition demo_readings :: "reading list" where
  "demo_readings = [(4, 0, ''OK'', None), (6, 60, ''OK'', None), (8, 120, ''OK'', None)]"

theorem baseline_is_exact_witness:
  "\<exists>te. learn_all ''s'' demo_readings (init_trending demo_trend) = Some te \<and>
    (case dget (te_baselines te) ''s'' of
       None \<Rightarrow> True
     | Some b \<Rightarrow> stats_of (map snd (bl_ring b)) b \<and> set (bl_ring b) \<subseteq> {(0, 4), (60, 6), (120, 8)})"
proof -
  have "healthy_samples demo_readings \<subseteq> {(0, 4), (60, 6), (120, 8)}"
    by (auto simp: healthy_samples_def demo_readings_def)
  moreover have "1 \<le> tc_window_samples demo_trend" "0 \<le> tc_expected_interval demo_trend"
    "sorted (map reading_time demo_readings)"
    by (simp_all add: demo_trend_def default_trend_config_def demo_readings_def)
  from baseline_is_exact[OF this, of "''s''"]
  obtain te where "learn_all ''s'' demo_readings (init_trending demo_trend) = Some te"
    "case dget (te_baselines te) ''s'' of None \<Rightarrow> True
     | Some b \<Rightarrow> stats_of (map snd (bl_ring b)) b \<and> set (bl_ring b) \<subseteq> healthy_samples demo_readings"
    by (force split: option.splits)
  ultimately show ?thesis by (fastforce split: option.splits)
qed

text \<open>A critical reading freezes the baseline, and so do as many readings after it as the recovery
pause says, whatever their values are: only the pause counter moves.\<close>

theorem critical_freezes_baseline:
  assumes "dget (te_baselines te) s = Some b"
    and "int (length rs) \<le> tc_critical_pause (te_config te)"
  shows "\<exists>te'. learn_all s ((v, ts, ''Critical'', dir) # rs) te = Some te' \<and>
    (\<exists>n. dget (te_baselines te') s = Some (b\<lparr>bl_critical_pause := n\<rparr>))"
proof -
  have frozen: "\<exists>te'. learn_all s rs te = Some te' \<and>
      (\<exists>n. dget (te_baselines te') s = Some (b\<lparr>bl_critical_pause := n\<rparr>))"
    if "dget (te_baselines te) s = Some (b\<lparr>bl_critical_pause := k\<rparr>)" "int (length rs) \<le> k"
      "k \<le> tc_critical_pause (te_config te)" for rs k te
    using that
  proof (induction rs arbitrary: k te)
    case (Cons r rs)
    obtain v ts h dir where r: "r = (v, ts, h, dir)" by (metis prod_cases4)
    let ?k = "if h = ''Critical'' then tc_critical_pause (te_config te) else k - 1"
    have "update_baseline s v ts h dir te =
        Some (b\<lparr>bl_critical_pause := ?k\<rparr>, put_baseline s (b\<lparr>bl_critical_pause := ?k\<rparr>) te)"
      using Cons.prems by (simp add: update_baseline_def Let_def)
    moreover have "\<exists>te'. learn_all s rs (put_baseline s (b\<lparr>bl_critical_pause := ?k\<rparr>) te) = Some te' \<and>
        (\<exists>n. dget (te_baselines te') s = Some (b\<lparr>bl_critical_pause := n\<rparr>))"
      by (rule Cons.IH[of _ ?k]) (use Cons.prems in \<open>auto simp: put_baseline_def\<close>)
    ultimately show ?case by (simp add: r)
  qed auto
  let ?k = "tc_critical_pause (te_config te)"
  have "update_baseline s v ts ''Critical'' dir te =
      Some (b\<lparr>bl_critical_pause := ?k\<rparr>, put_baseline s (b\<lparr>bl_critical_pause := ?k\<rparr>) te)"
    using assms(1) by (simp add: update_baseline_def Let_def)
  then show ?thesis
    using frozen[of "put_baseline s (b\<lparr>bl_critical_pause := ?k\<rparr>) te" ?k rs] assms(2)
    by (simp add: put_baseline_def)
qed

theorem critical_freezes_baseline_witness:
  "let te = put_baseline ''s'' (fresh_baseline ''s'' 5) (init_trending default_trend_config) in
   \<exists>te' n. learn_all ''s'' [(9, 1, ''Critical'', None), (9, 2, ''OK'', None)] te = Some te' \<and>
     dget (te_baselines te') ''s'' = Some (fresh_baseline ''s'' 5\<lparr>bl_critical_pause := n\<rparr>)"
  using critical_freezes_baseline[of "put_baseline ''s'' (fresh_baseline ''s'' 5) (init_trending default_trend_config)"
      "''s''" "fresh_baseline ''s'' 5" "[(9, 2, ''OK'', None)]" 9 1 None]
  by (simp add: put_baseline_def init_trending_def default_trend_config_def Let_def)

end
