(* ===== verification/Expression.thy ===== *)
theory Expression
  imports Values
begin

text \<open>
  The condition language of skills (\<open>src/src/harkeniq/skills/expression.py\<close>): tokenizer, recursive
  descent parser and evaluator. Characters are the 256 characters of Latin-1, with Python's classes
  on them; a number with a superscript digit is a digit to \<open>str.isdigit\<close> but no number to \<open>int\<close>,
  so it raises. Decimal literals are the exact reals they denote. Every error is a value.
\<close>

subsection \<open>Tokens\<close>

definition max_expression_length :: nat where "max_expression_length = 1000"
definition max_ast_depth :: nat where "max_ast_depth = 20"

definition operators :: "string list" where
  "operators = [''=='', ''!='', ''<='', ''>='', ''<'', ''>'']"

definition reserved_words :: "string list" where
  "reserved_words = [''AND'', ''OR'', ''NOT'']"

datatype token =
  TIdent string | TNum pyval | TStr string | TOp string | TKey string | TDot | TEof

type_synonym tokens = "(token \<times> nat) list"

datatype syntax_error =
    TooLong nat
  | Unterminated nat
  | UnexpectedChar char nat
  | BadNumber nat
  | UnexpectedToken token nat
  | ExpectedOperator string token
  | ExpectedField token nat
  | ExpectedIdentifier
  | ExpectedValue token nat
  | TooDeep nat

text \<open>\<open>str.isdigit\<close>, \<open>str.isalpha\<close> and \<open>str.isalnum\<close> on Latin-1.\<close>

definition ascii_digit :: "char \<Rightarrow> bool" where
  "ascii_digit c = (let n = (of_char c :: nat) in 48 \<le> n \<and> n \<le> 57)"

definition is_digit :: "char \<Rightarrow> bool" where
  "is_digit c = (ascii_digit c \<or> (of_char c :: nat) \<in> {178, 179, 185})"

definition is_alpha :: "char \<Rightarrow> bool" where
  "is_alpha c = (let n = (of_char c :: nat) in
     (65 \<le> n \<and> n \<le> 90) \<or> (97 \<le> n \<and> n \<le> 122) \<or> n \<in> {170, 181, 186} \<or>
     (192 \<le> n \<and> n \<noteq> 215 \<and> n \<noteq> 247))"

definition word_char :: "char \<Rightarrow> bool" where
  "word_char c = (is_alpha c \<or> is_digit c \<or> (of_char c :: nat) \<in> {188, 189, 190} \<or> c = CHR ''_'')"

definition digit_value :: "char \<Rightarrow> int" where
  "digit_value c = int (of_char c) - 48"

definition digits_value :: "string \<Rightarrow> int" where
  "digits_value ds = fold (\<lambda>c n. n * 10 + digit_value c) ds 0"

text \<open>
  The number at the start of a text: its value, unless \<open>int\<close> or \<open>float\<close> refuses it, its length and
  what follows it.
\<close>

definition scan_number :: "string \<Rightarrow> pyval option \<times> nat \<times> string" where
  "scan_number cs =
     (let neg = (cs \<noteq> [] \<and> hd cs = CHR ''-'');
          body = (if neg then tl cs else cs);
          ds = takeWhile is_digit body;
          rest = dropWhile is_digit body;
          sgn = (if neg then -1 else 1);
          k = (if neg then 1 else 0) + length ds in
      if 2 \<le> length rest \<and> hd rest = CHR ''.'' \<and> is_digit (rest ! 1)
      then (let fs = takeWhile is_digit (tl rest) in
            (if list_all ascii_digit (ds @ fs)
             then Some (PyFloat (of_int (sgn * digits_value (ds @ fs)) / 10 ^ length fs)) else None,
             k + 1 + length fs, dropWhile is_digit (tl rest)))
      else (if list_all ascii_digit ds then Some (PyInt (sgn * digits_value ds)) else None, k, rest))"

definition emit :: "token \<Rightarrow> nat \<Rightarrow> syntax_error + tokens \<Rightarrow> syntax_error + tokens" where
  "emit t i r = (case r of Inl e \<Rightarrow> Inl e | Inr ts \<Rightarrow> Inr ((t, i) # ts))"

lemma length_dropWhile_less: "P x \<Longrightarrow> length (dropWhile P (x # xs)) < Suc (length xs)"
  using length_dropWhile_le[of P xs] by simp

lemma scan_number_shorter:
  assumes "is_digit c \<or> c = CHR ''-''" "scan_number (c # cs) = (v, k, rest)"
  shows "length rest < Suc (length cs)"
proof -
  have le: "length (dropWhile is_digit (tl (dropWhile is_digit xs))) \<le> length (dropWhile is_digit xs)" for xs
    by (metis diff_le_self le_trans length_dropWhile_le length_tl)
  show ?thesis
  proof (cases "c = CHR ''-''")
    case True
    then show ?thesis using assms(2) le[of cs] length_dropWhile_le[of is_digit cs]
      by (auto simp: scan_number_def Let_def split: if_splits)
  next
    case False
    with assms(1) have "is_digit c" by simp
    then show ?thesis using assms(2) False le[of "c # cs"] length_dropWhile_less[of is_digit c cs]
      by (auto simp: scan_number_def Let_def split: if_splits)
  qed
qed

function scan :: "nat \<Rightarrow> string \<Rightarrow> syntax_error + tokens" where
  "scan i [] = Inr [(TEof, i)]"
| "scan i (c # cs) =
     (if is_space c then scan (i + 1) cs
      else if take 2 (c # cs) \<in> {''=='', ''!='', ''<='', ''>=''}
      then emit (TOp (take 2 (c # cs))) i (scan (i + 2) (drop 1 cs))
      else if c = CHR ''<'' \<or> c = CHR ''>'' then emit (TOp [c]) i (scan (i + 1) cs)
      else if c = CHR ''.'' then emit TDot i (scan (i + 1) cs)
      else if c = CHR 0x27
      then (let body = takeWhile (\<lambda>x. x \<noteq> CHR 0x27) cs; rest = dropWhile (\<lambda>x. x \<noteq> CHR 0x27) cs in
            if rest = [] then Inl (Unterminated i)
            else emit (TStr body) i (scan (i + length body + 2) (tl rest)))
      else if is_digit c \<or> c = CHR ''-'' \<and> cs \<noteq> [] \<and> is_digit (hd cs)
      then (case scan_number (c # cs) of
            (None, _, _) \<Rightarrow> Inl (BadNumber i)
          | (Some v, k, rest) \<Rightarrow> emit (TNum v) i (scan (i + k) rest))
      else if is_alpha c \<or> c = CHR ''_''
      then (let word = takeWhile word_char (c # cs); rest = dropWhile word_char (c # cs) in
            emit (if upper word \<in> set reserved_words then TKey (upper word) else TIdent word) i
              (scan (i + length word) rest))
      else Inl (UnexpectedChar c i))"
  by pat_completeness auto
termination
proof (relation "measure (\<lambda>(i, cs). length cs)", goal_cases)
  case (6 i c cs x xa)
  then show ?case using length_dropWhile_le[of "\<lambda>x. x \<noteq> CHR 0x27" cs]
    by (auto simp: less_Suc_eq_le intro: order_trans[OF diff_le_self])
next
  case (7 i c cs p q v k rest)
  have "scan_number (c # cs) = (Some v, k, rest)" using 7(7,8,9) by simp
  moreover have "is_digit c \<or> c = CHR ''-''" using 7(6) by blast
  ultimately have "length rest < Suc (length cs)" by (metis scan_number_shorter)
  then show ?case by simp
next
  case (8 i c cs x xa)
  have "word_char c" using 8 by (auto simp: word_char_def)
  then show ?case using 8 length_dropWhile_le[of word_char cs] by (simp add: less_Suc_eq_le)
qed auto

declare scan.simps(2) [simp del]

definition tokenize :: "string \<Rightarrow> syntax_error + tokens" where
  "tokenize s = (if max_expression_length < length s then Inl (TooLong (length s)) else scan 0 s)"

subsection \<open>Trees and the parser\<close>

datatype operand = Lit pyval | FieldRef string

datatype ast =
    Comparison string string operand
  | BooleanOp string ast ast
  | NotOp ast

text \<open>The tokens end with \<open>TEof\<close>; the parser's position is the list of those still to read.\<close>

definition current :: "tokens \<Rightarrow> token \<times> nat" where
  "current ts = (case ts of [] \<Rightarrow> (TEof, 0) | t # _ \<Rightarrow> t)"

fun join_dots :: "string list \<Rightarrow> string" where
  "join_dots [] = []"
| "join_dots [p] = p"
| "join_dots (p # ps) = p @ CHR ''.'' # join_dots ps"

fun dotted :: "tokens \<Rightarrow> syntax_error + string list \<times> tokens" where
  "dotted ((TDot, _) # ts) =
     (case ts of
        (TIdent s, _) # ts' \<Rightarrow>
          (case dotted ts' of Inl e \<Rightarrow> Inl e | Inr (ps, r) \<Rightarrow> Inr (s # ps, r))
      | _ \<Rightarrow> Inl ExpectedIdentifier)"
| "dotted ts = Inr ([], ts)"

definition field_ref :: "tokens \<Rightarrow> syntax_error + string \<times> tokens" where
  "field_ref ts =
     (case current ts of
        (TIdent s, _) \<Rightarrow>
          (case dotted (tl ts) of Inl e \<Rightarrow> Inl e | Inr (ps, r) \<Rightarrow> Inr (join_dots (s # ps), r))
      | (t, i) \<Rightarrow> Inl (ExpectedField t i))"

definition parse_value :: "tokens \<Rightarrow> syntax_error + operand \<times> tokens" where
  "parse_value ts =
     (case current ts of
        (TNum v, _) \<Rightarrow> Inr (Lit v, tl ts)
      | (TStr s, _) \<Rightarrow> Inr (Lit (PyStr s), tl ts)
      | (TIdent s, _) \<Rightarrow>
          if lower s \<in> {''true'', ''false''} then Inr (Lit (PyBool (lower s = ''true'')), tl ts)
          else (case field_ref ts of Inl e \<Rightarrow> Inl e | Inr (f, r) \<Rightarrow> Inr (FieldRef f, r))
      | (t, i) \<Rightarrow> Inl (ExpectedValue t i))"

definition comparison :: "tokens \<Rightarrow> syntax_error + ast \<times> tokens" where
  "comparison ts =
     (case field_ref ts of
        Inl e \<Rightarrow> Inl e
      | Inr (f, r) \<Rightarrow>
          (case current r of
             (TOp oper, _) \<Rightarrow>
               (case parse_value (tl r) of Inl e \<Rightarrow> Inl e | Inr (v, r') \<Rightarrow> Inr (Comparison f oper v, r'))
           | (t, _) \<Rightarrow> Inl (ExpectedOperator f t)))"

fun not_expr :: "tokens \<Rightarrow> syntax_error + ast \<times> tokens" where
  "not_expr [] = comparison []"
| "not_expr (t # ts) =
     (if fst t = TKey ''NOT''
      then (case not_expr ts of Inl e \<Rightarrow> Inl e | Inr (a, r) \<Rightarrow> Inr (NotOp a, r))
      else comparison (t # ts))"

lemma dotted_shorter: "dotted ts = Inr (ps, r) \<Longrightarrow> length r \<le> length ts"
  by (induction ts arbitrary: ps rule: dotted.induct)
    (auto split: list.splits token.splits sum.splits, fastforce+)

lemma field_ref_shorter: "field_ref ts = Inr (f, r) \<Longrightarrow> length r < length ts"
  using dotted_shorter[of "tl ts"]
  by (cases ts) (fastforce simp: field_ref_def current_def split: token.splits sum.splits prod.splits)+

lemma parse_value_shorter: "parse_value ts = Inr (v, r) \<Longrightarrow> length r < length ts"
  using field_ref_shorter[of ts]
  by (cases ts) (fastforce simp: parse_value_def current_def split: token.splits sum.splits prod.splits if_splits)+

lemma comparison_shorter: "comparison ts = Inr (a, r) \<Longrightarrow> length r < length ts"
  by (auto simp: comparison_def split: sum.splits prod.splits token.splits
      dest!: field_ref_shorter parse_value_shorter)

lemma not_expr_shorter: "not_expr ts = Inr (a, r) \<Longrightarrow> length r < length ts"
  by (induction ts arbitrary: a)
    (fastforce dest: comparison_shorter split: if_splits sum.splits prod.splits)+

function and_loop :: "ast \<Rightarrow> tokens \<Rightarrow> syntax_error + ast \<times> tokens" where
  "and_loop node ts =
     (if ts \<noteq> [] \<and> fst (current ts) = TKey ''AND''
      then (case not_expr (tl ts) of
            Inl e \<Rightarrow> Inl e
          | Inr (b, r) \<Rightarrow> and_loop (BooleanOp ''AND'' node b) r)
      else Inr (node, ts))"
  by pat_completeness auto
termination
  by (relation "measure (\<lambda>(node, ts). length ts)") (auto dest: not_expr_shorter)

declare and_loop.simps [simp del]

definition and_expr :: "tokens \<Rightarrow> syntax_error + ast \<times> tokens" where
  "and_expr ts = (case not_expr ts of Inl e \<Rightarrow> Inl e | Inr (a, r) \<Rightarrow> and_loop a r)"

lemma and_loop_shorter: "and_loop node ts = Inr (a, r) \<Longrightarrow> length r \<le> length ts"
proof (induction node ts rule: and_loop.induct)
  case (1 node ts)
  show ?case
  proof (cases "ts \<noteq> [] \<and> fst (current ts) = TKey ''AND''")
    case True
    then obtain b r' where b: "not_expr (tl ts) = Inr (b, r')"
      using "1.prems" by (auto simp: and_loop.simps[of node ts] split: sum.splits)
    have "length r \<le> length r'"
      using "1.IH"[OF True b refl] "1.prems" True b by (simp add: and_loop.simps[of node ts])
    then show ?thesis using not_expr_shorter[OF b] by simp
  qed (use "1.prems" in \<open>auto simp: and_loop.simps[of node ts] split: if_splits\<close>)
qed

lemma and_expr_shorter: "and_expr ts = Inr (a, r) \<Longrightarrow> length r < length ts"
  by (fastforce simp: and_expr_def dest: not_expr_shorter and_loop_shorter split: sum.splits prod.splits)

function or_loop :: "ast \<Rightarrow> tokens \<Rightarrow> syntax_error + ast \<times> tokens" where
  "or_loop node ts =
     (if ts \<noteq> [] \<and> fst (current ts) = TKey ''OR''
      then (case and_expr (tl ts) of
            Inl e \<Rightarrow> Inl e
          | Inr (b, r) \<Rightarrow> or_loop (BooleanOp ''OR'' node b) r)
      else Inr (node, ts))"
  by pat_completeness auto
termination
  by (relation "measure (\<lambda>(node, ts). length ts)") (auto dest: and_expr_shorter)

declare or_loop.simps [simp del]

definition or_expr :: "tokens \<Rightarrow> syntax_error + ast \<times> tokens" where
  "or_expr ts = (case and_expr ts of Inl e \<Rightarrow> Inl e | Inr (a, r) \<Rightarrow> or_loop a r)"

definition parse_tokens :: "tokens \<Rightarrow> syntax_error + ast" where
  "parse_tokens ts =
     (case or_expr ts of
        Inl e \<Rightarrow> Inl e
      | Inr (a, r) \<Rightarrow>
          if fst (current r) \<noteq> TEof then Inl (UnexpectedToken (fst (current r)) (snd (current r))) else Inr a)"

fun ast_depth :: "ast \<Rightarrow> nat" where
  "ast_depth (Comparison f oper v) = 1"
| "ast_depth (NotOp a) = 1 + ast_depth a"
| "ast_depth (BooleanOp oper l r) = 1 + max (ast_depth l) (ast_depth r)"

definition parse :: "string \<Rightarrow> syntax_error + ast" where
  "parse s =
     (case tokenize s of
        Inl e \<Rightarrow> Inl e
      | Inr ts \<Rightarrow>
          (case parse_tokens ts of
             Inl e \<Rightarrow> Inl e
           | Inr a \<Rightarrow> if max_ast_depth < ast_depth a then Inl (TooDeep (ast_depth a)) else Inr a))"

fun collect_fields :: "ast \<Rightarrow> string set" where
  "collect_fields (Comparison f oper v) = insert f (case v of FieldRef g \<Rightarrow> {g} | Lit _ \<Rightarrow> {})"
| "collect_fields (NotOp a) = collect_fields a"
| "collect_fields (BooleanOp oper l r) = collect_fields l \<union> collect_fields r"

subsection \<open>Evaluation\<close>

fun split_dots :: "string \<Rightarrow> string list" where
  "split_dots [] = [[]]"
| "split_dots (c # cs) =
     (if c = CHR ''.'' then [] # split_dots cs
      else (case split_dots cs of p # ps \<Rightarrow> (c # p) # ps | [] \<Rightarrow> [[c]]))"

fun walk_path :: "pyval \<Rightarrow> string list \<Rightarrow> pyval" where
  "walk_path v [] = v"
| "walk_path v (p # ps) =
     (case as_dict v of
        None \<Rightarrow> PyNone
      | Some d \<Rightarrow> (case dget d p of None \<Rightarrow> PyNone | Some u \<Rightarrow> walk_path u ps))"

definition resolve_field :: "pydict \<Rightarrow> string \<Rightarrow> pyval" where
  "resolve_field ctx name =
     (case dget ctx name of
        Some v \<Rightarrow> v
      | None \<Rightarrow> if CHR ''.'' \<in> set name then walk_path (PyDict ctx) (split_dots name) else PyNone)"

definition is_bool :: "pyval \<Rightarrow> bool" where
  "is_bool v = (case v of PyBool _ \<Rightarrow> True | _ \<Rightarrow> False)"

definition equality :: "string \<Rightarrow> bool \<Rightarrow> bool" where
  "equality oper eq = (if oper = ''=='' then eq else if oper = ''!='' then \<not> eq else False)"

definition compare_numbers :: "string \<Rightarrow> real \<Rightarrow> real \<Rightarrow> bool" where
  "compare_numbers oper x y =
     (if oper = ''<'' then x < y else if oper = ''>'' then y < x
      else if oper = ''<='' then x \<le> y else if oper = ''>='' then y \<le> x
      else equality oper (x = y))"

definition compare_values :: "pyval \<Rightarrow> string \<Rightarrow> pyval \<Rightarrow> bool" where
  "compare_values l oper r =
     (if is_bool l \<or> is_bool r then is_bool l \<and> is_bool r \<and> equality oper (l = r)
      else (case (py_number l, py_number r) of
          (Some x, Some y) \<Rightarrow> compare_numbers oper x y
        | _ \<Rightarrow> (case (as_str l, as_str r) of (Some s, Some t) \<Rightarrow> equality oper (s = t) | _ \<Rightarrow> False)))"

definition operand_value :: "pydict \<Rightarrow> operand \<Rightarrow> pyval" where
  "operand_value ctx v = (case v of FieldRef f \<Rightarrow> resolve_field ctx f | Lit x \<Rightarrow> x)"

fun evaluate :: "ast \<Rightarrow> pydict \<Rightarrow> bool" where
  "evaluate (Comparison f oper v) ctx =
     (let l = resolve_field ctx f; r = operand_value ctx v in
      if l = PyNone \<or> r = PyNone then False else compare_values l oper r)"
| "evaluate (BooleanOp oper l r) ctx =
     (if oper = ''AND'' then evaluate l ctx \<and> evaluate r ctx else evaluate l ctx \<or> evaluate r ctx)"
| "evaluate (NotOp a) ctx = (\<not> evaluate a ctx)"

subsection \<open>The trees of the grammar\<close>

text \<open>There are no parentheses: which trees a condition can denote.\<close>

fun not_shape :: "ast \<Rightarrow> bool" where
  "not_shape (Comparison f oper v) = True"
| "not_shape (NotOp a) = not_shape a"
| "not_shape (BooleanOp oper l r) = False"

fun and_shape :: "ast \<Rightarrow> bool" where
  "and_shape (BooleanOp oper l r) = (oper = ''AND'' \<and> and_shape l \<and> not_shape r)"
| "and_shape a = not_shape a"

fun or_shape :: "ast \<Rightarrow> bool" where
  "or_shape (BooleanOp oper l r) =
     (if oper = ''OR'' then or_shape l \<and> and_shape r else and_shape (BooleanOp oper l r))"
| "or_shape a = and_shape a"

lemma not_shape_and: "not_shape a \<Longrightarrow> and_shape a" by (cases a) auto
lemma and_shape_or: "and_shape a \<Longrightarrow> or_shape a" by (cases a) auto

lemma comparison_shape: "comparison ts = Inr (a, r) \<Longrightarrow> not_shape a"
  by (auto simp: comparison_def split: sum.splits prod.splits token.splits)

lemma not_expr_shape: "not_expr ts = Inr (a, r) \<Longrightarrow> not_shape a"
  by (induction ts arbitrary: a) (auto dest: comparison_shape split: if_splits sum.splits)

lemma and_loop_shape: "and_loop node ts = Inr (a, r) \<Longrightarrow> and_shape node \<Longrightarrow> and_shape a"
proof (induction node ts rule: and_loop.induct)
  case (1 node ts)
  then show ?case
    by (auto simp: and_loop.simps[of node ts] dest: not_expr_shape split: if_splits sum.splits)
qed

lemma and_expr_shape: "and_expr ts = Inr (a, r) \<Longrightarrow> and_shape a"
  by (auto simp: and_expr_def dest!: and_loop_shape not_expr_shape intro: not_shape_and split: sum.splits)

lemma or_loop_shape: "or_loop node ts = Inr (a, r) \<Longrightarrow> or_shape node \<Longrightarrow> or_shape a"
proof (induction node ts rule: or_loop.induct)
  case (1 node ts)
  then show ?case
    by (auto simp: or_loop.simps[of node ts] dest: and_expr_shape split: if_splits sum.splits)
qed

lemma or_expr_shape: "or_expr ts = Inr (a, r) \<Longrightarrow> or_shape a"
  by (auto simp: or_expr_def dest!: or_loop_shape and_expr_shape intro: and_shape_or split: sum.splits)

lemma parse_shape:
  assumes "parse s = Inr a"
  shows "or_shape a" "ast_depth a \<le> max_ast_depth" "length s \<le> max_expression_length"
  using assms
  by (auto simp: parse_def parse_tokens_def tokenize_def dest: or_expr_shape split: sum.splits if_splits)

subsection \<open>Printing a tree\<close>

definition printable_word :: "string \<Rightarrow> bool" where
  "printable_word p \<longleftrightarrow> p \<noteq> [] \<and> list_all word_char p \<and>
     (is_alpha (hd p) \<or> hd p = CHR ''_'') \<and> upper p \<notin> set reserved_words"

definition show_int :: "int \<Rightarrow> string" where
  "show_int i = (if i < 0 then CHR ''-'' # decimal (nat (- i)) else decimal (nat i))"

definition show_operand :: "operand \<Rightarrow> string" where
  "show_operand v = (case v of
     FieldRef f \<Rightarrow> f
   | Lit (PyInt i) \<Rightarrow> show_int i
   | Lit (PyBool b) \<Rightarrow> (if b then ''true'' else ''false'')
   | Lit (PyStr s) \<Rightarrow> CHR 0x27 # s @ [CHR 0x27]
   | Lit _ \<Rightarrow> [])"

fun unparse :: "ast \<Rightarrow> string" where
  "unparse (Comparison f oper v) = f @ '' '' @ oper @ '' '' @ show_operand v"
| "unparse (BooleanOp oper l r) = unparse l @ '' '' @ oper @ '' '' @ unparse r"
| "unparse (NotOp a) = ''NOT '' @ unparse a"

definition printable_field :: "string list \<Rightarrow> bool" where
  "printable_field ps \<longleftrightarrow> ps \<noteq> [] \<and> list_all printable_word ps"

definition printable_operand :: "operand \<Rightarrow> bool" where
  "printable_operand v = (case v of
     FieldRef f \<Rightarrow> (\<exists>ps. f = join_dots ps \<and> printable_field ps \<and> lower (hd ps) \<notin> {''true'', ''false''})
   | Lit (PyInt i) \<Rightarrow> True
   | Lit (PyBool b) \<Rightarrow> True
   | Lit (PyStr s) \<Rightarrow> CHR 0x27 \<notin> set s
   | Lit _ \<Rightarrow> False)"

fun printable :: "ast \<Rightarrow> bool" where
  "printable (Comparison f oper v) \<longleftrightarrow>
     (\<exists>ps. f = join_dots ps \<and> printable_field ps) \<and> oper \<in> set operators \<and> printable_operand v"
| "printable (BooleanOp oper l r) = (printable l \<and> printable r)"
| "printable (NotOp a) = printable a"

subsection \<open>Printed text is scanned back\<close>

definition scans :: "string \<Rightarrow> token list \<Rightarrow> bool" where
  "scans cs ts \<longleftrightarrow> (\<forall>i. \<exists>tps. scan i cs = Inr tps \<and> map fst tps = ts)"

definition ends_blank :: "string \<Rightarrow> bool" where
  "ends_blank rest \<longleftrightarrow> rest = [] \<or> hd rest = CHR '' ''"

definition ends_word :: "string \<Rightarrow> bool" where
  "ends_word rest \<longleftrightarrow> rest = [] \<or> \<not> word_char (hd rest)"

lemma scansI: "(\<And>i. \<exists>k. scan i cs = emit t i (scan k rest)) \<Longrightarrow> scans rest ts \<Longrightarrow> scans cs (t # ts)"
  unfolding scans_def emit_def by (metis (no_types, lifting) list.simps(9) fst_conv sum.simps(6))

lemma scans_Nil: "scans [] [TEof]"
  by (simp add: scans_def)

lemma scans_space: "scans rest ts \<Longrightarrow> scans (CHR '' '' # rest) ts"
  by (simp add: scans_def scan.simps(2) is_space_def)

lemma ends_blank_word: "ends_blank rest \<Longrightarrow> ends_word rest"
  by (auto simp: ends_blank_def ends_word_def word_char_def is_alpha_def is_digit_def ascii_digit_def)

lemma takeWhile_word:
  "list_all word_char p \<Longrightarrow> ends_word rest \<Longrightarrow>
     takeWhile word_char (p @ rest) = p \<and> dropWhile word_char (p @ rest) = rest"
  by (cases rest) (auto simp: ends_word_def list_all_iff)

lemma scan_word:
  assumes "w \<noteq> []" "is_alpha (hd w) \<or> hd w = CHR ''_''" "list_all word_char w" "ends_word rest"
  shows "scan i (w @ rest) =
     emit (if upper w \<in> set reserved_words then TKey (upper w) else TIdent w) i (scan (i + length w) rest)"
proof -
  obtain c cs where w: "w = c # cs" using assms(1) by (cases w) auto
  have c: "\<not> is_space c" "c \<notin> {CHR ''<'', CHR ''>'', CHR ''.'', CHR 0x27, CHR ''='', CHR ''!'', CHR ''-''}"
    "\<not> is_digit c" "is_alpha c \<or> c = CHR ''_''"
    using assms(2) w by (auto simp: is_alpha_def is_space_def is_digit_def ascii_digit_def Let_def)
  then have op: "take 2 (c # cs @ rest) \<notin> {''=='', ''!='', ''<='', ''>=''}"
    by (cases "cs @ rest") auto
  have tw: "takeWhile word_char (c # cs @ rest) = c # cs" "dropWhile word_char (c # cs @ rest) = rest"
    using takeWhile_word[OF assms(3,4)] w by auto
  have "scan i (c # cs @ rest) =
     (let word = takeWhile word_char (c # cs @ rest); r = dropWhile word_char (c # cs @ rest) in
      emit (if upper word \<in> set reserved_words then TKey (upper word) else TIdent word) i
        (scan (i + length word) r))"
    using c op by (simp add: scan.simps(2))
  then show ?thesis unfolding w append_Cons tw Let_def .
qed

lemma scans_ident:
  assumes "printable_word p" "ends_word rest" "scans rest ts"
  shows "scans (p @ rest) (TIdent p # ts)"
proof (rule scansI[OF _ assms(3)])
  show "\<exists>k. scan i (p @ rest) = emit (TIdent p) i (scan k rest)" for i
    using scan_word[of p rest i] assms by (auto simp: printable_word_def)
qed

lemma scans_key:
  assumes "k \<in> set reserved_words" "ends_word rest" "scans rest ts"
  shows "scans (k @ rest) (TKey k # ts)"
proof (rule scansI[OF _ assms(3)])
  have k: "k \<noteq> []" "list_all word_char k" "is_alpha (hd k)" "upper k = k"
    using assms(1) by (auto simp: reserved_words_def word_char_def is_alpha_def upper_char_def)
  show "\<exists>n. scan i (k @ rest) = emit (TKey k) i (scan n rest)" for i
    using scan_word[of k rest i] assms k by auto
qed

lemma scans_dot: "scans rest ts \<Longrightarrow> scans (CHR ''.'' # rest) (TDot # ts)"
  by (rule scansI) (auto simp: scan.simps(2) is_space_def)

lemma scans_operator:
  assumes "oper \<in> set operators" "scans rest ts"
  shows "scans (oper @ CHR '' '' # rest) (TOp oper # ts)"
proof (rule scansI)
  show "scans (CHR '' '' # rest) ts" by (rule scans_space[OF assms(2)])
  show "\<exists>k. scan i (oper @ CHR '' '' # rest) = emit (TOp oper) i (scan k (CHR '' '' # rest))" for i
    using assms(1) by (auto simp: operators_def scan.simps(2) is_space_def)
qed

lemma scans_string:
  assumes "CHR 0x27 \<notin> set s" "scans rest ts"
  shows "scans (CHR 0x27 # s @ CHR 0x27 # rest) (TStr s # ts)"
proof (rule scansI[OF _ assms(2)])
  have "takeWhile (\<lambda>x. x \<noteq> CHR 0x27) (s @ CHR 0x27 # rest) = s"
    "dropWhile (\<lambda>x. x \<noteq> CHR 0x27) (s @ CHR 0x27 # rest) = CHR 0x27 # rest"
    using assms(1) by (induction s) auto
  then show "\<exists>k. scan i (CHR 0x27 # s @ CHR 0x27 # rest) = emit (TStr s) i (scan k rest)" for i
    by (cases "s @ CHR 0x27 # rest") (auto simp: scan.simps(2) is_space_def)
qed

lemma digit_char:
  "k < 10 \<Longrightarrow> ascii_digit (''0123456789'' ! k)" "k < 10 \<Longrightarrow> digit_value (''0123456789'' ! k) = int k"
  by (auto dest!: below_ten simp: ascii_digit_def digit_value_def)

lemma ascii_decimal: "list_all ascii_digit (decimal n)"
  by (rule decimal_digits) (rule digit_char)

lemma digits_value_decimal: "digits_value (decimal n) = int n"
proof (induction n rule: decimal.induct)
  case (1 n)
  show ?case
  proof (cases "n < 10")
    case True
    then show ?thesis by (subst decimal.simps) (simp add: digits_value_def digit_char)
  next
    case False
    have "digits_value (decimal n) = digits_value (decimal (n div 10)) * 10 + digit_value (''0123456789'' ! (n mod 10))"
      using False by (subst decimal.simps) (simp add: digits_value_def)
    also have "\<dots> = int (n div 10) * 10 + int (n mod 10)"
      using 1[OF False] digit_char(2)[of "n mod 10"] by simp
    also have "\<dots> = int (n div 10 * 10 + n mod 10)" by (simp only: of_nat_add of_nat_mult of_nat_numeral)
    finally show ?thesis by (simp only: div_mult_mod_eq)
  qed
qed

lemma is_digit_ascii: "list_all ascii_digit ds \<Longrightarrow> list_all is_digit ds"
  by (auto simp: list_all_iff is_digit_def)

lemma takeWhile_digits:
  "list_all is_digit ds \<Longrightarrow> ends_blank rest \<Longrightarrow>
     takeWhile is_digit (ds @ rest) = ds \<and> dropWhile is_digit (ds @ rest) = rest"
  by (cases rest) (auto simp: ends_blank_def list_all_iff is_digit_def ascii_digit_def)

lemma scan_number_int:
  assumes "ends_blank rest"
  shows "scan_number (show_int i @ rest) = (Some (PyInt i), length (show_int i), rest)"
proof -
  define n where "n = nat (if i < 0 then - i else i)"
  have tw: "takeWhile is_digit (decimal n @ rest) = decimal n" "dropWhile is_digit (decimal n @ rest) = rest"
    using takeWhile_digits[OF is_digit_ascii[OF ascii_decimal] assms] by auto
  have hd: "hd (decimal n @ rest) \<noteq> CHR ''-''" "decimal n @ rest \<noteq> []"
    using ascii_decimal[of n] by (cases "decimal n"; simp add: ascii_digit_def; fastforce)+
  have dot: "\<not> (2 \<le> length rest \<and> hd rest = CHR ''.'' \<and> is_digit (rest ! 1))"
    using assms by (auto simp: ends_blank_def)
  show ?thesis
  proof (cases "i < 0")
    case True
    then show ?thesis using tw dot ascii_decimal[of n]
      by (simp add: scan_number_def show_int_def n_def digits_value_decimal Let_def)
  next
    case False
    then show ?thesis using tw dot hd ascii_decimal[of n]
      by (simp add: scan_number_def show_int_def n_def digits_value_decimal Let_def)
  qed
qed

lemma scan_digits:
  assumes "is_digit c \<or> c = CHR ''-'' \<and> cs \<noteq> [] \<and> is_digit (hd cs)"
    "scan_number (c # cs) = (Some v, k, rest)"
  shows "scan i (c # cs) = emit (TNum v) i (scan (i + k) rest)"
proof -
  have c: "\<not> is_space c" "c \<notin> {CHR ''<'', CHR ''>'', CHR ''.'', CHR 0x27, CHR ''='', CHR ''!''}"
    using assms(1) by (auto simp: is_space_def is_digit_def ascii_digit_def Let_def)
  then have "take 2 (c # cs) \<notin> {''=='', ''!='', ''<='', ''>=''}"
    by (cases cs) auto
  with c assms show ?thesis by (simp add: scan.simps(2))
qed

lemma scans_int:
  assumes "ends_blank rest" "scans rest ts"
  shows "scans (show_int i @ rest) (TNum (PyInt i) # ts)"
proof (rule scansI[OF _ assms(2)])
  obtain c cs where s: "show_int i @ rest = c # cs" by (cases "show_int i @ rest") (auto simp: show_int_def split: if_splits)
  have "list_all is_digit (decimal n)" for n by (rule is_digit_ascii[OF ascii_decimal])
  then have "is_digit c \<or> c = CHR ''-'' \<and> cs \<noteq> [] \<and> is_digit (hd cs)"
    using s by (cases "decimal (nat (- i))"; cases "decimal (nat i)")
      (auto simp: show_int_def list_all_iff split: if_splits, (metis list.set_intros(1))+)
  then show "\<exists>k. scan j (show_int i @ rest) = emit (TNum (PyInt i)) j (scan k rest)" for j
    using scan_digits[of c cs] scan_number_int[OF assms(1), of i] unfolding s by blast
qed

fun field_toks :: "string list \<Rightarrow> token list" where
  "field_toks [] = []"
| "field_toks [p] = [TIdent p]"
| "field_toks (p # ps) = TIdent p # TDot # field_toks ps"

lemma scans_field:
  assumes "printable_field ps" "ends_word rest" "scans rest ts"
  shows "scans (join_dots ps @ rest) (field_toks ps @ ts)"
  using assms(1)
proof (induction ps rule: field_toks.induct)
  case (3 p q ps)
  have dot: "ends_word (CHR ''.'' # r)" for r
    by (simp add: ends_word_def word_char_def is_alpha_def is_digit_def ascii_digit_def)
  have "printable_word p" "printable_field (q # ps)" using 3(2) by (auto simp: printable_field_def)
  then show ?case
    using scans_ident[OF _ dot scans_dot[OF 3(1)]] by simp
qed (use assms(2,3) in \<open>auto simp: printable_field_def intro: scans_ident\<close>)

lemma split_dots_word: "CHR ''.'' \<notin> set p \<Longrightarrow> split_dots p = [p]"
  by (induction p) auto

lemma split_dots_append: "CHR ''.'' \<notin> set p \<Longrightarrow> split_dots (p @ CHR ''.'' # r) = p # split_dots r"
  by (induction p) auto

lemma word_no_dot: "printable_word p \<Longrightarrow> CHR ''.'' \<notin> set p"
  by (auto simp: printable_word_def list_all_iff word_char_def is_alpha_def is_digit_def ascii_digit_def)

lemma split_dots_join: "printable_field ps \<Longrightarrow> split_dots (join_dots ps) = ps"
  by (induction ps rule: join_dots.induct)
    (auto simp: printable_field_def split_dots_word split_dots_append word_no_dot)

definition operand_toks :: "operand \<Rightarrow> token list" where
  "operand_toks v = (case v of
     FieldRef f \<Rightarrow> field_toks (split_dots f)
   | Lit (PyBool b) \<Rightarrow> [TIdent (if b then ''true'' else ''false'')]
   | Lit (PyStr s) \<Rightarrow> [TStr s]
   | Lit x \<Rightarrow> [TNum x])"

fun tree_toks :: "ast \<Rightarrow> token list" where
  "tree_toks (Comparison f oper v) = field_toks (split_dots f) @ TOp oper # operand_toks v"
| "tree_toks (BooleanOp oper l r) = tree_toks l @ TKey oper # tree_toks r"
| "tree_toks (NotOp a) = TKey ''NOT'' # tree_toks a"

lemma bool_words: "printable_word ''true''" "printable_word ''false''"
  by (code_simp, code_simp)

lemma scans_operand:
  assumes "printable_operand v" "ends_blank rest" "scans rest ts"
  shows "scans (show_operand v @ rest) (operand_toks v @ ts)"
proof (cases v)
  case (FieldRef f)
  then obtain ps where f: "f = join_dots ps" "printable_field ps"
    using assms(1) by (auto simp: printable_operand_def)
  then show ?thesis
    using scans_field[OF f(2) ends_blank_word[OF assms(2)] assms(3)] FieldRef
    by (simp add: show_operand_def operand_toks_def split_dots_join)
next
  case (Lit x)
  then show ?thesis using assms ends_blank_word[OF assms(2)]
    by (cases x) (auto simp: printable_operand_def show_operand_def operand_toks_def
        intro: scans_ident[OF bool_words(1), simplified] scans_ident[OF bool_words(2), simplified]
          scans_string scans_int)
qed

lemma ends_blank_space [simp]: "ends_blank (CHR '' '' # r)" "ends_word (CHR '' '' # r)"
  by (simp_all add: ends_blank_def ends_blank_word)

text \<open>The trees that hold only the two connectives.\<close>

fun connectives :: "ast \<Rightarrow> bool" where
  "connectives (Comparison f oper v) = True"
| "connectives (NotOp a) = connectives a"
| "connectives (BooleanOp oper l r) = (oper \<in> {''AND'', ''OR''} \<and> connectives l \<and> connectives r)"

lemma shape_connectives:
  "not_shape a \<Longrightarrow> connectives a" "and_shape a \<Longrightarrow> connectives a" "or_shape a \<Longrightarrow> connectives a"
  by (induction a) (auto split: if_splits)

lemma scans_unparse:
  assumes "printable a" "connectives a" "ends_blank rest" "scans rest ts"
  shows "scans (unparse a @ rest) (tree_toks a @ ts)"
  using assms
proof (induction a arbitrary: rest ts)
  case (Comparison f oper v)
  then obtain ps where f: "f = join_dots ps" "printable_field ps" by auto
  have "scans (oper @ CHR '' '' # show_operand v @ rest) (TOp oper # operand_toks v @ ts)"
    using Comparison scans_operand[of v rest ts] by (auto intro: scans_operator)
  from scans_field[OF f(2) _ scans_space[OF this]] show ?case
    using f by (simp add: split_dots_join)
next
  case (BooleanOp oper l r)
  have "scans (unparse r @ rest) (tree_toks r @ ts)" using BooleanOp by simp
  then have "scans (oper @ CHR '' '' # unparse r @ rest) (TKey oper # tree_toks r @ ts)"
    using BooleanOp.prems(2) by (auto intro!: scans_key scans_space simp: reserved_words_def)
  from scans_space[OF this] show ?case
    using BooleanOp.IH(1)[of "CHR '' '' # oper @ CHR '' '' # unparse r @ rest"] BooleanOp.prems by simp
next
  case (NotOp a)
  have "scans (CHR '' '' # unparse a @ rest) (tree_toks a @ ts)"
    using NotOp by (intro scans_space) simp
  then have "scans (''NOT'' @ CHR '' '' # unparse a @ rest) (TKey ''NOT'' # tree_toks a @ ts)"
    by (intro scans_key) (simp_all add: reserved_words_def)
  then show ?case by simp
qed

subsection \<open>Printed tokens are parsed back\<close>

definition followed :: "token list \<Rightarrow> bool" where
  "followed ts \<longleftrightarrow> ts \<noteq> [] \<and> hd ts \<noteq> TDot"

lemma dotted_toks:
  "map fst tps = concat (map (\<lambda>p. [TDot, TIdent p]) ps) @ ts \<Longrightarrow> followed ts \<Longrightarrow>
     \<exists>r. dotted tps = Inr (ps, r) \<and> map fst r = ts"
proof (induction ps arbitrary: tps)
  case Nil
  then show ?case by (cases tps; cases "fst (hd tps)") (auto simp: followed_def)
next
  case (Cons p ps)
  then obtain i j tps' where t: "tps = (TDot, i) # (TIdent p, j) # tps'"
    and "map fst tps' = concat (map (\<lambda>p. [TDot, TIdent p]) ps) @ ts"
    by (auto simp: map_eq_Cons_conv)
  from Cons.IH[OF this(2) Cons.prems(2)] show ?case by (auto simp: t)
qed

lemma field_toks_Cons: "field_toks (p # ps) = TIdent p # concat (map (\<lambda>p. [TDot, TIdent p]) ps)"
  by (induction ps arbitrary: p) auto

lemma field_ref_toks:
  assumes "map fst tps = field_toks ps @ ts" "ps \<noteq> []" "followed ts"
  shows "\<exists>r. field_ref tps = Inr (join_dots ps, r) \<and> map fst r = ts"
proof -
  obtain q qs where ps: "ps = q # qs" using assms(2) by (cases ps) auto
  then obtain i tps' where t: "tps = (TIdent q, i) # tps'"
    and "map fst tps' = concat (map (\<lambda>p. [TDot, TIdent p]) qs) @ ts"
    using assms(1) by (auto simp: field_toks_Cons map_eq_Cons_conv)
  from dotted_toks[OF this(2) assms(3)] show ?thesis
    by (auto simp: t ps field_ref_def current_def)
qed

lemma parse_value_toks:
  assumes "map fst tps = operand_toks v @ ts" "printable_operand v" "followed ts"
  shows "\<exists>r. parse_value tps = Inr (v, r) \<and> map fst r = ts"
proof (cases v)
  case (FieldRef f)
  then obtain ps where f: "f = join_dots ps" "printable_field ps" "lower (hd ps) \<notin> {''true'', ''false''}"
    using assms(2) by (auto simp: printable_operand_def)
  have m: "map fst tps = field_toks ps @ ts" "ps \<noteq> []"
    using assms(1) f FieldRef by (auto simp: operand_toks_def split_dots_join printable_field_def)
  then obtain i tps' where t: "tps = (TIdent (hd ps), i) # tps'"
    by (cases ps) (auto simp: field_toks_Cons map_eq_Cons_conv)
  from field_ref_toks[OF m assms(3)] show ?thesis
    using f FieldRef by (auto simp: parse_value_def current_def t)
next
  case (Lit x)
  have tf: "lower ''true'' = ''true''" "lower ''false'' = ''false''" by (code_simp, code_simp)
  show ?thesis
  proof (cases x)
    case (PyBool b)
    then show ?thesis using assms(1) Lit tf
      by (cases b) (auto simp: operand_toks_def parse_value_def current_def map_eq_Cons_conv
          split: list.splits)
  qed (use Lit assms in \<open>auto simp: printable_operand_def operand_toks_def parse_value_def current_def map_eq_Cons_conv\<close>)
qed

lemma comparison_toks:
  assumes "map fst tps = tree_toks (Comparison f oper v) @ ts" "printable (Comparison f oper v)" "followed ts"
  shows "\<exists>r. comparison tps = Inr (Comparison f oper v, r) \<and> map fst r = ts"
proof -
  obtain ps where f: "f = join_dots ps" "printable_field ps" using assms(2) by auto
  have "map fst tps = field_toks ps @ TOp oper # operand_toks v @ ts"
    using assms(1) f by (simp add: split_dots_join)
  then obtain r where r: "field_ref tps = Inr (f, r)" "map fst r = TOp oper # operand_toks v @ ts"
    using field_ref_toks[of tps ps "TOp oper # operand_toks v @ ts"] f
    by (auto simp: printable_field_def followed_def)
  then obtain i r' where r': "r = (TOp oper, i) # r'" "map fst r' = operand_toks v @ ts"
    by (auto simp: map_eq_Cons_conv)
  then obtain r2 where "parse_value r' = Inr (v, r2)" "map fst r2 = ts"
    using parse_value_toks[OF r'(2) _ assms(3)] assms(2) by auto
  then show ?thesis using r(1) r' by (simp add: comparison_def current_def)
qed

lemma not_expr_toks:
  "map fst tps = tree_toks a @ ts \<Longrightarrow> printable a \<Longrightarrow> not_shape a \<Longrightarrow> followed ts \<Longrightarrow>
     \<exists>r. not_expr tps = Inr (a, r) \<and> map fst r = ts"
proof (induction a arbitrary: tps)
  case (Comparison f oper v)
  from Comparison.prems(2) obtain ps where f: "f = join_dots ps" "printable_field ps" by auto
  then obtain i tps' where "tps = (TIdent (hd ps), i) # tps'"
    using Comparison.prems(1)
    by (cases ps) (auto simp: split_dots_join printable_field_def field_toks_Cons map_eq_Cons_conv)
  then show ?case using comparison_toks[OF Comparison.prems(1,2,4)] by auto
next
  case (NotOp a)
  then obtain i tps' where t: "tps = (TKey ''NOT'', i) # tps'" "map fst tps' = tree_toks a @ ts"
    by (auto simp: map_eq_Cons_conv)
  from NotOp.IH[OF t(2)] NotOp.prems show ?case by (auto simp: t(1))
qed simp

lemma loop_step:
  assumes "map fst r = TKey k # ts"
  shows "r \<noteq> []" "fst (current r) = TKey k" "map fst (tl r) = ts"
  using assms by (auto simp: map_eq_Cons_conv current_def)

lemma and_expr_base:
  assumes "map fst tps = tree_toks a @ ts" "printable a" "not_shape a" "followed ts"
  shows "\<exists>r. and_expr tps = and_loop a r \<and> map fst r = ts"
  using not_expr_toks[OF assms] by (auto simp: and_expr_def)

lemma and_expr_toks:
  "map fst tps = tree_toks a @ ts \<Longrightarrow> printable a \<Longrightarrow> and_shape a \<Longrightarrow> followed ts \<Longrightarrow>
     \<exists>r. and_expr tps = and_loop a r \<and> map fst r = ts"
proof (induction a arbitrary: tps ts)
  case (BooleanOp oper l b)
  then have m: "map fst tps = tree_toks l @ TKey ''AND'' # tree_toks b @ ts" and b: "not_shape b" by auto
  obtain r where r: "and_expr tps = and_loop l r" "map fst r = TKey ''AND'' # tree_toks b @ ts"
    using BooleanOp.IH(1)[OF m] BooleanOp.prems by (auto simp: followed_def)
  obtain r' where r': "not_expr (tl r) = Inr (b, r')" "map fst r' = ts"
    using not_expr_toks[OF loop_step(3)[OF r(2)] _ b BooleanOp.prems(4)] BooleanOp.prems(2) by auto
  have "and_loop l r = and_loop (BooleanOp ''AND'' l b) r'"
    using r' loop_step(1,2)[OF r(2)] by (simp add: and_loop.simps[of l r])
  then show ?case using r(1) r'(2) BooleanOp.prems(3) by auto
next
  case (Comparison f oper v)
  then show ?case by (intro and_expr_base) auto
next
  case (NotOp a)
  then show ?case by (intro and_expr_base) auto
qed

lemma and_loop_stop: "map fst r = ts \<Longrightarrow> ts = [] \<or> hd ts \<noteq> TKey ''AND'' \<Longrightarrow> and_loop a r = Inr (a, r)"
  by (subst and_loop.simps) (auto simp: current_def split: list.splits)

lemma or_expr_base:
  assumes "map fst tps = tree_toks a @ ts" "printable a" "and_shape a" "followed ts" "hd ts \<noteq> TKey ''AND''"
  shows "\<exists>r. or_expr tps = or_loop a r \<and> map fst r = ts"
proof -
  obtain r where r: "and_expr tps = and_loop a r" "map fst r = ts" using and_expr_toks[OF assms(1-4)] by blast
  then show ?thesis using and_loop_stop[OF r(2), of a] assms(5) by (auto simp: or_expr_def)
qed

lemma or_expr_toks:
  "map fst tps = tree_toks a @ ts \<Longrightarrow> printable a \<Longrightarrow> or_shape a \<Longrightarrow> followed ts \<Longrightarrow>
     hd ts \<noteq> TKey ''AND'' \<Longrightarrow> \<exists>r. or_expr tps = or_loop a r \<and> map fst r = ts"
proof (induction a arbitrary: tps ts)
  case (BooleanOp oper l b)
  show ?case
  proof (cases "oper = ''OR''")
    case False
    then have "and_shape (BooleanOp oper l b)" using BooleanOp.prems by simp
    then show ?thesis by (rule or_expr_base[OF BooleanOp.prems(1,2) _ BooleanOp.prems(4,5)])
  next
    case True
    then have m: "map fst tps = tree_toks l @ TKey ''OR'' # tree_toks b @ ts" and b: "and_shape b"
      using BooleanOp.prems by auto
    obtain r where r: "or_expr tps = or_loop l r" "map fst r = TKey ''OR'' # tree_toks b @ ts"
      using BooleanOp.IH(1)[OF m] BooleanOp.prems True by (auto simp: followed_def)
    obtain r' where r': "and_expr (tl r) = Inr (b, r')" "map fst r' = ts"
      using and_expr_toks[OF loop_step(3)[OF r(2)] _ b BooleanOp.prems(4)] and_loop_stop[of _ ts b] BooleanOp.prems
      by auto
    have "or_loop l r = or_loop (BooleanOp ''OR'' l b) r'"
      using r' loop_step(1,2)[OF r(2)] by (simp add: or_loop.simps[of l r])
    then show ?thesis using r(1) r'(2) True by auto
  qed
next
  case (Comparison f oper v)
  then show ?case by (intro or_expr_base) auto
next
  case (NotOp a)
  then show ?case by (intro or_expr_base) auto
qed

lemma parse_tokens_toks:
  assumes "map fst tps = tree_toks a @ [TEof]" "printable a" "or_shape a"
  shows "parse_tokens tps = Inr a"
proof -
  obtain r where r: "or_expr tps = or_loop a r" "map fst r = [TEof]"
    using or_expr_toks[OF assms] by (auto simp: followed_def)
  then have "or_loop a r = Inr (a, r)" by (subst or_loop.simps) (auto simp: current_def)
  with r show ?thesis by (auto simp: parse_tokens_def current_def)
qed

lemma parse_unparse:
  assumes "printable a" "or_shape a" "ast_depth a \<le> max_ast_depth"
    "length (unparse a) \<le> max_expression_length"
  shows "parse (unparse a) = Inr a"
proof -
  have "scans (unparse a @ []) (tree_toks a @ [TEof])"
    using assms(1,2) by (intro scans_unparse) (auto simp: shape_connectives ends_blank_def scans_Nil)
  then obtain tps where "scan 0 (unparse a) = Inr tps" "map fst tps = tree_toks a @ [TEof]"
    by (auto simp: scans_def)
  with parse_tokens_toks[OF this(2) assms(1,2)] assms(3,4) show ?thesis
    by (simp add: parse_def tokenize_def)
qed

subsection \<open>Properties\<close>

text \<open>C30: Printing and parsing. A tree with printable names and literals is what the parser answers for
its text exactly when it is a tree of the grammar without parentheses (\<open>NOT\<close> binds tighter than
\<open>AND\<close>, \<open>AND\<close> tighter than \<open>OR\<close>, both to the left) within the length and depth limits.\<close>

theorem condition_round_trip:
  assumes "printable a"
  shows "parse (unparse a) = Inr a \<longleftrightarrow>
     or_shape a \<and> ast_depth a \<le> max_ast_depth \<and> length (unparse a) \<le> max_expression_length"
  using parse_unparse[OF assms] parse_shape[of "unparse a" a] by blast

definition demo_condition :: ast where
  "demo_condition =
     BooleanOp ''OR'' (Comparison ''rpm'' ''<'' (FieldRef ''limits.low''))
       (BooleanOp ''AND'' (NotOp (Comparison ''state'' ''=='' (Lit (PyStr ''Absent''))))
         (Comparison ''temp'' ''>='' (Lit (PyInt (- 40)))))"

lemma printable_names: "printable_word ''rpm''" "printable_word ''limits''" "printable_word ''low''"
  "printable_word ''state''" "printable_word ''temp''" "lower ''limits'' \<notin> {''true'', ''false''}"
  by code_simp+

lemma demo_printable: "printable demo_condition"
proof -
  have one: "\<exists>ps. p = join_dots ps \<and> printable_field ps" if "printable_word p" for p
    using that by (intro exI[of _ "[p]"]) (simp add: printable_field_def)
  have "printable_operand (FieldRef ''limits.low'')"
    unfolding printable_operand_def using printable_names
    by (auto simp: printable_field_def intro!: exI[of _ "[''limits'', ''low'']"])
  then show ?thesis using one[OF printable_names(1)] one[OF printable_names(4)] one[OF printable_names(5)]
    by (simp add: demo_condition_def operators_def printable_operand_def)
qed

lemma decimal_40: "decimal 40 = ''40''"
  by (simp add: decimal.simps)

theorem condition_round_trip_witness:
  "parse ''rpm < limits.low OR NOT state == 'Absent' AND temp >= -40'' = Inr demo_condition"
proof -
  have "unparse demo_condition = ''rpm < limits.low OR NOT state == 'Absent' AND temp >= -40''"
    by (simp add: demo_condition_def show_operand_def show_int_def decimal_40)
  moreover have "or_shape demo_condition" "ast_depth demo_condition \<le> max_ast_depth"
    by (simp_all add: demo_condition_def max_ast_depth_def)
  ultimately show ?thesis
    using condition_round_trip[OF demo_printable] by (simp add: max_expression_length_def)
qed

fun negation_free :: "ast \<Rightarrow> bool" where
  "negation_free (Comparison f oper v) = True"
| "negation_free (BooleanOp oper l r) = (negation_free l \<and> negation_free r)"
| "negation_free (NotOp a) = False"

text \<open>Missing data never triggers a condition without \<open>NOT\<close>: what such a condition holds on a
context it still holds on every context that gives the fields it names the same values and only
adds values for fields that were missing.\<close>

theorem missing_data_never_triggers:
  assumes "negation_free a" and "evaluate a ctx"
    and "\<forall>f \<in> collect_fields a. resolve_field ctx f = PyNone \<or> resolve_field ctx' f = resolve_field ctx f"
  shows "evaluate a ctx'"
  using assms
proof (induction a)
  case (Comparison f oper v)
  have l: "resolve_field ctx f \<noteq> PyNone" "operand_value ctx v \<noteq> PyNone"
    using Comparison.prems(2) by (auto simp: Let_def split: if_splits)
  have "resolve_field ctx' f = resolve_field ctx f" using Comparison.prems(3) l(1) by simp
  moreover have "operand_value ctx' v = operand_value ctx v"
    using Comparison.prems(3) l(2) by (cases v) (auto simp: operand_value_def)
  ultimately show ?case using Comparison.prems(2) by simp
qed (auto split: if_splits)

theorem missing_data_never_triggers_witness:
  "evaluate (Comparison ''rpm'' ''<'' (FieldRef ''low'')) [(''rpm'', PyInt 3), (''low'', PyInt 5), (''new'', PyInt 1)]"
proof (rule missing_data_never_triggers[where ctx = "[(''rpm'', PyInt 3), (''low'', PyInt 5)]"])
  show "negation_free (Comparison ''rpm'' ''<'' (FieldRef ''low''))" by simp
  show "evaluate (Comparison ''rpm'' ''<'' (FieldRef ''low'')) [(''rpm'', PyInt 3), (''low'', PyInt 5)]"
    by (simp add: resolve_field_def operand_value_def compare_values_def is_bool_def compare_numbers_def Let_def)
qed (simp add: resolve_field_def)

lemma evaluate_local:
  "(\<And>f. f \<in> collect_fields a \<Longrightarrow> resolve_field ctx f = resolve_field ctx' f) \<Longrightarrow> evaluate a ctx = evaluate a ctx'"
proof (induction a)
  case (Comparison f oper v)
  have "operand_value ctx v = operand_value ctx' v"
    using Comparison by (cases v) (auto simp: operand_value_def)
  then show ?case using Comparison by simp
qed auto

text \<open>Under \<open>NOT\<close> missing data does trigger: a negated comparison on a field that the context does
not have holds, so a rule such as \<open>NOT temp < 90\<close> fires on a sensor that reports no temperature.\<close>

theorem negation_triggers_on_missing:
  assumes "resolve_field ctx f = PyNone"
  shows "evaluate (NotOp (Comparison f oper v)) ctx"
  using assms by simp

theorem negation_triggers_on_missing_witness:
  "\<exists>a. parse ''NOT temp < 90'' = Inr a \<and> evaluate a []"
proof -
  let ?a = "NotOp (Comparison ''temp'' ''<'' (Lit (PyInt 90)))"
  have "decimal 90 = ''90''" by (simp add: decimal.simps)
  moreover have "printable ?a"
    using printable_names(5) by (auto simp: printable_field_def operators_def printable_operand_def intro!: exI[of _ "[''temp'']"])
  ultimately have "parse ''NOT temp < 90'' = Inr ?a"
    using parse_unparse[of ?a] by (simp add: show_operand_def show_int_def max_ast_depth_def max_expression_length_def)
  moreover have "evaluate ?a []" by (rule negation_triggers_on_missing) (simp add: resolve_field_def)
  ultimately show ?thesis by blast
qed

end
