(* ===== verification/Trends.thy ===== *)
theory Trends
  imports Trending Expression
begin

text \<open>
  Trend verdicts (\<open>compute_trend\<close> and \<open>_project\<close> of \<open>src/src/harkeniq/skills/trending.py\<close>): which
  rules of a skill report a drift of a sensor, with which slope and which time to the threshold,
  and why the slope is the right one. A threshold text is a number in decimal notation or a field
  name; \<open>nan\<close> and infinity are \<open>None\<close>, and their spelled-out forms are not read as numbers.
\<close>

subsection \<open>The slope is the least-squares slope\<close>

definition residual :: "real \<Rightarrow> real \<Rightarrow> (real \<times> real) list \<Rightarrow> real" where
  "residual a b ps = sum_list (map (\<lambda>(x, y). (y - (a + b * x))\<^sup>2) ps)"

lemma residual_sums:
  assumes "reg_of ps r"
  shows "residual a b ps = sum_y2 r - 2 * a * sum_y r - 2 * b * sum_xy r + of_int (reg_n r) * a\<^sup>2
    + 2 * a * b * sum_x r + b\<^sup>2 * sum_x2 r"
proof -
  have "residual a b ps = sum_list (map (\<lambda>(x, y). y * y) ps) - 2 * a * sum_list (map snd ps)
      - 2 * b * sum_list (map (\<lambda>(x, y). x * y) ps) + of_nat (length ps) * a\<^sup>2
      + 2 * a * b * sum_list (map fst ps) + b\<^sup>2 * sum_list (map (\<lambda>(x, y). x * x) ps)"
    by (induction ps) (auto simp: residual_def power2_eq_square algebra_simps)
  then show ?thesis using assms by (simp add: reg_of_def)
qed

lemma normal_equations_minimise:
  fixes n sx sy sxy sx2 sy2 a0 b0 a b :: real
  assumes "0 < n" "0 < n * sx2 - sx\<^sup>2" and "n * a0 + b0 * sx = sy" "a0 * sx + b0 * sx2 = sxy"
  shows "sy2 - 2 * a0 * sy - 2 * b0 * sxy + n * a0\<^sup>2 + 2 * a0 * b0 * sx + b0\<^sup>2 * sx2
    \<le> sy2 - 2 * a * sy - 2 * b * sxy + n * a\<^sup>2 + 2 * a * b * sx + b\<^sup>2 * sx2"
proof -
  let ?da = "a - a0" and ?db = "b - b0"
  let ?q = "n * ?da\<^sup>2 + 2 * ?da * ?db * sx + ?db\<^sup>2 * sx2"
  have "n * ?q = (n * ?da + ?db * sx)\<^sup>2 + ?db\<^sup>2 * (n * sx2 - sx\<^sup>2)"
    by (simp add: power2_eq_square algebra_simps)
  moreover have "0 \<le> ?db\<^sup>2 * (n * sx2 - sx\<^sup>2)" using assms(2) by simp
  ultimately have "0 \<le> n * ?q" by simp
  then have "0 \<le> ?q" using assms(1) by (simp add: zero_le_mult_iff)
  moreover have "(sy2 - 2 * a * sy - 2 * b * sxy + n * a\<^sup>2 + 2 * a * b * sx + b\<^sup>2 * sx2)
      - (sy2 - 2 * a0 * sy - 2 * b0 * sxy + n * a0\<^sup>2 + 2 * a0 * b0 * sx + b0\<^sup>2 * sx2) = ?q"
    unfolding assms(3,4)[symmetric] by (simp add: power2_eq_square algebra_simps)
  ultimately show ?thesis by linarith
qed

lemma least_squares:
  assumes "reg_of ps r" "compute_regression r = (slope, icept, r2)" "0 < r2"
  shows "residual icept slope ps \<le> residual a b ps"
proof -
  let ?n = "real_of_int (reg_n r)"
  let ?d = "?n * sum_x2 r - (sum_x r)\<^sup>2"
  have n: "0 < ?n" "0 < ?d" and slope: "slope = (?n * sum_xy r - sum_x r * sum_y r) / ?d"
    and icept: "icept = (sum_y r - slope * sum_x r) / ?n"
    using assms(2,3) by (auto simp: compute_regression_def Let_def split: if_splits)
  have n1: "?n * icept + slope * sum_x r = sum_y r" using n(1) by (simp add: icept)
  have d: "slope * ?d = ?n * sum_xy r - sum_x r * sum_y r" using n(2) by (simp add: slope)
  have "?n * (icept * sum_x r + slope * sum_x2 r) = (?n * icept) * sum_x r + slope * (?n * sum_x2 r)"
    by (simp add: algebra_simps)
  also have "?n * icept = sum_y r - slope * sum_x r" using n1 by simp
  also have "(sum_y r - slope * sum_x r) * sum_x r + slope * (?n * sum_x2 r) = sum_y r * sum_x r + slope * ?d"
    by (simp add: power2_eq_square algebra_simps)
  also have "\<dots> = ?n * sum_xy r" unfolding d by simp
  finally have n2: "icept * sum_x r + slope * sum_x2 r = sum_xy r" using n(1) by simp
  show ?thesis
    unfolding residual_sums[OF assms(1)] by (rule normal_equations_minimise[OF n n1 n2])
qed

subsection \<open>Projection and verdicts\<close>

record trending_rule =
  tr_field :: string
  tr_direction :: string
  tr_template :: string
  tr_threshold_field :: "string option"
  tr_counter :: bool

record trend_result =
  td_sensor_id :: string
  td_field :: string
  td_slope :: real
  td_r_squared :: real
  td_direction :: string
  td_current :: real
  td_threshold_name :: string
  td_threshold :: "real option"
  td_time_to :: "real option"
  td_confidence :: real
  td_message :: "string \<times> real \<times> real \<times> real option \<times> real option"

text \<open>\<open>float(text)\<close>: blanks around a sign, digits, a fraction and an exponent.\<close>

definition take_sign :: "string \<Rightarrow> real \<times> string" where
  "take_sign s = (case s of [] \<Rightarrow> (1, s)
     | c # cs \<Rightarrow> if c = CHR ''-'' then (-1, cs) else if c = CHR ''+'' then (1, cs) else (1, s))"

definition exponent :: "string \<Rightarrow> real option" where
  "exponent s =
     (case s of [] \<Rightarrow> Some 1
      | c # cs \<Rightarrow>
          if c \<noteq> CHR ''e'' \<and> c \<noteq> CHR ''E'' then None
          else (let (sgn, ds) = take_sign cs in
            if ds = [] \<or> \<not> list_all ascii_digit ds then None
            else if sgn < 0 then Some (1 / 10 ^ nat (digits_value ds)) else Some (10 ^ nat (digits_value ds))))"

definition float_of_text :: "string \<Rightarrow> real option" where
  "float_of_text s =
     (let t = strip_text s;
          (sgn, body) = take_sign t;
          ip = takeWhile ascii_digit body; r = dropWhile ascii_digit body;
          fp = (if r \<noteq> [] \<and> hd r = CHR ''.'' then takeWhile ascii_digit (tl r) else []);
          r' = (if r \<noteq> [] \<and> hd r = CHR ''.'' then dropWhile ascii_digit (tl r) else r)
      in if ip = [] \<and> fp = [] then None
         else map_option (\<lambda>e. sgn * (of_int (digits_value (ip @ fp)) / 10 ^ length fp) * e) (exponent r'))"

text \<open>\<open>float(value)\<close> of a context value; \<open>None\<close> is the error it raises.\<close>

definition py_float :: "pyval \<Rightarrow> real option" where
  "py_float v = (case as_str v of Some s \<Rightarrow> float_of_text s | None \<Rightarrow> py_number v)"

definition project ::
  "trend_config \<Rightarrow> trending_rule \<Rightarrow> pydict \<Rightarrow> real \<Rightarrow> real \<Rightarrow> string \<times> real option \<times> real option" where
  "project c rule ctx cur slope =
     (case tr_threshold_field rule of
        None \<Rightarrow> ([], None, None)
      | Some name \<Rightarrow>
          (let raw = dget_or ctx name PyNone;
               threshold = (case float_of_text name of
                   Some t \<Rightarrow> Some t
                 | None \<Rightarrow> if is_bool raw then None else py_number raw) in
           case threshold of
             None \<Rightarrow> (name, None, None)
           | Some t \<Rightarrow>
               if slope = 0 then (name, Some t, None)
               else (let tth = (t - cur) / slope in
                 if tth \<le> 0 \<or> tc_max_projection_hours c < tth then (name, Some t, None)
                 else (name, Some t, Some tth))))"

text \<open>
  One rule: \<open>None\<close> when the code raises, otherwise the trend it reports, if any. The guards before
  the current value is read come first.
\<close>

definition trend_guards :: "trend_config \<Rightarrow> baseline \<Rightarrow> trending_rule \<Rightarrow> real \<Rightarrow> real \<Rightarrow> bool" where
  "trend_guards c b rule slope r2 =
     (tc_trending_min c \<le> int (length (bl_ring b)) \<and> tc_trending_min c \<le> reg_n (bl_regression b) \<and>
      \<not> (tr_direction rule = ''declining'' \<and> 0 \<le> slope) \<and> \<not> (tr_direction rule = ''rising'' \<and> slope \<le> 0) \<and>
      \<not> \<bar>slope\<bar> \<le> tc_slope_threshold c \<and> \<not> r2 \<le> tc_r_squared_min c)"

definition trend_of ::
  "trending \<Rightarrow> string \<Rightarrow> baseline \<Rightarrow> pydict \<Rightarrow> trending_rule \<Rightarrow> trend_result option option" where
  "trend_of te sensor b ctx rule =
     (let c = te_config te; (slope, icept, r2) = compute_regression (bl_regression b) in
      if \<not> trend_guards c b rule slope r2 then Some None
      else if bl_ring b = [] \<and> (tr_counter rule \<or> dget_or ctx (tr_field rule) PyNone = PyNone) then None
      else (let seen = dget_or ctx (tr_field rule) PyNone;
                newest = PyFloat (snd (last (bl_ring b))) in
        case py_float (if tr_counter rule \<or> seen = PyNone then newest else seen) of
          None \<Rightarrow> None
        | Some cur \<Rightarrow>
            (let (name, threshold, tth) = project c rule ctx cur slope in
             if tr_threshold_field rule \<noteq> None \<and> tth = None then Some None
             else Some (Some
               \<lparr>td_sensor_id = sensor, td_field = tr_field rule, td_slope = slope, td_r_squared = r2,
                td_direction = tr_direction rule, td_current = cur, td_threshold_name = name,
                td_threshold = threshold, td_time_to = tth, td_confidence = te_confidence sensor te,
                td_message = (tr_template rule, slope, cur, threshold, tth)\<rparr>))))"

fun trends_of ::
  "trending \<Rightarrow> string \<Rightarrow> baseline \<Rightarrow> pydict \<Rightarrow> trending_rule list \<Rightarrow> trend_result list option" where
  "trends_of te sensor b ctx [] = Some []"
| "trends_of te sensor b ctx (rule # rules) =
     (case trend_of te sensor b ctx rule of
        None \<Rightarrow> None
      | Some found \<Rightarrow>
          map_option (\<lambda>rs. (case found of None \<Rightarrow> rs | Some r \<Rightarrow> r # rs)) (trends_of te sensor b ctx rules))"

definition compute_trend :: "string \<Rightarrow> trending_rule list \<Rightarrow> pydict \<Rightarrow> trending \<Rightarrow> trend_result list option" where
  "compute_trend sensor rules ctx te =
     (case dget (te_baselines te) sensor of
        None \<Rightarrow> Some []
      | Some b \<Rightarrow> if te_confidence sensor te < 1 then Some [] else trends_of te sensor b ctx rules)"

subsection \<open>Properties\<close>

lemma trends_of_sound:
  "trends_of te s b ctx rules = Some rs \<Longrightarrow> res \<in> set rs \<Longrightarrow>
     \<exists>rule \<in> set rules. trend_of te s b ctx rule = Some (Some res)"
  by (induction rules arbitrary: rs) (fastforce split: option.splits)+

lemma project_hits:
  assumes "project c rule ctx cur slope = (name, threshold, Some tth)"
  shows "\<exists>t. threshold = Some t \<and> 0 < tth \<and> tth \<le> tc_max_projection_hours c \<and> cur + slope * tth = t"
  using assms
  by (auto simp: project_def Let_def not_le not_less field_simps split: option.splits if_splits)

text \<open>A reported trend is a real one. When the regression sums of the sensor's baseline are those of
the points of its segment and the configured minimum of \<open>r\<close> squared is not negative, every trend
reported at full confidence comes from one of the rules, has a slope that degrades in the rule's
direction and exceeds the configured slope, which is the slope of the least-squares line through
the points; and a rule with a threshold is reported only with a time to reach it, positive and
within the projection limit, at which the line from the current value meets the threshold.\<close>

theorem trend_is_real:
  assumes "compute_trend s rules ctx te = Some rs" and "res \<in> set rs"
    and "dget (te_baselines te) s = Some b" and "reg_of ps (bl_regression b)"
    and "0 \<le> tc_r_squared_min (te_config te)"
  shows "1 \<le> td_confidence res \<and>
    (\<exists>rule \<in> set rules. td_field res = tr_field rule \<and> td_direction res = tr_direction rule \<and>
       (tr_direction rule = ''declining'' \<longrightarrow> td_slope res < 0) \<and>
       (tr_direction rule = ''rising'' \<longrightarrow> 0 < td_slope res) \<and>
       tc_slope_threshold (te_config te) < \<bar>td_slope res\<bar> \<and>
       (\<exists>icept. \<forall>a b'. residual icept (td_slope res) ps \<le> residual a b' ps) \<and>
       (tr_threshold_field rule \<noteq> None \<longrightarrow>
          (\<exists>t h. td_threshold res = Some t \<and> td_time_to res = Some h \<and> 0 < h \<and>
             h \<le> tc_max_projection_hours (te_config te) \<and> td_current res + td_slope res * h = t)))"
proof -
  have conf: "1 \<le> te_confidence s te" and t: "trends_of te s b ctx rules = Some rs"
    using assms(1-3) by (auto simp: compute_trend_def split: if_splits)
  obtain rule where rule: "rule \<in> set rules" "trend_of te s b ctx rule = Some (Some res)"
    using trends_of_sound[OF t assms(2)] by blast
  obtain slope icept r2 where reg: "compute_regression (bl_regression b) = (slope, icept, r2)" by (metis prod_cases3)
  let ?seen = "dget_or ctx (tr_field rule) PyNone"
  have g: "trend_guards (te_config te) b rule slope r2"
    using rule(2) reg by (auto simp: trend_of_def Let_def split: if_splits)
  obtain cur name threshold tth where p: "project (te_config te) rule ctx cur slope = (name, threshold, tth)"
    and none: "\<not> (tr_threshold_field rule \<noteq> None \<and> tth = None)"
    and res: "td_field res = tr_field rule" "td_direction res = tr_direction rule" "td_slope res = slope"
      "td_threshold res = threshold" "td_time_to res = tth" "td_current res = cur"
      "td_confidence res = te_confidence s te"
    using rule(2) reg g by (auto simp: trend_of_def Let_def split: if_splits option.splits prod.splits)
  have "0 < r2" using g assms(5) by (auto simp: trend_guards_def)
  then have ls: "residual icept slope ps \<le> residual a b' ps" for a b'
    by (rule least_squares[OF assms(4) reg])
  have th: "\<exists>t h. threshold = Some t \<and> tth = Some h \<and> 0 < h \<and> h \<le> tc_max_projection_hours (te_config te) \<and> cur + slope * h = t"
    if "tr_threshold_field rule \<noteq> None"
    using none that p by (cases tth) (auto dest: project_hits)
  show ?thesis unfolding res using conf rule(1) g ls th by (intro conjI bexI[of _ rule]) (auto simp: trend_guards_def res)
qed

definition demo_rule :: trending_rule where
  "demo_rule = \<lparr>tr_field = ''rpm'', tr_direction = ''declining'', tr_template = [], tr_threshold_field = Some ''low'', tr_counter = False\<rparr>"

definition demo_points :: "(real \<times> real) list" where
  "demo_points = [(0, 9), (1, 8), (2, 7)]"

definition demo_engine :: trending where
  "demo_engine = put_baseline ''s''
     (fresh_baseline ''s'' 5\<lparr>bl_count := 3, bl_ring := [(0, 9), (3600, 8), (7200, 7)],
        bl_regression := fold (\<lambda>(x, y). regression_add x y) demo_points fresh_regression\<rparr>)
     (init_trending (default_trend_config\<lparr>tc_min_samples := 3, tc_trending_min := 3\<rparr>))"

lemma demo_numbers: "float_of_text ''low'' = None"
  by (simp add: float_of_text_def strip_text_def take_sign_def is_space_def ascii_digit_def)

theorem trend_is_real_witness:
  "\<exists>res. compute_trend ''s'' [demo_rule] [(''rpm'', PyInt 7), (''low'', PyInt 2)] demo_engine = Some [res] \<and>
     td_slope res < 0 \<and> td_time_to res = Some 5 \<and> (\<exists>icept. \<forall>a b. residual icept (td_slope res) demo_points \<le> residual a b demo_points)"
proof -
  let ?r = "fold (\<lambda>(x, y). regression_add x y) demo_points fresh_regression"
  have r: "?r = \<lparr>sum_x = 3, sum_y = 24, sum_xy = 22, sum_x2 = 5, sum_y2 = 194, reg_n = 3, eviction_count = 0\<rparr>"
    by (simp add: demo_points_def regression_add_def fresh_regression_def)
  have reg: "compute_regression ?r = (-1, 9, 1)"
    unfolding r by (simp add: compute_regression_def Let_def power2_eq_square)
  have "\<exists>res. compute_trend ''s'' [demo_rule] [(''rpm'', PyInt 7), (''low'', PyInt 2)] demo_engine = Some [res] \<and> td_time_to res = Some 5"
    using r by (simp add: compute_trend_def demo_engine_def put_baseline_def te_confidence_def init_trending_def
        trend_of_def reg[unfolded r] trend_guards_def default_trend_config_def demo_rule_def py_float_def as_str_def dget_or_def
        project_def demo_numbers is_bool_def Let_def)
  then obtain res where res: "compute_trend ''s'' [demo_rule] [(''rpm'', PyInt 7), (''low'', PyInt 2)] demo_engine = Some [res]"
    "td_time_to res = Some 5" by blast
  have b: "dget (te_baselines demo_engine) ''s'' = Some (fresh_baseline ''s'' 5\<lparr>bl_count := 3,
      bl_ring := [(0, 9), (3600, 8), (7200, 7)], bl_regression := ?r\<rparr>)"
    by (simp add: demo_engine_def)
  have ps: "reg_of demo_points ?r" unfolding r by (simp add: reg_of_def demo_points_def)
  from trend_is_real[OF res(1) _ b, of res demo_points] ps res
  show ?thesis by (auto simp: demo_rule_def demo_engine_def init_trending_def default_trend_config_def)
qed

end
