(* ===== verification/Debounce.thy ===== *)
theory Debounce
  imports Values
begin

text \<open>
  The N-of-M filter between raw and reported verdicts (\<open>src/src/harkeniq/skills/debounce.py\<close>). A
  debouncer is its three validated pairs and its table of states; \<open>db_apply\<close> feeds one raw verdict.
  The clock only stamps transitions.
\<close>

subsection \<open>Configuration\<close>

datatype config_error = BadPair string pyval

record debouncer =
  db_critical :: "int \<times> int"
  db_warning :: "int \<times> int"
  db_recovery :: "int \<times> int"
  db_states :: "(string \<times> string, debounce_state) dict"

definition default_config :: pydict where
  "default_config =
     [(''critical'', PyList [PyInt 2, PyInt 3]), (''warning'', PyList [PyInt 3, PyInt 5]),
      (''recovery'', PyList [PyInt 3, PyInt 3])]"

text \<open>\<open>isinstance(v, int)\<close> holds for a bool too.\<close>

definition int_val :: "pyval \<Rightarrow> int option" where
  "int_val v = (case v of PyInt i \<Rightarrow> Some i | PyBool b \<Rightarrow> Some (if b then 1 else 0) | _ \<Rightarrow> None)"

definition pair :: "pydict \<Rightarrow> string \<Rightarrow> config_error + int \<times> int" where
  "pair config key =
     (let raw = dget_or config key (dget_or default_config key PyNone) in
      case raw of
        PyList [a, b] \<Rightarrow>
          (case (int_val a, int_val b) of
             (Some n, Some w) \<Rightarrow>
               if 1 \<le> n \<and> 1 \<le> w \<and> \<not> w < n then Inr (n, w) else Inl (BadPair key raw)
           | _ \<Rightarrow> Inl (BadPair key raw))
      | _ \<Rightarrow> Inl (BadPair key raw))"

definition make_debouncer :: "pydict option \<Rightarrow> config_error + debouncer" where
  "make_debouncer config =
     (let cfg = (case config of None \<Rightarrow> [] | Some c \<Rightarrow> c) in
      case pair cfg ''critical'' of
        Inl e \<Rightarrow> Inl e
      | Inr c \<Rightarrow> (case pair cfg ''warning'' of
            Inl e \<Rightarrow> Inl e
          | Inr w \<Rightarrow> (case pair cfg ''recovery'' of
                Inl e \<Rightarrow> Inl e
              | Inr r \<Rightarrow> Inr \<lparr>db_critical = c, db_warning = w, db_recovery = r, db_states = []\<rparr>)))"

subsection \<open>One verdict\<close>

fun max_run_loop :: "severity \<Rightarrow> severity list \<Rightarrow> int \<Rightarrow> int \<Rightarrow> int" where
  "max_run_loop sev [] best run = best"
| "max_run_loop sev (v # vs) best run =
     (let run' = (if v = sev then run + 1 else 0) in max_run_loop sev vs (max best run') run')"

definition max_run :: "severity list \<Rightarrow> severity \<Rightarrow> int" where
  "max_run window sev = max_run_loop sev window 0 0"

text \<open>The decision of \<open>apply\<close> on a window, with the pairs in force.\<close>

definition decide ::
  "int \<times> int \<Rightarrow> int \<times> int \<Rightarrow> int \<times> int \<Rightarrow> severity list \<Rightarrow> severity \<Rightarrow> severity" where
  "decide crit warn rec window cur =
     (if fst crit \<le> max_run (py_last (snd crit) window) SevCritical then SevCritical
      else if fst warn \<le> int (length (filter (\<lambda>v. v = SevWarning) (py_last (snd warn) window))) then SevWarning
      else if cur \<noteq> SevHealthy \<and> fst rec \<le> int (length window) \<and>
              (\<forall>v \<in> set (py_last (fst rec) window). v = SevHealthy) then SevHealthy
      else cur)"

definition effective :: "severity \<Rightarrow> severity \<Rightarrow> debounce_config option \<Rightarrow> int \<times> int \<Rightarrow> int \<times> int" where
  "effective raw sev override p =
     (case override of None \<Rightarrow> p | Some o1 \<Rightarrow> if raw = sev then (db_count o1, db_window o1) else p)"

definition new_state :: "string \<Rightarrow> string \<Rightarrow> debounce_state" where
  "new_state sensor skill =
     \<lparr>ds_sensor_id = sensor, ds_skill_name = skill, ds_window = [], ds_window_size = 3,
      ds_threshold_count = 2, ds_current = SevHealthy, ds_last_transition_at = None\<rparr>"

definition feed ::
  "debouncer \<Rightarrow> severity \<Rightarrow> debounce_config option \<Rightarrow> time \<Rightarrow> debounce_state \<Rightarrow> debounce_state" where
  "feed d raw override clock st =
     (let crit = effective raw SevCritical override (db_critical d);
          warn = effective raw SevWarning override (db_warning d);
          rec = db_recovery d;
          m = max (snd crit) (max (snd warn) (snd rec));
          window = py_last m (ds_window st @ [raw]);
          new = decide crit warn rec window (ds_current st);
          used = (if raw = SevCritical then crit else if raw = SevWarning then warn else rec);
          st1 = st\<lparr>ds_window := window, ds_threshold_count := fst used, ds_window_size := snd used\<rparr>
      in if new \<noteq> ds_current st then st1\<lparr>ds_current := new, ds_last_transition_at := Some clock\<rparr> else st1)"

definition db_apply ::
  "string \<Rightarrow> string \<Rightarrow> severity \<Rightarrow> debounce_config option \<Rightarrow> time \<Rightarrow> debouncer \<Rightarrow>
     (severity \<times> debounce_state) \<times> debouncer" where
  "db_apply sensor skill raw override clock d =
     (let st = dget_or (db_states d) (sensor, skill) (new_state sensor skill);
          put = (\<lambda>s. d\<lparr>db_states := dset (sensor, skill) s (db_states d)\<rparr>) in
      if raw = SevTrending then ((raw, st), put st)
      else (let st' = feed d raw override clock st in ((ds_current st', st'), put st')))"

definition get_state :: "string \<Rightarrow> string \<Rightarrow> debouncer \<Rightarrow> debounce_state option" where
  "get_state sensor skill d = dget (db_states d) (sensor, skill)"

definition restore_states :: "(string \<times> string, debounce_state) dict \<Rightarrow> debouncer \<Rightarrow> debouncer" where
  "restore_states sts d = d\<lparr>db_states := fold (\<lambda>(k, s). dset k s) sts (db_states d)\<rparr>"

definition db_reload_skills :: "string set \<Rightarrow> debouncer \<Rightarrow> debouncer" where
  "db_reload_skills names d = d\<lparr>db_states := filter (\<lambda>(k, s). snd k \<in> names) (db_states d)\<rparr>"

subsection \<open>The window is as good as the whole history\<close>

definition valid_pair :: "int \<times> int \<Rightarrow> bool" where
  "valid_pair p \<longleftrightarrow> 1 \<le> fst p \<and> fst p \<le> snd p"

lemma pair_valid: "pair config key = Inr p \<Longrightarrow> valid_pair p"
  by (auto simp: pair_def valid_pair_def Let_def split: pyval.splits list.splits option.splits if_splits)

lemma make_debouncer_valid:
  assumes "make_debouncer config = Inr d"
  shows "valid_pair (db_critical d)" "valid_pair (db_warning d)" "valid_pair (db_recovery d)" "db_states d = []"
  using assms by (auto simp: make_debouncer_def Let_def dest: pair_valid split: sum.splits)

lemma py_last_py_last:
  "0 < w \<Longrightarrow> w \<le> m \<Longrightarrow> py_last w (py_last m xs) = py_last w xs"
  by (auto simp: py_last_def intro!: arg_cong[of _ _ "\<lambda>n. drop n xs"])

lemma py_last_snoc: "0 < m \<Longrightarrow> py_last m (py_last m xs @ [x]) = py_last m (xs @ [x])"
  by (auto simp: py_last_def intro!: arg_cong[of _ _ "\<lambda>n. drop n xs"])

definition widest :: "debouncer \<Rightarrow> int" where
  "widest d = max (snd (db_critical d)) (max (snd (db_warning d)) (snd (db_recovery d)))"

lemma decide_window:
  assumes "valid_pair crit" "valid_pair warn" "valid_pair rec"
    "m = max (snd crit) (max (snd warn) (snd rec))"
  shows "decide crit warn rec (py_last m h) cur = decide crit warn rec h cur"
proof -
  have "py_last (snd crit) (py_last m h) = py_last (snd crit) h"
    "py_last (snd warn) (py_last m h) = py_last (snd warn) h"
    "py_last (fst rec) (py_last m h) = py_last (fst rec) h"
    using assms by (auto simp: valid_pair_def intro!: py_last_py_last)
  moreover have "fst rec \<le> int (length (py_last m h)) \<longleftrightarrow> fst rec \<le> int (length h)"
    using assms by (auto simp: length_py_last valid_pair_def)
  ultimately show ?thesis by (simp add: decide_def)
qed

text \<open>The rules, said of a whole history \<open>h\<close>, oldest reading first: \<open>n\<close> critical readings in a row among the last \<open>w\<close>;
  \<open>n\<close> warnings among the last \<open>w\<close>; \<open>n\<close> readings at the end that are all healthy.\<close>

definition critical_due :: "int \<times> int \<Rightarrow> severity list \<Rightarrow> bool" where
  "critical_due p h \<longleftrightarrow> (\<exists>i. length h - nat (snd p) \<le> i \<and> i + nat (fst p) \<le> length h \<and>
     (\<forall>j. i \<le> j \<and> j < i + nat (fst p) \<longrightarrow> h ! j = SevCritical))"

definition warning_due :: "int \<times> int \<Rightarrow> severity list \<Rightarrow> bool" where
  "warning_due p h \<longleftrightarrow> nat (fst p) \<le> card {j. length h - nat (snd p) \<le> j \<and> j < length h \<and> h ! j = SevWarning}"

definition healthy_again :: "int \<times> int \<Rightarrow> severity list \<Rightarrow> bool" where
  "healthy_again p h \<longleftrightarrow> nat (fst p) \<le> length h \<and> (\<forall>j. length h - nat (fst p) \<le> j \<and> j < length h \<longrightarrow> h ! j = SevHealthy)"

text \<open>The verdict a whole history stands for, newest reading first: the most serious rule that is due, or what was
  reported before.\<close>

fun judged :: "debouncer \<Rightarrow> severity list \<Rightarrow> severity" where
  "judged d [] = SevHealthy"
| "judged d (v # vs) =
     (if critical_due (db_critical d) (rev (v # vs)) then SevCritical
      else if warning_due (db_warning d) (rev (v # vs)) then SevWarning
      else if healthy_again (db_recovery d) (rev (v # vs)) then SevHealthy
      else judged d vs)"

lemma judged_levels: "judged d vs \<in> {SevHealthy, SevWarning, SevCritical}"
  by (induction vs) auto

text \<open>The loop of \<open>max_run\<close> finds the longest run, and carries the run at the end.\<close>

definition run_step :: "severity \<Rightarrow> severity \<Rightarrow> int \<times> int \<Rightarrow> int \<times> int" where
  "run_step sev v = (\<lambda>(best, run). let run' = (if v = sev then run + 1 else 0) in (max best run', run'))"

lemma max_run_fold: "max_run_loop sev vs best run = fst (fold (run_step sev) vs (best, run))"
  by (induction vs arbitrary: best run) (simp_all add: run_step_def Let_def)

definition runs_in :: "severity \<Rightarrow> nat \<Rightarrow> severity list \<Rightarrow> bool" where
  "runs_in sev n xs \<longleftrightarrow> (\<exists>i. i + n \<le> length xs \<and> (\<forall>j. i \<le> j \<and> j < i + n \<longrightarrow> xs ! j = sev))"

definition ends_in :: "severity \<Rightarrow> nat \<Rightarrow> severity list \<Rightarrow> bool" where
  "ends_in sev n xs \<longleftrightarrow> n \<le> length xs \<and> (\<forall>j. length xs - n \<le> j \<and> j < length xs \<longrightarrow> xs ! j = sev)"

lemma ends_in_snoc: "1 \<le> n \<Longrightarrow> ends_in sev n (xs @ [v]) \<longleftrightarrow> v = sev \<and> ends_in sev (n - 1) xs"
proof -
  assume n: "1 \<le> n"
  have "(\<forall>j. length (xs @ [v]) - n \<le> j \<and> j < length (xs @ [v]) \<longrightarrow> (xs @ [v]) ! j = sev) \<longleftrightarrow>
      v = sev \<and> (\<forall>j. length xs - (n - 1) \<le> j \<and> j < length xs \<longrightarrow> xs ! j = sev)"
    if "n \<le> Suc (length xs)"
  proof -
    have e: "length (xs @ [v]) - n = length xs - (n - 1)" using n by simp
    have l: "length xs - (n - 1) \<le> length xs" by simp
    show ?thesis unfolding e by (auto simp: nth_append less_Suc_eq)
  qed
  then show ?thesis using n by (auto simp: ends_in_def)
qed

lemma runs_in_snoc: "runs_in sev n (xs @ [v]) \<longleftrightarrow> runs_in sev n xs \<or> ends_in sev n (xs @ [v])"
proof
  assume "runs_in sev n (xs @ [v])"
  then obtain i where i: "i + n \<le> length (xs @ [v])" "\<forall>j. i \<le> j \<and> j < i + n \<longrightarrow> (xs @ [v]) ! j = sev"
    unfolding runs_in_def by blast
  show "runs_in sev n xs \<or> ends_in sev n (xs @ [v])"
  proof (cases "i + n \<le> length xs")
    case True
    have "xs ! j = sev" if "i \<le> j" "j < i + n" for j using i(2) that True by (auto simp: nth_append)
    then show ?thesis using True unfolding runs_in_def by blast
  next
    case False
    then have "i = length (xs @ [v]) - n" "n \<le> length (xs @ [v])" using i(1) by simp_all
    then show ?thesis using i(2) by (auto simp: ends_in_def)
  qed
next
  assume "runs_in sev n xs \<or> ends_in sev n (xs @ [v])"
  then show "runs_in sev n (xs @ [v])"
  proof
    assume "runs_in sev n xs"
    then obtain i where i: "i + n \<le> length xs" "\<forall>j. i \<le> j \<and> j < i + n \<longrightarrow> xs ! j = sev" unfolding runs_in_def by blast
    then have "\<forall>j. i \<le> j \<and> j < i + n \<longrightarrow> (xs @ [v]) ! j = sev" by (auto simp: nth_append)
    then show ?thesis using i(1) unfolding runs_in_def by (intro exI [of _ i]) simp
  next
    assume "ends_in sev n (xs @ [v])"
    then show ?thesis unfolding runs_in_def ends_in_def by (intro exI [of _ "length (xs @ [v]) - n"]) auto
  qed
qed

lemma run_fold:
  "1 \<le> n \<Longrightarrow> (int n \<le> fst (fold (run_step sev) xs (0, 0)) \<longleftrightarrow> runs_in sev n xs)"
  "int n \<le> snd (fold (run_step sev) xs (0, 0)) \<longleftrightarrow> ends_in sev n xs"
proof (induction xs arbitrary: n rule: rev_induct)
  case Nil
  { case 1 then show ?case by (auto simp: runs_in_def) }
  { case 2 then show ?case by (auto simp: ends_in_def) }
next
  case (snoc v xs)
  obtain b r where f: "fold (run_step sev) xs (0, 0) = (b, r)" by fastforce
  have end1: "int n \<le> snd (fold (run_step sev) (xs @ [v]) (0, 0)) \<longleftrightarrow> ends_in sev n (xs @ [v])" for n
  proof (cases n)
    case 0
    have "ends_in sev 0 xs" unfolding ends_in_def by auto
    then have "0 \<le> r" using snoc.IH(2) [of 0] f by simp
    then have "int n \<le> snd (fold (run_step sev) (xs @ [v]) (0, 0))" using 0 f by (simp add: run_step_def Let_def)
    moreover have "ends_in sev n (xs @ [v])" using 0 unfolding ends_in_def by auto
    ultimately show ?thesis by blast
  next
    case (Suc m)
    have "int m \<le> r \<longleftrightarrow> ends_in sev m xs" using snoc.IH(2) [of m] f by simp
    then show ?thesis using Suc f ends_in_snoc [of n sev xs v] by (auto simp: run_step_def Let_def)
  qed
  { case 1
    have "int n \<le> fst (fold (run_step sev) (xs @ [v]) (0, 0)) \<longleftrightarrow>
        int n \<le> b \<or> int n \<le> snd (fold (run_step sev) (xs @ [v]) (0, 0))"
      using f 1 by (simp add: run_step_def Let_def le_max_iff_disj)
    then show ?case using snoc.IH(1) [OF 1] f end1 [of n] by (simp add: runs_in_snoc) }
  { case 2 show ?case by (rule end1) }
qed

lemma py_last_drop: "0 < w \<Longrightarrow> py_last w xs = drop (length xs - nat w) xs"
  by (auto simp: py_last_def nat_diff_distrib)

lemma runs_in_drop:
  assumes "k \<le> length h"
  shows "runs_in sev n (drop k h) \<longleftrightarrow> (\<exists>i. k \<le> i \<and> i + n \<le> length h \<and> (\<forall>j. i \<le> j \<and> j < i + n \<longrightarrow> h ! j = sev))"
proof
  assume "runs_in sev n (drop k h)"
  then obtain i where i: "i + n \<le> length h - k" "\<forall>j. i \<le> j \<and> j < i + n \<longrightarrow> drop k h ! j = sev" unfolding runs_in_def by auto
  have "h ! j = sev" if "k + i \<le> j" "j < k + i + n" for j
  proof -
    have "drop k h ! (j - k) = sev" using that by (intro i(2) [rule_format]) arith
    then show ?thesis using that assms by simp
  qed
  then show "\<exists>i. k \<le> i \<and> i + n \<le> length h \<and> (\<forall>j. i \<le> j \<and> j < i + n \<longrightarrow> h ! j = sev)"
    using i(1) assms by (intro exI [of _ "k + i"]) auto
next
  assume "\<exists>i. k \<le> i \<and> i + n \<le> length h \<and> (\<forall>j. i \<le> j \<and> j < i + n \<longrightarrow> h ! j = sev)"
  then obtain i where i: "k \<le> i" "i + n \<le> length h" "\<forall>j. i \<le> j \<and> j < i + n \<longrightarrow> h ! j = sev" by blast
  have "drop k h ! j = sev" if "i - k \<le> j" "j < i - k + n" for j
  proof -
    have "h ! (k + j) = sev" using that i(1) by (intro i(3) [rule_format]) arith
    then show ?thesis using assms by simp
  qed
  then show "runs_in sev n (drop k h)" using i(1,2) unfolding runs_in_def by (intro exI [of _ "i - k"]) auto
qed

lemma critical_rule:
  assumes "valid_pair p"
  shows "fst p \<le> max_run (py_last (snd p) h) SevCritical \<longleftrightarrow> critical_due p h"
proof -
  have n: "1 \<le> nat (fst p)" "int (nat (fst p)) = fst p" "0 < snd p" using assms by (auto simp: valid_pair_def)
  have "fst p \<le> max_run (py_last (snd p) h) SevCritical \<longleftrightarrow> runs_in SevCritical (nat (fst p)) (py_last (snd p) h)"
    using run_fold(1) [OF n(1), of SevCritical "py_last (snd p) h"] n(2) by (simp add: max_run_def max_run_fold)
  then show ?thesis unfolding py_last_drop [OF n(3)] by (simp add: runs_in_drop critical_due_def)
qed

lemma warning_rule:
  assumes "valid_pair p"
  shows "fst p \<le> int (length (filter (\<lambda>v. v = SevWarning) (py_last (snd p) h))) \<longleftrightarrow> warning_due p h"
proof -
  have n: "0 \<le> fst p" "0 < snd p" using assms by (auto simp: valid_pair_def)
  let ?k = "length h - nat (snd p)"
  have "{j. ?k \<le> j \<and> j < length h \<and> h ! j = SevWarning} = (\<lambda>i. ?k + i) ` {i. i < length (drop ?k h) \<and> drop ?k h ! i = SevWarning}"
  proof (rule set_eqI, rule iffI)
    fix j assume "j \<in> {j. ?k \<le> j \<and> j < length h \<and> h ! j = SevWarning}"
    then show "j \<in> (\<lambda>i. ?k + i) ` {i. i < length (drop ?k h) \<and> drop ?k h ! i = SevWarning}"
      by (intro image_eqI [of _ _ "j - ?k"]) auto
  qed auto
  then have "card {j. ?k \<le> j \<and> j < length h \<and> h ! j = SevWarning} = length (filter (\<lambda>v. v = SevWarning) (drop ?k h))"
    by (simp only: length_filter_conv_card card_image [OF inj_onI] add_left_cancel)
  then show ?thesis using n by (simp add: warning_due_def py_last_drop nat_le_iff)
qed

lemma recovery_rule:
  assumes "valid_pair p"
  shows "fst p \<le> int (length h) \<and> (\<forall>v \<in> set (py_last (fst p) h). v = SevHealthy) \<longleftrightarrow> healthy_again p h"
proof -
  have n: "0 < fst p" using assms by (auto simp: valid_pair_def)
  let ?k = "length h - nat (fst p)"
  have "(\<forall>v \<in> set (drop ?k h). v = SevHealthy) \<longleftrightarrow> (\<forall>j. ?k \<le> j \<and> j < length h \<longrightarrow> h ! j = SevHealthy)"
  proof
    assume a: "\<forall>v \<in> set (drop ?k h). v = SevHealthy"
    show "\<forall>j. ?k \<le> j \<and> j < length h \<longrightarrow> h ! j = SevHealthy"
    proof (intro allI impI)
      fix j assume j: "?k \<le> j \<and> j < length h"
      then have "drop ?k h ! (j - ?k) \<in> set (drop ?k h)" by (intro nth_mem) auto
      then show "h ! j = SevHealthy" using a j by simp
    qed
  qed (auto simp: in_set_conv_nth)
  then show ?thesis using n by (auto simp: healthy_again_def py_last_drop nat_le_iff)
qed

text \<open>What the code decides on a whole history is what the rules say.\<close>

lemma decide_rules:
  assumes "valid_pair (db_critical d)" "valid_pair (db_warning d)" "valid_pair (db_recovery d)"
  shows "decide (db_critical d) (db_warning d) (db_recovery d) (rev (v # vs)) (judged d vs) = judged d (v # vs)"
  unfolding decide_def critical_rule [OF assms(1)] warning_rule [OF assms(2)] judged.simps
  using recovery_rule [OF assms(3), of "rev (v # vs)"] by auto

definition tracks :: "debouncer \<Rightarrow> severity list \<Rightarrow> debounce_state \<Rightarrow> bool" where
  "tracks d h st \<longleftrightarrow> ds_window st = py_last (widest d) h \<and> ds_current st = judged d (rev h)"

lemma feed_tracks:
  assumes "valid_pair (db_critical d)" "valid_pair (db_warning d)" "valid_pair (db_recovery d)"
    and "tracks d h st"
  shows "tracks d (h @ [raw]) (feed d raw None clock st)"
proof -
  let ?w = "py_last (widest d) (h @ [raw])"
  have pos: "0 < widest d" using assms(1) by (auto simp: widest_def valid_pair_def)
  have w: "py_last (widest d) (ds_window st @ [raw]) = ?w"
    using assms(4) pos by (simp add: tracks_def py_last_snoc)
  have "decide (db_critical d) (db_warning d) (db_recovery d) ?w (ds_current st) = judged d (rev (h @ [raw]))"
  proof -
    have "decide (db_critical d) (db_warning d) (db_recovery d) ?w (ds_current st) =
        decide (db_critical d) (db_warning d) (db_recovery d) (rev (raw # rev h)) (judged d (rev h))"
      unfolding decide_window [OF assms(1-3) widest_def [of d]] using assms(4) by (simp add: tracks_def)
    then show ?thesis unfolding decide_rules [OF assms(1-3)] by simp
  qed
  moreover have "ds_current (feed d raw None clock st) =
      decide (db_critical d) (db_warning d) (db_recovery d) (py_last (widest d) (ds_window st @ [raw])) (ds_current st)"
    "ds_window (feed d raw None clock st) = py_last (widest d) (ds_window st @ [raw])"
    by (simp_all add: feed_def effective_def widest_def Let_def)
  ultimately show ?thesis unfolding w by (simp only: tracks_def)
qed

subsection \<open>Properties\<close>

text \<open>The readings of one sensor for one skill, each with the clock of its arrival.\<close>

abbreviation feed_all :: "string \<Rightarrow> string \<Rightarrow> (severity \<times> time) list \<Rightarrow> debouncer \<Rightarrow> debouncer" where
  "feed_all sensor skill raws d \<equiv>
     fold (\<lambda>(raw, clock) e. snd (db_apply sensor skill raw None clock e)) raws d"

lemma db_apply_pairs [simp]:
  "db_critical (snd (db_apply a b raw ov t d)) = db_critical d"
  "db_warning (snd (db_apply a b raw ov t d)) = db_warning d"
  "db_recovery (snd (db_apply a b raw ov t d)) = db_recovery d"
  by (simp_all add: db_apply_def Let_def)

lemma same_pairs:
  assumes "db_critical e = db_critical d" "db_warning e = db_warning d" "db_recovery e = db_recovery d"
  shows "widest e = widest d" "judged e vs = judged d vs"
proof -
  show "widest e = widest d" using assms by (simp add: widest_def)
  show "judged e vs = judged d vs" using assms by (induction vs) simp_all
qed

definition history :: "(severity \<times> time) list \<Rightarrow> severity list" where
  "history raws = filter (\<lambda>v. v \<noteq> SevTrending) (map fst raws)"

lemma feed_all_tracks:
  assumes "make_debouncer config = Inr d"
  shows "db_critical (feed_all sensor skill raws d) = db_critical d \<and>
    db_warning (feed_all sensor skill raws d) = db_warning d \<and>
    db_recovery (feed_all sensor skill raws d) = db_recovery d \<and>
    tracks d (history raws)
      (dget_or (db_states (feed_all sensor skill raws d)) (sensor, skill) (new_state sensor skill))"
proof (induction raws rule: rev_induct)
  case Nil
  show ?case using make_debouncer_valid[OF assms(1)]
    by (simp add: tracks_def history_def new_state_def py_last_def dget_or_def)
next
  case (snoc p raws)
  obtain raw clock where p: "p = (raw, clock)" by fastforce
  define e where "e = feed_all sensor skill raws d"
  let ?st = "dget_or (db_states e) (sensor, skill) (new_state sensor skill)"
  have ih: "db_critical e = db_critical d" "db_warning e = db_warning d" "db_recovery e = db_recovery d"
    "tracks d (history raws) ?st"
    using snoc by (auto simp: e_def)
  note v = make_debouncer_valid(1-3)[OF assms(1)]
  have feed: "feed e raw None clock ?st = feed d raw None clock ?st" using ih by (simp add: feed_def)
  have "tracks d (history raws @ [raw]) (feed e raw None clock ?st)"
    unfolding feed by (rule feed_tracks[OF v ih(4)])
  then have "tracks d (history (raws @ [p]))
      (dget_or (db_states (snd (db_apply sensor skill raw None clock e))) (sensor, skill) (new_state sensor skill))"
    using ih(4) by (auto simp: db_apply_def p history_def Let_def dget_or_def)
  then show ?case using ih(1-3) by (simp add: e_def[symmetric] p)
qed

text \<open>C31: The filter keeps enough. While no rule brings a debounce of its own, what it reports after any sequence of readings
of a sensor is what the three rules say about the whole history of its readings (trend verdicts aside) - a run of critical
readings, a number of warnings, a healthy end, in this order, and otherwise the report before - although it keeps only the
widest of its windows; and what it reports is never \<open>UNKNOWN\<close>.\<close>

theorem debounce_judges_history:
  assumes "make_debouncer config = Inr d" and "raw \<noteq> SevTrending"
  shows "fst (fst (db_apply sensor skill raw None clock (feed_all sensor skill raws d))) =
      judged d (rev (history raws @ [raw]))
    \<and> fst (fst (db_apply sensor skill raw None clock (feed_all sensor skill raws d))) \<noteq> SevUnknown"
proof -
  let ?e = "feed_all sensor skill raws d"
  let ?st = "dget_or (db_states ?e) (sensor, skill) (new_state sensor skill)"
  note t = feed_all_tracks[OF assms(1), of sensor skill raws]
  have "feed ?e raw None clock ?st = feed d raw None clock ?st" using t by (simp add: feed_def)
  then have "fst (fst (db_apply sensor skill raw None clock ?e)) = ds_current (feed d raw None clock ?st)"
    using assms(2) by (simp add: db_apply_def Let_def)
  also have "\<dots> = judged d (rev (history raws @ [raw]))"
    using feed_tracks[OF make_debouncer_valid(1-3)[OF assms(1)] conjunct2[OF conjunct2[OF conjunct2[OF t]]]]
    by (simp add: tracks_def)
  finally show ?thesis using judged_levels[of d "rev (history raws @ [raw])"] by auto
qed

definition demo_debouncer :: debouncer where
  "demo_debouncer = \<lparr>db_critical = (2, 3), db_warning = (3, 5), db_recovery = (3, 3), db_states = []\<rparr>"

lemma demo_debouncer: "make_debouncer None = Inr demo_debouncer"
  by (simp add: make_debouncer_def pair_def default_config_def dget_or_def int_val_def demo_debouncer_def)

lemma demo_pairs:
  "db_critical demo_debouncer = (2, 3)" "db_warning demo_debouncer = (3, 5)"
  "db_recovery demo_debouncer = (3, 3)" "db_states demo_debouncer = []"
  by (simp_all add: demo_debouncer_def)

theorem debounce_judges_history_witness:
  "fst (fst (db_apply ''s'' ''k'' SevCritical None 9
     (feed_all ''s'' ''k'' [(SevCritical, 1), (SevHealthy, 2), (SevCritical, 3)] demo_debouncer))) = SevCritical"
proof -
  have "judged demo_debouncer (rev ([SevCritical, SevHealthy, SevCritical] @ [SevCritical])) = SevCritical"
  proof -
    have "critical_due (db_critical demo_debouncer) [SevCritical, SevHealthy, SevCritical, SevCritical]"
      unfolding critical_due_def by (intro exI [of _ 2]) (auto simp: demo_debouncer_def nth_Cons split: nat.splits)
    then show ?thesis by simp
  qed
  then show ?thesis
    using debounce_judges_history[OF demo_debouncer, of SevCritical "''s''" "''k''" 9
        "[(SevCritical, 1), (SevHealthy, 2), (SevCritical, 3)]"]
    by (simp add: history_def)
qed

lemma strict_rule_holds:
  assumes "3 \<le> db_count ov" "db_count ov \<le> db_window ov"
    and "db_critical d = (2, 3)" "db_warning d = (3, 5)" "db_recovery d = (3, 3)"
    and "ds_current st = SevHealthy" "ds_window st \<in> {[], [SevCritical]}"
  shows "ds_current (feed d SevCritical (Some ov) t st) = SevHealthy"
    "ds_window (feed d SevCritical (Some ov) t st) = ds_window st @ [SevCritical]"
proof -
  have keep: "py_last m (ds_window st @ [SevCritical]) = ds_window st @ [SevCritical]" if "3 \<le> m" for m
    using assms(7) that by (auto intro!: py_last_all)
  have "max_run (ds_window st @ [SevCritical]) SevCritical \<le> 2"
    using assms(7) by (auto simp: max_run_def)
  moreover have "filter (\<lambda>v. v = SevWarning) (ds_window st @ [SevCritical]) = []" using assms(7) by auto
  ultimately show "ds_current (feed d SevCritical (Some ov) t st) = SevHealthy"
    "ds_window (feed d SevCritical (Some ov) t st) = ds_window st @ [SevCritical]"
    using assms keep[of "db_window ov"] keep[of 5] keep[of "max (db_window ov) 5"]
    by (simp_all add: feed_def decide_def effective_def Let_def)
qed

lemma default_pair_fires:
  assumes "db_critical d = (2, 3)" "db_warning d = (3, 5)" "db_recovery d = (3, 3)"
    and "ds_window st = [SevCritical, SevCritical]"
  shows "ds_current (feed d SevHealthy None t st) = SevCritical"
  using assms by (simp add: feed_def decide_def effective_def Let_def py_last_def max_run_def)

text \<open>A stricter rule is bypassed by the next reading. With the default pairs, a rule that asks for
\<open>n\<close> of \<open>w\<close> critical polls, \<open>n\<close> at least 3, holds back after two of them; the healthy poll that
follows carries no override, is judged with the default pair and turns the verdict critical.\<close>

theorem override_bypassed:
  assumes "3 \<le> db_count ov" and "db_count ov \<le> db_window ov"
  shows "let (r1, d1) = db_apply ''s'' ''k'' SevCritical (Some ov) t1 demo_debouncer;
             (r2, d2) = db_apply ''s'' ''k'' SevCritical (Some ov) t2 d1;
             (r3, d3) = db_apply ''s'' ''k'' SevHealthy None t3 d2
         in fst r1 = SevHealthy \<and> fst r2 = SevHealthy \<and> fst r3 = SevCritical"
proof -
  let ?d = demo_debouncer and ?n = "new_state ''s'' ''k''"
  let ?s1 = "feed ?d SevCritical (Some ov) t1 ?n"
  let ?d1 = "?d\<lparr>db_states := [((''s'', ''k''), ?s1)]\<rparr>"
  let ?s2 = "feed ?d1 SevCritical (Some ov) t2 ?s1"
  let ?d2 = "?d1\<lparr>db_states := [((''s'', ''k''), ?s2)]\<rparr>"
  have s1: "ds_current ?s1 = SevHealthy" "ds_window ?s1 = [SevCritical]"
    using strict_rule_holds[OF assms, of ?d ?n t1] by (simp_all add: demo_pairs new_state_def)
  have s2: "ds_current ?s2 = SevHealthy" "ds_window ?s2 = [SevCritical, SevCritical]"
    using strict_rule_holds[OF assms, of ?d1 ?s1 t2] s1 by (simp_all add: demo_pairs)
  have s3: "ds_current (feed ?d2 SevHealthy None t3 ?s2) = SevCritical"
    by (rule default_pair_fires) (simp_all add: demo_pairs s2)
  have a1: "db_apply ''s'' ''k'' SevCritical (Some ov) t1 ?d = ((ds_current ?s1, ?s1), ?d1)"
    by (simp add: db_apply_def demo_pairs Let_def dget_or_def)
  have a2: "db_apply ''s'' ''k'' SevCritical (Some ov) t2 ?d1 = ((ds_current ?s2, ?s2), ?d2)"
    by (simp add: db_apply_def Let_def dget_or_def)
  have a3: "fst (fst (db_apply ''s'' ''k'' SevHealthy None t3 ?d2)) = SevCritical"
    using s3 by (simp add: db_apply_def Let_def dget_or_def)
  show ?thesis by (simp only: a1 a2 Let_def case_prod_conv case_prod_unfold fst_conv snd_conv a3 s1 s2 simp_thms)
qed

theorem override_bypassed_witness:
  "let ov = \<lparr>db_count = 3, db_window = 5\<rparr>;
       (r1, d1) = db_apply ''s'' ''k'' SevCritical (Some ov) 1 demo_debouncer;
       (r2, d2) = db_apply ''s'' ''k'' SevCritical (Some ov) 2 d1;
       (r3, d3) = db_apply ''s'' ''k'' SevHealthy None 3 d2
   in fst r2 = SevHealthy \<and> fst r3 = SevCritical"
  using override_bypassed[of "\<lparr>db_count = 3, db_window = 5\<rparr>" 1 2 3]
  by (auto simp: Let_def case_prod_unfold)

end
