(* ===== verification/Skill_Engine.thy ===== *)
theory Skill_Engine
  imports Trends Debounce
begin

text \<open>
  The skill engine (\<open>src/src/harkeniq/skills/engine.py\<close>): one skill against one reading, and the
  per-sensor pipeline of a poll - baseline, rules behind the confidence gate, trends, debounce,
  action proposal. A sensor is its name, health, state and the fields of its dataclass. Texts that
  are templates filled from a context are kept as the template and the context. \<open>None\<close> is an
  exception that leaves the poll, and the state it had reached is lost with it.
\<close>

subsection \<open>Skills and verdicts\<close>

record skill_rule =
  sr_condition :: string
  sr_ast :: ast
  sr_verdict :: severity
  sr_template :: string
  sr_debounce :: "debounce_config option"
  sr_action :: "(action_type \<times> (string, string) dict) option"

record skill_definition =
  sk_name :: string
  sk_version :: int
  sk_target :: string
  sk_description :: string
  sk_rules :: "skill_rule list"
  sk_trending :: "trending_rule list"
  sk_default :: severity

record sensor =
  sn_name :: string
  sn_health :: string
  sn_state :: string
  sn_fields :: pydict

datatype verdict_text =
    DefaultText string severity
  | TemplateText string pydict
  | LearningText string string real
  | TrendText "string \<times> real \<times> real \<times> real option \<times> real option"
  | HoldingText string severity severity

datatype evidence_condition = RuleCondition string | TrendCondition string string

record skill_evidence =
  evd_sensor :: "string \<times> string"
  evd_skill :: string
  evd_rule_index :: int
  evd_condition :: evidence_condition
  evd_fields :: pydict
  evd_timestamp :: time
  evd_confidence :: real

record skill_verdict =
  sv_sensor :: "string \<times> string"
  sv_skill :: string
  sv_severity :: severity
  sv_message :: verdict_text
  sv_evidence :: "skill_evidence list"
  sv_timestamp :: time
  sv_debounce :: "debounce_state option"

text \<open>The sensor identifier is the text \<open>target:name\<close>.\<close>

definition sensor_key :: "string \<times> string \<Rightarrow> string" where
  "sensor_key s = fst s @ CHR '':'' # snd s"

definition build_context :: "pydict \<Rightarrow> pydict option \<Rightarrow> pydict" where
  "build_context flds base = (case base of None \<Rightarrow> flds | Some b \<Rightarrow> fold (\<lambda>(k, v). dset k v) b flds)"

definition evidence_fields :: "pydict \<Rightarrow> pydict" where
  "evidence_fields ctx =
     filter (\<lambda>(k, v). v \<noteq> PyNone \<and> (case v of PyDict _ \<Rightarrow> False | PyList _ \<Rightarrow> False | _ \<Rightarrow> True)) ctx"

definition text_or_empty :: "pyval option \<Rightarrow> string" where
  "text_or_empty v = (case v of Some (PyStr s) \<Rightarrow> s | _ \<Rightarrow> [])"

subsection \<open>One skill, one reading\<close>

definition matched_rules :: "skill_rule list \<Rightarrow> pydict \<Rightarrow> (nat \<times> skill_rule) list" where
  "matched_rules rules ctx = filter (\<lambda>(i, r). evaluate (sr_ast r) ctx) (enumerate 0 rules)"

text \<open>\<open>max\<close> with key (verdict, minus index): a later pair replaces the best only when its key is greater.\<close>

definition better :: "nat \<times> skill_rule \<Rightarrow> nat \<times> skill_rule \<Rightarrow> bool" where
  "better p q \<longleftrightarrow> sr_verdict (snd q) < sr_verdict (snd p) \<or> sr_verdict (snd p) = sr_verdict (snd q) \<and> fst p < fst q"

fun best_of :: "nat \<times> skill_rule \<Rightarrow> (nat \<times> skill_rule) list \<Rightarrow> nat \<times> skill_rule" where
  "best_of p [] = p"
| "best_of p (q # qs) = best_of (if better q p then q else p) qs"

definition evaluate_skill :: "skill_definition \<Rightarrow> pydict \<Rightarrow> pydict option \<Rightarrow> time \<Rightarrow> skill_verdict" where
  "evaluate_skill skill flds base ts =
     (let ctx = build_context flds base;
          name = text_or_empty (dget ctx ''name'');
          sid = (sk_target skill, name);
          conf = (case base of None \<Rightarrow> 0 | Some b \<Rightarrow> (case py_number (dget_or b ''baseline_confidence'' (PyFloat 0)) of
                    Some r \<Rightarrow> r | None \<Rightarrow> 0));
          matched = matched_rules (sk_rules skill) ctx in
      case matched of
        [] \<Rightarrow> \<lparr>sv_sensor = sid, sv_skill = sk_name skill, sv_severity = sk_default skill,
              sv_message = DefaultText name (sk_default skill), sv_evidence = [], sv_timestamp = ts,
              sv_debounce = None\<rparr>
      | p # ps \<Rightarrow>
          (let winner = snd (best_of p ps);
               ev = map (\<lambda>(i, r). \<lparr>evd_sensor = sid, evd_skill = sk_name skill, evd_rule_index = int i,
                      evd_condition = RuleCondition (sr_condition r), evd_fields = evidence_fields ctx,
                      evd_timestamp = ts, evd_confidence = conf\<rparr>) matched
           in \<lparr>sv_sensor = sid, sv_skill = sk_name skill, sv_severity = sr_verdict winner,
               sv_message = TemplateText (sr_template winner) ctx, sv_evidence = ev, sv_timestamp = ts,
               sv_debounce = None\<rparr>))"

fun first_of_severity :: "skill_rule list \<Rightarrow> severity \<Rightarrow> skill_evidence list \<Rightarrow> skill_rule option" where
  "first_of_severity rules sev [] = None"
| "first_of_severity rules sev (e # es) =
     (let r = rules ! nat (evd_rule_index e) in
      if sr_verdict r = sev then Some r else first_of_severity rules sev es)"

definition winning_rule :: "skill_definition \<Rightarrow> skill_verdict \<Rightarrow> skill_rule option" where
  "winning_rule skill v = first_of_severity (sk_rules skill) (sv_severity v) (sv_evidence v)"

subsection \<open>The pipeline of a sensor\<close>

definition target_collections :: "(string, string) dict" where
  "target_collections =
     [(''fan'', ''fans''), (''disk'', ''disks''), (''memory'', ''memory''), (''psu'', ''psus''),
      (''thermal'', ''thermals''), (''interface'', ''interfaces'')]"

definition health_to_severity :: "(string, severity) dict" where
  "health_to_severity = [(''OK'', SevHealthy), (''Warning'', SevWarning), (''Critical'', SevCritical)]"

record proposal =
  pr_type :: action_type
  pr_params :: "(string, string) dict"
  pr_context :: pydict
  pr_sensor :: "string \<times> string"
  pr_skill :: string
  pr_severity :: severity
  pr_proposed_at :: time

record skill_engine =
  se_skills :: "(string, skill_definition) dict"
  se_debouncer :: debouncer
  se_trending :: trending
  se_pending :: "proposal list"

definition init_engine :: "skill_definition list \<Rightarrow> debouncer \<Rightarrow> trending \<Rightarrow> skill_engine" where
  "init_engine skills db te =
     \<lparr>se_skills = fold (\<lambda>s. dset (sk_name s) s) skills [], se_debouncer = db, se_trending = te, se_pending = []\<rparr>"

text \<open>\<open>round(x, k)\<close>: to the nearest multiple, ties to the even one.\<close>

definition py_round :: "real \<Rightarrow> nat \<Rightarrow> real" where
  "py_round x k =
     (let y = x * 10 ^ k; f = \<lfloor>y\<rfloor>; r = y - of_int f in
      of_int (if r < 1 / 2 then f else if r > 1 / 2 then f + 1 else if even f then f else f + 1) / 10 ^ k)"

definition baseline_fields :: "string \<Rightarrow> real option \<Rightarrow> real \<Rightarrow> trending \<Rightarrow> pydict option" where
  "baseline_fields sid value conf te =
     (case dget (te_baselines te) sid of
        None \<Rightarrow> None
      | Some b \<Rightarrow>
          (let dev = (case value of None \<Rightarrow> 0
                      | Some v \<Rightarrow> if bl_stddev b = 0 then 0 else (v - bl_mean b) / bl_stddev b)
           in Some [(''baseline_mean'', PyFloat (py_round (bl_mean b) 1)),
                    (''baseline_stddev'', PyFloat (py_round (bl_stddev b) 2)),
                    (''deviation'', PyFloat (py_round dev 1)),
                    (''baseline_confidence'', PyFloat conf)]))"

text \<open>Step 1: the metric of the first trending rule updates the baseline of the sensor.\<close>

definition metric_of :: "skill_definition \<Rightarrow> trending_rule option" where
  "metric_of skill = (case sk_trending skill of [] \<Rightarrow> None | r # _ \<Rightarrow> Some r)"

definition update_metric ::
  "skill_definition \<Rightarrow> sensor \<Rightarrow> time \<Rightarrow> trending \<Rightarrow> (real option \<times> trending) option" where
  "update_metric skill sn ts te =
     (let sid = sensor_key (sk_target skill, sn_name sn) in
      case metric_of skill of
        None \<Rightarrow> Some (None, te)
      | Some rule \<Rightarrow>
          (let raw = dget_or (sn_fields sn) (tr_field rule) PyNone in
           if raw = PyNone then Some (None, te)
           else (case py_float raw of
               None \<Rightarrow> None
             | Some v \<Rightarrow>
                 (let (value, te1) = (if tr_counter rule then counter_to_rate sid v ts te else (Some v, te)) in
                  case value of
                    None \<Rightarrow> Some (None, te1)
                  | Some u \<Rightarrow> map_option (\<lambda>(b, te2). (Some u, te2))
                      (update_baseline sid u ts (sn_health sn) (Some (tr_direction rule)) te1)))))"

text \<open>Step 2: in learning mode the device's own health, afterwards the rules.\<close>

definition learning_verdict :: "skill_definition \<Rightarrow> sensor \<Rightarrow> real \<Rightarrow> time \<Rightarrow> skill_verdict" where
  "learning_verdict skill sn conf ts =
     (let sid = (sk_target skill, sn_name sn) in
      \<lparr>sv_sensor = sid, sv_skill = sk_name skill,
       sv_severity = dget_or health_to_severity (sn_health sn) SevUnknown,
       sv_message = LearningText (sn_name sn) (sn_health sn) conf,
       sv_evidence = [\<lparr>evd_sensor = sid, evd_skill = sk_name skill, evd_rule_index = -1,
          evd_condition = RuleCondition [], evd_fields = [(''health'', PyStr (sn_health sn))],
          evd_timestamp = ts, evd_confidence = conf\<rparr>],
       sv_timestamp = ts, sv_debounce = None\<rparr>)"

definition raw_verdict ::
  "skill_definition \<Rightarrow> sensor \<Rightarrow> real option \<Rightarrow> time \<Rightarrow> trending \<Rightarrow> skill_verdict \<times> skill_rule option \<times> pydict" where
  "raw_verdict skill sn value ts te =
     (let sid = sensor_key (sk_target skill, sn_name sn); conf = te_confidence sid te in
      if conf < 1 / 2 then (learning_verdict skill sn conf ts, None, build_context (sn_fields sn) None)
      else (let base = baseline_fields sid value conf te;
                v = evaluate_skill skill (sn_fields sn) base ts
            in (v, winning_rule skill v, build_context (sn_fields sn) base)))"

text \<open>Step 3: trends, never debounced.\<close>

definition trend_verdict :: "skill_definition \<Rightarrow> sensor \<Rightarrow> real \<Rightarrow> time \<Rightarrow> trend_result \<Rightarrow> skill_verdict" where
  "trend_verdict skill sn conf ts tr =
     (let sid = (sk_target skill, sn_name sn);
          opt = (\<lambda>r. case r of None \<Rightarrow> PyNone | Some x \<Rightarrow> PyFloat x) in
      \<lparr>sv_sensor = sid, sv_skill = sk_name skill, sv_severity = SevTrending, sv_message = TrendText (td_message tr),
       sv_evidence = [\<lparr>evd_sensor = sid, evd_skill = sk_name skill, evd_rule_index = -1,
          evd_condition = TrendCondition (td_field tr) (td_direction tr),
          evd_fields = [(''slope'', PyFloat (td_slope tr)), (''r_squared'', PyFloat (td_r_squared tr)),
            (''current_value'', PyFloat (td_current tr)), (''threshold_value'', opt (td_threshold tr)),
            (''time_to_threshold_hours'', opt (td_time_to tr))],
          evd_timestamp = ts, evd_confidence = conf\<rparr>],
       sv_timestamp = ts, sv_debounce = None\<rparr>)"

definition trend_verdicts ::
  "skill_definition \<Rightarrow> sensor \<Rightarrow> pydict \<Rightarrow> time \<Rightarrow> trending \<Rightarrow> skill_verdict list option" where
  "trend_verdicts skill sn ctx ts te =
     (let sid = sensor_key (sk_target skill, sn_name sn); conf = te_confidence sid te in
      if 1 \<le> conf \<and> sk_trending skill \<noteq> []
      then map_option (map (trend_verdict skill sn conf ts)) (compute_trend sid (sk_trending skill) ctx te)
      else Some [])"

text \<open>Steps 4 and 5: debounce, then a proposal once the debounced verdict confirms the raw one.\<close>

definition final_verdict :: "sensor \<Rightarrow> time \<Rightarrow> skill_verdict \<Rightarrow> severity \<Rightarrow> debounce_state \<Rightarrow> skill_verdict" where
  "final_verdict sn ts v debounced st =
     (if debounced = sv_severity v then v\<lparr>sv_debounce := Some st\<rparr>
      else v\<lparr>sv_severity := debounced, sv_message := HoldingText (sn_name sn) debounced (sv_severity v),
             sv_timestamp := ts, sv_debounce := Some st\<rparr>)"

definition proposals ::
  "skill_definition \<Rightarrow> sensor \<Rightarrow> pydict \<Rightarrow> time \<Rightarrow> skill_verdict \<Rightarrow> skill_rule option \<Rightarrow> severity \<Rightarrow> proposal list" where
  "proposals skill sn ctx ts v winner debounced =
     (case winner of
        None \<Rightarrow> []
      | Some r \<Rightarrow>
          (case sr_action r of
             None \<Rightarrow> []
           | Some (ty, params) \<Rightarrow>
               if debounced = sv_severity v \<and> debounced \<in> {SevWarning, SevCritical}
               then [\<lparr>pr_type = ty, pr_params = params, pr_context = ctx,
                      pr_sensor = (sk_target skill, sn_name sn), pr_skill = sk_name skill,
                      pr_severity = debounced, pr_proposed_at = ts\<rparr>]
               else []))"

definition evaluate_sensor ::
  "skill_definition \<Rightarrow> sensor \<Rightarrow> time \<Rightarrow> time \<Rightarrow> skill_engine \<Rightarrow> (skill_verdict list \<times> skill_engine) option" where
  "evaluate_sensor skill sn ts clock e =
     (case update_metric skill sn ts (se_trending e) of
        None \<Rightarrow> None
      | Some (value, te) \<Rightarrow>
          (let (v, winner, ctx) = raw_verdict skill sn value ts te in
           case trend_verdicts skill sn ctx ts te of
             None \<Rightarrow> None
           | Some trends \<Rightarrow>
               (let ((debounced, st), db) =
                      db_apply (sensor_key (sk_target skill, sn_name sn)) (sk_name skill) (sv_severity v)
                        (case winner of None \<Rightarrow> None | Some r \<Rightarrow> sr_debounce r) clock (se_debouncer e)
                in Some (trends @ [final_verdict sn ts v debounced st],
                     e\<lparr>se_trending := te, se_debouncer := db,
                       se_pending := se_pending e @ proposals skill sn ctx ts v winner debounced\<rparr>))))"

subsection \<open>A poll\<close>

fun evaluate_sensors ::
  "skill_definition \<Rightarrow> sensor list \<Rightarrow> time \<Rightarrow> time \<Rightarrow> skill_engine \<Rightarrow> (skill_verdict list \<times> skill_engine) option" where
  "evaluate_sensors skill [] ts clock e = Some ([], e)"
| "evaluate_sensors skill (sn # sns) ts clock e =
     (if sk_target skill = ''memory'' \<and> sn_state sn = ''Absent'' then evaluate_sensors skill sns ts clock e
      else (case evaluate_sensor skill sn ts clock e of
          None \<Rightarrow> None
        | Some (vs, e1) \<Rightarrow> map_option (\<lambda>(ws, e2). (vs @ ws, e2)) (evaluate_sensors skill sns ts clock e1)))"

fun evaluate_skills ::
  "skill_definition list \<Rightarrow> (string, sensor list) dict \<Rightarrow> time \<Rightarrow> time \<Rightarrow> skill_engine \<Rightarrow>
     (skill_verdict list \<times> skill_engine) option" where
  "evaluate_skills [] device ts clock e = Some ([], e)"
| "evaluate_skills (s # ss) device ts clock e =
     (case dget target_collections (sk_target s) of
        None \<Rightarrow> None
      | Some coll \<Rightarrow>
          (case evaluate_sensors s (dget_or device coll []) ts clock e of
             None \<Rightarrow> None
           | Some (vs, e1) \<Rightarrow> map_option (\<lambda>(ws, e2). (vs @ ws, e2)) (evaluate_skills ss device ts clock e1)))"

definition engine_evaluate ::
  "(string, sensor list) dict \<Rightarrow> time \<Rightarrow> time \<Rightarrow> skill_engine \<Rightarrow> (skill_verdict list \<times> skill_engine) option" where
  "engine_evaluate device ts clock e =
     evaluate_skills (dvals (se_skills e)) device ts clock (e\<lparr>se_pending := []\<rparr>)"

definition engine_reload :: "skill_definition list \<Rightarrow> skill_engine \<Rightarrow> skill_engine" where
  "engine_reload skills e =
     (let sks = fold (\<lambda>s. dset (sk_name s) s) skills [] in
      e\<lparr>se_skills := sks, se_debouncer := db_reload_skills (set (dkeys sks)) (se_debouncer e)\<rparr>)"

subsection \<open>Which rule wins\<close>

lemma best_of_best:
  assumes "sorted_wrt (\<lambda>a b. fst a < fst b) (p # qs)"
  shows "best_of p qs \<in> set (p # qs) \<and>
    (\<forall>q \<in> set (p # qs). sr_verdict (snd q) \<le> sr_verdict (snd (best_of p qs))) \<and>
    (\<forall>q \<in> set (p # qs). sr_verdict (snd q) = sr_verdict (snd (best_of p qs)) \<longrightarrow> fst (best_of p qs) \<le> fst q)"
  using assms
proof (induction qs arbitrary: p)
  case (Cons q qs)
  define p' where "p' = (if better q p then q else p)"
  have "sorted_wrt (\<lambda>a b. fst a < fst b) (p' # qs)" using Cons.prems by (auto simp: p'_def)
  note ih = Cons.IH[OF this]
  have up: "sr_verdict (snd p) \<le> sr_verdict (snd p')" "sr_verdict (snd q) \<le> sr_verdict (snd p')"
    and tie: "sr_verdict (snd p) = sr_verdict (snd p') \<Longrightarrow> fst p' \<le> fst p"
      "sr_verdict (snd q) = sr_verdict (snd p') \<Longrightarrow> fst p' \<le> fst q"
    using Cons.prems by (auto simp: p'_def better_def)
  let ?b = "best_of p' qs"
  have max: "sr_verdict (snd p') \<le> sr_verdict (snd ?b)" using ih by auto
  have tie': "fst ?b \<le> fst r" if "r \<in> {p, q}" "sr_verdict (snd r) = sr_verdict (snd ?b)" for r
  proof -
    have "sr_verdict (snd r) \<le> sr_verdict (snd p')" "sr_verdict (snd r) = sr_verdict (snd p') \<Longrightarrow> fst p' \<le> fst r"
      using that(1) up tie by auto
    moreover have "sr_verdict (snd p') = sr_verdict (snd ?b)" using max that(2) calculation(1) by order
    moreover have "fst ?b \<le> fst p'" using ih calculation(3) by auto
    ultimately show ?thesis using that(2) by auto
  qed
  have mem: "?b \<in> set (p # q # qs)" using ih by (auto simp: p'_def split: if_splits)
  have "best_of p (q # qs) = ?b" by (simp add: p'_def)
  then show ?case using mem ih up max tie' by (auto intro: order_trans)
qed simp

lemma first_by_index:
  assumes "sorted_wrt (\<lambda>a b. fst a < fst b) xs" "b \<in> set xs" "P b"
    and "\<forall>q \<in> set xs. P q \<longrightarrow> fst b \<le> (fst q :: nat)"
  shows "hd (filter P xs) = b"
  using assms
proof (induction xs)
  case (Cons x xs)
  then show ?case by (cases "P x") (auto simp: order.antisym leD)
qed simp

lemma matched_rules_facts:
  "map snd (matched_rules rules ctx) = filter (\<lambda>r. evaluate (sr_ast r) ctx) rules"
  "sorted_wrt (\<lambda>a b. fst a < fst b) (matched_rules rules ctx)"
  "(i, r) \<in> set (matched_rules rules ctx) \<Longrightarrow> rules ! i = r \<and> i < length rules"
proof -
  have "map snd (filter (\<lambda>(i, r). evaluate (sr_ast r) ctx) (enumerate n rs)) = filter (\<lambda>r. evaluate (sr_ast r) ctx) rs" for n rs
    by (induction rs arbitrary: n) auto
  then show "map snd (matched_rules rules ctx) = filter (\<lambda>r. evaluate (sr_ast r) ctx) rules"
    by (simp add: matched_rules_def)
  have "sorted_wrt (\<lambda>a b. fst a < fst b) (enumerate n rs)" for n and rs :: "skill_rule list"
    by (induction rs arbitrary: n) (auto simp: in_set_enumerate_eq)
  then show "sorted_wrt (\<lambda>a b. fst a < fst b) (matched_rules rules ctx)"
    unfolding matched_rules_def by (rule sorted_wrt_filter)
  show "(i, r) \<in> set (matched_rules rules ctx) \<Longrightarrow> rules ! i = r \<and> i < length rules"
    by (auto simp: matched_rules_def in_set_enumerate_eq)
qed

lemma first_of_severity_evidence:
  assumes "\<forall>(i, r) \<in> set ms. rules ! i = r"
    and "\<And>i r. evd_rule_index (f (i, r)) = int i"
  shows "first_of_severity rules sev (map f ms) =
    (case filter (\<lambda>q. sr_verdict (snd q) = sev) ms of [] \<Rightarrow> None | q # _ \<Rightarrow> Some (snd q))"
  using assms(1) by (induction ms) (auto simp: assms(2))

lemma evaluate_skill_winner:
  assumes "ctx = build_context flds base" "ms = matched_rules (sk_rules skill) ctx" "ms \<noteq> []"
    and "v = evaluate_skill skill flds base ts"
  shows "\<exists>w \<in> set ms. winning_rule skill v = Some (snd w) \<and> sv_severity v = sr_verdict (snd w) \<and>
    sv_message v = TemplateText (sr_template (snd w)) ctx \<and>
    (\<forall>q \<in> set ms. sr_verdict (snd q) \<le> sr_verdict (snd w)) \<and>
    (\<forall>q \<in> set ms. sr_verdict (snd q) = sr_verdict (snd w) \<longrightarrow> fst w \<le> fst q) \<and>
    map evd_rule_index (sv_evidence v) = map (int \<circ> fst) ms"
proof -
  obtain p ps where ms: "ms = p # ps" using assms(3) by (cases ms) auto
  let ?w = "best_of p ps"
  have sorted: "sorted_wrt (\<lambda>a b. fst a < fst b) ms" unfolding assms(2) by (rule matched_rules_facts(2))
  have best: "?w \<in> set ms" "\<forall>q \<in> set ms. sr_verdict (snd q) \<le> sr_verdict (snd ?w)"
    "\<forall>q \<in> set ms. sr_verdict (snd q) = sr_verdict (snd ?w) \<longrightarrow> fst ?w \<le> fst q"
    using best_of_best[of p ps] sorted unfolding ms by blast+
  have sev: "sv_severity v = sr_verdict (snd ?w)" "sv_message v = TemplateText (sr_template (snd ?w)) ctx"
    using ms assms by (simp_all add: evaluate_skill_def Let_def)
  define f where "f = (\<lambda>(i, r :: skill_rule). \<lparr>evd_sensor = (sk_target skill, text_or_empty (dget ctx ''name'')), evd_skill = sk_name skill,
      evd_rule_index = int i, evd_condition = RuleCondition (sr_condition r), evd_fields = evidence_fields ctx,
      evd_timestamp = ts, evd_confidence = (case base of None \<Rightarrow> 0 | Some b \<Rightarrow>
        (case py_number (dget_or b ''baseline_confidence'' (PyFloat 0)) of Some r \<Rightarrow> r | None \<Rightarrow> 0))\<rparr>)"
  have ev: "sv_evidence v = map f ms"
    unfolding assms(4) f_def evaluate_skill_def Let_def assms(1)[symmetric] assms(2)[symmetric] ms list.case
    by (simp only: skill_verdict.select_convs)
  have f: "evd_rule_index (f (i, r)) = int i" for i r by (simp add: f_def)
  have "winning_rule skill v = (case filter (\<lambda>q. sr_verdict (snd q) = sv_severity v) ms of [] \<Rightarrow> None | q # _ \<Rightarrow> Some (snd q))"
    unfolding winning_rule_def ev
    by (rule first_of_severity_evidence) (use matched_rules_facts(3) assms(2) f in auto)
  moreover have "hd (filter (\<lambda>q. sr_verdict (snd q) = sv_severity v) ms) = ?w"
    by (rule first_by_index[OF sorted best(1)]) (use sev best in auto)
  moreover have "filter (\<lambda>q. sr_verdict (snd q) = sv_severity v) ms \<noteq> []"
    using best(1) sev by (auto simp: filter_empty_conv)
  ultimately have "winning_rule skill v = Some (snd ?w)" by (auto split: list.splits)
  moreover have "map evd_rule_index (sv_evidence v) = map (int \<circ> fst) ms" unfolding ev using f by auto
  ultimately show ?thesis using best sev by (intro bexI[of _ ?w]) auto
qed

subsection \<open>Properties\<close>

text \<open>The highest severity wins. Every rule is evaluated; without a match the default verdict applies;
otherwise the verdict, its message and the rule that is asked for the action are those of the first
matching rule of the highest severity among the matching ones, and each of them gives evidence.\<close>

theorem highest_severity_wins:
  assumes "v = evaluate_skill skill flds base ts" and "ctx = build_context flds base"
    and "m = filter (\<lambda>r. evaluate (sr_ast r) ctx) (sk_rules skill)"
  shows "if m = []
    then sv_severity v = sk_default skill \<and> sv_evidence v = [] \<and> winning_rule skill v = None
    else sv_severity v = Max (sr_verdict ` set m) \<and> length (sv_evidence v) = length m \<and>
      (let w = hd (filter (\<lambda>r. sr_verdict r = sv_severity v) m) in
       winning_rule skill v = Some w \<and> sv_message v = TemplateText (sr_template w) ctx)"
proof -
  let ?ms = "matched_rules (sk_rules skill) ctx"
  have m: "map snd ?ms = m" using matched_rules_facts(1) assms(3) by blast
  show ?thesis
  proof (cases "?ms = []")
    case True
    then show ?thesis using m assms(1,2) by (auto simp: evaluate_skill_def winning_rule_def Let_def)
  next
    case False
    obtain w where w: "w \<in> set ?ms" "winning_rule skill v = Some (snd w)" "sv_severity v = sr_verdict (snd w)"
      "sv_message v = TemplateText (sr_template (snd w)) ctx" "\<forall>q \<in> set ?ms. sr_verdict (snd q) \<le> sr_verdict (snd w)"
      "\<forall>q \<in> set ?ms. sr_verdict (snd q) = sr_verdict (snd w) \<longrightarrow> fst w \<le> fst q"
      "map evd_rule_index (sv_evidence v) = map (int \<circ> fst) ?ms"
      using evaluate_skill_winner[OF assms(2) refl False assms(1)] by blast
    have "m \<noteq> []" using False m by auto
    moreover have "length (sv_evidence v) = length m" using arg_cong[OF w(7), of length] m by (metis length_map)
    moreover have "sr_verdict (snd w) = Max (sr_verdict ` set m)"
      using w(1,5) unfolding m[symmetric] by (intro Max_eqI[symmetric]) auto
    moreover have "hd (filter (\<lambda>q. sr_verdict (snd q) = sv_severity v) ?ms) = w"
      by (rule first_by_index[OF matched_rules_facts(2) w(1)]) (use w in auto)
    then have "hd (filter (\<lambda>r. sr_verdict r = sv_severity v) m) = snd w"
      using w(1,3) unfolding m[symmetric] filter_map
      by (subst hd_map) (auto simp: filter_empty_conv comp_def)
    ultimately show ?thesis using w by (simp add: Let_def)
  qed
qed

definition rule_of :: "ast \<Rightarrow> severity \<Rightarrow> string \<Rightarrow> skill_rule" where
  "rule_of a sev msg =
     \<lparr>sr_condition = [], sr_ast = a, sr_verdict = sev, sr_template = msg, sr_debounce = None,
      sr_action = (if sev = SevCritical then Some (FanReset, []) else None)\<rparr>"

definition demo_skill :: skill_definition where
  "demo_skill =
     \<lparr>sk_name = ''k'', sk_version = 1, sk_target = ''fan'', sk_description = [],
      sk_rules = [rule_of (Comparison ''rpm'' ''<'' (Lit (PyInt 100))) SevWarning ''slow'',
                  rule_of (Comparison ''rpm'' ''<'' (Lit (PyInt 50))) SevCritical ''stalled''],
      sk_trending = [], sk_default = SevHealthy\<rparr>"

lemma demo_conditions:
  "evaluate (Comparison ''rpm'' ''<'' (Lit (PyInt k))) [(''rpm'', PyInt n)] \<longleftrightarrow> n < k"
  by (simp add: resolve_field_def operand_value_def compare_values_def is_bool_def compare_numbers_def)

theorem highest_severity_wins_witness:
  "sv_severity (evaluate_skill demo_skill [(''rpm'', PyInt 10)] None 5) = SevCritical"
proof -
  let ?rs = "sk_rules demo_skill"
  have m: "?rs = filter (\<lambda>r. evaluate (sr_ast r) [(''rpm'', PyInt 10)]) ?rs"
    by (simp add: demo_skill_def rule_of_def demo_conditions del: evaluate.simps)
  have "build_context [(''rpm'', PyInt 10)] None = [(''rpm'', PyInt 10)]" by (simp add: build_context_def)
  from highest_severity_wins[OF refl this[symmetric] m, of 5]
  have "sv_severity (evaluate_skill demo_skill [(''rpm'', PyInt 10)] None 5) = Max (sr_verdict ` set ?rs)"
    by (simp add: demo_skill_def)
  also have "\<dots> = SevCritical"
    by (simp add: demo_skill_def rule_of_def max_def less_eq_severity_def verdict_less_eq_def verdict_less_def)
  finally show ?thesis .
qed

lemma first_of_severity_mem:
  "first_of_severity rules sev es = Some r \<Longrightarrow> \<exists>e \<in> set es. r = rules ! nat (evd_rule_index e) \<and> sr_verdict r = sev"
  by (induction es) (auto simp: Let_def split: if_splits)

lemma winning_rule_matches:
  assumes "winning_rule skill (evaluate_skill skill flds base ts) = Some r"
  shows "r \<in> set (sk_rules skill) \<and> evaluate (sr_ast r) (build_context flds base) \<and>
    sr_verdict r = sv_severity (evaluate_skill skill flds base ts)"
proof (cases "matched_rules (sk_rules skill) (build_context flds base) = []")
  case True
  then have "sv_evidence (evaluate_skill skill flds base ts) = []" by (simp add: evaluate_skill_def Let_def)
  then show ?thesis using assms by (simp add: winning_rule_def)
next
  case False
  obtain w where w: "w \<in> set (matched_rules (sk_rules skill) (build_context flds base))"
    "winning_rule skill (evaluate_skill skill flds base ts) = Some (snd w)"
    "sv_severity (evaluate_skill skill flds base ts) = sr_verdict (snd w)"
    using evaluate_skill_winner[OF refl refl False refl] by blast
  have "snd w \<in> set (filter (\<lambda>r. evaluate (sr_ast r) (build_context flds base)) (sk_rules skill))"
    using w(1) matched_rules_facts(1)[of "sk_rules skill" "build_context flds base"] by (metis image_eqI set_map)
  then show ?thesis using assms w(2,3) by auto
qed

text \<open>C38: An action is proposed only on confirmed evidence. Whatever a sensor's evaluation adds to the
pending proposals is the action of a rule of the skill that matched the context it reports, at a
severity of warning or critical that the debouncer confirmed, with a baseline past learning mode;
and the sensor's final verdict has that severity.\<close>

theorem proposals_are_confirmed:
  assumes "evaluate_sensor skill sn ts clock e = Some (vs, e')" and "p \<in> set (se_pending e')"
    and "p \<notin> set (se_pending e)"
  shows "1 / 2 \<le> te_confidence (sensor_key (sk_target skill, sn_name sn)) (se_trending e') \<and>
    sv_severity (last vs) = pr_severity p \<and> pr_severity p \<in> {SevWarning, SevCritical} \<and>
    (\<exists>r \<in> set (sk_rules skill). sr_action r = Some (pr_type p, pr_params p) \<and>
       sr_verdict r = pr_severity p \<and> evaluate (sr_ast r) (pr_context p))"
proof -
  obtain mv te where u: "update_metric skill sn ts (se_trending e) = Some (mv, te)"
    using assms(1) by (auto simp: evaluate_sensor_def split: option.splits prod.splits)
  obtain v winner ctx where r: "raw_verdict skill sn mv ts te = (v, winner, ctx)" by (metis prod_cases3)
  obtain trends where t: "trend_verdicts skill sn ctx ts te = Some trends"
    using assms(1) u r by (auto simp: evaluate_sensor_def split: option.splits prod.splits)
  obtain deb st db where d: "db_apply (sensor_key (sk_target skill, sn_name sn)) (sk_name skill) (sv_severity v)
      (case winner of None \<Rightarrow> None | Some r \<Rightarrow> sr_debounce r) clock (se_debouncer e) = ((deb, st), db)"
    by (metis prod.collapse)
  have vs: "vs = trends @ [final_verdict sn ts v deb st]" "se_trending e' = te"
    "se_pending e' = se_pending e @ proposals skill sn ctx ts v winner deb"
    using assms(1) u r t d by (auto simp: evaluate_sensor_def)
  then have p: "p \<in> set (proposals skill sn ctx ts v winner deb)" using assms(2,3) by auto
  then obtain rule where rule: "winner = Some rule" "sr_action rule = Some (pr_type p, pr_params p)"
    "deb = sv_severity v" "deb \<in> {SevWarning, SevCritical}" "pr_severity p = deb" "pr_context p = ctx"
    by (auto simp: proposals_def split: option.splits if_splits)
  let ?c = "te_confidence (sensor_key (sk_target skill, sn_name sn)) te"
  have learned: "\<not> ?c < 1 / 2" using r rule(1) by (auto simp: raw_verdict_def Let_def split: if_splits)
  let ?base = "baseline_fields (sensor_key (sk_target skill, sn_name sn)) mv ?c te"
  have v: "v = evaluate_skill skill (sn_fields sn) ?base ts" "winner = winning_rule skill v"
    "ctx = build_context (sn_fields sn) ?base"
    using r learned by (auto simp: raw_verdict_def Let_def)
  have "rule \<in> set (sk_rules skill) \<and> evaluate (sr_ast rule) ctx \<and> sr_verdict rule = sv_severity v"
    using winning_rule_matches[of skill "sn_fields sn" ?base ts rule] v rule(1) by auto
  moreover have "sv_severity (final_verdict sn ts v deb st) = deb" by (simp add: final_verdict_def)
  ultimately show ?thesis using learned rule vs by auto
qed

definition demo_fan :: "int \<Rightarrow> sensor" where
  "demo_fan n = \<lparr>sn_name = ''f'', sn_health = ''OK'', sn_state = ''Enabled'', sn_fields = [(''rpm'', PyInt n)]\<rparr>"

definition trained :: skill_engine where
  "trained = init_engine [demo_skill]
     \<lparr>db_critical = (1, 1), db_warning = (3, 5), db_recovery = (3, 3), db_states = []\<rparr>
     (put_baseline ''fan:f'' (fresh_baseline ''fan:f'' 5\<lparr>bl_count := 60\<rparr>) (init_trending default_trend_config))"

lemma demo_no_metric: "update_metric demo_skill sn ts te = Some (None, te)"
  by (simp add: update_metric_def metric_of_def demo_skill_def Let_def)

lemma trained_facts:
  "sensor_key (''fan'', ''f'') = ''fan:f''" "te_confidence ''fan:f'' (se_trending trained) = 1"
  "se_pending trained = []" "db_states (se_debouncer trained) = []" "db_critical (se_debouncer trained) = (1, 1)"
  "db_warning (se_debouncer trained) = (3, 5)" "db_recovery (se_debouncer trained) = (3, 3)"
  by (simp_all add: sensor_key_def trained_def init_engine_def te_confidence_def init_trending_def default_trend_config_def
      fresh_baseline_def)

lemma demo_proposal:
  "\<exists>vs e' p. evaluate_sensor demo_skill (demo_fan 10) 1 1 trained = Some (vs, e') \<and> se_pending e' = [p]"
proof -
  let ?base = "baseline_fields ''fan:f'' None 1 (se_trending trained)"
  let ?w = "rule_of (Comparison ''rpm'' ''<'' (Lit (PyInt 50))) SevCritical ''stalled''"
  let ?v = "evaluate_skill demo_skill [(''rpm'', PyInt 10)] ?base 1"
  let ?ctx = "build_context [(''rpm'', PyInt 10)] ?base"
  have rpm: "evaluate (Comparison ''rpm'' ''<'' (Lit (PyInt k))) ?ctx \<longleftrightarrow> 10 < k" for k
    by (simp add: baseline_fields_def trained_def init_engine_def build_context_def resolve_field_def
        operand_value_def compare_values_def is_bool_def compare_numbers_def)
  have m: "sk_rules demo_skill = filter (\<lambda>r. evaluate (sr_ast r) ?ctx) (sk_rules demo_skill)"
    by (simp add: demo_skill_def rule_of_def rpm del: evaluate.simps)
  have mx: "Max (sr_verdict ` set (sk_rules demo_skill)) = SevCritical"
    by (simp add: demo_skill_def rule_of_def max_def less_eq_severity_def verdict_less_eq_def verdict_less_def)
  from highest_severity_wins[OF refl refl m, of 1] mx
  have v: "sv_severity ?v = SevCritical" "winning_rule demo_skill ?v = Some (?w)"
    by (simp_all add: demo_skill_def rule_of_def Let_def)
  have raw: "raw_verdict demo_skill (demo_fan 10) None 1 (se_trending trained) = (?v, Some (?w), ?ctx)"
    using trained_facts v(2) by (simp add: raw_verdict_def demo_fan_def demo_skill_def[THEN arg_cong[of _ _ sk_target], simplified] Let_def)
  have tr: "trend_verdicts demo_skill sn c 1 te = Some []" for sn c te
    by (simp add: trend_verdicts_def demo_skill_def)
  have db: "fst (fst (db_apply ''fan:f'' ''k'' SevCritical None 1 (se_debouncer trained))) = SevCritical"
    by (simp add: db_apply_def feed_def effective_def decide_def trained_facts new_state_def dget_or_def py_last_def max_run_def Let_def)
  have nm: "sk_target demo_skill = ''fan''" "sk_name demo_skill = ''k''" "sn_name (demo_fan 10) = ''f''"
    "sr_debounce (?w) = None" "sr_action (?w) = Some (FanReset, [])"
    by (simp_all add: demo_skill_def demo_fan_def rule_of_def)
  show ?thesis
    using db by (cases "db_apply ''fan:f'' ''k'' SevCritical None 1 (se_debouncer trained)")
      (auto simp: evaluate_sensor_def demo_no_metric raw tr nm trained_facts v(1) proposals_def Let_def)
qed

theorem proposals_are_confirmed_witness:
  "\<exists>vs e' p. evaluate_sensor demo_skill (demo_fan 10) 1 1 trained = Some (vs, e') \<and> p \<in> set (se_pending e') \<and>
     sv_severity (last vs) = pr_severity p"
proof -
  obtain vs e' p where e: "evaluate_sensor demo_skill (demo_fan 10) 1 1 trained = Some (vs, e')" "se_pending e' = [p]"
    using demo_proposal by blast
  have "p \<notin> set (se_pending trained)" by (simp add: trained_facts)
  with proposals_are_confirmed[OF e(1), of p] e show ?thesis by auto
qed

text \<open>A sensor whose metric is never reported is never judged by its rules. When the reading lacks the
field of the skill's first trending rule (an optic power on a copper port) and the sensor has no
baseline, the poll leaves the trending state as it was, so the next poll finds it the same, the raw
verdict is the device's own health and nothing is proposed, whatever the other fields say.\<close>

theorem unmetered_sensor_never_judged:
  assumes "metric_of skill = Some rule" and "dget_or (sn_fields sn) (tr_field rule) PyNone = PyNone"
    and "dget (te_baselines (se_trending e)) (sensor_key (sk_target skill, sn_name sn)) = None"
  shows "\<exists>v e'. evaluate_sensor skill sn ts clock e = Some ([v], e') \<and>
    se_trending e' = se_trending e \<and> se_pending e' = se_pending e \<and>
    fst (raw_verdict skill sn None ts (se_trending e)) = learning_verdict skill sn 0 ts"
proof -
  let ?sid = "sensor_key (sk_target skill, sn_name sn)"
  have c: "te_confidence ?sid (se_trending e) = 0" using assms(3) by (simp add: te_confidence_def)
  have u: "update_metric skill sn ts (se_trending e) = Some (None, se_trending e)"
    using assms(1,2) by (simp add: update_metric_def Let_def)
  have r: "raw_verdict skill sn None ts (se_trending e) = (learning_verdict skill sn 0 ts, None, sn_fields sn)"
    using c by (simp add: raw_verdict_def build_context_def Let_def)
  have t: "trend_verdicts skill sn ctx ts (se_trending e) = Some []" for ctx
    using c by (simp add: trend_verdicts_def Let_def)
  obtain deb st db where d: "db_apply ?sid (sk_name skill) (sv_severity (learning_verdict skill sn 0 ts)) None clock (se_debouncer e) = ((deb, st), db)"
    by (metis prod.collapse)
  show ?thesis using u r t d by (simp add: evaluate_sensor_def proposals_def)
qed

definition port_rules :: "trending_rule list" where
  "port_rules =
     [\<lparr>tr_field = ''rx_dbm'', tr_direction = ''declining'', tr_template = [], tr_threshold_field = None, tr_counter = False\<rparr>,
      \<lparr>tr_field = ''crc_rate'', tr_direction = ''rising'', tr_template = [], tr_threshold_field = None, tr_counter = False\<rparr>]"

definition port_skill :: skill_definition where
  "port_skill =
     \<lparr>sk_name = ''port'', sk_version = 1, sk_target = ''interface'', sk_description = [],
      sk_rules = [rule_of (Comparison ''crc_rate'' ''>'' (Lit (PyInt 1))) SevCritical ''crc''],
      sk_trending = port_rules, sk_default = SevHealthy\<rparr>"

theorem unmetered_sensor_never_judged_witness:
  "let sn = \<lparr>sn_name = ''p'', sn_health = ''OK'', sn_state = ''up'', sn_fields = [(''crc_rate'', PyInt 5000)]\<rparr> in
   \<exists>v e'. evaluate_sensor port_skill sn 1 1 trained = Some ([v], e') \<and> se_pending e' = []"
  using unmetered_sensor_never_judged[of port_skill "hd port_rules"
      "\<lparr>sn_name = ''p'', sn_health = ''OK'', sn_state = ''up'', sn_fields = [(''crc_rate'', PyInt 5000)]\<rparr>" trained 1 1]
  by (auto simp: metric_of_def port_skill_def port_rules_def dget_or_def trained_def init_engine_def put_baseline_def
      init_trending_def sensor_key_def Let_def)

lemma trend_of_slope:
  "trend_of te s b ctx rule = Some (Some res) \<Longrightarrow> td_slope res = fst (compute_regression (bl_regression b))"
  by (auto simp: trend_of_def case_prod_unfold Let_def split: if_splits option.splits)

text \<open>Every trend of a sensor is the trend of its first metric. What a reading adds to the baseline
depends on the field of the skill's first trending rule alone, and the slope reported for any
trending rule, under the name of that rule's own field, is the slope of that baseline.\<close>

theorem trends_share_first_metric:
  assumes "metric_of skill = Some rule"
    and "dget_or (sn_fields sn) (tr_field rule) PyNone = dget_or flds (tr_field rule) PyNone"
    and "compute_trend s rules ctx te = Some rs" and "res \<in> set rs" and "dget (te_baselines te) s = Some b"
  shows "update_metric skill sn ts te' = update_metric skill (sn\<lparr>sn_fields := flds\<rparr>) ts te' \<and>
    td_slope res = fst (compute_regression (bl_regression b))"
proof -
  have "trends_of te s b ctx rules = Some rs"
    using assms(3-5) by (auto simp: compute_trend_def split: if_splits)
  then obtain r where "trend_of te s b ctx r = Some (Some res)" using trends_of_sound assms(4) by blast
  then have "td_slope res = fst (compute_regression (bl_regression b))" by (rule trend_of_slope)
  moreover have sel: "sn_health (sn\<lparr>sn_fields := flds\<rparr>) = sn_health sn" "sn_name (sn\<lparr>sn_fields := flds\<rparr>) = sn_name sn"
    "sn_fields (sn\<lparr>sn_fields := flds\<rparr>) = flds" by simp_all
  have "update_metric skill sn ts te' = update_metric skill (sn\<lparr>sn_fields := flds\<rparr>) ts te'"
    unfolding update_metric_def sel assms(1) option.case Let_def assms(2) by (rule refl)
  ultimately show ?thesis by simp
qed

definition port_engine :: trending where
  "port_engine = put_baseline ''s''
     (fresh_baseline ''s'' 5\<lparr>bl_count := 3, bl_ring := [(0, 7), (3600, 8), (7200, 9)],
        bl_regression := fold (\<lambda>(x, y). regression_add x y) [(0, 7), (1, 8), (2, 9)] fresh_regression\<rparr>)
     (init_trending (default_trend_config\<lparr>tc_min_samples := 3, tc_trending_min := 3\<rparr>))"

theorem trends_share_first_metric_witness:
  "\<exists>res. compute_trend ''s'' port_rules [(''rx_dbm'', PyInt 9), (''crc_rate'', PyInt 0)] port_engine = Some [res] \<and>
     td_field res = ''crc_rate'' \<and> td_slope res = 1"
proof -
  let ?r = "fold (\<lambda>(x, y). regression_add x y) [(0, 7), (1, 8), (2, 9 :: real)] fresh_regression"
  have r: "?r = \<lparr>sum_x = 3, sum_y = 24, sum_xy = 26, sum_x2 = 5, sum_y2 = 194, reg_n = 3, eviction_count = 0\<rparr>"
    by (simp add: regression_add_def fresh_regression_def)
  have reg: "compute_regression ?r = (1, 7, 1)"
    unfolding r by (simp add: compute_regression_def Let_def power2_eq_square)
  obtain res where res: "compute_trend ''s'' port_rules [(''rx_dbm'', PyInt 9), (''crc_rate'', PyInt 0)] port_engine = Some [res]"
    "td_field res = ''crc_rate''"
    using r by (simp add: compute_trend_def port_engine_def put_baseline_def te_confidence_def init_trending_def
        trend_of_def reg[unfolded r] trend_guards_def default_trend_config_def port_rules_def py_float_def as_str_def dget_or_def
        project_def is_bool_def Let_def)
  have b: "dget (te_baselines port_engine) ''s'' = Some (fresh_baseline ''s'' 5\<lparr>bl_count := 3,
      bl_ring := [(0, 7), (3600, 8), (7200, 9)], bl_regression := ?r\<rparr>)"
    by (simp add: port_engine_def)
  have m: "metric_of port_skill = Some (hd port_rules)" by (simp add: metric_of_def port_skill_def port_rules_def)
  from trends_share_first_metric[OF m refl res(1) _ b, of res] res reg
  show ?thesis by auto
qed

end
