(* ===== verification/Audit_Chain.thy ===== *)
theory Audit_Chain
  imports Values
begin

text \<open>
  The hash chain of the audit trails (\<open>src/src/harkeniq/audit/chain.py\<close>). The digest and the JSON
  writer are parameters; what is written is the canonical form of the value. A chain is the list of
  its rows in ascending order. The advisory lock of the database is left out.
\<close>

subsection \<open>Rows and links\<close>

record row =
  row_seq :: int
  row_prev :: string
  row_hash :: string
  row_payload :: pydict

definition genesis_hash :: string where
  "genesis_hash = replicate 64 CHR ''0''"

definition envelope :: "int \<Rightarrow> string \<Rightarrow> pydict \<Rightarrow> pyval" where
  "envelope n prev payload = PyDict [(''seq'', PyInt n), (''prev'', PyStr prev), (''payload'', PyDict payload)]"

definition compute_entry_hash ::
  "(bytes \<Rightarrow> string) \<Rightarrow> (pyval \<Rightarrow> bytes) \<Rightarrow> int \<Rightarrow> string \<Rightarrow> pydict \<Rightarrow> string" where
  "compute_entry_hash sha dumps n prev payload = sha (dumps (canonical (envelope n prev payload)))"

definition next_link ::
  "(bytes \<Rightarrow> string) \<Rightarrow> (pyval \<Rightarrow> bytes) \<Rightarrow> int \<Rightarrow> string option \<Rightarrow> pydict \<Rightarrow> row" where
  "next_link sha dumps tail_seq tail_hash payload =
     (let n = tail_seq + 1;
          prev = (case tail_hash of None \<Rightarrow> genesis_hash | Some h \<Rightarrow> if h = [] then genesis_hash else h)
      in \<lparr>row_seq = n, row_prev = prev, row_hash = compute_entry_hash sha dumps n prev payload,
          row_payload = payload\<rparr>)"

datatype chain_error = SequenceGap int int | BrokenLink int | HashMismatch int

record chain_verification =
  cv_valid :: bool
  cv_length :: int
  cv_first_bad :: "int option"
  cv_error :: "chain_error option"

fun verify_from ::
  "(bytes \<Rightarrow> string) \<Rightarrow> (pyval \<Rightarrow> bytes) \<Rightarrow> int \<Rightarrow> string \<Rightarrow> int \<Rightarrow> row list \<Rightarrow> chain_verification" where
  "verify_from sha dumps expected prev seen [] =
     \<lparr>cv_valid = True, cv_length = seen, cv_first_bad = None, cv_error = None\<rparr>"
| "verify_from sha dumps expected prev seen (r # rs) =
     (let bad = (\<lambda>e. \<lparr>cv_valid = False, cv_length = seen, cv_first_bad = Some (row_seq r), cv_error = Some e\<rparr>) in
      if row_seq r \<noteq> expected then bad (SequenceGap expected (row_seq r))
      else if row_prev r \<noteq> prev then bad (BrokenLink (row_seq r))
      else if compute_entry_hash sha dumps (row_seq r) (row_prev r) (row_payload r) \<noteq> row_hash r
      then bad (HashMismatch (row_seq r))
      else verify_from sha dumps (expected + 1) (row_hash r) (seen + 1) rs)"

definition verify_chain :: "(bytes \<Rightarrow> string) \<Rightarrow> (pyval \<Rightarrow> bytes) \<Rightarrow> row list \<Rightarrow> chain_verification" where
  "verify_chain sha dumps rows = verify_from sha dumps 1 genesis_hash 0 rows"

text \<open>The store appends the link of each payload to the tail it reads.\<close>

definition append_entry ::
  "(bytes \<Rightarrow> string) \<Rightarrow> (pyval \<Rightarrow> bytes) \<Rightarrow> pydict \<Rightarrow> row list \<Rightarrow> row list" where
  "append_entry sha dumps payload rows =
     rows @ [if rows = [] then next_link sha dumps 0 None payload
             else next_link sha dumps (row_seq (last rows)) (Some (row_hash (last rows))) payload]"

subsection \<open>Linked chains\<close>

fun linked :: "(bytes \<Rightarrow> string) \<Rightarrow> (pyval \<Rightarrow> bytes) \<Rightarrow> int \<Rightarrow> string \<Rightarrow> row list \<Rightarrow> bool" where
  "linked sha dumps n prev [] = True"
| "linked sha dumps n prev (r # rs) =
     (row_seq r = n \<and> row_prev r = prev \<and> row_hash r = compute_entry_hash sha dumps n prev (row_payload r) \<and>
      linked sha dumps (n + 1) (row_hash r) rs)"

lemma verify_from_linked:
  "cv_valid (verify_from sha dumps n prev k rows) \<longleftrightarrow> linked sha dumps n prev rows"
  by (induction rows arbitrary: n prev k) (auto simp: Let_def)

lemma verify_from_length:
  "linked sha dumps n prev rows \<Longrightarrow> cv_length (verify_from sha dumps n prev k rows) = k + int (length rows)"
  by (induction rows arbitrary: n prev k) (auto simp: Let_def)

lemma verify_chain_linked: "cv_valid (verify_chain sha dumps rows) \<longleftrightarrow> linked sha dumps 1 genesis_hash rows"
  by (simp add: verify_chain_def verify_from_linked)

lemma linked_append:
  "linked sha dumps n prev (rows @ rows') \<longleftrightarrow> linked sha dumps n prev rows \<and>
     linked sha dumps (n + int (length rows)) (if rows = [] then prev else row_hash (last rows)) rows'"
  by (induction rows arbitrary: n prev) (auto simp: algebra_simps)

lemma linked_last_seq:
  "linked sha dumps n prev rows \<Longrightarrow> rows \<noteq> [] \<Longrightarrow> row_seq (last rows) = n + int (length rows) - 1"
  by (cases rows rule: rev_cases) (auto simp: linked_append)

lemma length_append_entry [simp]: "length (append_entry sha dumps payload c) = Suc (length c)"
  by (simp add: append_entry_def)

lemma append_linked:
  assumes "linked sha dumps 1 genesis_hash c" "\<And>b. sha b \<noteq> []"
  shows "linked sha dumps 1 genesis_hash (append_entry sha dumps payload c)"
proof (cases c rule: rev_cases)
  case Nil
  then show ?thesis by (simp add: append_entry_def next_link_def Let_def)
next
  case (snoc xs r)
  then have "row_hash r \<noteq> []" using assms by (auto simp: linked_append compute_entry_hash_def)
  then show ?thesis using assms(1) linked_last_seq[OF assms(1)] snoc
    by (simp add: append_entry_def linked_append next_link_def Let_def)
qed

text \<open>Two given values that differ although their canonical texts have the same digest.\<close>

definition digests_clash :: "(bytes \<Rightarrow> string) \<Rightarrow> (pyval \<Rightarrow> bytes) \<Rightarrow> pyval \<Rightarrow> pyval \<Rightarrow> bool" where
  "digests_clash sha dumps v w \<longleftrightarrow> canonical v \<noteq> canonical w \<and> sha (dumps (canonical v)) = sha (dumps (canonical w))"

text \<open>What the digest of a row is taken of.\<close>

definition hashed_of :: "row \<Rightarrow> pyval" where
  "hashed_of r = envelope (row_seq r) (row_prev r) (row_payload r)"

lemma canonical_envelope:
  "canonical (envelope n prev payload) =
     PyDict [(''payload'', canonical (PyDict payload)), (''prev'', PyStr prev), (''seq'', PyInt n)]"
proof -
  have "\<not> ''prev'' \<le> ''payload''" "\<not> ''seq'' \<le> ''payload''" "\<not> ''seq'' \<le> ''prev''"
    by (code_simp, code_simp, code_simp)
  then show ?thesis by (simp add: envelope_def)
qed

subsection \<open>Properties\<close>

text \<open>Chains that are built by appending verify: any sequence of payloads, appended one by one to the
tail that is read, gives a chain that verifies with its full length, as long as the digest is never
the empty text.\<close>

theorem appended_chain_verifies:
  assumes "\<And>b. sha b \<noteq> []"
  shows "verify_chain sha dumps (fold (append_entry sha dumps) payloads []) =
    \<lparr>cv_valid = True, cv_length = int (length payloads), cv_first_bad = None, cv_error = None\<rparr>"
proof -
  let ?c = "\<lambda>ps. fold (append_entry sha dumps) ps []"
  have "linked sha dumps 1 genesis_hash (?c payloads) \<and> length (?c payloads) = length payloads"
    by (induction payloads rule: rev_induct) (auto intro: append_linked[OF _ assms])
  then have l: "linked sha dumps 1 genesis_hash (?c payloads)" "length (?c payloads) = length payloads" by auto
  have ok: "cv_first_bad (verify_from sha dumps n prev k rows) = None \<and> cv_error (verify_from sha dumps n prev k rows) = None"
    if "linked sha dumps n prev rows" for n prev k rows
    using that by (induction rows arbitrary: n prev k) (auto simp: Let_def)
  let ?v = "verify_chain sha dumps (?c payloads)"
  have "cv_valid ?v" using l(1) by (simp add: verify_chain_linked)
  moreover have "cv_length ?v = int (length payloads)" "cv_first_bad ?v = None" "cv_error ?v = None"
    using verify_from_length[OF l(1), of 0] l ok[OF l(1), of 0] by (simp_all add: verify_chain_def)
  ultimately show ?thesis by (intro chain_verification.equality) simp_all
qed

theorem appended_chain_verifies_witness:
  "cv_length (verify_chain (\<lambda>_. ''h'') (\<lambda>_. []) (fold (append_entry (\<lambda>_. ''h'') (\<lambda>_. [])) [[], [(''a'', PyInt 1)]] [])) = 2"
  using appended_chain_verifies[of "\<lambda>_. ''h''" "\<lambda>_. []" "[[], [(''a'', PyInt 1)]]"] by simp

text \<open>C36: Tampering needs a collision in the very rows. Two chains of the same length that both verify and end in the same
digest hold the same rows, payload for payload, up to the order of keys - or at some position the contents of
the two chains' own rows differ and have the same digest.\<close>

theorem tampering_needs_collision:
  assumes "cv_valid (verify_chain sha dumps c)" and "cv_valid (verify_chain sha dumps d)"
    and "length c = length d" and "c \<noteq> []" and "row_hash (last c) = row_hash (last d)"
  shows "map (\<lambda>r. (row_seq r, row_prev r, row_hash r, canonical (PyDict (row_payload r)))) c =
      map (\<lambda>r. (row_seq r, row_prev r, row_hash r, canonical (PyDict (row_payload r)))) d
    \<or> (\<exists>i < length c. digests_clash sha dumps (hashed_of (c ! i)) (hashed_of (d ! i)))"
proof (cases "\<exists>i < length c. digests_clash sha dumps (hashed_of (c ! i)) (hashed_of (d ! i))")
  case False
  let ?row = "\<lambda>r. (row_seq r, row_prev r, row_hash r, canonical (PyDict (row_payload r)))"
  have eqn: "map ?row c = map ?row d"
    if "linked sha dumps 1 genesis_hash c" "linked sha dumps 1 genesis_hash d" "length c = length d"
      "c \<noteq> [] \<longrightarrow> row_hash (last c) = row_hash (last d)"
      "\<forall>i < length c. \<not> digests_clash sha dumps (hashed_of (c ! i)) (hashed_of (d ! i))" for c d
    using that
  proof (induction c arbitrary: d rule: rev_induct)
    case (snoc r c)
    obtain e s where d: "d = e @ [s]" using snoc.prems(3) by (cases d rule: rev_cases) auto
    have len: "length c = length e" and hash: "row_hash r = row_hash s" using snoc.prems d by auto
    let ?p = "if c = [] then genesis_hash else row_hash (last c)"
    let ?q = "if e = [] then genesis_hash else row_hash (last e)"
    have r: "row_seq r = 1 + int (length c)" "row_prev r = ?p"
      "row_hash r = sha (dumps (canonical (hashed_of r)))"
      using snoc.prems(1) by (auto simp: linked_append hashed_of_def compute_entry_hash_def)
    have s: "row_seq s = 1 + int (length c)" "row_prev s = ?q"
      "row_hash s = sha (dumps (canonical (hashed_of s)))"
      using snoc.prems(2) len by (auto simp: linked_append d hashed_of_def compute_entry_hash_def)
    have "\<not> digests_clash sha dumps (hashed_of r) (hashed_of s)" using snoc.prems(5) len by (auto simp: d nth_append)
    then have "canonical (hashed_of r) = canonical (hashed_of s)" using hash r(3) s(3) by (simp add: digests_clash_def)
    then have eq: "row_prev r = row_prev s" "canonical (PyDict (row_payload r)) = canonical (PyDict (row_payload s))"
      unfolding hashed_of_def canonical_envelope by simp_all
    have "c \<noteq> [] \<longrightarrow> row_hash (last c) = row_hash (last e)" using eq(1) r(2) s(2) len by auto
    moreover have "linked sha dumps 1 genesis_hash c" "linked sha dumps 1 genesis_hash e"
      using snoc.prems(1,2) by (simp_all add: linked_append d)
    moreover have "\<forall>i < length c. \<not> digests_clash sha dumps (hashed_of (c ! i)) (hashed_of (e ! i))"
    proof (intro allI impI)
      fix i assume i: "i < length c"
      then have "\<not> digests_clash sha dumps (hashed_of ((c @ [r]) ! i)) (hashed_of (d ! i))" using snoc.prems(5) by simp
      then show "\<not> digests_clash sha dumps (hashed_of (c ! i)) (hashed_of (e ! i))" using i len by (simp add: d nth_append)
    qed
    ultimately have "map ?row c = map ?row e" using snoc.IH len by blast
    then show ?case using eq hash r(1) s(1) by (simp add: d)
  qed simp
  show ?thesis
    by (rule disjI1, rule eqn) (use assms False in \<open>simp_all add: verify_chain_linked\<close>)
qed blast

definition one_row :: "row list" where
  "one_row = append_entry (\<lambda>_. ''h'') (\<lambda>_. []) [(''a'', PyInt 1)] []"

definition reordered_rows :: "bool \<Rightarrow> row list" where
  "reordered_rows b = append_entry (\<lambda>_. ''h'') (\<lambda>_. [])
     (if b then [(''a'', PyInt 1), (''b'', PyInt 2)] else [(''b'', PyInt 2), (''a'', PyInt 1)]) []"

text \<open>Two chains whose payloads differ in the order of their keys: no rows clash, so the canonical payloads agree.\<close>

theorem tampering_needs_collision_witness:
  "map row_payload (reordered_rows True) \<noteq> map row_payload (reordered_rows False) \<and>
   map (\<lambda>r. canonical (PyDict (row_payload r))) (reordered_rows True) = map (\<lambda>r. canonical (PyDict (row_payload r))) (reordered_rows False)"
proof -
  let ?c = "reordered_rows True" and ?d = "reordered_rows False"
  note defs = reordered_rows_def append_entry_def next_link_def compute_entry_hash_def Let_def
  have v: "cv_valid (verify_chain (\<lambda>_. ''h'') (\<lambda>_. []) ?c)" "cv_valid (verify_chain (\<lambda>_. ''h'') (\<lambda>_. []) ?d)"
    by (simp_all add: verify_chain_linked defs)
  have l: "length ?c = length ?d" "?c \<noteq> []" "row_hash (last ?c) = row_hash (last ?d)" by (simp_all add: defs)
  have "canonical (hashed_of (?c ! 0)) = canonical (hashed_of (?d ! 0))"
    unfolding hashed_of_def canonical_envelope by (simp add: defs)
  then have "\<not> (\<exists>i < length ?c. digests_clash (\<lambda>_. ''h'') (\<lambda>_. []) (hashed_of (?c ! i)) (hashed_of (?d ! i)))"
    by (simp add: digests_clash_def reordered_rows_def append_entry_def)
  then have "map (\<lambda>r. (row_seq r, row_prev r, row_hash r, canonical (PyDict (row_payload r)))) ?c =
      map (\<lambda>r. (row_seq r, row_prev r, row_hash r, canonical (PyDict (row_payload r)))) ?d"
    using tampering_needs_collision [OF v l] by blast
  then have "map (snd \<circ> snd \<circ> snd) (map (\<lambda>r. (row_seq r, row_prev r, row_hash r, canonical (PyDict (row_payload r)))) ?c) =
      map (snd \<circ> snd \<circ> snd) (map (\<lambda>r. (row_seq r, row_prev r, row_hash r, canonical (PyDict (row_payload r)))) ?d)" by (rule arg_cong)
  then have "map (\<lambda>r. canonical (PyDict (row_payload r))) ?c = map (\<lambda>r. canonical (PyDict (row_payload r))) ?d"
    by (simp only: map_map comp_def snd_conv)
  moreover have "map row_payload ?c \<noteq> map row_payload ?d" by (simp add: defs)
  ultimately show ?thesis by blast
qed

text \<open>Deleting the newest entries leaves a chain that verifies: verification has no anchor for the
tail, so a truncated trail is as valid as the full one.\<close>

theorem truncation_undetected:
  assumes "cv_valid (verify_chain sha dumps c)"
  shows "cv_valid (verify_chain sha dumps (take n c))"
proof -
  have "linked sha dumps 1 genesis_hash (take n c @ drop n c)" using assms by (simp add: verify_chain_linked)
  then show ?thesis unfolding linked_append verify_chain_linked by blast
qed

theorem truncation_undetected_witness:
  "one_row \<noteq> [] \<and> cv_valid (verify_chain (\<lambda>_. ''h'') (\<lambda>_. []) (take 0 one_row))"
proof -
  have "cv_valid (verify_chain (\<lambda>_. ''h'') (\<lambda>_. []) one_row)"
    by (simp add: verify_chain_linked one_row_def append_entry_def next_link_def compute_entry_hash_def Let_def)
  from truncation_undetected[OF this, of 0] show ?thesis by (simp add: one_row_def append_entry_def)
qed

end
