(* ===== verification/Resources.thy ===== *)
theory Resources
  imports Prelude
begin

text \<open>
  The agent's resource self-monitoring (\<open>src/src/harkeniq/autonomy/resources.py\<close>): the profiles and the
  degradation levels. The measurements of the operating system (resident memory, process times) are
  inputs; the arithmetic that turns two readings of the process times into a percentage is modelled.
\<close>

subsection \<open>Profiles and levels\<close>

datatype degradation = Normal | Throttled | Degraded | ObserveOnly

record resource_profile =
  rp_name :: string
  memory_target_mb :: real
  memory_soft_mb :: real
  memory_hard_mb :: real
  cpu_target_pct :: real
  cpu_soft_pct :: real
  cpu_hard_pct :: real

abbreviation profile :: "string \<Rightarrow> real \<Rightarrow> real \<Rightarrow> real \<Rightarrow> real \<Rightarrow> real \<Rightarrow> real \<Rightarrow> resource_profile" where
  "profile n mt ms mh ct cs ch \<equiv>
     \<lparr>rp_name = n, memory_target_mb = mt, memory_soft_mb = ms, memory_hard_mb = mh,
      cpu_target_pct = ct, cpu_soft_pct = cs, cpu_hard_pct = ch\<rparr>"

definition profiles :: "(string, resource_profile) dict" where
  "profiles =
     [(''constrained'', profile ''constrained'' 30 40 50 2 3 5),
      (''standard'', profile ''standard'' 50 75 100 5 7 10),
      (''performance'', profile ''performance'' 100 150 200 10 15 20)]"

record resource_snapshot =
  memory_rss_mb :: real
  cpu_percent :: real
  snap_timestamp :: time

record resource_monitor =
  rm_profile :: resource_profile
  rm_level :: degradation
  rm_cpu_times :: "(real \<times> real) option"
  rm_cpu_check :: time
  rm_soft :: nat
  rm_hard :: nat
  rm_multiplier :: real

definition init_monitor :: "string \<Rightarrow> resource_monitor" where
  "init_monitor name =
     \<lparr>rm_profile = dget_or profiles name (profile ''standard'' 50 75 100 5 7 10), rm_level = Normal,
      rm_cpu_times = None, rm_cpu_check = 0, rm_soft = 0, rm_hard = 0, rm_multiplier = 1\<rparr>"

subsection \<open>Evaluation\<close>

datatype excess = Within | Soft | Hard

definition check_memory :: "resource_profile \<Rightarrow> real \<Rightarrow> excess" where
  "check_memory p rss =
     (if memory_hard_mb p \<le> rss then Hard else if memory_soft_mb p \<le> rss then Soft else Within)"

definition check_cpu :: "resource_profile \<Rightarrow> real \<Rightarrow> excess" where
  "check_cpu p cpu =
     (if cpu_hard_pct p \<le> cpu then Hard else if cpu_soft_pct p \<le> cpu then Soft else Within)"

definition rm_evaluate :: "resource_snapshot \<Rightarrow> resource_monitor \<Rightarrow> degradation \<times> resource_monitor" where
  "rm_evaluate snap m =
     (let mem = check_memory (rm_profile m) (memory_rss_mb snap);
          cpu = check_cpu (rm_profile m) (cpu_percent snap);
          m' = (if mem = Hard \<or> cpu = Hard
                then (let k = rm_hard m + 1; m1 = m\<lparr>rm_hard := k, rm_soft := 0\<rparr> in
                  if 3 \<le> k then m1\<lparr>rm_level := ObserveOnly, rm_multiplier := 4\<rparr>
                  else m1\<lparr>rm_level := Degraded, rm_multiplier := 3\<rparr>)
                else if mem = Soft \<or> cpu = Soft
                then (let k = rm_soft m + 1; m1 = m\<lparr>rm_soft := k, rm_hard := 0\<rparr> in
                  if 2 \<le> k then m1\<lparr>rm_level := Throttled, rm_multiplier := 2\<rparr> else m1)
                else m\<lparr>rm_soft := 0, rm_hard := 0, rm_level := Normal, rm_multiplier := 1\<rparr>)
      in (rm_level m', m'))"

text \<open>\<open>_get_cpu_percent\<close>: \<open>proc_times\<close> is what \<open>os.times\<close> answers, if it does.\<close>

definition get_cpu_percent :: "(real \<times> real) option \<Rightarrow> time \<Rightarrow> resource_monitor \<Rightarrow> real \<times> resource_monitor" where
  "get_cpu_percent proc_times now m =
     (case proc_times of
        None \<Rightarrow> (0, m)
      | Some (user, sys) \<Rightarrow>
          (case rm_cpu_times m of
             None \<Rightarrow> (0, m\<lparr>rm_cpu_times := Some (user, sys), rm_cpu_check := now\<rparr>)
           | Some (u0, s0) \<Rightarrow>
               (let dt = now - rm_cpu_check m in
                if dt \<le> 0 then (0, m)
                else ((user - u0 + (sys - s0)) / dt * 100,
                      m\<lparr>rm_cpu_times := Some (user, sys), rm_cpu_check := now\<rparr>))))"

subsection \<open>Levels and what is done about them\<close>

text \<open>How bad a snapshot is for a profile.\<close>

definition excess_of :: "resource_profile \<Rightarrow> resource_snapshot \<Rightarrow> excess" where
  "excess_of p s =
     (if memory_hard_mb p \<le> memory_rss_mb s \<or> cpu_hard_pct p \<le> cpu_percent s then Hard
      else if memory_soft_mb p \<le> memory_rss_mb s \<or> cpu_soft_pct p \<le> cpu_percent s then Soft else Within)"

lemma rm_evaluate_excess:
  "rm_evaluate snap m =
     (let m' = (case excess_of (rm_profile m) snap of
          Hard \<Rightarrow> m\<lparr>rm_hard := rm_hard m + 1, rm_soft := 0,
                     rm_level := (if 2 \<le> rm_hard m then ObserveOnly else Degraded),
                     rm_multiplier := (if 2 \<le> rm_hard m then 4 else 3)\<rparr>
        | Soft \<Rightarrow> (if 1 \<le> rm_soft m
                    then m\<lparr>rm_soft := rm_soft m + 1, rm_hard := 0, rm_level := Throttled, rm_multiplier := 2\<rparr>
                    else m\<lparr>rm_soft := rm_soft m + 1, rm_hard := 0\<rparr>)
        | Within \<Rightarrow> m\<lparr>rm_soft := 0, rm_hard := 0, rm_level := Normal, rm_multiplier := 1\<rparr>)
      in (rm_level m', m'))"
  by (auto simp: rm_evaluate_def excess_of_def check_memory_def check_cpu_def Let_def)

definition poll_rate :: "degradation \<Rightarrow> real" where
  "poll_rate l = (case l of Normal \<Rightarrow> 1 | Throttled \<Rightarrow> 2 | Degraded \<Rightarrow> 3 | ObserveOnly \<Rightarrow> 4)"

text \<open>
  What the counters say of the past: after \<open>n\<close> hard snapshots in a row the level is degraded, or
  observe-only from the third on, and a soft streak of two throttles.
\<close>

definition monitor_inv :: "resource_monitor \<Rightarrow> bool" where
  "monitor_inv m \<longleftrightarrow> rm_multiplier m = poll_rate (rm_level m) \<and> (rm_hard m = 0 \<or> rm_soft m = 0) \<and>
     (0 < rm_hard m \<longrightarrow> rm_level m = (if 3 \<le> rm_hard m then ObserveOnly else Degraded)) \<and>
     (2 \<le> rm_soft m \<longrightarrow> rm_level m = Throttled)"

interpretation monitor: inv_system "\<lambda>s m. snd (rm_evaluate s m)" monitor_inv "\<lambda>_. True"
  by unfold_locales
    (auto simp: rm_evaluate_excess monitor_inv_def poll_rate_def Let_def split: excess.splits if_splits)

lemma init_monitor_inv: "monitor_inv (init_monitor name)"
  by (simp add: monitor_inv_def init_monitor_def poll_rate_def)

abbreviation run_snapshots :: "resource_snapshot list \<Rightarrow> resource_monitor \<Rightarrow> resource_monitor" where
  "run_snapshots ss m \<equiv> fold (\<lambda>s m. snd (rm_evaluate s m)) ss m"

lemma run_profile [simp]: "rm_profile (run_snapshots ss m) = rm_profile m"
  by (induction ss arbitrary: m) (auto simp: rm_evaluate_excess Let_def split: excess.splits)

text \<open>The length of the streak of hard snapshots at the end of a run.\<close>

definition hard_streak :: "resource_profile \<Rightarrow> resource_snapshot list \<Rightarrow> nat" where
  "hard_streak p ss = length (takeWhile (\<lambda>s. excess_of p s = Hard) (rev ss))"

lemma rm_evaluate_hard:
  "rm_hard (snd (rm_evaluate s m)) = (if excess_of (rm_profile m) s = Hard then rm_hard m + 1 else 0)"
  by (auto simp: rm_evaluate_excess Let_def split: excess.splits)

lemma run_hard: "rm_hard (run_snapshots ss (init_monitor name)) = hard_streak (rm_profile (init_monitor name)) ss"
proof (induction ss rule: rev_induct)
  case Nil
  then show ?case by (simp add: hard_streak_def init_monitor_def)
next
  case (snoc s ss)
  then show ?case by (simp add: hard_streak_def rm_evaluate_hard)
qed

text \<open>Degradation follows the limits. After any measurements the polling multiplier is that of the
level; the agent only observes after three or more measurements in a row over a hard limit, and does
so then; after one or two it is degraded; and one measurement within all soft limits puts it back to
normal polling.\<close>

theorem degradation_follows_limits:
  assumes "m = run_snapshots ss (init_monitor name)" and "k = hard_streak (rm_profile m) ss"
  shows "rm_multiplier m = poll_rate (rm_level m)
    \<and> (3 \<le> k \<longrightarrow> rm_level m = ObserveOnly) \<and> (0 < k \<and> k < 3 \<longrightarrow> rm_level m = Degraded)
    \<and> (excess_of (rm_profile m) s = Within \<longrightarrow> fst (rm_evaluate s m) = Normal \<and> rm_multiplier (snd (rm_evaluate s m)) = 1)"
proof -
  have "monitor_inv m" unfolding assms(1)
    by (rule monitor.run_keeps_inv[OF init_monitor_inv]) (simp add: list_all_iff)
  moreover have "rm_hard m = k" using run_hard assms by simp
  ultimately show ?thesis by (auto simp: monitor_inv_def rm_evaluate_excess Let_def)
qed

definition heavy :: resource_snapshot where
  "heavy = \<lparr>memory_rss_mb = 120, cpu_percent = 1, snap_timestamp = 0\<rparr>"

theorem degradation_follows_limits_witness:
  "rm_level (run_snapshots [heavy, heavy, heavy] (init_monitor ''standard'')) = ObserveOnly"
proof -
  have "rm_profile (init_monitor ''standard'') = profile ''standard'' 50 75 100 5 7 10"
    by (simp add: init_monitor_def profiles_def dget_or_def)
  then have "hard_streak (rm_profile (run_snapshots [heavy, heavy, heavy] (init_monitor ''standard''))) [heavy, heavy, heavy] = 3"
    by (simp only: run_profile) (simp add: hard_streak_def excess_of_def heavy_def)
  with degradation_follows_limits[OF refl refl, of "[heavy, heavy, heavy]" "''standard''"] show ?thesis by simp
qed

text \<open>The throttle is held, not chosen: a single soft measurement keeps whatever level there was, so an
agent that was observing only keeps observing at a quarter of the rate although the hard limit is no
longer exceeded.\<close>

theorem soft_measurement_keeps_level:
  assumes "excess_of (rm_profile m) s = Soft" and "rm_soft m = 0"
  shows "fst (rm_evaluate s m) = rm_level m \<and> rm_multiplier (snd (rm_evaluate s m)) = rm_multiplier m"
  using assms by (simp add: rm_evaluate_excess Let_def)

theorem soft_measurement_keeps_level_witness:
  "fst (rm_evaluate \<lparr>memory_rss_mb = 80, cpu_percent = 1, snap_timestamp = 0\<rparr>
     ((init_monitor ''standard'')\<lparr>rm_level := ObserveOnly\<rparr>)) = ObserveOnly"
proof -
  have p: "rm_profile ((init_monitor ''standard'')\<lparr>rm_level := ObserveOnly\<rparr>) = profile ''standard'' 50 75 100 5 7 10"
    by (simp add: init_monitor_def profiles_def dget_or_def)
  have "excess_of (rm_profile ((init_monitor ''standard'')\<lparr>rm_level := ObserveOnly\<rparr>))
      \<lparr>memory_rss_mb = 80, cpu_percent = 1, snap_timestamp = 0\<rparr> = Soft"
    unfolding p by (simp add: excess_of_def)
  from soft_measurement_keeps_level[OF this] show ?thesis by (simp add: init_monitor_def)
qed

end
