(* ===== verification/Capabilities.thy ===== *)
theory Capabilities
  imports Preconditions Expression
begin

text \<open>
  What an executor can do and what its action classes need (\<open>src/src/harkeniq/capabilities.py\<close>): the
  declaration of a node, the parameter contract of an action class, its validation, the resolution of a
  payload from reported evidence, and the identity of an operation. The reach of the protocols, the
  JSON parser, \<open>str\<close> of a value and the digest are parameters; texts for people are constructors.
\<close>

subsection \<open>Declarations\<close>

definition declaration_version :: nat where "declaration_version = 1"

definition protocol_names :: "string list" where
  "protocol_names = [''redfish'', ''ipmi'', ''gnmi'']"

type_synonym reach = "string \<Rightarrow> string list option"

text \<open>\<open>protocol_reach\<close>: \<open>classes\<close> are the protocols this build has and what their code implements.\<close>

definition protocol_reach :: "(string, string list option) dict \<Rightarrow> reach" where
  "protocol_reach classes name =
     (case dget classes (lower name) of Some (Some acts) \<Rightarrow> Some (remdups acts) | _ \<Rightarrow> None)"

definition platform_implementations :: "reach \<Rightarrow> (string, string list) dict" where
  "platform_implementations r =
     map (\<lambda>a. (action_value a,
            sort (filter (\<lambda>p. case r p of Some acts \<Rightarrow> action_value a \<in> set acts | None \<Rightarrow> False) protocol_names)))
       all_actions"

record capability_decl =
  dc_version :: nat
  dc_protocol :: string
  dc_class :: string
  dc_allow :: "string list"
  dc_implemented :: "string list option"
  dc_effective :: "string list option"
  dc_known :: bool

definition declare_capabilities :: "reach \<Rightarrow> string \<Rightarrow> string list \<Rightarrow> string \<Rightarrow> capability_decl" where
  "declare_capabilities r protocol allow cls =
     (let permitted = sorted_set allow;
          base = \<lparr>dc_version = declaration_version, dc_protocol = lower protocol,
            dc_class = (if cls = [] then ''server'' else cls), dc_allow = permitted,
            dc_implemented = None, dc_effective = None, dc_known = False\<rparr>
      in case r protocol of
           None \<Rightarrow> base
         | Some acts \<Rightarrow> base\<lparr>dc_implemented := Some (sorted_set acts),
             dc_effective := Some (sorted_set (filter (\<lambda>a. a \<in> set permitted) acts)), dc_known := True\<rparr>)"

definition implemented_actions :: "capability_decl option \<Rightarrow> string list option" where
  "implemented_actions d = (case d of None \<Rightarrow> None | Some dc \<Rightarrow> if dc_known dc then dc_implemented dc else None)"

definition effective_actions :: "capability_decl option \<Rightarrow> string list option" where
  "effective_actions d = (case d of None \<Rightarrow> None | Some dc \<Rightarrow> if dc_known dc then dc_effective dc else None)"

subsection \<open>The parameter contract\<close>

definition parameter_specs :: "string \<Rightarrow> param_spec list" where
  "parameter_specs s = (case action_of_value s of None \<Rightarrow> [] | Some a \<Rightarrow> action_parameters a)"

datatype unsuppliable = NeverReported | CampaignOnly

definition agent_unsuppliable :: "param_spec \<Rightarrow> unsuppliable option" where
  "agent_unsuppliable sp =
     (if \<not> ps_required sp then None
      else if ps_source sp = SrcUnavailable then Some NeverReported
      else if ps_source sp = SrcCampaign then Some CampaignOnly
      else None)"

datatype unsatisfiable_reason = Ungoverned string | CannotSupply string unsuppliable

record param_contract =
  pc_parameters :: "param_spec list"
  pc_required :: "string list"
  pc_resolvable :: bool
  pc_reason :: "unsatisfiable_reason option"

definition parameter_contract :: "string \<Rightarrow> param_contract" where
  "parameter_contract s =
     (if action_of_value s = None
      then \<lparr>pc_parameters = [], pc_required = [], pc_resolvable = False, pc_reason = Some (Ungoverned s)\<rparr>
      else (let specs = parameter_specs s; bad = filter (\<lambda>sp. agent_unsuppliable sp \<noteq> None) specs in
        \<lparr>pc_parameters = specs @ [reason_param],
         pc_required = map ps_name (filter ps_required specs),
         pc_resolvable = (bad = []),
         pc_reason = (case bad of [] \<Rightarrow> None
           | sp # _ \<Rightarrow> map_option (CannotSupply (ps_name sp)) (agent_unsuppliable sp))\<rparr>))"

record action_fact =
  af_type :: string
  af_risk :: string
  af_reversibility :: reversibility
  af_inverse :: "string option"
  af_implemented_by :: "string list"
  af_implemented :: bool
  af_contract :: param_contract

definition action_facts :: "reach \<Rightarrow> (string, action_fact) dict" where
  "action_facts r =
     map (\<lambda>a. let impls = dget_or (platform_implementations r) (action_value a) [] in
         (action_value a,
          \<lparr>af_type = action_value a, af_risk = action_risk a, af_reversibility = action_reversibility a,
           af_inverse = map_option action_value (dget inverse_action a), af_implemented_by = impls,
           af_implemented = (impls \<noteq> []), af_contract = parameter_contract (action_value a)\<rparr>)) all_actions"

subsection \<open>Validation of a payload\<close>

text \<open>\<open>not value.strip()\<close>, and \<open>int(text)\<close> accepts: blanks around a sign and digits grouped by single underscores.\<close>

definition blank_text :: "string \<Rightarrow> bool" where
  "blank_text s \<longleftrightarrow> list_all is_space s"

fun grouped_digits :: "string \<Rightarrow> bool" where
  "grouped_digits [] = False"
| "grouped_digits [c] = ascii_digit c"
| "grouped_digits (c # d # cs) = (ascii_digit c \<and> (grouped_digits (d # cs) \<or> d = CHR ''_'' \<and> grouped_digits cs))"

definition int_text :: "string \<Rightarrow> bool" where
  "int_text s = (case strip_text s of [] \<Rightarrow> False
     | c # cs \<Rightarrow> if c = CHR ''-'' \<or> c = CHR ''+'' then grouped_digits cs else grouped_digits (c # cs))"

datatype param_fault =
    NotGoverned string
  | NotDeclared string string "string list"
  | NotSupplied string string
  | NotAString string
  | NotAnInteger string
  | NotAnObject string
  | InvalidJson string
  | EmptyObject string

type_synonym json_parser = "string \<Rightarrow> pyval option"

definition type_ok :: "json_parser \<Rightarrow> param_spec \<Rightarrow> pyval \<Rightarrow> param_fault option" where
  "type_ok loads sp v =
     (case ps_type sp of
        PString \<Rightarrow> (case as_str v of
            Some s \<Rightarrow> if blank_text s then Some (NotAString (ps_name sp)) else None
          | None \<Rightarrow> Some (NotAString (ps_name sp)))
      | PInteger \<Rightarrow> (case v of PyInt i \<Rightarrow> None
          | PyStr s \<Rightarrow> if int_text s then None else Some (NotAnInteger (ps_name sp))
          | _ \<Rightarrow> Some (NotAnInteger (ps_name sp)))
      | PJsonObject \<Rightarrow> (case as_str v of
            None \<Rightarrow> Some (NotAnObject (ps_name sp))
          | Some s \<Rightarrow> if blank_text s then Some (NotAnObject (ps_name sp))
              else (case loads s of
                None \<Rightarrow> Some (InvalidJson (ps_name sp))
              | Some (PyDict d) \<Rightarrow> if d = [] then Some (EmptyObject (ps_name sp)) else None
              | Some _ \<Rightarrow> Some (EmptyObject (ps_name sp)))))"

definition spec_table :: "action_type \<Rightarrow> (string, param_spec) dict" where
  "spec_table a = dset (ps_name reason_param) reason_param (map (\<lambda>sp. (ps_name sp, sp)) (action_parameters a))"

fun check_specs :: "json_parser \<Rightarrow> string \<Rightarrow> (string \<times> param_spec) list \<Rightarrow> pydict \<Rightarrow> param_fault option" where
  "check_specs loads act [] given = None"
| "check_specs loads act ((name, sp) # specs) given =
     (case dget given name of
        None \<Rightarrow> if ps_required sp then Some (NotSupplied act name) else check_specs loads act specs given
      | Some v \<Rightarrow> (case type_ok loads sp v of
            Some why \<Rightarrow> Some why
          | None \<Rightarrow> check_specs loads act specs given))"

definition validate_action_params :: "json_parser \<Rightarrow> string \<Rightarrow> pydict \<Rightarrow> param_fault option" where
  "validate_action_params loads s params =
     (case action_of_value s of
        None \<Rightarrow> Some (NotGoverned s)
      | Some a \<Rightarrow>
          (let specs = spec_table a in
           case filter (\<lambda>n. n \<notin> set (dkeys specs)) (sort (dkeys params)) of
             n # _ \<Rightarrow> Some (NotDeclared (action_value a) n (sort (dkeys specs)))
           | [] \<Rightarrow> check_specs loads (action_value a) (sort_key fst specs) params))"

subsection \<open>Resolution and identity\<close>

datatype resolve_error =
    ResolveUngoverned string
  | RequiresUnsuppliable string string unsuppliable
  | NoComponent string string
  | BuiltInvalid param_fault

fun resolve_specs :: "string \<Rightarrow> string \<Rightarrow> param_spec list \<Rightarrow> pydict \<Rightarrow> resolve_error + pydict" where
  "resolve_specs act component [] params = Inr params"
| "resolve_specs act component (sp # specs) params =
     (case agent_unsuppliable sp of
        Some never \<Rightarrow> Inl (RequiresUnsuppliable act (ps_name sp) never)
      | None \<Rightarrow>
          if ps_source sp = SrcUnavailable \<or> ps_source sp = SrcCampaign then resolve_specs act component specs params
          else if ps_source sp = SrcComponent then
            (if component = [] then Inl (NoComponent act (ps_name sp))
             else resolve_specs act component specs (dset (ps_name sp) (PyStr component) params))
          else resolve_specs act component specs params)"

definition resolve_action_params :: "json_parser \<Rightarrow> string \<Rightarrow> string \<Rightarrow> string \<Rightarrow> resolve_error + pydict" where
  "resolve_action_params loads s component why =
     (case action_of_value s of
        None \<Rightarrow> Inl (ResolveUngoverned s)
      | Some a \<Rightarrow>
          (case resolve_specs (action_value a) component (action_parameters a)
                  (if why = [] then [] else [(ps_name reason_param, PyStr why)]) of
             Inl e \<Rightarrow> Inl e
           | Inr params \<Rightarrow> (case validate_action_params loads (action_value a) params of
                 Some f \<Rightarrow> Inl (BuiltInvalid f)
               | None \<Rightarrow> Inr params)))"

definition join_bars :: "string list \<Rightarrow> string" where
  "join_bars parts = (case parts of [] \<Rightarrow> [] | p # ps \<Rightarrow> p @ concat (map (\<lambda>q. CHR ''|'' # q) ps))"

definition operation_identity :: "(pyval \<Rightarrow> string) \<Rightarrow> string \<Rightarrow> pydict \<Rightarrow> string" where
  "operation_identity str_of s params =
     (case action_of_value s of
        None \<Rightarrow> s
      | Some a \<Rightarrow>
          (let names = sort (map ps_name (filter (\<lambda>sp. ps_source sp = SrcComponent) (action_parameters a))) in
           join_bars (action_value a # map (\<lambda>n. n @ ''='' @ str_of (dget_or params n (PyStr []))) names)))"

definition operation_key ::
  "(string \<Rightarrow> string) \<Rightarrow> (pyval \<Rightarrow> string) \<Rightarrow> string \<Rightarrow> string \<Rightarrow> string \<Rightarrow> pydict \<Rightarrow> string" where
  "operation_key digest str_of tenant device s params =
     take 48 (digest (join_bars [''op.v1'', tenant, device, operation_identity str_of s params]))"

subsection \<open>Validity\<close>

lemma check_specs_ok:
  "check_specs loads act specs given = None \<longleftrightarrow> (\<forall>(n, sp) \<in> set specs.
     case dget given n of None \<Rightarrow> \<not> ps_required sp | Some v \<Rightarrow> type_ok loads sp v = None)"
  by (induction loads act specs given rule: check_specs.induct) (auto split: option.splits if_splits)

lemma validate_ok:
  "validate_action_params loads (action_value a) params = None \<longleftrightarrow>
     set (dkeys params) \<subseteq> set (dkeys (spec_table a)) \<and> (\<forall>(n, sp) \<in> set (spec_table a).
       case dget params n of None \<Rightarrow> \<not> ps_required sp | Some v \<Rightarrow> type_ok loads sp v = None)"
proof (cases "filter (\<lambda>n. n \<notin> set (dkeys (spec_table a))) (sort (dkeys params))")
  case Nil
  then have "set (dkeys params) \<subseteq> set (dkeys (spec_table a))" by (auto simp: filter_empty_conv)
  with Nil show ?thesis by (simp add: validate_action_params_def Let_def check_specs_ok)
next
  case (Cons n ns)
  then have "n \<in> set (filter (\<lambda>n. n \<notin> set (dkeys (spec_table a))) (sort (dkeys params)))" by simp
  then have "\<not> set (dkeys params) \<subseteq> set (dkeys (spec_table a))" by auto
  with Cons show ?thesis by (simp add: validate_action_params_def Let_def)
qed

lemma contract_resolvable:
  "pc_resolvable (parameter_contract s) \<longleftrightarrow> (\<exists>a. s = action_value a
     \<and> list_all (\<lambda>sp. agent_unsuppliable sp = None) (action_parameters a))"
proof (cases "action_of_value s")
  case None
  then have "s \<noteq> action_value a" for a by auto
  with None show ?thesis by (simp add: parameter_contract_def)
next
  case (Some a)
  then have "s = action_value a" by (simp add: action_of_value_Some)
  then show ?thesis
    by (simp add: parameter_contract_def parameter_specs_def Let_def filter_empty_conv list_all_iff)
qed

lemma resolve_Inr:
  "resolve_action_params loads s component why = Inr p \<longleftrightarrow> (\<exists>a. s = action_value a
     \<and> resolve_specs (action_value a) component (action_parameters a)
         (if why = [] then [] else [(ps_name reason_param, PyStr why)]) = Inr p
     \<and> validate_action_params loads (action_value a) p = None)"
proof (cases "action_of_value s")
  case None
  then have "s \<noteq> action_value a" for a by auto
  with None show ?thesis by (simp add: resolve_action_params_def)
next
  case (Some a)
  then have "s = action_value a" by (simp add: action_of_value_Some)
  then show ?thesis by (auto simp: resolve_action_params_def split: sum.splits option.splits)
qed

lemma resolved_specs:
  "list_all (\<lambda>sp. agent_unsuppliable sp = None) (action_parameters a) \<Longrightarrow> component \<noteq> []
     \<Longrightarrow> resolve_specs act component (action_parameters a) [] = Inr
        (map (\<lambda>sp. (ps_name sp, PyStr component)) (filter (\<lambda>sp. ps_source sp = SrcComponent) (action_parameters a)))"
  by (cases a) (simp_all add: agent_unsuppliable_def)

lemma component_valid:
  assumes "list_all (\<lambda>sp. agent_unsuppliable sp = None) (action_parameters a)" "\<not> blank_text component"
  shows "validate_action_params loads (action_value a)
      (map (\<lambda>sp. (ps_name sp, PyStr component)) (filter (\<lambda>sp. ps_source sp = SrcComponent) (action_parameters a))) = None"
  using assms unfolding validate_ok spec_table_def
  by (cases a) (simp_all add: agent_unsuppliable_def reason_param_def type_ok_def as_str_def)

lemma resolved_params:
  assumes "\<not> blank_text component" "pc_resolvable (parameter_contract s)"
  shows "\<exists>p. resolve_action_params loads s component [] = Inr p"
proof -
  have "component \<noteq> []" using assms(1) by (auto simp: blank_text_def)
  with assms(2) show ?thesis
    using resolved_specs component_valid[OF _ assms(1)] by (fastforce simp: contract_resolvable resolve_Inr)
qed

lemma resolve_specs_suppliable:
  "resolve_specs act component specs params = Inr p \<Longrightarrow> list_all (\<lambda>sp. agent_unsuppliable sp = None) specs"
  by (induction act component specs params rule: resolve_specs.induct) (auto split: option.splits if_splits)

lemma resolved_contract:
  "resolve_action_params loads s component why = Inr p \<Longrightarrow> pc_resolvable (parameter_contract s)"
  by (auto simp: contract_resolvable resolve_Inr dest: resolve_specs_suppliable)

lemma resolved_valid:
  "resolve_action_params loads s component why = Inr p \<Longrightarrow> validate_action_params loads s p = None"
  by (auto simp: resolve_Inr)

text \<open>C37: The contract and the resolver agree. An action class is reported as resolvable exactly when some
component gets a payload from the resolver, every component that is not blank_text then gets one, and every
payload the resolver returns satisfies the contract of its class.\<close>

theorem contract_matches_resolver:
  "(pc_resolvable (parameter_contract s) \<longleftrightarrow> (\<exists>component why p. resolve_action_params loads s component why = Inr p))
   \<and> (pc_resolvable (parameter_contract s) \<and> \<not> blank_text component
        \<longrightarrow> (\<exists>p. resolve_action_params loads s component [] = Inr p))
   \<and> (case resolve_action_params loads s component why of Inr p \<Rightarrow> validate_action_params loads s p = None | Inl _ \<Rightarrow> True)"
proof (intro conjI impI)
  note res = resolved_params[of _ s loads]
  show "pc_resolvable (parameter_contract s) \<longleftrightarrow> (\<exists>component why p. resolve_action_params loads s component why = Inr p)"
    using res[of "''x''"] resolved_contract[of loads s] by (auto simp: blank_text_def is_space_def)
  show "\<exists>p. resolve_action_params loads s component [] = Inr p"
    if "pc_resolvable (parameter_contract s) \<and> \<not> blank_text component" using that res by blast
  show "case resolve_action_params loads s component why of Inr p \<Rightarrow> validate_action_params loads s p = None | Inl _ \<Rightarrow> True"
    by (auto split: sum.splits intro: resolved_valid)
qed

theorem contract_matches_resolver_witness:
  "(\<exists>p. resolve_action_params (\<lambda>_. None) ''BMC_RESET'' ''bay 3'' [] = Inr p)
   \<and> \<not> (\<exists>component why p. resolve_action_params (\<lambda>_. None) ''FIRMWARE_UPDATE'' component why = Inr p)"
proof -
  have "pc_resolvable (parameter_contract (action_value BmcReset))"
    "\<not> pc_resolvable (parameter_contract (action_value FirmwareUpdate))"
    unfolding contract_resolvable by (simp_all del: action_value.simps add: agent_unsuppliable_def)
  with contract_matches_resolver[of "''BMC_RESET''" "\<lambda>_. None" "''bay 3''" "[]"]
    contract_matches_resolver[of "''FIRMWARE_UPDATE''" "\<lambda>_. None" "''x''" "[]"]
  show ?thesis by (simp add: blank_text_def is_space_def)
qed

definition component_names :: "action_type \<Rightarrow> string list" where
  "component_names a = map ps_name (filter (\<lambda>sp. ps_source sp = SrcComponent) (action_parameters a))"

lemma take_until_bar: "CHR ''|'' \<notin> set xs \<Longrightarrow> takeWhile (\<lambda>c. c \<noteq> CHR ''|'') (xs @ CHR ''|'' # ys) = xs"
  by (induction xs) auto

lemma action_value_no_bar: "CHR ''|'' \<notin> set (action_value a)"
  by (cases a) simp_all

lemma identity_parts:
  "operation_identity str_of (action_value a) params = action_value a @ concat (map (\<lambda>n. CHR ''|'' # n @ ''='' @
     str_of (dget_or params n (PyStr []))) (component_names a))"
proof -
  have "sort (component_names a) = component_names a" by (cases a) (simp_all add: component_names_def)
  then show ?thesis by (simp add: operation_identity_def join_bars_def component_names_def Let_def comp_def)
qed

lemma identity_class: "takeWhile (\<lambda>c. c \<noteq> CHR ''|'') (operation_identity str_of (action_value a) params) = action_value a"
  by (cases "component_names a")
    (auto simp: identity_parts take_until_bar action_value_no_bar takeWhile_eq_all_conv)

text \<open>An operation is identified by its class and its component. Two payloads of governed classes have
the same identity exactly when the classes are the same and the parameters that name the component have
the same text; every other parameter, a reason for instance, is left out of it.\<close>

theorem operation_identity_exact:
  "operation_identity str_of (action_value a) p = operation_identity str_of (action_value b) q
     \<longleftrightarrow> a = b \<and> list_all (\<lambda>n. str_of (dget_or p n (PyStr [])) = str_of (dget_or q n (PyStr []))) (component_names a)"
proof
  assume eq: "operation_identity str_of (action_value a) p = operation_identity str_of (action_value b) q"
  then have "action_value a = action_value b" using identity_class[of str_of a p] identity_class[of str_of b q] by simp
  then have ab: "a = b" by simp
  with eq show "a = b \<and> list_all (\<lambda>n. str_of (dget_or p n (PyStr [])) = str_of (dget_or q n (PyStr []))) (component_names a)"
    by (cases a) (simp_all add: identity_parts component_names_def)
next
  assume "a = b \<and> list_all (\<lambda>n. str_of (dget_or p n (PyStr [])) = str_of (dget_or q n (PyStr []))) (component_names a)"
  then show "operation_identity str_of (action_value a) p = operation_identity str_of (action_value b) q"
    by (simp add: identity_parts list_all_iff cong: map_cong)
qed

text \<open>A declaration is effective exactly for what is implemented and allowed, and unknown reach stays unknown.\<close>

lemma declared_effective:
  assumes "dc = declare_capabilities r protocol allow cls"
  shows "effective_actions (Some dc) = map_option (\<lambda>acts. sorted_set (filter (\<lambda>a. a \<in> set allow) acts)) (r protocol)
    \<and> implemented_actions (Some dc) = map_option sorted_set (r protocol)"
  using assms by (auto simp: declare_capabilities_def effective_actions_def implemented_actions_def sorted_set_def Let_def
      split: option.splits)

end
