(* ===== verification/Provenance.thy ===== *)
theory Provenance
  imports Values
begin

text \<open>
  Generation provenance (\<open>src/src/harkeniq/generation_provenance.py\<close>): the marker of the projection a
  text was generated from, its parser, the join of several markers, and what a reader may be shown.
  \<open>None\<close> of the parser's outer option is the \<open>TypeError\<close> of looking up an unhashable scope.
\<close>

subsection \<open>Markers\<close>

definition projection_version :: int where "projection_version = 1"

definition marker_keys :: "string list" where
  "marker_keys = [''scope'', ''site_id'', ''projection_version'']"

record visibility =
  gv_scope :: string
  gv_site :: "string option"
  gv_version :: int

definition marker_dict :: "visibility \<Rightarrow> pyval" where
  "marker_dict g = PyDict [(''scope'', PyStr (gv_scope g)),
     (''site_id'', case gv_site g of None \<Rightarrow> PyNone | Some s \<Rightarrow> PyStr s),
     (''projection_version'', PyInt (gv_version g))]"

text \<open>\<open>sites = None\<close> is a reader of the whole tenant.\<close>

definition covered_by :: "visibility \<Rightarrow> string list option \<Rightarrow> bool" where
  "covered_by g sites =
     (case sites of None \<Rightarrow> True
      | Some ss \<Rightarrow> gv_scope g = ''site'' \<and> (case gv_site g of None \<Rightarrow> False | Some s \<Rightarrow> s \<noteq> [] \<and> s \<in> set ss))"

definition site_visibility :: "string \<Rightarrow> visibility" where
  "site_visibility s = \<lparr>gv_scope = ''site'', gv_site = Some s, gv_version = projection_version\<rparr>"

definition tenant_visibility :: visibility where
  "tenant_visibility = \<lparr>gv_scope = ''tenant'', gv_site = None, gv_version = projection_version\<rparr>"

subsection \<open>Parsing\<close>

fun hashable :: "pyval \<Rightarrow> bool" where
  "hashable (PyList xs) = False"
| "hashable (PyDict d) = False"
| "hashable _ = True"

definition parse_marker :: "pyval \<Rightarrow> visibility option option" where
  "parse_marker v =
     (case v of
        PyDict d \<Rightarrow>
          if \<exists>k \<in> set (dkeys d). k \<notin> set marker_keys then Some None
          else (let scope = dget_or d ''scope'' PyNone in
            if \<not> hashable scope then None
            else if scope \<noteq> PyStr ''site'' \<and> scope \<noteq> PyStr ''tenant'' then Some None
            else (case dget_or d ''projection_version'' PyNone of
                PyInt n \<Rightarrow>
                  if n < 1 \<or> projection_version < n then Some None
                  else (let site = dget_or d ''site_id'' PyNone in
                    if scope = PyStr ''site''
                    then (case site of
                        PyStr s \<Rightarrow> if s = [] then Some None
                          else Some (Some \<lparr>gv_scope = ''site'', gv_site = Some s, gv_version = n\<rparr>)
                      | _ \<Rightarrow> Some None)
                    else if site \<noteq> PyNone then Some None
                    else Some (Some \<lparr>gv_scope = ''tenant'', gv_site = None, gv_version = n\<rparr>))
              | _ \<Rightarrow> Some None))
      | _ \<Rightarrow> Some None)"

subsection \<open>The join\<close>

text \<open>The loop of \<open>combine\<close> after a first part was seen; \<open>None\<close> is unknown.\<close>

fun combine_loop :: "visibility option list \<Rightarrow> string option \<Rightarrow> bool \<Rightarrow> visibility option" where
  "combine_loop [] site tenant =
     (if tenant then Some tenant_visibility
      else (case site of None \<Rightarrow> None | Some s \<Rightarrow> if s = [] then None else Some (site_visibility s)))"
| "combine_loop (None # parts) site tenant = None"
| "combine_loop (Some g # parts) site tenant =
     (if gv_scope g = ''tenant'' then combine_loop parts site True
      else if site = None then combine_loop parts (gv_site g) tenant
      else combine_loop parts site (tenant \<or> gv_site g \<noteq> site))"

definition combine_markers :: "visibility option list \<Rightarrow> visibility option" where
  "combine_markers parts = (if parts = [] then None else combine_loop parts None False)"

definition covers :: "pyval \<Rightarrow> string list option \<Rightarrow> bool option" where
  "covers marker sites =
     (if sites = None then Some True
      else map_option (\<lambda>g. case g of None \<Rightarrow> False | Some g \<Rightarrow> covered_by g sites) (parse_marker marker))"

subsection \<open>What a scoped reader sees\<close>

text \<open>The markers the constructors and the parser make.\<close>

definition proper :: "visibility \<Rightarrow> bool" where
  "proper g \<longleftrightarrow> g = tenant_visibility \<or> (\<exists>s. s \<noteq> [] \<and> g = site_visibility s)"

lemma proper_cases: "proper g \<Longrightarrow> (g = tenant_visibility \<Longrightarrow> P) \<Longrightarrow> (\<And>s. s \<noteq> [] \<Longrightarrow> g = site_visibility s \<Longrightarrow> P) \<Longrightarrow> P"
  by (auto simp: proper_def)

lemma parsed_proper: "parse_marker v = Some (Some g) \<Longrightarrow> proper g"
  by (auto simp: parse_marker_def proper_def site_visibility_def tenant_visibility_def projection_version_def
      Let_def split: pyval.splits if_splits)

lemma visibility_simps [simp]:
  "gv_scope (site_visibility s) = ''site''" "gv_site (site_visibility s) = Some s"
  "gv_scope tenant_visibility = ''tenant''" "site_visibility s = site_visibility s' \<longleftrightarrow> s = s'"
  "site_visibility s \<noteq> tenant_visibility" "tenant_visibility \<noteq> site_visibility s"
  by (auto simp: site_visibility_def tenant_visibility_def)

lemma combine_loop_site:
  "list_all (\<lambda>p. case p of None \<Rightarrow> True | Some g \<Rightarrow> proper g) parts \<Longrightarrow> (\<And>s'. site = Some s' \<Longrightarrow> s' \<noteq> [])
     \<Longrightarrow> combine_loop parts site tenant = Some (site_visibility s) \<longleftrightarrow>
       \<not> tenant \<and> (site = Some s \<or> site = None \<and> parts \<noteq> []) \<and> s \<noteq> [] \<and> (\<forall>p \<in> set parts. p = Some (site_visibility s))"
proof (induction parts site tenant rule: combine_loop.induct)
  case (1 site tenant)
  then show ?case by (auto split: option.splits)
next
  case (3 g parts site tenant)
  from 3(4) consider (ten) "g = tenant_visibility" | (sit) s' where "s' \<noteq> []" "g = site_visibility s'"
    by (auto simp: proper_def)
  then show ?case
  proof cases
    case ten
    with 3 show ?thesis by auto
  next
    case sit
    with 3 show ?thesis by (cases "site = None") (auto split: if_splits)
  qed
qed simp

lemma combine_proper:
  "combine_loop parts site tenant = Some g \<Longrightarrow> proper g"
  by (induction parts site tenant rule: combine_loop.induct) (auto simp: proper_def split: if_splits option.splits)

lemma covered_scoped: "proper g \<Longrightarrow> covered_by g (Some ss) \<longleftrightarrow> (\<exists>s \<in> set ss. s \<noteq> [] \<and> g = site_visibility s)"
  by (elim proper_cases) (auto simp: covered_by_def)

text \<open>The join never shows more than its parts. A reader of some sites is shown a text generated from
several inputs exactly when there was an input and one of the reader's sites is the site of all of
them; so every input is one the reader may be shown, and an unknown one hides the text.\<close>

theorem combined_marker_covers_parts:
  assumes "list_all (\<lambda>p. case p of None \<Rightarrow> True | Some g \<Rightarrow> proper g) parts"
  shows "(case combine_markers parts of None \<Rightarrow> False | Some g \<Rightarrow> covered_by g (Some ss))
      \<longleftrightarrow> parts \<noteq> [] \<and> (\<exists>s \<in> set ss. s \<noteq> [] \<and> (\<forall>p \<in> set parts. p = Some (site_visibility s)))"
proof (cases "combine_markers parts")
  case None
  have "combine_loop parts None False \<noteq> Some (site_visibility s)" if "parts \<noteq> []" for s
    using None that by (simp add: combine_markers_def)
  with None show ?thesis using combine_loop_site[OF assms, of None False] by auto
next
  case (Some g)
  then have g: "parts \<noteq> []" "combine_loop parts None False = Some g" by (auto simp: combine_markers_def split: if_splits)
  show ?thesis using covered_scoped[OF combine_proper[OF g(2)]] combine_loop_site[OF assms, of None False] g Some by auto
qed

theorem combined_marker_covers_parts_witness:
  "\<not> (case combine_markers [Some (site_visibility ''a''), Some (site_visibility ''b'')] of
       None \<Rightarrow> False | Some g \<Rightarrow> covered_by g (Some [''a'', ''b'']))"
  using combined_marker_covers_parts[of "[Some (site_visibility ''a''), Some (site_visibility ''b'')]" "[''a'', ''b'']"]
  by (simp add: proper_def)

text \<open>A marker parses back, and what is shown to a reader of some sites was made from one of these sites:
the parser answers the marker that was written, and a stored value is covered only when it is a marker
of the current projection with no other key and one of the reader's sites.\<close>

theorem marker_round_trip:
  "(proper g \<longrightarrow> parse_marker (marker_dict g) = Some (Some g))
   \<and> (covers v (Some ss) = Some True \<longrightarrow> (\<exists>s \<in> set ss. s \<noteq> [] \<and> parse_marker v = Some (Some (site_visibility s))
        \<and> (\<exists>d. v = PyDict d \<and> set (dkeys d) \<subseteq> set marker_keys)))"
proof (intro conjI impI)
  show "parse_marker (marker_dict g) = Some (Some g)" if "proper g"
    using that by (elim proper_cases) (simp_all add: marker_dict_def parse_marker_def marker_keys_def
        site_visibility_def tenant_visibility_def projection_version_def dget_or_def)
  assume c: "covers v (Some ss) = Some True"
  then obtain g where g: "parse_marker v = Some (Some g)" "covered_by g (Some ss)"
    by (auto simp: covers_def split: option.splits)
  from g(1) have "\<exists>d. v = PyDict d \<and> set (dkeys d) \<subseteq> set marker_keys"
    by (auto simp: parse_marker_def split: pyval.splits if_splits)
  with g covered_scoped[OF parsed_proper[OF g(1)]]
  show "\<exists>s \<in> set ss. s \<noteq> [] \<and> parse_marker v = Some (Some (site_visibility s))
      \<and> (\<exists>d. v = PyDict d \<and> set (dkeys d) \<subseteq> set marker_keys)" by blast
qed

theorem marker_round_trip_witness:
  "parse_marker (marker_dict (site_visibility ''s1'')) = Some (Some (site_visibility ''s1''))
   \<and> covers (marker_dict (site_visibility ''s1'')) (Some [''s1'']) = Some True"
proof -
  have "proper (site_visibility ''s1'')" by (simp add: proper_def)
  with marker_round_trip[of "site_visibility ''s1''" PyNone "[]"]
  have "parse_marker (marker_dict (site_visibility ''s1'')) = Some (Some (site_visibility ''s1''))" by blast
  then show ?thesis by (simp add: covers_def covered_by_def)
qed

text \<open>An ill-typed marker is not refused but raises: a scope that is a list or an object makes the lookup
in the set of scopes fail, although unknown markers are to be withheld.\<close>

theorem unhashable_scope_raises:
  assumes "\<not> hashable scope"
  shows "covers (PyDict [(''scope'', scope)]) (Some ss) = None"
  using assms by (simp add: covers_def parse_marker_def marker_keys_def dget_or_def)

theorem unhashable_scope_raises_witness: "covers (PyDict [(''scope'', PyList [])]) (Some [''s1'']) = None"
  by (rule unhashable_scope_raises) simp

end
