(* ===== verification/Versions.thy ===== *)
theory Versions
  imports Expression
begin

text \<open>
  Firmware version comparison across vendors (\<open>src/src/harkeniq/compliance/versions.py\<close>), on Latin-1
  texts: the regular expressions are written out as scanners, tuples are compared as Python compares
  them, position by position.
\<close>

subsection \<open>Normalisation\<close>

text \<open>\<open>^(\<backslash>d+)(.*)$\<close>: the dot stops at a line break, and the end may be before a last one.\<close>

definition segment_match :: "string \<Rightarrow> (string \<times> string) option" where
  "segment_match s =
     (let ds = takeWhile ascii_digit s; rest = dropWhile ascii_digit s;
          body = (if rest \<noteq> [] \<and> last rest = CHR 0x0A then butlast rest else rest)
      in if ds = [] \<or> CHR 0x0A \<in> set body then None else Some (ds, body))"

text \<open>\<open>(?:[.\<backslash>-]\<backslash>w+)*\<close> and \<open>(?:\<backslash>.\<backslash>w+)*\<close>, as much as matches.\<close>

function groups :: "(char \<Rightarrow> bool) \<Rightarrow> string \<Rightarrow> string" where
  "groups sep [] = []"
| "groups sep (c # cs) =
     (if sep c \<and> takeWhile word_char cs \<noteq> []
      then c # takeWhile word_char cs @ groups sep (dropWhile word_char cs) else [])"
  by pat_completeness auto
termination
  by (relation "measure (length \<circ> snd)") (auto simp: le_imp_less_Suc length_dropWhile_le)

definition dash_or_dot :: "char \<Rightarrow> bool" where
  "dash_or_dot c \<longleftrightarrow> c = CHR ''.'' \<or> c = CHR ''-''"

text \<open>\<open>\<backslash>bv(\<backslash>d+(?:[.\<backslash>-]\<backslash>w+)*)\<close>: \<open>p\<close> tells whether the character before is one of a word.\<close>

fun v_prefixed :: "bool \<Rightarrow> string \<Rightarrow> string option" where
  "v_prefixed p [] = None"
| "v_prefixed p (c # cs) =
     (let ds = takeWhile ascii_digit cs in
      if c = CHR ''v'' \<and> \<not> p \<and> ds \<noteq> [] then Some (ds @ groups dash_or_dot (dropWhile ascii_digit cs))
      else v_prefixed (word_char c) cs)"

text \<open>\<open>\<backslash>d+(?:\<backslash>.\<backslash>w+)+\<close>.\<close>

fun dotted_number :: "string \<Rightarrow> string option" where
  "dotted_number [] = None"
| "dotted_number (c # cs) =
     (let s = c # cs; ds = takeWhile ascii_digit s; gs = groups (\<lambda>c. c = CHR ''.'') (dropWhile ascii_digit s) in
      if ds \<noteq> [] \<and> gs \<noteq> [] then Some (ds @ gs) else dotted_number cs)"

definition normalize_version :: "string \<Rightarrow> string" where
  "normalize_version raw =
     (let s = strip_text raw in
      if s = [] then []
      else if segment_match s \<noteq> None
      then strip_text (takeWhile (\<lambda>c. c \<noteq> CHR ''('') (takeWhile (\<lambda>c. c \<noteq> CHR '' '') s))
      else (case v_prefixed False s of Some v \<Rightarrow> v
        | None \<Rightarrow> (case dotted_number s of Some v \<Rightarrow> v | None \<Rightarrow> s)))"

fun split_on :: "(char \<Rightarrow> bool) \<Rightarrow> string \<Rightarrow> string list" where
  "split_on sep [] = [[]]"
| "split_on sep (c # cs) =
     (if sep c then [] # split_on sep cs
      else (case split_on sep cs of [] \<Rightarrow> [[c]] | p # ps \<Rightarrow> (c # p) # ps))"

type_synonym version_key = "(int \<times> string) list"

definition segment_key :: "string \<Rightarrow> int \<times> string" where
  "segment_key part = (case segment_match part of Some (ds, rest) \<Rightarrow> (digits_value ds, rest) | None \<Rightarrow> (-1, part))"

definition parse_version :: "string \<Rightarrow> version_key" where
  "parse_version raw =
     (let n = normalize_version raw in if n = [] then [] else map segment_key (split_on dash_or_dot n))"

definition pad_key :: "nat \<Rightarrow> version_key \<Rightarrow> version_key" where
  "pad_key n k = k @ replicate (n - length k) (0, [])"

definition compare_versions :: "string \<Rightarrow> string \<Rightarrow> int" where
  "compare_versions a b =
     (let va = parse_version a; vb = parse_version b; n = max (length va) (length vb);
          va' = pad_key n va; vb' = pad_key n vb
      in if va' < vb' then -1 else if vb' < va' then 1 else 0)"

subsection \<open>Ranges\<close>

definition range_ops :: "string list" where
  "range_ops = [''<='', ''>='', ''=='', ''!='', ''<'', ''>'']"

fun cmp_holds :: "string \<Rightarrow> int \<Rightarrow> bool" where
  "cmp_holds oper c =
     (if oper = ''<'' then c < 0 else if oper = ''<='' then c \<le> 0 else if oper = ''>'' then 0 < c
      else if oper = ''>='' then 0 \<le> c else if oper = ''=='' then c = 0 else c \<noteq> 0)"

declare cmp_holds.simps [simp del]

definition clause_holds :: "string \<Rightarrow> string \<Rightarrow> bool" where
  "clause_holds version clause =
     (let cl = strip_text clause in
      case find (\<lambda>oper. take (length oper) cl = oper) range_ops of
        None \<Rightarrow> False
      | Some oper \<Rightarrow>
          (let target = strip_text (drop (length oper) cl) in
           target \<noteq> [] \<and> cmp_holds oper (compare_versions version target)))"

definition version_in_range :: "string \<Rightarrow> string \<Rightarrow> bool" where
  "version_in_range version expr =
     (let e = strip_text expr in
      if e = ''*'' then True
      else if e = [] \<or> version = [] then False
      else list_all (clause_holds version) (split_on (\<lambda>c. c = CHR '','') e))"

subsection \<open>The comparison orders versions\<close>

lemma pad_more: "length k \<le> n \<Longrightarrow> n \<le> m \<Longrightarrow> pad_key m k = pad_key n k @ replicate (m - n) (0, [])"
  by (simp add: pad_key_def flip: replicate_add)

lemma length_pad [simp]: "length k \<le> n \<Longrightarrow> length (pad_key n k) = n"
  by (simp add: pad_key_def)

lemma less_append_same:
  fixes xs ys zs :: "'a::linorder list"
  shows "length xs = length ys \<Longrightarrow> xs @ zs < ys @ zs \<longleftrightarrow> xs < ys"
  by (induction xs ys rule: list_induct2) auto

text \<open>Any common padding that is long enough decides the comparison.\<close>

lemma compare_padded:
  assumes "length (parse_version a) \<le> m" "length (parse_version b) \<le> m"
  shows "compare_versions a b =
     (if pad_key m (parse_version a) < pad_key m (parse_version b) then -1
      else if pad_key m (parse_version b) < pad_key m (parse_version a) then 1 else 0)"
proof -
  let ?n = "max (length (parse_version a)) (length (parse_version b))"
  have "pad_key m (parse_version a) = pad_key ?n (parse_version a) @ replicate (m - ?n) (0, [])"
    "pad_key m (parse_version b) = pad_key ?n (parse_version b) @ replicate (m - ?n) (0, [])"
    using assms by (intro pad_more; simp)+
  then show ?thesis by (simp add: compare_versions_def Let_def less_append_same)
qed

lemma compare_swap: "compare_versions b a = - compare_versions a b"
  unfolding compare_versions_def Let_def by (auto simp: max.commute)

lemma compare_range: "compare_versions a b \<in> {-1, 0, 1}"
  by (simp add: compare_versions_def Let_def)

lemma compare_le_trans:
  assumes "compare_versions a b \<le> 0" "compare_versions b c \<le> 0"
  shows "compare_versions a c \<le> 0"
proof -
  let ?m = "max (length (parse_version a)) (max (length (parse_version b)) (length (parse_version c)))"
  have le: "compare_versions x y \<le> 0 \<longleftrightarrow> pad_key ?m (parse_version x) \<le> pad_key ?m (parse_version y)"
    if "x \<in> {a, b, c}" "y \<in> {a, b, c}" for x y
    by (subst compare_padded[of _ ?m]) (use that in auto)
  from assms show ?thesis by (simp add: le)
qed

lemma compare_lt_trans:
  "compare_versions a b \<le> 0 \<Longrightarrow> compare_versions b c < 0 \<Longrightarrow> compare_versions a c < 0"
  "compare_versions a b < 0 \<Longrightarrow> compare_versions b c \<le> 0 \<Longrightarrow> compare_versions a c < 0"
  using compare_le_trans[of c a b] compare_le_trans[of b c a] compare_swap[of a c] compare_swap[of b c] compare_swap[of a b]
  by linarith+

text \<open>Versions are totally preordered, although each comparison pads the shorter of its two keys: a version
equals itself, swapping the arguments turns the answer around, and the comparison is transitive for
keys of any three lengths.\<close>

theorem versions_ordered:
  "compare_versions a a = 0 \<and> compare_versions b a = - compare_versions a b
   \<and> compare_versions a b \<in> {-1, 0, 1}
   \<and> (compare_versions a b \<le> 0 \<and> compare_versions b c \<le> 0 \<longrightarrow> compare_versions a c \<le> 0)"
  using compare_swap[of a a] compare_swap[of b a] compare_range[of a b] compare_le_trans[of a b c] by auto

lemma compare_examples:
  "compare_versions ''2.5'' ''2.5.0'' = 0"
  "compare_versions ''U32 v2.68 (04/22/2026)'' ''2.78'' = -1"
  "compare_versions ''2.78'' ''10.1'' = -1"
  "compare_versions ''1.0-rc1'' ''1.0'' = -1"
  by code_simp+

theorem versions_ordered_witness:
  "compare_versions ''U32 v2.68 (04/22/2026)'' ''10.1'' \<le> 0"
  using versions_ordered[of "''U32 v2.68 (04/22/2026)''" "''2.78''" "''10.1''"] compare_examples by simp

lemma clause_between:
  assumes "clause_holds v cl" "clause_holds x cl" "take 2 (strip_text cl) \<noteq> ''!=''"
    and "compare_versions v w \<le> 0" "compare_versions w x \<le> 0"
  shows "clause_holds w cl"
proof -
  obtain oper where oper: "find (\<lambda>oper. take (length oper) (strip_text cl) = oper) range_ops = Some oper"
    using assms(1) by (auto simp: clause_holds_def Let_def split: option.splits)
  then have op: "oper \<in> set range_ops" "take (length oper) (strip_text cl) = oper"
    by (auto simp: find_Some_iff)
  define t where "t = strip_text (drop (length oper) (strip_text cl))"
  have c: "t \<noteq> []" "cmp_holds oper (compare_versions v t)" "cmp_holds oper (compare_versions x t)"
    using assms(1,2) oper by (auto simp: clause_holds_def t_def Let_def)
  have "oper \<noteq> ''!=''" using assms(3) op(2) by (auto simp: numeral_2_eq_2)
  with op(1) have "oper \<in> {''<='', ''>='', ''=='', ''<'', ''>''}" by (auto simp: range_ops_def)
  moreover have "compare_versions w t \<le> 0" if "compare_versions x t \<le> 0"
    using compare_le_trans assms(5) that by blast
  moreover have "compare_versions w t < 0" if "compare_versions x t < 0"
    using compare_lt_trans(1) assms(5) that by blast
  moreover have "0 \<le> compare_versions w t" if "0 \<le> compare_versions v t"
    using compare_le_trans[of t v w] assms(4) that compare_swap[of t v] compare_swap[of t w] by simp
  moreover have "0 < compare_versions w t" if "0 < compare_versions v t"
    using compare_lt_trans(2)[of t v w] assms(4) that compare_swap[of t v] compare_swap[of t w] by simp
  ultimately have "cmp_holds oper (compare_versions w t)"
    using c(2,3) by (auto simp: cmp_holds.simps)
  with oper c(1) show ?thesis by (simp add: clause_holds_def t_def Let_def)
qed

text \<open>Affected versions form intervals. A range expression without \<open>!=\<close> that matches two versions
matches every version between them.\<close>

theorem ranges_are_intervals:
  assumes "version_in_range v expr" "version_in_range x expr" "w \<noteq> []"
    and "list_all (\<lambda>cl. take 2 (strip_text cl) \<noteq> ''!='') (split_on (\<lambda>c. c = CHR '','') (strip_text expr))"
    and "compare_versions v w \<le> 0" "compare_versions w x \<le> 0"
  shows "version_in_range w expr"
  using assms clause_between[of v _ x w] by (auto simp: version_in_range_def Let_def list_all_iff split: if_splits)

theorem ranges_are_intervals_witness: "version_in_range ''2.78'' ''>= 2.0, < 7.10''"
proof (rule ranges_are_intervals[of "''2.5''" _ "''7.0''"])
  show "version_in_range ''2.5'' ''>= 2.0, < 7.10''" "version_in_range ''7.0'' ''>= 2.0, < 7.10''"
    "compare_versions ''2.5'' ''2.78'' \<le> 0" "compare_versions ''2.78'' ''7.0'' \<le> 0"
    "list_all (\<lambda>cl. take 2 (strip_text cl) \<noteq> ''!='') (split_on (\<lambda>c. c = CHR '','') (strip_text ''>= 2.0, < 7.10''))"
    by code_simp+
qed simp

text \<open>A version text of blanks only is not refused: it compares as version zero.\<close>

lemma blank_version_in_range: "version_in_range '' '' ''< 2.0'' \<and> \<not> version_in_range [] ''< 2.0''"
  by code_simp

end
