(* ===== verification/Firmware_Waves.thy ===== *)
theory Firmware_Waves
  imports Prelude
begin

text \<open>
  The firmware campaigns of the site manager
  (\<open>src/services/site_manager/src/harkeniq_sm/firmware_orchestrator.py\<close>): the wave planner, and the
  lifecycle of a campaign from its creation over the approval to one wave per call of \<open>advance\<close>. The
  device updater is a parameter that may also raise; \<open>'w\<close> is the state of the world it works on. The
  loop that looks for a free wave is \<open>partial_function (option)\<close>: \<open>None\<close> is "does not return".
\<close>

subsection \<open>Planning waves\<close>

text \<open>A wave under construction: the fault domains of its devices and how many it holds.\<close>

type_synonym wave = "string set \<times> nat"

definition open_wave :: "wave list \<Rightarrow> nat \<Rightarrow> wave list" where
  "open_wave ws w = (if length ws \<le> w then ws @ [({}, 0)] else ws)"

partial_function (option) find_wave :: "int \<Rightarrow> string set \<Rightarrow> wave list \<Rightarrow> nat \<Rightarrow> (nat \<times> wave list) option" where
  "find_wave cap ds ws w =
     (let ws' = open_wave ws w in
      if int (snd (ws' ! w)) < cap \<and> ds \<inter> fst (ws' ! w) = {} then Some (w, ws')
      else find_wave cap ds ws' (Suc w))"

definition occupy :: "string set \<Rightarrow> nat \<Rightarrow> wave list \<Rightarrow> wave list" where
  "occupy ds w ws = ws[w := (fst (ws ! w) \<union> ds, Suc (snd (ws ! w)))]"

definition domains_of :: "(string, string list) dict \<Rightarrow> string \<Rightarrow> string set" where
  "domains_of doms d = set (dget_or doms d [])"

fun plan_loop ::
  "int \<Rightarrow> (string, string list) dict \<Rightarrow> string list \<Rightarrow> wave list \<Rightarrow> (string, nat) dict \<Rightarrow> (string, nat) dict option" where
  "plan_loop cap doms [] ws asg = Some asg"
| "plan_loop cap doms (d # ids) ws asg =
     Option.bind (find_wave cap (domains_of doms d) ws 0)
       (\<lambda>(w, ws'). plan_loop cap doms ids (occupy (domains_of doms d) w ws') (dset d w asg))"

definition plan_waves :: "string list \<Rightarrow> (string, string list) dict \<Rightarrow> int \<Rightarrow> (string, nat) dict option" where
  "plan_waves ids doms cap = plan_loop cap doms (sort ids) [] []"

text \<open>The search returns for a positive cap: a fresh wave takes any device.\<close>

lemma find_wave_total:
  assumes "1 \<le> cap" and "w \<le> length ws"
  obtains w' ws' where "find_wave cap ds ws w = Some (w', ws')" and "w' < length ws'"
    and "ws' = ws \<or> ws' = ws @ [({}, 0)]" and "int (snd (ws' ! w')) < cap" and "ds \<inter> fst (ws' ! w') = {}"
proof -
  have "\<exists>w' ws'. find_wave cap ds ws w = Some (w', ws') \<and> w' < length ws'
    \<and> (ws' = ws \<or> ws' = ws @ [({}, 0)]) \<and> int (snd (ws' ! w')) < cap \<and> ds \<inter> fst (ws' ! w') = {}"
    using assms(2)
  proof (induction "length ws - w" arbitrary: w)
    case 0
    then have "open_wave ws w = ws @ [({}, 0)]" and "(ws @ [({}, 0)]) ! w = ({}, 0)"
      by (auto simp: open_wave_def nth_append)
    with assms(1) 0 show ?case by (subst find_wave.simps) simp
  next
    case (Suc k)
    then have o: "open_wave ws w = ws" and w: "w < length ws" by (auto simp: open_wave_def)
    show ?case
    proof (cases "int (snd (ws ! w)) < cap \<and> ds \<inter> fst (ws ! w) = {}")
      case True
      with o w show ?thesis by (subst find_wave.simps) simp
    next
      case False
      moreover from Suc have "k = length ws - Suc w" "Suc w \<le> length ws" by simp_all
      note Suc.hyps(1)[OF this]
      ultimately show ?thesis using o by (subst find_wave.simps) auto
    qed
  qed
  then show ?thesis using that by blast
qed

text \<open>With no room in any wave the search goes on for ever.\<close>

lemma find_wave_diverges:
  assumes "cap \<le> 0" shows "find_wave cap ds ws w = None"
proof (cases "find_wave cap ds ws w")
  case (Some r)
  have "1 \<le> cap"
  proof (rule find_wave.raw_induct[where P = "\<lambda>cap ds ws w r. 1 \<le> cap", OF _ Some])
    fix find_wave' cap ds ws w r
    assume IH: "\<And>cap ds ws w r. find_wave' cap ds ws w = Some r \<Longrightarrow> 1 \<le> cap"
      and eq: "(let ws' = open_wave ws w in
        if int (snd (ws' ! w)) < cap \<and> ds \<inter> fst (ws' ! w) = {} then Some (w, ws')
        else find_wave' cap ds ws' (Suc w)) = Some r"
    then show "1 \<le> cap" by (auto simp: Let_def split: if_splits)
  qed
  with assms show ?thesis by simp
qed simp

text \<open>
  What a partial plan promises: a wave holds the domains of every device assigned to it, two devices
  in a wave share no domain, and a wave counts at least the devices assigned to it.
\<close>

definition plan_ok :: "int \<Rightarrow> (string, string list) dict \<Rightarrow> wave list \<Rightarrow> (string, nat) dict \<Rightarrow> bool" where
  "plan_ok cap doms ws asg \<longleftrightarrow> wf_dict asg \<and>
     (\<forall>d w. dget asg d = Some w \<longrightarrow> w < length ws \<and> domains_of doms d \<subseteq> fst (ws ! w)) \<and>
     (\<forall>d e w. dget asg d = Some w \<and> dget asg e = Some w \<and> d \<noteq> e \<longrightarrow> domains_of doms d \<inter> domains_of doms e = {}) \<and>
     (\<forall>w < length ws. card {d. dget asg d = Some w} \<le> snd (ws ! w) \<and> int (snd (ws ! w)) \<le> cap)"

lemma finite_assigned: "finite {d. dget asg d = Some w}"
  by (rule finite_subset[of _ "set (dkeys asg)"]) (force dest: map_of_SomeD)+

lemma plan_ok_open: "plan_ok cap doms ws asg \<Longrightarrow> 1 \<le> cap \<Longrightarrow> plan_ok cap doms (ws @ [({}, 0)]) asg"
  unfolding plan_ok_def
  by (auto simp: nth_append less_Suc_eq intro!: card_eq_0_iff[THEN iffD2] dest: order.strict_trans)

lemma card_assigned_dset:
  "card {e. dget (dset d w asg) e = Some v} \<le> card {e. dget asg e = Some v} + (if v = w then 1 else 0)"
proof (cases "v = w")
  case True
  have "{e. dget (dset d w asg) e = Some v} \<subseteq> insert d {e. dget asg e = Some v}" by auto
  then have "card {e. dget (dset d w asg) e = Some v} \<le> card (insert d {e. dget asg e = Some v})"
    by (intro card_mono) (simp_all add: finite_assigned)
  also have "\<dots> \<le> Suc (card {e. dget asg e = Some v})" by (rule card_insert_le_m1[of "Suc _", simplified]) simp_all
  finally show ?thesis using True by simp
next
  case False
  then have "{e. dget (dset d w asg) e = Some v} \<subseteq> {e. dget asg e = Some v}" by auto
  from card_mono[OF finite_assigned this] False show ?thesis by simp
qed

lemma plan_ok_occupy:
  assumes ok: "plan_ok cap doms ws asg" and w: "w < length ws" "int (snd (ws ! w)) < cap"
    and free: "domains_of doms d \<inter> fst (ws ! w) = {}"
  shows "plan_ok cap doms (occupy (domains_of doms d) w ws) (dset d w asg)"
proof -
  let ?D = "domains_of doms" and ?ws = "occupy (domains_of doms d) w ws"
  have f: "fst (?ws ! v) = (if v = w then fst (ws ! w) \<union> ?D d else fst (ws ! v))"
    and n: "snd (?ws ! v) = (if v = w then Suc (snd (ws ! w)) else snd (ws ! v))" if "v < length ws" for v
    using that by (simp_all add: occupy_def nth_list_update)
  have l: "length ?ws = length ws" by (simp add: occupy_def)
  note ok' = ok[unfolded plan_ok_def]
  have disj: "?D d \<inter> ?D e = {}" if "dget asg e = Some w" for e
    using ok' free that by blast
  have c: "card {e. dget (dset d w asg) e = Some v} \<le> snd (?ws ! v)" if "v < length ws" for v
  proof -
    have "card {e. dget asg e = Some v} \<le> snd (ws ! v)" using ok' that by blast
    with card_assigned_dset[of d w asg v] n[OF that] show ?thesis by (auto simp del: dget_dset split: if_splits)
  qed
  show ?thesis unfolding plan_ok_def l
  proof (intro conjI allI impI)
    fix e v assume "dget (dset d w asg) e = Some v"
    then show "v < length ws" "?D e \<subseteq> fst (?ws ! v)"
      using ok' w f[of v] by (auto split: if_splits)
  next
    fix e e' v assume "dget (dset d w asg) e = Some v \<and> dget (dset d w asg) e' = Some v \<and> e \<noteq> e'"
    then have e: "e \<noteq> e'" "(if e = d then Some w else dget asg e) = Some v" "(if e' = d then Some w else dget asg e') = Some v"
      by simp_all
    show "?D e \<inter> ?D e' = {}"
    proof (cases "e = d \<or> e' = d")
      case True
      with e disj[of e] disj[of e'] show ?thesis by (auto split: if_splits)
    next
      case False
      with e ok' show ?thesis by simp
    qed
  next
    fix v assume "v < length ws"
    then show "card {e. dget (dset d w asg) e = Some v} \<le> snd (?ws ! v)" by (rule c)
  next
    fix v assume "v < length ws"
    then show "int (snd (?ws ! v)) \<le> cap" using ok' w n[of v] by auto
  qed (use ok' in simp)
qed

lemma plan_loop_wf: "plan_loop cap doms ids ws asg = Some plan \<Longrightarrow> wf_dict asg \<Longrightarrow> wf_dict plan"
  by (induction cap doms ids ws asg rule: plan_loop.induct) (auto simp: bind_eq_Some_conv)

lemma plan_waves_wf: "plan_waves ids doms cap = Some plan \<Longrightarrow> wf_dict plan"
  unfolding plan_waves_def by (drule plan_loop_wf) simp_all

lemma plan_loop_total:
  assumes "1 \<le> cap" and "plan_ok cap doms ws asg"
  shows "\<exists>asg' ws'. plan_loop cap doms ids ws asg = Some asg' \<and> plan_ok cap doms ws' asg'
    \<and> set (dkeys asg') = set (dkeys asg) \<union> set ids"
  using assms(2)
proof (induction ids arbitrary: ws asg)
  case Nil
  then show ?case by auto
next
  case (Cons d ids)
  obtain w ws' where fw: "find_wave cap (domains_of doms d) ws 0 = Some (w, ws')" and w: "w < length ws'"
    "ws' = ws \<or> ws' = ws @ [({}, 0)]" "int (snd (ws' ! w)) < cap" "domains_of doms d \<inter> fst (ws' ! w) = {}"
    using find_wave_total[OF assms(1), of 0 ws] by blast
  have "plan_ok cap doms ws' asg" using w(2) Cons.prems plan_ok_open[OF _ assms(1)] by auto
  from plan_ok_occupy[OF this w(1,3,4)] Cons.IH fw show ?case by (fastforce simp: dom_update)
qed

lemma plan_waves_ok:
  assumes "1 \<le> cap"
  shows "\<exists>plan ws. plan_waves ids doms cap = Some plan \<and> plan_ok cap doms ws plan \<and> set (dkeys plan) = set ids"
proof -
  have "plan_ok cap doms [] []" by (simp add: plan_ok_def)
  from plan_loop_total[OF assms this, of "sort ids"] show ?thesis unfolding plan_waves_def by auto
qed

text \<open>C27: A plan is always found for a positive wave size, it gives every device of the campaign and no other
one a wave, two devices of one wave never share a fault domain, and no wave has more devices than the
size allows.\<close>

theorem plan_respects_domains:
  assumes "1 \<le> cap"
  shows "\<exists>plan. plan_waves ids doms cap = Some plan \<and> set (dkeys plan) = set ids
    \<and> (\<forall>d e w. dget plan d = Some w \<and> dget plan e = Some w \<and> d \<noteq> e
          \<longrightarrow> set (dget_or doms d []) \<inter> set (dget_or doms e []) = {})
    \<and> (\<forall>w. int (card {d. dget plan d = Some w}) \<le> cap)"
proof -
  from plan_waves_ok[OF assms] obtain plan ws
    where p: "plan_waves ids doms cap = Some plan" "plan_ok cap doms ws plan" "set (dkeys plan) = set ids" by blast
  have "int (card {d. dget plan d = Some w}) \<le> cap" for w
  proof (cases "w < length ws")
    case True
    then show ?thesis using p(2) by (fastforce simp: plan_ok_def)
  next
    case False
    then have "{d. dget plan d = Some w} = {}" using p(2) by (auto simp: plan_ok_def)
    with assms show ?thesis by simp
  qed
  with p show ?thesis unfolding plan_ok_def domains_of_def by blast
qed

definition rack :: "(string, string list) dict" where
  "rack = [(''a'', [''psu1'']), (''b'', [''psu1'']), (''c'', [''psu2''])]"

theorem plan_respects_domains_witness:
  "\<exists>plan. plan_waves [''b'', ''a'', ''c''] rack 2 = Some plan \<and> dget plan ''a'' \<noteq> dget plan ''b''"
proof -
  have "(1::int) \<le> 2" by simp
  from plan_respects_domains[OF this, of "[''b'', ''a'', ''c'']" rack] obtain plan
    where p: "plan_waves [''b'', ''a'', ''c''] rack 2 = Some plan" "set (dkeys plan) = set [''b'', ''a'', ''c'']"
    and d: "\<forall>d e w. dget plan d = Some w \<and> dget plan e = Some w \<and> d \<noteq> e
      \<longrightarrow> set (dget_or rack d []) \<inter> set (dget_or rack e []) = {}"
    by (elim exE conjE) (rule that)
  have "''a'' \<in> set (dkeys plan)" using p(2) by simp
  then obtain w where w: "dget plan ''a'' = Some w" by (auto simp: image_iff dest: weak_map_of_SomeI)
  have "set (dget_or rack ''a'' []) \<inter> set (dget_or rack ''b'' []) \<noteq> {}"
    by (simp add: rack_def dget_or_def)
  with d[rule_format, of "''a''" w "''b''"] w have "dget plan ''a'' \<noteq> dget plan ''b''" by auto
  with p show ?thesis by blast
qed

text \<open>A campaign whose wave size is not positive is never planned: the search for a wave does not
return. The size that a client of the REST interface sends is taken as it is.\<close>

theorem empty_waves_never_planned:
  assumes "cap \<le> 0" and "ids \<noteq> []"
  shows "plan_waves ids doms cap = None"
proof -
  from assms(2) obtain d ds where "sort ids = d # ds" by (cases "sort ids") (auto dest: arg_cong[of _ _ set])
  with find_wave_diverges[OF assms(1)] show ?thesis by (simp add: plan_waves_def)
qed

theorem empty_waves_never_planned_witness: "plan_waves [''a''] rack 0 = None"
  by (rule empty_waves_never_planned) simp_all

end
