(* ===== verification/Firmware_Campaign.thy ===== *)
theory Firmware_Campaign
  imports Firmware_Waves
begin

text \<open>
  The lifecycle of a firmware campaign (\<open>firmware_orchestrator.py\<close>, with the rows of
  \<open>db/models.py\<close> and the repository of \<open>db/repos.py\<close> it works on): creation from a plan, the
  approval, and \<open>advance\<close>, which runs at most one wave. The updater is a parameter that works on a
  world \<open>'w\<close> and may raise (\<open>None\<close>); what was committed before it raised stays. The audit trail holds
  the events in order. Clock columns are left out.
\<close>

subsection \<open>Rows\<close>

datatype campaign_status = FcDraft | FcApproved | FcRunning | FcCompleted | FcHalted

datatype target_status = TgPending | TgCompleted | TgFailed | TgRolledBack | TgSkipped

record campaign_target =
  tg_device :: string
  tg_wave :: nat
  tg_status :: target_status
  tg_pre :: string
  tg_post :: string
  tg_error :: string

record campaign =
  fc_site :: string
  fc_component :: string
  fc_version :: string
  fc_vendor :: string
  fc_uri :: string
  fc_sha :: string
  fc_created_by :: string
  fc_max_wave :: int
  fc_status :: campaign_status
  fc_current :: nat
  fc_waves :: nat
  fc_approved_by :: string
  fc_reason :: string
  fc_targets :: "campaign_target list"

datatype firmware_event =
    CampaignCreated string string string nat nat
  | CampaignApproved string string
  | WaveStarted nat nat
  | DeviceUpdated string nat string
  | CampaignHalted string nat string bool
  | CampaignCompleted nat

record fw_store =
  fw_campaigns :: "(string, campaign) dict"
  fw_audit :: "(string \<times> firmware_event) list"

record update_result =
  ur_success :: bool
  ur_post :: string
  ur_error :: string

record 'w updater =
  upd_device :: "'w \<Rightarrow> string \<Rightarrow> campaign \<Rightarrow> update_result option \<times> 'w"
  upd_rollback :: "'w \<Rightarrow> string \<Rightarrow> campaign \<Rightarrow> bool option \<times> 'w"

datatype firmware_error =
    NoDevices
  | NoSuchCampaign string
  | CampaignNotDraft campaign_status
  | NoUpdater
  | UpdaterRaised

datatype advance_summary =
    NotRunning campaign_status
  | WaveHalted nat string
  | WaveDone campaign_status nat nat

subsection \<open>The repository\<close>

definition audit :: "string \<Rightarrow> firmware_event \<Rightarrow> fw_store \<Rightarrow> fw_store" where
  "audit cid ev s = s\<lparr>fw_audit := fw_audit s @ [(cid, ev)]\<rparr>"

definition put_campaign :: "string \<Rightarrow> campaign \<Rightarrow> fw_store \<Rightarrow> fw_store" where
  "put_campaign cid c s = s\<lparr>fw_campaigns := dset cid c (fw_campaigns s)\<rparr>"

definition fc_targets_of :: "nat \<Rightarrow> campaign \<Rightarrow> campaign_target list" where
  "fc_targets_of w c = sort_key tg_device (filter (\<lambda>t. tg_wave t = w) (fc_targets c))"

definition mark_target :: "string \<Rightarrow> target_status \<Rightarrow> string \<Rightarrow> string \<Rightarrow> campaign_target \<Rightarrow> campaign_target" where
  "mark_target d st post err t =
     (if tg_device t = d then t\<lparr>tg_status := st, tg_post := post, tg_error := take 512 err\<rparr> else t)"

definition update_target :: "string \<Rightarrow> target_status \<Rightarrow> string \<Rightarrow> string \<Rightarrow> campaign \<Rightarrow> campaign" where
  "update_target d st post err c = c\<lparr>fc_targets := map (mark_target d st post err) (fc_targets c)\<rparr>"

subsection \<open>Creation and approval\<close>

text \<open>The version of the component in a device's inventory: the last entry that names it.\<close>

definition pre_version :: "string \<Rightarrow> (string \<times> string) list \<Rightarrow> string" where
  "pre_version component fw = fold (\<lambda>(c, v) pre. if c = component then v else pre) fw []"

record campaign_request =
  rq_site :: string
  rq_devices :: "string list"
  rq_component :: string
  rq_version :: string
  rq_vendor :: string
  rq_uri :: string
  rq_sha :: string
  rq_created_by :: string
  rq_max_wave :: int

text \<open>
  \<open>create_campaign\<close>: \<open>doms\<close> are the fault domains of the requested devices, \<open>inventory\<close> their
  firmware, \<open>cid\<close> the identifier the database gives. \<open>None\<close> is a request that never returns.
\<close>

definition new_targets :: "string \<Rightarrow> (string \<Rightarrow> (string \<times> string) list) \<Rightarrow> (string, nat) dict \<Rightarrow> campaign_target list" where
  "new_targets component inventory plan =
     map (\<lambda>(d, w). \<lparr>tg_device = d, tg_wave = w, tg_status = TgPending,
       tg_pre = pre_version component (inventory d), tg_post = [], tg_error = []\<rparr>) plan"

definition create_campaign ::
  "(string \<Rightarrow> string list) \<Rightarrow> (string \<Rightarrow> (string \<times> string) list) \<Rightarrow> string \<Rightarrow> campaign_request \<Rightarrow> fw_store
     \<Rightarrow> ((firmware_error + string) \<times> fw_store) option" where
  "create_campaign doms inventory cid rq s =
     (if rq_devices rq = [] then Some (Inl NoDevices, s)
      else Option.bind
        (plan_waves (rq_devices rq) (fold (\<lambda>d. dset d (doms d)) (rq_devices rq) []) (rq_max_wave rq))
        (\<lambda>plan. let
            waves = Max (set (dvals plan)) + 1;
            c = \<lparr>fc_site = rq_site rq, fc_component = rq_component rq, fc_version = rq_version rq,
              fc_vendor = rq_vendor rq, fc_uri = rq_uri rq, fc_sha = rq_sha rq,
              fc_created_by = rq_created_by rq, fc_max_wave = rq_max_wave rq, fc_status = FcDraft,
              fc_current = 0, fc_waves = waves, fc_approved_by = [], fc_reason = [],
              fc_targets = new_targets (rq_component rq) inventory plan\<rparr>
          in Some (Inr cid, audit cid (CampaignCreated (rq_created_by rq) (rq_component rq) (rq_version rq)
               (length (rq_devices rq)) waves) (put_campaign cid c s))))"

definition approve_campaign :: "string \<Rightarrow> string \<Rightarrow> fw_store \<Rightarrow> (firmware_error + unit) \<times> fw_store" where
  "approve_campaign cid actor s =
     (case dget (fw_campaigns s) cid of
        None \<Rightarrow> (Inl (NoSuchCampaign cid), s)
      | Some c \<Rightarrow>
          if fc_status c \<noteq> FcDraft then (Inl (CampaignNotDraft (fc_status c)), s)
          else (Inr (), audit cid (CampaignApproved actor (fc_version c))
                  (put_campaign cid (c\<lparr>fc_status := FcApproved, fc_approved_by := actor\<rparr>) s)))"

subsection \<open>Running a wave\<close>

definition halt_reason :: "string \<Rightarrow> nat \<Rightarrow> string \<Rightarrow> string" where
  "halt_reason d w err = take 512 (''device '' @ d @ '' failed in wave '' @ decimal w @ '': '' @ err)"

definition halt_campaign :: "string \<Rightarrow> nat \<Rightarrow> string \<Rightarrow> bool \<Rightarrow> campaign \<Rightarrow> campaign" where
  "halt_campaign d w err rolled c =
     (update_target d (if rolled then TgRolledBack else TgFailed) [] err c)
       \<lparr>fc_status := FcHalted, fc_reason := halt_reason d w err\<rparr>"

text \<open>The devices of a wave in order; \<open>Inr True\<close> when all of them were updated, \<open>Inr False\<close> when the campaign was halted.\<close>

fun run_wave ::
  "'w updater \<Rightarrow> string \<Rightarrow> nat \<Rightarrow> string list \<Rightarrow> campaign \<Rightarrow> fw_store \<Rightarrow> 'w
     \<Rightarrow> (firmware_error + bool) \<times> campaign \<times> fw_store \<times> 'w" where
  "run_wave u cid w [] c s x = (Inr True, c, s, x)"
| "run_wave u cid w (d # ds) c s x =
     (case upd_device u x d c of
        (None, x1) \<Rightarrow> (Inl UpdaterRaised, c, s, x1)
      | (Some r, x1) \<Rightarrow>
          if ur_success r then
            (let c' = update_target d TgCompleted (ur_post r) [] c in
             run_wave u cid w ds c' (audit cid (DeviceUpdated d w (ur_post r)) (put_campaign cid c' s)) x1)
          else
            (case upd_rollback u x1 d c of
               (None, x2) \<Rightarrow> (Inl UpdaterRaised, c, s, x2)
             | (Some rolled, x2) \<Rightarrow>
                 (let c' = halt_campaign d w (ur_error r) rolled c in
                  (Inr False, c', audit cid (CampaignHalted d w (ur_error r) rolled) (put_campaign cid c' s), x2))))"

definition finish_wave :: "string \<Rightarrow> nat \<Rightarrow> campaign \<Rightarrow> fw_store \<Rightarrow> campaign \<times> fw_store" where
  "finish_wave cid w c s =
     (if fc_waves c \<le> w + 1
      then (let c' = c\<lparr>fc_status := FcCompleted\<rparr> in
            (c', audit cid (CampaignCompleted (fc_waves c)) (put_campaign cid c' s)))
      else (let c' = c\<lparr>fc_current := w + 1\<rparr> in (c', put_campaign cid c' s)))"

definition start_campaign :: "campaign \<Rightarrow> campaign" where
  "start_campaign c = (if fc_status c = FcApproved then c\<lparr>fc_status := FcRunning\<rparr> else c)"

definition pending_devices :: "nat \<Rightarrow> campaign \<Rightarrow> string list" where
  "pending_devices w c = map tg_device (filter (\<lambda>t. tg_status t = TgPending) (fc_targets_of w c))"

definition advance_wave :: "'w updater \<Rightarrow> string \<Rightarrow> campaign \<Rightarrow> fw_store \<Rightarrow> 'w
    \<Rightarrow> (firmware_error + advance_summary) \<times> fw_store \<times> 'w" where
  "advance_wave u cid c s x =
     (let w = fc_current c; ds = pending_devices w c in
      case run_wave u cid w ds c (audit cid (WaveStarted w (length ds)) s) x of
        (Inl e, c', s2, x') \<Rightarrow> (Inl e, s2, x')
      | (Inr False, c', s2, x') \<Rightarrow> (Inr (WaveHalted w (fc_reason c')), s2, x')
      | (Inr True, c', s2, x') \<Rightarrow>
          (case finish_wave cid w c' s2 of
             (c'', s3) \<Rightarrow> (Inr (WaveDone (fc_status c'') w (fc_current c'')), s3, x')))"

definition advance ::
  "'w updater option \<Rightarrow> string \<Rightarrow> fw_store \<Rightarrow> 'w \<Rightarrow> (firmware_error + advance_summary) \<times> fw_store \<times> 'w" where
  "advance updater cid s x =
     (case updater of
        None \<Rightarrow> (Inl NoUpdater, s, x)
      | Some u \<Rightarrow>
          (case dget (fw_campaigns s) cid of
             None \<Rightarrow> (Inl (NoSuchCampaign cid), s, x)
           | Some c0 \<Rightarrow>
               (let c = start_campaign c0;
                    s' = (if fc_status c0 = FcApproved then put_campaign cid c s else s)
                in if fc_status c \<noteq> FcRunning then (Inr (NotRunning (fc_status c)), s', x)
                   else advance_wave u cid c s' x)))"

subsection \<open>What a campaign keeps\<close>

text \<open>
  Where a target may be while the campaign is at wave \<open>k\<close>: earlier waves are done, later ones
  have not been touched.
\<close>

definition stage :: "nat \<Rightarrow> campaign_target \<Rightarrow> bool" where
  "stage k t \<longleftrightarrow> (tg_wave t < k \<longrightarrow> tg_status t = TgCompleted) \<and> (k < tg_wave t \<longrightarrow> tg_status t = TgPending)
     \<and> (tg_wave t = k \<longrightarrow> tg_status t = TgCompleted \<or> tg_status t = TgPending)"

definition campaign_ok :: "campaign \<Rightarrow> bool" where
  "campaign_ok c \<longleftrightarrow> distinct (map tg_device (fc_targets c)) \<and> fc_current c < fc_waves c
     \<and> (\<forall>t \<in> set (fc_targets c). tg_wave t < fc_waves c)
     \<and> (case fc_status c of
          FcRunning \<Rightarrow> \<forall>t \<in> set (fc_targets c). stage (fc_current c) t
        | FcCompleted \<Rightarrow> \<forall>t \<in> set (fc_targets c). tg_status t = TgCompleted
        | FcHalted \<Rightarrow> \<exists>d. \<forall>t \<in> set (fc_targets c). if tg_device t = d
            then tg_wave t = fc_current c \<and> tg_status t \<in> {TgFailed, TgRolledBack} else stage (fc_current c) t
        | _ \<Rightarrow> fc_current c = 0 \<and> (\<forall>t \<in> set (fc_targets c). tg_status t = TgPending))"

definition store_ok :: "fw_store \<Rightarrow> bool" where
  "store_ok s \<longleftrightarrow> (\<forall>cid c. dget (fw_campaigns s) cid = Some c \<longrightarrow> campaign_ok c)"

text \<open>The devices of a wave that wait for their update.\<close>

definition waiting :: "nat \<Rightarrow> campaign \<Rightarrow> string set" where
  "waiting w c = tg_device ` {t \<in> set (fc_targets c). tg_wave t = w \<and> tg_status t = TgPending}"

lemma stores [simp]:
  "fw_campaigns (audit cid ev s) = fw_campaigns s"
  "fw_campaigns (put_campaign cid c s) = dset cid c (fw_campaigns s)"
  by (simp_all add: audit_def put_campaign_def)

lemma store_ok_put [intro]: "store_ok s \<Longrightarrow> campaign_ok c \<Longrightarrow> store_ok (put_campaign cid c s)"
  by (auto simp: store_ok_def split: if_splits)

lemma store_ok_audit [simp]: "store_ok (audit cid ev s) = store_ok s"
  by (simp add: store_ok_def)

lemma mark_target_simps [simp]:
  "tg_device (mark_target d st post err t) = tg_device t"
  "tg_wave (mark_target d st post err t) = tg_wave t"
  "tg_status (mark_target d st post err t) = (if tg_device t = d then st else tg_status t)"
  by (simp_all add: mark_target_def)

lemma update_target_simps [simp]:
  "fc_status (update_target d st post err c) = fc_status c"
  "fc_current (update_target d st post err c) = fc_current c"
  "fc_waves (update_target d st post err c) = fc_waves c"
  "fc_targets (update_target d st post err c) = map (mark_target d st post err) (fc_targets c)"
  by (simp_all add: update_target_def)

lemma halt_campaign_simps [simp]:
  "fc_status (halt_campaign d w err rolled c) = FcHalted"
  "fc_current (halt_campaign d w err rolled c) = fc_current c"
  "fc_waves (halt_campaign d w err rolled c) = fc_waves c"
  by (simp_all add: halt_campaign_def)

lemma in_waiting:
  "e \<in> waiting w c \<longleftrightarrow> (\<exists>t \<in> set (fc_targets c). tg_device t = e \<and> tg_wave t = w \<and> tg_status t = TgPending)"
  by (auto simp: waiting_def)

lemma stage_order:
  "stage k t \<Longrightarrow> stage k t' \<Longrightarrow> tg_wave t < tg_wave t' \<Longrightarrow> tg_status t' \<noteq> TgPending \<Longrightarrow> tg_status t = TgCompleted"
  by (cases "tg_wave t' \<le> k") (auto simp: stage_def)

lemma stage_not_failed: "stage k t \<Longrightarrow> tg_status t \<notin> {TgFailed, TgRolledBack}"
  by (cases "tg_wave t" k rule: linorder_cases) (auto simp: stage_def)

lemma waiting_update: "waiting w (update_target d TgCompleted post err c) = waiting w c - {d}"
  unfolding set_eq_iff in_waiting Diff_iff by auto

lemma waiting_wave:
  "campaign_ok c \<Longrightarrow> tg_device t \<in> waiting w c \<Longrightarrow> t \<in> set (fc_targets c) \<Longrightarrow> tg_wave t = w"
  by (auto simp: in_waiting campaign_ok_def distinct_map inj_on_def)

lemma stage_mark:
  "stage k t \<Longrightarrow> (tg_device t = d \<Longrightarrow> tg_wave t = k) \<Longrightarrow> stage k (mark_target d TgCompleted post err t)"
  by (auto simp: stage_def)

lemma campaign_ok_update:
  assumes "campaign_ok c" "fc_status c = FcRunning" "d \<in> waiting (fc_current c) c"
  shows "campaign_ok (update_target d TgCompleted post err c)"
  using assms waiting_wave[OF assms(1)]
  by (auto simp: campaign_ok_def comp_def intro!: stage_mark)

lemma stage_unmarked: "tg_device t \<noteq> d \<Longrightarrow> mark_target d st post err t = t"
  by (simp add: mark_target_def)

lemma campaign_ok_halt:
  assumes "campaign_ok c" "fc_status c = FcRunning" "d \<in> waiting (fc_current c) c"
  shows "campaign_ok (halt_campaign d w err rolled c)"
  using assms waiting_wave[OF assms(1)]
  by (auto simp: campaign_ok_def halt_campaign_def comp_def stage_unmarked intro!: exI[of _ d])

lemma run_wave_ok:
  assumes "run_wave u cid w ds c s x = (r, c', s', x')" and "campaign_ok c" "fc_status c = FcRunning"
    and "w = fc_current c" "distinct ds" "set ds \<subseteq> waiting w c" "store_ok s"
  shows "store_ok s' \<and> campaign_ok c' \<and> fc_current c' = w \<and> fc_waves c' = fc_waves c
    \<and> (r = Inr True \<longrightarrow> fc_status c' = FcRunning \<and> waiting w c' = waiting w c - set ds)
    \<and> (r = Inr False \<longrightarrow> fc_status c' = FcHalted)"
  using assms
proof (induction u cid w ds c s x rule: run_wave.induct)
  case (2 u cid w d ds c s x)
  have h: "d \<in> waiting (fc_current c) c" using 2 by simp
  show ?case
  proof (cases "upd_device u x d c")
    case (Pair ro x1)
    show ?thesis
    proof (cases ro)
      case None
      with 2 Pair show ?thesis by auto
    next
      case (Some ur)
      show ?thesis
      proof (cases "ur_success ur")
        case True
        let ?c = "update_target d TgCompleted (ur_post ur) [] c"
        have ok: "campaign_ok ?c" using campaign_ok_update[OF 2(3,4) h] .
        have "store_ok s' \<and> campaign_ok c' \<and> fc_current c' = w \<and> fc_waves c' = fc_waves ?c
          \<and> (r = Inr True \<longrightarrow> fc_status c' = FcRunning \<and> waiting w c' = waiting w ?c - set ds)
          \<and> (r = Inr False \<longrightarrow> fc_status c' = FcHalted)"
          by (rule 2(1)[OF Pair[symmetric] Some True refl]) (use 2 Pair Some True ok in \<open>auto simp: waiting_update Let_def\<close>)
        then show ?thesis by (auto simp: waiting_update)
      next
        case False
        with 2 Pair Some campaign_ok_halt[OF 2(3,4) h] show ?thesis
          by (auto simp: Let_def split: prod.splits option.splits intro!: store_ok_put campaign_ok_halt)
      qed
    qed
  qed
qed auto

lemma new_targets_simps:
  "map tg_device (new_targets component inventory plan) = dkeys plan"
  "map tg_wave (new_targets component inventory plan) = dvals plan"
  "t \<in> set (new_targets component inventory plan) \<Longrightarrow> tg_status t = TgPending \<and> tg_wave t \<in> set (dvals plan)"
  by (force simp: new_targets_def)+

lemma create_ok: "create_campaign doms inventory cid rq s = Some (r, s') \<Longrightarrow> store_ok s \<Longrightarrow> store_ok s'"
  by (auto simp: create_campaign_def bind_eq_Some_conv Let_def campaign_ok_def new_targets_simps(1)
      le_imp_less_Suc split: if_splits dest!: plan_waves_wf new_targets_simps(3) intro!: store_ok_put)

lemma store_okD: "store_ok s \<Longrightarrow> dget (fw_campaigns s) cid = Some c \<Longrightarrow> campaign_ok c"
  by (simp add: store_ok_def)

lemma approved_ok:
  "campaign_ok c \<Longrightarrow> fc_status c = FcDraft \<Longrightarrow> campaign_ok (c\<lparr>fc_status := FcApproved, fc_approved_by := actor\<rparr>)"
  by (simp add: campaign_ok_def)

lemma approve_ok: "store_ok s \<Longrightarrow> store_ok (snd (approve_campaign cid actor s))"
  by (auto simp: approve_campaign_def split: option.splits intro!: store_ok_put approved_ok dest: store_okD)

lemma waiting_targets: "set (pending_devices w c) = waiting w c"
  by (auto simp: pending_devices_def fc_targets_of_def waiting_def)

lemma distinct_pending: "campaign_ok c \<Longrightarrow> distinct (pending_devices w c)"
  by (auto simp: campaign_ok_def pending_devices_def fc_targets_of_def distinct_map intro: inj_on_subset)

lemma finish_wave_ok:
  assumes "campaign_ok c" "fc_status c = FcRunning" "fc_current c = w" "waiting w c = {}" "store_ok s"
  shows "store_ok (snd (finish_wave cid w c s))"
proof -
  have done_: "tg_status t = TgCompleted" if "t \<in> set (fc_targets c)" "tg_wave t \<le> w" for t
    using assms that by (force simp: campaign_ok_def stage_def waiting_def)
  have "tg_wave t \<le> w" if "t \<in> set (fc_targets c)" "fc_waves c \<le> w + 1" for t
    using assms(1) that by (force simp: campaign_ok_def)
  with assms done_ have "campaign_ok (c\<lparr>fc_status := FcCompleted\<rparr>)" if "fc_waves c \<le> w + 1"
    using that by (simp add: campaign_ok_def)
  moreover have "campaign_ok (c\<lparr>fc_current := w + 1\<rparr>)" if "\<not> fc_waves c \<le> w + 1"
    using assms that done_ by (auto simp: campaign_ok_def stage_def)
  ultimately show ?thesis using assms(5) by (auto simp: finish_wave_def Let_def)
qed

lemma started_ok: "campaign_ok c \<Longrightarrow> campaign_ok (start_campaign c)"
  by (auto simp: start_campaign_def campaign_ok_def stage_def)

lemma advance_wave_ok:
  assumes "store_ok s" "campaign_ok c" "fc_status c = FcRunning"
  shows "store_ok (fst (snd (advance_wave u cid c s x)))"
proof -
  let ?w = "fc_current c" and ?ds = "pending_devices (fc_current c) c"
  obtain r c1 s2 x2
    where rw: "run_wave u cid ?w ?ds c (audit cid (WaveStarted ?w (length ?ds)) s) x = (r, c1, s2, x2)"
    by (metis prod_cases4)
  from run_wave_ok[OF rw assms(2,3) refl distinct_pending[OF assms(2)]] assms(1)
  have post: "store_ok s2" "campaign_ok c1" "fc_current c1 = ?w"
    "r = Inr True \<Longrightarrow> fc_status c1 = FcRunning \<and> waiting ?w c1 = {}" by (auto simp: waiting_targets)
  have "store_ok (snd (finish_wave cid ?w c1 s2))" if "r = Inr True"
    using finish_wave_ok[OF post(2) _ post(3) _ post(1)] post(4)[OF that] by simp
  with rw post(1) show ?thesis by (auto simp: advance_wave_def Let_def split: sum.splits bool.splits prod.splits)
qed

lemma advance_ok: "store_ok s \<Longrightarrow> snd (advance updater cid s x) = (s', x') \<Longrightarrow> store_ok s'"
  unfolding prod_eq_iff by (auto simp: advance_def Let_def split: option.splits
      intro!: store_ok_put advance_wave_ok started_ok dest: store_okD)

subsection \<open>Runs\<close>

datatype 'w fw_op =
    FwCreate "string \<Rightarrow> string list" "string \<Rightarrow> (string \<times> string) list" string campaign_request
  | FwApprove string string
  | FwAdvance "'w updater option" string

fun fw_step :: "'w fw_op \<Rightarrow> fw_store \<times> 'w \<Rightarrow> fw_store \<times> 'w" where
  "fw_step (FwCreate doms inventory cid rq) (s, x) =
     ((case create_campaign doms inventory cid rq s of None \<Rightarrow> s | Some (r, s') \<Rightarrow> s'), x)"
| "fw_step (FwApprove cid actor) (s, x) = (snd (approve_campaign cid actor s), x)"
| "fw_step (FwAdvance updater cid) (s, x) = snd (advance updater cid s x)"

abbreviation empty_store :: fw_store where
  "empty_store \<equiv> \<lparr>fw_campaigns = [], fw_audit = []\<rparr>"

interpretation campaigns: inv_system fw_step "\<lambda>(s, x). store_ok s" "\<lambda>_. True"
proof
  fix sx :: "fw_store \<times> 'w" and a :: "'w fw_op"
  assume "case sx of (s, x) \<Rightarrow> store_ok s"
  then show "case fw_step a sx of (s, x) \<Rightarrow> store_ok s"
    by (cases sx; cases a)
      (auto simp: approve_ok split: option.splits prod.splits dest: create_ok advance_ok)
qed

lemma reachable_ok:
  assumes "(s, x) = fold fw_step ops (empty_store, x0)" shows "store_ok s"
  using campaigns.run_keeps_inv[of "(empty_store, x0)" ops] assms
  by (auto simp: store_ok_def list_all_iff split: prod.splits)

text \<open>C25: Waves run strictly in order and stop at the first failure. Whatever was created, approved and
advanced, with whatever updaters: before the approval no target of a campaign has been touched; a
target that has been touched has only completed targets in the waves before it; a failed or rolled back
target exists only in a halted campaign, and at most one; and a completed campaign has updated every
target.\<close>

theorem campaign_waves_in_order:
  assumes "(s, x) = fold fw_step ops (empty_store, x0)" and "dget (fw_campaigns s) cid = Some c"
    and "t \<in> set (fc_targets c)" and "t' \<in> set (fc_targets c)"
  shows "(fc_status c \<in> {FcDraft, FcApproved} \<longrightarrow> tg_status t = TgPending)
    \<and> (fc_status c = FcCompleted \<longrightarrow> tg_status t = TgCompleted)
    \<and> (tg_wave t < tg_wave t' \<and> tg_status t' \<noteq> TgPending \<longrightarrow> tg_status t = TgCompleted)
    \<and> (tg_status t \<in> {TgFailed, TgRolledBack} \<longrightarrow> fc_status c = FcHalted
         \<and> (tg_status t' \<in> {TgFailed, TgRolledBack} \<longrightarrow> t' = t))"
proof -
  have ok: "campaign_ok c" using reachable_ok[OF assms(1)] assms(2) by (rule store_okD)
  have same: "tg_device t = tg_device t' \<Longrightarrow> t' = t"
    using ok assms(3,4) by (auto simp: campaign_ok_def distinct_map inj_on_def)
  show ?thesis
  proof (cases "fc_status c")
    case FcHalted
    then obtain d where d: "\<And>t. t \<in> set (fc_targets c) \<Longrightarrow> if tg_device t = d
        then tg_wave t = fc_current c \<and> tg_status t \<in> {TgFailed, TgRolledBack} else stage (fc_current c) t"
      using ok by (auto simp: campaign_ok_def)
    have t: "stage (fc_current c) t" if "tg_device t \<noteq> d" using d[OF assms(3)] that by simp
    have t': "stage (fc_current c) t'" if "tg_device t' \<noteq> d" using d[OF assms(4)] that by simp
    have f: "tg_wave u = fc_current c \<and> tg_status u \<in> {TgFailed, TgRolledBack}"
      if "u \<in> set (fc_targets c)" "tg_device u = d" for u using d[OF that(1)] that(2) by simp
    have "tg_status t = TgCompleted" if "tg_wave t < tg_wave t'" "tg_status t' \<noteq> TgPending"
    proof (cases "tg_device t' = d")
      case True
      with f[OF assms(4)] that t f[OF assms(3)] show ?thesis by (auto simp: stage_def)
    next
      case False
      with t' have "tg_wave t' \<le> fc_current c" using that(2) by (auto simp: stage_def not_less[symmetric])
      with that(1) t f[OF assms(3)] show ?thesis by (auto simp: stage_def)
    qed
    moreover have "t' = t" if "tg_status t \<in> {TgFailed, TgRolledBack}" "tg_status t' \<in> {TgFailed, TgRolledBack}"
      using that t t' stage_not_failed same by metis
    ultimately show ?thesis using FcHalted by simp
  next
    case FcRunning
    then have "stage (fc_current c) t" "stage (fc_current c) t'" using ok assms(3,4) by (auto simp: campaign_ok_def)
    with FcRunning stage_order[OF this] stage_not_failed[OF this(1)] show ?thesis by auto
  qed (use ok assms(3,4) in \<open>auto simp: campaign_ok_def\<close>)
qed

definition bmc_request :: campaign_request where
  "bmc_request = \<lparr>rq_site = ''s1'', rq_devices = [''b'', ''a''], rq_component = ''bmc'', rq_version = ''2'',
     rq_vendor = [], rq_uri = [], rq_sha = [], rq_created_by = ''op'', rq_max_wave = 5\<rparr>"

definition failing_updater :: "unit updater" where
  "failing_updater = \<lparr>upd_device = (\<lambda>x d c. (Some \<lparr>ur_success = False, ur_post = [], ur_error = ''bad image''\<rparr>, x)),
     upd_rollback = (\<lambda>x d c. (Some True, x))\<rparr>"

definition good_updater :: "unit updater" where
  "good_updater = \<lparr>upd_device = (\<lambda>x d c. (Some \<lparr>ur_success = True, ur_post = ''2'', ur_error = []\<rparr>, x)),
     upd_rollback = (\<lambda>x d c. (None, x))\<rparr>"

definition bmc_campaign :: "campaign_status \<Rightarrow> string \<Rightarrow> campaign" where
  "bmc_campaign st by =
     \<lparr>fc_site = ''s1'', fc_component = ''bmc'', fc_version = ''2'', fc_vendor = [], fc_uri = [], fc_sha = [],
      fc_created_by = ''op'', fc_max_wave = 5, fc_status = st, fc_current = 0, fc_waves = 2,
      fc_approved_by = by, fc_reason = [],
      fc_targets = [\<lparr>tg_device = ''a'', tg_wave = 0, tg_status = TgPending, tg_pre = [], tg_post = [], tg_error = []\<rparr>,
        \<lparr>tg_device = ''b'', tg_wave = 1, tg_status = TgPending, tg_pre = [], tg_post = [], tg_error = []\<rparr>]\<rparr>"

abbreviation bmc_ops :: "unit fw_op list" where
  "bmc_ops \<equiv> [FwCreate (\<lambda>_. [''psu'']) (\<lambda>_. []) ''c1'' bmc_request, FwApprove ''c1'' ''op'']"

lemma bmc_approved: "dget (fw_campaigns (fst (fold fw_step bmc_ops (empty_store, ())))) ''c1'' = Some (bmc_campaign FcApproved ''op'')"
proof -
  have "sort [''b'', ''a''] = [''a'', ''b'']" by code_simp
  then have "plan_waves [''b'', ''a''] [(''b'', [''psu'']), (''a'', [''psu''])] 5 = Some [(''a'', 0), (''b'', 1)]"
    by (simp add: plan_waves_def find_wave.simps open_wave_def domains_of_def dget_or_def occupy_def)
  then have c: "create_campaign (\<lambda>_. [''psu'']) (\<lambda>_. []) ''c1'' bmc_request empty_store =
      Some (Inr ''c1'', audit ''c1'' (CampaignCreated ''op'' ''bmc'' ''2'' 2 2)
        (put_campaign ''c1'' (bmc_campaign FcDraft []) empty_store))"
    by (simp add: create_campaign_def bmc_request_def new_targets_def pre_version_def bmc_campaign_def numeral_2_eq_2)
  show ?thesis by (simp add: c approve_campaign_def) (simp add: bmc_campaign_def)
qed

theorem campaign_waves_in_order_witness:
  "\<exists>c. dget (fw_campaigns (fst (fold fw_step bmc_ops (empty_store, ())))) ''c1'' = Some c
     \<and> tg_status (fc_targets c ! 0) = TgPending"
proof -
  have "(fst (fold fw_step bmc_ops (empty_store, ())), ()) = fold fw_step bmc_ops (empty_store, ())"
    by (simp add: prod_eq_iff)
  from campaign_waves_in_order[OF this bmc_approved, of "fc_targets (bmc_campaign FcApproved ''op'') ! 0"
      "fc_targets (bmc_campaign FcApproved ''op'') ! 0"] bmc_approved
  show ?thesis by (simp add: bmc_campaign_def)
qed

text \<open>A campaign that is not approved, or that was halted or completed, touches no device: whatever the
updater, advancing it leaves the stored campaigns and the world as they are.\<close>

theorem stopped_campaign_touches_nothing:
  assumes "dget (fw_campaigns s) cid = Some c" and "fc_status c \<notin> {FcApproved, FcRunning}"
  shows "snd (advance updater cid s x) = (s, x)"
  using assms by (auto simp: advance_def start_campaign_def Let_def split: option.splits)

theorem stopped_campaign_touches_nothing_witness:
  "snd (advance (Some failing_updater) ''c1'' (put_campaign ''c1'' (bmc_campaign FcHalted ''op'') empty_store) ())
     = (put_campaign ''c1'' (bmc_campaign FcHalted ''op'') empty_store, ())"
  by (rule stopped_campaign_touches_nothing[where c = "bmc_campaign FcHalted ''op''"]) (simp_all add: bmc_campaign_def)

subsection \<open>Progress\<close>

abbreviation always_updates :: "'w updater \<Rightarrow> bool" where
  "always_updates u \<equiv> \<forall>x d c. \<exists>r x'. upd_device u x d c = (Some r, x') \<and> ur_success r"

lemma run_wave_store:
  "run_wave u cid w ds c s x = (r, c', s', x') \<Longrightarrow> dget (fw_campaigns s) cid = Some c
     \<Longrightarrow> dget (fw_campaigns s') cid = Some c'"
  by (induction u cid w ds c s x rule: run_wave.induct)
    (auto simp: Let_def split: prod.splits option.splits if_splits)

lemma run_wave_total: "always_updates u \<Longrightarrow> fst (run_wave u cid w ds c s x) = Inr True"
proof (induction u cid w ds c s x rule: run_wave.induct)
  case (2 u cid w d ds c s x)
  obtain r x' where r: "upd_device u x d c = (Some r, x')" "ur_success r" using 2(2) by blast
  from 2(1)[OF r(1)[symmetric] refl r(2) refl 2(2)] r show ?case by (simp add: Let_def)
qed simp

lemma advance_progress:
  assumes ok: "store_ok s" and c: "dget (fw_campaigns s) cid = Some c" and st: "fc_status c \<in> {FcApproved, FcRunning}"
    and u: "always_updates u"
  shows "\<exists>c'. dget (fw_campaigns (fst (snd (advance (Some u) cid s x)))) cid = Some c' \<and> fc_waves c' = fc_waves c
    \<and> (if fc_waves c \<le> fc_current c + 1 then fc_status c' = FcCompleted
       else fc_status c' = FcRunning \<and> fc_current c' = fc_current c + 1)"
proof -
  let ?c = "start_campaign c" and ?s = "if fc_status c = FcApproved then put_campaign cid (start_campaign c) s else s"
  let ?w = "fc_current c" and ?ds = "pending_devices (fc_current c) (start_campaign c)"
  have c0: "campaign_ok ?c" "fc_status ?c = FcRunning" "fc_current ?c = ?w" "fc_waves ?c = fc_waves c"
    using started_ok[OF store_okD[OF ok c]] st by (auto simp: start_campaign_def)
  have s0: "store_ok ?s" "dget (fw_campaigns ?s) cid = Some ?c"
    using ok c st c0(1) by (auto simp: start_campaign_def split: if_splits)
  obtain r c1 s2 x2
    where rw: "run_wave u cid ?w ?ds ?c (audit cid (WaveStarted ?w (length ?ds)) ?s) x = (r, c1, s2, x2)"
    by (metis prod_cases4)
  have r: "r = Inr True" using run_wave_total[OF u, of cid ?w ?ds ?c] rw by (metis fst_conv)
  from run_wave_ok[OF rw c0(1,2) c0(3)[symmetric] distinct_pending[OF c0(1)]] s0 r c0
  have post: "fc_current c1 = ?w" "fc_waves c1 = fc_waves c" "fc_status c1 = FcRunning"
    by (auto simp: waiting_targets)
  have "advance (Some u) cid s x = advance_wave u cid ?c ?s x"
    using c c0(2) by (simp add: advance_def Let_def)
  then show ?thesis using rw r c0(3) post by (auto simp: advance_wave_def finish_wave_def Let_def split: prod.splits)
qed

lemma campaign_finishes:
  assumes "n = fc_waves c - fc_current c" and "store_ok s" and "dget (fw_campaigns s) cid = Some c"
    and "fc_status c \<in> {FcApproved, FcRunning}" and "always_updates u"
  shows "\<exists>c'. dget (fw_campaigns (fst ((fw_step (FwAdvance (Some u) cid) ^^ n) (s, x)))) cid = Some c'
    \<and> fc_status c' = FcCompleted \<and> campaign_ok c'"
  using assms
proof (induction n arbitrary: s x c)
  case 0
  then show ?case using store_okD[of s cid c] by (simp add: campaign_ok_def)
next
  case (Suc n)
  obtain s1 x1 where a: "snd (advance (Some u) cid s x) = (s1, x1)" by fastforce
  have ok: "store_ok s1" using advance_ok[OF Suc.prems(2) a] .
  obtain c' where c': "dget (fw_campaigns s1) cid = Some c'" "fc_waves c' = fc_waves c"
    "if fc_waves c \<le> fc_current c + 1 then fc_status c' = FcCompleted
       else fc_status c' = FcRunning \<and> fc_current c' = fc_current c + 1"
    using advance_progress[OF Suc.prems(2-5), of x] a by auto
  show ?case
  proof (cases "fc_waves c \<le> fc_current c + 1")
    case True
    then have "n = 0" using Suc.prems(1) by simp
    with True c' a ok show ?thesis by (auto dest: store_okD)
  next
    case False
    then have "n = fc_waves c' - fc_current c'" "fc_status c' \<in> {FcApproved, FcRunning}"
      using c' Suc.prems(1) by auto
    from Suc.IH[OF this(1) ok c'(1) this(2) Suc.prems(5), of x1] a show ?thesis
      by (simp del: funpow.simps add: funpow_Suc_right)
  qed
qed

text \<open>C28: A campaign completes. Once it is approved, with an updater that succeeds on every device, as many
calls of \<open>advance\<close> as it has waves complete the campaign and every target in it.\<close>

theorem approved_campaign_completes:
  assumes "(s, x) = fold fw_step ops (empty_store, x0)" and "dget (fw_campaigns s) cid = Some c"
    and "fc_status c = FcApproved" and "\<And>y d c'. \<exists>r y'. upd_device u y d c' = (Some r, y') \<and> ur_success r"
  shows "\<exists>c'. dget (fw_campaigns (fst ((fw_step (FwAdvance (Some u) cid) ^^ fc_waves c) (s, x)))) cid = Some c'
    \<and> fc_status c' = FcCompleted \<and> list_all (\<lambda>t. tg_status t = TgCompleted) (fc_targets c')"
proof -
  have ok: "store_ok s" using reachable_ok[OF assms(1)] .
  then have "fc_waves c = fc_waves c - fc_current c"
    using assms(2,3) store_okD[of s cid c] by (simp add: campaign_ok_def)
  from campaign_finishes[OF this ok assms(2), of u x] assms(3,4) show ?thesis
    by (auto simp: campaign_ok_def list_all_iff)
qed

theorem approved_campaign_completes_witness:
  "\<exists>c'. dget (fw_campaigns (fst ((fw_step (FwAdvance (Some good_updater) ''c1'') ^^ 2)
      (fold fw_step bmc_ops (empty_store, ()))))) ''c1'' = Some c' \<and> fc_status c' = FcCompleted"
proof -
  let ?s = "fold fw_step bmc_ops (empty_store, ())"
  have s: "(fst ?s, snd ?s) = ?s" by simp
  have u: "\<exists>r y'. upd_device good_updater y d c' = (Some r, y') \<and> ur_success r" for y d c'
    by (simp add: good_updater_def)
  have "fc_status (bmc_campaign FcApproved ''op'') = FcApproved" "fc_waves (bmc_campaign FcApproved ''op'') = 2"
    by (simp_all add: bmc_campaign_def)
  with approved_campaign_completes[OF s bmc_approved _ u] show ?thesis
    by (metis prod.collapse)
qed

end
