(* ===== verification/Stop_Switch.thy ===== *)
theory Stop_Switch
  imports Prelude
begin

text \<open>
  The halts of the site manager and the governed execution decision
  (\<open>src/services/site_manager/src/harkeniq_sm/stopswitch.py\<close>). The persisted rows are a list in the
  order the database returns them; clock columns are left out. A decision input is \<open>True\<close>, \<open>None\<close>,
  \<open>False\<close> or any other value, of which the decision only uses the text.
\<close>

subsection \<open>Rows and the halt state of a site\<close>

definition scope_tenant :: string where "scope_tenant = ''tenant''"
definition scope_site :: string where "scope_site = ''site''"
definition scope_site_manager :: string where "scope_site_manager = ''site_manager''"

definition scopes :: "string list" where
  "scopes = [scope_tenant, scope_site, scope_site_manager]"

record stop_row =
  sw_scope :: string
  sw_site :: "string option"
  sw_active :: bool
  sw_reason :: string
  sw_activated_by :: string
  sw_deactivated_by :: string

record halt_state =
  hs_site_id :: string
  tenant_halted :: bool
  tenant_halted_by :: string
  tenant_reason :: string
  site_halted :: bool
  site_halted_by :: string
  site_reason :: string
  manager_halted :: bool
  manager_halted_by :: string
  manager_reason :: string

definition halted :: "halt_state \<Rightarrow> bool" where
  "halted h \<longleftrightarrow> tenant_halted h \<or> site_halted h \<or> manager_halted h"

definition with_reason :: "string \<Rightarrow> string \<Rightarrow> string" where
  "with_reason msg why = msg @ (if why = [] then [] else '': '' @ why)"

definition halt_text :: "halt_state \<Rightarrow> string" where
  "halt_text h =
     (if tenant_halted h then with_reason ''the tenant stop switch is active'' (tenant_reason h)
      else if manager_halted h then with_reason ''Site Manager emergency halt is active'' (manager_reason h)
      else if site_halted h then with_reason ''this site is stopped'' (site_reason h)
      else [])"

definition row_text :: "(stop_row \<Rightarrow> string) \<Rightarrow> stop_row option \<Rightarrow> string" where
  "row_text f r = (case r of None \<Rightarrow> [] | Some row \<Rightarrow> f row)"

definition halt_state_of :: "string \<Rightarrow> stop_row list \<Rightarrow> halt_state" where
  "halt_state_of site rows =
     (let site_row = find (\<lambda>r. sw_scope r = scope_site \<and> sw_site r = Some site \<and> sw_active r) rows;
          manager_row = find (\<lambda>r. sw_scope r = scope_site_manager \<and> sw_active r) rows;
          tenant_row = find (\<lambda>r. sw_scope r = scope_tenant \<and> sw_active r) rows
      in \<lparr>hs_site_id = site,
          tenant_halted = tenant_row \<noteq> None, tenant_halted_by = row_text sw_activated_by tenant_row,
          tenant_reason = row_text sw_reason tenant_row,
          site_halted = site_row \<noteq> None, site_halted_by = row_text sw_activated_by site_row,
          site_reason = row_text sw_reason site_row,
          manager_halted = manager_row \<noteq> None, manager_halted_by = row_text sw_activated_by manager_row,
          manager_reason = row_text sw_reason manager_row\<rparr>)"

subsection \<open>Setting a halt\<close>

datatype halt_error = UnknownScope string | SiteMissing | NotSiteScoped string

text \<open>The row of a scope and site, or a new one at the end.\<close>

fun upsert_row :: "string \<Rightarrow> string option \<Rightarrow> (stop_row \<Rightarrow> stop_row) \<Rightarrow> stop_row list \<Rightarrow> stop_row list" where
  "upsert_row sc site f [] =
     [f \<lparr>sw_scope = sc, sw_site = site, sw_active = False, sw_reason = [], sw_activated_by = [],
         sw_deactivated_by = []\<rparr>]"
| "upsert_row sc site f (r # rows) =
     (if sw_scope r = sc \<and> sw_site r = site then f r # rows else r # upsert_row sc site f rows)"

definition mark_row :: "bool \<Rightarrow> string \<Rightarrow> string \<Rightarrow> stop_row \<Rightarrow> stop_row" where
  "mark_row active actor why r =
     (let r' = r\<lparr>sw_active := active, sw_reason := why\<rparr> in
      if active then r'\<lparr>sw_activated_by := actor\<rparr> else r'\<lparr>sw_deactivated_by := actor\<rparr>)"

definition no_site :: "string option \<Rightarrow> bool" where
  "no_site site \<longleftrightarrow> site = None \<or> site = Some []"

definition set_halt ::
  "string \<Rightarrow> string option \<Rightarrow> bool \<Rightarrow> string \<Rightarrow> string \<Rightarrow> stop_row list \<Rightarrow> (halt_error + unit) \<times> stop_row list" where
  "set_halt sc site active actor why rows =
     (if sc \<notin> set scopes then (Inl (UnknownScope sc), rows)
      else if sc = scope_site \<and> no_site site then (Inl SiteMissing, rows)
      else if sc \<in> {scope_site_manager, scope_tenant} \<and> \<not> no_site site then (Inl (NotSiteScoped sc), rows)
      else (Inr (), upsert_row sc site (mark_row active actor why) rows))"

subsection \<open>The execution decision\<close>

definition decision_inputs :: "string list" where
  "decision_inputs = [''tenant_stop'', ''site_stop'', ''manager_halt'', ''agent_scope'', ''permission'',
     ''capability'', ''autonomy'', ''lease'', ''preconditions'', ''blast_radius'']"

definition cc_inputs :: "string list" where
  "cc_inputs = [''permission'']"

definition sm_dispatch_inputs :: "string list" where
  "sm_dispatch_inputs = [''tenant_stop'', ''site_stop'', ''manager_halt'', ''agent_scope'', ''capability'', ''autonomy'']"

definition node_inputs :: "string list" where
  "node_inputs = [''lease'', ''preconditions'', ''blast_radius'']"

datatype input_verdict = VTrue | VNone | VFalse | VText string

datatype refusal_reason = NeverEvaluated | PlainRefusal | RefusalText string

record execution_decision =
  ed_permitted :: bool
  ed_refused_by :: string
  ed_reason :: "refusal_reason option"

abbreviation refused :: "string \<Rightarrow> refusal_reason \<Rightarrow> execution_decision" where
  "refused name why \<equiv> \<lparr>ed_permitted = False, ed_refused_by = name, ed_reason = Some why\<rparr>"

fun execution_permitted :: "string list \<Rightarrow> (string, input_verdict) dict \<Rightarrow> execution_decision" where
  "execution_permitted [] inputs = \<lparr>ed_permitted = True, ed_refused_by = [], ed_reason = None\<rparr>"
| "execution_permitted (name # required) inputs =
     (case dget inputs name of
        None \<Rightarrow> refused name NeverEvaluated
      | Some VTrue \<Rightarrow> execution_permitted required inputs
      | Some VNone \<Rightarrow> execution_permitted required inputs
      | Some VFalse \<Rightarrow> refused name PlainRefusal
      | Some (VText t) \<Rightarrow> refused name (RefusalText t))"

text \<open>\<open>StopSwitchService.decision_inputs\<close>.\<close>

definition halt_inputs :: "string \<Rightarrow> stop_row list \<Rightarrow> (string, input_verdict) dict" where
  "halt_inputs site rows =
     (let h = halt_state_of site rows; verdict = (\<lambda>b. if b then VText (halt_text h) else VTrue) in
      [(''tenant_stop'', verdict (tenant_halted h)), (''site_stop'', verdict (site_halted h)),
       (''manager_halt'', verdict (manager_halted h))])"

text \<open>
  The site manager's stage of a dispatched action (\<open>grpc_server.py\<close>): \<open>halt\<close> is the halt state
  of the device's site when the switch service is configured and the device has a site, \<open>flag\<close> the
  in-memory stop switch of the autonomy enforcer, \<open>dropped\<close> the action types whose autonomy the error
  budget withdrew at the site (asked only when an enforcer exists), \<open>implemented\<close> and \<open>effective\<close> what the
  device declares.
\<close>

definition dispatch_decision ::
  "halt_state option \<Rightarrow> bool option \<Rightarrow> string \<Rightarrow> string list \<Rightarrow> string list option \<Rightarrow> string list option \<Rightarrow> string
     \<Rightarrow> execution_decision" where
  "dispatch_decision halt flag authorization dropped implemented effective act =
     (let site_stop = (case halt of Some h \<Rightarrow> if halted h then VText (halt_text h) else VTrue | None \<Rightarrow> VTrue);
          manager_halt = (if flag = Some True then VText ''a stop switch is active'' else VTrue);
          autonomy = (if flag \<noteq> None \<and> authorization = ''autonomous_grant'' \<and> act \<in> set dropped
            then VText (''autonomy for '' @ act @
              '' was withdrawn by the error budget; a human decision is required'') else VTrue);
          capability = (case implemented of None \<Rightarrow> VTrue
            | Some impl \<Rightarrow> if act \<in> set impl then VTrue
                else VText (act @ (if act \<notin> set (case effective of None \<Rightarrow> [] | Some e \<Rightarrow> e)
                  then '' is not implemented by this device's protocol'' else '' is not available on this device'')))
      in execution_permitted sm_dispatch_inputs
           [(''tenant_stop'', VTrue), (''site_stop'', site_stop), (''manager_halt'', manager_halt),
            (''agent_scope'', VTrue), (''capability'', capability), (''autonomy'', autonomy)])"

subsection \<open>What the decision needs\<close>

definition consents :: "(string, input_verdict) dict \<Rightarrow> string \<Rightarrow> bool" where
  "consents inputs name \<longleftrightarrow> dget inputs name \<in> {Some VTrue, Some VNone}"

lemma permitted_iff: "ed_permitted (execution_permitted required inputs) \<longleftrightarrow> list_all (consents inputs) required"
  by (induction required) (auto simp: consents_def split: option.splits input_verdict.splits)

text \<open>Every governing input has to be asked and to consent. A stage permits an execution exactly when
each input it owns was supplied as \<open>True\<close> or \<open>None\<close>, a refusal names the first input that did not
consent, and the three stages together permit exactly what the whole chain of ten inputs permits.\<close>

theorem every_input_must_consent:
  "(ed_permitted (execution_permitted required inputs)
      \<longleftrightarrow> list_all (\<lambda>name. dget inputs name \<in> {Some VTrue, Some VNone}) required)
   \<and> ed_refused_by (execution_permitted required inputs)
      = (case find (\<lambda>name. dget inputs name \<notin> {Some VTrue, Some VNone}) required of None \<Rightarrow> [] | Some name \<Rightarrow> name)
   \<and> (ed_permitted (execution_permitted decision_inputs inputs)
      \<longleftrightarrow> list_all (\<lambda>stage. ed_permitted (execution_permitted stage inputs)) [cc_inputs, sm_dispatch_inputs, node_inputs])"
proof (intro conjI)
  show "ed_permitted (execution_permitted required inputs)
      \<longleftrightarrow> list_all (\<lambda>name. dget inputs name \<in> {Some VTrue, Some VNone}) required"
    by (simp add: permitted_iff consents_def list_all_iff)
  show "ed_refused_by (execution_permitted required inputs)
      = (case find (\<lambda>name. dget inputs name \<notin> {Some VTrue, Some VNone}) required of None \<Rightarrow> [] | Some name \<Rightarrow> name)"
    by (induction required) (auto split: option.splits input_verdict.splits)
  show "ed_permitted (execution_permitted decision_inputs inputs)
      \<longleftrightarrow> list_all (\<lambda>stage. ed_permitted (execution_permitted stage inputs)) [cc_inputs, sm_dispatch_inputs, node_inputs]"
    by (auto simp del: execution_permitted.simps simp: permitted_iff decision_inputs_def cc_inputs_def sm_dispatch_inputs_def node_inputs_def)
qed

subsection \<open>The rows follow the commands\<close>

text \<open>The specification: which halts are in force is a set of keys that commands add to and remove from.\<close>

type_synonym halt_key = "string \<times> string option"

definition legal_key :: "halt_key \<Rightarrow> bool" where
  "legal_key k \<longleftrightarrow> fst k = scope_site \<and> \<not> no_site (snd k) \<or> fst k \<in> {scope_tenant, scope_site_manager} \<and> no_site (snd k)"

datatype halt_command = HaltCommand string "string option" bool string string

fun run_command :: "halt_command \<Rightarrow> stop_row list \<Rightarrow> stop_row list" where
  "run_command (HaltCommand sc site active actor why) rows = snd (set_halt sc site active actor why rows)"

fun spec_command :: "halt_command \<Rightarrow> halt_key set \<Rightarrow> halt_key set" where
  "spec_command (HaltCommand sc site active actor why) ks =
     (if legal_key (sc, site) then if active then insert (sc, site) ks else ks - {(sc, site)} else ks)"

definition in_force :: "stop_row list \<Rightarrow> halt_key set" where
  "in_force rows = {(sw_scope r, sw_site r) | r. r \<in> set rows \<and> sw_active r}"

definition rows_ok :: "stop_row list \<Rightarrow> bool" where
  "rows_ok rows \<longleftrightarrow> distinct (map (\<lambda>r. (sw_scope r, sw_site r)) rows)"

lemma scopes_distinct [simp]:
  "scope_tenant \<noteq> scope_site" "scope_site \<noteq> scope_tenant" "scope_site_manager \<noteq> scope_site"
  "scope_site \<noteq> scope_site_manager" "scope_tenant \<noteq> scope_site_manager" "scope_site_manager \<noteq> scope_tenant"
  by (simp_all add: scope_tenant_def scope_site_def scope_site_manager_def)

lemma mark_row_simps [simp]:
  "sw_scope (mark_row a actor why r) = sw_scope r" "sw_site (mark_row a actor why r) = sw_site r"
  "sw_active (mark_row a actor why r) = a"
  by (simp_all add: mark_row_def Let_def)

lemma set_halt_rows:
  "snd (set_halt sc site a actor why rows)
     = (if legal_key (sc, site) then upsert_row sc site (mark_row a actor why) rows else rows)"
  by (auto simp: set_halt_def legal_key_def scopes_def)

lemma upsert_keys:
  "set (map (\<lambda>r. (sw_scope r, sw_site r)) (upsert_row sc site (mark_row a actor why) rows))
     = insert (sc, site) (set (map (\<lambda>r. (sw_scope r, sw_site r)) rows))"
  by (induction rows) auto

lemma rows_ok_upsert: "rows_ok rows \<Longrightarrow> rows_ok (upsert_row sc site (mark_row a actor why) rows)"
proof (induction rows)
  case (Cons r rows)
  then show ?case using upsert_keys[of sc site a actor why rows] by (auto simp: rows_ok_def)
qed (simp add: rows_ok_def)

lemma in_force_Cons:
  "in_force (r # rows) = (if sw_active r then insert (sw_scope r, sw_site r) (in_force rows) else in_force rows)"
  by (auto simp: in_force_def)

lemma in_force_keys: "in_force rows \<subseteq> set (map (\<lambda>r. (sw_scope r, sw_site r)) rows)"
  by (auto simp: in_force_def)

lemma in_force_upsert:
  "rows_ok rows \<Longrightarrow> in_force (upsert_row sc site (mark_row a actor why) rows)
     = (if a then insert (sc, site) (in_force rows) else in_force rows - {(sc, site)})"
proof (induction rows)
  case Nil
  then show ?case by (auto simp: in_force_def)
next
  case (Cons r rows)
  then have "rows_ok rows" "(sw_scope r, sw_site r) \<notin> in_force rows"
    using in_force_keys[of rows] by (auto simp: rows_ok_def)
  with Cons.IH show ?case by (auto simp: in_force_Cons)
qed

text \<open>The rows simulate the specification.\<close>

interpretation halt_rows: inv_system run_command rows_ok "\<lambda>_. True"
proof
  show "rows_ok rows \<Longrightarrow> rows_ok (run_command c rows)" for rows c
    by (cases c) (simp add: set_halt_rows rows_ok_upsert)
qed

lemma command_refines: "rows_ok rows \<Longrightarrow> in_force (run_command c rows) = spec_command c (in_force rows)"
  by (cases c) (auto simp: set_halt_rows in_force_upsert)

lemma commands_refine: "rows_ok rows \<Longrightarrow> in_force (fold run_command cs rows) = fold spec_command cs (in_force rows)"
proof (induction cs arbitrary: rows)
  case (Cons c cs)
  from halt_rows.op_keeps_inv[OF Cons.prems TrueI] command_refines[OF Cons.prems] show ?case
    by (simp add: Cons.IH)
qed simp

lemma find_found: "find P xs \<noteq> None \<longleftrightarrow> (\<exists>x \<in> set xs. P x)"
  by (induction xs) auto

lemma halted_in_force:
  "halted (halt_state_of site rows) \<longleftrightarrow>
     (\<exists>k \<in> in_force rows. fst k \<in> {scope_tenant, scope_site_manager} \<or> k = (scope_site, Some site))"
proof -
  have "halted (halt_state_of site rows) \<longleftrightarrow>
     (\<exists>r \<in> set rows. sw_active r \<and> (sw_scope r \<in> {scope_tenant, scope_site_manager}
        \<or> sw_scope r = scope_site \<and> sw_site r = Some site))"
    by (simp add: halted_def halt_state_of_def Let_def find_found del: not_None_eq) blast
  then show ?thesis by (auto simp: in_force_def)
qed

lemma find_upsert:
  assumes "\<And>r. sw_scope r = sc \<Longrightarrow> sw_site r = site \<Longrightarrow> \<not> P r"
    and "\<And>r. sw_scope (f r) = sw_scope r" "\<And>r. sw_site (f r) = sw_site r"
  shows "find P (upsert_row sc site f rows) = find P rows"
  by (induction rows) (use assms in auto)

text \<open>C33: The persisted rows implement the set of halts in force. After any sequence of commands, rejected
ones included, a site is halted exactly when a tenant or site manager halt, or its own site halt, was
activated and not lifted since.\<close>

theorem halts_follow_commands:
  "in_force (fold run_command cs []) = fold spec_command cs {}
   \<and> (halted (halt_state_of site (fold run_command cs []))
      \<longleftrightarrow> (\<exists>k \<in> fold spec_command cs {}. fst k \<in> {scope_tenant, scope_site_manager} \<or> k = (scope_site, Some site)))"
proof -
  have "in_force (fold run_command cs []) = fold spec_command cs {}"
    using commands_refine[of "[]" cs] by (simp add: rows_ok_def in_force_def)
  then show ?thesis by (simp only: halted_in_force simp_thms)
qed

text \<open>A site's halt is the site's. Setting or lifting a halt at one site changes nothing of the halt
state of another site.\<close>

theorem site_halt_stays_local:
  assumes "a \<noteq> b"
  shows "halt_state_of b (snd (set_halt scope_site (Some a) active actor why rows)) = halt_state_of b rows"
proof -
  have "find P (upsert_row scope_site (Some a) (mark_row active actor why) rows) = find P rows"
    if "\<And>r. sw_scope r = scope_site \<Longrightarrow> sw_site r = Some a \<Longrightarrow> \<not> P r" for P
    using that by (rule find_upsert) simp_all
  with assms show ?thesis by (simp add: set_halt_rows halt_state_of_def)
qed

theorem site_halt_stays_local_witness:
  "\<not> halted (halt_state_of ''b'' (snd (set_halt scope_site (Some ''a'') True ''op'' ''fire'' [])))"
  using site_halt_stays_local[of "''a''" "''b''" True "''op''" "''fire''" "[]"]
  by (simp add: halt_state_of_def halted_def)

text \<open>What the site manager dispatches. An action leaves the site manager exactly when no halt is in
force for the device's site, the process-wide switch is off, the device does not declare that it lacks
the action, and, for an autonomous grant, the error budget of the site has not withdrawn it.\<close>

theorem dispatch_needs_running_site:
  "ed_permitted (dispatch_decision halt flag authorization dropped implemented effective act)
      \<longleftrightarrow> (case halt of None \<Rightarrow> True | Some h \<Rightarrow> \<not> halted h) \<and> flag \<noteq> Some True
        \<and> (case implemented of None \<Rightarrow> True | Some impl \<Rightarrow> act \<in> set impl)
        \<and> \<not> (flag \<noteq> None \<and> authorization = ''autonomous_grant'' \<and> act \<in> set dropped)"
  by (auto simp del: execution_permitted.simps simp: dispatch_decision_def Let_def permitted_iff consents_def
      sm_dispatch_inputs_def split: option.splits)

end
