(* ===== verification/Suppression.thy ===== *)
theory Suppression
  imports Prelude
begin

text \<open>
  Correlated-conclusion suppression in the site manager
  (\<open>src/services/site_manager/src/harkeniq_sm/suppression.py\<close>). The clock reading of a call is an
  argument. The evidence texts are kept as their parts: device, severity and time of each event.
\<close>

subsection \<open>Policies, events and the engine\<close>

definition stability_period :: time where "stability_period = 600"
definition hair_trigger_window :: time where "hair_trigger_window = 3600"

record suppression_policy =
  sp_family :: string
  sp_kind :: string
  sp_direct :: bool
  sp_threshold :: int
  sp_window :: time

abbreviation policy :: "string \<Rightarrow> string \<Rightarrow> bool \<Rightarrow> int \<Rightarrow> time \<Rightarrow> suppression_policy" where
  "policy f k d n w \<equiv> \<lparr>sp_family = f, sp_kind = k, sp_direct = d, sp_threshold = n, sp_window = w\<rparr>"

definition default_policies :: "suppression_policy list" where
  "default_policies =
     [policy ''power'' ''power'' True 2 30, policy ''thermal'' ''cooling'' True 3 60,
      policy ''connectivity'' ''network'' True 3 15, policy ''component'' ''*'' False 5 300]"

record correlation_event =
  ce_device :: string
  ce_domain :: string
  ce_kind :: string
  ce_family :: string
  ce_severity :: string
  ce_time :: time

record suppression_state =
  ss_domain :: string
  ss_kind :: string
  ss_family :: string
  ss_triggered :: time
  ss_reason :: string
  ss_count :: nat
  ss_evidence :: "(string \<times> string \<times> time) list"
  ss_all_clear :: "time option"

record suppression_engine =
  se_policies :: "(string \<times> string, suppression_policy) dict"
  se_active :: "(string, suppression_state) dict"
  se_recent :: "(string \<times> string, correlation_event list) dict"
  se_hair :: "(string, time) dict"

definition init_suppression_engine :: "suppression_policy list \<Rightarrow> suppression_engine" where
  "init_suppression_engine ps =
     \<lparr>se_policies = fold (\<lambda>p. dset (sp_family p, sp_kind p) p) (if ps = [] then default_policies else ps) [],
      se_active = [], se_recent = [], se_hair = []\<rparr>"

definition find_policy :: "string \<Rightarrow> string \<Rightarrow> suppression_engine \<Rightarrow> suppression_policy option" where
  "find_policy family kind en =
     (case dget (se_policies en) (family, kind) of
        Some p \<Rightarrow> Some p
      | None \<Rightarrow> dget (se_policies en) (family, ''*''))"

definition trigger :: "correlation_event \<Rightarrow> string \<Rightarrow> nat \<Rightarrow> (string \<times> string \<times> time) list \<Rightarrow> time
    \<Rightarrow> suppression_engine \<Rightarrow> suppression_state \<times> suppression_engine" where
  "trigger e reason n evidence now en =
     (let st = \<lparr>ss_domain = ce_domain e, ss_kind = ce_kind e, ss_family = ce_family e, ss_triggered = now,
        ss_reason = reason, ss_count = n, ss_evidence = evidence, ss_all_clear = None\<rparr>
      in (st, en\<lparr>se_active := dset (ce_domain e) st (se_active en)\<rparr>))"

definition trim_window :: "string \<times> string \<Rightarrow> time \<Rightarrow> time \<Rightarrow> suppression_engine \<Rightarrow> suppression_engine" where
  "trim_window key window now en =
     en\<lparr>se_recent := dset key (filter (\<lambda>e. now - window < ce_time e) (dget_or (se_recent en) key [])) (se_recent en)\<rparr>"

definition se_evaluate :: "correlation_event \<Rightarrow> time \<Rightarrow> suppression_engine
    \<Rightarrow> suppression_state option \<times> suppression_engine" where
  "se_evaluate e now en =
     (case dget (se_active en) (ce_domain e) of
        Some st \<Rightarrow> (Some st, en)
      | None \<Rightarrow>
          if (case dget (se_hair en) (ce_domain e) of None \<Rightarrow> False | Some t \<Rightarrow> t \<noteq> 0 \<and> now - t < hair_trigger_window)
          then map_prod Some id (trigger e ''hair_trigger_re-suppression'' 1 [] now en)
          else (case find_policy (ce_family e) (ce_kind e) en of
              None \<Rightarrow> (None, en)
            | Some p \<Rightarrow>
                (let key = (ce_domain e, ce_family e);
                     en1 = en\<lparr>se_recent := dset key (dget_or (se_recent en) key [] @ [e]) (se_recent en)\<rparr>;
                     en2 = trim_window key (sp_window p) now en1;
                     recent = dget_or (se_recent en2) key [];
                     n = length (remdups (map ce_device recent))
                 in if sp_threshold p \<le> int n
                    then map_prod Some id (trigger e
                           (if sp_direct p then ''direct_dependency'' else ''statistical_threshold'') n
                           (map (\<lambda>e. (ce_device e, ce_severity e, ce_time e)) recent) now en2)
                    else (None, en2))))"

definition suppressed_domains :: "suppression_engine \<Rightarrow> string list" where
  "suppressed_domains en = dkeys (se_active en)"

definition is_suppressed :: "string \<Rightarrow> suppression_engine \<Rightarrow> bool" where
  "is_suppressed d en = dhas (se_active en) d"

definition check_auto_recovery :: "string \<Rightarrow> bool \<Rightarrow> time \<Rightarrow> suppression_engine \<Rightarrow> bool \<times> suppression_engine" where
  "check_auto_recovery d healthy now en =
     (case dget (se_active en) d of
        None \<Rightarrow> (False, en)
      | Some st \<Rightarrow>
          if healthy then
            (case ss_all_clear st of
               None \<Rightarrow> (False, en\<lparr>se_active := dset d (st\<lparr>ss_all_clear := Some now\<rparr>) (se_active en)\<rparr>)
             | Some t \<Rightarrow>
                 if stability_period \<le> now - t
                 then (True, en\<lparr>se_hair := dset d now (se_hair en), se_active := ddel d (se_active en)\<rparr>)
                 else (False, en))
          else (False, en\<lparr>se_active := dset d (st\<lparr>ss_all_clear := None\<rparr>) (se_active en)\<rparr>))"

definition human_re_enable :: "string \<Rightarrow> suppression_engine \<Rightarrow> bool \<times> suppression_engine" where
  "human_re_enable d en =
     (case dget (se_active en) d of
        None \<Rightarrow> (False, en)
      | Some _ \<Rightarrow> (True, en\<lparr>se_active := ddel d (se_active en)\<rparr>))"

subsection \<open>Runs\<close>

datatype suppression_op = SuEvent correlation_event time | SuCheck string bool time | SuHuman string

fun su_step :: "suppression_op \<Rightarrow> suppression_engine \<Rightarrow> suppression_engine" where
  "su_step (SuEvent e now) en = snd (se_evaluate e now en)"
| "su_step (SuCheck d healthy now) en = snd (check_auto_recovery d healthy now en)"
| "su_step (SuHuman d) en = snd (human_re_enable d en)"

lemma policies_kept [simp]: "se_policies (su_step a en) = se_policies en"
  by (cases a) (auto simp: se_evaluate_def trigger_def trim_window_def check_auto_recovery_def human_re_enable_def
      Let_def map_prod_def split: option.splits prod.splits)

lemma evaluate_suppressed: "dget (se_active en) (ce_domain e) = Some st \<Longrightarrow> se_evaluate e now en = (Some st, en)"
  by (simp add: se_evaluate_def)

lemma evaluate_other:
  "d \<noteq> ce_domain e \<Longrightarrow> dget (se_active (snd (se_evaluate e now en))) d = dget (se_active en) d
     \<and> dget (se_recent (snd (se_evaluate e now en))) (d, f) = dget (se_recent en) (d, f)"
  by (auto simp: se_evaluate_def trigger_def trim_window_def Let_def map_prod_def split: option.splits)

lemma evaluate_other_family:
  "f \<noteq> ce_family e \<Longrightarrow> dget (se_recent (snd (se_evaluate e now en))) (d, f) = dget (se_recent en) (d, f)"
  by (auto simp: se_evaluate_def trigger_def trim_window_def Let_def map_prod_def split: option.splits)

lemma evaluate_hair [simp]: "se_hair (snd (se_evaluate e now en)) = se_hair en"
  by (auto simp: se_evaluate_def trigger_def trim_window_def Let_def map_prod_def split: option.splits)

subsection \<open>When a domain is suppressed\<close>

lemma evaluate_policies [simp]: "se_policies (snd (se_evaluate e t en)) = se_policies en"
  using policies_kept[of "SuEvent e t"] by simp

lemma active_step: "dget (se_active en) d = Some st \<Longrightarrow> dget (se_active (snd (se_evaluate e t en))) d = Some st"
  using evaluate_suppressed[of en e st t] evaluate_other[of d e t en] by (cases "ce_domain e = d") auto

lemma find_policy_cong: "se_policies en = se_policies en' \<Longrightarrow> find_policy f k en = find_policy f k en'"
  by (simp add: find_policy_def cong: option.case_cong)

abbreviation hair_set :: "string \<Rightarrow> time \<Rightarrow> suppression_engine \<Rightarrow> bool" where
  "hair_set d now en \<equiv> (case dget (se_hair en) d of None \<Rightarrow> False | Some t \<Rightarrow> t \<noteq> 0 \<and> now - t < hair_trigger_window)"

lemma evaluate_counts:
  assumes "\<not> is_suppressed (ce_domain e) en" "\<not> hair_set (ce_domain e) now en"
    and "find_policy (ce_family e) (ce_kind e) en = Some p"
    and "r = filter (\<lambda>x. now - sp_window p < ce_time x) (dget_or (se_recent en) (ce_domain e, ce_family e) [] @ [e])"
  shows "fst (se_evaluate e now en) \<noteq> None \<longleftrightarrow> sp_threshold p \<le> int (card (ce_device ` set r))"
    and "dget_or (se_recent (snd (se_evaluate e now en))) (ce_domain e, ce_family e) [] = r"
proof -
  have n: "length (remdups (map ce_device r)) = card (ce_device ` set r)"
    by (simp add: length_remdups_card_conv)
  have a: "dget (se_active en) (ce_domain e) = None" using assms(1) by (simp add: is_suppressed_def)
  show "fst (se_evaluate e now en) \<noteq> None \<longleftrightarrow> sp_threshold p \<le> int (card (ce_device ` set r))"
    "dget_or (se_recent (snd (se_evaluate e now en))) (ce_domain e, ce_family e) [] = r"
    unfolding se_evaluate_def a option.case if_not_P [OF assms(2)] assms(3)
    using assms(4) n
    by (simp_all add: trim_window_def trigger_def Let_def dict_simps dget_or_def[of "[]"] flip: n)
qed

text \<open>The engine after any operations, and what happened to a domain in them: a recovery by itself, and the events that
  were let in - while the domain was neither suppressed nor within the hair trigger of a recovery, and with a policy.\<close>

abbreviation su_run :: "suppression_policy list \<Rightarrow> suppression_op list \<Rightarrow> suppression_engine" where
  "su_run ps as \<equiv> fold su_step as (init_suppression_engine ps)"

definition recovered_at :: "suppression_policy list \<Rightarrow> suppression_op list \<Rightarrow> string \<Rightarrow> time \<Rightarrow> bool" where
  "recovered_at ps as d u \<longleftrightarrow> (\<exists>i < length as. as ! i = SuCheck d True u \<and> fst (check_auto_recovery d True u (su_run ps (take i as))))"

definition hair_triggered :: "suppression_policy list \<Rightarrow> suppression_op list \<Rightarrow> string \<Rightarrow> time \<Rightarrow> bool" where
  "hair_triggered ps as d now \<longleftrightarrow> (\<exists>u. recovered_at ps as d u \<and> now - u < hair_trigger_window)"

definition let_in :: "suppression_policy list \<Rightarrow> suppression_op list \<Rightarrow> string \<Rightarrow> string \<Rightarrow> correlation_event set" where
  "let_in ps as d f = {x. ce_domain x = d \<and> ce_family x = f \<and> (\<exists>i t. i < length as \<and> as ! i = SuEvent x t \<and>
     \<not> is_suppressed d (su_run ps (take i as)) \<and> \<not> hair_triggered ps (take i as) d t \<and>
     find_policy f (ce_kind x) (init_suppression_engine ps) \<noteq> None)}"

fun op_times :: "suppression_op \<Rightarrow> time list" where
  "op_times (SuEvent e t) = [t]"
| "op_times (SuCheck d h t) = [t]"
| "op_times (SuHuman d) = []"

abbreviation clocked :: "suppression_op list \<Rightarrow> time \<Rightarrow> bool" where
  "clocked as now \<equiv> sorted (concat (map op_times as) @ [now]) \<and> (\<forall>t \<in> set (concat (map op_times as)). 0 < t)"

lemma run_policies: "find_policy f k (su_run ps as) = find_policy f k (init_suppression_engine ps)"
proof (rule find_policy_cong)
  show "se_policies (su_run ps as) = se_policies (init_suppression_engine ps)"
    by (induction as rule: rev_induct) simp_all
qed

lemma ex_snoc: "(\<exists>i < length (as @ [a]). P ((as @ [a]) ! i) (take i (as @ [a]))) \<longleftrightarrow>
    (\<exists>i < length as. P (as ! i) (take i as)) \<or> P a as" (is "?l \<longleftrightarrow> ?r")
proof
  assume ?l
  then obtain i where i: "i < Suc (length as)" "P ((as @ [a]) ! i) (take i (as @ [a]))" by auto
  show ?r
  proof (cases "i = length as")
    case True
    then show ?thesis using i(2) by simp
  next
    case False
    then have "i < length as" using i(1) by simp
    then show ?thesis using i(2) by (auto simp: nth_append)
  qed
next
  assume ?r
  then show ?l
  proof
    assume "\<exists>i < length as. P (as ! i) (take i as)"
    then obtain i where "i < length as" "P (as ! i) (take i as)" by blast
    then show ?l by (intro exI [of _ i]) (simp add: nth_append)
  next
    assume "P a as"
    then show ?l by (intro exI [of _ "length as"]) simp
  qed
qed

lemma recovered_snoc: "recovered_at ps (as @ [a]) d u \<longleftrightarrow>
    recovered_at ps as d u \<or> a = SuCheck d True u \<and> fst (check_auto_recovery d True u (su_run ps as))"
  unfolding recovered_at_def by (rule ex_snoc [of as a "\<lambda>b bs. b = SuCheck d True u \<and> fst (check_auto_recovery d True u (su_run ps bs))"])

lemma let_in_snoc: "let_in ps (as @ [a]) d f = let_in ps as d f \<union>
    {x. ce_domain x = d \<and> ce_family x = f \<and> (\<exists>t. a = SuEvent x t \<and> \<not> is_suppressed d (su_run ps as) \<and> \<not> hair_triggered ps as d t) \<and>
       find_policy f (ce_kind x) (init_suppression_engine ps) \<noteq> None}"
proof -
  have "(\<exists>i t. i < length (as @ [a]) \<and> (as @ [a]) ! i = SuEvent x t \<and> \<not> is_suppressed d (su_run ps (take i (as @ [a]))) \<and>
      \<not> hair_triggered ps (take i (as @ [a])) d t \<and> find_policy f (ce_kind x) (init_suppression_engine ps) \<noteq> None) \<longleftrightarrow>
    (\<exists>i t. i < length as \<and> as ! i = SuEvent x t \<and> \<not> is_suppressed d (su_run ps (take i as)) \<and>
      \<not> hair_triggered ps (take i as) d t \<and> find_policy f (ce_kind x) (init_suppression_engine ps) \<noteq> None) \<or>
    (\<exists>t. a = SuEvent x t \<and> \<not> is_suppressed d (su_run ps as) \<and> \<not> hair_triggered ps as d t) \<and>
      find_policy f (ce_kind x) (init_suppression_engine ps) \<noteq> None" for x
    using ex_snoc [of as a "\<lambda>b bs. \<exists>t. b = SuEvent x t \<and> \<not> is_suppressed d (su_run ps bs) \<and>
      \<not> hair_triggered ps bs d t \<and> find_policy f (ce_kind x) (init_suppression_engine ps) \<noteq> None"] by blast
  then show ?thesis unfolding let_in_def by blast
qed

lemma clocked_snoc:
  assumes "clocked (as @ [a]) now"
  shows "\<forall>u \<in> set (op_times a). clocked as u \<and> 0 < u \<and> u \<le> now" "clocked as now"
  using assms by (cases a; auto simp: sorted_append)+

lemma check_keeps: "se_recent (snd (check_auto_recovery d h t en)) = se_recent en"
    "dget (se_hair (snd (check_auto_recovery d' h t en))) d =
       (if d' = d \<and> fst (check_auto_recovery d h t en) then Some t else dget (se_hair en) d)"
    "fst (check_auto_recovery d False t en) = False"
  by (auto simp: check_auto_recovery_def split: option.splits)

lemma human_keeps [simp]: "se_recent (snd (human_re_enable d en)) = se_recent en" "se_hair (snd (human_re_enable d en)) = se_hair en"
  by (auto simp: human_re_enable_def split: option.splits)

text \<open>The hair trigger remembers the last recovery.\<close>

lemma hair_run:
  assumes "clocked as now"
  shows "(dget (se_hair (su_run ps as)) d = None \<and> (\<forall>u. \<not> recovered_at ps as d u)) \<or>
    (\<exists>u. dget (se_hair (su_run ps as)) d = Some u \<and> 0 < u \<and> recovered_at ps as d u \<and> (\<forall>v. recovered_at ps as d v \<longrightarrow> v \<le> u))"
  using assms
proof (induction as arbitrary: now rule: rev_induct)
  case Nil
  then show ?case by (simp add: recovered_at_def init_suppression_engine_def)
next
  case (snoc a as)
  note IH = snoc.IH [OF clocked_snoc(2) [OF snoc.prems]]
  show ?case
  proof (cases "\<exists>u. a = SuCheck d True u \<and> fst (check_auto_recovery d True u (su_run ps as))")
    case True
    then obtain u where u: "a = SuCheck d True u" "fst (check_auto_recovery d True u (su_run ps as))" by blast
    have c: "clocked as u" "0 < u" using clocked_snoc(1) [OF snoc.prems] u(1) by auto
    have "v \<le> u" if "recovered_at ps as d v" for v
    proof -
      from that obtain i where i: "i < length as" "as ! i = SuCheck d True v" unfolding recovered_at_def by blast
      then have "SuCheck d True v \<in> set as" by (metis nth_mem)
      then have "v \<in> set (concat (map op_times as))" by force
      then show ?thesis using c(1) unfolding sorted_append by auto
    qed
    then show ?thesis using u c(2) by (auto simp: recovered_snoc check_keeps)
  next
    case False
    then have r: "recovered_at ps (as @ [a]) d v \<longleftrightarrow> recovered_at ps as d v" for v unfolding recovered_snoc by blast
    have "dget (se_hair (su_run ps (as @ [a]))) d = dget (se_hair (su_run ps as)) d"
    proof (cases a)
      case (SuCheck d' h t)
      then show ?thesis using False by (cases h) (auto simp: check_keeps)
    qed simp_all
    then show ?thesis unfolding r using IH by simp
  qed
qed

lemma hair_iff:
  assumes "clocked as now"
  shows "hair_set d now (su_run ps as) \<longleftrightarrow> hair_triggered ps as d now"
proof (cases "dget (se_hair (su_run ps as)) d")
  case None
  then show ?thesis using hair_run [OF assms, of ps d] by (auto simp: hair_triggered_def)
next
  case (Some u)
  then have u: "0 < u" "recovered_at ps as d u" "\<forall>v. recovered_at ps as d v \<longrightarrow> v \<le> u" using hair_run [OF assms, of ps d] by auto
  have "now - u < hair_trigger_window \<longleftrightarrow> hair_triggered ps as d now"
  proof
    assume "hair_triggered ps as d now"
    then obtain v where v: "recovered_at ps as d v" "now - v < hair_trigger_window" unfolding hair_triggered_def by blast
    then have "v \<le> u" using u(3) by blast
    then show "now - u < hair_trigger_window" using v(2) by simp
  qed (use u(2) in \<open>auto simp: hair_triggered_def\<close>)
  then show ?thesis using Some u(1) by simp
qed

text \<open>What is kept of a family is, within the window, what was let in.\<close>

lemma evaluate_kept:
  assumes "is_suppressed (ce_domain e) en \<or> hair_set (ce_domain e) now en \<or> find_policy (ce_family e) (ce_kind e) en = None"
  shows "se_recent (snd (se_evaluate e now en)) = se_recent en"
proof (cases "dget (se_active en) (ce_domain e)")
  case None
  then have "hair_set (ce_domain e) now en \<or> find_policy (ce_family e) (ce_kind e) en = None" using assms by (simp add: is_suppressed_def)
  then show ?thesis unfolding se_evaluate_def None option.case by (cases "hair_set (ce_domain e) now en") (simp_all add: trigger_def Let_def)
qed (simp add: evaluate_suppressed)

lemma recent_run:
  assumes "clocked as now"
    and "\<And>x t q. SuEvent x t \<in> set as \<Longrightarrow> ce_domain x = d \<Longrightarrow> ce_family x = f \<Longrightarrow>
      find_policy f (ce_kind x) (init_suppression_engine ps) = Some q \<Longrightarrow> sp_window q = w"
  shows "{x \<in> set (dget_or (se_recent (su_run ps as)) (d, f) []). now - w < ce_time x} = {x \<in> let_in ps as d f. now - w < ce_time x}"
  using assms
proof (induction as arbitrary: now rule: rev_induct)
  case Nil
  then show ?case by (simp add: let_in_def init_suppression_engine_def dget_or_def)
next
  case (snoc a as)
  let ?en = "su_run ps as"
  note t = clocked_snoc [OF snoc.prems(1)]
  have ih: "{x \<in> set (dget_or (se_recent ?en) (d, f) []). u - w < ce_time x} = {x \<in> let_in ps as d f. u - w < ce_time x}"
    if "clocked as u" for u using snoc.IH [OF that] snoc.prems(2) by auto
  have same: ?case if "let_in ps (as @ [a]) d f = let_in ps as d f" "dget_or (se_recent (su_step a ?en)) (d, f) [] = dget_or (se_recent ?en) (d, f) []"
    using ih [OF t(2)] that by simp
  show ?case
  proof (cases a)
    case (SuEvent e u)
    have cu: "clocked as u" "u \<le> now" using t(1) SuEvent by auto
    have hair: "hair_set (ce_domain e) u ?en \<longleftrightarrow> hair_triggered ps as (ce_domain e) u" by (rule hair_iff [OF cu(1)])
    show ?thesis
    proof (cases "ce_domain e = d \<and> ce_family e = f \<and> \<not> is_suppressed d ?en \<and> \<not> hair_triggered ps as d u \<and>
        find_policy f (ce_kind e) (init_suppression_engine ps) \<noteq> None")
      case True
      then obtain q where q: "find_policy f (ce_kind e) (init_suppression_engine ps) = Some q" by blast
      have w: "sp_window q = w" by (rule snoc.prems(2) [of e u]) (use True q SuEvent in simp_all)
      have "dget_or (se_recent (su_step a ?en)) (d, f) [] = filter (\<lambda>x. u - w < ce_time x) (dget_or (se_recent ?en) (d, f) [] @ [e])"
        using evaluate_counts(2) [of e ?en u q, OF _ _ _ refl] True q hair w SuEvent by (simp add: run_policies)
      moreover have "let_in ps (as @ [a]) d f = insert e (let_in ps as d f)" using True unfolding let_in_snoc SuEvent by auto
      ultimately show ?thesis using ih [OF cu(1)] cu(2) by auto
    next
      case False
      show ?thesis
      proof (rule same)
        show "let_in ps (as @ [a]) d f = let_in ps as d f" using False unfolding let_in_snoc SuEvent by auto
        show "dget_or (se_recent (su_step a ?en)) (d, f) [] = dget_or (se_recent ?en) (d, f) []"
        proof (cases "ce_domain e = d \<and> ce_family e = f")
          case True
          then show ?thesis using False hair SuEvent evaluate_kept [of e ?en u] by (simp add: run_policies)
        next
          case other: False
          then show ?thesis using evaluate_other [of d e u ?en f] evaluate_other_family [of f e u ?en d] SuEvent
            by (cases "ce_domain e = d") (simp_all add: dget_or_def)
        qed
      qed
    qed
  next
    case (SuCheck d' h u)
    show ?thesis by (rule same) (simp_all add: SuCheck let_in_snoc check_keeps)
  next
    case (SuHuman d')
    show ?thesis by (rule same) (simp_all add: SuHuman let_in_snoc)
  qed
qed

text \<open>C34: Suppression counts devices in a window. Take any history of events, checks and operator commands in the order of a
  clock with positive readings, and an event. Its domain is suppressed after it exactly when it already was, or it recovered by itself less than
  the hair-trigger window ago, in which case a single event is enough, or a policy applies and the events of the family in
  the policy's window - this one and those let in before, which came while the domain was neither suppressed nor under the hair
  trigger - come from as many different devices as the policy asks. The policies that applied to the family in this
  domain have one window, as each family of the default table has.\<close>

theorem suppression_counts_devices:
  assumes c: "clocked as now"
    and w: "\<forall>x t p q. SuEvent x t \<in> set as \<and> ce_domain x = ce_domain e \<and> ce_family x = ce_family e \<and>
      find_policy (ce_family e) (ce_kind x) (init_suppression_engine ps) = Some q \<and>
      find_policy (ce_family e) (ce_kind e) (init_suppression_engine ps) = Some p \<longrightarrow> sp_window q = sp_window p"
  shows "is_suppressed (ce_domain e) (su_run ps (as @ [SuEvent e now])) \<longleftrightarrow>
     is_suppressed (ce_domain e) (su_run ps as) \<or> hair_triggered ps as (ce_domain e) now \<or>
     (\<exists>p. find_policy (ce_family e) (ce_kind e) (init_suppression_engine ps) = Some p \<and>
        sp_threshold p \<le> int (card (ce_device ` {x \<in> insert e (let_in ps as (ce_domain e) (ce_family e)). now - sp_window p < ce_time x})))"
proof -
  let ?en = "su_run ps as" and ?d = "ce_domain e" and ?f = "ce_family e"
  have hair: "hair_set ?d now ?en \<longleftrightarrow> hair_triggered ps as ?d now" by (rule hair_iff [OF c])
  have given: "is_suppressed ?d (su_run ps (as @ [SuEvent e now])) \<longleftrightarrow> fst (se_evaluate e now ?en) \<noteq> None"
    by (auto simp: se_evaluate_def is_suppressed_def trigger_def trim_window_def Let_def map_prod_def split: option.splits if_splits)
  show ?thesis
  proof (cases "is_suppressed ?d ?en \<or> hair_set ?d now ?en")
    case True
    then have "fst (se_evaluate e now ?en) \<noteq> None"
      by (auto simp: se_evaluate_def is_suppressed_def trigger_def Let_def split: option.splits)
    then show ?thesis using True hair given by blast
  next
    case False
    show ?thesis
    proof (cases "find_policy ?f (ce_kind e) (init_suppression_engine ps)")
      case None
      have a: "dget (se_active ?en) ?d = None" using False by (simp add: is_suppressed_def)
      have "fst (se_evaluate e now ?en) = None"
        unfolding se_evaluate_def a option.case run_policies None using False by auto
      then show ?thesis using False hair given None by simp
    next
      case (Some p)
      let ?r = "filter (\<lambda>x. now - sp_window p < ce_time x) (dget_or (se_recent ?en) (?d, ?f) [] @ [e])"
      have "{x \<in> set (dget_or (se_recent ?en) (?d, ?f) []). now - sp_window p < ce_time x} = {x \<in> let_in ps as ?d ?f. now - sp_window p < ce_time x}"
        by (rule recent_run [OF c]) (use w Some in auto)
      then have "set ?r = {x \<in> insert e (let_in ps as ?d ?f). now - sp_window p < ce_time x}" by auto
      moreover have "fst (se_evaluate e now ?en) \<noteq> None \<longleftrightarrow> sp_threshold p \<le> int (card (ce_device ` set ?r))"
        by (rule evaluate_counts(1) [OF _ _ _ refl]) (use False Some in \<open>simp_all add: run_policies\<close>)
      ultimately show ?thesis using False hair given Some by simp
    qed
  qed
qed

definition psu_event :: "string \<Rightarrow> time \<Rightarrow> correlation_event" where
  "psu_event dev t = \<lparr>ce_device = dev, ce_domain = ''psu1'', ce_kind = ''power'', ce_family = ''power'',
     ce_severity = ''CRITICAL'', ce_time = t\<rparr>"

theorem suppression_counts_devices_witness:
  "is_suppressed ''psu1'' (su_run [] [SuEvent (psu_event ''a'' 5) 5, SuEvent (psu_event ''b'' 10) 10])"
proof -
  let ?as = "[SuEvent (psu_event ''a'' 5) 5]" and ?e = "psu_event ''b'' 10"
  have pol: "se_policies (init_suppression_engine []) =
      [((''power'', ''power''), policy ''power'' ''power'' True 2 30), ((''thermal'', ''cooling''), policy ''thermal'' ''cooling'' True 3 60),
       ((''connectivity'', ''network''), policy ''connectivity'' ''network'' True 3 15), ((''component'', ''*''), policy ''component'' ''*'' False 5 300)]"
    by (simp add: init_suppression_engine_def default_policies_def)
  have p: "find_policy ''power'' ''power'' (init_suppression_engine []) = Some (policy ''power'' ''power'' True 2 30)"
    by (simp add: find_policy_def pol)
  have "\<not> is_suppressed ''psu1'' (init_suppression_engine [])" "\<not> hair_triggered [] [] ''psu1'' t" for t
    by (simp_all add: is_suppressed_def init_suppression_engine_def hair_triggered_def recovered_at_def)
  then have "psu_event ''a'' 5 \<in> let_in [] ([] @ ?as) ''psu1'' ''power''"
    unfolding let_in_snoc by (simp add: psu_event_def p)
  then have "{psu_event ''a'' 5, ?e} \<subseteq> {x \<in> insert ?e (let_in [] ?as ''psu1'' ''power''). 10 - (30 :: real) < ce_time x}"
    by (simp add: psu_event_def)
  moreover have "finite (ce_device ` {x \<in> insert ?e (let_in [] ?as ''psu1'' ''power''). 10 - (30 :: real) < ce_time x})"
  proof -
    have "let_in [] ([] @ ?as) ''psu1'' ''power'' \<subseteq> {psu_event ''a'' 5}" unfolding let_in_snoc by (auto simp: let_in_def)
    then show ?thesis by (simp add: finite_subset)
  qed
  ultimately have "card (ce_device ` {psu_event ''a'' 5, ?e}) \<le>
      card (ce_device ` {x \<in> insert ?e (let_in [] ?as ''psu1'' ''power''). 10 - (30 :: real) < ce_time x})"
    by (intro card_mono image_mono)
  moreover have "ce_device ` {psu_event ''a'' 5, ?e} = {''a'', ''b''}" by (auto simp: psu_event_def)
  ultimately have "2 \<le> int (card (ce_device ` {x \<in> insert ?e (let_in [] ?as ''psu1'' ''power''). 10 - (30 :: real) < ce_time x}))" by simp
  moreover have "ce_domain ?e = ''psu1''" "ce_family ?e = ''power''" "ce_kind ?e = ''power''" by (simp_all add: psu_event_def)
  moreover have "clocked ?as 10" by simp
  ultimately have "is_suppressed (ce_domain ?e) (su_run [] (?as @ [SuEvent ?e 10]))"
    by (subst suppression_counts_devices) (auto simp: p psu_event_def)
  then show ?thesis by (simp add: psu_event_def)
qed

subsection \<open>How a suppression ends\<close>

text \<open>Since when all devices of a domain have been reported healthy, according to the checks made so far.\<close>

fun clear_since :: "string \<Rightarrow> time option \<Rightarrow> suppression_op \<Rightarrow> time option" where
  "clear_since d t (SuCheck d' healthy now) =
     (if d' \<noteq> d then t else if \<not> healthy then None else (case t of None \<Rightarrow> Some now | Some u \<Rightarrow> Some u))"
| "clear_since d t _ = t"

definition lifts :: "string \<Rightarrow> time option \<Rightarrow> suppression_op \<Rightarrow> bool" where
  "lifts d t a \<longleftrightarrow> a = SuHuman d
     \<or> (\<exists>now u. a = SuCheck d True now \<and> t = Some u \<and> stability_period \<le> now - u)"

text \<open>No operation of the run so far lifted the suppression.\<close>

fun unlifted :: "string \<Rightarrow> time option \<Rightarrow> suppression_op list \<Rightarrow> bool" where
  "unlifted d t [] = True"
| "unlifted d t (a # as) = (\<not> lifts d t a \<and> unlifted d (clear_since d t a) as)"

lemma check_other:
  "d' \<noteq> d \<Longrightarrow> dget (se_active (snd (check_auto_recovery d' h now en))) d = dget (se_active en) d"
  by (auto simp: check_auto_recovery_def split: option.splits)

lemma step_active:
  assumes "dget (se_active en) d = Some st"
  shows "dget (se_active (su_step a en)) d =
     (if lifts d (ss_all_clear st) a then None else Some (st\<lparr>ss_all_clear := clear_since d (ss_all_clear st) a\<rparr>))"
proof (cases a)
  case (SuEvent e now)
  with active_step[OF assms] show ?thesis by (simp add: lifts_def)
next
  case (SuCheck d' h now)
  with assms check_other[of d' d h now en] show ?thesis
    by (cases "d' = d") (auto simp: lifts_def check_auto_recovery_def split: option.splits)
next
  case (SuHuman d')
  with assms show ?thesis by (auto simp: lifts_def human_re_enable_def split: option.splits)
qed

lemma run_active:
  "dget (se_active en) d = Some st \<Longrightarrow> unlifted d (ss_all_clear st) as \<Longrightarrow>
     dget (se_active (fold su_step as en)) d = Some (st\<lparr>ss_all_clear := fold (\<lambda>a t. clear_since d t a) as (ss_all_clear st)\<rparr>)"
  by (induction as arbitrary: en st) (auto simp: step_active)

text \<open>C35: A suppression ends in two ways only. From the moment a domain was suppressed, through any operations
none of which lifted it, it is still suppressed, and the next operation lifts it exactly when an
operator re-enables the domain, or it is a check that finds all devices healthy at least the stability
period after the first of an unbroken row of healthy checks. The severity of the incident plays no role.\<close>

theorem suppression_ends_by:
  assumes "dget (se_active en) d = Some st" "ss_all_clear st = None" "unlifted d None as"
  shows "is_suppressed d (fold su_step as en)
    \<and> (\<not> is_suppressed d (su_step a (fold su_step as en)) \<longleftrightarrow>
        a = SuHuman d \<or> (\<exists>now u. a = SuCheck d True now \<and> fold (\<lambda>a t. clear_since d t a) as None = Some u
           \<and> stability_period \<le> now - u))"
proof -
  have r: "dget (se_active (fold su_step as en)) d = Some (st\<lparr>ss_all_clear := fold (\<lambda>a t. clear_since d t a) as None\<rparr>)"
    using run_active[OF assms(1), of as] assms(2,3) by simp
  from r step_active[OF r, of a] show ?thesis by (simp add: is_suppressed_def lifts_def)
qed

theorem suppression_ends_by_witness:
  "\<exists>en st. dget (se_active en) ''psu1'' = Some st \<and> is_suppressed ''psu1'' (su_step (SuCheck ''psu1'' True 600) (fold su_step
      [SuCheck ''psu1'' True 0, SuCheck ''psu1'' False 300, SuCheck ''psu1'' True 301] en))"
proof -
  let ?t = "trigger (psu_event ''a'' 0) ''direct_dependency'' 2 [] 0 (init_suppression_engine [])"
  have a: "dget (se_active (snd ?t)) ''psu1'' = Some (fst ?t)" "ss_all_clear (fst ?t) = None"
    by (simp_all add: trigger_def psu_event_def Let_def)
  have u: "unlifted ''psu1'' None [SuCheck ''psu1'' True 0, SuCheck ''psu1'' False 300, SuCheck ''psu1'' True 301]"
    by (simp add: lifts_def)
  from suppression_ends_by[OF a u, of "SuCheck ''psu1'' True 600"] a(1) show ?thesis
    by (intro exI[of _ "snd ?t"] exI[of _ "fst ?t"]) (simp add: stability_period_def)
qed

text \<open>The hair trigger. After a domain recovered by itself, any event of it within the next hour, of
whatever family and from a single device, suppresses it again at once.\<close>

theorem hair_trigger_resuppresses:
  assumes "check_auto_recovery d True now en = (True, en')" "ce_domain e = d" "now' - now < hair_trigger_window" "now \<noteq> 0"
  shows "\<exists>st. fst (se_evaluate e now' en') = Some st \<and> ss_count st = 1 \<and> is_suppressed d (snd (se_evaluate e now' en'))"
proof -
  have "dget (se_active en') d = None" "dget (se_hair en') d = Some now"
    using assms(1) by (auto simp: check_auto_recovery_def split: option.splits if_splits)
  with assms show ?thesis by (simp add: se_evaluate_def trigger_def is_suppressed_def Let_def)
qed

theorem hair_trigger_resuppresses_witness:
  "\<exists>en en' st. check_auto_recovery ''psu1'' True 1000 en = (True, en') \<and> fst (se_evaluate (psu_event ''c'' 2000) 2000 en') = Some st"
proof -
  let ?st = "(fst (trigger (psu_event ''a'' 0) ''direct_dependency'' 2 [] 0 (init_suppression_engine [])))\<lparr>ss_all_clear := Some 100\<rparr>"
  let ?en = "(init_suppression_engine [])\<lparr>se_active := [(''psu1'', ?st)]\<rparr>"
  have c: "check_auto_recovery ''psu1'' True 1000 ?en = (True, ?en\<lparr>se_hair := dset ''psu1'' 1000 (se_hair ?en), se_active := []\<rparr>)"
    by (simp add: check_auto_recovery_def stability_period_def)
  have d: "ce_domain (psu_event ''c'' 2000) = ''psu1''" by (simp add: psu_event_def)
  from hair_trigger_resuppresses[OF c d, of 2000] c show ?thesis by (auto simp: hair_trigger_window_def)
qed

end
