(* ===== verification/Org_Tree.thy ===== *)
theory Org_Tree
  imports Prelude "HOL-Library.Sublist"
begin

text \<open>
  The organizational tree of a tenant (\<open>src/services/central_command/src/harkeniq_cc/org_tree.py\<close>) and
  its rows (\<open>OrgUnitRepo\<close> of \<open>db/repos.py\<close>). Every query of the repository is restricted to one tenant,
  so the store is the list of that tenant's units. A path is the text of the ids along it.
\<close>

subsection \<open>Path arithmetic\<close>

datatype tree_error = TreeError string | NoSuchUnit | IntegrityError

definition delim :: char where "delim = CHR ''/''"

definition max_depth :: nat where "max_depth = 8"

definition max_name :: nat where "max_name = 255"

definition slug_char :: "char \<Rightarrow> bool" where
  "slug_char c = (let n = (of_char c :: nat) in 97 \<le> n \<and> n \<le> 122 \<or> 48 \<le> n \<and> n \<le> 57 \<or> c \<in> {CHR ''_'', CHR ''-''})"

text \<open>\<open>^[a-z][a-z0-9_-]{0,31}$\<close>; the text was stripped, so it has no line break at its end.\<close>

definition unit_type_matches :: "string \<Rightarrow> bool" where
  "unit_type_matches s = (case s of [] \<Rightarrow> False
     | c # cs \<Rightarrow> (let n = (of_char c :: nat) in 97 \<le> n \<and> n \<le> 122) \<and> length cs \<le> 31 \<and> list_all slug_char cs)"

definition normalize_unit_type :: "string \<Rightarrow> tree_error + string" where
  "normalize_unit_type raw = (let v = lower (strip_text raw) in
     if unit_type_matches v then Inr v else Inl (TreeError ''unit_type must be a short slug''))"

definition normalize_name :: "string \<Rightarrow> tree_error + string" where
  "normalize_name raw = (let v = strip_text raw in
     if v = [] then Inl (TreeError ''name is required'')
     else if max_name < length v then Inl (TreeError ''name is too long'') else Inr v)"

definition starts_with :: "string \<Rightarrow> string \<Rightarrow> bool" where
  "starts_with s p \<longleftrightarrow> take (length p) s = p"

definition ends_delim :: "string \<Rightarrow> bool" where
  "ends_delim s \<longleftrightarrow> s \<noteq> [] \<and> last s = delim"

text \<open>\<open>None\<close> and the empty text both stand for no parent.\<close>

definition compose_path :: "string option \<Rightarrow> string \<Rightarrow> tree_error + string" where
  "compose_path parent unit_id =
     (if unit_id = [] then Inl (TreeError ''unit_id is required'')
      else (let base = (case parent of None \<Rightarrow> [delim] | Some p \<Rightarrow> if p = [] then [delim] else p) in
        if \<not> starts_with base [delim] \<or> \<not> ends_delim base then Inl (TreeError ''malformed parent path'')
        else Inr (base @ unit_id @ [delim])))"

fun split_on :: "char \<Rightarrow> string \<Rightarrow> string list" where
  "split_on d [] = [[]]"
| "split_on d (c # cs) =
     (if c = d then [] # split_on d cs else (c # hd (split_on d cs)) # tl (split_on d cs))"

definition segments :: "string \<Rightarrow> string list" where
  "segments path = filter (\<lambda>s. s \<noteq> []) (split_on delim path)"

definition depth_of :: "string \<Rightarrow> nat" where
  "depth_of path = length (segments path)"

definition ancestor_ids :: "string \<Rightarrow> string list" where
  "ancestor_ids path = butlast (segments path)"

definition self_id :: "string \<Rightarrow> string" where
  "self_id path = (case segments path of [] \<Rightarrow> [] | ss \<Rightarrow> last ss)"

definition is_descendant :: "string \<Rightarrow> string \<Rightarrow> bool" where
  "is_descendant candidate ancestor \<longleftrightarrow> candidate \<noteq> [] \<and> ancestor \<noteq> [] \<and> starts_with candidate ancestor"

definition check_depth :: "int \<Rightarrow> tree_error + unit" where
  "check_depth parent_depth =
     (if int max_depth < parent_depth + 1 then Inl (TreeError ''depth is bounded'') else Inr ())"

definition check_move :: "string \<Rightarrow> string \<Rightarrow> string option \<Rightarrow> int \<Rightarrow> int \<Rightarrow> tree_error + unit" where
  "check_move moving_path moving_id dest dest_depth height =
     (if (case dest of None \<Rightarrow> False | Some p \<Rightarrow> is_descendant p moving_path) then Inl (TreeError ''a cycle'')
      else if (case dest of None \<Rightarrow> False | Some p \<Rightarrow> self_id p = moving_id) then Inl (TreeError ''its own parent'')
      else if int max_depth < dest_depth + height then Inl (TreeError ''depth is bounded'')
      else Inr ())"

definition rewrite_descendant_path :: "string \<Rightarrow> string \<Rightarrow> string \<Rightarrow> tree_error + string" where
  "rewrite_descendant_path path old new =
     (if \<not> is_descendant path old then Inl (TreeError ''not under the prefix'')
      else Inr (new @ drop (length old) path))"

subsection \<open>The rows and their operations\<close>

record org_unit =
  ou_id :: string
  ou_parent :: "string option"
  ou_type :: string
  ou_name :: string
  ou_path :: string
  ou_depth :: int
  ou_order :: int

definition get_unit :: "org_unit list \<Rightarrow> string \<Rightarrow> org_unit option" where
  "get_unit us i = find (\<lambda>u. ou_id u = i) us"

definition list_subtree :: "org_unit list \<Rightarrow> string \<Rightarrow> org_unit list" where
  "list_subtree us path = filter (\<lambda>u. starts_with (ou_path u) path) us"

definition sibling_named :: "org_unit list \<Rightarrow> string option \<Rightarrow> string \<Rightarrow> string option \<Rightarrow> bool" where
  "sibling_named us parent name exclude =
     (\<exists>u \<in> set us. ou_name u = name \<and> ou_parent u = parent \<and> exclude \<noteq> Some (ou_id u))"

text \<open>\<open>new_id\<close> is the generated identifier; one that is taken violates the primary key.\<close>

definition create_unit :: "string \<Rightarrow> string \<Rightarrow> string \<Rightarrow> org_unit option \<Rightarrow> int \<Rightarrow> org_unit list
    \<Rightarrow> tree_error + org_unit list" where
  "create_unit new_id name utype parent order us =
     (if get_unit us new_id \<noteq> None then Inl IntegrityError
      else (case compose_path (map_option ou_path parent) new_id of Inl e \<Rightarrow> Inl e
        | Inr path \<Rightarrow> Inr (us @ [\<lparr>ou_id = new_id, ou_parent = map_option ou_id parent, ou_type = utype,
            ou_name = name, ou_path = path,
            ou_depth = (case parent of None \<Rightarrow> 1 | Some p \<Rightarrow> ou_depth p + 1), ou_order = order\<rparr>])))"

definition child_count :: "org_unit list \<Rightarrow> string \<Rightarrow> nat" where
  "child_count us i = length (filter (\<lambda>u. ou_parent u = Some i) us)"

definition subtree_height :: "org_unit list \<Rightarrow> string \<Rightarrow> int" where
  "subtree_height us path =
     (let rows = list_subtree us path; base = int (depth_of path)
      in (if rows = [] then base else Max (set (map ou_depth rows))) - base + 1)"

text \<open>One row of a move: the unit itself, a descendant, or a row that stays.\<close>

definition move_row :: "org_unit \<Rightarrow> org_unit option \<Rightarrow> string \<Rightarrow> org_unit \<Rightarrow> tree_error + org_unit" where
  "move_row unit parent new_path row =
     (let new_depth = (case parent of None \<Rightarrow> 1 | Some p \<Rightarrow> ou_depth p + 1);
          shift = new_depth - int (depth_of (ou_path unit))
      in if ou_id row = ou_id unit
         then Inr (row\<lparr>ou_parent := map_option ou_id parent, ou_path := new_path, ou_depth := new_depth\<rparr>)
         else if starts_with (ou_path row) (ou_path unit)
         then (case rewrite_descendant_path (ou_path row) (ou_path unit) new_path of Inl e \<Rightarrow> Inl e
           | Inr p \<Rightarrow> Inr (row\<lparr>ou_path := p, ou_depth := ou_depth row + shift\<rparr>))
         else Inr row)"

fun collect_rows :: "('a \<Rightarrow> 'e + 'b) \<Rightarrow> 'a list \<Rightarrow> 'e + 'b list" where
  "collect_rows f [] = Inr []"
| "collect_rows f (x # xs) =
     (case f x of Inl e \<Rightarrow> Inl e
      | Inr y \<Rightarrow> (case collect_rows f xs of Inl e \<Rightarrow> Inl e | Inr ys \<Rightarrow> Inr (y # ys)))"

definition move_unit :: "org_unit \<Rightarrow> org_unit option \<Rightarrow> org_unit list \<Rightarrow> tree_error + org_unit list" where
  "move_unit unit parent us =
     (case compose_path (map_option ou_path parent) (ou_id unit) of Inl e \<Rightarrow> Inl e
      | Inr new_path \<Rightarrow> collect_rows (move_row unit parent new_path) us)"

definition delete_unit :: "org_unit \<Rightarrow> org_unit list \<Rightarrow> org_unit list" where
  "delete_unit unit us = filter (\<lambda>u. ou_id u \<noteq> ou_id unit) us"

subsection \<open>Paths spell lists of ids\<close>

definition id_ok :: "string \<Rightarrow> bool" where
  "id_ok i \<longleftrightarrow> i \<noteq> [] \<and> delim \<notin> set i"

definition path_of :: "string list \<Rightarrow> string" where
  "path_of ids = delim # concat (map (\<lambda>i. i @ [delim]) ids)"

lemma split_on_app: "d \<notin> set i \<Longrightarrow> split_on d (i @ d # s) = i # split_on d s"
  by (induction i) auto

lemma split_body: "list_all id_ok ids \<Longrightarrow> split_on delim (concat (map (\<lambda>i. i @ [delim]) ids)) = ids @ [[]]"
  by (induction ids) (auto simp: id_ok_def split_on_app)

lemma segments_path_of [simp]: "list_all id_ok ids \<Longrightarrow> segments (path_of ids) = ids"
  by (auto simp: segments_def path_of_def split_body list_all_iff id_ok_def)

lemma path_of_not_Nil [simp]: "path_of ids \<noteq> []" "[] \<noteq> path_of ids"
  by (simp_all add: path_of_def)

lemma depth_of_path_of [simp]: "list_all id_ok ids \<Longrightarrow> depth_of (path_of ids) = length ids"
  by (simp add: depth_of_def)

lemma path_of_eq_iff: "list_all id_ok xs \<Longrightarrow> list_all id_ok ys \<Longrightarrow> path_of xs = path_of ys \<longleftrightarrow> xs = ys"
  by (metis segments_path_of)

lemma path_of_append: "path_of (xs @ ys) = path_of xs @ tl (path_of ys)"
  by (simp add: path_of_def)

lemma starts_with_prefix: "starts_with s p \<longleftrightarrow> prefix p s"
  by (metis append_take_drop_id prefixI prefix_def starts_with_def append_eq_conv_conj)

lemma prefix_word:
  "d \<notin> set x \<Longrightarrow> d \<notin> set y \<Longrightarrow> prefix (y @ d # s) (x @ d # t) \<longleftrightarrow> x = y \<and> prefix s t"
proof (induction y arbitrary: x)
  case Nil
  then show ?case by (cases x) auto
next
  case (Cons c y)
  then show ?case by (cases x) auto
qed

lemma prefix_body:
  assumes "list_all id_ok xs" "list_all id_ok ys"
  shows "prefix (concat (map (\<lambda>i. i @ [delim]) ys)) (concat (map (\<lambda>i. i @ [delim]) xs)) \<longleftrightarrow> prefix ys xs"
  using assms
proof (induction ys arbitrary: xs)
  case (Cons y ys)
  show ?case
  proof (cases xs)
    case Nil
    then show ?thesis by simp
  next
    case (Cons x xs')
    then show ?thesis using Cons.IH [of xs'] Cons.prems by (auto simp: id_ok_def prefix_word)
  qed
qed simp

text \<open>The delimiter at the end keeps a sibling out: prefixes of paths are prefixes of id lists.\<close>

lemma starts_with_path_of [simp]:
  "list_all id_ok xs \<Longrightarrow> list_all id_ok ys \<Longrightarrow> starts_with (path_of xs) (path_of ys) \<longleftrightarrow> prefix ys xs"
  by (simp add: starts_with_prefix path_of_def prefix_body)

lemma is_descendant_path_of [simp]:
  "list_all id_ok xs \<Longrightarrow> list_all id_ok ys \<Longrightarrow> is_descendant (path_of xs) (path_of ys) \<longleftrightarrow> prefix ys xs"
  by (simp add: is_descendant_def)

lemma path_of_ends: "path_of ids \<noteq> [] \<and> last (path_of ids) = delim"
  by (induction ids rule: rev_induct) (simp_all add: path_of_def)

lemma compose_path_of: "id_ok i \<Longrightarrow> compose_path (Some (path_of ids)) i = Inr (path_of (ids @ [i]))"
  using path_of_ends [of ids] by (auto simp: compose_path_def id_ok_def ends_delim_def starts_with_def path_of_def Let_def)

lemma compose_root: "id_ok i \<Longrightarrow> compose_path None i = Inr (path_of [i])"
  by (auto simp: compose_path_def id_ok_def ends_delim_def starts_with_def path_of_def Let_def)

lemma rewrite_path_of:
  assumes "list_all id_ok (ids @ ks)"
  shows "rewrite_descendant_path (path_of (ids @ ks)) (path_of ids) (path_of js) = Inr (path_of (js @ ks))"
proof -
  have "path_of (ids @ ks) = path_of ids @ concat (map (\<lambda>i. i @ [delim]) ks)" by (simp add: path_of_def)
  then show ?thesis using assms is_descendant_path_of [of "ids @ ks" ids]
    by (simp add: rewrite_descendant_path_def) (simp add: path_of_def)
qed

subsection \<open>The tree invariant\<close>

definition unit_ok :: "org_unit list \<Rightarrow> org_unit \<Rightarrow> bool" where
  "unit_ok us u \<longleftrightarrow> (\<exists>ids. list_all id_ok ids \<and> id_ok (ou_id u) \<and> ou_path u = path_of (ids @ [ou_id u])
     \<and> ou_depth u = int (length ids) + 1 \<and> length ids < max_depth
     \<and> (case ou_parent u of None \<Rightarrow> ids = [] | Some p \<Rightarrow> \<exists>v \<in> set us. ou_id v = p \<and> ou_path v = path_of ids))"

definition siblings_distinct :: "org_unit list \<Rightarrow> bool" where
  "siblings_distinct us \<longleftrightarrow>
     (\<forall>u \<in> set us. \<forall>v \<in> set us. ou_parent u = ou_parent v \<and> ou_name u = ou_name v \<longrightarrow> ou_id u = ou_id v)"

lemma siblings_distinctD:
  "siblings_distinct us \<Longrightarrow> u \<in> set us \<Longrightarrow> v \<in> set us \<Longrightarrow> ou_parent u = ou_parent v \<Longrightarrow> ou_name u = ou_name v
     \<Longrightarrow> ou_id u = ou_id v"
  unfolding siblings_distinct_def by blast

definition tree_ok :: "org_unit list \<Rightarrow> bool" where
  "tree_ok us \<longleftrightarrow> distinct (map ou_id us) \<and> (\<forall>u \<in> set us. unit_ok us u) \<and> siblings_distinct us"

lemma unit_okE:
  assumes "unit_ok us u"
  obtains ids where "list_all id_ok ids" "id_ok (ou_id u)" "ou_path u = path_of (ids @ [ou_id u])"
    "ou_depth u = int (length ids) + 1" "length ids < max_depth"
    "case ou_parent u of None \<Rightarrow> ids = [] | Some p \<Rightarrow> \<exists>v \<in> set us. ou_id v = p \<and> ou_path v = path_of ids"
  using assms unfolding unit_ok_def by blast

lemma same_id_same_unit: "distinct (map ou_id us) \<Longrightarrow> u \<in> set us \<Longrightarrow> v \<in> set us \<Longrightarrow> ou_id u = ou_id v \<Longrightarrow> u = v"
  by (auto simp: distinct_map inj_on_def)

lemma get_unit_Some: "get_unit us i = Some u \<Longrightarrow> u \<in> set us \<and> ou_id u = i"
  by (auto simp: get_unit_def find_Some_iff)

lemma get_unit_None: "get_unit us i = None \<longleftrightarrow> (\<forall>u \<in> set us. ou_id u \<noteq> i)"
  by (auto simp: get_unit_def find_None_iff)

text \<open>The prefix test on paths is the ancestor relation of the parent links.\<close>

inductive under :: "org_unit list \<Rightarrow> org_unit \<Rightarrow> org_unit \<Rightarrow> bool" for us where
  under_refl: "u \<in> set us \<Longrightarrow> under us u u"
| under_step: "u \<in> set us \<Longrightarrow> ou_parent u = Some (ou_id w) \<Longrightarrow> under us w v \<Longrightarrow> under us u v"

lemma under_in: "under us u v \<Longrightarrow> u \<in> set us \<and> v \<in> set us"
  by (induction rule: under.induct) auto

lemma descendant_iff_under:
  assumes t: "tree_ok us" and "u \<in> set us" "v \<in> set us"
  shows "is_descendant (ou_path u) (ou_path v) \<longleftrightarrow> under us u v"
proof
  have ok: "\<And>x. x \<in> set us \<Longrightarrow> unit_ok us x" and d: "distinct (map ou_id us)"
    using t by (auto simp: tree_ok_def)
  obtain js where js: "list_all id_ok js" "id_ok (ou_id v)" "ou_path v = path_of (js @ [ou_id v])"
    using ok [OF assms(3)] by (rule unit_okE)
  show "is_descendant (ou_path u) (ou_path v) \<Longrightarrow> under us u v"
    using assms(2)
  proof (induction "length (ou_path u)" arbitrary: u rule: less_induct)
    case less
    obtain ids where ids: "list_all id_ok ids" "id_ok (ou_id u)" "ou_path u = path_of (ids @ [ou_id u])"
      "case ou_parent u of None \<Rightarrow> ids = [] | Some p \<Rightarrow> \<exists>w \<in> set us. ou_id w = p \<and> ou_path w = path_of ids"
      using ok [OF less.prems(2)] by (rule unit_okE)
    have p: "prefix (js @ [ou_id v]) (ids @ [ou_id u])" using less.prems(1) ids js by simp
    show ?case
    proof (cases "prefix (js @ [ou_id v]) ids")
      case True
      then have "ids \<noteq> []" by auto
      then obtain q w where w: "ou_parent u = Some q" "w \<in> set us" "ou_id w = q" "ou_path w = path_of ids"
        using ids(4) by (auto split: option.splits)
      have "length (ou_path w) < length (ou_path u)" using w(4) ids(3) by (simp add: path_of_def)
      moreover have "is_descendant (ou_path w) (ou_path v)" using True w(4) ids(1) js by simp
      ultimately have "under us w v" using less.hyps w(2) by blast
      then show ?thesis using less.prems(2) w by (auto intro: under_step)
    next
      case False
      then have "js @ [ou_id v] = ids @ [ou_id u]" using p by auto
      then have "v = u" using d assms(3) less.prems(2) by (auto intro: same_id_same_unit)
      then show ?thesis using less.prems(2) by (auto intro: under_refl)
    qed
  qed
  show "under us u v \<Longrightarrow> is_descendant (ou_path u) (ou_path v)"
  proof (induction rule: under.induct)
    case (under_refl u)
    then show ?case using ok [of u] by (auto elim!: unit_okE)
  next
    case (under_step u w v)
    obtain ids where ids: "list_all id_ok ids" "id_ok (ou_id u)" "ou_path u = path_of (ids @ [ou_id u])"
      "case ou_parent u of None \<Rightarrow> ids = [] | Some p \<Rightarrow> \<exists>w \<in> set us. ou_id w = p \<and> ou_path w = path_of ids"
      using ok [OF under_step.hyps(1)] by (rule unit_okE)
    have "w \<in> set us" using under_in [OF under_step.hyps(3)] ..
    then have "ou_path w = path_of ids" using ids(4) under_step.hyps(2) d by (auto dest: same_id_same_unit)
    then show ?case using under_step.IH ids by (auto simp: is_descendant_def starts_with_prefix path_of_def
        intro: prefix_order.trans)
  qed
qed

subsection \<open>The operations keep it\<close>

lemma unit_ok_segs:
  "unit_ok us u \<longleftrightarrow> (\<exists>s. s \<noteq> [] \<and> list_all id_ok s \<and> ou_path u = path_of s \<and> last s = ou_id u
     \<and> ou_depth u = int (length s) \<and> length s \<le> max_depth
     \<and> (case ou_parent u of None \<Rightarrow> butlast s = [] | Some p \<Rightarrow> \<exists>v \<in> set us. ou_id v = p \<and> ou_path v = path_of (butlast s)))"
    (is "?l \<longleftrightarrow> ?r")
proof
  assume ?l
  then obtain ids where "list_all id_ok ids" "id_ok (ou_id u)" "ou_path u = path_of (ids @ [ou_id u])"
    "ou_depth u = int (length ids) + 1" "length ids < max_depth"
    "case ou_parent u of None \<Rightarrow> ids = [] | Some p \<Rightarrow> \<exists>v \<in> set us. ou_id v = p \<and> ou_path v = path_of ids"
    by (rule unit_okE)
  then show ?r by (intro exI [of _ "ids @ [ou_id u]"]) (auto split: option.splits)
next
  assume ?r
  then obtain s where s: "s \<noteq> []" "list_all id_ok s" "ou_path u = path_of s" "last s = ou_id u"
    "ou_depth u = int (length s)" "length s \<le> max_depth"
    "case ou_parent u of None \<Rightarrow> butlast s = [] | Some p \<Rightarrow> \<exists>v \<in> set us. ou_id v = p \<and> ou_path v = path_of (butlast s)"
    by blast
  obtain ids where ids: "s = ids @ [ou_id u]" using s(1,4) by (metis append_butlast_last_id)
  show ?l unfolding unit_ok_def using s ids by (intro exI [of _ ids]) (auto split: option.splits)
qed

lemma unit_ok_more: "unit_ok us u \<Longrightarrow> set us \<subseteq> set us' \<Longrightarrow> unit_ok us' u"
  unfolding unit_ok_def by (fastforce split: option.splits)

lemma siblings_append:
  assumes "siblings_distinct us" and "\<And>u. u \<in> set us \<Longrightarrow> ou_name u = ou_name n \<Longrightarrow> ou_parent u \<noteq> ou_parent n"
  shows "siblings_distinct (us @ [n])"
  unfolding siblings_distinct_def
proof (intro ballI impI)
  fix u v assume u: "u \<in> set (us @ [n])" and v: "v \<in> set (us @ [n])" and e: "ou_parent u = ou_parent v \<and> ou_name u = ou_name v"
  have "u \<in> set us \<or> u = n" "v \<in> set us \<or> v = n" using u v by auto
  then show "ou_id u = ou_id v" using e assms by (metis siblings_distinct_def)
qed

lemma create_keeps_tree:
  assumes t: "tree_ok us" and i: "id_ok i" and p: "case parent of None \<Rightarrow> True | Some p \<Rightarrow> p \<in> set us \<and> check_depth (ou_depth p) = Inr ()"
    and s: "\<not> sibling_named us (map_option ou_id parent) name None"
    and c: "create_unit i name ty parent ord us = Inr us'"
  shows "tree_ok us'"
proof -
  have none: "get_unit us i = None" using c by (rule contrapos_pp) (simp add: create_unit_def)
  then have new: "\<forall>u \<in> set us. ou_id u \<noteq> i" by (simp add: get_unit_None)
  obtain path where path: "compose_path (map_option ou_path parent) i = Inr path"
    and us': "us' = us @ [\<lparr>ou_id = i, ou_parent = map_option ou_id parent, ou_type = ty, ou_name = name, ou_path = path,
            ou_depth = (case parent of None \<Rightarrow> 1 | Some p \<Rightarrow> ou_depth p + 1), ou_order = ord\<rparr>]" (is "_ = us @ [?n]")
    using c none by (simp add: create_unit_def split: sum.splits)
  have "unit_ok us' ?n"
  proof (cases parent)
    case None
    then show ?thesis using path i by (auto simp: unit_ok_def compose_root max_depth_def intro!: exI [of _ "[]"])
  next
    case (Some q)
    then have q: "q \<in> set us" "unit_ok us q" "ou_depth q + 1 \<le> int max_depth"
      using p t by (auto simp: tree_ok_def check_depth_def split: if_splits)
    obtain s where s: "s \<noteq> []" "list_all id_ok s" "ou_path q = path_of s" "ou_depth q = int (length s)"
      using q(2) unfolding unit_ok_segs by blast
    show ?thesis using path i q s Some us' by (auto simp: unit_ok_def compose_path_of intro!: exI [of _ s])
  qed
  moreover have "\<And>u. u \<in> set us \<Longrightarrow> unit_ok us' u"
    using t us' unit_ok_more [of us _ us'] by (auto simp: tree_ok_def)
  moreover have "siblings_distinct us'"
    unfolding us' using t s by (intro siblings_append) (auto simp: tree_ok_def sibling_named_def)
  ultimately show ?thesis using t new by (auto simp: us' tree_ok_def)
qed

lemma collect_rows_map: "(\<And>x. x \<in> set xs \<Longrightarrow> f x = Inr (g x)) \<Longrightarrow> collect_rows f xs = Inr (map g xs)"
  by (induction xs) auto

text \<open>What a move does to each row: the subtree gets the new prefix and the new depth.\<close>

definition moved_row :: "org_unit \<Rightarrow> org_unit option \<Rightarrow> org_unit \<Rightarrow> org_unit" where
  "moved_row unit parent row =
     (if starts_with (ou_path row) (ou_path unit)
      then row\<lparr>ou_parent := (if ou_id row = ou_id unit then map_option ou_id parent else ou_parent row),
             ou_path := (case parent of None \<Rightarrow> [delim] | Some p \<Rightarrow> ou_path p) @ ou_id unit @ [delim]
                @ drop (length (ou_path unit)) (ou_path row),
             ou_depth := ou_depth row + (case parent of None \<Rightarrow> 0 | Some p \<Rightarrow> ou_depth p) + 1 - ou_depth unit\<rparr>
      else row)"

lemma moved_row_id [simp]: "ou_id (moved_row u p row) = ou_id row" "ou_name (moved_row u p row) = ou_name row"
  by (simp_all add: moved_row_def)

lemma moved_row_parent:
  assumes "tree_ok us" "u \<in> set us" "row \<in> set us"
  shows "ou_parent (moved_row u p row) = (if ou_id row = ou_id u then map_option ou_id p else ou_parent row)"
proof (cases "ou_id row = ou_id u")
  case True
  then have "row = u" using assms by (auto simp: tree_ok_def intro: same_id_same_unit)
  then show ?thesis by (simp add: moved_row_def starts_with_def)
qed (simp add: moved_row_def)

lemma move_unit_eq:
  assumes t: "tree_ok us" and u: "u \<in> set us" and p: "case parent of None \<Rightarrow> True | Some p \<Rightarrow> p \<in> set us"
  shows "move_unit u parent us = Inr (map (moved_row u parent) us)"
proof -
  have ok: "\<And>x. x \<in> set us \<Longrightarrow> unit_ok us x" and d: "distinct (map ou_id us)" using t by (auto simp: tree_ok_def)
  obtain s where s: "s \<noteq> []" "list_all id_ok s" "ou_path u = path_of s" "last s = ou_id u" "ou_depth u = int (length s)"
    using ok [OF u] unfolding unit_ok_segs by blast
  have i: "id_ok (ou_id u)" using s(1,2,4) by (metis last_in_set list_all_iff)
  obtain js where js: "list_all id_ok js" "compose_path (map_option ou_path parent) (ou_id u) = Inr (path_of (js @ [ou_id u]))"
    "path_of (js @ [ou_id u]) = (case parent of None \<Rightarrow> [delim] | Some p \<Rightarrow> ou_path p) @ ou_id u @ [delim]"
  proof (cases parent)
    case None
    then show thesis using that [of "[]"] i by (simp add: compose_root path_of_def)
  next
    case (Some q)
    then obtain js where "list_all id_ok js" "ou_path q = path_of js"
      using ok [of q] p unfolding unit_ok_segs by auto
    then show thesis using that [of js] i Some by (simp add: compose_path_of path_of_append [of js])
        (simp add: path_of_def)
  qed
  have "move_row u parent (path_of (js @ [ou_id u])) row = Inr (moved_row u parent row)" if row: "row \<in> set us" for row
  proof (cases "ou_id row = ou_id u")
    case True
    then have "row = u" using d row u by (auto intro: same_id_same_unit)
    then show ?thesis using s js(3) by (auto simp: move_row_def moved_row_def starts_with_def split: option.splits)
  next
    case False
    have "is_descendant (ou_path row) (ou_path u)" if "starts_with (ou_path row) (ou_path u)"
      using that s(3) ok [OF row] by (auto simp: is_descendant_def unit_ok_def)
    then show ?thesis using False s js(3)
      by (auto simp: move_row_def moved_row_def rewrite_descendant_path_def split: option.splits)
  qed
  then show ?thesis using js(2) by (simp add: move_unit_def collect_rows_map)
qed

lemma subtree_depths:
  assumes "u \<in> set us" "x \<in> set us" "starts_with (ou_path x) (ou_path u)"
  shows "ou_depth x \<le> subtree_height us (ou_path u) + int (depth_of (ou_path u)) - 1"
proof -
  have x: "x \<in> set (list_subtree us (ou_path u))" using assms by (simp add: list_subtree_def)
  then have "ou_depth x \<le> Max (set (map ou_depth (list_subtree us (ou_path u))))" by (intro Max_ge) auto
  then show ?thesis using x by (auto simp: subtree_height_def Let_def)
qed

lemma moved_path:
  assumes "list_all id_ok (s @ ks)" "parent_path = path_of js"
  shows "parent_path @ i @ [delim] @ drop (length (path_of s)) (path_of (s @ ks)) = path_of (js @ [i] @ ks)"
  using assms by (simp add: path_of_def)

lemma move_keeps_tree:
  assumes t: "tree_ok us" and u: "u \<in> set us"
    and p: "case parent of None \<Rightarrow> True | Some p \<Rightarrow> p \<in> set us"
    and c: "check_move (ou_path u) (ou_id u) (map_option ou_path parent)
        (case parent of None \<Rightarrow> 0 | Some p \<Rightarrow> ou_depth p) (subtree_height us (ou_path u)) = Inr ()"
    and sib: "\<not> sibling_named us (map_option ou_id parent) (ou_name u) (Some (ou_id u))"
  shows "tree_ok (map (moved_row u parent) us)"
proof -
  let ?g = "moved_row u parent"
  have ok: "\<And>x. x \<in> set us \<Longrightarrow> unit_ok us x" and d: "distinct (map ou_id us)" using t by (auto simp: tree_ok_def)
  obtain s where s: "s \<noteq> []" "list_all id_ok s" "ou_path u = path_of s" "last s = ou_id u" "ou_depth u = int (length s)"
    using ok [OF u] unfolding unit_ok_segs by blast
  have i: "id_ok (ou_id u)" using s(1,2,4) by (metis last_in_set list_all_iff)
  obtain js where js: "list_all id_ok js" "(case parent of None \<Rightarrow> [delim] | Some p \<Rightarrow> ou_path p) = path_of js"
    "(case parent of None \<Rightarrow> 0 | Some p \<Rightarrow> ou_depth p) = int (length js)" "parent = None \<Longrightarrow> js = []"
    "\<not> prefix s js"
  proof (cases parent)
    case None
    then show thesis using that [of "[]"] s(1) by (simp add: path_of_def)
  next
    case (Some q)
    then obtain js where js: "list_all id_ok js" "ou_path q = path_of js" "ou_depth q = int (length js)"
      using ok [of q] p unfolding unit_ok_segs by auto
    moreover have "\<not> is_descendant (ou_path q) (ou_path u)" using c Some by (auto simp: check_move_def split: if_splits)
    ultimately show thesis using that [of js] Some s by simp
  qed
  have h: "int (length js) + subtree_height us (ou_path u) \<le> int max_depth"
    using c js(3) by (auto simp: check_move_def split: if_splits)
  have sub: "ou_path (?g x) = path_of (js @ [ou_id u] @ ks)" "ou_depth (?g x) = int (length js + 1 + length ks)"
    "length js + 1 + length ks \<le> max_depth"
    if x: "x \<in> set us" and px: "ou_path x = path_of (s @ ks)" "list_all id_ok ks" for x ks
  proof -
    have st: "starts_with (ou_path x) (ou_path u)" using px s by simp
    obtain xs where xs: "list_all id_ok xs" "ou_path x = path_of xs" "ou_depth x = int (length xs)"
      using ok [OF x] unfolding unit_ok_segs by blast
    then have "xs = s @ ks" using px s by (simp add: path_of_eq_iff)
    then show "ou_path (?g x) = path_of (js @ [ou_id u] @ ks)" "ou_depth (?g x) = int (length js + 1 + length ks)"
      using st px s xs js moved_path [of s ks "path_of js" js "ou_id u"] by (simp_all add: moved_row_def)
    show "length js + 1 + length ks \<le> max_depth"
      using subtree_depths [OF u x st] h xs s \<open>xs = s @ ks\<close> by simp
  qed
  have "unit_ok (map ?g us) (?g x)" if x: "x \<in> set us" for x
  proof -
    obtain xs where xs: "xs \<noteq> []" "list_all id_ok xs" "ou_path x = path_of xs" "last xs = ou_id x"
      "ou_depth x = int (length xs)" "length xs \<le> max_depth"
      "case ou_parent x of None \<Rightarrow> butlast xs = [] | Some p \<Rightarrow> \<exists>v \<in> set us. ou_id v = p \<and> ou_path v = path_of (butlast xs)"
      using ok [OF x] unfolding unit_ok_segs by blast
    have bl: "list_all id_ok (butlast xs)" using xs(2) by (auto simp: list_all_iff dest: in_set_butlastD)
    show ?thesis
    proof (cases "prefix s xs")
      case False
      then have g: "?g x = x" using xs s by (simp add: moved_row_def)
      have "\<not> prefix s (butlast xs)" using False prefix_order.trans [OF _ prefixeq_butlast] by blast
      then have "?g v = v" if "ou_path v = path_of (butlast xs)" for v using that s bl by (simp add: moved_row_def)
      then show ?thesis unfolding unit_ok_segs g using xs
        by (intro exI [of _ xs]) (force split: option.splits)
    next
      case True
      then obtain ks where ks: "xs = s @ ks" by (auto simp: prefix_def)
      then have px: "ou_path x = path_of (s @ ks)" "list_all id_ok ks" using xs by auto
      note gx = sub [OF x px]
      have par: "ou_parent (?g x) = (if ou_id x = ou_id u then map_option ou_id parent else ou_parent x)"
        using t u x by (rule moved_row_parent)
      have "case ou_parent (?g x) of None \<Rightarrow> butlast (js @ [ou_id u] @ ks) = []
          | Some q \<Rightarrow> \<exists>v \<in> set (map ?g us). ou_id v = q \<and> ou_path v = path_of (butlast (js @ [ou_id u] @ ks))"
      proof (cases "ks = []")
        case True
        then have xu: "ou_id x = ou_id u" using ks xs s by simp
        show ?thesis
        proof (cases parent)
          case None
          then show ?thesis using par xu True js by simp
        next
          case (Some q)
          then have q: "q \<in> set us" "ou_path q = path_of js" using p js by auto
          then have "?g q = q" using js s by (simp add: moved_row_def)
          then show ?thesis using par xu True Some q by (auto simp: image_iff intro!: bexI [of _ q])
        qed
      next
        case False
        have "ou_id x \<noteq> ou_id u"
        proof
          assume "ou_id x = ou_id u"
          then have "x = u" using d x u by (auto intro: same_id_same_unit)
          then have "path_of (s @ ks) = path_of s" using px s by simp
          then show False using False px s by (simp add: path_of_eq_iff)
        qed
        moreover have b: "butlast xs = s @ butlast ks" using False ks by (simp add: butlast_append)
        ultimately obtain q v where q: "ou_parent (?g x) = Some q" "v \<in> set us" "ou_id v = q" "ou_path v = path_of (s @ butlast ks)"
          using xs(7) par s(1) by (auto split: option.splits)
        have "list_all id_ok (butlast ks)" using px(2) by (auto simp: list_all_iff dest: in_set_butlastD)
        then have "ou_path (?g v) = path_of (js @ [ou_id u] @ butlast ks)" using sub(1) [OF q(2,4)] by simp
        then show ?thesis using q False by (auto simp: butlast_append intro!: bexI [of _ v])
      qed
      moreover have "last (js @ [ou_id u] @ ks) = ou_id x"
        using ks xs(4) s(4) by (cases "ks = []") auto
      ultimately show ?thesis unfolding unit_ok_segs using gx px i js(1)
        by (intro exI [of _ "js @ [ou_id u] @ ks"]) auto
    qed
  qed
  moreover have "siblings_distinct (map ?g us)"
    unfolding siblings_distinct_def
  proof (intro ballI impI)
    fix a b assume "a \<in> set (map ?g us)" "b \<in> set (map ?g us)" and e: "ou_parent a = ou_parent b \<and> ou_name a = ou_name b"
    then obtain x y where xy: "x \<in> set us" "y \<in> set us" "a = ?g x" "b = ?g y" by auto
    have "siblings_distinct us" using t by (simp add: tree_ok_def)
    moreover have no: "ou_id z = ou_id u" if "z \<in> set us" "ou_name z = ou_name u" "ou_parent z = map_option ou_id parent" for z
      using sib that by (auto simp: sibling_named_def)
    moreover have "ou_parent a = (if ou_id x = ou_id u then map_option ou_id parent else ou_parent x)"
      "ou_parent b = (if ou_id y = ou_id u then map_option ou_id parent else ou_parent y)"
      "ou_name a = ou_name x" "ou_name b = ou_name y" "ou_id a = ou_id x" "ou_id b = ou_id y"
      using xy t u by (simp_all add: moved_row_parent)
    moreover have "ou_id z = ou_id u \<Longrightarrow> ou_name z = ou_name u" if "z \<in> set us" for z
      using same_id_same_unit [OF d that u] by blast
    ultimately show "ou_id a = ou_id b" using e xy(1,2)
      unfolding siblings_distinct_def by (cases "ou_id x = ou_id u"; cases "ou_id y = ou_id u") metis+
  qed
  ultimately show ?thesis using d by (auto simp: tree_ok_def comp_def)
qed

lemma delete_keeps_tree:
  assumes t: "tree_ok us" and u: "u \<in> set us" and c: "child_count us (ou_id u) = 0"
  shows "tree_ok (delete_unit u us)"
proof -
  have keep: "\<And>x. x \<in> set us \<Longrightarrow> ou_parent x \<noteq> Some (ou_id u)" using c by (auto simp: child_count_def filter_empty_conv)
  have "unit_ok (delete_unit u us) x" if x: "x \<in> set us" for x
  proof -
    have "unit_ok us x" using t x by (simp add: tree_ok_def)
    then obtain ids where ids: "list_all id_ok ids" "id_ok (ou_id x)" "ou_path x = path_of (ids @ [ou_id x])"
      "ou_depth x = int (length ids) + 1" "length ids < max_depth"
      "case ou_parent x of None \<Rightarrow> ids = [] | Some p \<Rightarrow> \<exists>v \<in> set us. ou_id v = p \<and> ou_path v = path_of ids"
      by (rule unit_okE)
    then have "case ou_parent x of None \<Rightarrow> ids = [] | Some p \<Rightarrow> \<exists>v \<in> set (delete_unit u us). ou_id v = p \<and> ou_path v = path_of ids"
      using keep [OF x] by (auto simp: delete_unit_def split: option.splits)
    with ids show ?thesis unfolding unit_ok_def by blast
  qed
  moreover have sub: "set (delete_unit u us) \<subseteq> set us" by (auto simp: delete_unit_def)
  moreover have "siblings_distinct (delete_unit u us)"
    using t sub unfolding tree_ok_def siblings_distinct_def by blast
  moreover have "distinct (map ou_id (delete_unit u us))"
    using t by (simp add: tree_ok_def delete_unit_def distinct_map_filter)
  ultimately show ?thesis unfolding tree_ok_def by blast
qed

end
