(* ===== verification/Scope.thy ===== *)
theory Scope
  imports Org_Tree
begin

text \<open>
  Scoped authorization in central command (\<open>src/services/central_command/src/harkeniq_cc/scope.py\<close>):
  what one grant covers, the resolution of the grant rows of a principal, the decision \<open>permits\<close>,
  delegation, and the count of administrators. The clock reading of a call is an argument.
\<close>

subsection \<open>One grant\<close>

datatype scope_kind = KTenant | KOrgUnit | KSite | KDeviceClass | KDevice

definition scope_kind_of :: "string \<Rightarrow> scope_kind option" where
  "scope_kind_of s =
     (if s = ''tenant'' then Some KTenant else if s = ''org_unit'' then Some KOrgUnit
      else if s = ''site'' then Some KSite else if s = ''device_class'' then Some KDeviceClass
      else if s = ''device'' then Some KDevice else None)"

definition principal_user :: string where "principal_user = ''user''"
definition legacy_open :: string where "legacy_open = ''legacy_open''"
definition enforcement_strict :: string where "enforcement_strict = ''strict''"
definition scope_only_marker :: string where "scope_only_marker = ''__scope_only__''"
definition admin_permission :: string where "admin_permission = ''role.manage''"

datatype scope_error = ScopeError

text \<open>The row of \<open>cc_scope_grants\<close>, and a site with the unit it hangs from.\<close>

record grant_row =
  gr_id :: string
  gr_ptype :: string
  gr_pref :: string
  gr_realm :: string
  gr_stype :: string
  gr_sref :: string
  gr_subset :: "string list option"
  gr_role :: string
  gr_revoked :: "time option"
  gr_expires :: "time option"

record cc_site =
  cs_id :: string
  cs_unit :: "string option"

definition grant_active :: "time \<Rightarrow> grant_row \<Rightarrow> bool" where
  "grant_active now r \<longleftrightarrow> gr_revoked r = None \<and> (case gr_expires r of None \<Rightarrow> True | Some e \<Rightarrow> now < e)"

record grant =
  g_kind :: scope_kind
  g_ref :: string
  g_perms :: "string set"
  g_path :: string
  g_synth :: bool
  g_inert :: bool
  g_why :: string

definition g_covers_site :: "grant \<Rightarrow> string \<Rightarrow> string \<Rightarrow> bool" where
  "g_covers_site g site path \<longleftrightarrow> \<not> g_inert g \<and>
     (case g_kind g of KTenant \<Rightarrow> True
      | KSite \<Rightarrow> site \<noteq> [] \<and> g_ref g = site
      | KOrgUnit \<Rightarrow> path \<noteq> [] \<and> is_descendant path (g_path g)
      | _ \<Rightarrow> False)"

definition g_covers_org_unit :: "grant \<Rightarrow> string \<Rightarrow> bool" where
  "g_covers_org_unit g path \<longleftrightarrow> \<not> g_inert g \<and>
     (case g_kind g of KTenant \<Rightarrow> True | KOrgUnit \<Rightarrow> path \<noteq> [] \<and> is_descendant path (g_path g) | _ \<Rightarrow> False)"

definition g_covers_device :: "grant \<Rightarrow> string \<Rightarrow> string \<Rightarrow> string \<Rightarrow> string \<Rightarrow> bool" where
  "g_covers_device g agent site path cls \<longleftrightarrow> \<not> g_inert g \<and>
     (case g_kind g of KDevice \<Rightarrow> agent \<noteq> [] \<and> g_ref g = agent
      | KDeviceClass \<Rightarrow> cls \<noteq> [] \<and> lower (g_ref g) = lower cls
      | _ \<Rightarrow> g_covers_site g site path)"

definition g_covers_tenant :: "grant \<Rightarrow> bool" where
  "g_covers_tenant g \<longleftrightarrow> g_kind g = KTenant \<and> \<not> g_inert g"

definition carries :: "string \<Rightarrow> grant \<Rightarrow> bool" where
  "carries p g \<longleftrightarrow> p \<in> g_perms g \<or> ''*'' \<in> g_perms g"

subsection \<open>The resolved scope and the decision\<close>

record resolved_scope =
  rs_tenant :: string
  rs_ptype :: string
  rs_pref :: string
  rs_enforcement :: string
  rs_grants :: "grant list"
  rs_tenant_wide :: bool
  rs_site_ids :: "string set"
  rs_org_paths :: "string set"
  rs_device_classes :: "string set"
  rs_device_ids :: "string set"
  rs_contextual :: "string set"
  rs_site_paths :: "(string, string) dict"
  rs_unit_paths :: "(string, string) dict"
  rs_scope_only :: bool
  rs_prior :: bool
  rs_synthesis :: string

text \<open>The target of a question; the empty text is a target that was not named.\<close>

record scope_query =
  q_site :: string
  q_unit :: string
  q_agent :: string
  q_class :: string
  q_tenant :: bool

definition site_query :: "string \<Rightarrow> scope_query" where
  "site_query s = \<lparr>q_site = s, q_unit = [], q_agent = [], q_class = [], q_tenant = False\<rparr>"

definition unit_query :: "string \<Rightarrow> scope_query" where
  "unit_query p = \<lparr>q_site = [], q_unit = p, q_agent = [], q_class = [], q_tenant = False\<rparr>"

definition device_query :: "string \<Rightarrow> string \<Rightarrow> string \<Rightarrow> scope_query" where
  "device_query site agent cls = \<lparr>q_site = site, q_unit = [], q_agent = agent, q_class = cls, q_tenant = False\<rparr>"

definition tenant_query :: scope_query where
  "tenant_query = \<lparr>q_site = [], q_unit = [], q_agent = [], q_class = [], q_tenant = True\<rparr>"

definition unit_path_for :: "(string, string) dict \<Rightarrow> string \<Rightarrow> string \<Rightarrow> string" where
  "unit_path_for site_paths site given = (if given \<noteq> [] then given else dget_or site_paths site [])"

definition grant_reaches :: "grant \<Rightarrow> scope_query \<Rightarrow> string \<Rightarrow> bool" where
  "grant_reaches g q path =
     (if q_tenant q then g_covers_tenant g
      else if q_agent q \<noteq> [] \<or> q_class q \<noteq> [] then g_covers_device g (q_agent q) (q_site q) path (q_class q)
      else if q_unit q \<noteq> [] then g_covers_org_unit g (q_unit q)
      else if q_site q \<noteq> [] then g_covers_site g (q_site q) path
      else g_covers_tenant g)"

definition permits :: "resolved_scope \<Rightarrow> string \<Rightarrow> scope_query \<Rightarrow> scope_error + bool" where
  "permits s p q =
     (if rs_scope_only s then Inl ScopeError
      else Inr (\<exists>g \<in> set (rs_grants s). \<not> g_inert g \<and> carries p g \<and>
        grant_reaches g q (unit_path_for (rs_site_paths s) (q_site q) (q_unit q))))"

definition may_ever :: "resolved_scope \<Rightarrow> string \<Rightarrow> bool" where
  "may_ever s p \<longleftrightarrow> (\<exists>g \<in> set (rs_grants s). \<not> g_inert g \<and> carries p g)"

text \<open>A device as it currently resolves at a site (\<open>target_authority.AuthorizedTarget\<close>).\<close>

record authorized_target =
  at_agent :: string
  at_site :: string
  at_class :: string

definition permits_owned :: "resolved_scope \<Rightarrow> string \<Rightarrow> string \<Rightarrow> authorized_target option \<Rightarrow> scope_error + bool" where
  "permits_owned s p site target =
     (case target of Some t \<Rightarrow> permits s p (device_query (at_site t) (at_agent t) (at_class t))
      | None \<Rightarrow> permits s p (site_query site))"

definition rs_covers_site :: "resolved_scope \<Rightarrow> string \<Rightarrow> string \<Rightarrow> bool" where
  "rs_covers_site s site given \<longleftrightarrow>
     (let path = unit_path_for (rs_site_paths s) site given in \<exists>g \<in> set (rs_grants s). g_covers_site g site path)"

definition rs_covers_device :: "resolved_scope \<Rightarrow> string \<Rightarrow> string \<Rightarrow> string \<Rightarrow> bool" where
  "rs_covers_device s agent site cls \<longleftrightarrow>
     (let path = unit_path_for (rs_site_paths s) site [] in \<exists>g \<in> set (rs_grants s). g_covers_device g agent site path cls)"

definition rs_covers_org_unit :: "resolved_scope \<Rightarrow> string \<Rightarrow> bool" where
  "rs_covers_org_unit s path \<longleftrightarrow> (\<exists>g \<in> set (rs_grants s). g_covers_org_unit g path)"

definition rs_covers_org_unit_id :: "resolved_scope \<Rightarrow> string \<Rightarrow> bool" where
  "rs_covers_org_unit_id s i \<longleftrightarrow> (let path = dget_or (rs_unit_paths s) i [] in path \<noteq> [] \<and> rs_covers_org_unit s path)"

definition scope_is_empty :: "resolved_scope \<Rightarrow> bool" where
  "scope_is_empty s \<longleftrightarrow> \<not> (\<exists>g \<in> set (rs_grants s). \<not> g_inert g)"

definition administered :: "resolved_scope \<Rightarrow> bool" where
  "administered s \<longleftrightarrow> rs_prior s \<or> (\<exists>g \<in> set (rs_grants s). \<not> g_synth g)"

subsection \<open>Delegation\<close>

definition one_covers_grant :: "resolved_scope \<Rightarrow> grant \<Rightarrow> grant \<Rightarrow> bool" where
  "one_covers_grant s mine g \<longleftrightarrow> \<not> g_inert mine \<and>
     (g_kind mine = KTenant \<or>
      (case g_kind g of KTenant \<Rightarrow> False
       | KOrgUnit \<Rightarrow> (let path = (if g_path g \<noteq> [] then g_path g else dget_or (rs_unit_paths s) (g_ref g) [])
           in path \<noteq> [] \<and> g_covers_org_unit mine path)
       | KSite \<Rightarrow> g_covers_site mine (g_ref g) (dget_or (rs_site_paths s) (g_ref g) [])
       | KDevice \<Rightarrow> g_kind mine = KDevice \<and> g_ref mine = g_ref g
       | KDeviceClass \<Rightarrow> g_kind mine = KDeviceClass \<and> lower (g_ref mine) = lower (g_ref g)))"

definition covers_grant :: "resolved_scope \<Rightarrow> grant \<Rightarrow> bool" where
  "covers_grant s g \<longleftrightarrow> (\<exists>mine \<in> set (rs_grants s). one_covers_grant s mine g)"

definition can_delegate :: "resolved_scope \<Rightarrow> resolved_scope \<Rightarrow> bool" where
  "can_delegate s other \<longleftrightarrow> (\<forall>g \<in> set (rs_grants other). \<not> g_inert g \<and> covers_grant s g)"

subsection \<open>Resolution\<close>

definition effective_permissions :: "string list \<Rightarrow> string list option \<Rightarrow> string set" where
  "effective_permissions role narrowed =
     (case narrowed of None \<Rightarrow> set role
      | Some ps \<Rightarrow> (let requested = set (filter (\<lambda>p. p \<noteq> []) ps)
          in if requested = {} then {}
             else if scope_only_marker \<in> set role then {scope_only_marker}
             else if ''*'' \<in> set role then requested
             else set role \<inter> requested))"

definition grant_permissions :: "grant_row \<Rightarrow> string list \<Rightarrow> string list option \<Rightarrow> string set" where
  "grant_permissions row role cap =
     (let ps = effective_permissions role (gr_subset row)
      in case cap of None \<Rightarrow> ps
         | Some cs \<Rightarrow>
             if ps = {} then ps
             else (let c = set (filter (\<lambda>p. p \<noteq> []) cs)
               in if scope_only_marker \<in> ps \<or> ''*'' \<in> c then ps
                  else if ''*'' \<in> ps then c else ps \<inter> c))"

text \<open>\<open>unit_by_id\<close> and \<open>site_unit_paths\<close>; a repeated id keeps the last row.\<close>

definition unit_by_id :: "org_unit list \<Rightarrow> (string, org_unit) dict" where
  "unit_by_id us = fold (\<lambda>u. dset (ou_id u) u) us []"

definition site_path_of :: "(string, org_unit) dict \<Rightarrow> cc_site \<Rightarrow> string" where
  "site_path_of ud c = (case dget ud (case cs_unit c of None \<Rightarrow> [] | Some i \<Rightarrow> i) of None \<Rightarrow> [] | Some u \<Rightarrow> ou_path u)"

definition site_unit_paths :: "(string, org_unit) dict \<Rightarrow> cc_site list \<Rightarrow> (string, string) dict" where
  "site_unit_paths ud sites = fold (\<lambda>c. dset (cs_id c) (site_path_of ud c)) sites []"

text \<open>One active row; \<open>None\<close> when it grants nothing. A grant whose target is gone stays as inert.\<close>

definition kind_grant :: "(string, org_unit) dict \<Rightarrow> string set \<Rightarrow> scope_kind \<Rightarrow> string set \<Rightarrow> grant_row \<Rightarrow> grant" where
  "kind_grant ud known k ps row =
     (let path = (if k = KOrgUnit then (case dget ud (gr_sref row) of None \<Rightarrow> [] | Some u \<Rightarrow> ou_path u) else []);
          why = (if k = KOrgUnit \<and> dget ud (gr_sref row) = None then ''org_unit_missing''
                 else if k = KSite \<and> gr_sref row \<notin> known then ''site_missing'' else [])
      in \<lparr>g_kind = k, g_ref = gr_sref row, g_perms = ps, g_path = path, g_synth = False,
          g_inert = (why \<noteq> []), g_why = why\<rparr>)"

definition grant_of_row ::
  "(string, org_unit) dict \<Rightarrow> string set \<Rightarrow> string list \<Rightarrow> (grant_row \<Rightarrow> string list option) \<Rightarrow> grant_row \<Rightarrow> grant option"
  where
  "grant_of_row ud known role cap row =
     (case scope_kind_of (strip_text (gr_stype row)) of None \<Rightarrow> None
      | Some k \<Rightarrow>
          (let ps = grant_permissions row role (cap row)
           in if ps = {} then None else Some (kind_grant ud known k ps row)))"

definition synthesized_grant :: "string list \<Rightarrow> grant" where
  "synthesized_grant role = \<lparr>g_kind = KTenant, g_ref = [], g_perms = set role, g_path = [], g_synth = True,
     g_inert = False, g_why = []\<rparr>"

definition synthesis_of :: "grant list \<Rightarrow> string \<Rightarrow> string \<Rightarrow> bool \<Rightarrow> string" where
  "synthesis_of grants ptype enforcement prior =
     (if grants \<noteq> [] then ''granted'' else if ptype \<noteq> principal_user then ''agent''
      else if enforcement \<noteq> legacy_open then ''strict'' else if prior then ''previously_granted''
      else ''never_granted'')"

definition project_scope ::
  "bool \<Rightarrow> string \<Rightarrow> string \<Rightarrow> string \<Rightarrow> string \<Rightarrow> grant list \<Rightarrow> (string, org_unit) dict \<Rightarrow> cc_site list
     \<Rightarrow> (string, string) dict \<Rightarrow> bool \<Rightarrow> string \<Rightarrow> resolved_scope" where
  "project_scope only tenant ptype pref enforcement all_grants ud sites paths prior synthesis =
     (let gs = filter (\<lambda>g. \<not> g_inert g) all_grants;
          wide = list_ex (\<lambda>g. g_kind g = KTenant) gs;
          org_paths = set (map g_path (filter (\<lambda>g. g_kind g = KOrgUnit) gs));
          own = set (map g_ref (filter (\<lambda>g. g_kind g = KSite) gs))
      in \<lparr>rs_tenant = tenant, rs_ptype = ptype, rs_pref = pref, rs_enforcement = enforcement,
          rs_grants = all_grants, rs_tenant_wide = wide,
          rs_site_ids = own \<union> (if wide then set (map cs_id sites)
             else set (map cs_id (filter (\<lambda>c. let p = dget_or paths (cs_id c) [] in
               p \<noteq> [] \<and> (\<exists>o' \<in> org_paths. is_descendant p o')) sites))),
          rs_org_paths = org_paths,
          rs_device_classes = set (map (lower \<circ> g_ref) (filter (\<lambda>g. g_kind g = KDeviceClass) gs)),
          rs_device_ids = set (map g_ref (filter (\<lambda>g. g_kind g = KDevice) gs)),
          rs_contextual = (\<Union>p \<in> org_paths. set (ancestor_ids p))
             - set (map ou_id (filter (\<lambda>u. ou_path u \<in> org_paths) (dvals ud))),
          rs_site_paths = paths, rs_unit_paths = map (\<lambda>(i, u). (ou_id u, ou_path u)) ud,
          rs_scope_only = only, rs_prior = prior, rs_synthesis = synthesis\<rparr>)"

definition resolve_scope ::
  "string \<Rightarrow> string \<Rightarrow> string \<Rightarrow> string list \<Rightarrow> grant_row list \<Rightarrow> org_unit list \<Rightarrow> cc_site list \<Rightarrow> string
     \<Rightarrow> time \<Rightarrow> (grant_row \<Rightarrow> string list option) \<Rightarrow> grant_row list \<Rightarrow> resolved_scope" where
  "resolve_scope tenant ptype pref role rows units sites enforcement now cap prior_grants =
     (let prior = (rows \<noteq> [] \<or> prior_grants \<noteq> []);
          ud = unit_by_id units;
          known = set (map cs_id sites);
          paths = site_unit_paths ud sites;
          grants = List.map_filter (grant_of_row ud known role cap) (filter (grant_active now) rows);
          synthesis = synthesis_of grants ptype enforcement prior
      in project_scope (scope_only_marker \<in> set role) tenant ptype pref enforcement
           (if synthesis = ''never_granted'' then [synthesized_grant role] else grants)
           ud sites paths prior synthesis)"

definition empty_scope :: "string \<Rightarrow> string \<Rightarrow> resolved_scope" where
  "empty_scope tenant pref = \<lparr>rs_tenant = tenant, rs_ptype = principal_user, rs_pref = pref,
     rs_enforcement = enforcement_strict, rs_grants = [], rs_tenant_wide = False, rs_site_ids = {}, rs_org_paths = {},
     rs_device_classes = {}, rs_device_ids = {}, rs_contextual = {}, rs_site_paths = [], rs_unit_paths = [],
     rs_scope_only = False, rs_prior = False, rs_synthesis = []\<rparr>"

text \<open>The sites that scope rules of an agent or a campaign reach.\<close>

definition expand_rule :: "(string, org_unit) dict \<Rightarrow> cc_site list \<Rightarrow> grant_row \<Rightarrow> string list" where
  "expand_rule ud sites rule =
     (if gr_stype rule = ''site'' \<and> gr_sref rule \<noteq> [] then [gr_sref rule]
      else if gr_stype rule = ''org_unit''
      then (case dget ud (gr_sref rule) of None \<Rightarrow> []
        | Some u \<Rightarrow> map cs_id (filter (\<lambda>c.
            case dget ud (case cs_unit c of None \<Rightarrow> [] | Some i \<Rightarrow> i) of None \<Rightarrow> False
            | Some parent \<Rightarrow> is_descendant (ou_path parent) (ou_path u)) sites))
      else if gr_stype rule = ''tenant'' then map cs_id sites
      else [])"

definition expand_rules_to_site_ids :: "grant_row list \<Rightarrow> org_unit list \<Rightarrow> cc_site list \<Rightarrow> string set" where
  "expand_rules_to_site_ids rules units sites = set (concat (map (expand_rule (unit_by_id units) sites) rules))"

subsection \<open>Lookups in the resolved maps\<close>

lemma dget_fold_dset:
  "dget (fold (\<lambda>x. dset (k x) (v x)) xs d) i
     = (case find (\<lambda>x. k x = i) (rev xs) of Some x \<Rightarrow> Some (v x) | None \<Rightarrow> dget d i)"
proof (induction xs arbitrary: d)
  case (Cons x xs)
  have "find (\<lambda>x. k x = i) (ys @ [x]) = (case find (\<lambda>x. k x = i) ys of None \<Rightarrow> if k x = i then Some x else None | r \<Rightarrow> r)" for ys
    by (induction ys) auto
  then show ?case using Cons.IH [of "dset (k x) (v x) d"] by (auto split: option.splits)
qed simp

lemma find_rev_distinct: "distinct (map k xs) \<Longrightarrow> find (\<lambda>x. k x = i) (rev xs) = find (\<lambda>x. k x = i) xs"
proof (rule option.expand)
  assume "distinct (map k xs)"
  then have inj: "\<And>x y. x \<in> set xs \<Longrightarrow> y \<in> set xs \<Longrightarrow> k x = k y \<Longrightarrow> x = y" by (auto simp: distinct_map inj_on_def)
  show "(find (\<lambda>x. k x = i) (rev xs) = None) = (find (\<lambda>x. k x = i) xs = None)" by (simp add: find_None_iff)
  assume "find (\<lambda>x. k x = i) (rev xs) \<noteq> None" "find (\<lambda>x. k x = i) xs \<noteq> None"
  then obtain a b where "find (\<lambda>x. k x = i) (rev xs) = Some a" "find (\<lambda>x. k x = i) xs = Some b" by auto
  moreover from this have "a \<in> set xs" "k a = i" "b \<in> set xs" "k b = i"
    by (auto simp: find_Some_iff) (metis nth_mem length_rev set_rev)+
  ultimately show "the (find (\<lambda>x. k x = i) (rev xs)) = the (find (\<lambda>x. k x = i) xs)" using inj by auto
qed

lemma dget_unit_by_id: "distinct (map ou_id us) \<Longrightarrow> dget (unit_by_id us) i = get_unit us i"
  by (simp add: unit_by_id_def dget_fold_dset find_rev_distinct get_unit_def split: option.splits)

lemma dget_site_paths:
  assumes "distinct (map cs_id sites)"
  shows "dget_or (site_unit_paths ud sites) i []
     = (case find (\<lambda>c. cs_id c = i) sites of None \<Rightarrow> [] | Some c \<Rightarrow> site_path_of ud c)"
  using assms by (simp add: site_unit_paths_def dget_or_def dget_fold_dset find_rev_distinct split: option.splits)

lemma find_distinct:
  "distinct (map k xs) \<Longrightarrow> x \<in> set xs \<Longrightarrow> find (\<lambda>y. k y = k x) xs = Some x"
  by (induction xs) (auto simp: image_iff)

lemma get_unit_distinct: "distinct (map ou_id us) \<Longrightarrow> u \<in> set us \<Longrightarrow> get_unit us (ou_id u) = Some u"
  by (simp add: get_unit_def find_distinct)

lemma find_SomeD: "find P xs = Some x \<Longrightarrow> x \<in> set xs \<and> P x"
  by (auto simp: find_Some_iff)

lemma in_map_filter: "y \<in> set (List.map_filter f xs) \<longleftrightarrow> (\<exists>x \<in> set xs. f x = Some y)"
  by (auto simp: List.map_filter_def image_iff)

lemma project_simps [simp]:
  "rs_grants (project_scope only tenant ptype pref enf gs ud sites paths prior syn) = gs"
  "rs_site_paths (project_scope only tenant ptype pref enf gs ud sites paths prior syn) = paths"
  "rs_scope_only (project_scope only tenant ptype pref enf gs ud sites paths prior syn) = only"
  by (simp_all add: project_scope_def Let_def)

lemma resolve_simps [simp]:
  "rs_site_paths (resolve_scope tenant ptype pref role rows units sites enf now cap prior) = site_unit_paths (unit_by_id units) sites"
  "rs_scope_only (resolve_scope tenant ptype pref role rows units sites enf now cap prior) = (scope_only_marker \<in> set role)"
  by (simp_all add: resolve_scope_def Let_def)

definition row_grants ::
  "org_unit list \<Rightarrow> cc_site list \<Rightarrow> string list \<Rightarrow> time \<Rightarrow> (grant_row \<Rightarrow> string list option) \<Rightarrow> grant_row list \<Rightarrow> grant list" where
  "row_grants units sites role now cap rows =
     List.map_filter (grant_of_row (unit_by_id units) (set (map cs_id sites)) role cap) (filter (grant_active now) rows)"

lemma resolved_grants:
  "rs_grants (resolve_scope tenant ptype pref role rows units sites enf now cap prior) =
     (if row_grants units sites role now cap rows = [] \<and> ptype = principal_user \<and> enf = legacy_open \<and> rows = [] \<and> prior = []
      then [synthesized_grant role] else row_grants units sites role now cap rows)"
  by (auto simp: resolve_scope_def Let_def row_grants_def synthesis_of_def)

lemma row_grants_Nil [simp]: "row_grants units sites role now cap [] = []"
  by (simp add: row_grants_def List.map_filter_def)

lemma in_row_grants:
  "g \<in> set (row_grants units sites role now cap rows) \<longleftrightarrow>
     (\<exists>r \<in> set rows. grant_active now r \<and> grant_of_row (unit_by_id units) (set (map cs_id sites)) role cap r = Some g)"
  by (auto simp: row_grants_def in_map_filter)

lemma kind_grant_simps [simp]:
  "g_kind (kind_grant ud known k ps r) = k" "g_ref (kind_grant ud known k ps r) = gr_sref r"
  "g_perms (kind_grant ud known k ps r) = ps" "\<not> g_synth (kind_grant ud known k ps r)"
  "g_inert (kind_grant ud known k ps r) \<longleftrightarrow> k = KOrgUnit \<and> dget ud (gr_sref r) = None \<or> k = KSite \<and> gr_sref r \<notin> known"
  "g_path (kind_grant ud known k ps r) = (if k = KOrgUnit then (case dget ud (gr_sref r) of None \<Rightarrow> [] | Some u \<Rightarrow> ou_path u) else [])"
  by (auto simp: kind_grant_def Let_def)

lemma grant_of_row_Some:
  "grant_of_row ud known role cap r = Some g \<longleftrightarrow> grant_permissions r role (cap r) \<noteq> {} \<and>
     (\<exists>k. scope_kind_of (strip_text (gr_stype r)) = Some k \<and> g = kind_grant ud known k (grant_permissions r role (cap r)) r)"
  by (auto simp: grant_of_row_def Let_def split: option.splits)

lemma row_grants_proper: "g \<in> set (row_grants units sites role now cap rows) \<Longrightarrow> \<not> g_synth g"
  by (auto simp: in_row_grants grant_of_row_Some)

subsection \<open>Access to a site, from the rows and the tree\<close>

text \<open>The permission a row carries and the sites it reaches, without paths and without grants. A row without a subset gives
  the role; a subset is cut to the role unless the role is the wildcard; the recorded role is a ceiling, which a wildcard
  itself and a subset of a wildcard role that names the marker lift.\<close>

definition row_carries :: "string list \<Rightarrow> (grant_row \<Rightarrow> string list option) \<Rightarrow> string \<Rightarrow> grant_row \<Rightarrow> bool" where
  "row_carries role cap p row \<longleftrightarrow>
     (case gr_subset row of None \<Rightarrow> p \<in> set role \<or> ''*'' \<in> set role
      | Some ps \<Rightarrow> if ''*'' \<in> set role then p \<in> set ps \<or> ''*'' \<in> set ps else p \<in> set role \<and> p \<in> set ps) \<and>
     (case cap row of None \<Rightarrow> True
      | Some cs \<Rightarrow> p \<in> set cs \<or> ''*'' \<in> set cs \<or>
          ''*'' \<in> set role \<and> (case gr_subset row of None \<Rightarrow> False | Some ps \<Rightarrow> scope_only_marker \<in> set ps))"

definition row_reaches_site :: "org_unit list \<Rightarrow> cc_site list \<Rightarrow> grant_row \<Rightarrow> string \<Rightarrow> bool" where
  "row_reaches_site units sites row site \<longleftrightarrow>
     (case scope_kind_of (strip_text (gr_stype row)) of
        Some KTenant \<Rightarrow> True
      | Some KSite \<Rightarrow> gr_sref row = site \<and> (\<exists>c \<in> set sites. cs_id c = site)
      | Some KOrgUnit \<Rightarrow> (\<exists>u \<in> set units. \<exists>w \<in> set units. \<exists>c \<in> set sites. ou_id u = gr_sref row \<and>
          cs_id c = site \<and> cs_unit c = Some (ou_id w) \<and> under units w u)
      | _ \<Rightarrow> False)"

lemma carried_effective:
  assumes "scope_only_marker \<notin> set role" "p \<noteq> []"
  shows "p \<in> effective_permissions role sub \<or> ''*'' \<in> effective_permissions role sub \<longleftrightarrow>
      (case sub of None \<Rightarrow> p \<in> set role \<or> ''*'' \<in> set role
       | Some ps \<Rightarrow> if ''*'' \<in> set role then p \<in> set ps \<or> ''*'' \<in> set ps else p \<in> set role \<and> p \<in> set ps)"
    "scope_only_marker \<in> effective_permissions role sub \<longleftrightarrow>
      ''*'' \<in> set role \<and> (case sub of None \<Rightarrow> False | Some ps \<Rightarrow> scope_only_marker \<in> set ps)"
  using assms by (auto simp: effective_permissions_def Let_def scope_only_marker_def split: option.splits)

lemma carried_perms:
  assumes "scope_only_marker \<notin> set role" "p \<noteq> []"
  shows "(p \<in> grant_permissions row role (cap row) \<or> ''*'' \<in> grant_permissions row role (cap row)) \<longleftrightarrow> row_carries role cap p row"
proof -
  let ?e = "effective_permissions role (gr_subset row)"
  have "(p \<in> grant_permissions row role (cap row) \<or> ''*'' \<in> grant_permissions row role (cap row)) \<longleftrightarrow>
      (p \<in> ?e \<or> ''*'' \<in> ?e) \<and> (case cap row of None \<Rightarrow> True | Some cs \<Rightarrow> p \<in> set cs \<or> ''*'' \<in> set cs \<or> scope_only_marker \<in> ?e)"
    using assms(2) by (auto simp: grant_permissions_def Let_def split: option.splits)
  then show ?thesis unfolding carried_effective [OF assms] row_carries_def .
qed

lemma site_path_under:
  assumes t: "tree_ok units" and u: "u \<in> set units"
  shows "site_path_of (unit_by_id units) c \<noteq> [] \<and> is_descendant (site_path_of (unit_by_id units) c) (ou_path u) \<longleftrightarrow>
    (\<exists>w \<in> set units. cs_unit c = Some (ou_id w) \<and> under units w u)"
proof -
  have d: "distinct (map ou_id units)" using t by (simp add: tree_ok_def)
  have none: "get_unit units [] = None" using t by (auto simp: get_unit_None tree_ok_def unit_ok_def id_ok_def)
  show ?thesis
  proof (cases "cs_unit c")
    case None
    then show ?thesis by (simp add: site_path_of_def dget_unit_by_id [OF d] none)
  next
    case (Some i)
    show ?thesis
    proof (cases "get_unit units i")
      case None
      then have "site_path_of (unit_by_id units) c = []" using Some by (simp add: site_path_of_def dget_unit_by_id [OF d])
      moreover have "\<forall>w \<in> set units. ou_id w \<noteq> i" using None by (simp add: get_unit_None)
      ultimately show ?thesis using Some by auto
    next
      case (Some w)
      then have w: "w \<in> set units" "ou_id w = i" using get_unit_Some by blast+
      have "under units w u \<longleftrightarrow> (\<exists>w' \<in> set units. ou_id w' = i \<and> under units w' u)"
        using w same_id_same_unit [OF d] by blast
      moreover have "ou_path w \<noteq> []" using t w by (auto simp: tree_ok_def unit_ok_def)
      ultimately show ?thesis using \<open>cs_unit c = Some i\<close> Some w descendant_iff_under [OF t w(1) u]
        by (auto simp: site_path_of_def dget_unit_by_id [OF d])
    qed
  qed
qed

lemma grant_covers_site_iff:
  assumes t: "tree_ok units" and d: "distinct (map cs_id sites)" and s: "site \<noteq> []"
    and k: "scope_kind_of (strip_text (gr_stype r)) = Some k"
  defines "ud \<equiv> unit_by_id units"
  shows "g_covers_site (kind_grant ud (set (map cs_id sites)) k ps r) site (dget_or (site_unit_paths ud sites) site [])
     \<longleftrightarrow> row_reaches_site units sites r site"
proof (cases k)
  case KOrgUnit
  have du: "distinct (map ou_id units)" using t by (simp add: tree_ok_def)
  show ?thesis
  proof (cases "get_unit units (gr_sref r)")
    case None
    then show ?thesis using KOrgUnit k
      by (auto simp: g_covers_site_def row_reaches_site_def ud_def dget_unit_by_id [OF du] get_unit_None)
  next
    case (Some u)
    then have u: "u \<in> set units" "ou_id u = gr_sref r" using get_unit_Some by blast+
    have one: "x = u" if "x \<in> set units" "ou_id x = gr_sref r" for x
      using same_id_same_unit [OF du that(1) u(1)] that(2) u(2) by simp
    show ?thesis
    proof (cases "find (\<lambda>c. cs_id c = site) sites")
      case None
      then have "dget_or (site_unit_paths ud sites) site [] = []" "\<forall>c \<in> set sites. cs_id c \<noteq> site"
        by (simp_all add: dget_site_paths [OF d]) (simp add: find_None_iff)
      then show ?thesis using KOrgUnit k by (auto simp: g_covers_site_def row_reaches_site_def)
    next
      case (Some c)
      then have c: "c \<in> set sites" "cs_id c = site" using find_SomeD by fast+
      have onec: "x = c" if "x \<in> set sites" "cs_id x = site" for x
        using d that c by (auto simp: distinct_map inj_on_def)
      have "g_covers_site (kind_grant ud (set (map cs_id sites)) k ps r) site (dget_or (site_unit_paths ud sites) site [])
          \<longleftrightarrow> site_path_of ud c \<noteq> [] \<and> is_descendant (site_path_of ud c) (ou_path u)"
        using KOrgUnit \<open>get_unit units (gr_sref r) = Some u\<close> Some
        by (simp add: g_covers_site_def ud_def dget_unit_by_id [OF du] dget_site_paths [OF d])
      also have "\<dots> \<longleftrightarrow> (\<exists>w \<in> set units. cs_unit c = Some (ou_id w) \<and> under units w u)"
        unfolding ud_def using t u(1) by (rule site_path_under)
      also have "\<dots> \<longleftrightarrow> (\<exists>u \<in> set units. \<exists>w \<in> set units. \<exists>c \<in> set sites. ou_id u = gr_sref r \<and>
          cs_id c = site \<and> cs_unit c = Some (ou_id w) \<and> under units w u)"
        using u c one onec by metis
      also have "\<dots> \<longleftrightarrow> row_reaches_site units sites r site"
        using KOrgUnit k by (simp add: row_reaches_site_def)
      finally show ?thesis .
    qed
  qed
next
  case KSite
  then show ?thesis using s k by (simp add: g_covers_site_def row_reaches_site_def image_iff) metis
qed (use k in \<open>simp_all add: g_covers_site_def row_reaches_site_def\<close>)

text \<open>C9: In a sound tree of units, with one row per site, a principal may use a named permission at a named site exactly when one active row of theirs carries it (role, subset
  and recorded role together) and names the tenant, the site, or an org unit that the site's unit lies in, in
  the tree of parent links, so that two rows never add up - or when it is a user of a legacy-open tenant who has no row and
  never had one, and their role holds the permission. A role that is marked as scope-only is refused an answer.\<close>

theorem site_access_iff:
  assumes t: "tree_ok units" and d: "distinct (map cs_id sites)" and s: "site \<noteq> []" and p: "p \<noteq> []"
  shows "permits (resolve_scope tenant ptype pref role rows units sites enf now cap prior) p (site_query site) =
     (if scope_only_marker \<in> set role then Inl ScopeError
      else Inr ((\<exists>r \<in> set rows. grant_active now r \<and> row_carries role cap p r \<and> row_reaches_site units sites r site) \<or>
        ptype = principal_user \<and> enf = legacy_open \<and> rows = [] \<and> prior = [] \<and> (p \<in> set role \<or> ''*'' \<in> set role)))"
proof (cases "scope_only_marker \<in> set role")
  case True
  then show ?thesis by (simp add: permits_def)
next
  case m: False
  let ?ud = "unit_by_id units" and ?known = "set (map cs_id sites)"
  let ?path = "dget_or (site_unit_paths ?ud sites) site []"
  let ?gs = "rs_grants (resolve_scope tenant ptype pref role rows units sites enf now cap prior)"
  let ?legacy = "ptype = principal_user \<and> enf = legacy_open \<and> rows = [] \<and> prior = []"
  have g: "(\<not> g_inert g \<and> carries p g \<and> g_covers_site g site ?path) \<longleftrightarrow>
      row_carries role cap p r \<and> row_reaches_site units sites r site"
    if k: "scope_kind_of (strip_text (gr_stype r)) = Some k"
      and gk: "g = kind_grant ?ud ?known k (grant_permissions r role (cap r)) r" for r g k
  proof -
    have "carries p g \<longleftrightarrow> row_carries role cap p r"
      unfolding gk carries_def using carried_perms [OF m p, of r cap] by simp
    moreover have "g_covers_site g site ?path \<longleftrightarrow> row_reaches_site units sites r site"
      unfolding gk by (rule grant_covers_site_iff [OF t d s k])
    moreover have "g_covers_site g site ?path \<Longrightarrow> \<not> g_inert g" by (simp add: g_covers_site_def)
    ultimately show ?thesis by blast
  qed
  have ne: "row_carries role cap p r \<Longrightarrow> grant_permissions r role (cap r) \<noteq> {}" for r
    using carried_perms [OF m p, of r cap] by blast
  have kr: "row_reaches_site units sites r site \<Longrightarrow> \<exists>k. scope_kind_of (strip_text (gr_stype r)) = Some k" for r
    by (cases "scope_kind_of (strip_text (gr_stype r))") (simp_all add: row_reaches_site_def)
  have "permits (resolve_scope tenant ptype pref role rows units sites enf now cap prior) p (site_query site) =
      Inr (\<exists>g \<in> set ?gs. \<not> g_inert g \<and> carries p g \<and> g_covers_site g site ?path)"
    using m s by (simp add: permits_def site_query_def grant_reaches_def unit_path_for_def)
  also have "(\<exists>g \<in> set ?gs. \<not> g_inert g \<and> carries p g \<and> g_covers_site g site ?path) \<longleftrightarrow>
      (\<exists>g \<in> set (row_grants units sites role now cap rows). \<not> g_inert g \<and> carries p g \<and> g_covers_site g site ?path) \<or>
      ?legacy \<and> (p \<in> set role \<or> ''*'' \<in> set role)"
    unfolding resolved_grants by (auto simp: synthesized_grant_def carries_def g_covers_site_def)
  also have "(\<exists>g \<in> set (row_grants units sites role now cap rows). \<not> g_inert g \<and> carries p g \<and> g_covers_site g site ?path)
      \<longleftrightarrow> (\<exists>r \<in> set rows. grant_active now r \<and> row_carries role cap p r \<and> row_reaches_site units sites r site)" (is "?l \<longleftrightarrow> ?r")
  proof
    assume ?l
    then show ?r unfolding Bex_def in_row_grants grant_of_row_Some using g by blast
  next
    assume ?r
    then obtain r k where r: "r \<in> set rows" "grant_active now r" "row_carries role cap p r" "row_reaches_site units sites r site"
      "scope_kind_of (strip_text (gr_stype r)) = Some k" using kr by blast
    let ?g = "kind_grant ?ud ?known k (grant_permissions r role (cap r)) r"
    have "?g \<in> set (row_grants units sites role now cap rows)"
      unfolding in_row_grants grant_of_row_Some using r ne [OF r(3)] by blast
    then show ?l using g [OF r(5) refl] r(3,4) by blast
  qed
  finally show ?thesis using m by simp
qed

subsection \<open>Losing ground never widens\<close>

definition revoked_or_same :: "grant_row \<Rightarrow> grant_row \<Rightarrow> bool" where
  "revoked_or_same r' r \<longleftrightarrow> r' = r \<or> (\<exists>t. r' = r\<lparr>gr_revoked := Some t\<rparr>)"

lemma active_revoked_or_same:
  "revoked_or_same r' r \<Longrightarrow> now \<le> now' \<Longrightarrow> grant_active now' r' \<Longrightarrow> r' = r \<and> grant_active now r"
  by (auto simp: revoked_or_same_def grant_active_def split: option.splits)

lemma get_unit_filter: "distinct (map ou_id us) \<Longrightarrow> get_unit (filter f us) i = Some u \<Longrightarrow> get_unit us i = Some u"
  using get_unit_Some [of "filter f us" i u] get_unit_distinct [of us u] by auto

lemma site_path_narrower:
  assumes d: "distinct (map ou_id us)" and s: "distinct (map cs_id sites)"
    and p': "p' = dget_or (site_unit_paths (unit_by_id (filter f us)) (filter h sites)) i []"
  shows "p' = [] \<or> p' = dget_or (site_unit_paths (unit_by_id us) sites) i []"
proof (cases "find (\<lambda>c. cs_id c = i) (filter h sites)")
  case None
  then show ?thesis by (simp add: p' dget_site_paths distinct_map_filter s)
next
  case (Some c)
  then have c: "c \<in> set sites" "cs_id c = i" using find_SomeD by fastforce+
  have "find (\<lambda>c. cs_id c = i) sites = Some c" using find_distinct [OF s c(1)] c(2) by simp
  moreover have "site_path_of (unit_by_id (filter f us)) c \<noteq> [] \<Longrightarrow>
      site_path_of (unit_by_id (filter f us)) c = site_path_of (unit_by_id us) c"
    using get_unit_filter [OF d, of f] d
    by (auto simp: site_path_of_def dget_unit_by_id distinct_map_filter split: option.splits)
  ultimately show ?thesis using Some by (auto simp: p' dget_site_paths distinct_map_filter s)
qed

lemma kind_grant_narrower:
  assumes d: "distinct (map ou_id us)" and k: "known' \<subseteq> known"
    and n: "\<not> g_inert (kind_grant (unit_by_id (filter f us)) known' kind ps r)"
  shows "kind_grant (unit_by_id (filter f us)) known' kind ps r = kind_grant (unit_by_id us) known kind ps r"
proof -
  have "dget (unit_by_id (filter f us)) i = Some u \<Longrightarrow> dget (unit_by_id us) i = Some u" for i u
    using get_unit_filter [OF d] d by (simp add: dget_unit_by_id distinct_map_filter)
  then show ?thesis using n k by (cases kind) (auto simp: kind_grant_def Let_def split: option.splits if_splits)
qed

lemma reaches_narrower:
  assumes "grant_reaches g q path'" "path' = [] \<or> path' = path"
  shows "grant_reaches g q path"
  using assms by (auto simp: grant_reaches_def g_covers_device_def g_covers_site_def split: scope_kind.splits if_splits)

text \<open>C10: Losing ground never widens: after revoking rows, letting time pass, deleting org units and deleting sites,
  nothing is permitted that was not permitted before (the tenant-wide grant that legacy tenants synthesize
  included).\<close>

theorem losing_ground_narrows:
  assumes du: "distinct (map ou_id us)" and ds: "distinct (map cs_id sites)"
    and rows: "list_all2 revoked_or_same rows' rows" and now: "now \<le> now'"
    and cap: "\<And>r t. cap (r\<lparr>gr_revoked := Some t\<rparr>) = cap r"
    and p: "permits (resolve_scope tenant ptype pref role rows' (filter f us) (filter h sites) enf now' cap prior) p q = Inr True"
  shows "permits (resolve_scope tenant ptype pref role rows us sites enf now cap prior) p q = Inr True"
proof -
  let ?path' = "unit_path_for (site_unit_paths (unit_by_id (filter f us)) (filter h sites)) (q_site q) (q_unit q)"
  let ?path = "unit_path_for (site_unit_paths (unit_by_id us) sites) (q_site q) (q_unit q)"
  have path: "?path' = [] \<or> ?path' = ?path" using site_path_narrower [OF du ds] by (auto simp: unit_path_for_def)
  have m: "scope_only_marker \<notin> set role" using p by (auto simp: permits_def split: if_splits)
  have nil: "rows' = [] \<longleftrightarrow> rows = []" using rows by (auto simp: list_all2_iff)
  obtain g where g: "g \<in> set (rs_grants (resolve_scope tenant ptype pref role rows' (filter f us) (filter h sites) enf now' cap prior))"
    "\<not> g_inert g" "carries p g" "grant_reaches g q ?path'"
    using p by (auto simp: permits_def split: if_splits)
  have "g \<in> set (rs_grants (resolve_scope tenant ptype pref role rows us sites enf now cap prior))"
  proof (cases "rows = []")
    case True
    then show ?thesis using g(1) nil by (auto simp: resolved_grants split: if_splits)
  next
    case False
    then obtain r' where r': "r' \<in> set rows'" "grant_active now' r'"
      "grant_of_row (unit_by_id (filter f us)) (set (map cs_id (filter h sites))) role cap r' = Some g"
      using g(1) nil by (auto simp: resolved_grants in_row_grants split: if_splits)
    then obtain r where r: "r \<in> set rows" "revoked_or_same r' r"
      using rows by (metis in_set_conv_nth list_all2_conv_all_nth)
    then have same: "r' = r" "grant_active now r" using active_revoked_or_same [OF _ now r'(2)] by blast+
    have "set (map cs_id (filter h sites)) \<subseteq> set (map cs_id sites)" by auto
    then have "grant_of_row (unit_by_id us) (set (map cs_id sites)) role cap r = Some g"
      using r'(3) g(2) kind_grant_narrower [OF du] unfolding same(1) grant_of_row_Some by blast
    then have "g \<in> set (row_grants us sites role now cap rows)" using r(1) same(2) by (auto simp: in_row_grants)
    then show ?thesis using False by (simp add: resolved_grants)
  qed
  then show ?thesis using g m path reaches_narrower [of g q ?path' ?path]
    by (auto simp: permits_def)
qed

subsection \<open>Delegation stays inside\<close>

lemma is_descendant_trans: "is_descendant a b \<Longrightarrow> is_descendant b c \<Longrightarrow> is_descendant a c"
  by (auto simp: is_descendant_def starts_with_prefix intro: prefix_order.trans)

lemma covered_site:
  assumes c: "one_covers_grant s mine g" and g: "g_covers_site g site (dget_or (rs_site_paths s) site [])"
  shows "g_covers_site mine site (dget_or (rs_site_paths s) site [])"
proof (cases "g_kind g")
  case KOrgUnit
  then have d: "is_descendant (dget_or (rs_site_paths s) site []) (g_path g)" "dget_or (rs_site_paths s) site [] \<noteq> []"
    using g by (auto simp: g_covers_site_def)
  then have "g_path g \<noteq> []" by (simp add: is_descendant_def)
  then show ?thesis using c d KOrgUnit
    by (cases "g_kind mine") (auto simp: one_covers_grant_def g_covers_org_unit_def g_covers_site_def intro: is_descendant_trans)
next
  case KSite
  then show ?thesis using c g by (auto simp: one_covers_grant_def g_covers_site_def)
next
  case KTenant
  then show ?thesis using c by (auto simp: one_covers_grant_def g_covers_site_def)
qed (use g in \<open>simp_all add: g_covers_site_def\<close>)

lemma covered_device:
  assumes c: "one_covers_grant s mine g" and g: "g_covers_device g agent site (dget_or (rs_site_paths s) site []) cls"
  shows "g_covers_device mine agent site (dget_or (rs_site_paths s) site []) cls"
proof (cases "g_kind g \<in> {KDevice, KDeviceClass}")
  case True
  then show ?thesis using c g
    by (cases "g_kind mine") (auto simp: one_covers_grant_def g_covers_device_def g_covers_site_def)
next
  case False
  then have gs: "g_covers_site g site (dget_or (rs_site_paths s) site [])"
    using g by (auto simp: g_covers_device_def split: scope_kind.splits)
  then have "g_covers_site mine site (dget_or (rs_site_paths s) site [])" by (rule covered_site [OF c])
  then show ?thesis by (auto simp: g_covers_device_def g_covers_site_def split: scope_kind.splits)
qed

text \<open>C15: Whatever a scope may delegate, it covers itself: each site and each device that the delegated grants
  reach is reached by the delegator.\<close>

theorem delegation_stays_inside:
  assumes d: "can_delegate s other" and p: "rs_site_paths other = rs_site_paths s"
  shows "(rs_covers_site other site [] \<longrightarrow> rs_covers_site s site []) \<and>
    (rs_covers_device other agent site cls \<longrightarrow> rs_covers_device s agent site cls)"
  using d p covered_site [of s _ _ site] covered_device [of s _ _ agent site cls]
  by (fastforce simp: can_delegate_def covers_grant_def rs_covers_site_def rs_covers_device_def Let_def unit_path_for_def)

subsection \<open>Examples\<close>

definition example_units :: "org_unit list" where
  "example_units =
    [\<lparr>ou_id = ''a'', ou_parent = None, ou_type = ''organization'', ou_name = ''Root'', ou_path = ''/a/'', ou_depth = 1, ou_order = 0\<rparr>,
     \<lparr>ou_id = ''c'', ou_parent = Some ''a'', ou_type = ''region'', ou_name = ''West'', ou_path = ''/a/c/'', ou_depth = 2, ou_order = 0\<rparr>]"

definition example_sites :: "cc_site list" where
  "example_sites = [\<lparr>cs_id = ''s1'', cs_unit = Some ''c''\<rparr>, \<lparr>cs_id = ''s2'', cs_unit = None\<rparr>]"

definition example_row :: "string \<Rightarrow> string \<Rightarrow> string \<Rightarrow> grant_row" where
  "example_row pref stype sref = \<lparr>gr_id = ''g'', gr_ptype = ''user'', gr_pref = pref, gr_realm = [], gr_stype = stype,
     gr_sref = sref, gr_subset = Some [''fleet.view'', ''action.approve''], gr_role = [], gr_revoked = None, gr_expires = None\<rparr>"

abbreviation example_scope :: "grant_row list \<Rightarrow> time \<Rightarrow> resolved_scope" where
  "example_scope rows now \<equiv> resolve_scope ''t'' principal_user ''bob'' [''fleet.view''] rows example_units example_sites
     enforcement_strict now (\<lambda>_. None) []"

lemma example_tree: "tree_ok example_units"
proof -
  have i: "id_ok ''a''" "id_ok ''c''" by code_simp+
  have p: "path_of [''a''] = ''/a/''" "path_of [''a'', ''c''] = ''/a/c/''" by code_simp+
  have "unit_ok example_units (example_units ! 0)"
    unfolding unit_ok_def by (rule exI [of _ "[]"]) (simp add: example_units_def max_depth_def i p)
  moreover have "unit_ok example_units (example_units ! 1)"
    unfolding unit_ok_def by (rule exI [of _ "[''a'']"]) (simp add: example_units_def max_depth_def i p)
  ultimately have "\<forall>u \<in> set example_units. unit_ok example_units u" by (simp add: example_units_def)
  moreover have "distinct (map ou_id example_units)" "siblings_distinct example_units" by code_simp+
  ultimately show ?thesis by (simp add: tree_ok_def)
qed

theorem site_access_iff_witness:
  "permits (example_scope [example_row ''bob'' ''org_unit'' ''a''] 0) ''fleet.view'' (site_query ''s1'') = Inr True"
proof -
  let ?r = "example_row ''bob'' ''org_unit'' ''a''"
  let ?a = "example_units ! 0" and ?c = "example_units ! 1"
  have k: "scope_kind_of (strip_text ''org_unit'') = Some KOrgUnit" by code_simp
  have "under example_units ?c ?a"
    by (rule under_step [where w = ?a]) (auto simp: example_units_def intro: under_refl)
  then have "row_reaches_site example_units example_sites ?r ''s1''"
    by (auto simp: row_reaches_site_def example_row_def k example_sites_def)
      (auto simp: example_units_def)
  moreover have "row_carries [''fleet.view''] (\<lambda>_. None) ''fleet.view'' ?r" by code_simp
  moreover have "grant_active 0 ?r" by (simp add: grant_active_def example_row_def)
  moreover have "distinct (map cs_id example_sites)" "scope_only_marker \<notin> set [''fleet.view'']" by code_simp+
  ultimately show ?thesis
    by (subst site_access_iff [OF example_tree]) simp_all
qed

theorem losing_ground_narrows_witness:
  "permits (example_scope [example_row ''bob'' ''tenant'' [], example_row ''bob'' ''site'' ''s2''] 0) ''fleet.view'' (site_query ''s2'') = Inr True"
proof -
  let ?rows = "[example_row ''bob'' ''tenant'' [], example_row ''bob'' ''site'' ''s2'']"
  let ?rows' = "[(example_row ''bob'' ''tenant'' [])\<lparr>gr_revoked := Some 1\<rparr>, example_row ''bob'' ''site'' ''s2'']"
  have r: "permits (resolve_scope ''t'' principal_user ''bob'' [''fleet.view''] ?rows' (filter (\<lambda>u. ou_id u \<noteq> ''c'') example_units)
      (filter (\<lambda>c. cs_id c \<noteq> ''s1'') example_sites) enforcement_strict 5 (\<lambda>_. None) []) ''fleet.view'' (site_query ''s2'') = Inr True"
    by code_simp
  have d: "distinct (map ou_id example_units)" "distinct (map cs_id example_sites)" by code_simp+
  have l: "list_all2 revoked_or_same ?rows' ?rows"
    unfolding list_all2_Cons list_all2_Nil revoked_or_same_def by blast
  have n: "(0::real) \<le> 5" by simp
  show ?thesis by (rule losing_ground_narrows [OF d l n refl r])
qed

theorem delegation_stays_inside_witness:
  "rs_covers_site (example_scope [example_row ''ann'' ''org_unit'' ''a''] 0) ''s1'' []"
proof -
  have "can_delegate (example_scope [example_row ''ann'' ''org_unit'' ''a''] 0) (example_scope [example_row ''bob'' ''site'' ''s1''] 0)"
    "rs_site_paths (example_scope [example_row ''bob'' ''site'' ''s1''] 0) = rs_site_paths (example_scope [example_row ''ann'' ''org_unit'' ''a''] 0)"
    "rs_covers_site (example_scope [example_row ''bob'' ''site'' ''s1''] 0) ''s1'' []"
    by code_simp+
  then show ?thesis using delegation_stays_inside by blast
qed

end
