(* ===== verification/Org_Units.thy ===== *)
theory Org_Units
  imports Scope
begin

text \<open>
  The handlers that change the organizational tree (\<open>api/org_units.py\<close> of central command), with their
  object gate. A handler answers with an HTTP status and then nothing is committed, or with the new rows.
  The route's permission guard and the audit entries are left out.
\<close>

datatype api_error = Http nat string | ScopeMisused

definition andthen :: "'e + 'a \<Rightarrow> ('a \<Rightarrow> 'e + 'b) \<Rightarrow> 'e + 'b" where
  "andthen r f = (case r of Inl e \<Rightarrow> Inl e | Inr x \<Rightarrow> f x)"

lemma andthen_Inr [simp]: "andthen (Inr x) f = f x" "andthen (Inl e) f = Inl e"
  by (simp_all add: andthen_def)

lemma andthen_eq_Inr: "andthen r f = Inr y \<longleftrightarrow> (\<exists>x. r = Inr x \<and> f x = Inr y)"
  by (cases r) auto

definition require :: "bool \<Rightarrow> 'e \<Rightarrow> 'e + unit" where
  "require b e = (if b then Inr () else Inl e)"

lemma require_eq_Inr [simp]: "require b e = Inr u \<longleftrightarrow> b"
  by (simp add: require_def)

definition bad_tree :: "tree_error + 'a \<Rightarrow> api_error + 'a" where
  "bad_tree r = (case r of Inr x \<Rightarrow> Inr x | Inl IntegrityError \<Rightarrow> Inl (Http 500 ''integrity'')
     | Inl _ \<Rightarrow> Inl (Http 400 ''org_tree''))"

lemma bad_tree_eq_Inr [simp]: "bad_tree r = Inr x \<longleftrightarrow> r = Inr x"
  by (auto simp: bad_tree_def split: sum.splits tree_error.splits)

definition forbid_out_of_scope :: "resolved_scope \<Rightarrow> string \<Rightarrow> scope_query \<Rightarrow> api_error + unit" where
  "forbid_out_of_scope s p q =
     (case permits s p q of Inl _ \<Rightarrow> Inl ScopeMisused | Inr b \<Rightarrow> require b (Http 403 ''outside_scope''))"

lemma forbid_eq_Inr: "forbid_out_of_scope s p q = Inr u \<longleftrightarrow> permits s p q = Inr True"
  by (auto simp: forbid_out_of_scope_def split: sum.splits)

subsection \<open>Handlers\<close>

record unit_create =
  cr_name :: string
  cr_type :: string
  cr_parent :: "string option"
  cr_order :: int

record unit_update =
  up_name :: "string option"
  up_type :: "string option"
  up_order :: "int option"
  up_parent :: "string option option"

definition find_parent :: "org_unit list \<Rightarrow> string option \<Rightarrow> api_error + org_unit option" where
  "find_parent us pid =
     (case pid of None \<Rightarrow> Inr None
      | Some i \<Rightarrow> if i = [] then Inr None
          else (case get_unit us i of None \<Rightarrow> Inl (Http 404 ''parent'') | Some p \<Rightarrow> Inr (Some p)))"

definition create_org_unit :: "resolved_scope \<Rightarrow> string \<Rightarrow> unit_create \<Rightarrow> org_unit list \<Rightarrow> api_error + org_unit list" where
  "create_org_unit s new_id body us =
     andthen (bad_tree (normalize_name (cr_name body))) (\<lambda>name.
     andthen (bad_tree (normalize_unit_type (cr_type body))) (\<lambda>utype.
     andthen (find_parent us (cr_parent body)) (\<lambda>parent.
     andthen (case parent of
         None \<Rightarrow> forbid_out_of_scope s ''site.manage'' tenant_query
       | Some p \<Rightarrow> andthen (forbid_out_of_scope s ''site.manage'' (unit_query (ou_path p))) (\<lambda>_.
           bad_tree (check_depth (ou_depth p)))) (\<lambda>_.
     andthen (require (\<not> sibling_named us (map_option ou_id parent) name None) (Http 409 ''sibling'')) (\<lambda>_.
     bad_tree (create_unit new_id name utype parent (cr_order body) us))))))"

definition put_unit :: "org_unit \<Rightarrow> org_unit list \<Rightarrow> org_unit list" where
  "put_unit u us = map (\<lambda>x. if ou_id x = ou_id u then u else x) us"

definition update_name :: "org_unit list \<Rightarrow> org_unit \<Rightarrow> string option \<Rightarrow> api_error + org_unit" where
  "update_name us u new =
     (case new of None \<Rightarrow> Inr u
      | Some raw \<Rightarrow> andthen (bad_tree (normalize_name raw)) (\<lambda>name.
          if name = ou_name u then Inr u
          else andthen (require (\<not> sibling_named us (ou_parent u) name (Some (ou_id u))) (Http 409 ''sibling'')) (\<lambda>_.
            Inr (u\<lparr>ou_name := name\<rparr>))))"

definition update_type :: "org_unit \<Rightarrow> string option \<Rightarrow> api_error + org_unit" where
  "update_type u new =
     (case new of None \<Rightarrow> Inr u
      | Some raw \<Rightarrow> andthen (bad_tree (normalize_unit_type raw)) (\<lambda>t. Inr (u\<lparr>ou_type := t\<rparr>)))"

definition reparent :: "resolved_scope \<Rightarrow> string option \<Rightarrow> org_unit \<Rightarrow> org_unit list \<Rightarrow> api_error + org_unit list" where
  "reparent s pid u us =
     andthen (find_parent us pid) (\<lambda>parent.
     andthen (forbid_out_of_scope s ''site.manage''
         (case parent of None \<Rightarrow> tenant_query | Some p \<Rightarrow> unit_query (ou_path p))) (\<lambda>_.
     andthen (bad_tree (check_move (ou_path u) (ou_id u) (map_option ou_path parent)
         (case parent of None \<Rightarrow> 0 | Some p \<Rightarrow> ou_depth p) (subtree_height us (ou_path u)))) (\<lambda>_.
     andthen (require (\<not> sibling_named us (map_option ou_id parent) (ou_name u) (Some (ou_id u))) (Http 409 ''sibling'')) (\<lambda>_.
     bad_tree (move_unit u parent us)))))"

definition update_org_unit :: "resolved_scope \<Rightarrow> string \<Rightarrow> unit_update \<Rightarrow> org_unit list \<Rightarrow> api_error + org_unit list" where
  "update_org_unit s i body us =
     (case get_unit us i of None \<Rightarrow> Inl (Http 404 ''org unit'')
      | Some u \<Rightarrow>
          andthen (forbid_out_of_scope s ''site.manage'' (unit_query (ou_path u))) (\<lambda>_.
          andthen (update_name us u (up_name body)) (\<lambda>u1.
          andthen (update_type u1 (up_type body)) (\<lambda>u2.
            let u3 = (case up_order body of None \<Rightarrow> u2 | Some n \<Rightarrow> u2\<lparr>ou_order := n\<rparr>);
                us3 = put_unit u3 us
            in (case up_parent body of
                  Some pid \<Rightarrow> if pid \<noteq> ou_parent u then reparent s pid u3 us3 else Inr us3
                | None \<Rightarrow> Inr us3)))))"

definition referencing_grants :: "grant_row list \<Rightarrow> time \<Rightarrow> string \<Rightarrow> string \<Rightarrow> grant_row list" where
  "referencing_grants rows now stype ref =
     filter (grant_active now) (filter (\<lambda>r. gr_stype r = stype \<and> gr_sref r = ref \<and> gr_revoked r = None) rows)"

definition delete_org_unit ::
  "resolved_scope \<Rightarrow> cc_site list \<Rightarrow> grant_row list \<Rightarrow> time \<Rightarrow> string \<Rightarrow> org_unit list \<Rightarrow> api_error + org_unit list" where
  "delete_org_unit s sites rows now i us =
     (case get_unit us i of None \<Rightarrow> Inl (Http 404 ''org unit'')
      | Some u \<Rightarrow>
          andthen (forbid_out_of_scope s ''site.manage'' (unit_query (ou_path u))) (\<lambda>_.
          andthen (require (child_count us (ou_id u) = 0 \<and> filter (\<lambda>c. cs_unit c = Some (ou_id u)) sites = [])
            (Http 409 ''not empty'')) (\<lambda>_.
          andthen (require (referencing_grants rows now ''org_unit'' (ou_id u) = []) (Http 409 ''unit_referenced_by_grants'')) (\<lambda>_.
          Inr (delete_unit u us)))))"

subsection \<open>Runs\<close>

datatype unit_call =
    CreateUnit resolved_scope string unit_create
  | UpdateUnit resolved_scope string unit_update
  | DeleteUnit resolved_scope "cc_site list" "grant_row list" time string

definition call_result :: "unit_call \<Rightarrow> org_unit list \<Rightarrow> api_error + org_unit list" where
  "call_result c us = (case c of
     CreateUnit s i body \<Rightarrow> create_org_unit s i body us
   | UpdateUnit s i body \<Rightarrow> update_org_unit s i body us
   | DeleteUnit s sites rows now i \<Rightarrow> delete_org_unit s sites rows now i us)"

definition unit_step :: "unit_call \<Rightarrow> org_unit list \<Rightarrow> org_unit list" where
  "unit_step c us = (case call_result c us of Inl _ \<Rightarrow> us | Inr us' \<Rightarrow> us')"

text \<open>A generated id is 32 hexadecimal digits; all that is needed is that it can be a path segment.\<close>

definition id_generated :: "unit_call \<Rightarrow> bool" where
  "id_generated c = (case c of CreateUnit _ i _ \<Rightarrow> id_ok i | _ \<Rightarrow> True)"

subsection \<open>Every call keeps the tree\<close>

lemma put_keeps_tree:
  assumes t: "tree_ok us" and u: "u \<in> set us"
    and same: "ou_id u' = ou_id u" "ou_parent u' = ou_parent u" "ou_path u' = ou_path u" "ou_depth u' = ou_depth u"
    and n: "ou_name u' = ou_name u \<or> \<not> sibling_named us (ou_parent u) (ou_name u') (Some (ou_id u))"
  shows "tree_ok (put_unit u' us)"
proof -
  let ?f = "\<lambda>x. if ou_id x = ou_id u' then u' else x"
  have d: "distinct (map ou_id us)" using t by (simp add: tree_ok_def)
  have f: "ou_id (?f x) = ou_id x \<and> ou_parent (?f x) = ou_parent x \<and> ou_path (?f x) = ou_path x \<and> ou_depth (?f x) = ou_depth x"
    if "x \<in> set us" for x
    using same_id_same_unit [OF d that u] same by auto
  have up: "unit_ok (put_unit u' us) (?f x)" if x: "x \<in> set us" for x
  proof -
    have "unit_ok us x" using t x by (simp add: tree_ok_def)
    then obtain ids where ids: "list_all id_ok ids" "id_ok (ou_id x)" "ou_path x = path_of (ids @ [ou_id x])"
      "ou_depth x = int (length ids) + 1" "length ids < max_depth"
      "case ou_parent x of None \<Rightarrow> ids = [] | Some p \<Rightarrow> \<exists>v \<in> set us. ou_id v = p \<and> ou_path v = path_of ids"
      by (rule unit_okE)
    have "case ou_parent x of None \<Rightarrow> ids = [] | Some p \<Rightarrow> \<exists>v \<in> set (put_unit u' us). ou_id v = p \<and> ou_path v = path_of ids"
    proof (cases "ou_parent x")
      case (Some p)
      then obtain v where v: "v \<in> set us" "ou_id v = p" "ou_path v = path_of ids" using ids(6) by auto
      have "?f v \<in> set (put_unit u' us)" unfolding put_unit_def set_map using v(1) by (rule imageI)
      moreover have "ou_id (?f v) = p" "ou_path (?f v) = path_of ids" using f [OF v(1)] v(2,3) by metis+
      ultimately show ?thesis using Some by (simp only: option.case) blast
    qed (use ids(6) in simp)
    then show ?thesis unfolding unit_ok_def using ids f [OF x] by (intro exI [of _ ids]) simp
  qed
  have "siblings_distinct (put_unit u' us)"
    unfolding siblings_distinct_def
  proof (intro ballI impI)
    fix a b assume "a \<in> set (put_unit u' us)" "b \<in> set (put_unit u' us)"
      and e: "ou_parent a = ou_parent b \<and> ou_name a = ou_name b"
    then obtain x y where xy: "x \<in> set us" "y \<in> set us" "a = ?f x" "b = ?f y" by (auto simp: put_unit_def)
    have sd: "siblings_distinct us" using t by (simp add: tree_ok_def)
    have no: "ou_id z = ou_id u" if z: "z \<in> set us" "ou_name z = ou_name u'" "ou_parent z = ou_parent u" for z
      using n
    proof
      assume "ou_name u' = ou_name u"
      with z(2) have "ou_name z = ou_name u" by (rule trans)
      with sd z(1) u z(3) show ?thesis by (rule siblings_distinctD)
    next
      assume "\<not> sibling_named us (ou_parent u) (ou_name u') (Some (ou_id u))"
      then show ?thesis using z unfolding sibling_named_def by fastforce
    qed
    note fa = f [OF xy(1), folded xy(3)] and fb = f [OF xy(2), folded xy(4)]
    have "ou_parent x = ou_parent y" using e fa fb by metis
    moreover have "ou_id a = ou_id x" "ou_id b = ou_id y" using fa fb by blast+
    moreover have "ou_name a = (if ou_id x = ou_id u then ou_name u' else ou_name x)"
      "ou_name b = (if ou_id y = ou_id u then ou_name u' else ou_name y)" unfolding xy(3,4) same(1) by simp_all
    moreover have "ou_id x = ou_id u \<Longrightarrow> ou_parent x = ou_parent u" "ou_id y = ou_id u \<Longrightarrow> ou_parent y = ou_parent u"
      using same_id_same_unit [OF d _ u] xy by blast+
    ultimately show "ou_id a = ou_id b" using e xy(1,2) siblings_distinctD [OF sd] no by metis
  qed
  moreover have "map ou_id (put_unit u' us) = map ou_id us" using f by (auto simp: put_unit_def)
  moreover have "\<forall>x \<in> set (put_unit u' us). unit_ok (put_unit u' us) x"
  proof
    fix x assume "x \<in> set (put_unit u' us)"
    then obtain y where "y \<in> set us" "x = ?f y" unfolding put_unit_def set_map by blast
    then show "unit_ok (put_unit u' us) x" using up by blast
  qed
  ultimately show ?thesis using d unfolding tree_ok_def by simp
qed

lemma find_parent_eq_Inr:
  "find_parent us pid = Inr parent \<Longrightarrow> (case parent of None \<Rightarrow> True | Some p \<Rightarrow> p \<in> set us)"
  by (auto simp: find_parent_def split: option.splits if_splits dest: get_unit_Some)

lemma reparent_eq_Inr:
  assumes t: "tree_ok us" and u: "u \<in> set us" and r: "reparent s pid u us = Inr us'"
  obtains parent where "us' = map (moved_row u parent) us" "tree_ok us'"
    "case parent of None \<Rightarrow> True | Some p \<Rightarrow> p \<in> set us"
    "permits s ''site.manage'' (case parent of None \<Rightarrow> tenant_query | Some p \<Rightarrow> unit_query (ou_path p)) = Inr True"
proof -
  obtain parent where p: "find_parent us pid = Inr parent"
    "permits s ''site.manage'' (case parent of None \<Rightarrow> tenant_query | Some p \<Rightarrow> unit_query (ou_path p)) = Inr True"
    "check_move (ou_path u) (ou_id u) (map_option ou_path parent)
        (case parent of None \<Rightarrow> 0 | Some p \<Rightarrow> ou_depth p) (subtree_height us (ou_path u)) = Inr ()"
    "\<not> sibling_named us (map_option ou_id parent) (ou_name u) (Some (ou_id u))" "move_unit u parent us = Inr us'"
    using r by (auto simp: reparent_def andthen_eq_Inr forbid_eq_Inr)
  note par = find_parent_eq_Inr [OF p(1)]
  have "us' = map (moved_row u parent) us" using move_unit_eq [OF t u par] p(5) by simp
  moreover from this have "tree_ok us'" using move_keeps_tree [OF t u par p(3,4)] by simp
  ultimately show thesis using that p(2) par by blast
qed

text \<open>The three fields an update edits before it moves anything.\<close>

lemma updated_fields:
  assumes "update_name us u (up_name body) = Inr u1" "update_type u1 (up_type body) = Inr u2"
  defines "u3 \<equiv> case up_order body of None \<Rightarrow> u2 | Some n \<Rightarrow> u2\<lparr>ou_order := n\<rparr>"
  shows "ou_id u3 = ou_id u" "ou_parent u3 = ou_parent u" "ou_path u3 = ou_path u" "ou_depth u3 = ou_depth u"
    "ou_name u3 = ou_name u \<or> \<not> sibling_named us (ou_parent u) (ou_name u3) (Some (ou_id u))"
proof -
  have u1: "ou_id u1 = ou_id u \<and> ou_parent u1 = ou_parent u \<and> ou_path u1 = ou_path u \<and> ou_depth u1 = ou_depth u \<and>
      (ou_name u1 = ou_name u \<or> \<not> sibling_named us (ou_parent u) (ou_name u1) (Some (ou_id u)))"
    using assms(1) by (auto simp: update_name_def andthen_eq_Inr split: option.splits if_splits)
  moreover have "\<exists>t. u2 = u1\<lparr>ou_type := t\<rparr>"
    using assms(2) by (auto simp: update_type_def andthen_eq_Inr split: option.splits intro: exI [of _ "ou_type u1"])
  ultimately show "ou_id u3 = ou_id u" "ou_parent u3 = ou_parent u" "ou_path u3 = ou_path u" "ou_depth u3 = ou_depth u"
    "ou_name u3 = ou_name u \<or> \<not> sibling_named us (ou_parent u) (ou_name u3) (Some (ou_id u))"
    by (auto simp: u3_def split: option.splits)
qed

lemma update_eq_Inr:
  assumes t: "tree_ok us" and r: "update_org_unit s i body us = Inr us'"
  obtains u u3 where "u \<in> set us" "ou_id u3 = ou_id u" "ou_path u3 = ou_path u" "tree_ok us'"
    "permits s ''site.manage'' (unit_query (ou_path u)) = Inr True"
    "us' = put_unit u3 us \<or> (\<exists>parent. us' = map (moved_row u3 parent) (put_unit u3 us) \<and>
        (case parent of None \<Rightarrow> True | Some p \<Rightarrow> p \<in> set (put_unit u3 us)) \<and>
        permits s ''site.manage'' (case parent of None \<Rightarrow> tenant_query | Some p \<Rightarrow> unit_query (ou_path p)) = Inr True)"
    "tree_ok (put_unit u3 us)" "u3 \<in> set (put_unit u3 us)"
proof -
  obtain u where g: "get_unit us i = Some u" using r by (cases "get_unit us i") (auto simp: update_org_unit_def)
  then have u: "u \<in> set us" using get_unit_Some by blast
  obtain u1 u2 where pm: "permits s ''site.manage'' (unit_query (ou_path u)) = Inr True"
    and u12: "update_name us u (up_name body) = Inr u1" "update_type u1 (up_type body) = Inr u2"
    and rest: "(let u3 = (case up_order body of None \<Rightarrow> u2 | Some n \<Rightarrow> u2\<lparr>ou_order := n\<rparr>); us3 = put_unit u3 us
      in (case up_parent body of Some pid \<Rightarrow> if pid \<noteq> ou_parent u then reparent s pid u3 us3 else Inr us3
          | None \<Rightarrow> Inr us3)) = Inr us'"
    using r g by (auto simp: update_org_unit_def andthen_eq_Inr forbid_eq_Inr)
  define u3 where "u3 = (case up_order body of None \<Rightarrow> u2 | Some n \<Rightarrow> u2\<lparr>ou_order := n\<rparr>)"
  note same = updated_fields [OF u12, folded u3_def]
  have t3: "tree_ok (put_unit u3 us)" using put_keeps_tree [OF t u same] .
  have in3: "u3 \<in> set (put_unit u3 us)" using u same(1) by (auto simp: put_unit_def intro!: image_eqI [of _ _ u])
  have "us' = put_unit u3 us \<or> (\<exists>pid. reparent s pid u3 (put_unit u3 us) = Inr us')"
    using rest unfolding u3_def [symmetric] Let_def by (auto split: option.splits if_splits)
  then show thesis
  proof
    assume "us' = put_unit u3 us"
    then show thesis using that u same(1,3) t3 in3 pm by blast
  next
    assume "\<exists>pid. reparent s pid u3 (put_unit u3 us) = Inr us'"
    then obtain pid where "reparent s pid u3 (put_unit u3 us) = Inr us'" ..
    from reparent_eq_Inr [OF t3 in3 this] obtain parent where "us' = map (moved_row u3 parent) (put_unit u3 us)" "tree_ok us'"
      "case parent of None \<Rightarrow> True | Some p \<Rightarrow> p \<in> set (put_unit u3 us)"
      "permits s ''site.manage'' (case parent of None \<Rightarrow> tenant_query | Some p \<Rightarrow> unit_query (ou_path p)) = Inr True" .
    then show thesis using that u same(1,3) t3 in3 pm by blast
  qed
qed

lemma create_eq_Inr:
  assumes "create_org_unit s i body us = Inr us'"
  obtains name utype parent where "find_parent us (cr_parent body) = Inr parent"
    "case parent of None \<Rightarrow> permits s ''site.manage'' tenant_query = Inr True
      | Some p \<Rightarrow> permits s ''site.manage'' (unit_query (ou_path p)) = Inr True \<and> check_depth (ou_depth p) = Inr ()"
    "\<not> sibling_named us (map_option ou_id parent) name None" "create_unit i name utype parent (cr_order body) us = Inr us'"
  using assms by (auto simp: create_org_unit_def andthen_eq_Inr forbid_eq_Inr split: option.splits)

lemma delete_eq_Inr:
  assumes "delete_org_unit s sites rows now i us = Inr us'"
  obtains u where "u \<in> set us" "permits s ''site.manage'' (unit_query (ou_path u)) = Inr True"
    "child_count us (ou_id u) = 0" "us' = delete_unit u us" "\<forall>c \<in> set sites. cs_unit c \<noteq> Some (ou_id u)"
    "referencing_grants rows now ''org_unit'' (ou_id u) = []"
  using assms by (auto simp: delete_org_unit_def andthen_eq_Inr forbid_eq_Inr filter_empty_conv split: option.splits dest: get_unit_Some)

lemma unit_step_keeps_tree:
  assumes t: "tree_ok us" and i: "id_generated c"
  shows "tree_ok (unit_step c us)"
proof (cases "call_result c us")
  case (Inr us')
  have "tree_ok us'"
  proof (cases c)
    case (CreateUnit s j body)
    then have r: "create_org_unit s j body us = Inr us'" using Inr by (simp add: call_result_def)
    from create_eq_Inr [OF this] obtain name utype parent where p: "find_parent us (cr_parent body) = Inr parent"
      "case parent of None \<Rightarrow> permits s ''site.manage'' tenant_query = Inr True
        | Some p \<Rightarrow> permits s ''site.manage'' (unit_query (ou_path p)) = Inr True \<and> check_depth (ou_depth p) = Inr ()"
      "\<not> sibling_named us (map_option ou_id parent) name None" "create_unit j name utype parent (cr_order body) us = Inr us'"
      by blast
    show ?thesis
      using find_parent_eq_Inr [OF p(1)] p(2) i CreateUnit
      by (intro create_keeps_tree [OF t _ _ p(3,4)]) (auto simp: id_generated_def split: option.splits)
  next
    case (UpdateUnit s j body)
    then have "update_org_unit s j body us = Inr us'" using Inr by (simp add: call_result_def)
    from update_eq_Inr [OF t this] show ?thesis by blast
  next
    case (DeleteUnit s sites rows now j)
    then have "delete_org_unit s sites rows now j us = Inr us'" using Inr by (simp add: call_result_def)
    from delete_eq_Inr [OF this] show ?thesis using delete_keeps_tree [OF t] by metis
  qed
  then show ?thesis using Inr by (simp add: unit_step_def)
qed (use t in \<open>simp add: unit_step_def\<close>)

interpretation org_tree: inv_system unit_step tree_ok id_generated
  by unfold_locales (rule unit_step_keeps_tree)

lemma empty_tree_ok: "tree_ok []"
  by (simp add: tree_ok_def siblings_distinct_def)

subsection \<open>What a caller can change\<close>

definition call_scope :: "unit_call \<Rightarrow> resolved_scope" where
  "call_scope c = (case c of CreateUnit s _ _ \<Rightarrow> s | UpdateUnit s _ _ \<Rightarrow> s | DeleteUnit s _ _ _ _ \<Rightarrow> s)"

lemma permits_unit_query:
  "path \<noteq> [] \<Longrightarrow> permits s p (unit_query path) = Inr True \<longleftrightarrow>
     \<not> rs_scope_only s \<and> (\<exists>g \<in> set (rs_grants s). carries p g \<and> g_covers_org_unit g path)"
  by (auto simp: permits_def unit_query_def grant_reaches_def g_covers_org_unit_def)

lemma permits_tenant_query:
  "permits s p tenant_query = Inr True \<longleftrightarrow>
     \<not> rs_scope_only s \<and> (\<exists>g \<in> set (rs_grants s). carries p g \<and> g_covers_tenant g)"
  by (auto simp: permits_def tenant_query_def grant_reaches_def g_covers_tenant_def)

lemma permits_below:
  assumes "permits s p (unit_query path) = Inr True" "is_descendant below path"
  shows "permits s p (unit_query below) = Inr True"
proof -
  have n: "path \<noteq> []" "below \<noteq> []" using assms(2) by (simp_all add: is_descendant_def)
  moreover have "g_covers_org_unit g path \<Longrightarrow> g_covers_org_unit g below" for g
    using assms(2) n(2) by (cases "g_kind g") (auto simp: g_covers_org_unit_def intro: is_descendant_trans)
  ultimately show ?thesis using assms(1) by (auto simp: permits_unit_query)
qed

lemma permits_from_tenant:
  assumes "permits s p tenant_query = Inr True" "path \<noteq> []"
  shows "permits s p (unit_query path) = Inr True"
  using assms by (auto simp: permits_tenant_query permits_unit_query g_covers_tenant_def g_covers_org_unit_def)

lemma moved_row_changed:
  assumes t: "tree_ok us" and u: "u \<in> set us" and x: "x \<in> set us" and p: "case parent of None \<Rightarrow> True | Some p \<Rightarrow> p \<in> set us"
    and c: "moved_row u parent x \<noteq> x"
  shows "is_descendant (ou_path x) (ou_path u)"
    and "case parent of None \<Rightarrow> True | Some p \<Rightarrow> is_descendant (ou_path (moved_row u parent x)) (ou_path p)"
proof -
  have s: "starts_with (ou_path x) (ou_path u)" using c by (auto simp: moved_row_def split: if_splits)
  moreover have "ou_path x \<noteq> []" "ou_path u \<noteq> []" using t u x by (auto simp: tree_ok_def unit_ok_def)
  ultimately show "is_descendant (ou_path x) (ou_path u)" by (simp add: is_descendant_def)
  show "case parent of None \<Rightarrow> True | Some p \<Rightarrow> is_descendant (ou_path (moved_row u parent x)) (ou_path p)"
    using s p t by (auto simp: moved_row_def is_descendant_def starts_with_def tree_ok_def unit_ok_def split: option.splits)
qed

lemma update_in_scope:
  assumes t: "tree_ok us" and r: "update_org_unit s i body us = Inr us'"
    and x: "x \<in> (set us - set us') \<union> (set us' - set us)"
  shows "permits s ''site.manage'' (unit_query (ou_path x)) = Inr True"
proof -
  from update_eq_Inr [OF t r] obtain u u3 where u: "u \<in> set us" "ou_id u3 = ou_id u" "ou_path u3 = ou_path u"
    and t': "tree_ok us'" and pm: "permits s ''site.manage'' (unit_query (ou_path u)) = Inr True"
    and us': "us' = put_unit u3 us \<or> (\<exists>parent. us' = map (moved_row u3 parent) (put_unit u3 us) \<and>
        (case parent of None \<Rightarrow> True | Some p \<Rightarrow> p \<in> set (put_unit u3 us)) \<and>
        permits s ''site.manage'' (case parent of None \<Rightarrow> tenant_query | Some p \<Rightarrow> unit_query (ou_path p)) = Inr True)"
    and t3: "tree_ok (put_unit u3 us)" "u3 \<in> set (put_unit u3 us)" .
  have d: "distinct (map ou_id us)" using t by (simp add: tree_ok_def)
  have put: "ou_path x = ou_path u" if "x \<in> (set us - set (put_unit u3 us)) \<union> (set (put_unit u3 us) - set us)" for x
  proof -
    have "x = u3 \<or> x \<in> set us \<and> ou_id x = ou_id u3" using that by (auto simp: put_unit_def split: if_splits)
    then show ?thesis using u same_id_same_unit [OF d, of x u] by auto
  qed
  have ne: "ou_path y \<noteq> []" if "y \<in> set (put_unit u3 us)" for y
    using t3(1) that by (auto simp: tree_ok_def unit_ok_def)
  from us' show ?thesis
  proof
    assume "us' = put_unit u3 us"
    then show ?thesis using put [of x] x pm by simp
  next
    let ?m = "put_unit u3 us"
    assume "\<exists>parent. us' = map (moved_row u3 parent) ?m \<and> (case parent of None \<Rightarrow> True | Some p \<Rightarrow> p \<in> set ?m) \<and>
        permits s ''site.manage'' (case parent of None \<Rightarrow> tenant_query | Some p \<Rightarrow> unit_query (ou_path p)) = Inr True"
    then obtain parent where m: "us' = map (moved_row u3 parent) ?m" "case parent of None \<Rightarrow> True | Some p \<Rightarrow> p \<in> set ?m"
      "permits s ''site.manage'' (case parent of None \<Rightarrow> tenant_query | Some p \<Rightarrow> unit_query (ou_path p)) = Inr True" by blast
    show ?thesis
    proof (cases "x \<in> (set us - set ?m) \<union> (set ?m - set us)")
      case True
      then show ?thesis using put pm by simp
    next
      case False
      then have "x \<in> set ?m \<and> x \<notin> set us' \<or> x \<in> set us' \<and> x \<notin> set ?m" using x by blast
      then show ?thesis
      proof (elim disjE conjE)
        assume a: "x \<in> set ?m" "x \<notin> set us'"
        then have "moved_row u3 parent x \<noteq> x" using m(1) by force
        then have "is_descendant (ou_path x) (ou_path u)" using moved_row_changed(1) [OF t3 a(1) m(2)] u(3) by simp
        then show ?thesis using permits_below [OF pm] by blast
      next
        assume a: "x \<in> set us'" "x \<notin> set ?m"
        then obtain y where y: "y \<in> set ?m" "x = moved_row u3 parent y" using m(1) by auto
        then have yc: "moved_row u3 parent y \<noteq> y" using a(2) by metis
        show ?thesis
        proof (cases parent)
          case None
          moreover have "ou_path x \<noteq> []" using y(2) yc ne [OF y(1)] by (auto simp: moved_row_def split: if_splits)
          ultimately show ?thesis using m(3) by (simp add: permits_from_tenant)
        next
          case (Some p)
          then have "is_descendant (ou_path x) (ou_path p)" using moved_row_changed(2) [OF t3 y(1) m(2) yc] y(2) by simp
          then show ?thesis using m(3) Some permits_below by simp
        qed
      qed
    qed
  qed
qed

text \<open>A call removes, adds or rewrites only rows at paths that its caller may manage.\<close>

lemma changed_rows_in_scope:
  assumes t: "tree_ok us" and r: "call_result c us = Inr us'" and i: "id_generated c"
    and x: "x \<in> (set us - set us') \<union> (set us' - set us)"
  shows "permits (call_scope c) ''site.manage'' (unit_query (ou_path x)) = Inr True"
proof (cases c)
  case (CreateUnit s j body)
  then have "create_org_unit s j body us = Inr us'" using r by (simp add: call_result_def)
  from create_eq_Inr [OF this] obtain name utype parent where p: "find_parent us (cr_parent body) = Inr parent"
    "case parent of None \<Rightarrow> permits s ''site.manage'' tenant_query = Inr True
      | Some p \<Rightarrow> permits s ''site.manage'' (unit_query (ou_path p)) = Inr True \<and> check_depth (ou_depth p) = Inr ()"
    "create_unit j name utype parent (cr_order body) us = Inr us'" by blast
  have xn: "x \<in> set us' - set us" using x p(3) by (auto simp: create_unit_def split: if_splits sum.splits)
  have j: "id_ok j" using i CreateUnit by (simp add: id_generated_def)
  show ?thesis
  proof (cases parent)
    case None
    then have "ou_path x \<noteq> []" using xn p(3) compose_root [OF j]
      by (auto simp: create_unit_def split: if_splits)
    then show ?thesis using None p(2) CreateUnit by (simp add: call_scope_def permits_from_tenant)
  next
    case (Some q)
    then have q: "q \<in> set us" using find_parent_eq_Inr [OF p(1)] by simp
    then obtain ids where ids: "list_all id_ok ids" "ou_path q = path_of ids"
      using t unfolding tree_ok_def unit_ok_segs by blast
    then have "ou_path x = path_of (ids @ [j])" using xn p(3) Some compose_path_of [OF j, of ids]
      by (auto simp: create_unit_def split: if_splits)
    then have "is_descendant (ou_path x) (ou_path q)" using ids j by simp
    then show ?thesis using Some p(2) CreateUnit permits_below [of s _ "ou_path q"] by (simp add: call_scope_def)
  qed
next
  case (UpdateUnit s j body)
  then have r': "update_org_unit s j body us = Inr us'" using r by (simp add: call_result_def)
  from update_in_scope [OF t r' x] show ?thesis using UpdateUnit by (simp add: call_scope_def)
next
  case (DeleteUnit s sites rows now j)
  then have "delete_org_unit s sites rows now j us = Inr us'" using r by (simp add: call_result_def)
  from delete_eq_Inr [OF this] obtain u where u: "u \<in> set us" "permits s ''site.manage'' (unit_query (ou_path u)) = Inr True"
    "us' = delete_unit u us" by blast
  have "x \<in> set us" "ou_id x = ou_id u" using x u(3) by (auto simp: delete_unit_def)
  then have "x = u" using t u(1) by (auto simp: tree_ok_def intro: same_id_same_unit)
  then show ?thesis using u(2) DeleteUnit by (simp add: call_scope_def)
qed

subsection \<open>Properties\<close>

definition tenant_admin_scope :: resolved_scope where
  "tenant_admin_scope = resolve_scope ''t'' principal_user ''ann'' [''site.manage'']
     [\<lparr>gr_id = ''g1'', gr_ptype = ''user'', gr_pref = ''ann'', gr_realm = [], gr_stype = ''tenant'', gr_sref = [],
       gr_subset = None, gr_role = [], gr_revoked = None, gr_expires = None\<rparr>] [] [] enforcement_strict 0 (\<lambda>_. None) []"

definition plain_create :: "string \<Rightarrow> string option \<Rightarrow> unit_create" where
  "plain_create name parent = \<lparr>cr_name = name, cr_type = ''region'', cr_parent = parent, cr_order = 0\<rparr>"

text \<open>C11: Whatever is created, renamed, moved and deleted, and by whom: the ids along a path are those of the
  unit and its ancestors, no path is deeper than eight levels, siblings have different names, and one path
  is a prefix of another exactly when its unit is an ancestor in the parent links.\<close>

theorem org_tree_stays_sound:
  assumes "list_all id_generated calls" and "u \<in> set (fold unit_step calls [])" "v \<in> set (fold unit_step calls [])"
  shows "ou_path u = path_of (ancestor_ids (ou_path u) @ [ou_id u]) \<and> length (segments (ou_path u)) \<le> max_depth
    \<and> (ou_parent u = ou_parent v \<and> ou_name u = ou_name v \<longrightarrow> u = v)
    \<and> (is_descendant (ou_path u) (ou_path v) \<longleftrightarrow> under (fold unit_step calls []) u v)"
proof -
  let ?us = "fold unit_step calls []"
  have t: "tree_ok ?us" using org_tree.run_keeps_inv [OF empty_tree_ok assms(1)] .
  then have "unit_ok ?us u" using assms(2) by (simp add: tree_ok_def)
  then obtain s where s: "s \<noteq> []" "list_all id_ok s" "ou_path u = path_of s" "last s = ou_id u" "length s \<le> max_depth"
    unfolding unit_ok_segs by blast
  have "ou_path u = path_of (ancestor_ids (ou_path u) @ [ou_id u]) \<and> length (segments (ou_path u)) \<le> max_depth"
    using s append_butlast_last_id [OF s(1)] by (simp add: ancestor_ids_def)
  moreover have "ou_parent u = ou_parent v \<and> ou_name u = ou_name v \<longrightarrow> u = v"
    using t assms(2,3) unfolding tree_ok_def siblings_distinct_def by (blast intro: same_id_same_unit)
  ultimately show ?thesis using descendant_iff_under [OF t assms(2,3)] by blast
qed

definition sample_calls :: "unit_call list" where
  "sample_calls =
    [CreateUnit tenant_admin_scope ''a'' (plain_create ''Root'' None),
     CreateUnit tenant_admin_scope ''b'' (plain_create ''East'' (Some ''a'')),
     CreateUnit tenant_admin_scope ''c'' (plain_create ''West'' (Some ''a'')),
     UpdateUnit tenant_admin_scope ''b'' \<lparr>up_name = None, up_type = None, up_order = None, up_parent = Some (Some ''c'')\<rparr>]"

definition sample_unit :: "string \<Rightarrow> string option \<Rightarrow> string \<Rightarrow> string \<Rightarrow> int \<Rightarrow> org_unit" where
  "sample_unit i parent name path depth = \<lparr>ou_id = i, ou_parent = parent, ou_type = ''region'', ou_name = name,
     ou_path = path, ou_depth = depth, ou_order = 0\<rparr>"

lemma sample_run:
  "fold unit_step sample_calls [] = [sample_unit ''a'' None ''Root'' ''/a/'' 1,
     sample_unit ''b'' (Some ''c'') ''East'' ''/a/c/b/'' 3, sample_unit ''c'' (Some ''a'') ''West'' ''/a/c/'' 2]"
  by code_simp

theorem org_tree_stays_sound_witness:
  "under (fold unit_step sample_calls []) (sample_unit ''b'' (Some ''c'') ''East'' ''/a/c/b/'' 3) (sample_unit ''a'' None ''Root'' ''/a/'' 1)"
proof -
  have g: "list_all id_generated sample_calls" by code_simp
  have "is_descendant ''/a/c/b/'' ''/a/''" by code_simp
  then show ?thesis
    using org_tree_stays_sound [OF g, of "sample_unit ''b'' (Some ''c'') ''East'' ''/a/c/b/'' 3" "sample_unit ''a'' None ''Root'' ''/a/'' 1"]
    unfolding sample_run by (simp add: sample_unit_def)
qed

text \<open>C12: A call changes the tree only where its caller may: every row it removes, adds or rewrites lies, before
  and after, at a path that the caller holds the permission to manage.\<close>

theorem tree_changes_stay_in_scope:
  assumes "list_all id_generated (c # calls)" and "x \<in> set (fold unit_step calls []) \<longleftrightarrow> x \<notin> set (unit_step c (fold unit_step calls []))"
  shows "permits (call_scope c) ''site.manage'' (unit_query (ou_path x)) = Inr True"
proof -
  let ?us = "fold unit_step calls []"
  have t: "tree_ok ?us" using org_tree.run_keeps_inv [OF empty_tree_ok] assms(1) by simp
  obtain us' where "call_result c ?us = Inr us'" using assms(2) by (cases "call_result c ?us") (auto simp: unit_step_def)
  moreover from this have "x \<in> (set ?us - set us') \<union> (set us' - set ?us)" using assms(2) by (auto simp: unit_step_def)
  ultimately show ?thesis using changed_rows_in_scope [OF t] assms(1) by simp
qed

theorem tree_changes_stay_in_scope_witness:
  "permits tenant_admin_scope ''site.manage'' (unit_query ''/a/'') = Inr True"
proof -
  let ?c = "CreateUnit tenant_admin_scope ''a'' (plain_create ''Root'' None)"
  have g: "list_all id_generated [?c]" by code_simp
  have "sample_unit ''a'' None ''Root'' ''/a/'' 1 \<in> set (fold unit_step [] [])
      \<longleftrightarrow> sample_unit ''a'' None ''Root'' ''/a/'' 1 \<notin> set (unit_step ?c (fold unit_step [] []))" by code_simp
  from tree_changes_stay_in_scope [OF g this] show ?thesis by (simp add: call_scope_def sample_unit_def)
qed

end
