(* ===== verification/Read_Reach.thy ===== *)
theory Read_Reach
  imports Scope
begin

text \<open>
  Permission-aware read reach (\<open>ReadReach\<close> of \<open>scope.py\<close>), the device index
  (\<open>target_authority.py\<close>), and the row filters of the repositories (\<open>db/repos.py\<close>), which are SQL
  conditions: a condition is modelled as the predicate on a row that it states. A reach of \<open>None\<close> is an
  internal caller.
\<close>

subsection \<open>The reach\<close>

record read_reach =
  rr_tenant :: string
  rr_permissions :: "string list"
  rr_grants :: "grant list"
  rr_tenant_wide :: bool
  rr_site_ids :: "string set"
  rr_org_paths :: "string set"
  rr_device_ids :: "string set"
  rr_device_classes :: "string set"
  rr_site_paths :: "(string, string) dict"
  rr_unit_paths :: "(string, string) dict"

definition reach_of :: "resolved_scope \<Rightarrow> string list \<Rightarrow> read_reach" where
  "reach_of s wanted =
     (let kept = filter (\<lambda>g. \<not> g_inert g \<and> (''*'' \<in> g_perms g \<or> list_ex (\<lambda>p. p \<in> g_perms g) wanted)) (rs_grants s);
          wide = list_ex (\<lambda>g. g_kind g = KTenant) kept;
          org_paths = set (map g_path (filter (\<lambda>g. g_kind g = KOrgUnit) kept));
          own = set (map g_ref (filter (\<lambda>g. g_kind g = KSite) kept))
      in \<lparr>rr_tenant = rs_tenant s, rr_permissions = wanted, rr_grants = kept, rr_tenant_wide = wide,
          rr_site_ids = own \<union> (if wide then set (dkeys (rs_site_paths s))
             else set (map fst (filter (\<lambda>(i, p). p \<noteq> [] \<and> (\<exists>a \<in> org_paths. is_descendant p a)) (rs_site_paths s)))),
          rr_org_paths = org_paths,
          rr_device_ids = set (map g_ref (filter (\<lambda>g. g_kind g = KDevice \<and> g_ref g \<noteq> []) kept)),
          rr_device_classes = set (map (lower \<circ> g_ref) (filter (\<lambda>g. g_kind g = KDeviceClass \<and> strip_text (g_ref g) \<noteq> []) kept)),
          rr_site_paths = rs_site_paths s, rr_unit_paths = rs_unit_paths s\<rparr>)"

definition read_reach_of :: "resolved_scope \<Rightarrow> string list \<Rightarrow> scope_error + read_reach" where
  "read_reach_of s permissions =
     (let wanted = filter (\<lambda>p. p \<noteq> []) permissions
      in if wanted = [] \<or> scope_only_marker \<in> set wanted then Inl ScopeError
         else if rs_scope_only s then Inl ScopeError else Inr (reach_of s wanted))"

definition where_reach :: "resolved_scope \<Rightarrow> scope_error + read_reach" where
  "where_reach s = (if \<not> rs_scope_only s then Inl ScopeError else Inr (reach_of s [scope_only_marker]))"

definition rr_covers_site :: "read_reach \<Rightarrow> string \<Rightarrow> string \<Rightarrow> bool" where
  "rr_covers_site r site given \<longleftrightarrow>
     (let path = unit_path_for (rr_site_paths r) site given in \<exists>g \<in> set (rr_grants r). g_covers_site g site path)"

definition rr_covers_device :: "read_reach \<Rightarrow> string \<Rightarrow> string \<Rightarrow> string \<Rightarrow> bool" where
  "rr_covers_device r agent site cls \<longleftrightarrow>
     (let path = dget_or (rr_site_paths r) site [] in \<exists>g \<in> set (rr_grants r). g_covers_device g agent site path cls)"

definition rr_covers_org_unit :: "read_reach \<Rightarrow> string \<Rightarrow> bool" where
  "rr_covers_org_unit r path \<longleftrightarrow> (\<exists>g \<in> set (rr_grants r). g_covers_org_unit g path)"

definition covers_owned :: "read_reach \<Rightarrow> string \<Rightarrow> authorized_target option \<Rightarrow> bool" where
  "covers_owned r site target =
     (case target of Some t \<Rightarrow> rr_covers_device r (at_agent t) (at_site t) (at_class t)
      | None \<Rightarrow> rr_covers_site r site [])"

subsection \<open>The device as it currently resolves\<close>

record fleet_row =
  fr_site :: string
  fr_agent :: string
  fr_class :: string

definition fleet_index :: "fleet_row list \<Rightarrow> (string \<times> string, fleet_row) dict" where
  "fleet_index rows = fold (\<lambda>r. dset (fr_site r, fr_agent r) r) rows []"

definition resolve_in_fleet :: "fleet_row list \<Rightarrow> string \<Rightarrow> string \<Rightarrow> authorized_target option" where
  "resolve_in_fleet rows site agent =
     (if site = [] \<or> agent = [] then None
      else (case dget (fleet_index rows) (site, agent) of None \<Rightarrow> None
        | Some r \<Rightarrow> Some \<lparr>at_agent = fr_agent r, at_site = site, at_class = fr_class r\<rparr>))"

subsection \<open>The row filters of the repositories\<close>

definition scope_sites :: "read_reach option \<Rightarrow> string \<Rightarrow> bool" where
  "scope_sites reach site =
     (case reach of None \<Rightarrow> True | Some r \<Rightarrow> rr_tenant_wide r \<or> site \<in> rr_site_ids r)"

definition scope_fleet_devices :: "read_reach option \<Rightarrow> fleet_row \<Rightarrow> bool" where
  "scope_fleet_devices reach row =
     (case reach of None \<Rightarrow> True
      | Some r \<Rightarrow> rr_tenant_wide r \<or> fr_site row \<in> rr_site_ids r \<or> fr_agent row \<in> rr_device_ids r
          \<or> lower (fr_class row) \<in> rr_device_classes r)"

definition scope_device_owned :: "read_reach option \<Rightarrow> fleet_row list \<Rightarrow> string \<Rightarrow> string \<Rightarrow> bool" where
  "scope_device_owned reach fleet site device =
     (case reach of None \<Rightarrow> True
      | Some r \<Rightarrow> rr_tenant_wide r \<or> site \<in> rr_site_ids r \<or>
          (device \<noteq> [] \<and> (\<exists>f \<in> set fleet. fr_agent f = device \<and> fr_site f = site \<and>
             (fr_agent f \<in> rr_device_ids r \<or> lower (fr_class f) \<in> rr_device_classes r))))"

subsection \<open>One rule, three statements\<close>

lemma reach_simps [simp]:
  "rr_site_paths (reach_of s w) = rs_site_paths s"
  "set (rr_grants (reach_of s w)) = {g \<in> set (rs_grants s). \<not> g_inert g \<and> (\<exists>p \<in> set w. carries p g) } \<union>
     {g \<in> set (rs_grants s). \<not> g_inert g \<and> ''*'' \<in> g_perms g}"
  by (auto simp: reach_of_def Let_def list_ex_iff carries_def)

lemma reach_one: "set (rr_grants (reach_of s [p])) = {g \<in> set (rs_grants s). \<not> g_inert g \<and> carries p g}"
  by (auto simp: carries_def)

lemma reach_wide: "rr_tenant_wide (reach_of s w) \<longleftrightarrow> (\<exists>g \<in> set (rr_grants (reach_of s w)). g_kind g = KTenant)"
  by (auto simp: reach_of_def Let_def list_ex_iff)

lemma reach_device_ids: "d \<in> rr_device_ids (reach_of s w) \<longleftrightarrow>
    d \<noteq> [] \<and> (\<exists>g \<in> set (rr_grants (reach_of s w)). g_kind g = KDevice \<and> g_ref g = d)"
  by (auto simp: reach_of_def Let_def image_iff)

lemma reach_device_classes: "c \<in> rr_device_classes (reach_of s w) \<longleftrightarrow>
    (\<exists>g \<in> set (rr_grants (reach_of s w)). g_kind g = KDeviceClass \<and> strip_text (g_ref g) \<noteq> [] \<and> lower (g_ref g) = c)"
  by (auto simp: reach_of_def Let_def image_iff)

lemma reach_grants_effective: "g \<in> set (rr_grants (reach_of s w)) \<Longrightarrow> \<not> g_inert g"
  by auto

lemma reach_site_ids:
  assumes "wf_dict (rs_site_paths s)" "site \<noteq> []" and inert: "\<not> rr_tenant_wide (reach_of s w)"
  shows "site \<in> rr_site_ids (reach_of s w) \<longleftrightarrow>
     (\<exists>g \<in> set (rr_grants (reach_of s w)). g_covers_site g site (dget_or (rs_site_paths s) site []))"
proof -
  let ?G = "set (rr_grants (reach_of s w))"
  have entry: "(site, p) \<in> set (rs_site_paths s) \<longleftrightarrow> dget (rs_site_paths s) site = Some p" for p
    using assms(1) by (simp add: map_of_eq_Some_iff)
  have "site \<in> rr_site_ids (reach_of s w) \<longleftrightarrow>
      (\<exists>g \<in> ?G. g_kind g = KSite \<and> g_ref g = site) \<or>
      (\<exists>p. (site, p) \<in> set (rs_site_paths s) \<and> p \<noteq> [] \<and> (\<exists>g \<in> ?G. g_kind g = KOrgUnit \<and> is_descendant p (g_path g)))"
    using inert unfolding reach_of_def Let_def by (simp add: image_iff Bex_def case_prod_beta) blast
  also have "(\<exists>p. (site, p) \<in> set (rs_site_paths s) \<and> p \<noteq> [] \<and> (\<exists>g \<in> ?G. g_kind g = KOrgUnit \<and> is_descendant p (g_path g)))
      \<longleftrightarrow> dget_or (rs_site_paths s) site [] \<noteq> [] \<and>
        (\<exists>g \<in> ?G. g_kind g = KOrgUnit \<and> is_descendant (dget_or (rs_site_paths s) site []) (g_path g))"
    using entry by (cases "dget (rs_site_paths s) site") (simp_all add: dget_or_def)
  also have "(\<exists>g \<in> ?G. g_kind g = KSite \<and> g_ref g = site) \<or> (dget_or (rs_site_paths s) site [] \<noteq> [] \<and>
        (\<exists>g \<in> ?G. g_kind g = KOrgUnit \<and> is_descendant (dget_or (rs_site_paths s) site []) (g_path g)))
      \<longleftrightarrow> (\<exists>g \<in> ?G. g_covers_site g site (dget_or (rs_site_paths s) site []))"
  proof -
    have "g_covers_site g site (dget_or (rs_site_paths s) site []) \<longleftrightarrow> g_kind g = KSite \<and> g_ref g = site \<or>
        g_kind g = KOrgUnit \<and> dget_or (rs_site_paths s) site [] \<noteq> [] \<and> is_descendant (dget_or (rs_site_paths s) site []) (g_path g)"
      if "g \<in> ?G" for g
      using that inert assms(2) reach_grants_effective [OF that] unfolding reach_wide
      by (cases "g_kind g") (auto simp: g_covers_site_def simp del: reach_simps)
    then show ?thesis by blast
  qed
  finally show ?thesis .
qed


lemma fleet_index_one:
  assumes "distinct (map (\<lambda>r. (fr_site r, fr_agent r)) fleet)"
  shows "dget (fleet_index fleet) (site, agent) = find (\<lambda>r. (fr_site r, fr_agent r) = (site, agent)) fleet"
  using find_rev_distinct [OF assms, of "(site, agent)"]
  by (simp add: fleet_index_def dget_fold_dset split: option.splits)

text \<open>Classes are told apart by their text: none of them is made of blanks only.\<close>

definition classes_named :: "resolved_scope \<Rightarrow> bool" where
  "classes_named s \<longleftrightarrow> (\<forall>g \<in> set (rs_grants s). g_kind g = KDeviceClass \<and> g_ref g \<noteq> [] \<longrightarrow> strip_text (g_ref g) \<noteq> [])"

lemma covers_device_iff:
  assumes "wf_dict (rs_site_paths s)" "classes_named s" "site \<noteq> []" "agent \<noteq> []" "\<not> rr_tenant_wide (reach_of s w)"
  shows "(\<exists>g \<in> set (rr_grants (reach_of s w)). g_covers_device g agent site (dget_or (rs_site_paths s) site []) cls) \<longleftrightarrow>
     site \<in> rr_site_ids (reach_of s w) \<or> agent \<in> rr_device_ids (reach_of s w) \<or> lower cls \<in> rr_device_classes (reach_of s w)"
proof -
  let ?G = "set (rr_grants (reach_of s w))" and ?path = "dget_or (rs_site_paths s) site []"
  have "g_covers_device g agent site ?path cls \<longleftrightarrow> g_covers_site g site ?path \<or> g_kind g = KDevice \<and> g_ref g = agent \<or>
      g_kind g = KDeviceClass \<and> cls \<noteq> [] \<and> lower (g_ref g) = lower cls" if "g \<in> ?G" for g
    using reach_grants_effective [OF that] assms(4)
    by (cases "g_kind g") (auto simp: g_covers_device_def g_covers_site_def)
  then have "(\<exists>g \<in> ?G. g_covers_device g agent site ?path cls) \<longleftrightarrow>
      (\<exists>g \<in> ?G. g_covers_site g site ?path) \<or> (\<exists>g \<in> ?G. g_kind g = KDevice \<and> g_ref g = agent) \<or>
      (\<exists>g \<in> ?G. g_kind g = KDeviceClass \<and> cls \<noteq> [] \<and> lower (g_ref g) = lower cls)" by blast
  also have "(\<exists>g \<in> ?G. g_kind g = KDeviceClass \<and> cls \<noteq> [] \<and> lower (g_ref g) = lower cls) \<longleftrightarrow>
      lower cls \<in> rr_device_classes (reach_of s w)"
  proof -
    have "strip_text (g_ref g) \<noteq> [] \<longleftrightarrow> cls \<noteq> []"
      if "g \<in> ?G" "g_kind g = KDeviceClass" "lower (g_ref g) = lower cls" for g
    proof -
      have "g \<in> set (rs_grants s)" using that(1) by auto
      moreover have "g_ref g = [] \<longleftrightarrow> cls = []" using that(3) by (metis map_is_Nil_conv)
      ultimately show ?thesis using assms(2) that(2) by (auto simp: classes_named_def strip_text_def)
    qed
    then show ?thesis unfolding reach_device_classes by blast
  qed
  finally show ?thesis
    using reach_site_ids [OF assms(1,3,5)] assms(4) unfolding reach_device_ids by simp
qed

lemma listing_and_gate:
  assumes s: "wf_dict (rs_site_paths s)" "classes_named s" "\<not> rs_scope_only s"
    and f: "distinct (map (\<lambda>r. (fr_site r, fr_agent r)) fleet)"
    and site: "site \<noteq> []"
    and r: "read_reach_of s [p] = Inr reach"
  shows "scope_device_owned (Some reach) fleet site device = covers_owned reach site (resolve_in_fleet fleet site device)"
    and "permits_owned s p site (resolve_in_fleet fleet site device) = Inr (covers_owned reach site (resolve_in_fleet fleet site device))"
proof -
  have reach: "reach = reach_of s [p]" using r by (auto simp: read_reach_of_def Let_def split: if_splits)
  let ?R = "reach_of s [p]" and ?path = "dget_or (rs_site_paths s) site []"
  have wide: "\<exists>g \<in> set (rr_grants ?R). g_kind g = KTenant \<and> \<not> g_inert g" if "rr_tenant_wide ?R"
    using that reach_grants_effective unfolding reach_wide by blast
  show "permits_owned s p site (resolve_in_fleet fleet site device) = Inr (covers_owned reach site (resolve_in_fleet fleet site device))"
  proof (cases "resolve_in_fleet fleet site device")
    case None
    then show ?thesis using s(3) site unfolding reach
      by (auto simp: covers_owned_def permits_owned_def rr_covers_site_def permits_def site_query_def grant_reaches_def
          reach_one simp del: reach_simps(2))
  next
    case (Some t)
    then have "at_agent t \<noteq> []" "at_site t = site"
      using f by (auto simp: resolve_in_fleet_def fleet_index_one split: option.splits if_splits dest!: find_SomeD)
    then show ?thesis using Some s(3) unfolding reach
      by (auto simp: covers_owned_def permits_owned_def rr_covers_device_def permits_def device_query_def grant_reaches_def
          unit_path_for_def reach_one simp del: reach_simps(2))
  qed
  show "scope_device_owned (Some reach) fleet site device = covers_owned reach site (resolve_in_fleet fleet site device)"
  proof (cases "resolve_in_fleet fleet site device")
    case None
    then have no: "\<not> (device \<noteq> [] \<and> (\<exists>f \<in> set fleet. fr_agent f = device \<and> fr_site f = site))"
      using site f by (auto simp: resolve_in_fleet_def fleet_index_one find_None_iff split: option.splits if_splits)
    show ?thesis
    proof (cases "rr_tenant_wide ?R")
      case True
      then show ?thesis using wide None unfolding reach
        by (auto simp: scope_device_owned_def covers_owned_def rr_covers_site_def Let_def g_covers_site_def simp del: reach_simps)
    next
      case False
      then show ?thesis using no None reach_site_ids [OF s(1) site False] unfolding reach
        by (auto simp: scope_device_owned_def covers_owned_def rr_covers_site_def Let_def unit_path_for_def simp del: reach_simps(2))
    qed
  next
    case (Some t)
    then obtain row where row: "row \<in> set fleet" "fr_site row = site" "fr_agent row = device" "device \<noteq> []"
      "t = \<lparr>at_agent = device, at_site = site, at_class = fr_class row\<rparr>"
      using f by (auto simp: resolve_in_fleet_def fleet_index_one split: option.splits if_splits dest!: find_SomeD)
    have one: "g = row" if "g \<in> set fleet" "fr_agent g = device" "fr_site g = site" for g
      using that row f by (auto simp: distinct_map inj_on_def)
    show ?thesis
    proof (cases "rr_tenant_wide ?R")
      case True
      then show ?thesis using wide Some row(5) unfolding reach
        by (auto simp: scope_device_owned_def covers_owned_def rr_covers_device_def Let_def g_covers_device_def g_covers_site_def
            simp del: reach_simps(2))
    next
      case False
      have "(\<exists>f \<in> set fleet. fr_agent f = device \<and> fr_site f = site \<and> P f) \<longleftrightarrow> P row" for P
        using row(1-3) one by blast
      then have "scope_device_owned (Some reach) fleet site device \<longleftrightarrow>
          site \<in> rr_site_ids ?R \<or> device \<in> rr_device_ids ?R \<or> lower (fr_class row) \<in> rr_device_classes ?R"
        using False row(3,4) unfolding reach scope_device_owned_def by simp
      also have "\<dots> \<longleftrightarrow> covers_owned reach site (resolve_in_fleet fleet site device)"
        using covers_device_iff [OF s(1,2) site row(4) False, of "fr_class row"] unfolding reach Some row(5)
        by (simp add: covers_owned_def rr_covers_device_def Let_def del: reach_simps(2))
      finally show ?thesis .
    qed
  qed
qed

text \<open>A device class of blanks only, which the reach leaves out of its classes.\<close>

definition blank_class :: "grant \<Rightarrow> bool" where
  "blank_class g \<longleftrightarrow> g_kind g = KDeviceClass \<and> g_ref g \<noteq> [] \<and> strip_text (g_ref g) = []"

definition without_blanks :: "resolved_scope \<Rightarrow> resolved_scope" where
  "without_blanks s = s\<lparr>rs_grants := filter (\<lambda>g. \<not> blank_class g) (rs_grants s)\<rparr>"

lemma without_blanks_simps [simp]:
  "rs_site_paths (without_blanks s) = rs_site_paths s" "rs_scope_only (without_blanks s) = rs_scope_only s"
  "rs_grants (without_blanks s) = filter (\<lambda>g. \<not> blank_class g) (rs_grants s)" "classes_named (without_blanks s)"
  by (auto simp: without_blanks_def classes_named_def blank_class_def)

lemma without_blanks_reach:
  "scope_device_owned (Some (reach_of (without_blanks s) w)) fleet site device = scope_device_owned (Some (reach_of s w)) fleet site device"
proof -
  let ?R = "reach_of s w" and ?R' = "reach_of (without_blanks s) w"
  have keep: "filter P (filter Q (filter (\<lambda>g. \<not> blank_class g) gs)) = filter P (filter Q gs)"
    if "\<And>g. P g \<Longrightarrow> \<not> blank_class g" for P Q :: "grant \<Rightarrow> bool" and gs
    using that by (induction gs) auto
  have ex: "list_ex (\<lambda>g. g_kind g = KTenant) (filter Q (filter (\<lambda>g. \<not> blank_class g) gs)) = list_ex (\<lambda>g. g_kind g = KTenant) (filter Q gs)"
    for Q :: "grant \<Rightarrow> bool" and gs
    by (auto simp: list_ex_iff blank_class_def)
  have k: "filter (\<lambda>g. g_kind g = k) (filter Q (filter (\<lambda>g. \<not> blank_class g) gs)) = filter (\<lambda>g. g_kind g = k) (filter Q gs)"
    if "k \<noteq> KDeviceClass" for k and Q :: "grant \<Rightarrow> bool" and gs
    using that by (intro keep) (auto simp: blank_class_def)
  have d: "filter (\<lambda>g. g_kind g = KDevice \<and> g_ref g \<noteq> []) (filter Q (filter (\<lambda>g. \<not> blank_class g) gs)) =
      filter (\<lambda>g. g_kind g = KDevice \<and> g_ref g \<noteq> []) (filter Q gs)" for Q :: "grant \<Rightarrow> bool" and gs
    by (intro keep) (auto simp: blank_class_def)
  have c: "filter (\<lambda>g. g_kind g = KDeviceClass \<and> strip_text (g_ref g) \<noteq> []) (filter Q (filter (\<lambda>g. \<not> blank_class g) gs)) =
      filter (\<lambda>g. g_kind g = KDeviceClass \<and> strip_text (g_ref g) \<noteq> []) (filter Q gs)" for Q :: "grant \<Rightarrow> bool" and gs
    by (intro keep) (auto simp: blank_class_def)
  have "rr_tenant_wide ?R' = rr_tenant_wide ?R" "rr_site_ids ?R' = rr_site_ids ?R" "rr_device_ids ?R' = rr_device_ids ?R"
    "rr_device_classes ?R' = rr_device_classes ?R"
    by (simp_all only: reach_of_def Let_def read_reach.simps without_blanks_simps ex d c k scope_kind.distinct scope_kind.simps not_False_eq_True simp_thms)
  then show ?thesis by (simp add: scope_device_owned_def)
qed

lemma permits_blanks:
  assumes "\<not> rs_scope_only s"
  shows "permits s p q = Inr (permits (without_blanks s) p q = Inr True \<or>
    (\<exists>g \<in> set (rs_grants s). blank_class g \<and> \<not> g_inert g \<and> carries p g \<and> grant_reaches g q (unit_path_for (rs_site_paths s) (q_site q) (q_unit q))))"
  using assms by (auto simp: permits_def)

text \<open>C13: What a listing shows and what the gate permits are the same, up to device classes that are made of blanks: for a row
  that names a site and maybe a device, the decision on the device as it currently resolves there, or else on the site, is
  yes exactly when the SQL condition of the repositories holds, or a grant of a device class of blanks only names the
  class of that device. So a listing never shows what the gate refuses. The fleet has one row for a device at a site,
  and the permission is one that a reach can be asked for.\<close>

theorem listings_match_decisions:
  assumes d: "wf_dict (rs_site_paths s)" "distinct (map (\<lambda>r. (fr_site r, fr_agent r)) fleet)" and site: "site \<noteq> []"
    and r: "read_reach_of s [p] = Inr reach"
  shows "permits_owned s p site (resolve_in_fleet fleet site device) =
    Inr (scope_device_owned (Some reach) fleet site device \<or>
      (\<exists>t g. resolve_in_fleet fleet site device = Some t \<and> g \<in> set (rs_grants s) \<and> \<not> g_inert g \<and> carries p g \<and>
         g_kind g = KDeviceClass \<and> g_ref g \<noteq> [] \<and> strip_text (g_ref g) = [] \<and> lower (g_ref g) = lower (at_class t)))"
proof -
  let ?s = "without_blanks s" and ?t = "resolve_in_fleet fleet site device"
  have so: "\<not> rs_scope_only s" and reach: "reach = reach_of s [p]" and p: "p \<noteq> []" "p \<noteq> scope_only_marker"
    using r by (auto simp: read_reach_of_def Let_def split: if_splits)
  have "read_reach_of ?s [p] = Inr (reach_of ?s [p])" using so p by (simp add: read_reach_of_def)
  note lg = listing_and_gate [OF _ _ _ d(2) site this, of device]
  have plain: "permits_owned ?s p site ?t = Inr (scope_device_owned (Some reach) fleet site device)"
    using lg d(1) so without_blanks_reach [of s "[p]" fleet site device] unfolding reach by simp
  show ?thesis
  proof (cases ?t)
    case None
    have "\<not> grant_reaches g (site_query site) path" if "blank_class g" for g path
      using that site by (simp add: blank_class_def grant_reaches_def site_query_def g_covers_site_def)
    then show ?thesis using plain None permits_blanks [OF so, of p "site_query site"] by (auto simp: permits_owned_def)
  next
    case (Some t)
    then have "at_agent t \<noteq> []"
      using d(2) by (auto simp: resolve_in_fleet_def fleet_index_one split: option.splits if_splits dest!: find_SomeD)
    then have "grant_reaches g (device_query (at_site t) (at_agent t) (at_class t)) path \<longleftrightarrow> \<not> g_inert g \<and> lower (g_ref g) = lower (at_class t)"
      if "blank_class g" for g path
    proof -
      have "lower (g_ref g) = lower (at_class t) \<Longrightarrow> at_class t \<noteq> []" using that by (auto simp: blank_class_def)
      then show ?thesis using that \<open>at_agent t \<noteq> []\<close>
        by (auto simp: blank_class_def grant_reaches_def device_query_def g_covers_device_def)
    qed
    then show ?thesis
      using plain Some permits_blanks [OF so, of p "device_query (at_site t) (at_agent t) (at_class t)"]
      by (auto simp: permits_owned_def blank_class_def)
  qed
qed

definition class_reader :: resolved_scope where
  "class_reader = example_scope [example_row ''bob'' ''device_class'' ''Switch''] 0"

definition blank_reader :: resolved_scope where
  "blank_reader = example_scope [example_row ''bob'' ''device_class'' '' ''] 0"

theorem listings_match_decisions_witness:
  "permits_owned class_reader ''fleet.view'' ''s1''
     (resolve_in_fleet [\<lparr>fr_site = ''s1'', fr_agent = ''n7'', fr_class = ''switch''\<rparr>] ''s1'' ''n7'') = Inr True \<and>
   permits_owned blank_reader ''fleet.view'' ''s1''
     (resolve_in_fleet [\<lparr>fr_site = ''s1'', fr_agent = ''n7'', fr_class = ''switch''\<rparr>] ''s1'' ''n7'') = Inr False"
proof
  let ?fleet = "[\<lparr>fr_site = ''s1'', fr_agent = ''n7'', fr_class = ''switch''\<rparr>]"
  have 1: "wf_dict (rs_site_paths class_reader)" "wf_dict (rs_site_paths blank_reader)"
    "distinct (map (\<lambda>r. (fr_site r, fr_agent r)) ?fleet)" "''s1'' \<noteq> ([] :: string)" by code_simp+
  have 2: "read_reach_of class_reader [''fleet.view''] = Inr (reach_of class_reader [''fleet.view''])"
    "read_reach_of blank_reader [''fleet.view''] = Inr (reach_of blank_reader [''fleet.view''])" by code_simp+
  have "scope_device_owned (Some (reach_of class_reader [''fleet.view''])) ?fleet ''s1'' ''n7''" by code_simp
  then show "permits_owned class_reader ''fleet.view'' ''s1'' (resolve_in_fleet ?fleet ''s1'' ''n7'') = Inr True"
    using listings_match_decisions [OF 1(1,3,4) 2(1), of "''n7''"] by simp
  have n: "\<not> scope_device_owned (Some (reach_of blank_reader [''fleet.view''])) ?fleet ''s1'' ''n7''" by code_simp
  have t: "resolve_in_fleet ?fleet ''s1'' ''n7'' = Some \<lparr>at_agent = ''n7'', at_site = ''s1'', at_class = ''switch''\<rparr>" by code_simp
  have "list_all (\<lambda>g. lower (g_ref g) \<noteq> lower ''switch'') (rs_grants blank_reader)" by code_simp
  then have "lower (g_ref g) \<noteq> lower ''switch''" if "g \<in> set (rs_grants blank_reader)" for g using that unfolding list_all_iff by blast
  then have "\<not> (\<exists>t g. resolve_in_fleet ?fleet ''s1'' ''n7'' = Some t \<and> g \<in> set (rs_grants blank_reader) \<and> lower (g_ref g) = lower (at_class t))"
    unfolding t option.inject by (metis authorized_target.select_convs(3))
  then show "permits_owned blank_reader ''fleet.view'' ''s1'' (resolve_in_fleet ?fleet ''s1'' ''n7'') = Inr False"
    using listings_match_decisions [OF 1(2,3,4) 2(2), of "''n7''"] n by auto
qed

text \<open>A device class made of blanks only: the decision grants it, the listing leaves it out.\<close>

lemma blank_class_diverges:
  fixes s f
  defines "s \<equiv> example_scope [example_row ''bob'' ''device_class'' '' ''] 0"
    and "f \<equiv> [\<lparr>fr_site = ''s1'', fr_agent = ''n7'', fr_class = '' ''\<rparr>]"
  shows "permits_owned s ''fleet.view'' ''s1'' (resolve_in_fleet f ''s1'' ''n7'') = Inr True"
    "\<not> scope_device_owned (Some (reach_of s [''fleet.view''])) f ''s1'' ''n7''"
  unfolding assms by (code_simp, code_simp)

end
