(* ===== verification/Approval_Policy.thy ===== *)
theory Approval_Policy
  imports Preconditions Scope
begin

text \<open>
  Which approval policy governs a decision and when the decision is complete (\<open>approval_policy.py\<close> of
  central command), with the risk table the selection reads (\<open>autonomy.py\<close>).
\<close>

subsection \<open>Policies\<close>

record approval_policy =
  ap_id :: string
  ap_name :: string
  ap_action :: string
  ap_device :: string
  ap_risk :: string
  ap_mode :: string
  ap_required :: int
  ap_group :: "string option"
  ap_status :: string

record approval_group =
  gp_id :: string
  gp_tenant :: string
  gp_name :: string
  gp_required :: int

record group_member =
  gm_group :: string
  gm_email :: string
  gm_ref :: string

record approval_record =
  rc_type :: string
  rc_subject :: string
  rc_approver :: string
  rc_email :: string
  rc_decision :: string
  rc_policy :: string
  rc_scope_ok :: bool
  rc_reason :: string
  rc_targets :: "string list"

definition require_approval :: string where "require_approval = ''require_approval''"
definition auto_approve :: string where "auto_approve = ''auto_approve''"
definition d_approved :: string where "d_approved = ''approved''"
definition d_denied :: string where "d_denied = ''denied''"

datatype approval_state = StPending | StApproved | StDenied

definition platform_actions :: "action_type list" where
  "platform_actions = [IdentifyLed, CollectDiagnostics, FanReset, SelClear, BmcReset, PowerCycle, PowerCapAdjust,
     ConfigRestore, FirmwareUpdate, FirmwareRollback, ClearCounters, InterfaceReset, InterfaceDisable, InterfaceEnable]"

definition action_risk_map :: "(string, string) dict" where
  "action_risk_map = map (\<lambda>a. (action_value a, action_risk a)) platform_actions"

definition effective_mode :: "approval_policy \<Rightarrow> string" where
  "effective_mode p =
     (let mode = lower (if ap_mode p = [] then require_approval else ap_mode p)
      in if mode = auto_approve then require_approval else mode)"

text \<open>One declared field of a policy against what is asked: it is silent, agrees with a weight, or excludes.\<close>

definition field_score :: "string \<Rightarrow> string \<Rightarrow> nat \<Rightarrow> nat option" where
  "field_score declared want weight =
     (if declared = [] \<or> declared = ''*'' then Some 0 else if lower declared \<noteq> lower want then None else Some weight)"

definition specificity :: "approval_policy \<Rightarrow> string \<Rightarrow> string \<Rightarrow> string \<Rightarrow> nat option" where
  "specificity p action device risk =
     (if ap_status p \<noteq> [] \<and> ap_status p \<noteq> ''active'' then None
      else (case field_score (ap_action p) action 4 of None \<Rightarrow> None
        | Some a \<Rightarrow> (case field_score (ap_device p) device 2 of None \<Rightarrow> None
        | Some d \<Rightarrow> (case field_score (ap_risk p) risk 1 of None \<Rightarrow> None
        | Some r \<Rightarrow> Some (a + d + r)))))"

definition better_policy :: "string \<Rightarrow> string \<Rightarrow> string \<Rightarrow> approval_policy \<Rightarrow> (approval_policy \<times> nat \<times> string) option
    \<Rightarrow> (approval_policy \<times> nat \<times> string) option" where
  "better_policy action device risk p best =
     (case specificity p action device risk of None \<Rightarrow> best
      | Some score \<Rightarrow> (case best of None \<Rightarrow> Some (p, score, ap_id p)
        | Some (_, key) \<Rightarrow> if key < (score, ap_id p) then Some (p, score, ap_id p) else best))"

definition resolve_policy :: "approval_policy list \<Rightarrow> string \<Rightarrow> string \<Rightarrow> string \<Rightarrow> approval_policy option" where
  "resolve_policy ps action device risk = map_option fst (fold (better_policy action device risk) ps None)"

definition classes_of :: "string list \<Rightarrow> string list" where
  "classes_of cs = (let xs = sort (remdups (map (lower \<circ> strip_text) cs)) in if xs = [] then [[]] else xs)"

definition resolve_policy_for_classes ::
  "approval_policy list \<Rightarrow> string \<Rightarrow> string list \<Rightarrow> string \<Rightarrow> approval_policy option \<times> string list" where
  "resolve_policy_for_classes ps action cs risk =
     (let chosen = fold (\<lambda>c. let p = resolve_policy ps action c risk
            in dset (case p of None \<Rightarrow> [] | Some q \<Rightarrow> ap_id q) p) (classes_of cs) []
      in if length chosen = 1 then (snd (hd chosen), []) else (None, sort (dkeys chosen)))"

definition required_approvers :: "approval_policy option \<Rightarrow> approval_group option \<Rightarrow> int" where
  "required_approvers policy grp =
     (case policy of None \<Rightarrow> 1
      | Some p \<Rightarrow> (let count = (if ap_required p = 0 then 1 else ap_required p)
          in if 1 < count then count
             else (case grp of Some g \<Rightarrow> max 1 (if gp_required g = 0 then 1 else gp_required g) | None \<Rightarrow> max 1 count)))"

definition is_member :: "group_member list \<Rightarrow> string \<Rightarrow> string \<Rightarrow> bool" where
  "is_member members approver email =
     (let ref = strip_text approver; mail = lower (strip_text email)
      in list_ex (\<lambda>m. (ref \<noteq> [] \<and> gm_ref m = ref) \<or> (mail \<noteq> [] \<and> lower (strip_text (gm_email m)) = mail)) members)"

subsection \<open>Completion\<close>

record approval_block =
  bl_state :: approval_state
  bl_required :: int
  bl_received :: int
  bl_remaining :: int
  bl_approvers :: "string list"
  bl_denied_by :: "string option"
  bl_denied_reason :: string

text \<open>The first record of each approver.\<close>

definition first_per_approver :: "approval_record list \<Rightarrow> approval_record list" where
  "first_per_approver rs = fst (fold (\<lambda>r (kept, seen). if rc_approver r \<in> seen then (kept, seen)
     else (kept @ [r], insert (rc_approver r) seen)) rs ([], {}))"

definition display_name :: "approval_record \<Rightarrow> string" where
  "display_name r = (if rc_email r = [] then rc_approver r else rc_email r)"

definition evaluate_completion :: "approval_record list \<Rightarrow> int \<Rightarrow> approval_block" where
  "evaluate_completion rs needed =
     (let denials = filter (\<lambda>r. rc_decision r = d_denied) rs;
          votes = first_per_approver (filter (\<lambda>r. rc_decision r = d_approved \<and> rc_scope_ok r) rs);
          received = int (length votes)
      in \<lparr>bl_state = (if denials \<noteq> [] then StDenied else if max 1 needed \<le> received then StApproved else StPending),
          bl_required = max 1 needed, bl_received = received, bl_remaining = max 0 (max 1 needed - received),
          bl_approvers = map display_name votes,
          bl_denied_by = (if denials = [] then None else Some (display_name (hd denials))),
          bl_denied_reason = (if denials = [] then [] else rc_reason (hd denials))\<rparr>)"

record progress = approval_block +
  pg_policy :: "string option"
  pg_mode :: string
  pg_group :: "string option"

definition approval_block_of :: "approval_policy option \<Rightarrow> approval_group option \<Rightarrow> approval_record list \<Rightarrow> progress" where
  "approval_block_of policy grp rs =
     approval_block.extend (evaluate_completion rs (required_approvers policy grp))
       (progress.fields (map_option ap_id policy) (case policy of None \<Rightarrow> require_approval | Some p \<Rightarrow> effective_mode p)
          (map_option gp_id grp))"

subsection \<open>Selection\<close>

abbreviation matching_key :: "string \<Rightarrow> string \<Rightarrow> string \<Rightarrow> approval_policy \<Rightarrow> (nat \<times> string) option" where
  "matching_key action device risk p \<equiv> map_option (\<lambda>s. (s, ap_id p)) (specificity p action device risk)"

lemma better_policy_key:
  "better_policy a d r p best = (case matching_key a d r p of None \<Rightarrow> best
     | Some k \<Rightarrow> (case best of None \<Rightarrow> Some (p, k) | Some (_, key) \<Rightarrow> if key < k then Some (p, k) else best))"
  by (auto simp: better_policy_def split: option.splits)

lemma fold_better:
  assumes "case best of None \<Rightarrow> True | Some (q, k) \<Rightarrow> matching_key a d r q = Some k"
  shows "case fold (better_policy a d r) ps best of
      None \<Rightarrow> best = None \<and> (\<forall>p \<in> set ps. specificity p a d r = None)
    | Some (q, k) \<Rightarrow> (q \<in> set ps \<or> best = Some (q, k)) \<and> matching_key a d r q = Some k \<and>
        (\<forall>p \<in> set ps. \<forall>k'. matching_key a d r p = Some k' \<longrightarrow> k' \<le> k) \<and>
        (\<forall>b k'. best = Some (b, k') \<longrightarrow> k' \<le> k)"
  using assms
proof (induction ps arbitrary: best)
  case Nil
  then show ?case by (auto split: option.splits)
next
  case (Cons p ps)
  let ?b = "better_policy a d r p best"
  have b: "case ?b of None \<Rightarrow> True | Some (q, k) \<Rightarrow> matching_key a d r q = Some k"
    using Cons.prems by (auto simp: better_policy_key split: option.splits)
  have old: "best = Some (b, k') \<Longrightarrow> \<exists>q k. ?b = Some (q, k) \<and> k' \<le> k" for b k'
    by (cases k') (auto simp: better_policy_key not_less split: option.splits)
  have new: "matching_key a d r p = Some k' \<Longrightarrow> \<exists>q k. ?b = Some (q, k) \<and> k' \<le> k" for k'
    by (cases k') (auto simp: better_policy_key not_less split: option.splits)
  have origin: "?b = Some (q, k) \<Longrightarrow> (q = p \<and> matching_key a d r p = Some k) \<or> best = Some (q, k)" for q k
    by (auto simp: better_policy_key split: option.splits if_splits)
  show ?case
  proof (cases "fold (better_policy a d r) (p # ps) best")
    case None
    then have f: "fold (better_policy a d r) ps ?b = None" by simp
    have n: "?b = None \<and> (\<forall>q \<in> set ps. specificity q a d r = None)" using Cons.IH [OF b] unfolding f by simp
    then have "best = None" "specificity p a d r = None" by (auto simp: better_policy_key split: option.splits if_splits)
    then show ?thesis using n None by simp
  next
    case (Some qk)
    obtain q k where qk: "qk = (q, k)" by (cases qk)
    then have f: "fold (better_policy a d r) ps ?b = Some (q, k)" using Some by simp
    have i: "(q \<in> set ps \<or> ?b = Some (q, k)) \<and> matching_key a d r q = Some k \<and>
        (\<forall>p \<in> set ps. \<forall>k'. matching_key a d r p = Some k' \<longrightarrow> k' \<le> k) \<and> (\<forall>b k'. ?b = Some (b, k') \<longrightarrow> k' \<le> k)"
      using Cons.IH [OF b] unfolding f by simp
    have "q \<in> set (p # ps) \<or> best = Some (q, k)" using i origin by auto
    moreover have bound: "k' \<le> k" if "?b = Some (b', k'')" "k' \<le> k''" for b' k' k''
      using order_trans [OF that(2)] i that(1) by blast
    moreover have "\<forall>x \<in> set (p # ps). \<forall>k'. matching_key a d r x = Some k' \<longrightarrow> k' \<le> k"
    proof (intro ballI allI impI)
      fix x k' assume x: "x \<in> set (p # ps)" "matching_key a d r x = Some k'"
      show "k' \<le> k"
      proof (cases "x = p")
        case True
        then show ?thesis using new [of k'] x(2) bound by blast
      next
        case False
        then show ?thesis using x i by auto
      qed
    qed
    moreover have "\<forall>b k'. best = Some (b, k') \<longrightarrow> k' \<le> k" using old bound by blast
    ultimately show ?thesis using i Some qk by simp
  qed
qed

lemma resolve_None: "resolve_policy ps a d r = None \<longleftrightarrow> (\<forall>p \<in> set ps. specificity p a d r = None)"
proof
  assume "resolve_policy ps a d r = None"
  then show "\<forall>p \<in> set ps. specificity p a d r = None" using fold_better [where best = None and a = a and d = d and r = r and ps = ps] by (simp add: resolve_policy_def)
next
  assume n: "\<forall>p \<in> set ps. specificity p a d r = None"
  then have "fold (better_policy a d r) ps None = None" by (induction ps) (auto simp: better_policy_def)
  then show "resolve_policy ps a d r = None" by (simp add: resolve_policy_def)
qed

lemma resolve_SomeD:
  assumes "resolve_policy ps a d r = Some p"
  shows "p \<in> set ps" "specificity p a d r \<noteq> None"
    "q \<in> set ps \<Longrightarrow> specificity q a d r = Some t \<Longrightarrow> (t, ap_id q) \<le> (the (specificity p a d r), ap_id p)"
proof -
  obtain k where f: "fold (better_policy a d r) ps None = Some (p, k)" using assms by (auto simp: resolve_policy_def)
  have i: "p \<in> set ps \<and> matching_key a d r p = Some k \<and> (\<forall>q \<in> set ps. \<forall>k'. matching_key a d r q = Some k' \<longrightarrow> k' \<le> k)"
    using fold_better [where best = None and a = a and d = d and r = r and ps = ps] unfolding f by simp
  then show "p \<in> set ps" "specificity p a d r \<noteq> None" by auto
  assume "q \<in> set ps" "specificity q a d r = Some t"
  then have "(t, ap_id q) \<le> k" using i by simp
  then show "(t, ap_id q) \<le> (the (specificity p a d r), ap_id p)" using i by (cases "specificity p a d r") auto
qed

text \<open>C21: The governing policy is the matching one with the greatest score and, among equals, the greatest identifier;
  the order in which the rows are read does not matter.\<close>

theorem policy_choice_unique:
  assumes "distinct (map ap_id ps)"
  shows "resolve_policy ps a d r = Some p \<longleftrightarrow> p \<in> set ps \<and>
     (\<exists>s. specificity p a d r = Some s \<and>
       (\<forall>q \<in> set ps. \<forall>t. specificity q a d r = Some t \<longrightarrow> t < s \<or> t = s \<and> ap_id q \<le> ap_id p))"
proof
  assume c: "resolve_policy ps a d r = Some p"
  then obtain s where s: "specificity p a d r = Some s" using resolve_SomeD(2) by blast
  have "t < s \<or> t = s \<and> ap_id q \<le> ap_id p" if "q \<in> set ps" "specificity q a d r = Some t" for q t
    using resolve_SomeD(3) [OF c that] s by (auto simp: less_eq_prod_def)
  then show "p \<in> set ps \<and> (\<exists>s. specificity p a d r = Some s \<and>
       (\<forall>q \<in> set ps. \<forall>t. specificity q a d r = Some t \<longrightarrow> t < s \<or> t = s \<and> ap_id q \<le> ap_id p))"
    using resolve_SomeD(1) [OF c] s by blast
next
  assume "p \<in> set ps \<and> (\<exists>s. specificity p a d r = Some s \<and>
       (\<forall>q \<in> set ps. \<forall>t. specificity q a d r = Some t \<longrightarrow> t < s \<or> t = s \<and> ap_id q \<le> ap_id p))"
  then obtain s where p: "p \<in> set ps" "specificity p a d r = Some s"
    and top: "\<And>q t. q \<in> set ps \<Longrightarrow> specificity q a d r = Some t \<Longrightarrow> t < s \<or> t = s \<and> ap_id q \<le> ap_id p" by blast
  obtain q where q: "resolve_policy ps a d r = Some q" using p resolve_None [where ps = ps and a = a and d = d and r = r] by fastforce
  obtain t where t: "specificity q a d r = Some t" using resolve_SomeD(2) [OF q] by blast
  have "(s, ap_id p) \<le> (t, ap_id q)" using resolve_SomeD(3) [OF q p] t by simp
  moreover have "t < s \<or> t = s \<and> ap_id q \<le> ap_id p" using top [OF resolve_SomeD(1) [OF q] t] .
  ultimately have "ap_id p = ap_id q" by (auto simp: less_eq_prod_def)
  then have "p = q" using assms p(1) resolve_SomeD(1) [OF q] by (auto simp: distinct_map inj_on_def)
  then show "resolve_policy ps a d r = Some p" using q by simp
qed

definition example_policies :: "approval_policy list" where
  "example_policies =
    [\<lparr>ap_id = ''p1'', ap_name = [], ap_action = ''*'', ap_device = ''*'', ap_risk = ''*'', ap_mode = ''auto_approve'', ap_required = 1,
       ap_group = None, ap_status = ''active''\<rparr>,
     \<lparr>ap_id = ''p2'', ap_name = [], ap_action = ''*'', ap_device = ''Switch'', ap_risk = ''*'', ap_mode = [], ap_required = 2,
       ap_group = None, ap_status = ''active''\<rparr>]"

theorem policy_choice_unique_witness:
  "resolve_policy example_policies ''POWER_CYCLE'' ''switch'' ''medium'' = Some (example_policies ! 1) \<and>
   distinct (map ap_id example_policies)"
proof -
  have d: "distinct (map ap_id example_policies)" by code_simp
  have "\<forall>q \<in> set example_policies. \<forall>t. specificity q ''POWER_CYCLE'' ''switch'' ''medium'' = Some t \<longrightarrow>
      t < 2 \<or> t = 2 \<and> ap_id q \<le> ap_id (example_policies ! 1)"
    by (simp add: example_policies_def specificity_def field_score_def lower_char_def)
  moreover have "specificity (example_policies ! 1) ''POWER_CYCLE'' ''switch'' ''medium'' = Some 2" by code_simp
  moreover have "example_policies ! 1 \<in> set example_policies" by (simp add: example_policies_def)
  ultimately show ?thesis using policy_choice_unique [OF d] d by blast
qed

lemma never_auto_approved: "effective_mode p \<noteq> auto_approve"
  by (auto simp: effective_mode_def Let_def require_approval_def auto_approve_def)

lemma group_only_raises: "required_approvers policy None \<le> required_approvers policy grp"
  by (auto simp: required_approvers_def Let_def split: option.splits)

lemma required_positive: "1 \<le> required_approvers policy grp"
  by (auto simp: required_approvers_def Let_def split: option.splits)

subsection \<open>One policy for a set of classes\<close>

lemma classes_of_in: "c \<in> set cs \<Longrightarrow> lower (strip_text c) \<in> set (classes_of cs)"
proof -
  assume c: "c \<in> set cs"
  let ?xs = "sort (remdups (map (lower \<circ> strip_text) cs))"
  have i: "lower (strip_text c) \<in> set ?xs" using c by simp
  then have "?xs \<noteq> []" by force
  then show ?thesis using i unfolding classes_of_def Let_def by simp
qed

lemma length_one: "length xs = 1 \<longleftrightarrow> (\<exists>x. xs = [x])"
  by (cases xs) auto

text \<open>The choices per class, under the identifier of the policy chosen.\<close>

lemma chosen_fold:
  assumes inj: "\<And>x y. x \<in> f ` set cs \<Longrightarrow> y \<in> f ` set cs \<Longrightarrow> key x = key y \<Longrightarrow> x = y" and c: "c \<in> set cs"
  shows "dget (fold (\<lambda>c. dset (key (f c)) (f c)) cs []) (key (f c)) = Some (f c)"
proof -
  obtain x where x: "find (\<lambda>x. key (f x) = key (f c)) (rev cs) = Some x"
    using c by (cases "find (\<lambda>x. key (f x) = key (f c)) (rev cs)") (auto simp: find_None_iff)
  then have "x \<in> set cs" "key (f x) = key (f c)" using find_SomeD by force+
  then have "f x = f c" using inj c by blast
  then show ?thesis by (simp add: dget_fold_dset x)
qed

text \<open>When the classes of a set are not refused as conflicting, the policy returned is the governing one of every class.\<close>

theorem one_policy_for_all_classes:
  assumes "resolve_policy_for_classes ps action cs risk = (p, [])" and "distinct (map ap_id ps)" "\<forall>q \<in> set ps. ap_id q \<noteq> []"
    and "c \<in> set cs"
  shows "resolve_policy ps action (lower (strip_text c)) risk = p"
proof -
  let ?f = "\<lambda>c. resolve_policy ps action c risk" and ?key = "\<lambda>p. case p of None \<Rightarrow> [] | Some q \<Rightarrow> ap_id q"
  let ?d = "fold (\<lambda>c. dset (?key (?f c)) (?f c)) (classes_of cs) []"
  have inj: "x = y" if "x \<in> ?f ` A" "y \<in> ?f ` A" "?key x = ?key y" for x y A
  proof -
    have m: "z = None \<or> (\<exists>q. z = Some q \<and> q \<in> set ps)" if "z \<in> ?f ` A" for z
      using that resolve_SomeD(1) by (cases z) (auto dest!: sym [of "Some _"])
    have xy: "x = None \<or> (\<exists>q. x = Some q \<and> q \<in> set ps)" "y = None \<or> (\<exists>q. y = Some q \<and> q \<in> set ps)"
      by (rule m [OF that(1)], rule m [OF that(2)])
    have i: "ap_id a = ap_id b \<Longrightarrow> a = b" if "a \<in> set ps" "b \<in> set ps" for a b
      using assms(2) that unfolding distinct_map by (blast dest: inj_onD)
    show ?thesis using that(3) xy assms(3) i by (cases x; cases y) force+
  qed
  have in_d: "dget ?d (?key (?f b)) = Some (?f b)" if "b \<in> set (classes_of cs)" for b
    by (rule chosen_fold [OF inj that])
  have ne: "sort (dkeys ?d) \<noteq> []" using in_d [OF classes_of_in [OF assms(4)]] by (cases ?d) auto
  have "length ?d = 1 \<and> p = snd (hd ?d)"
    using assms(1) ne unfolding resolve_policy_for_classes_def Let_def by (auto split: if_splits)
  then obtain k where "?d = [(k, p)]" unfolding length_one by auto
  then show ?thesis using in_d [OF classes_of_in [OF assms(4)]] by (auto split: if_splits)
qed

theorem one_policy_for_all_classes_witness:
  "resolve_policy example_policies ''POWER_CYCLE'' (lower (strip_text '' Switch'')) ''medium'' = Some (example_policies ! 1)"
proof -
  have "resolve_policy_for_classes example_policies ''POWER_CYCLE'' [''switch'', '' Switch''] ''medium'' = (Some (example_policies ! 1), [])"
    "distinct (map ap_id example_policies)" "\<forall>q \<in> set example_policies. ap_id q \<noteq> []" "'' Switch'' \<in> set [''switch'', '' Switch'']"
    by code_simp+
  then show ?thesis by (rule one_policy_for_all_classes)
qed

subsection \<open>Counting approvals\<close>

abbreviation keep_first where
  "keep_first \<equiv> \<lambda>r (kept, seen). if rc_approver r \<in> seen then (kept, seen) else (kept @ [r], insert (rc_approver r) seen)"

lemma first_inv:
  assumes "distinct (map rc_approver ks)"
  shows "distinct (map rc_approver (fst (fold keep_first rs (ks, rc_approver ` set ks)))) \<and>
    rc_approver ` set (fst (fold keep_first rs (ks, rc_approver ` set ks))) = rc_approver ` set (ks @ rs)"
  using assms
proof (induction rs arbitrary: ks)
  case (Cons r rs)
  show ?case
  proof (cases "rc_approver r \<in> rc_approver ` set ks")
    case True
    then have "rc_approver ` set (ks @ r # rs) = rc_approver ` set (ks @ rs)" by auto
    then show ?thesis using Cons.IH [OF Cons.prems] True by simp
  next
    case False
    then have "distinct (map rc_approver (ks @ [r]))" using Cons.prems by simp
    from Cons.IH [OF this] show ?thesis using False by simp
  qed
qed simp

lemma first_per_approver:
  "distinct (map rc_approver (first_per_approver rs))" "rc_approver ` set (first_per_approver rs) = rc_approver ` set rs"
  using first_inv [of "[]" rs] by (simp_all add: first_per_approver_def)

definition approvers_of :: "approval_record list \<Rightarrow> string set" where
  "approvers_of rs = rc_approver ` {r \<in> set rs. rc_decision r = d_approved \<and> rc_scope_ok r}"

lemma received: "bl_received (evaluate_completion rs n) = int (card (approvers_of rs))"
proof -
  let ?v = "first_per_approver (filter (\<lambda>r. rc_decision r = d_approved \<and> rc_scope_ok r) rs)"
  have "length ?v = card (rc_approver ` set ?v)"
    using distinct_card [OF first_per_approver(1)] unfolding set_map length_map by (rule sym)
  then show ?thesis by (simp add: evaluate_completion_def Let_def first_per_approver(2) approvers_of_def)
qed

text \<open>A decision is complete exactly when enough different people approved and nobody denied; one denial decides.\<close>

theorem completion_by_people:
  "bl_state (evaluate_completion rs n) =
     (if \<exists>r \<in> set rs. rc_decision r = d_denied then StDenied
      else if max 1 n \<le> int (card (approvers_of rs)) then StApproved else StPending)"
  using received [of rs n] by (auto simp: evaluate_completion_def Let_def filter_empty_conv)

end
