(* ===== verification/Grant_Integrity.thy ===== *)
theory Grant_Integrity
  imports Org_Units
begin

text \<open>
  How scope grants are made, moved and taken away in central command: the rules
  (\<open>grant_integrity.py\<close>), the count of administrators (\<open>scope.py\<close>), the rows (\<open>ScopeGrantRepo\<close> of
  \<open>db/repos.py\<close>), the loader of a caller's scope (\<open>governance.py\<close>) and the handlers (\<open>api/scope_grants.py\<close>)
  of one tenant. A handler that refuses commits nothing but its audit entry, which is left out, as are the
  length limits of the request schema. The tenant lock makes each handler one step.
\<close>

subsection \<open>Roles\<close>

definition role_permissions_table :: "(string, string list) dict" where
  "role_permissions_table =
    [(''platform_super_admin'', [''*'']),
     (''tenant_owner'', [''tenant.view'', ''user.manage'', ''user.view'', ''role.manage'', ''governance.view'',
        ''site.manage'', ''site.view'', ''fleet.view'', ''action.approve'', ''incident.view'', ''incident.acknowledge'',
        ''billing.manage'', ''billing.view'', ''license.view'', ''support.create'', ''support.view'', ''audit.view'',
        ''audit.export'', ''skill.submit'', ''skill.install'']),
     (''site_admin'', [''site.manage'', ''site.view'', ''fleet.view'', ''action.approve'', ''governance.view'',
        ''incident.view'', ''incident.acknowledge'', ''user.view'']),
     (''operator'', [''fleet.view'', ''action.approve'', ''incident.view'', ''incident.acknowledge'', ''support.create'',
        ''support.view'', ''skill.submit'']),
     (''auditor'', [''governance.view'', ''fleet.view'', ''incident.view'', ''billing.view'', ''audit.view'', ''audit.export'',
        ''user.view'', ''site.view'', ''license.view'', ''support.view'']),
     (''viewer'', [''fleet.view'', ''incident.view''])]"

definition tenant_roles :: "string list" where
  "tenant_roles = filter (\<lambda>r. r \<noteq> ''platform_super_admin'') (dkeys role_permissions_table)"

record user_ctx =
  uc_id :: string
  uc_email :: string
  uc_role :: string
  uc_perms :: "string list"

definition role_ceiling_for :: "grant_row \<Rightarrow> string list option" where
  "role_ceiling_for row = dget role_permissions_table (strip_text (gr_role row))"

definition token_permissions :: "user_ctx \<Rightarrow> string list" where
  "token_permissions u =
     (let ps = dget_or role_permissions_table (uc_role u) (uc_perms u) in if ps = [] then uc_perms u else ps)"

definition role_permissions_for :: "grant_row \<Rightarrow> string list" where
  "role_permissions_for row = dget_or role_permissions_table (strip_text (gr_role row)) []"

definition delegated_permissions :: "string \<Rightarrow> string list option \<Rightarrow> api_error + string set" where
  "delegated_permissions role narrowed =
     (let r = strip_text role in
      if r \<notin> set tenant_roles then Inl (Http 400 ''role_required'')
      else Inr (effective_permissions (dget_or role_permissions_table r []) narrowed))"

definition refuse_self_grant :: "user_ctx \<Rightarrow> string \<Rightarrow> string \<Rightarrow> api_error + unit" where
  "refuse_self_grant u ptype pref =
     (if ptype \<noteq> principal_user then Inr ()
      else (let ref = strip_text pref; email = lower (strip_text (uc_email u));
                own = strip_text (uc_id u) # (if email = [] then [] else [email])
        in require (\<not> (ref \<noteq> [] \<and> (ref \<in> set own \<or> lower ref \<in> set own))) (Http 403 ''self_grant'')))"

definition target_query :: "string \<Rightarrow> string \<Rightarrow> string \<Rightarrow> scope_query" where
  "target_query stype ref unit_path =
     (if stype = ''tenant'' then tenant_query
      else if stype = ''org_unit'' then unit_query unit_path
      else if stype = ''site'' then site_query ref
      else tenant_query)"

definition check_delegation :: "resolved_scope \<Rightarrow> string set \<Rightarrow> scope_query \<Rightarrow> api_error + unit" where
  "check_delegation grantor perms target =
     andthen (forbid_out_of_scope grantor admin_permission target) (\<lambda>_.
     require (\<forall>p \<in> perms. p = admin_permission \<or> permits grantor p target = Inr True) (Http 403 ''exceeds_grantor''))"

subsection \<open>Counting administrators\<close>

definition row_in_realm :: "string \<Rightarrow> grant_row \<Rightarrow> bool" where
  "row_in_realm realm r \<longleftrightarrow> realm = [] \<or> gr_realm r = realm \<or> gr_realm r = []"

definition administers :: "string set \<Rightarrow> bool" where
  "administers ps \<longleftrightarrow> admin_permission \<in> ps \<or> ''*'' \<in> ps"

definition standing_row :: "string \<Rightarrow> time \<Rightarrow> bool \<Rightarrow> grant_row \<Rightarrow> bool" where
  "standing_row realm now permanent_only r \<longleftrightarrow>
     grant_active now r \<and> row_in_realm realm r \<and> \<not> (permanent_only \<and> gr_expires r \<noteq> None)"

definition qualifies :: "string \<Rightarrow> time \<Rightarrow> bool \<Rightarrow> grant_row \<Rightarrow> bool" where
  "qualifies realm now permanent_only r \<longleftrightarrow>
     gr_ptype r = principal_user \<and> gr_stype r = ''tenant'' \<and> standing_row realm now permanent_only r \<and>
     administers (effective_permissions (role_permissions_for r) (gr_subset r))"

text \<open>The caller is counted for their own tenant rows, judged by the role their token carries now.\<close>

definition caller_counts ::
  "string \<Rightarrow> time \<Rightarrow> bool \<Rightarrow> grant_row list \<Rightarrow> string list \<Rightarrow> resolved_scope \<Rightarrow> string list \<Rightarrow> bool" where
  "caller_counts realm now permanent_only rows excluded caller token =
     (let own = filter (\<lambda>r. gr_pref r = rs_pref caller \<and> gr_ptype r = principal_user \<and> gr_stype r = ''tenant'') rows;
          standing = filter (\<lambda>r. gr_id r \<notin> set excluded \<and> standing_row realm now permanent_only r) own
      in own \<noteq> [] \<and> length standing = length own \<and>
         list_ex (\<lambda>r. administers (grant_permissions r token (role_ceiling_for r))) standing)"

definition tenant_admins ::
  "string \<Rightarrow> time \<Rightarrow> bool \<Rightarrow> grant_row list \<Rightarrow> string list \<Rightarrow> grant_row option \<Rightarrow> resolved_scope \<Rightarrow> string list \<Rightarrow> string set"
  where
  "tenant_admins realm now permanent_only rows excluded replacement caller token =
     (let found = set (map gr_pref (filter (\<lambda>r. gr_id r \<notin> set excluded \<and> qualifies realm now permanent_only r) rows)
            @ (case replacement of None \<Rightarrow> [] | Some r \<Rightarrow> if qualifies realm now permanent_only r then [gr_pref r] else []))
      in if rs_pref caller \<notin> found \<and> caller_counts realm now permanent_only rows excluded caller token
         then insert (rs_pref caller) found else found)"

definition count_tenant_admins ::
  "string \<Rightarrow> time \<Rightarrow> bool \<Rightarrow> grant_row list \<Rightarrow> string list \<Rightarrow> grant_row option \<Rightarrow> resolved_scope \<Rightarrow> string list \<Rightarrow> nat"
  where
  "count_tenant_admins realm now permanent_only rows excluded replacement caller token =
     card (tenant_admins realm now permanent_only rows excluded replacement caller token)"

definition removes_last :: "nat \<Rightarrow> nat \<Rightarrow> nat \<Rightarrow> nat \<Rightarrow> bool" where
  "removes_last before after permanent_before permanent_after \<longleftrightarrow>
     (1 \<le> before \<and> after = 0) \<or> (1 \<le> permanent_before \<and> permanent_after = 0)"

subsection \<open>The tenant's rows\<close>

record authz =
  az_rows :: "grant_row list"
  az_units :: "org_unit list"
  az_sites :: "cc_site list"
  az_enforcement :: string
  az_realm :: string
  az_pairs :: "(string \<times> string) list"

text \<open>\<open>list_all\<close> leaves out revoked rows.\<close>

definition live_rows :: "authz \<Rightarrow> grant_row list" where
  "live_rows st = filter (\<lambda>r. gr_revoked r = None) (az_rows st)"

definition find_grant :: "authz \<Rightarrow> string \<Rightarrow> string \<Rightarrow> string \<Rightarrow> string \<Rightarrow> grant_row option" where
  "find_grant st ptype pref stype sref =
     find (\<lambda>r. gr_ptype r = ptype \<and> gr_pref r = pref \<and> gr_stype r = stype \<and> gr_sref r = sref) (az_rows st)"

text \<open>\<open>ScopeGrantRepo.grant\<close> revives the row of the same identity, or adds one under a generated id.\<close>

definition put_grant :: "grant_row \<Rightarrow> authz \<Rightarrow> authz" where
  "put_grant new st =
     (case find_grant st (gr_ptype new) (gr_pref new) (gr_stype new) (gr_sref new) of
        Some old \<Rightarrow> st\<lparr>az_rows := map (\<lambda>r. if gr_id r = gr_id old
           then r\<lparr>gr_revoked := None, gr_subset := gr_subset new, gr_role := gr_role new, gr_realm := gr_realm new,
                  gr_expires := gr_expires new\<rparr> else r) (az_rows st)\<rparr>
      | None \<Rightarrow> st\<lparr>az_rows := az_rows st @ [new]\<rparr>)"

definition put_revoked :: "string \<Rightarrow> time \<Rightarrow> authz \<Rightarrow> authz" where
  "put_revoked i now st = st\<lparr>az_rows := map (\<lambda>r. if gr_id r = i then r\<lparr>gr_revoked := Some now\<rparr> else r) (az_rows st)\<rparr>"

text \<open>Email addresses that the platform recorded together with a subject; the first pair of an address counts.\<close>

definition subject_aliases :: "authz \<Rightarrow> string \<Rightarrow> string list" where
  "subject_aliases st pref =
     (let s = strip_text pref;
          pairs = map (\<lambda>(e, r). (lower (strip_text e), strip_text r)) (az_pairs st);
          proper = filter (\<lambda>(e, r). e \<noteq> [] \<and> r \<noteq> [] \<and> CHR ''@'' \<in> set e \<and> CHR ''@'' \<notin> set r) pairs
      in if s = [] then [] else filter (\<lambda>e. dget proper e = Some s) (map fst proper))"

definition grant_evidence :: "authz \<Rightarrow> string \<Rightarrow> string list \<Rightarrow> grant_row list" where
  "grant_evidence st ptype refs =
     (let exact = filter (\<lambda>r. r \<noteq> [] \<and> CHR ''@'' \<notin> set r) refs;
          emails = map (lower \<circ> strip_text) (filter (\<lambda>r. r \<noteq> [] \<and> CHR ''@'' \<in> set r) refs)
      in filter (\<lambda>r. gr_ptype r = ptype \<and> (gr_pref r \<in> set exact \<or> lower (gr_pref r) \<in> set emails)) (az_rows st))"

text \<open>The scope of a person, from their identity, their address and the permissions of their role.\<close>

definition load_scope_as :: "authz \<Rightarrow> string \<Rightarrow> string \<Rightarrow> string list \<Rightarrow> time \<Rightarrow> resolved_scope" where
  "load_scope_as st pref email perms now =
     (let rows = filter (\<lambda>r. gr_ptype r = principal_user \<and> gr_pref r = pref \<and> row_in_realm (az_realm st) r) (live_rows st);
          refs = pref # (if email = [] then [] else [email]) @ subject_aliases st pref
      in resolve_scope [] principal_user pref perms rows (az_units st) (az_sites st)
           (az_enforcement st) now role_ceiling_for (grant_evidence st principal_user refs))"

definition load_scope :: "authz \<Rightarrow> user_ctx \<Rightarrow> time \<Rightarrow> resolved_scope" where
  "load_scope st u now = load_scope_as st (uc_id u) (uc_email u) (token_permissions u) now"

subsection \<open>The handlers\<close>

definition guard_last_admin ::
  "authz \<Rightarrow> user_ctx \<Rightarrow> time \<Rightarrow> string list \<Rightarrow> grant_row option \<Rightarrow> api_error + unit" where
  "guard_last_admin st u now excluded replacement =
     (let count = (\<lambda>permanent ex rep. count_tenant_admins (az_realm st) now permanent (live_rows st) ex rep
            (load_scope st u now) (token_permissions u))
      in require (\<not> removes_last (count False [] None) (count False excluded replacement)
             (count True [] None) (count True excluded replacement)) (Http 409 ''last_admin''))"

definition resolve_scope_ref :: "authz \<Rightarrow> string \<Rightarrow> string \<Rightarrow> api_error + string" where
  "resolve_scope_ref st stype ref =
     (if stype = ''tenant'' then Inr []
      else if ref = [] then Inl (Http 400 ''scope_ref'')
      else if stype = ''org_unit''
      then (case get_unit (az_units st) ref of None \<Rightarrow> Inl (Http 404 ''org unit'') | Some u \<Rightarrow> Inr (ou_path u))
      else if stype = ''site''
      then (if \<exists>c \<in> set (az_sites st). cs_id c = ref then Inr [] else Inl (Http 404 ''site''))
      else if stype = ''device_class''
      then (if lower ref \<in> {''server'', ''switch''} then Inr [] else Inl (Http 400 ''device_class''))
      else if stype = ''device'' then Inr [] else Inl (Http 400 ''scope_type''))"

text \<open>Every rule a grant write passes, in their order; \<open>new\<close> has the shape of the row to be written.\<close>

definition admit_grant :: "authz \<Rightarrow> user_ctx \<Rightarrow> time \<Rightarrow> grant_row \<Rightarrow> string \<Rightarrow> string list \<Rightarrow> api_error + unit" where
  "admit_grant st u now new unit_path excluded =
     (let s = load_scope st u now; target = target_query (gr_stype new) (gr_sref new) unit_path
      in andthen (refuse_self_grant u (gr_ptype new) (gr_pref new)) (\<lambda>_.
         andthen (if gr_ptype new = ''agent''
                  then andthen (require (gr_role new = []) (Http 400 ''agent_role'')) (\<lambda>_. Inr {})
                  else andthen (delegated_permissions (gr_role new) (gr_subset new)) (\<lambda>ps.
                    andthen (require (case gr_subset new of None \<Rightarrow> True | Some xs \<Rightarrow> set (filter (\<lambda>p. p \<noteq> []) xs) \<subseteq> ps)
                      (Http 400 ''subset_widens'')) (\<lambda>_. Inr ps))) (\<lambda>ps.
         andthen (check_delegation s ps target) (\<lambda>_.
         guard_last_admin st u now excluded (Some new)))))"

definition principal_types :: "string list" where "principal_types = [''user'', ''agent'']"

text \<open>The request is given as the row it asks for, under the generated id.\<close>

definition create_grant :: "authz \<Rightarrow> user_ctx \<Rightarrow> time \<Rightarrow> grant_row \<Rightarrow> api_error + authz" where
  "create_grant st u now req =
     (let new = req\<lparr>gr_revoked := None, gr_realm := az_realm st\<rparr>
      in andthen (require (admin_permission \<in> set (uc_perms u) \<or> ''*'' \<in> set (uc_perms u)) (Http 403 ''permission'')) (\<lambda>_.
         andthen (require (gr_pref new \<noteq> []) (Http 422 ''principal_ref'')) (\<lambda>_.
         andthen (require (scope_kind_of (gr_stype new) \<noteq> None) (Http 400 ''scope_type'')) (\<lambda>_.
         andthen (require (gr_ptype new \<in> set principal_types) (Http 400 ''principal_type'')) (\<lambda>_.
         andthen (resolve_scope_ref st (gr_stype new) (gr_sref new)) (\<lambda>unit_path.
         let existing = find_grant st (gr_ptype new) (gr_pref new) (gr_stype new) (gr_sref new)
         in andthen (admit_grant st u now new unit_path (case existing of None \<Rightarrow> [] | Some r \<Rightarrow> [gr_id r])) (\<lambda>_.
            Inr (put_grant new st))))))))"

definition coverable_grant :: "authz \<Rightarrow> user_ctx \<Rightarrow> time \<Rightarrow> string \<Rightarrow> api_error + grant_row" where
  "coverable_grant st u now i =
     (case find (\<lambda>r. gr_id r = i) (az_rows st) of None \<Rightarrow> Inl (Http 404 ''grant'')
      | Some r \<Rightarrow> andthen (forbid_out_of_scope (load_scope st u now) admin_permission
            (if gr_stype r = ''site'' then site_query (gr_sref r)
             else if gr_stype r = ''org_unit''
             then unit_query (case get_unit (az_units st) (gr_sref r) of None \<Rightarrow> [] | Some x \<Rightarrow> ou_path x)
             else tenant_query)) (\<lambda>_. Inr r))"

definition reassign_grant :: "authz \<Rightarrow> user_ctx \<Rightarrow> time \<Rightarrow> string \<Rightarrow> string \<Rightarrow> string \<Rightarrow> string \<Rightarrow> api_error + authz" where
  "reassign_grant st u now i new_id stype sref =
     andthen (require (admin_permission \<in> set (uc_perms u) \<or> ''*'' \<in> set (uc_perms u)) (Http 403 ''permission'')) (\<lambda>_.
     andthen (coverable_grant st u now i) (\<lambda>r.
     andthen (require (gr_revoked r = None) (Http 409 ''revoked'')) (\<lambda>_.
     andthen (require (gr_ptype r \<noteq> ''agent'') (Http 400 ''agent'')) (\<lambda>_.
     andthen (require (scope_kind_of stype \<noteq> None) (Http 400 ''scope_type'')) (\<lambda>_.
     andthen (require ((stype, sref) \<noteq> (gr_stype r, gr_sref r)) (Http 400 ''same_target'')) (\<lambda>_.
     andthen (resolve_scope_ref st stype sref) (\<lambda>unit_path.
     let new = r\<lparr>gr_id := new_id, gr_stype := stype, gr_sref := sref, gr_realm := az_realm st\<rparr>;
         replaced = find_grant st (gr_ptype r) (gr_pref r) stype sref;
         excluded = filter (\<lambda>x. x \<noteq> []) (gr_id r # (case replaced of None \<Rightarrow> [] | Some x \<Rightarrow> [gr_id x]))
     in andthen (admit_grant st u now new unit_path excluded) (\<lambda>_.
        Inr (put_grant new (put_revoked i now st))))))))))"

definition revoke_grant :: "authz \<Rightarrow> user_ctx \<Rightarrow> time \<Rightarrow> string \<Rightarrow> api_error + authz" where
  "revoke_grant st u now i =
     andthen (require (admin_permission \<in> set (uc_perms u) \<or> ''*'' \<in> set (uc_perms u)) (Http 403 ''permission'')) (\<lambda>_.
     andthen (coverable_grant st u now i) (\<lambda>r.
     andthen (if gr_revoked r = None then guard_last_admin st u now [gr_id r] None else Inr ()) (\<lambda>_.
     Inr (put_revoked i now st))))"

text \<open>\<open>count_tenant_admins\<close> decides the switch to strict enforcement (\<open>preflight_strict\<close>).\<close>

definition set_enforcement :: "authz \<Rightarrow> user_ctx \<Rightarrow> time \<Rightarrow> string \<Rightarrow> api_error + authz" where
  "set_enforcement st u now mode =
     andthen (require (admin_permission \<in> set (uc_perms u) \<or> ''*'' \<in> set (uc_perms u)) (Http 403 ''permission'')) (\<lambda>_.
     andthen (require (mode \<in> {legacy_open, enforcement_strict}) (Http 400 ''mode'')) (\<lambda>_.
     andthen (forbid_out_of_scope (load_scope st u now) admin_permission tenant_query) (\<lambda>_.
     andthen (require (mode \<noteq> enforcement_strict \<or> 0 < count_tenant_admins (az_realm st) now False (live_rows st) [] None
         (load_scope st u now) (token_permissions u)) (Http 409 ''last_admin'')) (\<lambda>_.
     Inr (st\<lparr>az_enforcement := mode\<rparr>)))))"

text \<open>Provisioning writes the first grant of a tenant that never had one.\<close>

definition seed_first_grant :: "authz \<Rightarrow> string \<Rightarrow> string \<Rightarrow> string \<Rightarrow> authz option" where
  "seed_first_grant st i pref role =
     (if az_rows st \<noteq> [] then None
      else Some (st\<lparr>az_rows := [\<lparr>gr_id = i, gr_ptype = ''user'', gr_pref = pref, gr_realm = az_realm st,
         gr_stype = ''tenant'', gr_sref = [], gr_subset = None, gr_role = role, gr_revoked = None, gr_expires = None\<rparr>]\<rparr>))"

subsection \<open>What rows carry\<close>

lemma tenant_role_perms:
  "r \<in> set tenant_roles \<Longrightarrow> \<exists>c. dget role_permissions_table r = Some c \<and> ''*'' \<notin> set c \<and> [] \<notin> set c \<and> scope_only_marker \<notin> set c"
proof -
  have "\<forall>r \<in> set tenant_roles. (case dget role_permissions_table r of None \<Rightarrow> False
      | Some c \<Rightarrow> ''*'' \<notin> set c \<and> [] \<notin> set c \<and> scope_only_marker \<notin> set c)" by code_simp
  then show "r \<in> set tenant_roles \<Longrightarrow> ?thesis" by (auto split: option.splits)
qed

text \<open>A row made through the handlers names a tenant role and narrows it.\<close>

definition row_proper :: "grant_row \<Rightarrow> bool" where
  "row_proper r \<longleftrightarrow> strip_text (gr_role r) \<in> set tenant_roles \<and>
     (case gr_subset r of None \<Rightarrow> True | Some xs \<Rightarrow> set (filter (\<lambda>p. p \<noteq> []) xs) \<subseteq> set (role_permissions_for r))"

lemma row_properE:
  assumes "row_proper r"
  obtains c where "role_ceiling_for r = Some c" "role_permissions_for r = c" "''*'' \<notin> set c" "[] \<notin> set c" "scope_only_marker \<notin> set c"
    "case gr_subset r of None \<Rightarrow> True | Some xs \<Rightarrow> set (filter (\<lambda>p. p \<noteq> []) xs) \<subseteq> set c"
proof -
  obtain c where c: "dget role_permissions_table (strip_text (gr_role r)) = Some c" "''*'' \<notin> set c" "[] \<notin> set c"
    "scope_only_marker \<notin> set c"
    using assms tenant_role_perms by (auto simp: row_proper_def)
  have p: "role_permissions_for r = c" by (simp add: role_permissions_for_def dget_or_def c(1))
  have "case gr_subset r of None \<Rightarrow> True | Some xs \<Rightarrow> set (filter (\<lambda>p. p \<noteq> []) xs) \<subseteq> set c"
    using assms unfolding row_proper_def p by simp
  then show thesis using that [of c] c p by (simp add: role_ceiling_for_def)
qed

text \<open>The delegated set of a proper row bounds what any token makes of it.\<close>

lemma proper_row_bound:
  assumes r: "row_proper r" and m: "scope_only_marker \<notin> set token"
  shows "grant_permissions r token (role_ceiling_for r) \<subseteq> effective_permissions (role_permissions_for r) (gr_subset r)"
    and "''*'' \<notin> effective_permissions (role_permissions_for r) (gr_subset r)"
proof -
  from r obtain c where c: "role_ceiling_for r = Some c" "role_permissions_for r = c" "''*'' \<notin> set c" "[] \<notin> set c" "scope_only_marker \<notin> set c"
    "case gr_subset r of None \<Rightarrow> True | Some xs \<Rightarrow> set (filter (\<lambda>p. p \<noteq> []) xs) \<subseteq> set c" by (rule row_properE)
  have f: "set (filter (\<lambda>p. p \<noteq> []) c) = set c" using c(4) by auto
  show "grant_permissions r token (role_ceiling_for r) \<subseteq> effective_permissions (role_permissions_for r) (gr_subset r)"
    "''*'' \<notin> effective_permissions (role_permissions_for r) (gr_subset r)"
    using c(3,5,6) m unfolding c(1,2) grant_permissions_def effective_permissions_def Let_def option.case f
    by (cases "gr_subset r"; auto split: if_splits)+
qed

lemma proper_row_self:
  assumes r: "row_proper r"
  shows "grant_permissions r (role_permissions_for r) (role_ceiling_for r) = effective_permissions (role_permissions_for r) (gr_subset r)"
proof -
  from r obtain c where c: "role_ceiling_for r = Some c" "role_permissions_for r = c" "''*'' \<notin> set c" "[] \<notin> set c" "scope_only_marker \<notin> set c"
    "case gr_subset r of None \<Rightarrow> True | Some xs \<Rightarrow> set (filter (\<lambda>p. p \<noteq> []) xs) \<subseteq> set c" by (rule row_properE)
  have f: "set (filter (\<lambda>p. p \<noteq> []) c) = set c" using c(4) by auto
  show ?thesis
    using c(3,5,6) unfolding c(1,2) grant_permissions_def effective_permissions_def Let_def option.case f
    by (cases "gr_subset r") (auto split: if_splits)
qed

subsection \<open>The rows stay proper\<close>

definition identity :: "grant_row \<Rightarrow> string \<times> string \<times> string \<times> string" where
  "identity r = (gr_ptype r, gr_pref r, gr_stype r, gr_sref r)"

definition authz_ok :: "authz \<Rightarrow> bool" where
  "authz_ok st \<longleftrightarrow> distinct (map gr_id (az_rows st)) \<and> (\<forall>r \<in> set (az_rows st). gr_id r \<noteq> []) \<and>
     distinct (map identity (az_rows st)) \<and>
     (\<forall>r \<in> set (az_rows st). gr_revoked r = None \<and> gr_ptype r = principal_user \<longrightarrow> row_proper r)"

lemma find_grant_identity:
  "find_grant st (gr_ptype n) (gr_pref n) (gr_stype n) (gr_sref n) = find (\<lambda>r. identity r = identity n) (az_rows st)"
  by (simp add: find_grant_def identity_def)

definition refreshed :: "grant_row \<Rightarrow> grant_row \<Rightarrow> grant_row" where
  "refreshed new r = r\<lparr>gr_revoked := None, gr_subset := gr_subset new, gr_role := gr_role new, gr_realm := gr_realm new,
     gr_expires := gr_expires new\<rparr>"

lemma put_grant_rows:
  assumes "authz_ok st"
  shows "az_rows (put_grant new st) = (if \<exists>r \<in> set (az_rows st). identity r = identity new
     then map (\<lambda>r. if identity r = identity new then refreshed new r else r) (az_rows st) else az_rows st @ [new])"
proof (cases "find (\<lambda>r. identity r = identity new) (az_rows st)")
  case None
  have "\<not> (\<exists>r \<in> set (az_rows st). identity r = identity new)" using None by (auto simp: find_None_iff)
  then show ?thesis unfolding put_grant_def find_grant_identity None by simp
next
  case (Some old)
  then have old: "old \<in> set (az_rows st)" "identity old = identity new" using find_SomeD by fast+
  have "gr_id r = gr_id old \<longleftrightarrow> identity r = identity new" if "r \<in> set (az_rows st)" for r
    using assms that old by (auto simp: authz_ok_def distinct_map inj_on_def)
  then have "az_rows (put_grant new st) = map (\<lambda>r. if identity r = identity new then refreshed new r else r) (az_rows st)"
    using Some by (auto simp: put_grant_def find_grant_identity refreshed_def)
  then show ?thesis using old by auto
qed

lemma put_simps [simp]:
  "az_units (put_grant new st) = az_units st" "az_sites (put_grant new st) = az_sites st" "az_realm (put_grant new st) = az_realm st"
  "az_enforcement (put_grant new st) = az_enforcement st" "az_pairs (put_grant new st) = az_pairs st"
  "az_units (put_revoked i now st) = az_units st" "az_sites (put_revoked i now st) = az_sites st" "az_realm (put_revoked i now st) = az_realm st"
  "az_enforcement (put_revoked i now st) = az_enforcement st" "az_pairs (put_revoked i now st) = az_pairs st"
  "az_rows (put_revoked i now st) = map (\<lambda>r. if gr_id r = i then r\<lparr>gr_revoked := Some now\<rparr> else r) (az_rows st)"
  by (auto simp: put_grant_def put_revoked_def split: option.splits)

lemma identity_simps [simp]:
  "identity (refreshed new r) = identity r" "gr_id (refreshed new r) = gr_id r" "identity (r\<lparr>gr_revoked := x\<rparr>) = identity r"
  "gr_revoked (refreshed new r) = None" "gr_expires (refreshed new r) = gr_expires new" "gr_realm (refreshed new r) = gr_realm new"
  "gr_role (refreshed new r) = gr_role new" "gr_subset (refreshed new r) = gr_subset new"
  "gr_ptype (refreshed new r) = gr_ptype r" "gr_pref (refreshed new r) = gr_pref r" "gr_stype (refreshed new r) = gr_stype r"
  "gr_sref (refreshed new r) = gr_sref r"
  by (simp_all add: identity_def refreshed_def)

lemma row_proper_fields: "gr_role a = gr_role b \<Longrightarrow> gr_subset a = gr_subset b \<Longrightarrow> row_proper a \<longleftrightarrow> row_proper b"
proof -
  assume a: "gr_role a = gr_role b" "gr_subset a = gr_subset b"
  then have p: "role_permissions_for a = role_permissions_for b" by (simp add: role_permissions_for_def)
  show ?thesis unfolding row_proper_def p a by (rule refl)
qed

lemma put_grant_ok:
  assumes a: "authz_ok st" and i: "gr_id new \<notin> gr_id ` set (az_rows st)" "gr_id new \<noteq> []"
    and p: "gr_ptype new = principal_user \<longrightarrow> row_proper new"
  shows "authz_ok (put_grant new st)"
proof -
  let ?f = "\<lambda>r. if identity r = identity new then refreshed new r else r"
  have e: "map identity (map ?f xs) = map identity xs" "map gr_id (map ?f xs) = map gr_id xs" for xs by auto
  have rp: "row_proper (?f r)" if "r \<in> set (az_rows st)" "gr_revoked (?f r) = None" "gr_ptype (?f r) = principal_user" for r
  proof (cases "identity r = identity new")
    case True
    then have "gr_ptype r = gr_ptype new" by (simp add: identity_def)
    then show ?thesis using that(3) True p row_proper_fields [of "refreshed new r" new] by simp
  next
    case False
    then show ?thesis using that a by (simp add: authz_ok_def)
  qed
  show ?thesis
  proof (cases "\<exists>r \<in> set (az_rows st). identity r = identity new")
    case True
    then have rows: "az_rows (put_grant new st) = map ?f (az_rows st)" by (simp add: put_grant_rows [OF a])
    have "\<forall>r \<in> set (map ?f (az_rows st)). gr_revoked r = None \<and> gr_ptype r = principal_user \<longrightarrow> row_proper r"
    proof (intro ballI impI)
      fix x assume "x \<in> set (map ?f (az_rows st))" and x: "gr_revoked x = None \<and> gr_ptype x = principal_user"
      then obtain r where "r \<in> set (az_rows st)" "x = ?f r" unfolding set_map by blast
      then show "row_proper x" using rp [of r] x by blast
    qed
    moreover have "\<forall>r \<in> set (map ?f (az_rows st)). gr_id r \<noteq> []" using a by (auto simp: authz_ok_def)
    ultimately show ?thesis unfolding authz_ok_def rows e using a by (simp add: authz_ok_def)
  next
    case False
    then have rows: "az_rows (put_grant new st) = az_rows st @ [new]" by (simp add: put_grant_rows [OF a])
    show ?thesis unfolding authz_ok_def rows using a i p False by (auto simp: authz_ok_def)
  qed
qed

lemma put_revoked_ok: "authz_ok st \<Longrightarrow> authz_ok (put_revoked i now st)"
proof -
  assume a: "authz_ok st"
  have e: "map identity (map (\<lambda>r. if gr_id r = i then r\<lparr>gr_revoked := Some now\<rparr> else r) xs) = map identity xs"
    "map gr_id (map (\<lambda>r. if gr_id r = i then r\<lparr>gr_revoked := Some now\<rparr> else r) xs) = map gr_id xs" for xs by auto
  show ?thesis unfolding authz_ok_def put_simps e using a by (auto simp: authz_ok_def)
qed

subsection \<open>Administrators\<close>

lemma qualifies_permanent: "qualifies realm now True r \<Longrightarrow> qualifies realm now' True r"
  by (auto simp: qualifies_def standing_row_def grant_active_def)

lemma load_simps [simp]:
  "rs_scope_only (load_scope st u now) = (scope_only_marker \<in> set (token_permissions u))"
  "rs_pref (load_scope st u now) = uc_id u"
  "rs_site_paths (load_scope st u now) = site_unit_paths (unit_by_id (az_units st)) (az_sites st)"
  by (simp_all add: load_scope_def load_scope_as_def Let_def resolve_scope_def project_scope_def)

definition own_rows :: "authz \<Rightarrow> user_ctx \<Rightarrow> grant_row list" where
  "own_rows st u = filter (\<lambda>r. gr_ptype r = principal_user \<and> gr_pref r = uc_id u \<and> row_in_realm (az_realm st) r) (live_rows st)"

lemma loaded_grants:
  "rs_grants (load_scope st u now) =
     (let gs = row_grants (az_units st) (az_sites st) (token_permissions u) now role_ceiling_for (own_rows st u)
      in if gs = [] \<and> az_enforcement st = legacy_open \<and> own_rows st u = [] \<and>
           grant_evidence st principal_user
             (uc_id u # (if uc_email u = [] then [] else [uc_email u]) @ subject_aliases st (uc_id u)) = []
         then [synthesized_grant (token_permissions u)] else gs)"
  by (simp add: load_scope_def load_scope_as_def Let_def resolved_grants own_rows_def)

lemma live_proper: "authz_ok st \<Longrightarrow> r \<in> set (live_rows st) \<Longrightarrow> gr_ptype r = principal_user \<Longrightarrow> row_proper r"
  by (auto simp: authz_ok_def live_rows_def)

lemma found_qualifies:
  assumes "authz_ok st" "scope_only_marker \<notin> set (token_permissions u)"
    and "tenant_admins (az_realm st) now permanent (live_rows st) excluded rep (load_scope st u now) (token_permissions u) \<noteq> {}"
  shows "(\<exists>r \<in> set (live_rows st). gr_id r \<notin> set excluded \<and> qualifies (az_realm st) now permanent r) \<or>
    (\<exists>r. rep = Some r \<and> qualifies (az_realm st) now permanent r)"
proof (cases "caller_counts (az_realm st) now permanent (live_rows st) excluded (load_scope st u now) (token_permissions u)")
  case True
  then obtain r where r: "r \<in> set (live_rows st)" "gr_ptype r = principal_user" "gr_stype r = ''tenant''"
    "gr_id r \<notin> set excluded" "standing_row (az_realm st) now permanent r"
    "administers (grant_permissions r (token_permissions u) (role_ceiling_for r))"
    by (auto simp: caller_counts_def Let_def list_ex_iff)
  from live_proper [OF assms(1) r(1,2)] have p: "row_proper r" .
  have "administers (effective_permissions (role_permissions_for r) (gr_subset r))"
    using r(6) proper_row_bound [OF p assms(2)] by (auto simp: administers_def)
  then have "qualifies (az_realm st) now permanent r" using r by (simp add: qualifies_def)
  then show ?thesis using r by blast
next
  case False
  then show ?thesis using assms(3) by (cases rep) (auto simp: tenant_admins_def Let_def split: if_splits)
qed

lemma counted_finite [simp]: "finite (tenant_admins realm now permanent rows excluded rep caller token)"
  by (cases rep) (simp_all add: tenant_admins_def Let_def)

definition has_admin :: "authz \<Rightarrow> bool" where
  "has_admin st \<longleftrightarrow> (\<exists>r \<in> set (live_rows st). qualifies (az_realm st) 0 True r)"

lemma has_adminI: "r \<in> set (live_rows st) \<Longrightarrow> qualifies (az_realm st) now True r \<Longrightarrow> has_admin st"
  unfolding has_admin_def using qualifies_permanent by blast

lemma guard_ok:
  assumes g: "guard_last_admin st u now excluded rep = Inr ()" and "authz_ok st" "has_admin st"
    and "scope_only_marker \<notin> set (token_permissions u)"
  shows "(\<exists>r \<in> set (live_rows st). gr_id r \<notin> set excluded \<and> qualifies (az_realm st) now True r) \<or>
    (\<exists>r. rep = Some r \<and> qualifies (az_realm st) now True r)"
proof (rule found_qualifies [OF assms(2,4)])
  let ?A = "\<lambda>ex rep. tenant_admins (az_realm st) now True (live_rows st) ex rep (load_scope st u now) (token_permissions u)"
  obtain r where "r \<in> set (live_rows st)" "qualifies (az_realm st) now True r"
    using assms(3) qualifies_permanent unfolding has_admin_def by blast
  then have "gr_pref r \<in> ?A [] None" by (auto simp: tenant_admins_def Let_def)
  then have "1 \<le> card (?A [] None)" by (metis One_nat_def Suc_leI card_gt_0_iff counted_finite empty_iff)
  then have "card (?A excluded rep) \<noteq> 0"
    using g by (auto simp: guard_last_admin_def Let_def require_def removes_last_def count_tenant_admins_def split: if_splits)
  then show "?A excluded rep \<noteq> {}" by auto
qed

lemma permitsI:
  "\<not> rs_scope_only s \<Longrightarrow> g \<in> set (rs_grants s) \<Longrightarrow> \<not> g_inert g \<Longrightarrow> carries p g \<Longrightarrow> (\<And>path. grant_reaches g q path) \<Longrightarrow>
     permits s p q = Inr True"
  unfolding permits_def by auto

lemma admin_loads:
  assumes a: "authz_ok st" and r: "r \<in> set (live_rows st)" "qualifies (az_realm st) now False r"
    and u: "uc_id u = gr_pref r" "uc_role u = strip_text (gr_role r)"
  shows "permits (load_scope st u now) admin_permission tenant_query = Inr True"
proof -
  have user: "gr_ptype r = principal_user" and stype: "gr_stype r = ''tenant''"
    and standing: "standing_row (az_realm st) now False r"
    and adm: "administers (effective_permissions (role_permissions_for r) (gr_subset r))"
    using r(2) by (auto simp: qualifies_def)
  have p: "row_proper r" using live_proper [OF a r(1) user] .
  from p obtain c where c: "role_ceiling_for r = Some c" "role_permissions_for r = c" "''*'' \<notin> set c" "[] \<notin> set c" "scope_only_marker \<notin> set c"
    "case gr_subset r of None \<Rightarrow> True | Some xs \<Rightarrow> set (filter (\<lambda>p. p \<noteq> []) xs) \<subseteq> set c" by (rule row_properE)
  have ne: "c \<noteq> []" using adm c(2) by (auto simp: administers_def effective_permissions_def Let_def split: option.splits if_splits)
  have tok: "token_permissions u = c"
    using c(1,2) u(2) ne by (simp add: token_permissions_def role_permissions_for_def role_ceiling_for_def dget_or_def)
  have perms: "grant_permissions r (token_permissions u) (role_ceiling_for r) = effective_permissions (role_permissions_for r) (gr_subset r)"
    using proper_row_self [OF p] tok c(2) by simp
  have adm': "admin_permission \<in> effective_permissions (role_permissions_for r) (gr_subset r)"
    using adm proper_row_bound(2) [OF p, of c] c(5) by (simp add: administers_def)
  let ?g = "kind_grant (unit_by_id (az_units st)) (set (map cs_id (az_sites st))) KTenant
      (grant_permissions r (token_permissions u) (role_ceiling_for r)) r"
  have k: "scope_kind_of (strip_text (gr_stype r)) = Some KTenant" unfolding stype by code_simp
  have own: "r \<in> set (own_rows st u)" using r(1) user u(1) standing by (simp add: own_rows_def standing_row_def)
  have "?g \<in> set (row_grants (az_units st) (az_sites st) (token_permissions u) now role_ceiling_for (own_rows st u))"
    unfolding in_row_grants grant_of_row_Some using own k perms adm' standing by (auto simp: standing_row_def)
  then have "?g \<in> set (rs_grants (load_scope st u now))" by (auto simp: loaded_grants Let_def)
  moreover have "carries admin_permission ?g" "grant_reaches ?g tenant_query p" "\<not> g_inert ?g" for p
    using perms adm' by (simp_all add: carries_def grant_reaches_def tenant_query_def g_covers_tenant_def)
  ultimately show ?thesis using tok c(5) by (intro permitsI [of _ ?g]) simp_all
qed

subsection \<open>What the handlers keep\<close>

lemma no_marker: "forbid_out_of_scope (load_scope st u now) p q = Inr x \<Longrightarrow> scope_only_marker \<notin> set (token_permissions u)"
  by (auto simp: forbid_eq_Inr permits_def split: if_splits)

lemma admit_grantD:
  assumes "admit_grant st u now new path excluded = Inr x"
  shows "guard_last_admin st u now excluded (Some new) = Inr ()" "scope_only_marker \<notin> set (token_permissions u)"
    and "gr_ptype new \<noteq> ''agent'' \<Longrightarrow> row_proper new"
proof -
  show g: "guard_last_admin st u now excluded (Some new) = Inr ()" "scope_only_marker \<notin> set (token_permissions u)"
    using assms by (auto simp: admit_grant_def Let_def andthen_eq_Inr check_delegation_def dest: no_marker)
  assume "gr_ptype new \<noteq> ''agent''"
  then obtain ps where ps: "delegated_permissions (gr_role new) (gr_subset new) = Inr ps"
    "case gr_subset new of None \<Rightarrow> True | Some xs \<Rightarrow> set (filter (\<lambda>p. p \<noteq> []) xs) \<subseteq> ps"
    using assms by (auto simp: admit_grant_def Let_def andthen_eq_Inr)
  then have r: "strip_text (gr_role new) \<in> set tenant_roles"
    and e: "ps = effective_permissions (role_permissions_for new) (gr_subset new)"
    by (auto simp: delegated_permissions_def Let_def role_permissions_for_def split: if_splits)
  obtain c where c: "role_permissions_for new = c" "''*'' \<notin> set c" "scope_only_marker \<notin> set c"
    using tenant_role_perms [OF r] by (auto simp: role_permissions_for_def dget_or_def)
  show "row_proper new"
    unfolding row_proper_def c(1) using r ps(2) c(2,3) unfolding e c(1)
    by (cases "gr_subset new") (auto simp: effective_permissions_def Let_def split: if_splits)
qed

lemma resolve_scope_ref_type: "resolve_scope_ref st stype ref = Inr x \<Longrightarrow> scope_kind_of stype \<noteq> None"
  by (auto simp: resolve_scope_ref_def scope_kind_of_def split: if_splits)

lemma put_grant_keeps:
  assumes a: "authz_ok st" and r: "r \<in> set (az_rows st)" "identity r \<noteq> identity new"
  shows "r \<in> set (az_rows (put_grant new st))"
  using r unfolding put_grant_rows [OF a] by (auto simp: image_iff intro!: bexI [of _ r])

lemma put_grant_puts:
  assumes a: "authz_ok st"
  obtains r where "r \<in> set (az_rows (put_grant new st))" "identity r = identity new" "gr_revoked r = gr_revoked new \<or> gr_revoked r = None"
    "gr_expires r = gr_expires new" "gr_realm r = gr_realm new" "gr_role r = gr_role new" "gr_subset r = gr_subset new"
proof (cases "\<exists>r \<in> set (az_rows st). identity r = identity new")
  case True
  then obtain r where "r \<in> set (az_rows st)" "identity r = identity new" by blast
  then have "refreshed new r \<in> set (az_rows (put_grant new st))"
    unfolding put_grant_rows [OF a] if_P [OF True] by (auto simp: image_iff intro!: bexI [of _ r])
  then show thesis using that [of "refreshed new r"] \<open>identity r = identity new\<close> by simp
next
  case False
  then show thesis using that [of new] unfolding put_grant_rows [OF a] by auto
qed

lemma qualifies_fields:
  assumes "identity r = identity n" "gr_revoked r = None" "gr_revoked n = None" "gr_expires r = gr_expires n"
    "gr_realm r = gr_realm n" "gr_role r = gr_role n" "gr_subset r = gr_subset n"
  shows "qualifies realm now permanent r = qualifies realm now permanent n"
proof -
  have "role_permissions_for r = role_permissions_for n" using assms by (simp add: role_permissions_for_def)
  then show ?thesis
    using assms by (simp add: qualifies_def standing_row_def grant_active_def row_in_realm_def identity_def)
qed

text \<open>A guarded write of \<open>new\<close> over the rows of \<open>st'\<close>, which differ from those of \<open>st\<close> in excluded rows at most.\<close>

lemma guarded_put:
  assumes a: "authz_ok st" "authz_ok st'" "has_admin st" and realm: "az_realm st' = az_realm st"
    and g: "guard_last_admin st u now excluded (Some new) = Inr ()" "scope_only_marker \<notin> set (token_permissions u)"
    and n: "gr_revoked new = None"
    and keep: "\<And>r. r \<in> set (live_rows st) \<Longrightarrow> gr_id r \<notin> set excluded \<Longrightarrow> r \<in> set (az_rows st') \<and> identity r \<noteq> identity new"
  shows "has_admin (put_grant new st')"
  using guard_ok [OF g(1) a(1,3) g(2)]
proof (elim disjE exE bexE conjE)
  fix r assume r: "r \<in> set (live_rows st)" "gr_id r \<notin> set excluded" "qualifies (az_realm st) now True r"
  then have "r \<in> set (az_rows (put_grant new st'))" using keep put_grant_keeps [OF a(2)] by blast
  moreover have "gr_revoked r = None" using r(1) by (simp add: live_rows_def)
  ultimately have "r \<in> set (live_rows (put_grant new st'))" by (simp add: live_rows_def)
  then show ?thesis using r(3) realm by (intro has_adminI [of r _ now]) simp_all
next
  fix r assume q: "Some new = Some r" "qualifies (az_realm st) now True r"
  obtain r' where r': "r' \<in> set (az_rows (put_grant new st'))" "identity r' = identity new" "gr_revoked r' = None"
    "gr_expires r' = gr_expires new" "gr_realm r' = gr_realm new" "gr_role r' = gr_role new" "gr_subset r' = gr_subset new"
    using put_grant_puts [OF a(2), of new] n by metis
  then have "qualifies (az_realm st) now True r'" using q n qualifies_fields [of r' new] by simp
  then show ?thesis using r' realm by (intro has_adminI [of r' _ now]) (simp_all add: live_rows_def)
qed

lemma find_grant_Some: "find_grant st pt pr stt sr = Some r \<Longrightarrow> r \<in> set (az_rows st) \<and> identity r = (pt, pr, stt, sr)"
  unfolding find_grant_def by (drule find_SomeD) (simp add: identity_def)

lemma find_grant_excludes:
  assumes "r \<in> set (az_rows st)" "identity r = (pt, pr, stt, sr)" "authz_ok st"
  shows "\<exists>x. find_grant st pt pr stt sr = Some x \<and> gr_id x = gr_id r"
proof -
  obtain x where x: "find_grant st pt pr stt sr = Some x"
    using assms(1,2) by (cases "find_grant st pt pr stt sr") (auto simp: find_grant_def find_None_iff identity_def)
  then have "x = r" using find_grant_Some [OF x] assms by (auto simp: authz_ok_def distinct_map inj_on_def)
  then show ?thesis using x by simp
qed

lemma create_grant_keeps:
  assumes c: "create_grant st u now req = Inr st'" and a: "authz_ok st"
    and i: "gr_id req \<notin> gr_id ` set (az_rows st)" "gr_id req \<noteq> []"
  shows "authz_ok st'" "has_admin st \<Longrightarrow> has_admin st'" "az_realm st' = az_realm st"
proof -
  let ?new = "req\<lparr>gr_revoked := None, gr_realm := az_realm st\<rparr>"
  let ?old = "find_grant st (gr_ptype ?new) (gr_pref ?new) (gr_stype ?new) (gr_sref ?new)"
  let ?ex = "case ?old of None \<Rightarrow> [] | Some r \<Rightarrow> [gr_id r]"
  obtain path x where ad: "admit_grant st u now ?new path ?ex = Inr x" and st': "st' = put_grant ?new st"
    and pt: "gr_ptype ?new \<in> set principal_types"
    using c by (auto simp: create_grant_def Let_def andthen_eq_Inr)
  show "authz_ok st'"
    unfolding st' by (rule put_grant_ok [OF a]) (use i admit_grantD(3) [OF ad] in \<open>simp_all add: principal_user_def\<close>)
  show "az_realm st' = az_realm st" by (simp add: st')
  assume h: "has_admin st"
  show "has_admin st'"
    unfolding st'
  proof (rule guarded_put [OF a a h refl admit_grantD(1,2) [OF ad]])
    fix r assume r: "r \<in> set (live_rows st)" "gr_id r \<notin> set ?ex"
    then have "identity r \<noteq> identity ?new"
      using find_grant_excludes [OF _ _ a, of r "gr_ptype ?new" "gr_pref ?new" "gr_stype ?new" "gr_sref ?new"]
      by (auto simp: live_rows_def identity_def)
    then show "r \<in> set (az_rows st) \<and> identity r \<noteq> identity ?new" using r(1) by (simp add: live_rows_def)
  qed simp
qed

lemma coverable_grantD:
  assumes "coverable_grant st u now i = Inr r"
  shows "r \<in> set (az_rows st)" "gr_id r = i" "scope_only_marker \<notin> set (token_permissions u)"
proof -
  obtain r' where f: "find (\<lambda>r. gr_id r = i) (az_rows st) = Some r'" using assms by (cases "find (\<lambda>r. gr_id r = i) (az_rows st)") (auto simp: coverable_grant_def)
  then show "r \<in> set (az_rows st)" "gr_id r = i" "scope_only_marker \<notin> set (token_permissions u)"
    using assms find_SomeD [OF f] unfolding coverable_grant_def f option.case by (auto simp: andthen_eq_Inr dest: no_marker)
qed

lemma put_revoked_other: "r \<in> set (az_rows st) \<Longrightarrow> gr_id r \<noteq> i \<Longrightarrow> r \<in> set (az_rows (put_revoked i now st))"
  by (auto simp: image_iff intro!: bexI [of _ r])

lemma reassign_grant_keeps:
  assumes c: "reassign_grant st u now i new_id stype sref = Inr st'" and a: "authz_ok st"
    and i: "new_id \<notin> gr_id ` set (az_rows st)" "new_id \<noteq> []"
  shows "authz_ok st'" "has_admin st \<Longrightarrow> has_admin st'" "az_realm st' = az_realm st"
proof -
  obtain r path x where r: "coverable_grant st u now i = Inr r" and live: "gr_revoked r = None" and pt: "gr_ptype r \<noteq> ''agent''"
    and ad: "admit_grant st u now (r\<lparr>gr_id := new_id, gr_stype := stype, gr_sref := sref, gr_realm := az_realm st\<rparr>) path
       (filter (\<lambda>x. x \<noteq> []) (gr_id r # (case find_grant st (gr_ptype r) (gr_pref r) stype sref of None \<Rightarrow> [] | Some x \<Rightarrow> [gr_id x]))) = Inr x"
    and st': "st' = put_grant (r\<lparr>gr_id := new_id, gr_stype := stype, gr_sref := sref, gr_realm := az_realm st\<rparr>) (put_revoked i now st)"
    using c by (auto simp: reassign_grant_def Let_def andthen_eq_Inr)
  let ?new = "r\<lparr>gr_id := new_id, gr_stype := stype, gr_sref := sref, gr_realm := az_realm st\<rparr>"
  let ?ex = "filter (\<lambda>x. x \<noteq> []) (gr_id r # (case find_grant st (gr_ptype r) (gr_pref r) stype sref of None \<Rightarrow> [] | Some x \<Rightarrow> [gr_id x]))"
  have ok: "authz_ok (put_revoked i now st)" using a by (rule put_revoked_ok)
  have ids: "gr_id ` set (az_rows (put_revoked i now st)) = gr_id ` set (az_rows st)"
    unfolding put_simps set_map image_image by (rule image_cong) simp_all
  show "authz_ok st'"
    unfolding st' by (rule put_grant_ok [OF ok]) (use i ids admit_grantD(3) [OF ad] pt in simp_all)
  show "az_realm st' = az_realm st" by (simp add: st')
  assume h: "has_admin st"
  show "has_admin st'"
    unfolding st'
  proof (rule guarded_put [OF a ok h _ admit_grantD(1,2) [OF ad]])
    fix x assume x: "x \<in> set (live_rows st)" "gr_id x \<notin> set ?ex"
    then have in_rows: "x \<in> set (az_rows st)" and ne: "gr_id x \<noteq> []" using a by (auto simp: live_rows_def authz_ok_def)
    then have "gr_id x \<noteq> i" using x(2) coverable_grantD(2) [OF r] by auto
    moreover have "identity x \<noteq> identity ?new"
    proof
      assume "identity x = identity ?new"
      then have "identity x = (gr_ptype r, gr_pref r, stype, sref)" by (simp add: identity_def)
      then obtain y where "find_grant st (gr_ptype r) (gr_pref r) stype sref = Some y" "gr_id y = gr_id x"
        using find_grant_excludes [OF in_rows _ a] by blast
      then have "gr_id x \<in> set ?ex" using ne by simp
      then show False using x(2) by contradiction
    qed
    ultimately show "x \<in> set (az_rows (put_revoked i now st)) \<and> identity x \<noteq> identity ?new"
      using put_revoked_other [OF in_rows] by blast
  qed (simp_all add: live)
qed

lemma revoke_grant_keeps:
  assumes c: "revoke_grant st u now i = Inr st'" and a: "authz_ok st"
  shows "authz_ok st'" "has_admin st \<Longrightarrow> has_admin st'" "az_realm st' = az_realm st"
proof -
  obtain r x where r: "coverable_grant st u now i = Inr r" and st': "st' = put_revoked i now st"
    and g: "(if gr_revoked r = None then guard_last_admin st u now [gr_id r] None else Inr ()) = Inr ()"
    using c by (auto simp: revoke_grant_def andthen_eq_Inr)
  show "authz_ok st'" "az_realm st' = az_realm st" unfolding st' using put_revoked_ok [OF a] by simp_all
  assume h: "has_admin st"
  have "\<exists>x \<in> set (live_rows st). gr_id x \<noteq> i \<and> qualifies (az_realm st) now True x"
  proof (cases "gr_revoked r = None")
    case True
    then show ?thesis using guard_ok [OF _ a h coverable_grantD(3) [OF r], of now "[gr_id r]" None] g coverable_grantD(2) [OF r] by auto
  next
    case False
    obtain x where x: "x \<in> set (live_rows st)" "qualifies (az_realm st) now True x"
      using h qualifies_permanent unfolding has_admin_def by blast
    then have "x \<in> set (az_rows st)" "gr_revoked x = None" by (auto simp: live_rows_def)
    then have "gr_id x \<noteq> i"
      using False a coverable_grantD(1,2) [OF r] by (auto simp: authz_ok_def distinct_map inj_on_def)
    then show ?thesis using x by blast
  qed
  then obtain x where x: "x \<in> set (live_rows st)" "gr_id x \<noteq> i" "qualifies (az_realm st) now True x" by blast
  then have "x \<in> set (az_rows st')" "gr_revoked x = None" unfolding st' using put_revoked_other by (auto simp: live_rows_def)
  then show "has_admin st'" using x(3) by (intro has_adminI [of x _ now]) (simp_all add: live_rows_def st')
qed

subsection \<open>A tenant through its life\<close>

text \<open>Any principal, any clock reading, any order; a created row has a generated id that no row has.\<close>

inductive authz_step :: "authz \<Rightarrow> authz \<Rightarrow> bool" where
  created: "create_grant st u now req = Inr st' \<Longrightarrow> gr_id req \<notin> gr_id ` set (az_rows st) \<Longrightarrow> gr_id req \<noteq> [] \<Longrightarrow> authz_step st st'"
| reassigned: "reassign_grant st u now i new_id stype sref = Inr st' \<Longrightarrow> new_id \<notin> gr_id ` set (az_rows st) \<Longrightarrow> new_id \<noteq> [] \<Longrightarrow>
    authz_step st st'"
| revoked: "revoke_grant st u now i = Inr st' \<Longrightarrow> authz_step st st'"
| enforced: "set_enforcement st u now mode = Inr st' \<Longrightarrow> authz_step st st'"

lemma set_enforcementD: "set_enforcement st u now mode = Inr st' \<Longrightarrow> st' = st\<lparr>az_enforcement := mode\<rparr>"
  by (auto simp: set_enforcement_def andthen_eq_Inr)

lemma enforcement_rows [simp]: "live_rows (st\<lparr>az_enforcement := mode\<rparr>) = live_rows st"
  by (simp add: live_rows_def)

lemma authz_step_keeps:
  "authz_step st st' \<Longrightarrow> authz_ok st \<Longrightarrow> has_admin st \<Longrightarrow> authz_ok st' \<and> has_admin st' \<and> az_realm st' = az_realm st"
proof (induction rule: authz_step.induct)
  case (created st u now req st')
  then show ?case using create_grant_keeps [OF created(1) created(4)] by simp
next
  case (reassigned st u now i new_id stype sref st')
  then show ?case using reassign_grant_keeps [OF reassigned(1) reassigned(4)] by simp
next
  case (revoked st u now i st')
  then show ?case using revoke_grant_keeps [OF revoked(1) revoked(2)] by simp
next
  case (enforced st u now mode st')
  then show ?case by (auto dest!: set_enforcementD simp: authz_ok_def has_admin_def)
qed

lemma authz_steps_keep:
  "authz_step\<^sup>*\<^sup>* st st' \<Longrightarrow> authz_ok st \<Longrightarrow> has_admin st \<Longrightarrow> authz_ok st' \<and> has_admin st' \<and> az_realm st' = az_realm st"
  by (induction rule: rtranclp_induct) (auto dest: authz_step_keeps)

lemma seeded:
  assumes "seed_first_grant st i pref ''tenant_owner'' = Some st'" "i \<noteq> []"
  shows "authz_ok st'" "has_admin st'"
proof -
  let ?r = "\<lparr>gr_id = i, gr_ptype = ''user'', gr_pref = pref, gr_realm = az_realm st, gr_stype = ''tenant'', gr_sref = [],
      gr_subset = None, gr_role = ''tenant_owner'', gr_revoked = None, gr_expires = None\<rparr>"
  have st': "st' = st\<lparr>az_rows := [?r]\<rparr>" using assms(1) by (simp add: seed_first_grant_def split: if_splits)
  have "strip_text ''tenant_owner'' \<in> set tenant_roles" by code_simp
  then show "authz_ok st'" using assms(2) by (simp add: st' authz_ok_def row_proper_def)
  have "admin_permission \<in> set (dget_or role_permissions_table (strip_text ''tenant_owner'') [])" by code_simp
  then show "has_admin st'"
    by (intro has_adminI [of ?r _ 0])
      (simp_all add: st' live_rows_def qualifies_def principal_user_def standing_row_def grant_active_def row_in_realm_def
        administers_def role_permissions_for_def effective_permissions_def)
qed

text \<open>C3: From the moment provisioning seeds the owner, no sequence of grant creations, overwrites, reassignments,
  revocations and enforcement switches, by whoever and whenever, leaves the tenant without an administrator: there
  remains an unrevoked, never expiring tenant grant, and whoever signs in as its principal with its role is
  permitted to manage roles over the whole tenant.
\<close>

theorem last_admin_stays:
  assumes "seed_first_grant st0 i pref ''tenant_owner'' = Some st1" "i \<noteq> []" "authz_step\<^sup>*\<^sup>* st1 st"
  shows "\<exists>r \<in> set (az_rows st). gr_revoked r = None \<and> gr_expires r = None \<and> gr_stype r = ''tenant'' \<and>
    (\<forall>v now. uc_id v = gr_pref r \<and> uc_role v = strip_text (gr_role r) \<longrightarrow>
       permits (load_scope st v now) admin_permission tenant_query = Inr True)"
proof -
  have ok: "authz_ok st" "has_admin st" using authz_steps_keep [OF assms(3) seeded [OF assms(1,2)]] by auto
  then obtain r where r: "r \<in> set (live_rows st)" "qualifies (az_realm st) 0 True r" by (auto simp: has_admin_def)
  have "qualifies (az_realm st) now False r" for now
    using qualifies_permanent [OF r(2), of now] by (auto simp: qualifies_def standing_row_def)
  then have "permits (load_scope st v now) admin_permission tenant_query = Inr True"
    if "uc_id v = gr_pref r" "uc_role v = strip_text (gr_role r)" for v now
    using admin_loads [OF ok(1) r(1) _ that] by blast
  then show ?thesis using r by (intro bexI [of _ r]) (auto simp: live_rows_def qualifies_def standing_row_def)
qed

definition example_authz :: authz where
  "example_authz = \<lparr>az_rows = [], az_units = [], az_sites = [], az_enforcement = ''strict'', az_realm = ''t1'', az_pairs = []\<rparr>"

definition example_owner :: user_ctx where
  "example_owner = \<lparr>uc_id = ''ada'', uc_email = ''ada@x'', uc_role = ''tenant_owner'', uc_perms = [''role.manage'']\<rparr>"

definition example_request :: grant_row where
  "example_request = \<lparr>gr_id = ''g2'', gr_ptype = ''user'', gr_pref = ''bob'', gr_realm = [], gr_stype = ''tenant'', gr_sref = [],
     gr_subset = Some [''fleet.view''], gr_role = ''operator'', gr_revoked = None, gr_expires = None\<rparr>"

definition example_seeded :: authz where
  "example_seeded = the (seed_first_grant example_authz ''g1'' ''ada'' ''tenant_owner'')"

lemma example_seed: "seed_first_grant example_authz ''g1'' ''ada'' ''tenant_owner'' = Some example_seeded"
  by (simp add: example_seeded_def seed_first_grant_def example_authz_def)

lemma example_created: "create_grant example_seeded example_owner 0 example_request =
  Inr (example_seeded\<lparr>az_rows := az_rows example_seeded @ [example_request\<lparr>gr_realm := ''t1''\<rparr>]\<rparr>)"
  by code_simp

theorem last_admin_stays_witness:
  "\<exists>r \<in> set (az_rows (example_seeded\<lparr>az_rows := az_rows example_seeded @ [example_request\<lparr>gr_realm := ''t1''\<rparr>]\<rparr>)).
     gr_revoked r = None \<and> gr_expires r = None \<and> gr_stype r = ''tenant''"
proof -
  have "authz_step example_seeded (example_seeded\<lparr>az_rows := az_rows example_seeded @ [example_request\<lparr>gr_realm := ''t1''\<rparr>]\<rparr>)"
    by (rule created [OF example_created])
      (simp_all add: example_seeded_def seed_first_grant_def example_authz_def example_request_def)
  then show ?thesis using last_admin_stays [OF example_seed _ r_into_rtranclp] by blast
qed

text \<open>C14: The switch to strict enforcement, where nobody is let in by default any more, succeeds only when some live
  tenant grant lets whoever signs in as its principal with its role manage roles over the whole tenant.
\<close>

theorem strict_flip_keeps_admin:
  assumes e: "set_enforcement st u now enforcement_strict = Inr st'" and a: "authz_ok st"
  shows "\<exists>r \<in> set (live_rows st'). gr_stype r = ''tenant'' \<and>
    (\<forall>v. uc_id v = gr_pref r \<and> uc_role v = strip_text (gr_role r) \<longrightarrow>
       permits (load_scope st' v now) admin_permission tenant_query = Inr True)"
proof -
  have st': "st' = st\<lparr>az_enforcement := enforcement_strict\<rparr>" using e by (rule set_enforcementD)
  have m: "scope_only_marker \<notin> set (token_permissions u)"
    and c: "0 < count_tenant_admins (az_realm st) now False (live_rows st) [] None (load_scope st u now) (token_permissions u)"
    using e by (auto simp: set_enforcement_def andthen_eq_Inr dest: no_marker)
  then have "tenant_admins (az_realm st) now False (live_rows st) [] None (load_scope st u now) (token_permissions u) \<noteq> {}"
    by (auto simp: count_tenant_admins_def)
  then obtain r where r: "r \<in> set (live_rows st)" "qualifies (az_realm st) now False r"
    using found_qualifies [OF a m] by blast
  have a': "authz_ok st'" using a by (simp add: st' authz_ok_def)
  have "permits (load_scope st' v now) admin_permission tenant_query = Inr True"
    if "uc_id v = gr_pref r" "uc_role v = strip_text (gr_role r)" for v
    using admin_loads [OF a' _ _ that] r by (simp add: st')
  then show ?thesis using r by (intro bexI [of _ r]) (auto simp: st' qualifies_def)
qed

lemma example_flip: "set_enforcement example_seeded example_owner 0 enforcement_strict = Inr example_seeded"
  by code_simp

theorem strict_flip_keeps_admin_witness: "\<exists>r \<in> set (live_rows example_seeded). gr_stype r = ''tenant''"
proof -
  have "authz_ok example_seeded" using seeded [OF example_seed] by simp
  then show ?thesis using strict_flip_keeps_admin [OF example_flip] by blast
qed

subsection \<open>Delegated authority\<close>

definition grant_target :: "authz \<Rightarrow> grant_row \<Rightarrow> scope_query" where
  "grant_target st r = target_query (gr_stype r) (gr_sref r)
     (if gr_stype r = ''org_unit'' then (case get_unit (az_units st) (gr_sref r) of None \<Rightarrow> [] | Some x \<Rightarrow> ou_path x) else [])"

lemma covers_mono_site:
  assumes "g_covers_site m (g_ref g) path" "g_kind g = KSite" "g_covers_site g site path'" "site = g_ref g \<Longrightarrow> path' = path"
  shows "g_covers_site m site path'"
  using assms by (auto simp: g_covers_site_def split: scope_kind.splits)

lemma covers_mono_unit:
  assumes "g_covers_org_unit m (g_path g)" "g_kind g = KOrgUnit"
  shows "g_covers_org_unit g p \<Longrightarrow> g_covers_org_unit m p" "g_covers_site g site path \<Longrightarrow> g_covers_site m site path"
proof -
  have "g_kind m = KTenant \<and> \<not> g_inert m \<or> g_kind m = KOrgUnit \<and> \<not> g_inert m \<and> is_descendant (g_path g) (g_path m)"
    using assms(1) by (cases "g_kind m") (auto simp: g_covers_org_unit_def)
  then show "g_covers_org_unit g p \<Longrightarrow> g_covers_org_unit m p" "g_covers_site g site path \<Longrightarrow> g_covers_site m site path"
    using assms(2) by (auto simp: g_covers_org_unit_def g_covers_site_def intro: is_descendant_trans)
qed

lemma covers_tenant_reaches: "g_covers_tenant m \<Longrightarrow> grant_reaches m q path"
  by (simp add: g_covers_tenant_def grant_reaches_def g_covers_device_def g_covers_site_def g_covers_org_unit_def)

lemma device_by_site:
  "g_kind g = KOrgUnit \<or> g_kind g = KSite \<Longrightarrow> g_covers_device g agent site path cls \<longleftrightarrow> g_covers_site g site path"
  by (auto simp: g_covers_device_def) (simp_all add: g_covers_site_def)

lemma site_or_unit_covers_device: "g_covers_site m site path \<Longrightarrow> g_covers_device m agent site path cls"
  by (cases "g_kind m") (auto simp: g_covers_device_def g_covers_site_def)

text \<open>What reaches the exact target of a grant reaches everything the grant reaches.\<close>

lemma target_reach:
  assumes m: "grant_reaches m (grant_target st r) (unit_path_for paths (q_site (grant_target st r)) (q_unit (grant_target st r)))"
    and k: "scope_kind_of (gr_stype r) = Some k" and d: "distinct (map ou_id (az_units st))"
    and g: "g = kind_grant (unit_by_id (az_units st)) known k ps r" "\<not> g_inert g"
    and q: "grant_reaches g q (unit_path_for paths (q_site q) (q_unit q))" "q_unit q = [] \<or> q_site q = []"
  shows "grant_reaches m q (unit_path_for paths (q_site q) (q_unit q))"
proof (cases "k = KOrgUnit \<or> k = KSite")
  case False
  then have "grant_target st r = tenant_query"
    using k by (auto simp: scope_kind_of_def grant_target_def target_query_def split: if_splits)
  then have "g_covers_tenant m" using m by (simp add: grant_reaches_def tenant_query_def)
  then show ?thesis by (rule covers_tenant_reaches)
next
  case True
  then have nt: "\<not> q_tenant q" using q(1) g(1) by (auto simp: grant_reaches_def g_covers_tenant_def)
  show ?thesis
  proof (cases "k = KSite")
    case True
    then have t: "grant_target st r = site_query (gr_sref r)"
      using k by (auto simp: scope_kind_of_def grant_target_def target_query_def split: if_splits)
    have kg: "g_kind g = KSite" "g_ref g = gr_sref r" by (simp_all add: g(1) True)
    show ?thesis
    proof (cases "gr_sref r = []")
      case True
      then show ?thesis using m t by (intro covers_tenant_reaches) (simp add: grant_reaches_def site_query_def)
    next
      case False
      then have ms: "g_covers_site m (g_ref g) (unit_path_for paths (gr_sref r) [])"
        using m t kg by (simp add: grant_reaches_def site_query_def)
      have s: "g_covers_site m (q_site q) (unit_path_for paths (q_site q) (q_unit q))"
        if "g_covers_site g (q_site q) (unit_path_for paths (q_site q) (q_unit q))"
        by (rule covers_mono_site [OF ms kg(1) that]) (use False kg q(2) in auto)
      then show ?thesis
        using q(1) nt kg(1) by (auto simp: grant_reaches_def device_by_site g_covers_org_unit_def g_covers_tenant_def
          intro: site_or_unit_covers_device split: if_splits)
    qed
  next
    case False
    then have k': "k = KOrgUnit" using True by simp
    then have ts: "gr_stype r = ''org_unit''" using k by (auto simp: scope_kind_of_def split: if_splits)
    have kg: "g_kind g = KOrgUnit" by (simp add: g(1) k')
    obtain x where x: "get_unit (az_units st) (gr_sref r) = Some x" "g_path g = ou_path x"
      using g k' dget_unit_by_id [OF d] by (cases "get_unit (az_units st) (gr_sref r)") auto
    have t: "grant_target st r = unit_query (ou_path x)" by (simp add: grant_target_def target_query_def ts x(1))
    show ?thesis
    proof (cases "ou_path x = []")
      case True
      then show ?thesis using m t by (intro covers_tenant_reaches) (simp add: grant_reaches_def unit_query_def)
    next
      case False
      then have mu: "g_covers_org_unit m (g_path g)" using m t x(2) by (simp add: grant_reaches_def unit_query_def)
      then show ?thesis
        using q(1) nt covers_mono_unit [OF mu kg] kg
        by (auto simp: grant_reaches_def device_by_site g_covers_tenant_def intro: site_or_unit_covers_device split: if_splits)
    qed
  qed
qed

lemma kind_stripped: "scope_kind_of s = Some k \<Longrightarrow> strip_text s = s"
proof -
  have "\<forall>s \<in> set [''tenant'', ''org_unit'', ''site'', ''device_class'', ''device'']. strip_text s = s" by code_simp
  then show "scope_kind_of s = Some k \<Longrightarrow> ?thesis" by (auto simp: scope_kind_of_def split: if_splits)
qed

lemma create_grantD:
  assumes "create_grant st u now req = Inr st'"
  defines "new \<equiv> req\<lparr>gr_revoked := None, gr_realm := az_realm st\<rparr>"
  shows "st' = put_grant new st" "scope_kind_of (gr_stype new) \<noteq> None" "gr_ptype new = principal_user \<Longrightarrow> row_proper new"
    "gr_ptype new = principal_user \<Longrightarrow> p \<in> effective_permissions (role_permissions_for new) (gr_subset new) \<Longrightarrow>
       permits (load_scope st u now) p (grant_target st new) = Inr True"
proof -
  obtain path x ex where path: "resolve_scope_ref st (gr_stype new) (gr_sref new) = Inr path"
    and ad: "admit_grant st u now new path ex = Inr x"
    and st': "st' = put_grant new st" and k: "scope_kind_of (gr_stype new) \<noteq> None"
    using assms(1) by (auto simp: create_grant_def Let_def andthen_eq_Inr new_def)
  then show "st' = put_grant new st" "scope_kind_of (gr_stype new) \<noteq> None" by simp_all
  assume u: "gr_ptype new = principal_user"
  then show "row_proper new" using admit_grantD(3) [OF ad] by (simp add: principal_user_def)
  assume p: "p \<in> effective_permissions (role_permissions_for new) (gr_subset new)"
  have t: "target_query (gr_stype new) (gr_sref new) path = grant_target st new"
    using path by (auto simp: grant_target_def resolve_scope_ref_def target_query_def split: if_splits option.splits)
  obtain ps where "delegated_permissions (gr_role new) (gr_subset new) = Inr ps"
    and c: "check_delegation (load_scope st u now) ps (target_query (gr_stype new) (gr_sref new) path) = Inr ()"
    using ad u by (auto simp: admit_grant_def Let_def andthen_eq_Inr principal_user_def)
  then have "p \<in> ps" using p by (auto simp: delegated_permissions_def Let_def role_permissions_for_def split: if_splits)
  then show "permits (load_scope st u now) p (grant_target st new) = Inr True"
    using c unfolding t by (auto simp: check_delegation_def andthen_eq_Inr forbid_eq_Inr)
qed

lemma put_grant_evidence:
  assumes a: "authz_ok st" and e: "grant_evidence (put_grant new st) pt refs = []"
  shows "grant_evidence st pt refs = []"
proof -
  have "r \<notin> set (grant_evidence st pt refs)" for r
  proof
    assume r: "r \<in> set (grant_evidence st pt refs)"
    let ?r = "if identity r = identity new then refreshed new r else r"
    have "?r \<in> set (az_rows (put_grant new st))"
      using r unfolding put_grant_rows [OF a] by (auto simp: grant_evidence_def Let_def image_iff intro!: bexI [of _ r])
    then have "?r \<in> set (grant_evidence (put_grant new st) pt refs)"
      using r by (auto simp: grant_evidence_def Let_def)
    then show False using e by simp
  qed
  then show ?thesis by (metis list.set_intros(1) neq_Nil_conv)
qed

lemma put_grant_row_cases:
  assumes a: "authz_ok st" and n: "gr_revoked new = None" "gr_realm new = az_realm st"
    and r: "r \<in> set (az_rows (put_grant new st))"
  shows "r \<in> set (az_rows st) \<or> (identity r = identity new \<and> gr_role r = gr_role new \<and> gr_subset r = gr_subset new)"
  using r unfolding put_grant_rows [OF a] by (auto split: if_splits)

lemma own_grant_loaded:
  assumes "g \<in> set (row_grants (az_units st) (az_sites st) (token_permissions v) now role_ceiling_for (own_rows st v))"
  shows "g \<in> set (rs_grants (load_scope st v now))"
proof -
  have "row_grants (az_units st) (az_sites st) (token_permissions v) now role_ceiling_for (own_rows st v) \<noteq> []" using assms by auto
  then show ?thesis using assms unfolding loaded_grants Let_def by simp
qed

lemma load_scope_put:
  assumes a: "authz_ok st" and n: "gr_revoked new = None" "gr_realm new = az_realm st"
    and p: "permits (load_scope (put_grant new st) v now) p q = Inr True"
  shows "permits (load_scope st v now) p q = Inr True \<or>
    (\<exists>r g. identity r = identity new \<and> gr_ptype r = principal_user \<and> gr_role r = gr_role new \<and> gr_subset r = gr_subset new \<and>
       grant_of_row (unit_by_id (az_units st)) (set (map cs_id (az_sites st))) (token_permissions v) role_ceiling_for r = Some g \<and>
       \<not> g_inert g \<and> carries p g \<and>
       grant_reaches g q (unit_path_for (site_unit_paths (unit_by_id (az_units st)) (az_sites st)) (q_site q) (q_unit q)))"
proof -
  let ?st = "put_grant new st"
  obtain g where m: "scope_only_marker \<notin> set (token_permissions v)" and g: "g \<in> set (rs_grants (load_scope ?st v now))"
    "\<not> g_inert g" "carries p g"
    "grant_reaches g q (unit_path_for (site_unit_paths (unit_by_id (az_units st)) (az_sites st)) (q_site q) (q_unit q))"
    using p unfolding permits_def load_simps by (auto split: if_splits)
  have old: "permits (load_scope st v now) p q = Inr True" if "g \<in> set (rs_grants (load_scope st v now))"
    using that m g(2-) unfolding permits_def load_simps by auto
  show ?thesis
  proof (cases "g \<in> set (row_grants (az_units ?st) (az_sites ?st) (token_permissions v) now role_ceiling_for (own_rows ?st v))")
    case True
    then obtain r where r: "r \<in> set (own_rows ?st v)" "grant_active now r"
      "grant_of_row (unit_by_id (az_units st)) (set (map cs_id (az_sites st))) (token_permissions v) role_ceiling_for r = Some g"
      unfolding in_row_grants by auto
    have rr: "gr_ptype r = principal_user" "r \<in> set (az_rows ?st)" "gr_revoked r = None"
      using r(1) by (auto simp: own_rows_def live_rows_def)
    show ?thesis
    proof (cases "r \<in> set (az_rows st)")
      case True
      then have "r \<in> set (own_rows st v)" using r(1) by (auto simp: own_rows_def live_rows_def)
      then have "g \<in> set (row_grants (az_units st) (az_sites st) (token_permissions v) now role_ceiling_for (own_rows st v))"
        unfolding in_row_grants using r(2,3) by blast
      then show ?thesis using old own_grant_loaded by blast
    next
      case False
      then show ?thesis using put_grant_row_cases [OF a n rr(2)] rr(1) r(3) g(2-) by blast
    qed
  next
    case False
    then have none: "own_rows ?st v = []" "az_enforcement st = legacy_open" "g = synthesized_grant (token_permissions v)"
      "grant_evidence ?st principal_user (uc_id v # (if uc_email v = [] then [] else [uc_email v]) @ subject_aliases ?st (uc_id v)) = []"
      using g(1) unfolding loaded_grants Let_def by (auto split: if_splits)
    have al: "subject_aliases ?st (uc_id v) = subject_aliases st (uc_id v)" by (simp add: subject_aliases_def)
    have ev: "grant_evidence st principal_user (uc_id v # (if uc_email v = [] then [] else [uc_email v]) @ subject_aliases st (uc_id v)) = []"
      using put_grant_evidence [OF a none(4)] unfolding al .
    have "r \<notin> set (own_rows st v)" for r
    proof
      assume r: "r \<in> set (own_rows st v)"
      let ?r = "if identity r = identity new then refreshed new r else r"
      have "?r \<in> set (az_rows ?st)"
        using r unfolding put_grant_rows [OF a] by (auto simp: own_rows_def live_rows_def image_iff intro!: bexI [of _ r])
      then have "?r \<in> set (own_rows ?st v)"
        using r n by (auto simp: own_rows_def live_rows_def row_in_realm_def)
      then show False using none(1) by simp
    qed
    then have "own_rows st v = []" by (metis list.set_intros(1) neq_Nil_conv)
    then show ?thesis using old none(2,3) ev by (simp add: loaded_grants Let_def)
  qed
qed

text \<open>C4: Making a grant never hands out authority its maker lacks: whatever any principal may do after it, they
  could do before, or the maker could do it then, on the same target and for the same permission.
\<close>

theorem delegation_bounded:
  assumes c: "create_grant st u now req = Inr st'" and a: "authz_ok st" "distinct (map ou_id (az_units st))"
    and q: "q_unit q = [] \<or> q_site q = []"
    and p: "permits (load_scope st' v now') p q = Inr True"
  shows "permits (load_scope st v now') p q = Inr True \<or> permits (load_scope st u now) p q = Inr True"
proof -
  let ?new = "req\<lparr>gr_revoked := None, gr_realm := az_realm st\<rparr>"
  let ?paths = "site_unit_paths (unit_by_id (az_units st)) (az_sites st)"
  note cd = create_grantD [OF c]
  have mv: "scope_only_marker \<notin> set (token_permissions v)" using p by (auto simp: permits_def split: if_splits)
  consider "permits (load_scope st v now') p q = Inr True" | r g where "identity r = identity ?new" "gr_ptype r = principal_user"
    "gr_role r = gr_role ?new" "gr_subset r = gr_subset ?new"
    "grant_of_row (unit_by_id (az_units st)) (set (map cs_id (az_sites st))) (token_permissions v) role_ceiling_for r = Some g"
    "\<not> g_inert g" "carries p g" "grant_reaches g q (unit_path_for ?paths (q_site q) (q_unit q))"
    using load_scope_put [OF a(1) _ _ p [unfolded cd(1)]] by auto
  then show ?thesis
  proof cases
    case 2
    have un: "gr_ptype ?new = principal_user" using 2(1,2) by (simp add: identity_def)
    obtain k where k: "scope_kind_of (gr_stype ?new) = Some k" using cd(2) by blast
    have sr: "gr_stype r = gr_stype ?new" "gr_sref r = gr_sref ?new" using 2(1) by (simp_all add: identity_def)
    have rp: "row_proper r" using cd(3) [OF un] row_proper_fields [of r ?new] 2(3,4) by simp
    have g: "g = kind_grant (unit_by_id (az_units st)) (set (map cs_id (az_sites st))) k
        (grant_permissions r (token_permissions v) (role_ceiling_for r)) r"
      using 2(5) k kind_stripped [OF k] sr unfolding grant_of_row_Some by auto
    have "p \<in> effective_permissions (role_permissions_for r) (gr_subset r)"
      using 2(7) proper_row_bound [OF rp mv] unfolding carries_def g kind_grant_simps by blast
    moreover have "role_permissions_for r = role_permissions_for ?new" using 2(3) by (simp add: role_permissions_for_def)
    ultimately have "permits (load_scope st u now) p (grant_target st ?new) = Inr True" using cd(4) [OF un] 2(4) by simp
    moreover have t: "grant_target st ?new = grant_target st r" by (simp add: grant_target_def sr)
    ultimately obtain m where m: "scope_only_marker \<notin> set (token_permissions u)" "m \<in> set (rs_grants (load_scope st u now))"
      "\<not> g_inert m" "carries p m"
      "grant_reaches m (grant_target st r) (unit_path_for ?paths (q_site (grant_target st r)) (q_unit (grant_target st r)))"
      unfolding permits_def load_simps t by (auto split: if_splits)
    have "grant_reaches m q (unit_path_for ?paths (q_site q) (q_unit q))"
      using target_reach [OF m(5) _ a(2) g 2(6,8) q] k sr by simp
    then show ?thesis using m(1-4) unfolding permits_def load_simps by auto
  qed simp
qed

definition example_bob :: user_ctx where
  "example_bob = \<lparr>uc_id = ''bob'', uc_email = [], uc_role = ''operator'', uc_perms = [''fleet.view'']\<rparr>"

theorem delegation_bounded_witness:
  "permits (load_scope example_seeded example_bob 0) ''fleet.view'' tenant_query \<noteq> Inr True \<and>
   permits (load_scope example_seeded example_owner 0) ''fleet.view'' tenant_query = Inr True"
proof -
  let ?st' = "example_seeded\<lparr>az_rows := az_rows example_seeded @ [example_request\<lparr>gr_realm := ''t1''\<rparr>]\<rparr>"
  have "authz_ok example_seeded" using seeded [OF example_seed] by simp
  moreover have "distinct (map ou_id (az_units example_seeded))" "q_unit tenant_query = [] \<or> q_site tenant_query = []"
    "permits (load_scope ?st' example_bob 0) ''fleet.view'' tenant_query = Inr True"
    "permits (load_scope example_seeded example_bob 0) ''fleet.view'' tenant_query \<noteq> Inr True" by code_simp+
  ultimately show ?thesis using delegation_bounded [OF example_created] by blast
qed

end
