(* ===== verification/Approval_Ledger.thy ===== *)
theory Approval_Ledger
  imports Approval_Policy Read_Reach Grant_Integrity Audit_Chain
begin

text \<open>
  Decisions on actions, agent activations and campaign waves (\<open>api/approvals.py\<close>), the ledger of who decided
  (\<open>ApprovalRecordRepo\<close>), and whether the approval of a wave still stands when the wave is dispatched
  (\<open>target_authority.py\<close>). Proposals of operational agents are left out, as are the two snapshots a record keeps
  except for the devices it names. A handler that raises commits nothing. The digest and the JSON writer are
  parameters, the answers of the site manager and of the identity plane are inputs.
\<close>

subsection \<open>The rows\<close>

record approval_route =
  rt_action_id :: string
  rt_site :: string
  rt_type :: string
  rt_device :: string
  rt_decision :: "string option"
  rt_decided_by :: string
  rt_delivered :: bool

record campaign_wave =
  wv_campaign :: string
  wv_version :: int
  wv_site :: string
  wv_index :: int
  wv_plan :: string
  wv_devices :: "string list"
  wv_subject :: string
  wv_status :: string
  wv_decided_by :: string

record campaign_row =
  ca_id :: string
  ca_version :: int
  ca_action :: string

record activation_row =
  av_id :: string
  av_version :: int
  av_subject :: string

record desk =
  dk_tenant :: string
  dk_authz :: authz
  dk_policies :: "approval_policy list"
  dk_groups :: "approval_group list"
  dk_members :: "group_member list"
  dk_fleet :: "fleet_row list"
  dk_records :: "approval_record list"
  dk_routes :: "approval_route list"
  dk_waves :: "campaign_wave list"
  dk_campaigns :: "campaign_row list"
  dk_agents :: "activation_row list"

definition subject_action :: string where "subject_action = ''action''"
definition subject_wave :: string where "subject_wave = ''campaign_wave''"
definition subject_activation :: string where "subject_activation = ''agent_activation''"
definition wave_permission :: string where "wave_permission = ''action.approve''"

text \<open>\<open>scalar_one_or_none\<close>.\<close>

definition one_or_none :: "'a list \<Rightarrow> api_error + 'a option" where
  "one_or_none xs = (case xs of [] \<Rightarrow> Inr None | [x] \<Rightarrow> Inr (Some x) | _ \<Rightarrow> Inl (Http 500 ''MultipleResultsFound''))"

definition list_for_subject :: "approval_record list \<Rightarrow> string \<Rightarrow> string \<Rightarrow> approval_record list" where
  "list_for_subject rs t ref = filter (\<lambda>r. rc_type r = t \<and> rc_subject r = ref) rs"

definition get_by_approver :: "approval_record list \<Rightarrow> string \<Rightarrow> string \<Rightarrow> string \<Rightarrow> api_error + approval_record option" where
  "get_by_approver rs t ref approver = one_or_none (filter (\<lambda>r. rc_approver r = approver) (list_for_subject rs t ref))"

subsection \<open>The set of targets\<close>

datatype target_error = TargetRefused string | ScopeRaised

definition wave_subject_ref ::
  "(bytes \<Rightarrow> string) \<Rightarrow> (pyval \<Rightarrow> bytes) \<Rightarrow> string \<Rightarrow> int \<Rightarrow> string \<Rightarrow> int \<Rightarrow> string list \<Rightarrow> string \<Rightarrow> string" where
  "wave_subject_ref sha dumps campaign version site index devices plan =
     take 32 (sha (dumps (canonical (PyDict [(''campaign_id'', PyStr campaign), (''campaign_version'', PyInt version),
       (''site_id'', PyStr site), (''wave_index'', PyInt index), (''device_agent_ids'', PyList (map PyStr (sort devices))),
       (''plan_hash'', PyStr plan)]))))"

definition wave_subject_matches :: "(bytes \<Rightarrow> string) \<Rightarrow> (pyval \<Rightarrow> bytes) \<Rightarrow> campaign_wave \<Rightarrow> bool" where
  "wave_subject_matches sha dumps w \<longleftrightarrow> wv_subject w \<noteq> [] \<and>
     wave_subject_ref sha dumps (wv_campaign w) (wv_version w) (wv_site w) (wv_index w) (wv_devices w) (wv_plan w) = wv_subject w"

definition device_at_site :: "fleet_row list \<Rightarrow> string \<Rightarrow> string \<Rightarrow> fleet_row option" where
  "device_at_site rows site d = find (\<lambda>r. fr_agent r = d) (rev (filter (\<lambda>r. fr_site r = site) rows))"

definition wave_targets :: "campaign_wave \<Rightarrow> fleet_row list \<Rightarrow> target_error + authorized_target list" where
  "wave_targets w rows =
     (if wv_devices w = [] then Inl (TargetRefused ''empty_target_set'')
      else if \<not> distinct (wv_devices w) then Inl (TargetRefused ''duplicate_target'')
      else if \<exists>d \<in> set (wv_devices w). device_at_site rows (wv_site w) d = None then Inl (TargetRefused ''unknown_target'')
      else Inr (map (\<lambda>d. \<lparr>at_agent = d, at_site = wv_site w,
          at_class = (case device_at_site rows (wv_site w) d of None \<Rightarrow> [] | Some r \<Rightarrow> fr_class r)\<rparr>) (sort (wv_devices w))))"

definition uncovered_targets :: "resolved_scope \<Rightarrow> string \<Rightarrow> authorized_target list \<Rightarrow> target_error + string list" where
  "uncovered_targets s p targets =
     (if targets = [] then Inl (TargetRefused ''empty_target_set'')
      else if rs_scope_only s then Inl ScopeRaised
      else Inr (map at_agent (filter (\<lambda>t. permits s p (device_query (at_site t) (at_agent t) (at_class t)) \<noteq> Inr True) targets)))"

subsection \<open>The policy that governs\<close>

text \<open>The group bound to a policy, unless it belongs to another tenant, and its members.\<close>

definition bound_group :: "desk \<Rightarrow> approval_policy option \<Rightarrow> approval_group option \<times> group_member list" where
  "bound_group dk policy =
     (case (case policy of None \<Rightarrow> None | Some p \<Rightarrow> ap_group p) of None \<Rightarrow> (None, [])
      | Some g \<Rightarrow> if g = [] then (None, []) else
          (case find (\<lambda>x. gp_id x = g) (dk_groups dk) of None \<Rightarrow> (None, [])
           | Some x \<Rightarrow> if gp_tenant x \<noteq> dk_tenant dk then (None, [])
               else (Some x, filter (\<lambda>m. gm_group m = gp_id x) (dk_members dk))))"

definition risk_of_action :: "string \<Rightarrow> string" where
  "risk_of_action action = dget_or action_risk_map (upper action) []"

definition governing_policy ::
  "desk \<Rightarrow> string \<Rightarrow> string \<Rightarrow> api_error + approval_policy option \<times> approval_group option \<times> group_member list" where
  "governing_policy dk action device =
     andthen (if device = [] then Inr [] else
         andthen (one_or_none (filter (\<lambda>r. fr_agent r = device) (dk_fleet dk)))
           (\<lambda>r. Inr (case r of None \<Rightarrow> [] | Some f \<Rightarrow> fr_class f)))
       (\<lambda>device_type. let policy = resolve_policy (dk_policies dk) action device_type (risk_of_action action);
           (grp, members) = bound_group dk policy in Inr (policy, grp, members))"

definition governing_policy_for_targets ::
  "desk \<Rightarrow> string \<Rightarrow> authorized_target list \<Rightarrow> approval_policy option \<times> approval_group option \<times> group_member list \<times> string list" where
  "governing_policy_for_targets dk action targets =
     (let (policy, conflict) = resolve_policy_for_classes (dk_policies dk) action (map at_class targets) (risk_of_action action)
      in if conflict \<noteq> [] then (None, None, [], conflict)
         else (let (grp, members) = bound_group dk policy in (policy, grp, members, [])))"

subsection \<open>One decision\<close>

definition single_target_in_scope :: "desk \<Rightarrow> resolved_scope \<Rightarrow> string \<Rightarrow> string \<Rightarrow> bool \<Rightarrow> api_error + bool" where
  "single_target_in_scope dk s site device tenant_level =
     (case (if tenant_level then permits s wave_permission tenant_query
            else permits_owned s wave_permission site (resolve_in_fleet (dk_fleet dk) site device)) of
        Inl _ \<Rightarrow> Inl ScopeMisused | Inr b \<Rightarrow> Inr b)"

text \<open>The decision \<open>dec\<close> of the caller on a subject; the answer is the ledger with the new record and the progress.\<close>

definition record_and_evaluate ::
  "desk \<Rightarrow> user_ctx \<Rightarrow> time \<Rightarrow> string \<Rightarrow> string \<Rightarrow> string \<Rightarrow> string \<Rightarrow> string \<Rightarrow> string \<Rightarrow> authorized_target list option
     \<Rightarrow> api_error + approval_record list \<times> progress" where
  "record_and_evaluate dk u now subject_type ref action device site dec targets =
     (let s = load_scope (dk_authz dk) u now in
      andthen (case targets of
          Some ts \<Rightarrow> (let (policy, grp, members, conflict) = governing_policy_for_targets dk action ts
             in if conflict \<noteq> [] then Inl (Http 409 ''policy_conflict'') else Inr (policy, grp, members))
        | None \<Rightarrow> governing_policy dk action device) (\<lambda>(policy, grp, members).
      andthen (get_by_approver (dk_records dk) subject_type ref (uc_id u)) (\<lambda>existing.
      andthen (require (existing = None) (Http 409 ''already_decided_by_you'')) (\<lambda>_.
      andthen (require (grp = None \<or> is_member members (uc_id u) (uc_email u)) (Http 403 ''group'')) (\<lambda>_.
      andthen (case targets of
          Some ts \<Rightarrow> (case uncovered_targets s wave_permission ts of
              Inl _ \<Rightarrow> Inl ScopeMisused
            | Inr missing \<Rightarrow> require (missing = []) (Http 403 ''outside_scope''))
        | None \<Rightarrow> andthen (single_target_in_scope dk s site device (subject_type = subject_activation))
            (\<lambda>b. require b (Http 403 ''outside_scope''))) (\<lambda>_.
      let new = \<lparr>rc_type = subject_type, rc_subject = ref, rc_approver = uc_id u,
             rc_email = (if uc_email u = [] then uc_id u else uc_email u), rc_decision = dec,
             rc_policy = (case policy of None \<Rightarrow> [] | Some p \<Rightarrow> ap_id p), rc_scope_ok = True, rc_reason = [],
             rc_targets = (case targets of None \<Rightarrow> [] | Some ts \<Rightarrow> map at_agent ts)\<rparr>;
          records = dk_records dk @ [new]
      in Inr (records, approval_block_of policy grp (list_for_subject records subject_type ref))))))))"

text \<open>Recorded but not enough is committed and reported as pending.\<close>

datatype outcome = Pending progress | Decided string progress

definition conclude :: "string \<Rightarrow> progress \<Rightarrow> outcome" where
  "conclude dec block = (case bl_state block of StPending \<Rightarrow> Pending block
     | StDenied \<Rightarrow> Decided d_denied block | StApproved \<Rightarrow> Decided dec block)"

definition actor_name :: "user_ctx \<Rightarrow> string" where
  "actor_name u = (if uc_email u = [] then uc_id u else uc_email u)"

definition decide_wave ::
  "(bytes \<Rightarrow> string) \<Rightarrow> (pyval \<Rightarrow> bytes) \<Rightarrow> desk \<Rightarrow> user_ctx \<Rightarrow> time \<Rightarrow> string \<Rightarrow> string \<Rightarrow> api_error + desk \<times> outcome" where
  "decide_wave sha dumps dk u now ref dec =
     andthen (one_or_none (filter (\<lambda>w. wv_subject w = ref) (dk_waves dk))) (\<lambda>found.
     case found of None \<Rightarrow> Inl (Http 404 ''approval route'')
     | Some w \<Rightarrow>
       (case find (\<lambda>c. ca_id c = wv_campaign w) (dk_campaigns dk) of None \<Rightarrow> Inl (Http 404 ''approval route'')
        | Some c \<Rightarrow>
          andthen (require (wv_status w = ''pending_approval'') (Http 409 ''already'')) (\<lambda>_.
          andthen (require (wv_version w = ca_version c) (Http 409 ''earlier version'')) (\<lambda>_.
          andthen (require (wave_subject_matches sha dumps w) (Http 409 ''subject_mismatch'')) (\<lambda>_.
          andthen (case wave_targets w (filter (\<lambda>r. fr_site r = wv_site w) (dk_fleet dk)) of
              Inl _ \<Rightarrow> Inl (Http 409 ''targets'') | Inr ts \<Rightarrow> Inr ts) (\<lambda>ts.
          andthen (record_and_evaluate dk u now subject_wave ref (ca_action c) [] (wv_site w) dec (Some ts)) (\<lambda>(records, block).
          let dk1 = dk\<lparr>dk_records := records\<rparr> in
          (case conclude dec block of
             Pending b \<Rightarrow> Inr (dk1, Pending b)
           | Decided d b \<Rightarrow> Inr (dk1\<lparr>dk_waves := map (\<lambda>x. if wv_subject x = ref
               then x\<lparr>wv_status := (if d = d_approved then ''approved'' else ''denied''), wv_decided_by := actor_name u\<rparr> else x)
               (dk_waves dk)\<rparr>, Decided d b)))))))))"

definition decide_activation ::
  "desk \<Rightarrow> user_ctx \<Rightarrow> time \<Rightarrow> string \<Rightarrow> string \<Rightarrow> api_error + (desk \<times> outcome) option" where
  "decide_activation dk u now ref dec =
     (case find (\<lambda>a. av_subject a = ref) (dk_agents dk) of None \<Rightarrow> Inr None
      | Some a \<Rightarrow>
          andthen (record_and_evaluate dk u now subject_activation ref [] [] [] dec None) (\<lambda>(records, block).
          Inr (Some (dk\<lparr>dk_records := records\<rparr>, conclude dec block))))"

text \<open>\<open>_route_decision\<close>; \<open>delivered\<close> is what the call to the site manager reports.\<close>

definition decide_action ::
  "desk \<Rightarrow> user_ctx \<Rightarrow> time \<Rightarrow> bool \<Rightarrow> approval_route \<Rightarrow> string \<Rightarrow> api_error + desk \<times> outcome" where
  "decide_action dk u now delivered r dec =
     andthen (require (\<exists>c \<in> set (az_sites (dk_authz dk)). cs_id c = rt_site r) (Http 404 ''approval route'')) (\<lambda>_.
     andthen (require (rt_decision r = None) (Http 409 ''already decided'')) (\<lambda>_.
     andthen (record_and_evaluate dk u now subject_action (rt_action_id r) (rt_type r) (rt_device r) (rt_site r) dec None)
       (\<lambda>(records, block).
     let dk1 = dk\<lparr>dk_records := records\<rparr> in
     (case conclude dec block of
        Pending b \<Rightarrow> Inr (dk1, Pending b)
      | Decided d b \<Rightarrow> Inr (dk1\<lparr>dk_routes := map (\<lambda>x. if rt_action_id x = rt_action_id r
          then x\<lparr>rt_decision := Some d, rt_decided_by := actor_name u, rt_delivered := (delivered \<or> rt_delivered x)\<rparr> else x)
          (dk_routes dk)\<rparr>, Decided d b)))))"

definition route_decision ::
  "(bytes \<Rightarrow> string) \<Rightarrow> (pyval \<Rightarrow> bytes) \<Rightarrow> desk \<Rightarrow> user_ctx \<Rightarrow> time \<Rightarrow> bool \<Rightarrow> string \<Rightarrow> string \<Rightarrow> api_error + desk \<times> outcome" where
  "route_decision sha dumps dk u now delivered i dec =
     andthen (one_or_none (filter (\<lambda>r. rt_action_id r = i) (dk_routes dk))) (\<lambda>found.
     case found of Some r \<Rightarrow> decide_action dk u now delivered r dec
     | None \<Rightarrow> andthen (decide_activation dk u now i dec) (\<lambda>done'.
         case done' of Some res \<Rightarrow> Inr res | None \<Rightarrow> decide_wave sha dumps dk u now i dec))"

text \<open>The approve and deny endpoints, behind their route guard.\<close>

definition decide_subject ::
  "(bytes \<Rightarrow> string) \<Rightarrow> (pyval \<Rightarrow> bytes) \<Rightarrow> desk \<Rightarrow> user_ctx \<Rightarrow> time \<Rightarrow> bool \<Rightarrow> string \<Rightarrow> bool \<Rightarrow> api_error + desk \<times> outcome" where
  "decide_subject sha dumps dk u now delivered i approve =
     andthen (require (wave_permission \<in> set (uc_perms u) \<or> ''*'' \<in> set (uc_perms u)) (Http 403 ''permission'')) (\<lambda>_.
     route_decision sha dumps dk u now delivered i (if approve then d_approved else d_denied))"

text \<open>The batch endpoint: a refusal is the answer for its item, any other exception ends the batch, and what earlier
  items changed is committed.\<close>

definition escapes :: "api_error \<Rightarrow> bool" where
  "escapes e = (case e of Http code _ \<Rightarrow> code = 500 | ScopeMisused \<Rightarrow> True)"

fun batch_items ::
  "(bytes \<Rightarrow> string) \<Rightarrow> (pyval \<Rightarrow> bytes) \<Rightarrow> user_ctx \<Rightarrow> time \<Rightarrow> (string \<Rightarrow> bool) \<Rightarrow> string \<Rightarrow> desk \<Rightarrow> string list
     \<Rightarrow> desk \<times> (api_error + (string \<times> (api_error + outcome)) list)" where
  "batch_items sha dumps u now delivered dec dk [] = (dk, Inr [])"
| "batch_items sha dumps u now delivered dec dk (i # is) =
     (case route_decision sha dumps dk u now (delivered i) i dec of
        Inr (dk', out) \<Rightarrow> (let (dk2, rest) = batch_items sha dumps u now delivered dec dk' is
          in (dk2, andthen rest (\<lambda>rs. Inr ((i, Inr out) # rs))))
      | Inl e \<Rightarrow> if escapes e then (dk, Inl e)
          else (let (dk2, rest) = batch_items sha dumps u now delivered dec dk is
            in (dk2, andthen rest (\<lambda>rs. Inr ((i, Inl e) # rs)))))"

definition batch_decide ::
  "(bytes \<Rightarrow> string) \<Rightarrow> (pyval \<Rightarrow> bytes) \<Rightarrow> desk \<Rightarrow> user_ctx \<Rightarrow> time \<Rightarrow> (string \<Rightarrow> bool) \<Rightarrow> string list \<Rightarrow> string
     \<Rightarrow> desk \<times> (api_error + (string \<times> (api_error + outcome)) list)" where
  "batch_decide sha dumps dk u now delivered is dec =
     (if wave_permission \<notin> set (uc_perms u) \<and> ''*'' \<notin> set (uc_perms u) then (dk, Inl (Http 403 ''permission''))
      else if dec \<noteq> d_approved \<and> dec \<noteq> d_denied then (dk, Inl (Http 400 ''decision''))
      else batch_items sha dumps u now delivered dec dk is)"

subsection \<open>Authority at dispatch\<close>

definition ranked_roles :: "string list" where
  "ranked_roles = [''platform_super_admin'', ''tenant_owner'', ''site_admin'', ''operator'', ''auditor'', ''viewer'']"

fun pick_role :: "string list \<Rightarrow> string list \<Rightarrow> string \<Rightarrow> string" where
  "pick_role roles [] fallback = fallback"
| "pick_role roles (c # cs) fallback = (if c \<in> set roles then c else pick_role roles cs fallback)"

definition role_basis :: "string list \<Rightarrow> string \<times> string list" where
  "role_basis roles = (let role = pick_role roles ranked_roles ''viewer''
     in (role, dget_or role_permissions_table role (dget_or role_permissions_table ''viewer'' [])))"

datatype basis_status = BasisResolved | PrincipalNotFound | PrincipalDisabled | Unresolvable

record current_basis =
  cb_status :: basis_status
  cb_role :: string
  cb_perms :: "string list"

definition no_basis :: "basis_status \<Rightarrow> current_basis" where
  "no_basis st = \<lparr>cb_status = st, cb_role = [], cb_perms = []\<rparr>"

text \<open>What the identity plane answers, if it does.\<close>

record identity_answer =
  ia_realm :: string
  ia_subject :: string
  ia_found :: bool
  ia_enabled :: bool
  ia_roles :: "string list option"

definition approver_current_basis :: "string \<Rightarrow> string \<Rightarrow> identity_answer option \<Rightarrow> current_basis" where
  "approver_current_basis realm subject answer =
     (if realm = [] \<or> subject = [] then no_basis Unresolvable
      else (case answer of None \<Rightarrow> no_basis Unresolvable
        | Some a \<Rightarrow>
            if ia_realm a \<noteq> realm \<or> ia_subject a \<noteq> subject then no_basis Unresolvable
            else if \<not> ia_found a then no_basis PrincipalNotFound
            else if \<not> ia_enabled a then no_basis PrincipalDisabled
            else (case ia_roles a of None \<Rightarrow> no_basis Unresolvable
              | Some rs \<Rightarrow> (let (role, perms) = role_basis rs in \<lparr>cb_status = BasisResolved, cb_role = role, cb_perms = perms\<rparr>))))"

definition approver_current_scope :: "authz \<Rightarrow> approval_record \<Rightarrow> current_basis \<Rightarrow> time \<Rightarrow> resolved_scope" where
  "approver_current_scope st r basis now =
     load_scope_as st (rc_approver r) (strip_text (rc_email r)) (if cb_status basis = BasisResolved then cb_perms basis else []) now"

datatype loss_cause = LostCurrentRole | LostScope | LostIdentity basis_status

record loss =
  ls_approver :: string
  ls_cause :: loss_cause
  ls_role :: string
  ls_uncovered :: nat

text \<open>One record: it still stands, or why its approver no longer counts.\<close>

definition judge_record ::
  "authz \<Rightarrow> time \<Rightarrow> authorized_target list \<Rightarrow> (string \<Rightarrow> current_basis) \<Rightarrow> approval_record \<Rightarrow> target_error + loss option" where
  "judge_record st now targets source r =
     (if rc_decision r \<noteq> d_approved then Inr None
      else (let basis = source (rc_approver r) in
        if cb_status basis \<noteq> BasisResolved
        then Inr (Some \<lparr>ls_approver = rc_approver r, ls_cause = LostIdentity (cb_status basis), ls_role = [],
               ls_uncovered = length targets\<rparr>)
        else (case uncovered_targets (approver_current_scope st r basis now) wave_permission targets of
            Inl e \<Rightarrow> Inl e
          | Inr [] \<Rightarrow> Inr None
          | Inr (d # ds) \<Rightarrow> Inr (Some \<lparr>ls_approver = rc_approver r,
               ls_cause = (if wave_permission \<notin> set (cb_perms basis) then LostCurrentRole else LostScope),
               ls_role = cb_role basis, ls_uncovered = length (d # ds)\<rparr>))))"

fun sort_records ::
  "authz \<Rightarrow> time \<Rightarrow> authorized_target list \<Rightarrow> (string \<Rightarrow> current_basis) \<Rightarrow> approval_record list
     \<Rightarrow> target_error + loss list \<times> approval_record list" where
  "sort_records st now targets source [] = Inr ([], [])"
| "sort_records st now targets source (r # rs) =
     (case judge_record st now targets source r of Inl e \<Rightarrow> Inl e
      | Inr fate \<Rightarrow> (case sort_records st now targets source rs of Inl e \<Rightarrow> Inl e
        | Inr (lost, standing) \<Rightarrow> (case fate of Some l \<Rightarrow> Inr (l # lost, standing) | None \<Rightarrow> Inr (lost, r # standing))))"

record wave_verdict =
  wo_ok :: bool
  wo_kind :: string
  wo_lost :: "loss list"
  wo_standing :: int
  wo_required :: int

definition revalidate_wave_authority ::
  "authz \<Rightarrow> time \<Rightarrow> authorized_target list \<Rightarrow> approval_record list \<Rightarrow> int \<Rightarrow> (string \<Rightarrow> current_basis) \<Rightarrow> target_error + wave_verdict" where
  "revalidate_wave_authority st now targets records needed source =
     (case sort_records st now targets source records of Inl e \<Rightarrow> Inl e
      | Inr (lost, standing) \<Rightarrow>
          (let block = evaluate_completion standing needed; ok = (bl_state block = StApproved)
           in Inr \<lparr>wo_ok = ok, wo_kind = (if ok then [] else ''authority_lost''), wo_lost = lost,
                wo_standing = bl_received block, wo_required = bl_required block\<rparr>))"

definition refused_wave :: "string \<Rightarrow> wave_verdict" where
  "refused_wave kind = \<lparr>wo_ok = False, wo_kind = kind, wo_lost = [], wo_standing = 0, wo_required = 0\<rparr>"

definition wave_dispatch_authority ::
  "(bytes \<Rightarrow> string) \<Rightarrow> (pyval \<Rightarrow> bytes) \<Rightarrow> desk \<Rightarrow> time \<Rightarrow> campaign_row \<Rightarrow> campaign_wave \<Rightarrow> (string \<Rightarrow> current_basis)
     \<Rightarrow> target_error + wave_verdict" where
  "wave_dispatch_authority sha dumps dk now c w source =
     (if \<not> wave_subject_matches sha dumps w then Inr (refused_wave ''subject_mismatch'')
      else (case wave_targets w (dk_fleet dk) of
          Inl (TargetRefused reason) \<Rightarrow> Inr (refused_wave reason)
        | Inl ScopeRaised \<Rightarrow> Inl ScopeRaised
        | Inr targets \<Rightarrow>
            (let (policy, grp, members, conflict) = governing_policy_for_targets dk (ca_action c) targets
             in if conflict \<noteq> [] then Inr (refused_wave ''policy_conflict'')
                else revalidate_wave_authority (dk_authz dk) now targets
                       (list_for_subject (dk_records dk) subject_wave (wv_subject w)) (required_approvers policy grp) source)))"

subsection \<open>Lemmas on one decision\<close>

lemma one_or_none_Inr: "one_or_none xs = Inr y \<longleftrightarrow> (xs = [] \<and> y = None) \<or> (\<exists>x. xs = [x] \<and> y = Some x)"
  by (auto simp: one_or_none_def split: list.splits)

lemma list_for_append [simp]:
  "list_for_subject (rs @ [n]) t ref = list_for_subject rs t ref @ (if rc_type n = t \<and> rc_subject n = ref then [n] else [])"
  by (simp add: list_for_subject_def)

lemma block_state [simp]:
  "bl_state (approval_block_of policy grp rs) = bl_state (evaluate_completion rs (required_approvers policy grp))"
  by (simp add: approval_block_of_def approval_block.defs)

lemma uncovered_none:
  "uncovered_targets s p ts = Inr [] \<longleftrightarrow> ts \<noteq> [] \<and> \<not> rs_scope_only s \<and>
     (\<forall>t \<in> set ts. permits s p (device_query (at_site t) (at_agent t) (at_class t)) = Inr True)"
  by (auto simp: uncovered_targets_def filter_empty_conv)

lemma wave_targets_Inr:
  assumes "wave_targets w rows = Inr ts"
  shows "map at_agent ts = sort (wv_devices w)" "ts \<noteq> []" "distinct (wv_devices w)" "\<forall>t \<in> set ts. at_site t = wv_site w"
proof -
  have ne: "wv_devices w \<noteq> []" and ts: "ts = map (\<lambda>d. \<lparr>at_agent = d, at_site = wv_site w,
      at_class = (case device_at_site rows (wv_site w) d of None \<Rightarrow> [] | Some r \<Rightarrow> fr_class r)\<rparr>) (sort (wv_devices w))"
    and "distinct (wv_devices w)"
    using assms by (auto simp: wave_targets_def split: if_splits)
  have "sort (wv_devices w) \<noteq> []" using ne by (metis length_0_conv length_sort)
  then show "map at_agent ts = sort (wv_devices w)" "ts \<noteq> []" "distinct (wv_devices w)" "\<forall>t \<in> set ts. at_site t = wv_site w"
    using \<open>distinct (wv_devices w)\<close> unfolding ts by (simp_all add: comp_def)
qed

lemma wave_targets_agents: "wave_targets w rows = Inr ts \<Longrightarrow> at_agent ` set ts = set (wv_devices w)"
  using wave_targets_Inr(1) by (metis set_map set_sort)

text \<open>The group rule, the policy and the scope rule of a decision.\<close>

definition decision_rules ::
  "desk \<Rightarrow> string \<Rightarrow> string \<Rightarrow> authorized_target list option
     \<Rightarrow> (approval_policy option \<times> approval_group option \<times> group_member list) option" where
  "decision_rules dk action device targets =
     (case targets of
        Some ts \<Rightarrow> (case governing_policy_for_targets dk action ts of (p, g, m, conflict) \<Rightarrow> if conflict \<noteq> [] then None else Some (p, g, m))
      | None \<Rightarrow> (case governing_policy dk action device of Inl _ \<Rightarrow> None | Inr pgm \<Rightarrow> Some pgm))"

definition may_decide :: "desk \<Rightarrow> resolved_scope \<Rightarrow> string \<Rightarrow> string \<Rightarrow> string \<Rightarrow> authorized_target list option \<Rightarrow> bool" where
  "may_decide dk s subject_type site device targets \<longleftrightarrow>
     (case targets of
        Some ts \<Rightarrow> ts \<noteq> [] \<and> (\<forall>t \<in> set ts. permits s wave_permission (device_query (at_site t) (at_agent t) (at_class t)) = Inr True)
      | None \<Rightarrow> if subject_type = subject_activation then permits s wave_permission tenant_query = Inr True
          else permits_owned s wave_permission site (resolve_in_fleet (dk_fleet dk) site device) = Inr True)"

definition ledger_record ::
  "user_ctx \<Rightarrow> time \<Rightarrow> string \<Rightarrow> string \<Rightarrow> string \<Rightarrow> approval_policy option \<Rightarrow> authorized_target list option \<Rightarrow> approval_record" where
  "ledger_record u now subject_type ref dec policy targets =
     \<lparr>rc_type = subject_type, rc_subject = ref, rc_approver = uc_id u, rc_email = actor_name u, rc_decision = dec,
      rc_policy = (case policy of None \<Rightarrow> [] | Some p \<Rightarrow> ap_id p), rc_scope_ok = True, rc_reason = [],
      rc_targets = (case targets of None \<Rightarrow> [] | Some ts \<Rightarrow> map at_agent ts)\<rparr>"

lemma ledger_record_simps [simp]:
  "rc_type (ledger_record u now t ref dec p ts) = t" "rc_subject (ledger_record u now t ref dec p ts) = ref"
  "rc_approver (ledger_record u now t ref dec p ts) = uc_id u" "rc_decision (ledger_record u now t ref dec p ts) = dec"
  "rc_scope_ok (ledger_record u now t ref dec p ts)"
  "rc_targets (ledger_record u now t ref dec p ts) = (case ts of None \<Rightarrow> [] | Some xs \<Rightarrow> map at_agent xs)"
  by (simp_all add: ledger_record_def)

lemma may_decide_scope:
  "(case targets of
      Some ts \<Rightarrow> (case uncovered_targets s wave_permission ts of Inl _ \<Rightarrow> Inl ScopeMisused
        | Inr missing \<Rightarrow> require (missing = []) (Http 403 ''outside_scope''))
    | None \<Rightarrow> andthen (single_target_in_scope dk s site device (t = subject_activation)) (\<lambda>b. require b (Http 403 ''outside_scope'')))
   = Inr x \<longleftrightarrow> may_decide dk s t site device targets"
proof (cases targets)
  case None
  then show ?thesis
    by (auto simp: may_decide_def single_target_in_scope_def andthen_eq_Inr split: sum.splits)
next
  case (Some ts)
  have "uncovered_targets s wave_permission ts = Inr [] \<longleftrightarrow> ts \<noteq> [] \<and>
      (\<forall>t \<in> set ts. permits s wave_permission (device_query (at_site t) (at_agent t) (at_class t)) = Inr True)"
    unfolding uncovered_none by (cases ts) (auto simp: permits_def)
  then show ?thesis unfolding Some may_decide_def by (cases "uncovered_targets s wave_permission ts") auto
qed

lemma andthen_triple: "andthen x (\<lambda>(a, b, c). f a b c) = Inr y \<longleftrightarrow> (\<exists>a b c. x = Inr (a, b, c) \<and> f a b c = Inr y)"
  by (auto simp: andthen_eq_Inr)

lemma andthen_pair: "andthen x (\<lambda>(a, b). f a b) = Inr y \<longleftrightarrow> (\<exists>a b. x = Inr (a, b) \<and> f a b = Inr y)"
  by (auto simp: andthen_eq_Inr)

lemma recorded:
  "record_and_evaluate dk u now t ref action device site dec targets = Inr (records, block) \<longleftrightarrow>
     (\<exists>p g m. decision_rules dk action device targets = Some (p, g, m) \<and>
        filter (\<lambda>r. rc_approver r = uc_id u) (list_for_subject (dk_records dk) t ref) = [] \<and>
        (g = None \<or> is_member m (uc_id u) (uc_email u)) \<and> may_decide dk (load_scope (dk_authz dk) u now) t site device targets \<and>
        records = dk_records dk @ [ledger_record u now t ref dec p targets] \<and>
        block = approval_block_of p g (list_for_subject records t ref))"
proof -
  have r: "(case targets of
          Some ts \<Rightarrow> (let (policy, grp, members, conflict) = governing_policy_for_targets dk action ts
             in if conflict \<noteq> [] then Inl (Http 409 ''policy_conflict'') else Inr (policy, grp, members))
        | None \<Rightarrow> governing_policy dk action device) = Inr pgm \<longleftrightarrow> decision_rules dk action device targets = Some pgm" for pgm
    by (auto simp: decision_rules_def split: option.splits sum.splits prod.splits)
  show ?thesis
    unfolding record_and_evaluate_def Let_def andthen_triple r [unfolded Let_def]
    unfolding andthen_eq_Inr may_decide_scope get_by_approver_def one_or_none_Inr ledger_record_def actor_name_def
    by (rule iffI; elim exE conjE; simp) auto
qed

subsection \<open>Decisions over time\<close>

abbreviation denied_in where "denied_in rs t ref \<equiv> \<exists>x \<in> set (list_for_subject rs t ref). rc_decision x = d_denied"

definition route_ok :: "approval_record list \<Rightarrow> approval_route \<Rightarrow> bool" where
  "route_ok rs r \<longleftrightarrow>
     (case rt_decision r of None \<Rightarrow> \<not> denied_in rs subject_action (rt_action_id r)
      | Some d \<Rightarrow> (d = d_denied \<and> denied_in rs subject_action (rt_action_id r)) \<or>
          (d = d_approved \<and> \<not> denied_in rs subject_action (rt_action_id r) \<and>
           approvers_of (list_for_subject rs subject_action (rt_action_id r)) \<noteq> {}))"

abbreviation ledger_key where "ledger_key r \<equiv> (rc_type r, rc_subject r, rc_approver r)"

definition desk_ok :: "desk \<Rightarrow> bool" where
  "desk_ok dk \<longleftrightarrow> distinct (map rt_action_id (dk_routes dk)) \<and> distinct (map ledger_key (dk_records dk)) \<and>
     (\<forall>x \<in> set (dk_records dk). rc_type x = subject_action \<longrightarrow> rc_subject x \<in> rt_action_id ` set (dk_routes dk)) \<and>
     (\<forall>r \<in> set (dk_routes dk). route_ok (dk_records dk) r)"

lemma subject_types [simp]: "subject_wave \<noteq> subject_action" "subject_activation \<noteq> subject_action" "subject_wave \<noteq> subject_activation"
  "subject_action \<noteq> subject_wave" "subject_action \<noteq> subject_activation" "subject_activation \<noteq> subject_wave" "d_approved \<noteq> d_denied"
  "d_denied \<noteq> d_approved"
  by (simp_all add: subject_wave_def subject_action_def subject_activation_def d_approved_def d_denied_def)

text \<open>What a call to the endpoints can do: a decision recorded on an undecided route, or on something else.\<close>

inductive decision_effect :: "desk \<Rightarrow> user_ctx \<Rightarrow> string \<Rightarrow> desk \<Rightarrow> bool" for dk u dec where
  on_action: "r \<in> set (dk_routes dk) \<Longrightarrow> rt_decision r = None \<Longrightarrow>
    record_and_evaluate dk u now subject_action (rt_action_id r) (rt_type r) (rt_device r) (rt_site r) dec None = Inr (records, block) \<Longrightarrow>
    (case conclude dec block of Pending b \<Rightarrow> rs = dk_routes dk
      | Decided d b \<Rightarrow> rs = map (\<lambda>x. if rt_action_id x = rt_action_id r then f x else x) (dk_routes dk) \<and>
          (\<forall>x. rt_action_id (f x) = rt_action_id x \<and> rt_type (f x) = rt_type x \<and> rt_device (f x) = rt_device x \<and>
             rt_decision (f x) = Some d)) \<Longrightarrow>
    decision_effect dk u dec (dk\<lparr>dk_records := records, dk_routes := rs\<rparr>)"
| on_other: "record_and_evaluate dk u now t ref action device site dec targets = Inr (records, block) \<Longrightarrow> t \<noteq> subject_action \<Longrightarrow>
    decision_effect dk u dec (dk\<lparr>dk_records := records, dk_waves := ws\<rparr>)"

lemma decide_waveD:
  assumes "decide_wave sha dumps dk u now ref dec = Inr (dk', out)"
  obtains w c ts records block where "w \<in> set (dk_waves dk)" "wv_subject w = ref" "wave_subject_matches sha dumps w"
    "c \<in> set (dk_campaigns dk)" "ca_id c = wv_campaign w" "wv_version w = ca_version c"
    "wave_targets w (filter (\<lambda>r. fr_site r = wv_site w) (dk_fleet dk)) = Inr ts"
    "record_and_evaluate dk u now subject_wave ref (ca_action c) [] (wv_site w) dec (Some ts) = Inr (records, block)"
    "(case conclude dec block of Pending b \<Rightarrow> dk' = dk\<lparr>dk_records := records\<rparr> \<and> out = Pending b
      | Decided d b \<Rightarrow> out = Decided d b \<and> dk' = dk\<lparr>dk_records := records, dk_waves := map (\<lambda>x. if wv_subject x = ref
               then x\<lparr>wv_status := (if d = d_approved then ''approved'' else ''denied''), wv_decided_by := actor_name u\<rparr> else x)
               (dk_waves dk)\<rparr>)"
proof -
  obtain found where f: "one_or_none (filter (\<lambda>w. wv_subject w = ref) (dk_waves dk)) = Inr found" and "found \<noteq> None"
    using assms unfolding decide_wave_def andthen_eq_Inr by (auto split: option.splits)
  then obtain w where w: "one_or_none (filter (\<lambda>w. wv_subject w = ref) (dk_waves dk)) = Inr (Some w)" by blast
  then have "filter (\<lambda>w. wv_subject w = ref) (dk_waves dk) = [w]" by (auto simp: one_or_none_Inr)
  then have in_w: "w \<in> set (dk_waves dk)" "wv_subject w = ref" by (auto simp: filter_eq_Cons_iff)
  obtain c where c: "find (\<lambda>c. ca_id c = wv_campaign w) (dk_campaigns dk) = Some c"
    using assms by (cases "find (\<lambda>c. ca_id c = wv_campaign w) (dk_campaigns dk)") (auto simp: decide_wave_def w)
  note a = assms [unfolded decide_wave_def w andthen_Inr option.case c Let_def]
  obtain ts where ts: "wave_targets w (filter (\<lambda>r. fr_site r = wv_site w) (dk_fleet dk)) = Inr ts"
    using a by (cases "wave_targets w (filter (\<lambda>r. fr_site r = wv_site w) (dk_fleet dk))") (auto simp: andthen_eq_Inr)
  note a = a [unfolded ts sum.case andthen_Inr]
  obtain records block where m: "wave_subject_matches sha dumps w" "wv_version w = ca_version c"
    and re: "record_and_evaluate dk u now subject_wave ref (ca_action c) [] (wv_site w) dec (Some ts) = Inr (records, block)"
    and o: "(case conclude dec block of
             Pending b \<Rightarrow> Inr (dk\<lparr>dk_records := records\<rparr>, Pending b)
           | Decided d b \<Rightarrow> Inr (dk\<lparr>dk_records := records, dk_waves := map (\<lambda>x. if wv_subject x = ref
               then x\<lparr>wv_status := (if d = d_approved then ''approved'' else ''denied''), wv_decided_by := actor_name u\<rparr> else x)
               (dk_waves dk)\<rparr>, Decided d b)) = (Inr (dk', out) :: api_error + desk \<times> outcome)"
    using a by (auto simp: andthen_eq_Inr)
  show thesis
    by (rule that [OF in_w m(1) _ _ m(2) ts re]) (use find_SomeD [OF c] o in \<open>auto split: outcome.splits\<close>)
qed

lemma decide_wave_effect:
  assumes "decide_wave sha dumps dk u now ref dec = Inr (dk', out)"
  shows "decision_effect dk u dec dk'"
  using assms
proof (cases rule: decide_waveD)
  case (1 w c ts records block)
  have "\<exists>ws. dk' = dk\<lparr>dk_records := records, dk_waves := ws\<rparr>"
  proof (cases "conclude dec block")
    case (Pending b)
    then have "dk' = dk\<lparr>dk_records := records, dk_waves := dk_waves dk\<rparr>" using 1(9) by simp
    then show ?thesis by blast
  qed (use 1(9) in auto)
  then obtain ws where dk': "dk' = dk\<lparr>dk_records := records, dk_waves := ws\<rparr>" by blast
  show ?thesis unfolding dk' by (rule on_other [OF 1(8)]) simp
qed

lemma decide_activation_effect:
  assumes "decide_activation dk u now ref dec = Inr (Some (dk', out))"
  shows "decision_effect dk u dec dk'"
proof -
  obtain records block where re: "record_and_evaluate dk u now subject_activation ref [] [] [] dec None = Inr (records, block)"
    and dk': "dk' = dk\<lparr>dk_records := records, dk_waves := dk_waves dk\<rparr>"
    using assms by (auto simp: decide_activation_def andthen_pair split: option.splits)
  show ?thesis unfolding dk' by (rule on_other [OF re]) simp
qed

lemma decide_actionD:
  assumes "decide_action dk u now delivered r dec = Inr (dk', out)"
  obtains records block where "rt_decision r = None"
    "record_and_evaluate dk u now subject_action (rt_action_id r) (rt_type r) (rt_device r) (rt_site r) dec None = Inr (records, block)"
    "(case conclude dec block of Pending b \<Rightarrow> dk' = dk\<lparr>dk_records := records, dk_routes := dk_routes dk\<rparr> \<and> out = Pending b
      | Decided d b \<Rightarrow> out = Decided d b \<and> dk' = dk\<lparr>dk_records := records, dk_routes := map (\<lambda>x. if rt_action_id x = rt_action_id r
          then x\<lparr>rt_decision := Some d, rt_decided_by := actor_name u, rt_delivered := (delivered \<or> rt_delivered x)\<rparr> else x)
          (dk_routes dk)\<rparr>)"
proof -
  obtain records block where n: "rt_decision r = None"
    and re: "record_and_evaluate dk u now subject_action (rt_action_id r) (rt_type r) (rt_device r) (rt_site r) dec None = Inr (records, block)"
    and o: "(let dk1 = dk\<lparr>dk_records := records\<rparr> in
     (case conclude dec block of
        Pending b \<Rightarrow> Inr (dk1, Pending b)
      | Decided d b \<Rightarrow> Inr (dk1\<lparr>dk_routes := map (\<lambda>x. if rt_action_id x = rt_action_id r
          then x\<lparr>rt_decision := Some d, rt_decided_by := actor_name u, rt_delivered := (delivered \<or> rt_delivered x)\<rparr> else x)
          (dk_routes dk)\<rparr>, Decided d b))) = (Inr (dk', out) :: api_error + desk \<times> outcome)"
    using assms by (auto simp: decide_action_def andthen_eq_Inr)
  have c: "(case conclude dec block of Pending b \<Rightarrow> dk' = dk\<lparr>dk_records := records, dk_routes := dk_routes dk\<rparr> \<and> out = Pending b
      | Decided d b \<Rightarrow> out = Decided d b \<and> dk' = dk\<lparr>dk_records := records, dk_routes := map (\<lambda>x. if rt_action_id x = rt_action_id r
          then x\<lparr>rt_decision := Some d, rt_decided_by := actor_name u, rt_delivered := (delivered \<or> rt_delivered x)\<rparr> else x)
          (dk_routes dk)\<rparr>)"
  proof (cases "conclude dec block")
    case (Pending b)
    have eq: "dk\<lparr>dk_records := records, dk_routes := dk_routes dk\<rparr> = dk\<lparr>dk_records := records\<rparr>" by (cases dk) simp
    have "dk' = dk\<lparr>dk_records := records\<rparr>" "out = Pending b" using o unfolding Pending Let_def by simp_all
    then show ?thesis unfolding Pending eq by simp
  next
    case (Decided d b)
    show ?thesis using o unfolding Decided Let_def unfolding Let_def by (simp only: outcome.case sum.inject prod.inject) (elim conjE; hypsubst; simp)
  qed
  show thesis by (rule that [OF n re c])
qed

lemma decide_action_effect:
  assumes "decide_action dk u now delivered r dec = Inr (dk', out)" and "r \<in> set (dk_routes dk)"
  shows "decision_effect dk u dec dk'"
  using assms(1)
proof (cases rule: decide_actionD)
  case (1 records block)
  show ?thesis
  proof (cases "conclude dec block")
    case (Pending b)
    then have dk': "dk' = dk\<lparr>dk_records := records, dk_routes := dk_routes dk\<rparr>" using 1(3) by simp
    show ?thesis unfolding dk' by (rule on_action [OF assms(2) 1(1,2)]) (simp add: Pending)
  next
    case (Decided d b)
    let ?f = "\<lambda>x. x\<lparr>rt_decision := Some d, rt_decided_by := actor_name u, rt_delivered := (delivered \<or> rt_delivered x)\<rparr>"
    have dk': "dk' = dk\<lparr>dk_records := records, dk_routes := map (\<lambda>x. if rt_action_id x = rt_action_id r then ?f x else x) (dk_routes dk)\<rparr>"
      using 1(3) Decided by simp
    show ?thesis unfolding dk' by (rule on_action [OF assms(2) 1(1,2), where f = ?f]) (simp add: Decided)
  qed
qed

lemma decide_effect:
  assumes "decide_subject sha dumps dk u now delivered i approve = Inr (dk', out)"
  shows "decision_effect dk u (if approve then d_approved else d_denied) dk'"
proof -
  let ?dec = "if approve then d_approved else d_denied"
  obtain found where f: "one_or_none (filter (\<lambda>r. rt_action_id r = i) (dk_routes dk)) = Inr found"
    and c: "(case found of Some r \<Rightarrow> decide_action dk u now delivered r ?dec
      | None \<Rightarrow> andthen (decide_activation dk u now i ?dec) (\<lambda>done'.
         case done' of Some res \<Rightarrow> Inr res | None \<Rightarrow> decide_wave sha dumps dk u now i ?dec)) = Inr (dk', out)"
    using assms by (auto simp: decide_subject_def route_decision_def andthen_eq_Inr)
  show ?thesis
  proof (cases found)
    case (Some r)
    then have "filter (\<lambda>r. rt_action_id r = i) (dk_routes dk) = [r]" using f by (auto simp: one_or_none_Inr)
    then have "r \<in> set (dk_routes dk)" by (metis filter_is_subset list.set_intros(1) subsetD)
    then show ?thesis using c Some decide_action_effect by simp
  next
    case None
    then obtain done' where "decide_activation dk u now i ?dec = Inr done'"
      "(case done' of Some res \<Rightarrow> Inr res | None \<Rightarrow> decide_wave sha dumps dk u now i ?dec) = Inr (dk', out)"
      using c by (auto simp: andthen_eq_Inr)
    then show ?thesis by (cases done') (auto intro: decide_activation_effect decide_wave_effect)
  qed
qed

lemma recordedD:
  assumes "record_and_evaluate dk u now t ref action device site dec targets = Inr (records, block)"
  obtains p g m new where "new = ledger_record u now t ref dec p targets" "records = dk_records dk @ [new]"
    "block = approval_block_of p g (list_for_subject records t ref)" "ledger_key new \<notin> ledger_key ` set (dk_records dk)"
    "decision_rules dk action device targets = Some (p, g, m)"
    "g = None \<or> is_member m (uc_id u) (uc_email u)" "may_decide dk (load_scope (dk_authz dk) u now) t site device targets"
proof -
  obtain p g m where "decision_rules dk action device targets = Some (p, g, m)"
    and f: "filter (\<lambda>r. rc_approver r = uc_id u) (list_for_subject (dk_records dk) t ref) = []"
    and "g = None \<or> is_member m (uc_id u) (uc_email u)" "may_decide dk (load_scope (dk_authz dk) u now) t site device targets"
    "records = dk_records dk @ [ledger_record u now t ref dec p targets]"
    "block = approval_block_of p g (list_for_subject records t ref)"
    using assms unfolding recorded by blast
  moreover have "ledger_key (ledger_record u now t ref dec p targets) \<notin> ledger_key ` set (dk_records dk)"
    using f by (auto simp: filter_empty_conv list_for_subject_def)
  ultimately show thesis using that [of "ledger_record u now t ref dec p targets" p g m] by blast
qed

lemma approvers_append:
  "approvers_of (rs @ [n]) = (if rc_decision n = d_approved \<and> rc_scope_ok n then insert (rc_approver n) (approvers_of rs) else approvers_of rs)"
  by (auto simp: approvers_of_def)

lemma route_ok_other: "rt_action_id r \<noteq> rc_subject n \<or> rc_type n \<noteq> subject_action \<Longrightarrow> route_ok (rs @ [n]) r \<longleftrightarrow> route_ok rs r"
  by (auto simp: route_ok_def split: option.splits)

lemma conclude_cases:
  assumes n: "n = ledger_record u now subject_action i dec p None" "dec = d_approved \<or> dec = d_denied"
    and o: "\<not> denied_in rs subject_action i"
    and b: "block = approval_block_of p g (list_for_subject (rs @ [n]) subject_action i)"
  shows "case conclude dec block of
      Pending _ \<Rightarrow> \<not> denied_in (rs @ [n]) subject_action i
    | Decided d _ \<Rightarrow> (d = d_denied \<and> denied_in (rs @ [n]) subject_action i) \<or>
        (d = d_approved \<and> \<not> denied_in (rs @ [n]) subject_action i \<and> approvers_of (list_for_subject (rs @ [n]) subject_action i) \<noteq> {})"
proof -
  have l: "list_for_subject (rs @ [n]) subject_action i = list_for_subject rs subject_action i @ [n]" by (simp add: n(1))
  have d: "denied_in (rs @ [n]) subject_action i \<longleftrightarrow> dec = d_denied" using o unfolding l by (auto simp: n(1))
  have st: "bl_state block = (if dec = d_denied then StDenied
      else if max 1 (required_approvers p g) \<le> int (card (approvers_of (list_for_subject rs subject_action i @ [n]))) then StApproved else StPending)"
    unfolding b block_state completion_by_people using d unfolding l by simp
  show ?thesis
    using n(2) o unfolding conclude_def st d l approvers_append by (auto simp: n(1))
qed

lemma decision_effect_ok:
  assumes "decision_effect dk u dec dk'" and ok: "desk_ok dk" and dec: "dec = d_approved \<or> dec = d_denied"
  shows "desk_ok dk'" "r0 \<in> set (dk_routes dk) \<Longrightarrow> rt_decision r0 = Some d \<Longrightarrow> r0 \<in> set (dk_routes dk') \<and>
      list_for_subject (dk_records dk') subject_action (rt_action_id r0) = list_for_subject (dk_records dk) subject_action (rt_action_id r0)"
proof -
  have "desk_ok dk' \<and> (\<forall>r0 d. r0 \<in> set (dk_routes dk) \<and> rt_decision r0 = Some d \<longrightarrow> r0 \<in> set (dk_routes dk') \<and>
      list_for_subject (dk_records dk') subject_action (rt_action_id r0) = list_for_subject (dk_records dk) subject_action (rt_action_id r0))"
    using assms(1)
  proof cases
    case (on_other now t ref action device site targets records block ws)
    obtain p n where n: "n = ledger_record u now t ref dec p targets" "records = dk_records dk @ [n]"
      "ledger_key n \<notin> ledger_key ` set (dk_records dk)" using on_other(2) by (rule recordedD)
    have "route_ok records r \<longleftrightarrow> route_ok (dk_records dk) r" for r
      unfolding n(2) using on_other(3) by (intro route_ok_other) (simp add: n(1))
    then show ?thesis unfolding on_other(1) using ok n on_other(3) by (auto simp: desk_ok_def)
  next
    case (on_action r now records block rs f)
    let ?i = "rt_action_id r"
    obtain p g n where n: "n = ledger_record u now subject_action ?i dec p None" "records = dk_records dk @ [n]"
      "block = approval_block_of p g (list_for_subject records subject_action ?i)"
      "ledger_key n \<notin> ledger_key ` set (dk_records dk)" using on_action(4) by (rule recordedD)
    have uniq: "x = r" if "x \<in> set (dk_routes dk)" "rt_action_id x = ?i" for x
      using ok that on_action(2) unfolding desk_ok_def distinct_map by (blast dest: inj_onD)
    have nd: "\<not> denied_in (dk_records dk) subject_action ?i"
      using ok on_action(2,3) by (auto simp: desk_ok_def route_ok_def)
    note cc = conclude_cases [OF n(1) dec nd n(3) [unfolded n(2)]]
    have same: "route_ok records x \<longleftrightarrow> route_ok (dk_records dk) x" if "rt_action_id x \<noteq> ?i" for x
      unfolding n(2) using that by (intro route_ok_other) (simp add: n(1))
    have ids: "map rt_action_id rs = map rt_action_id (dk_routes dk)"
      using on_action(5) by (cases "conclude dec block") (auto simp: comp_def)
    have new_ok: "route_ok records x" if x: "x \<in> set rs" for x
    proof (cases "rt_action_id x = ?i")
      case False
      have "x \<in> set (dk_routes dk)" using x False on_action(5) by (cases "conclude dec block") (auto split: if_splits)
      then show ?thesis using same [OF False] ok by (simp add: desk_ok_def)
    next
      case True
      show ?thesis
      proof (cases "conclude dec block")
        case (Pending b)
        then have "x = r" using x True on_action(5) uniq by simp
        then show ?thesis using cc Pending on_action(3) unfolding n(2) by (simp add: route_ok_def)
      next
        case (Decided d b)
        then have "rt_decision x = Some d" using x True on_action(5) by (auto split: if_splits)
        then show ?thesis using cc Decided True unfolding n(2) by (simp add: route_ok_def)
      qed
    qed
    have "desk_ok dk'"
    proof -
      have img: "rt_action_id ` set rs = rt_action_id ` set (dk_routes dk)" using arg_cong [OF ids, of set] by simp
      show ?thesis
        unfolding on_action(1) desk_ok_def using ok ids n(1,2,4) new_ok on_action(2) img by (simp add: desk_ok_def)
    qed
    moreover have "r0 \<in> set rs \<and> list_for_subject records subject_action (rt_action_id r0) = list_for_subject (dk_records dk) subject_action (rt_action_id r0)"
      if r0: "r0 \<in> set (dk_routes dk)" "rt_decision r0 = Some d" for r0 d
    proof -
      have "rt_action_id r0 \<noteq> ?i" using uniq [OF r0(1)] r0(2) on_action(3) by auto
      then show ?thesis using r0(1) on_action(5) n by (cases "conclude dec block") (auto simp: image_iff intro!: bexI [of _ r0])
    qed
    ultimately show ?thesis unfolding on_action(1) by simp
  qed
  then show "desk_ok dk'" "r0 \<in> set (dk_routes dk) \<Longrightarrow> rt_decision r0 = Some d \<Longrightarrow> r0 \<in> set (dk_routes dk') \<and>
      list_for_subject (dk_records dk') subject_action (rt_action_id r0) = list_for_subject (dk_records dk) subject_action (rt_action_id r0)"
    by blast+
qed

text \<open>Anybody decides anything at any time; the poller adds routes; everything else changes as it likes.\<close>

inductive desk_step :: "(bytes \<Rightarrow> string) \<Rightarrow> (pyval \<Rightarrow> bytes) \<Rightarrow> desk \<Rightarrow> desk \<Rightarrow> bool" for sha dumps where
  decided: "decide_subject sha dumps dk u now delivered i approve = Inr (dk', out) \<Longrightarrow> desk_step sha dumps dk dk'"
| routed: "rt_action_id r \<notin> rt_action_id ` set (dk_routes dk) \<Longrightarrow> rt_decision r = None \<Longrightarrow>
    desk_step sha dumps dk (dk\<lparr>dk_routes := dk_routes dk @ [r]\<rparr>)"
| changed: "dk_records dk' = dk_records dk \<Longrightarrow> dk_routes dk' = dk_routes dk \<Longrightarrow> desk_step sha dumps dk dk'"

text \<open>A batch is a run of single decisions, so everything shown about runs holds for batches.\<close>

lemma batch_is_a_run: "(desk_step sha dumps)\<^sup>*\<^sup>* dk (fst (batch_decide sha dumps dk u now delivered is dec))"
proof -
  have "(desk_step sha dumps)\<^sup>*\<^sup>* dk (fst (batch_items sha dumps u now delivered dec dk is))"
    if p: "wave_permission \<in> set (uc_perms u) \<or> ''*'' \<in> set (uc_perms u)" and d: "dec = d_approved \<or> dec = d_denied"
  proof (induction "is" arbitrary: dk)
    case (Cons i "is")
    show ?case
    proof (cases "route_decision sha dumps dk u now (delivered i) i dec")
      case (Inl e)
      then show ?thesis using Cons.IH [of dk] by (auto split: prod.splits)
    next
      case (Inr res)
      obtain dk' out where res: "res = (dk', out)" by (cases res)
      have "decide_subject sha dumps dk u now (delivered i) i (dec = d_approved) = Inr (dk', out)"
        using Inr p d unfolding res decide_subject_def by (auto simp: require_def)
      then have "desk_step sha dumps dk dk'" by (rule decided)
      then show ?thesis using Inr res Cons.IH [of dk'] by (auto split: prod.splits intro: converse_rtranclp_into_rtranclp)
    qed
  qed simp
  then show ?thesis by (simp add: batch_decide_def)
qed

lemma desk_step_ok:
  assumes "desk_step sha dumps dk dk'" "desk_ok dk"
  shows "desk_ok dk' \<and> (\<forall>r0 d. r0 \<in> set (dk_routes dk) \<and> rt_decision r0 = Some d \<longrightarrow> r0 \<in> set (dk_routes dk') \<and>
      list_for_subject (dk_records dk') subject_action (rt_action_id r0) = list_for_subject (dk_records dk) subject_action (rt_action_id r0))"
  using assms
proof cases
  case (decided u now delivered i approve out)
  have "(if approve then d_approved else d_denied) = d_approved \<or> (if approve then d_approved else d_denied) = d_denied" by simp
  from decision_effect_ok [OF decide_effect [OF decided] assms(2) this] show ?thesis by blast
next
  case (routed r)
  have "list_for_subject (dk_records dk) subject_action (rt_action_id r) = []"
    unfolding list_for_subject_def filter_empty_conv
  proof (intro ballI notI)
    fix x assume "x \<in> set (dk_records dk)" "rc_type x = subject_action \<and> rc_subject x = rt_action_id r"
    moreover from this have "rc_subject x \<in> rt_action_id ` set (dk_routes dk)" using assms(2) unfolding desk_ok_def by blast
    ultimately show False using routed(2) by simp
  qed
  then have "route_ok (dk_records dk) r" using routed(3) by (simp add: route_ok_def)
  then show ?thesis using assms(2) routed by (auto simp: desk_ok_def)
next
  case changed
  then show ?thesis using assms(2) by (simp add: desk_ok_def)
qed

lemma desk_steps_ok:
  assumes "(desk_step sha dumps)\<^sup>*\<^sup>* dk dk'" "desk_ok dk"
  shows "desk_ok dk' \<and> (\<forall>r0 d. r0 \<in> set (dk_routes dk) \<and> rt_decision r0 = Some d \<longrightarrow> r0 \<in> set (dk_routes dk') \<and>
      list_for_subject (dk_records dk') subject_action (rt_action_id r0) = list_for_subject (dk_records dk) subject_action (rt_action_id r0))"
  using assms
proof (induction rule: rtranclp_induct)
  case (step y z)
  then have y: "desk_ok y" by blast
  note z = desk_step_ok [OF step.hyps(2) y]
  show ?case
  proof (intro conjI allI impI)
    show "desk_ok z" using z by blast
    fix r0 d assume r0: "r0 \<in> set (dk_routes dk) \<and> rt_decision r0 = Some d"
    then have 1: "r0 \<in> set (dk_routes y)" "list_for_subject (dk_records y) subject_action (rt_action_id r0) =
        list_for_subject (dk_records dk) subject_action (rt_action_id r0)" using step.IH [OF step.prems] by blast+
    then show "r0 \<in> set (dk_routes z)" using z r0 by blast
    have "list_for_subject (dk_records z) subject_action (rt_action_id r0) =
        list_for_subject (dk_records y) subject_action (rt_action_id r0)" using z 1(1) r0 by blast
    then show "list_for_subject (dk_records z) subject_action (rt_action_id r0) =
        list_for_subject (dk_records dk) subject_action (rt_action_id r0)" using 1(2) by simp
  qed
qed simp

lemma conclude_approved:
  assumes "conclude dec block = Decided d_approved b" "block = approval_block_of p g rs" "dec = d_approved \<or> dec = d_denied"
  shows "int (card (approvers_of rs)) \<ge> required_approvers p g" "\<forall>x \<in> set rs. rc_decision x \<noteq> d_denied"
proof -
  have "bl_state (evaluate_completion rs (required_approvers p g)) = StApproved"
    using assms(1) unfolding assms(2) conclude_def block_state by (simp split: approval_state.splits)
  then show "int (card (approvers_of rs)) \<ge> required_approvers p g" "\<forall>x \<in> set rs. rc_decision x \<noteq> d_denied"
    unfolding completion_by_people by (auto split: if_splits)
qed

text \<open>A history of the queue: the desk at first and after every step.\<close>

inductive desk_trace :: "(bytes \<Rightarrow> string) \<Rightarrow> (pyval \<Rightarrow> bytes) \<Rightarrow> desk list \<Rightarrow> bool" for sha dumps where
  opened: "desk_trace sha dumps [dk]"
| stepped: "desk_trace sha dumps ds \<Longrightarrow> desk_step sha dumps (last ds) dk \<Longrightarrow> desk_trace sha dumps (ds @ [dk])"

lemma desk_trace_run: "desk_trace sha dumps ds \<Longrightarrow> ds \<noteq> [] \<and> (desk_step sha dumps)\<^sup>*\<^sup>* (hd ds) (last ds)"
proof (induction rule: desk_trace.induct)
  case (stepped ds dk)
  then have "(desk_step sha dumps)\<^sup>*\<^sup>* (hd ds) dk" by (meson rtranclp.rtrancl_into_rtrancl)
  then show ?case using stepped by simp
qed simp

text \<open>Step \<open>i\<close> of a history approved the action of the route \<open>r\<close>: the action was open before, its row is \<open>r\<close> after, and
  \<open>n\<close> people are enough for the policy that governed the action at that step.\<close>

definition approved_at :: "desk list \<Rightarrow> approval_route \<Rightarrow> int \<Rightarrow> nat \<Rightarrow> bool" where
  "approved_at ds r n i \<longleftrightarrow> Suc i < length ds \<and> r \<in> set (dk_routes (ds ! Suc i)) \<and>
     (\<exists>r0 \<in> set (dk_routes (ds ! i)). rt_action_id r0 = rt_action_id r \<and> rt_decision r0 = None) \<and>
     (\<exists>p g m. governing_policy (ds ! i) (rt_type r) (rt_device r) = Inr (p, g, m) \<and> required_approvers p g \<le> n)"

abbreviation approver_count where
  "approver_count rs i \<equiv> int (card (approvers_of (list_for_subject rs subject_action i)))"

lemma newly_approved:
  assumes "desk_step sha dumps dk dk'" "desk_ok dk" "r \<in> set (dk_routes dk')" "r \<notin> set (dk_routes dk)" "rt_decision r = Some d_approved"
  shows "(\<exists>r0 \<in> set (dk_routes dk). rt_action_id r0 = rt_action_id r \<and> rt_decision r0 = None) \<and>
    (\<exists>p g m. governing_policy dk (rt_type r) (rt_device r) = Inr (p, g, m) \<and>
       required_approvers p g \<le> approver_count (dk_records dk') (rt_action_id r))"
  using assms(1)
proof cases
  case (decided u now delivered i approve out)
  let ?dec = "if approve then d_approved else d_denied"
  from decide_effect [OF decided] show ?thesis
  proof cases
    case (on_other now t ref action device site targets records block ws)
    then show ?thesis using assms(3,4) by simp
  next
    case (on_action r0 now records block rs f)
    obtain d b where cd: "conclude ?dec block = Decided d b"
      using on_action(1,5) assms(3,4) by (cases "conclude ?dec block") auto
    have rs: "rs = map (\<lambda>x. if rt_action_id x = rt_action_id r0 then f x else x) (dk_routes dk)"
      and f: "\<And>x. rt_action_id (f x) = rt_action_id x \<and> rt_type (f x) = rt_type x \<and> rt_device (f x) = rt_device x \<and> rt_decision (f x) = Some d"
      using on_action(5) unfolding cd by auto
    obtain x where x: "x \<in> set (dk_routes dk)" "rt_action_id x = rt_action_id r0" "r = f x"
      using assms(3,4) on_action(1) rs by (auto split: if_splits)
    have "x = r0" using assms(2) x(1,2) on_action(2) unfolding desk_ok_def distinct_map by (blast dest: inj_onD)
    then have r: "rt_action_id r = rt_action_id r0" "rt_type r = rt_type r0" "rt_device r = rt_device r0" "d = d_approved"
      using f [of x] x(3) assms(5) by simp_all
    from on_action(4) obtain p g m where b: "block = approval_block_of p g (list_for_subject records subject_action (rt_action_id r0))"
      and dr: "decision_rules dk (rt_type r0) (rt_device r0) None = Some (p, g, m)" by (rule recordedD)
    have "required_approvers p g \<le> approver_count records (rt_action_id r0)"
      by (rule conclude_approved(1) [OF cd [unfolded r(4)] b]) simp
    moreover have "governing_policy dk (rt_type r0) (rt_device r0) = Inr (p, g, m)"
      using dr by (auto simp: decision_rules_def split: sum.splits)
    ultimately show ?thesis using on_action(1-3) r(1-3) by auto
  qed
qed (use assms in auto)

lemma trace_approved:
  assumes "desk_trace sha dumps ds" "dk_records (hd ds) = []" "dk_routes (hd ds) = []"
  shows "desk_ok (last ds) \<and> (\<forall>r \<in> set (dk_routes (last ds)). rt_decision r = Some d_approved \<longrightarrow>
    (\<exists>i. approved_at ds r (approver_count (dk_records (last ds)) (rt_action_id r)) i))"
  using assms
proof (induction rule: desk_trace.induct)
  case (stepped ds dk)
  have ne: "ds \<noteq> []" using desk_trace_run [OF stepped.hyps(1)] by blast
  then have start: "dk_records (hd ds) = []" "dk_routes (hd ds) = []" using stepped.prems by simp_all
  have ok: "desk_ok (last ds)" and IH: "\<forall>r \<in> set (dk_routes (last ds)). rt_decision r = Some d_approved \<longrightarrow>
      (\<exists>i. approved_at ds r (approver_count (dk_records (last ds)) (rt_action_id r)) i)" using stepped.IH start by simp_all
  note k = desk_step_ok [OF stepped.hyps(2) ok]
  have "\<exists>i. approved_at (ds @ [dk]) r (approver_count (dk_records dk) (rt_action_id r)) i"
    if r: "r \<in> set (dk_routes dk)" "rt_decision r = Some d_approved" for r
  proof (cases "r \<in> set (dk_routes (last ds))")
    case True
    then obtain i where "approved_at ds r (approver_count (dk_records (last ds)) (rt_action_id r)) i" using IH r(2) by blast
    moreover have "list_for_subject (dk_records dk) subject_action (rt_action_id r) =
        list_for_subject (dk_records (last ds)) subject_action (rt_action_id r)" using k True r(2) by blast
    ultimately show ?thesis by (intro exI [of _ i]) (simp add: approved_at_def nth_append Suc_lessD)
  next
    case False
    have "last ds = (ds @ [dk]) ! (length ds - 1)" using ne by (simp add: nth_append last_conv_nth)
    then show ?thesis using newly_approved [OF stepped.hyps(2) ok r(1) False r(2)] r(1) ne
      by (intro exI [of _ "length ds - 1"]) (simp add: approved_at_def nth_append)
  qed
  then show ?case using k by simp
qed (simp_all add: desk_ok_def)

text \<open>C6: Take any history of the queue that starts empty, whoever decides what and whatever else changes in it. An action is
  denied exactly when one of its decisions in the ledger is a denial; it is approved only with no denial and by as many
  different people as were asked for by the policy that governed the action at the very step that approved it; and
  once decided its row and its decisions never change again.\<close>

theorem decisions_final:
  assumes "desk_trace sha dumps ds" "dk_records (hd ds) = []" "dk_routes (hd ds) = []" "r \<in> set (dk_routes (last ds))"
  shows "(rt_decision r = Some d_denied \<longleftrightarrow> denied_in (dk_records (last ds)) subject_action (rt_action_id r)) \<and>
    (rt_decision r = Some d_approved \<longrightarrow>
       (\<exists>i. approved_at ds r (int (card (approvers_of (list_for_subject (dk_records (last ds)) subject_action (rt_action_id r))))) i)) \<and>
    (rt_decision r = None \<or> rt_decision r = Some d_denied \<or> rt_decision r = Some d_approved) \<and>
    (\<forall>dk'. (desk_step sha dumps)\<^sup>*\<^sup>* (last ds) dk' \<and> rt_decision r \<noteq> None \<longrightarrow> r \<in> set (dk_routes dk') \<and>
       list_for_subject (dk_records dk') subject_action (rt_action_id r) = list_for_subject (dk_records (last ds)) subject_action (rt_action_id r))"
proof -
  have ok: "desk_ok (last ds)" using trace_approved [OF assms(1-3)] by blast
  then have "route_ok (dk_records (last ds)) r" using assms(4) by (simp add: desk_ok_def)
  then have "(rt_decision r = Some d_denied \<longleftrightarrow> denied_in (dk_records (last ds)) subject_action (rt_action_id r)) \<and>
    (rt_decision r = None \<or> rt_decision r = Some d_denied \<or> rt_decision r = Some d_approved)"
    by (cases "rt_decision r") (auto simp: route_ok_def)
  moreover have "r \<in> set (dk_routes dk') \<and>
      list_for_subject (dk_records dk') subject_action (rt_action_id r) = list_for_subject (dk_records (last ds)) subject_action (rt_action_id r)"
    if "(desk_step sha dumps)\<^sup>*\<^sup>* (last ds) dk'" "rt_decision r \<noteq> None" for dk'
    using desk_steps_ok [OF that(1) ok] assms(4) that(2) by blast
  moreover have "rt_decision r = Some d_approved \<longrightarrow>
      (\<exists>i. approved_at ds r (approver_count (dk_records (last ds)) (rt_action_id r)) i)"
    using trace_approved [OF assms(1-3)] assms(4) by blast
  ultimately show ?thesis by blast
qed

subsection \<open>What an approved wave stands on\<close>

text \<open>C16: A call that completes the approval of a wave: the wave still hashes to the subject that was signed, the caller
  may approve on every one of its devices and belongs to the group, one policy governs all of them, as many different
  people as it asks for have approved, and nobody denied.\<close>

theorem wave_approval_is_earned:
  assumes d: "decide_wave sha dumps dk u now ref d_approved = Inr (dk', Decided d_approved b)"
  shows "\<exists>w \<in> set (dk_waves dk). wv_subject w = ref \<and> wave_subject_matches sha dumps w \<and>
    (\<exists>c \<in> set (dk_campaigns dk). ca_id c = wv_campaign w \<and>
     (\<exists>ts p g m. at_agent ` set ts = set (wv_devices w) \<and> (\<forall>t \<in> set ts. at_site t = wv_site w) \<and>
       (\<forall>t \<in> set ts. permits (load_scope (dk_authz dk) u now) wave_permission (device_query (at_site t) (at_agent t) (at_class t)) = Inr True) \<and>
       governing_policy_for_targets dk (ca_action c) ts = (p, g, m, []) \<and>
       (g = None \<or> is_member m (uc_id u) (uc_email u)) \<and>
       required_approvers p g \<le> int (card (approvers_of (list_for_subject (dk_records dk') subject_wave ref))) \<and>
       (\<forall>x \<in> set (list_for_subject (dk_records dk') subject_wave ref). rc_decision x \<noteq> d_denied)))"
  using d
proof (cases rule: decide_waveD)
  case (1 w c ts records block)
  from 1(8) obtain p g m where r: "block = approval_block_of p g (list_for_subject records subject_wave ref)"
    "decision_rules dk (ca_action c) [] (Some ts) = Some (p, g, m)" "g = None \<or> is_member m (uc_id u) (uc_email u)"
    "may_decide dk (load_scope (dk_authz dk) u now) subject_wave (wv_site w) [] (Some ts)" by (rule recordedD)
  have c: "conclude d_approved block = Decided d_approved b" and rec: "dk_records dk' = records"
    using 1(9) by (auto split: outcome.splits)
  have gp: "governing_policy_for_targets dk (ca_action c) ts = (p, g, m, [])"
    using r(2) by (auto simp: decision_rules_def split: prod.splits if_splits)
  have "at_agent ` set ts = set (wv_devices w)" "\<forall>t \<in> set ts. at_site t = wv_site w"
    using wave_targets_agents [OF 1(7)] wave_targets_Inr(4) [OF 1(7)] by blast+
  moreover have "\<forall>t \<in> set ts. permits (load_scope (dk_authz dk) u now) wave_permission (device_query (at_site t) (at_agent t) (at_class t)) = Inr True"
    using r(4) by (simp add: may_decide_def)
  ultimately show ?thesis using 1(1-5) gp r(3) conclude_approved [OF c r(1)] unfolding rec by blast
qed

text \<open>What the subject of a wave is the short digest of, and two given waves that differ in it under one digest.\<close>

definition wave_binding :: "campaign_wave \<Rightarrow> pyval" where
  "wave_binding w = PyDict [(''campaign_id'', PyStr (wv_campaign w)), (''campaign_version'', PyInt (wv_version w)),
       (''site_id'', PyStr (wv_site w)), (''wave_index'', PyInt (wv_index w)),
       (''device_agent_ids'', PyList (map PyStr (sort (wv_devices w)))), (''plan_hash'', PyStr (wv_plan w))]"

definition bindings_clash :: "(bytes \<Rightarrow> string) \<Rightarrow> (pyval \<Rightarrow> bytes) \<Rightarrow> campaign_wave \<Rightarrow> campaign_wave \<Rightarrow> bool" where
  "bindings_clash sha dumps w w' \<longleftrightarrow> canonical (wave_binding w) \<noteq> canonical (wave_binding w') \<and>
     take 32 (sha (dumps (canonical (wave_binding w)))) = take 32 (sha (dumps (canonical (wave_binding w'))))"

lemma same_binding_same_devices:
  assumes eq: "canonical (wave_binding w) = canonical (wave_binding w')"
  shows "set (wv_devices w) = set (wv_devices w')"
proof -
  have get: "dget (sort_key fst (map (\<lambda>(k, v). (k, canonical v)) [(''campaign_id'', PyStr c), (''campaign_version'', PyInt v),
       (''site_id'', PyStr s), (''wave_index'', PyInt i), (''device_agent_ids'', PyList (map PyStr (sort ds))), (''plan_hash'', PyStr p)]))
       ''device_agent_ids'' = Some (canonical (PyList (map PyStr (sort ds))))" for c v s i ds p
    by (subst dget_sort_items) simp_all
  have "canonical (PyList (map PyStr (sort (wv_devices w)))) = canonical (PyList (map PyStr (sort (wv_devices w'))))"
    using eq get [of "wv_campaign w" "wv_version w" "wv_site w" "wv_index w" "wv_devices w" "wv_plan w"]
      get [of "wv_campaign w'" "wv_version w'" "wv_site w'" "wv_index w'" "wv_devices w'" "wv_plan w'"]
    unfolding wave_binding_def canonical.simps(2) by (metis option.inject pyval.inject(6))
  then have "map PyStr (sort (wv_devices w)) = map PyStr (sort (wv_devices w'))" by (simp add: comp_def)
  then have "sort (wv_devices w) = sort (wv_devices w')" by (simp add: inj_map_eq_map inj_def)
  then show ?thesis by (metis set_sort)
qed

text \<open>The stored wave a record of the ledger was decided on.\<close>

definition signed_wave :: "(bytes \<Rightarrow> string) \<Rightarrow> (pyval \<Rightarrow> bytes) \<Rightarrow> campaign_wave list \<Rightarrow> approval_record \<Rightarrow> bool" where
  "signed_wave sha dumps ws x \<longleftrightarrow> rc_type x = subject_wave \<longrightarrow>
     (\<exists>w \<in> set ws. rc_subject x = take 32 (sha (dumps (canonical (wave_binding w)))) \<and> set (rc_targets x) = set (wv_devices w))"

lemma signed_wave_mono: "signed_wave sha dumps ws x \<Longrightarrow> set ws \<subseteq> set ws' \<Longrightarrow> signed_wave sha dumps ws' x"
  unfolding signed_wave_def by blast

lemma decide_signed:
  assumes "decide_subject sha dumps dk u now delivered i approve = Inr (dk', out)"
  shows "\<forall>x \<in> set (dk_records dk'). x \<in> set (dk_records dk) \<or> signed_wave sha dumps (dk_waves dk) x"
proof -
  let ?dec = "if approve then d_approved else d_denied"
  obtain found where c: "(case found of Some r \<Rightarrow> decide_action dk u now delivered r ?dec
      | None \<Rightarrow> andthen (decide_activation dk u now i ?dec) (\<lambda>done'.
         case done' of Some res \<Rightarrow> Inr res | None \<Rightarrow> decide_wave sha dumps dk u now i ?dec)) = Inr (dk', out)"
    using assms by (auto simp: decide_subject_def route_decision_def andthen_eq_Inr)
  have other: ?thesis if re: "record_and_evaluate dk u now t ref action device site ?dec targets = Inr (records, block)"
    and t: "t \<noteq> subject_wave" and rec: "dk_records dk' = records" for t ref action device site targets records block
    using re
  proof (rule recordedD)
    fix p g m new assume "new = ledger_record u now t ref ?dec p targets" "records = dk_records dk @ [new]"
    then show ?thesis using t unfolding rec by (auto simp: signed_wave_def)
  qed
  show ?thesis
  proof (cases found)
    case (Some r)
    have "decide_action dk u now delivered r ?dec = Inr (dk', out)" using c Some by simp
    then show ?thesis
    proof (cases rule: decide_actionD)
      case (1 records block)
      show ?thesis by (rule other [OF 1(2)]) (use 1(3) in \<open>auto split: outcome.splits\<close>)
    qed
  next
    case None
    then obtain done' where a: "decide_activation dk u now i ?dec = Inr done'"
      and w: "(case done' of Some res \<Rightarrow> Inr res | None \<Rightarrow> decide_wave sha dumps dk u now i ?dec) = Inr (dk', out)"
      using c by (auto simp: andthen_eq_Inr)
    show ?thesis
    proof (cases done')
      case (Some res)
      then have "decide_activation dk u now i ?dec = Inr (Some (dk', out))" using a w by simp
      then obtain records block where re: "record_and_evaluate dk u now subject_activation i [] [] [] ?dec None = Inr (records, block)"
        and rec: "dk_records dk' = records" by (auto simp: decide_activation_def andthen_pair split: option.splits)
      show ?thesis by (rule other [OF re _ rec]) simp
    next
      case None
      then have "decide_wave sha dumps dk u now i ?dec = Inr (dk', out)" using w by simp
      then show ?thesis
      proof (cases rule: decide_waveD)
        case (1 w c ts records block)
        have rec: "dk_records dk' = records" using 1(9) by (auto split: outcome.splits)
        from 1(8) obtain p new where new: "new = ledger_record u now subject_wave i ?dec p (Some ts)" "records = dk_records dk @ [new]"
          by (rule recordedD)
        have "i = take 32 (sha (dumps (canonical (wave_binding w))))"
          using 1(2,3) unfolding wave_subject_matches_def wave_subject_ref_def wave_binding_def by simp
        moreover have "set (map at_agent ts) = set (wv_devices w)" using wave_targets_agents [OF 1(7)] by simp
        ultimately have "signed_wave sha dumps (dk_waves dk) new" using 1(1) unfolding signed_wave_def new(1) by auto
        then show ?thesis unfolding rec new(2) by auto
      qed
    qed
  qed
qed

abbreviation waves_seen :: "desk list \<Rightarrow> campaign_wave list" where "waves_seen ds \<equiv> concat (map dk_waves ds)"

lemma trace_signed:
  assumes "desk_trace sha dumps ds" "dk_records (hd ds) = []"
  shows "\<forall>x \<in> set (dk_records (last ds)). signed_wave sha dumps (waves_seen ds) x"
  using assms
proof (induction rule: desk_trace.induct)
  case (stepped ds dk)
  have ne: "ds \<noteq> []" using desk_trace_run [OF stepped.hyps(1)] by blast
  have "set (dk_waves (last ds)) \<subseteq> set (waves_seen ds)" using last_in_set [OF ne] by auto
  moreover have "\<forall>x \<in> set (dk_records dk). x \<in> set (dk_records (last ds)) \<or> signed_wave sha dumps (dk_waves (last ds)) x"
    using stepped.hyps(2)
  proof cases
    case (decided u now delivered i approve out)
    then show ?thesis by (rule decide_signed)
  qed auto
  moreover have "set (waves_seen ds) \<subseteq> set (waves_seen (ds @ [dk]))" by auto
  ultimately show ?case using stepped.IH stepped.prems ne signed_wave_mono
    by (metis hd_append2 last_snoc)
qed simp

text \<open>C17: In any history of the queue that starts with an empty ledger, everybody whose decision the ledger holds for one wave
  subject decided about exactly the same devices, however the stored waves were rewritten in between - unless the
  history itself stored two waves, the one that each of the two decided on, whose different contents have the same short digest.\<close>

theorem approvers_signed_same_devices:
  assumes "desk_trace sha dumps ds" "dk_records (hd ds) = []"
    and "x \<in> set (dk_records (last ds))" "y \<in> set (dk_records (last ds))" "rc_type x = subject_wave" "rc_type y = subject_wave"
    and "rc_subject x = rc_subject y"
  shows "set (rc_targets x) = set (rc_targets y) \<or>
    (\<exists>d \<in> set ds. \<exists>d' \<in> set ds. \<exists>w \<in> set (dk_waves d). \<exists>w' \<in> set (dk_waves d').
       set (wv_devices w) = set (rc_targets x) \<and> set (wv_devices w') = set (rc_targets y) \<and> bindings_clash sha dumps w w')"
proof -
  have "signed_wave sha dumps (waves_seen ds) x" "signed_wave sha dumps (waves_seen ds) y"
    using trace_signed [OF assms(1,2)] assms(3,4) by blast+
  then obtain w w' where w: "w \<in> set (waves_seen ds)" "w' \<in> set (waves_seen ds)"
    "rc_subject x = take 32 (sha (dumps (canonical (wave_binding w))))" "set (rc_targets x) = set (wv_devices w)"
    "rc_subject y = take 32 (sha (dumps (canonical (wave_binding w'))))" "set (rc_targets y) = set (wv_devices w')"
    using assms(5,6) unfolding signed_wave_def by blast
  show ?thesis
  proof (cases "canonical (wave_binding w) = canonical (wave_binding w')")
    case True
    then have "set (wv_devices w) = set (wv_devices w')" by (rule same_binding_same_devices)
    then show ?thesis using w(4,6) by blast
  next
    case False
    then have "bindings_clash sha dumps w w'" using w(3,5) assms(7) by (simp add: bindings_clash_def)
    moreover obtain d d' where "d \<in> set ds" "w \<in> set (dk_waves d)" "d' \<in> set ds" "w' \<in> set (dk_waves d')" using w(1,2) by auto
    ultimately show ?thesis using w(4,6) by blast
  qed
qed

subsection \<open>What a decision writes\<close>

lemma endpoint_records:
  assumes "decide_subject sha dumps dk u now delivered i approve = Inr (dk', out)"
  shows "\<exists>t action device site p g m targets. decision_rules dk action device targets = Some (p, g, m) \<and>
    may_decide dk (load_scope (dk_authz dk) u now) t site device targets \<and>
    dk_records dk' = dk_records dk @ [ledger_record u now t i (if approve then d_approved else d_denied) p targets]"
proof -
  let ?dec = "if approve then d_approved else d_denied"
  obtain found where f: "one_or_none (filter (\<lambda>r. rt_action_id r = i) (dk_routes dk)) = Inr found"
    and c: "(case found of Some r \<Rightarrow> decide_action dk u now delivered r ?dec
      | None \<Rightarrow> andthen (decide_activation dk u now i ?dec) (\<lambda>done'.
         case done' of Some res \<Rightarrow> Inr res | None \<Rightarrow> decide_wave sha dumps dk u now i ?dec)) = Inr (dk', out)"
    using assms by (auto simp: decide_subject_def route_decision_def andthen_eq_Inr)
  have fin: ?thesis if re: "record_and_evaluate dk u now t i action device site ?dec targets = Inr (records, block)"
    and rec: "dk_records dk' = records" for t action device site targets records block
    using re by (rule recordedD) (use rec in blast)
  show ?thesis
  proof (cases found)
    case (Some r)
    then have "filter (\<lambda>r. rt_action_id r = i) (dk_routes dk) = [r]" using f by (auto simp: one_or_none_Inr)
    then have id: "rt_action_id r = i" by (auto simp: filter_eq_Cons_iff)
    have "decide_action dk u now delivered r ?dec = Inr (dk', out)" using c Some by simp
    then show ?thesis
    proof (cases rule: decide_actionD)
      case (1 records block)
      show ?thesis by (rule fin [OF 1(2) [unfolded id]]) (use 1(3) in \<open>auto split: outcome.splits\<close>)
    qed
  next
    case None
    then obtain done' where a: "decide_activation dk u now i ?dec = Inr done'"
      and w: "(case done' of Some res \<Rightarrow> Inr res | None \<Rightarrow> decide_wave sha dumps dk u now i ?dec) = Inr (dk', out)"
      using c by (auto simp: andthen_eq_Inr)
    show ?thesis
    proof (cases done')
      case (Some res)
      then have "decide_activation dk u now i ?dec = Inr (Some (dk', out))" using a w by simp
      then obtain records block where re: "record_and_evaluate dk u now subject_activation i [] [] [] ?dec None = Inr (records, block)"
        and rec: "dk_records dk' = records" by (auto simp: decide_activation_def andthen_pair split: option.splits)
      show ?thesis by (rule fin [OF re rec])
    next
      case None
      then have "decide_wave sha dumps dk u now i ?dec = Inr (dk', out)" using w by simp
      then show ?thesis
      proof (cases rule: decide_waveD)
        case (1 w c ts records block)
        show ?thesis by (rule fin [OF 1(8)]) (use 1(9) in \<open>auto split: outcome.splits\<close>)
      qed
    qed
  qed
qed

text \<open>C18: A decision is taken exactly when one policy governs the subject, its maker has not decided it before, belongs to the
  group the policy asks for, and may approve on the subject: every device of a set, the device as it resolves now, or
  the tenant. Then the ledger grows by exactly one record at its end - of this subject, this person and this decision, with the
  governing policy and the devices - and the progress is counted on the ledger with that record; everything else is
  refused. A call of the endpoints that answers leaves the ledger with exactly one such record more.\<close>

theorem decision_recorded_iff:
  "(record_and_evaluate dk u now t ref action device site dec targets = Inr (records, block) \<longleftrightarrow>
     (\<exists>p g m. decision_rules dk action device targets = Some (p, g, m) \<and>
        (\<nexists>r. r \<in> set (dk_records dk) \<and> rc_type r = t \<and> rc_subject r = ref \<and> rc_approver r = uc_id u) \<and>
        (g = None \<or> is_member m (uc_id u) (uc_email u)) \<and> may_decide dk (load_scope (dk_authz dk) u now) t site device targets \<and>
        records = dk_records dk @ [\<lparr>rc_type = t, rc_subject = ref, rc_approver = uc_id u, rc_email = actor_name u, rc_decision = dec,
          rc_policy = (case p of None \<Rightarrow> [] | Some q \<Rightarrow> ap_id q), rc_scope_ok = True, rc_reason = [],
          rc_targets = (case targets of None \<Rightarrow> [] | Some ts \<Rightarrow> map at_agent ts)\<rparr>] \<and>
        block = approval_block_of p g (list_for_subject records t ref))) \<and>
   (decide_subject sha dumps dk u now delivered i approve = Inr (dk', out) \<longrightarrow>
     (\<exists>t action device site p g m targets. decision_rules dk action device targets = Some (p, g, m) \<and>
       may_decide dk (load_scope (dk_authz dk) u now) t site device targets \<and>
       dk_records dk' = dk_records dk @ [\<lparr>rc_type = t, rc_subject = i, rc_approver = uc_id u, rc_email = actor_name u,
         rc_decision = (if approve then d_approved else d_denied),
         rc_policy = (case p of None \<Rightarrow> [] | Some q \<Rightarrow> ap_id q), rc_scope_ok = True, rc_reason = [],
         rc_targets = (case targets of None \<Rightarrow> [] | Some ts \<Rightarrow> map at_agent ts)\<rparr>]))"
proof -
  have "filter (\<lambda>r. rc_approver r = uc_id u) (list_for_subject (dk_records dk) t ref) = [] \<longleftrightarrow>
      (\<nexists>r. r \<in> set (dk_records dk) \<and> rc_type r = t \<and> rc_subject r = ref \<and> rc_approver r = uc_id u)"
    by (auto simp: filter_empty_conv list_for_subject_def)
  then show ?thesis
    using recorded [of dk u now t ref action device site dec targets records block]
      endpoint_records [of sha dumps dk u now delivered i approve dk' out]
    unfolding ledger_record_def by presburger
qed

subsection \<open>What dispatch asks again\<close>

definition still_counts :: "authz \<Rightarrow> time \<Rightarrow> authorized_target list \<Rightarrow> (string \<Rightarrow> current_basis) \<Rightarrow> approval_record \<Rightarrow> bool" where
  "still_counts st now targets source r \<longleftrightarrow> cb_status (source (rc_approver r)) = BasisResolved \<and>
     (\<forall>t \<in> set targets. permits (approver_current_scope st r (source (rc_approver r)) now) wave_permission
        (device_query (at_site t) (at_agent t) (at_class t)) = Inr True)"

lemma judge_record_stands:
  assumes "judge_record st now targets source r = Inr fate" "targets \<noteq> []" "rc_decision r = d_approved"
  shows "fate = None \<longleftrightarrow> still_counts st now targets source r"
proof (cases "cb_status (source (rc_approver r)) = BasisResolved")
  case True
  let ?s = "approver_current_scope st r (source (rc_approver r)) now"
  have "fate = None \<longleftrightarrow> uncovered_targets ?s wave_permission targets = Inr []"
    using assms True by (auto simp: judge_record_def Let_def split: sum.splits list.splits)
  also have "\<dots> \<longleftrightarrow> still_counts st now targets source r"
    unfolding uncovered_none still_counts_def using True assms(2) by (cases targets) (auto simp: permits_def)
  finally show ?thesis .
next
  case False
  then show ?thesis using assms by (auto simp: judge_record_def Let_def still_counts_def)
qed

lemma sort_records_standing:
  assumes "sort_records st now targets source rs = Inr (lost, standing)" "targets \<noteq> []"
  shows "standing = filter (\<lambda>r. rc_decision r = d_approved \<longrightarrow> still_counts st now targets source r) rs"
  using assms(1)
proof (induction rs arbitrary: lost standing)
  case (Cons r rs)
  obtain fate l st' where j: "judge_record st now targets source r = Inr fate" "sort_records st now targets source rs = Inr (l, st')"
    and s: "standing = (case fate of None \<Rightarrow> r # st' | Some _ \<Rightarrow> st')"
    using Cons.prems by (auto split: sum.splits option.splits)
  show ?case
  proof (cases "rc_decision r = d_approved")
    case True
    then show ?thesis using judge_record_stands [OF j(1) assms(2) True] Cons.IH [OF j(2)] s by (cases fate) auto
  next
    case False
    then have "fate = None" using j(1) by (simp add: judge_record_def)
    then show ?thesis using False Cons.IH [OF j(2)] s by simp
  qed
qed simp

text \<open>C5: A wave may run exactly when it still hashes to the subject that was signed, its devices are found at its site, one
  policy governs them all, nobody denied, and as many different people as that policy asks for now approved the
  subject, are still known and enabled, and may still approve on every single device with their current role and
  grants. Two approvers who each cover a part do not add up.\<close>

theorem dispatch_stands_on_current_authority:
  assumes d: "wave_dispatch_authority sha dumps dk now c w source = Inr v"
  shows "wo_ok v \<longleftrightarrow> wave_subject_matches sha dumps w \<and>
    (\<exists>ts p g m. wave_targets w (dk_fleet dk) = Inr ts \<and> governing_policy_for_targets dk (ca_action c) ts = (p, g, m, []) \<and>
       (\<forall>x \<in> set (list_for_subject (dk_records dk) subject_wave (wv_subject w)). rc_decision x \<noteq> d_denied) \<and>
       required_approvers p g \<le> int (card (rc_approver ` {x \<in> set (list_for_subject (dk_records dk) subject_wave (wv_subject w)).
          rc_decision x = d_approved \<and> rc_scope_ok x \<and> still_counts (dk_authz dk) now ts source x})))"
proof (cases "wave_subject_matches sha dumps w")
  case True
  let ?rs = "list_for_subject (dk_records dk) subject_wave (wv_subject w)"
  show ?thesis
  proof (cases "wave_targets w (dk_fleet dk)")
    case (Inl e)
    then show ?thesis using d True by (cases e) (auto simp: wave_dispatch_authority_def refused_wave_def)
  next
    case (Inr ts)
    obtain p g m conflict where gp: "governing_policy_for_targets dk (ca_action c) ts = (p, g, m, conflict)" by (metis prod_cases4)
    show ?thesis
    proof (cases "conflict = []")
      case False
      then show ?thesis using d True Inr gp by (auto simp: wave_dispatch_authority_def refused_wave_def)
    next
      case nc: True
      then have rv: "revalidate_wave_authority (dk_authz dk) now ts ?rs (required_approvers p g) source = Inr v"
        using d True Inr gp by (simp add: wave_dispatch_authority_def)
      then obtain lost standing where so: "sort_records (dk_authz dk) now ts source ?rs = Inr (lost, standing)"
        and ok: "wo_ok v \<longleftrightarrow> bl_state (evaluate_completion standing (required_approvers p g)) = StApproved"
        by (auto simp: revalidate_wave_authority_def Let_def split: sum.splits prod.splits)
      have standing: "standing = filter (\<lambda>r. rc_decision r = d_approved \<longrightarrow> still_counts (dk_authz dk) now ts source r) ?rs"
        by (rule sort_records_standing [OF so wave_targets_Inr(2) [OF Inr]])
      have den: "(\<exists>x \<in> set standing. rc_decision x = d_denied) \<longleftrightarrow> (\<exists>x \<in> set ?rs. rc_decision x = d_denied)"
        unfolding standing by auto
      have app: "approvers_of standing = rc_approver ` {x \<in> set ?rs. rc_decision x = d_approved \<and> rc_scope_ok x \<and>
          still_counts (dk_authz dk) now ts source x}"
        unfolding approvers_of_def standing by (rule arg_cong [where f = "image rc_approver"]) auto
      have "wo_ok v \<longleftrightarrow> (\<forall>x \<in> set ?rs. rc_decision x \<noteq> d_denied) \<and> required_approvers p g \<le> int (card (approvers_of standing))"
        unfolding ok completion_by_people den using required_positive [of p g] by auto
      then show ?thesis unfolding app using True Inr gp nc by auto
    qed
  qed
next
  case False
  then show ?thesis using d by (auto simp: wave_dispatch_authority_def refused_wave_def)
qed

text \<open>C32: A device with fleet rows at two sites cannot be decided about: the look-up of its class raises for everybody.\<close>

theorem moved_device_undecidable:
  assumes "filter (\<lambda>r. fr_agent r = device) (dk_fleet dk) = a # b # rest" and "device \<noteq> []"
  shows "record_and_evaluate dk u now t ref action device site dec None = Inl (Http 500 ''MultipleResultsFound'')"
  using assms by (simp add: record_and_evaluate_def governing_policy_def one_or_none_def)

subsection \<open>An example\<close>

definition example_admin :: "string \<Rightarrow> string \<Rightarrow> grant_row" where
  "example_admin i who = \<lparr>gr_id = i, gr_ptype = ''user'', gr_pref = who, gr_realm = ''t1'', gr_stype = ''tenant'', gr_sref = [],
     gr_subset = None, gr_role = ''tenant_owner'', gr_revoked = None, gr_expires = None\<rparr>"

definition example_person :: "string \<Rightarrow> user_ctx" where
  "example_person who = \<lparr>uc_id = who, uc_email = [], uc_role = ''tenant_owner'', uc_perms = [''action.approve'']\<rparr>"

definition example_wave :: campaign_wave where
  "example_wave = \<lparr>wv_campaign = ''c'', wv_version = 1, wv_site = ''s1'', wv_index = 0, wv_plan = ''p'', wv_devices = [''d2'', ''d1''],
     wv_subject = ''h'', wv_status = ''pending_approval'', wv_decided_by = []\<rparr>"

definition example_desk :: desk where
  "example_desk = \<lparr>dk_tenant = ''t'',
     dk_authz = \<lparr>az_rows = [example_admin ''g1'' ''ada'', example_admin ''g2'' ''bob''], az_units = [],
       az_sites = [\<lparr>cs_id = ''s1'', cs_unit = None\<rparr>], az_enforcement = ''strict'', az_realm = ''t1'', az_pairs = []\<rparr>,
     dk_policies = [\<lparr>ap_id = ''p1'', ap_name = [], ap_action = ''*'', ap_device = ''*'', ap_risk = ''*'', ap_mode = [], ap_required = 2,
       ap_group = None, ap_status = ''active''\<rparr>],
     dk_groups = [], dk_members = [],
     dk_fleet = [\<lparr>fr_site = ''s1'', fr_agent = ''d1'', fr_class = ''server''\<rparr>, \<lparr>fr_site = ''s1'', fr_agent = ''d2'', fr_class = ''switch''\<rparr>],
     dk_records = [], dk_routes = [], dk_waves = [example_wave],
     dk_campaigns = [\<lparr>ca_id = ''c'', ca_version = 1, ca_action = ''BMC_RESET''\<rparr>], dk_agents = []\<rparr>"

abbreviation example_decide where
  "example_decide dk who i approve \<equiv> decide_subject (\<lambda>_. ''h'') (\<lambda>_. []) dk (example_person who) 0 True i approve"

definition example_queue :: desk where
  "example_queue = example_desk\<lparr>dk_routes := [\<lparr>rt_action_id = ''a1'', rt_site = ''s1'', rt_type = ''POWER_CYCLE'', rt_device = ''d1'',
     rt_decision = None, rt_decided_by = [], rt_delivered = False\<rparr>]\<rparr>"

definition example_vote :: "string \<Rightarrow> string \<Rightarrow> string \<Rightarrow> string \<Rightarrow> string list \<Rightarrow> approval_record" where
  "example_vote kind ref who dec devices = \<lparr>rc_type = kind, rc_subject = ref, rc_approver = who, rc_email = who, rc_decision = dec,
     rc_policy = ''p1'', rc_scope_ok = True, rc_reason = [], rc_targets = devices\<rparr>"

definition example_signed_once :: desk where
  "example_signed_once = example_queue\<lparr>dk_records := [example_vote subject_wave ''h'' ''ada'' d_approved [''d1'', ''d2'']]\<rparr>"

definition example_signed_twice :: desk where
  "example_signed_twice = example_queue\<lparr>dk_records := [example_vote subject_wave ''h'' ''ada'' d_approved [''d1'', ''d2''],
       example_vote subject_wave ''h'' ''bob'' d_approved [''d1'', ''d2'']],
     dk_waves := [example_wave\<lparr>wv_status := ''approved'', wv_decided_by := ''bob''\<rparr>]\<rparr>"

definition example_denied :: desk where
  "example_denied = example_signed_twice\<lparr>dk_records := dk_records example_signed_twice @ [example_vote subject_action ''a1'' ''ada'' d_denied []],
     dk_routes := [\<lparr>rt_action_id = ''a1'', rt_site = ''s1'', rt_type = ''POWER_CYCLE'', rt_device = ''d1'',
       rt_decision = Some d_denied, rt_decided_by = ''ada'', rt_delivered = True\<rparr>]\<rparr>"

lemma example_calls:
  "\<exists>out. example_decide example_queue ''ada'' ''h'' True = Inr (example_signed_once, out)"
  "\<exists>out. example_decide example_signed_once ''bob'' ''h'' True = Inr (example_signed_twice, out)"
  "\<exists>out. example_decide example_signed_twice ''ada'' ''a1'' False = Inr (example_denied, out)"
proof -
  have c: "(case r of Inr (dk', _) \<Rightarrow> dk' = dk | Inl _ \<Rightarrow> False) \<Longrightarrow> \<exists>out. r = Inr (dk, out)" for r :: "api_error + desk \<times> outcome" and dk
    by (auto split: sum.splits)
  have v: "case example_decide example_queue ''ada'' ''h'' True of Inr (dk', _) \<Rightarrow> dk' = example_signed_once | Inl _ \<Rightarrow> False"
    "case example_decide example_signed_once ''bob'' ''h'' True of Inr (dk', _) \<Rightarrow> dk' = example_signed_twice | Inl _ \<Rightarrow> False"
    "case example_decide example_signed_twice ''ada'' ''a1'' False of Inr (dk', _) \<Rightarrow> dk' = example_denied | Inl _ \<Rightarrow> False"
    by code_simp+
  show "\<exists>out. example_decide example_queue ''ada'' ''h'' True = Inr (example_signed_once, out)" by (rule c [OF v(1)])
  show "\<exists>out. example_decide example_signed_once ''bob'' ''h'' True = Inr (example_signed_twice, out)" by (rule c [OF v(2)])
  show "\<exists>out. example_decide example_signed_twice ''ada'' ''a1'' False = Inr (example_denied, out)" by (rule c [OF v(3)])
qed

lemma example_trace:
  "desk_trace (\<lambda>_. ''h'') (\<lambda>_. []) [example_desk, example_queue, example_signed_once, example_signed_twice, example_denied]"
  "desk_trace (\<lambda>_. ''h'') (\<lambda>_. []) [example_desk, example_queue, example_signed_once, example_signed_twice]"
  "desk_trace (\<lambda>_. ''h'') (\<lambda>_. []) [example_desk, example_queue]"
proof -
  let ?step = "desk_step (\<lambda>_. ''h'') (\<lambda>_. [])" and ?trace = "desk_trace (\<lambda>_. ''h'') (\<lambda>_. [])"
  let ?r = "\<lparr>rt_action_id = ''a1'', rt_site = ''s1'', rt_type = ''POWER_CYCLE'', rt_device = ''d1'',
     rt_decision = None, rt_decided_by = [], rt_delivered = False\<rparr>"
  have "?step example_desk (example_desk\<lparr>dk_routes := dk_routes example_desk @ [?r]\<rparr>)"
    by (rule routed) (simp_all add: example_desk_def)
  then have 1: "?step example_desk example_queue" by (simp add: example_queue_def example_desk_def)
  have 2: "?step example_queue example_signed_once" "?step example_signed_once example_signed_twice"
    "?step example_signed_twice example_denied"
    using example_calls decided by blast+
  have "?trace [example_desk]" by (rule opened)
  then show "?trace [example_desk, example_queue]" using stepped [of _ _ "[example_desk]"] 1 by simp
  then have "?trace [example_desk, example_queue, example_signed_once]" using stepped [of _ _ "[example_desk, example_queue]"] 2(1) by simp
  then show t: "?trace [example_desk, example_queue, example_signed_once, example_signed_twice]"
    using stepped [of _ _ "[example_desk, example_queue, example_signed_once]"] 2(2) by simp
  show "?trace [example_desk, example_queue, example_signed_once, example_signed_twice, example_denied]"
    using stepped [OF t, of example_denied] 2(3) by simp
qed

text \<open>The example's policy asks for two people: the action that one of them approves stays open, the second completes it.\<close>

definition example_approved_once :: desk where
  "example_approved_once = example_queue\<lparr>dk_records := [example_vote subject_action ''a1'' ''ada'' d_approved []]\<rparr>"

definition example_route :: approval_route where
  "example_route = \<lparr>rt_action_id = ''a1'', rt_site = ''s1'', rt_type = ''POWER_CYCLE'', rt_device = ''d1'',
     rt_decision = Some d_approved, rt_decided_by = ''bob'', rt_delivered = True\<rparr>"

definition example_approved_twice :: desk where
  "example_approved_twice = example_queue\<lparr>dk_records := [example_vote subject_action ''a1'' ''ada'' d_approved [],
     example_vote subject_action ''a1'' ''bob'' d_approved []], dk_routes := [example_route]\<rparr>"

theorem decisions_final_witness:
  "(\<exists>r \<in> set (dk_routes example_denied). rt_decision r = Some d_denied \<and> denied_in (dk_records example_denied) subject_action (rt_action_id r)) \<and>
   (\<exists>i. approved_at [example_desk, example_queue, example_approved_once, example_approved_twice] example_route 2 i)"
proof
  let ?ds = "[example_desk, example_queue, example_signed_once, example_signed_twice, example_denied]"
  have e: "dk_records example_desk = []" "dk_routes example_desk = []" by (simp_all add: example_desk_def)
  have h: "hd ?ds = example_desk" "last ?ds = example_denied" by (simp_all only: list.sel last.simps list.distinct if_False refl if_True)
  obtain r where r: "r \<in> set (dk_routes example_denied)" "rt_decision r = Some d_denied"
  proof -
    have "hd (dk_routes example_denied) \<in> set (dk_routes example_denied)" "rt_decision (hd (dk_routes example_denied)) = Some d_denied"
      by code_simp+
    then show thesis by (rule that)
  qed
  then show "\<exists>r \<in> set (dk_routes example_denied). rt_decision r = Some d_denied \<and> denied_in (dk_records example_denied) subject_action (rt_action_id r)"
    using decisions_final [OF example_trace(1), unfolded h, OF e r(1), THEN conjunct1] by blast
  let ?step = "desk_step (\<lambda>_. ''h'') (\<lambda>_. [])" and ?trace = "desk_trace (\<lambda>_. ''h'') (\<lambda>_. [])"
  have c: "(case r of Inr (dk', _) \<Rightarrow> dk' = dk | Inl _ \<Rightarrow> False) \<Longrightarrow> \<exists>out. r = Inr (dk, out)" for r :: "api_error + desk \<times> outcome" and dk
    by (auto split: sum.splits)
  have "case example_decide example_queue ''ada'' ''a1'' True of Inr (dk', _) \<Rightarrow> dk' = example_approved_once | Inl _ \<Rightarrow> False"
    "case example_decide example_approved_once ''bob'' ''a1'' True of Inr (dk', _) \<Rightarrow> dk' = example_approved_twice | Inl _ \<Rightarrow> False"
    by code_simp+
  then have s: "?step example_queue example_approved_once" "?step example_approved_once example_approved_twice"
    using c decided by blast+
  have "?trace [example_desk, example_queue]" by (rule example_trace(3))
  then have "?trace [example_desk, example_queue, example_approved_once]" using stepped [of _ _ "[example_desk, example_queue]"] s(1) by simp
  then have t: "?trace [example_desk, example_queue, example_approved_once, example_approved_twice]"
    using stepped [of _ _ "[example_desk, example_queue, example_approved_once]"] s(2) by simp
  have g: "hd [example_desk, example_queue, example_approved_once, example_approved_twice] = example_desk"
    "last [example_desk, example_queue, example_approved_once, example_approved_twice] = example_approved_twice"
    by (simp_all only: list.sel last.simps list.distinct if_False refl if_True)
  have l: "example_route \<in> set (dk_routes example_approved_twice)" "rt_decision example_route = Some d_approved"
    "int (card (approvers_of (list_for_subject (dk_records example_approved_twice) subject_action (rt_action_id example_route)))) = 2" by code_simp+
  show "\<exists>i. approved_at [example_desk, example_queue, example_approved_once, example_approved_twice] example_route 2 i"
    using decisions_final [OF t, unfolded g, OF e l(1), THEN conjunct2, THEN conjunct1] unfolding l(3) using l(2) by blast
qed

theorem decision_recorded_iff_witness:
  "length (dk_records example_signed_once) = 1 \<and> (\<exists>t p targets. dk_records example_signed_once =
     [ledger_record (example_person ''ada'') 0 t ''h'' d_approved p targets])"
proof -
  have e: "dk_records example_queue = []" by (simp add: example_queue_def example_desk_def)
  let ?u = "example_person ''ada''"
  obtain out where d: "example_decide example_queue ''ada'' ''h'' True = Inr (example_signed_once, out)" using example_calls(1) by blast
  obtain t p targets where "dk_records example_signed_once = dk_records example_queue @
      [ledger_record (example_person ''ada'') 0 t ''h'' d_approved p targets]"
    using decision_recorded_iff [THEN conjunct2, THEN mp, OF d] unfolding ledger_record_def by auto
  then show ?thesis using e by auto
qed

theorem wave_approval_is_earned_witness:
  "\<exists>w \<in> set (dk_waves example_signed_once). wv_subject w = ''h'' \<and>
     2 \<le> card (approvers_of (list_for_subject (dk_records example_signed_twice) subject_wave ''h''))"
proof -
  let ?r = "decide_wave (\<lambda>_. ''h'') (\<lambda>_. []) example_signed_once (example_person ''bob'') 0 ''h'' d_approved"
  have v: "case ?r of Inr (dk, out) \<Rightarrow> dk = example_signed_twice \<and> (case out of Decided d _ \<Rightarrow> d = d_approved | Pending _ \<Rightarrow> False) | Inl _ \<Rightarrow> False"
    by code_simp
  obtain b where r: "?r = Inr (example_signed_twice, Decided d_approved b)"
  proof (cases ?r)
    case (Inl e)
    then show thesis using v by simp
  next
    case (Inr res)
    obtain dk out where res: "res = (dk, out)" by (cases res)
    show thesis
    proof (cases out)
      case (Pending b)
      show thesis using v unfolding Inr res Pending by simp
    next
      case (Decided d b)
      have "dk = example_signed_twice" "d = d_approved" using v unfolding Inr res Decided by simp_all
      then show thesis using that Inr res Decided by simp
    qed
  qed
  have "card (approvers_of (list_for_subject (dk_records example_signed_twice) subject_wave ''h'')) = 2" by code_simp
  then show ?thesis using wave_approval_is_earned [OF r(1)] by auto
qed

theorem approvers_signed_same_devices_witness:
  "\<exists>x y. x \<in> set (dk_records example_signed_twice) \<and> y \<in> set (dk_records example_signed_twice) \<and> rc_approver x \<noteq> rc_approver y \<and>
     set (rc_targets x) = set (rc_targets y)"
proof -
  let ?ds = "[example_desk, example_queue, example_signed_once, example_signed_twice]"
  let ?x = "dk_records example_signed_twice ! 0" and ?y = "dk_records example_signed_twice ! 1"
  have f: "?x \<in> set (dk_records (last ?ds))" "?y \<in> set (dk_records (last ?ds))" "rc_type ?x = subject_wave"
    "rc_type ?y = subject_wave" "rc_subject ?x = rc_subject ?y" and g: "rc_approver ?x \<noteq> rc_approver ?y" by code_simp+
  have s: "dk_records (hd ?ds) = []" by (simp add: example_desk_def)
  have "wave_binding w = wave_binding example_wave" if "d \<in> set ?ds" "w \<in> set (dk_waves d)" for d w
    using that by (auto simp: example_signed_twice_def example_signed_once_def example_queue_def example_desk_def wave_binding_def)
  then have "\<not> bindings_clash (\<lambda>_. ''h'') (\<lambda>_. []) w w'"
    if "d \<in> set ?ds" "d' \<in> set ?ds" "w \<in> set (dk_waves d)" "w' \<in> set (dk_waves d')" for d d' w w'
    using that unfolding bindings_clash_def by metis
  then show ?thesis using approvers_signed_same_devices [OF example_trace(2) s f] f(1,2) g by (metis last.simps list.distinct(1))
qed

definition example_source :: "string \<Rightarrow> current_basis" where
  "example_source who = approver_current_basis ''t1'' who
     (Some \<lparr>ia_realm = ''t1'', ia_subject = who, ia_found = True, ia_enabled = True, ia_roles = Some [''operator'', ''tenant_owner'']\<rparr>)"

theorem dispatch_stands_on_current_authority_witness:
  "\<exists>v. wave_dispatch_authority (\<lambda>_. ''h'') (\<lambda>_. []) example_signed_twice 5 (hd (dk_campaigns example_desk)) example_wave example_source = Inr v \<and>
     wo_ok v \<and> wave_subject_matches (\<lambda>_. ''h'') (\<lambda>_. []) example_wave"
proof -
  let ?r = "wave_dispatch_authority (\<lambda>_. ''h'') (\<lambda>_. []) example_signed_twice 5 (hd (dk_campaigns example_desk)) example_wave example_source"
  have "case ?r of Inr v \<Rightarrow> wo_ok v | Inl _ \<Rightarrow> False" by code_simp
  then obtain v where v: "?r = Inr v" "wo_ok v" by (auto split: sum.splits)
  then show ?thesis using dispatch_stands_on_current_authority [OF v(1)] by blast
qed

theorem moved_device_undecidable_witness:
  "record_and_evaluate (example_desk\<lparr>dk_fleet := dk_fleet example_desk @ [\<lparr>fr_site = ''s2'', fr_agent = ''d1'', fr_class = ''server''\<rparr>]\<rparr>)
     (example_person ''ada'') 0 subject_action ''a1'' ''POWER_CYCLE'' ''d1'' ''s1'' d_approved None = Inl (Http 500 ''MultipleResultsFound'')"
  by (rule moved_device_undecidable [where a = "\<lparr>fr_site = ''s1'', fr_agent = ''d1'', fr_class = ''server''\<rparr>" and
      b = "\<lparr>fr_site = ''s2'', fr_agent = ''d1'', fr_class = ''server''\<rparr>" and rest = "[]"]) (simp_all add: example_desk_def)

end
