(* ===== verification/Site_Plan.thy ===== *)
theory Site_Plan
  imports Firmware_Waves Audit_Chain
begin

text \<open>
  The site manager's answer to central command's question how the devices of a campaign must be batched
  (\<open>PlanCampaignWaves\<close> of \<open>src/services/site_manager/src/harkeniq_sm/grpc_server.py\<close>): the device rows and
  fault domains of the site, the planner of \<open>Firmware_Waves\<close>, and the digest an approval binds to. It writes nothing.
  The digest and the JSON writer are parameters; \<open>None\<close> would be a call that never returns.
\<close>

subsection \<open>The handler\<close>

record bound_site =
  bs_cc :: string
  bs_id :: string
  bs_status :: string

record site_device =
  sd_id :: string
  sd_agent :: string
  sd_site :: string

record site_tables =
  st_sites :: "bound_site list"
  st_devices :: "site_device list"
  st_domains :: "(string, string list) dict"

record plan_request =
  pq_campaign :: string
  pq_version :: int
  pq_site :: string
  pq_action :: string
  pq_devices :: "string list"
  pq_size :: int

record plan_wave =
  pw_index :: nat
  pw_devices :: "string list"
  pw_span :: nat

record site_plan =
  sp_planned :: bool
  sp_waves :: "plan_wave list"
  sp_unplannable :: "string list"
  sp_hash :: string

text \<open>The devices that are really at the site, by row id, and the names of the others.\<close>

definition device_of_agent :: "site_tables \<Rightarrow> string \<Rightarrow> string \<Rightarrow> site_device option" where
  "device_of_agent t site a = (case find (\<lambda>d. sd_agent d = a) (st_devices t) of None \<Rightarrow> None
     | Some d \<Rightarrow> if sd_site d \<noteq> site then None else Some d)"

definition resolved_devices :: "site_tables \<Rightarrow> string \<Rightarrow> string list \<Rightarrow> (string, string) dict" where
  "resolved_devices t site requested =
     fold (\<lambda>a ds. case device_of_agent t site a of None \<Rightarrow> ds | Some d \<Rightarrow> dset (sd_id d) a ds) requested []"

definition unplannable_devices :: "site_tables \<Rightarrow> string \<Rightarrow> string list \<Rightarrow> string list" where
  "unplannable_devices t site requested = filter (\<lambda>a. device_of_agent t site a = None) requested"

definition domains_by_device :: "site_tables \<Rightarrow> string list \<Rightarrow> (string, string list) dict" where
  "domains_by_device t ids = map (\<lambda>i. (i, sort (dget_or (st_domains t) i []))) ids"

definition rows_of_wave :: "(string, nat) dict \<Rightarrow> nat \<Rightarrow> string list" where
  "rows_of_wave assignment i = map fst (filter (\<lambda>(d, w). w = i) assignment)"

definition assigned_wave :: "(string, string) dict \<Rightarrow> (string, string list) dict \<Rightarrow> (string, nat) dict \<Rightarrow> nat \<Rightarrow> plan_wave" where
  "assigned_wave resolved doms assignment i =
     (let ds = rows_of_wave assignment i in
      \<lparr>pw_index = i, pw_devices = sort (map (\<lambda>d. dget_or resolved d []) ds),
       pw_span = card (set (concat (map (\<lambda>d. dget_or doms d []) ds)))\<rparr>)"

definition assigned_waves :: "(string, string) dict \<Rightarrow> (string, string list) dict \<Rightarrow> (string, nat) dict \<Rightarrow> plan_wave list" where
  "assigned_waves resolved doms assignment =
     map (assigned_wave resolved doms assignment) (sort (remdups (dvals assignment)))"

definition plan_content :: "plan_request \<Rightarrow> string \<Rightarrow> plan_wave list \<Rightarrow> pyval" where
  "plan_content q action waves =
     PyDict [(''campaign_id'', PyStr (pq_campaign q)), (''campaign_version'', PyInt (pq_version q)), (''site_id'', PyStr (pq_site q)),
       (''action_type'', PyStr action),
       (''waves'', PyList (map (\<lambda>w. PyDict [(''wave_index'', PyInt (int (pw_index w))),
          (''device_agent_ids'', PyList (map PyStr (pw_devices w)))]) waves))]"

definition wave_size_of :: "plan_request \<Rightarrow> int" where
  "wave_size_of q = max 1 (if pq_size q = 0 then 5 else pq_size q)"

definition plan_campaign_waves ::
  "(bytes \<Rightarrow> string) \<Rightarrow> (pyval \<Rightarrow> bytes) \<Rightarrow> site_tables \<Rightarrow> plan_request \<Rightarrow> site_plan option" where
  "plan_campaign_waves sha dumps t q =
     (let action = upper (strip_text (pq_action q)) in
      case find (\<lambda>s. bs_cc s = pq_site q) (st_sites t) of
        None \<Rightarrow> Some \<lparr>sp_planned = False, sp_waves = [], sp_unplannable = [], sp_hash = []\<rparr>
      | Some s \<Rightarrow>
          if bs_status s \<noteq> ''active'' then Some \<lparr>sp_planned = False, sp_waves = [], sp_unplannable = [], sp_hash = []\<rparr>
          else (let requested = sort (remdups (pq_devices q));
                    resolved = resolved_devices t (bs_id s) requested;
                    doms = domains_by_device t (dkeys resolved)
                in map_option (\<lambda>assignment. let waves = assigned_waves resolved doms assignment in
                     \<lparr>sp_planned = True, sp_waves = waves, sp_unplannable = unplannable_devices t (bs_id s) requested,
                      sp_hash = sha (dumps (canonical (plan_content q action waves)))\<rparr>)
                   (plan_waves (sort (dkeys resolved)) doms (wave_size_of q))))"

declare find_wave.simps [code]

subsection \<open>What a plan is\<close>

text \<open>Row ids and agent names are keys of the device table.\<close>

definition tables_ok :: "site_tables \<Rightarrow> bool" where
  "tables_ok t \<longleftrightarrow> distinct (map sd_id (st_devices t)) \<and> distinct (map sd_agent (st_devices t))"

definition at_site_devices :: "site_tables \<Rightarrow> string \<Rightarrow> string set" where
  "at_site_devices t site = {a. device_of_agent t site a \<noteq> None}"

lemma device_of_agent_Some:
  assumes "device_of_agent t site a = Some d"
  shows "d \<in> set (st_devices t)" "sd_agent d = a" "sd_site d = site"
  using assms by (auto simp: device_of_agent_def find_Some_iff split: option.splits if_splits)

lemma device_unique:
  assumes "tables_ok t" "device_of_agent t site a = Some d" "device_of_agent t site b = Some e" "sd_id d = sd_id e"
  shows "a = b"
proof -
  have "inj_on sd_id (set (st_devices t))" using assms(1) by (simp add: tables_ok_def distinct_map)
  then have "d = e" using device_of_agent_Some(1) [OF assms(2)] device_of_agent_Some(1) [OF assms(3)] assms(4) by (blast dest: inj_onD)
  then show ?thesis using device_of_agent_Some(2) [OF assms(2)] device_of_agent_Some(2) [OF assms(3)] by simp
qed

lemma resolved_devices_snoc:
  "resolved_devices t site (as @ [a]) = (case device_of_agent t site a of None \<Rightarrow> resolved_devices t site as
     | Some d \<Rightarrow> dset (sd_id d) a (resolved_devices t site as))"
  by (cases "device_of_agent t site a") (simp_all add: resolved_devices_def)

lemma resolved_wf [simp]: "wf_dict (resolved_devices t site as)"
proof (induction as rule: rev_induct)
  case Nil
  then show ?case by (simp add: resolved_devices_def)
next
  case (snoc a as)
  then show ?case by (simp add: resolved_devices_snoc split: option.splits)
qed

lemma dget_resolved:
  assumes ok: "tables_ok t"
  shows "dget (resolved_devices t site as) i = Some a \<longleftrightarrow> a \<in> set as \<and> (\<exists>d. device_of_agent t site a = Some d \<and> sd_id d = i)"
proof (induction as rule: rev_induct)
  case Nil
  then show ?case by (simp add: resolved_devices_def)
next
  case (snoc b as)
  show ?case
  proof (cases "device_of_agent t site b")
    case None
    then show ?thesis using snoc by (auto simp: resolved_devices_snoc)
  next
    case (Some e)
    show ?thesis
    proof (cases "i = sd_id e")
      case True
      then show ?thesis using Some device_unique [OF ok] by (auto simp: resolved_devices_snoc)
    next
      case False
      then show ?thesis using snoc Some by (auto simp: resolved_devices_snoc)
    qed
  qed
qed

lemma resolved_agents:
  assumes "tables_ok t"
  shows "set (dvals (resolved_devices t site as)) = set as \<inter> at_site_devices t site"
proof -
  have "a \<in> set (dvals (resolved_devices t site as)) \<longleftrightarrow> (\<exists>i. dget (resolved_devices t site as) i = Some a)" for a
    by (metis in_dvals_dget resolved_wf dget_in_dvals)
  then show ?thesis unfolding dget_resolved [OF assms] at_site_devices_def by auto
qed

text \<open>The waves of an assignment: a device is in a wave exactly when its row was assigned the index of the wave.\<close>

lemma rows_of_wave:
  assumes "wf_dict asg"
  shows "set (rows_of_wave asg i) = {d. dget asg d = Some i}" "distinct (rows_of_wave asg i)"
proof -
  show "set (rows_of_wave asg i) = {d. dget asg d = Some i}"
    using assms by (force simp: rows_of_wave_def map_of_eq_Some_iff)
  show "distinct (rows_of_wave asg i)"
    using assms unfolding rows_of_wave_def by (rule distinct_map_filter)
qed

lemma assigned_wave_simps [simp]:
  "pw_index (assigned_wave resolved doms asg i) = i"
  "length (pw_devices (assigned_wave resolved doms asg i)) = length (rows_of_wave asg i)"
  "set (pw_devices (assigned_wave resolved doms asg i)) = (\<lambda>d. dget_or resolved d []) ` set (rows_of_wave asg i)"
  by (simp_all add: assigned_wave_def Let_def)

lemma assigned_devices:
  assumes "wf_dict asg" "set (dkeys asg) = set (dkeys resolved)"
  shows "a \<in> set (pw_devices (assigned_wave resolved doms asg i)) \<longleftrightarrow> (\<exists>d. dget asg d = Some i \<and> dget resolved d = Some a)"
proof -
  have k: "\<exists>a. dget resolved d = Some a" if "dget asg d = Some i" for d
  proof -
    have "d \<in> set (dkeys asg)" using that by (force dest: map_of_SomeD)
    then show ?thesis unfolding assms(2) by (auto simp: image_iff dest: weak_map_of_SomeI)
  qed
  have "dget_or resolved d [] = a \<longleftrightarrow> dget resolved d = Some a" if "dget asg d = Some i" for d
    using k [OF that] by (auto simp: dget_or_def)
  then show ?thesis unfolding assigned_wave_simps rows_of_wave(1) [OF assms(1)] by blast
qed

definition agent_domains :: "site_tables \<Rightarrow> string \<Rightarrow> string set" where
  "agent_domains t a = (case find (\<lambda>d. sd_agent d = a) (st_devices t) of None \<Rightarrow> {} | Some d \<Rightarrow> set (dget_or (st_domains t) (sd_id d) []))"

lemma agent_domains_of:
  assumes "device_of_agent t site a = Some d"
  shows "agent_domains t a = set (dget_or (st_domains t) (sd_id d) [])"
  using assms by (auto simp: device_of_agent_def agent_domains_def split: option.splits if_splits)

lemma domains_by_device: "d \<in> set ids \<Longrightarrow> domains_of (domains_by_device t ids) d = set (dget_or (st_domains t) d [])"
  by (induction ids) (auto simp: domains_by_device_def domains_of_def dget_or_def)

lemma wave_size_positive: "1 \<le> wave_size_of q"
  by (simp add: wave_size_of_def)

text \<open>What the answer for an active site is made of.\<close>

lemma planned:
  assumes "find (\<lambda>s. bs_cc s = pq_site q) (st_sites t) = Some s" "bs_status s = ''active''"
  obtains asg ws where "plan_campaign_waves sha dumps t q = Some
      \<lparr>sp_planned = True,
       sp_waves = assigned_waves (resolved_devices t (bs_id s) (sort (remdups (pq_devices q))))
         (domains_by_device t (dkeys (resolved_devices t (bs_id s) (sort (remdups (pq_devices q)))))) asg,
       sp_unplannable = unplannable_devices t (bs_id s) (sort (remdups (pq_devices q))),
       sp_hash = sha (dumps (canonical (plan_content q (upper (strip_text (pq_action q)))
         (assigned_waves (resolved_devices t (bs_id s) (sort (remdups (pq_devices q))))
           (domains_by_device t (dkeys (resolved_devices t (bs_id s) (sort (remdups (pq_devices q)))))) asg))))\<rparr>"
    and "plan_ok (wave_size_of q) (domains_by_device t (dkeys (resolved_devices t (bs_id s) (sort (remdups (pq_devices q)))))) ws asg"
    and "set (dkeys asg) = set (dkeys (resolved_devices t (bs_id s) (sort (remdups (pq_devices q)))))"
proof -
  let ?R = "resolved_devices t (bs_id s) (sort (remdups (pq_devices q)))"
  obtain asg ws where "plan_waves (sort (dkeys ?R)) (domains_by_device t (dkeys ?R)) (wave_size_of q) = Some asg"
    "plan_ok (wave_size_of q) (domains_by_device t (dkeys ?R)) ws asg" "set (dkeys asg) = set (sort (dkeys ?R))"
    using plan_waves_ok [OF wave_size_positive] by blast
  then show thesis using that assms by (simp add: plan_campaign_waves_def Let_def)
qed

text \<open>C19: The plan of an active site always comes, puts every requested device that is at the site into exactly one wave, names
  the other ones, keeps waves within the size, and never puts two devices of one fault domain into one wave.\<close>

theorem site_plan_respects_domains:
  assumes ok: "tables_ok t" and s: "find (\<lambda>s. bs_cc s = pq_site q) (st_sites t) = Some s" "bs_status s = ''active''"
  shows "\<exists>p. plan_campaign_waves sha dumps t q = Some p \<and> sp_planned p \<and>
    set (sp_unplannable p) = set (pq_devices q) - at_site_devices t (bs_id s) \<and>
    (\<forall>a. (\<exists>w \<in> set (sp_waves p). a \<in> set (pw_devices w)) \<longleftrightarrow> a \<in> set (pq_devices q) \<inter> at_site_devices t (bs_id s)) \<and>
    (\<forall>w \<in> set (sp_waves p). \<forall>v \<in> set (sp_waves p). set (pw_devices w) \<inter> set (pw_devices v) \<noteq> {} \<longrightarrow> w = v) \<and>
    (\<forall>w \<in> set (sp_waves p). int (length (pw_devices w)) \<le> wave_size_of q \<and>
       (\<forall>a \<in> set (pw_devices w). \<forall>b \<in> set (pw_devices w). a \<noteq> b \<longrightarrow> agent_domains t a \<inter> agent_domains t b = {}))"
proof -
  let ?req = "sort (remdups (pq_devices q))"
  let ?R = "resolved_devices t (bs_id s) ?req"
  let ?D = "domains_by_device t (dkeys ?R)"
  obtain asg ws where p: "plan_campaign_waves sha dumps t q = Some
      \<lparr>sp_planned = True, sp_waves = assigned_waves ?R ?D asg, sp_unplannable = unplannable_devices t (bs_id s) ?req,
       sp_hash = sha (dumps (canonical (plan_content q (upper (strip_text (pq_action q))) (assigned_waves ?R ?D asg))))\<rparr>"
    and po: "plan_ok (wave_size_of q) ?D ws asg" and keys: "set (dkeys asg) = set (dkeys ?R)"
    using planned [OF s] .
  have wf: "wf_dict asg" using po by (simp add: plan_ok_def)
  have waves: "set (assigned_waves ?R ?D asg) = assigned_wave ?R ?D asg ` {i. \<exists>d. dget asg d = Some i}"
  proof -
    have "set (dvals asg) = {i. \<exists>d. dget asg d = Some i}" using wf by (force simp: map_of_eq_Some_iff)
    then show ?thesis by (simp add: assigned_waves_def)
  qed
  note dev = assigned_devices [OF wf keys]
  have mem: "(\<exists>w \<in> set (assigned_waves ?R ?D asg). a \<in> set (pw_devices w)) \<longleftrightarrow> a \<in> set (pq_devices q) \<inter> at_site_devices t (bs_id s)" for a
  proof -
    have "(\<exists>w \<in> set (assigned_waves ?R ?D asg). a \<in> set (pw_devices w)) \<longleftrightarrow> (\<exists>i d. dget asg d = Some i \<and> dget ?R d = Some a)"
      unfolding waves using dev by blast
    also have "\<dots> \<longleftrightarrow> (\<exists>d. dget ?R d = Some a)"
    proof -
      have "\<exists>i. dget asg d = Some i" if "dget ?R d = Some a" for d
      proof -
        have "d \<in> set (dkeys asg)" unfolding keys using that by (force dest: map_of_SomeD)
        then show ?thesis by (auto simp: image_iff dest: weak_map_of_SomeI)
      qed
      then show ?thesis by blast
    qed
    also have "\<dots> \<longleftrightarrow> a \<in> set (pq_devices q) \<inter> at_site_devices t (bs_id s)"
      unfolding dget_resolved [OF ok] by (auto simp: at_site_devices_def)
    finally show ?thesis .
  qed
  have one: "w = v" if h: "w \<in> set (assigned_waves ?R ?D asg)" "v \<in> set (assigned_waves ?R ?D asg)" "a \<in> set (pw_devices w)" "a \<in> set (pw_devices v)" for w v a
  proof -
    obtain i j where w: "w = assigned_wave ?R ?D asg i" and v: "v = assigned_wave ?R ?D asg j" using h(1,2) unfolding waves by blast
    have "\<exists>d. dget asg d = Some i \<and> dget ?R d = Some a" "\<exists>e. dget asg e = Some j \<and> dget ?R e = Some a"
      using h(3,4) unfolding w v dev .
    then obtain d e where "dget asg d = Some i" "dget ?R d = Some a" "dget asg e = Some j" "dget ?R e = Some a" by blast
    then have "i = j" unfolding dget_resolved [OF ok] by auto
    then show ?thesis using w v by simp
  qed
  have size: "int (length (pw_devices w)) \<le> wave_size_of q" if h: "w \<in> set (assigned_waves ?R ?D asg)" for w
  proof -
    obtain i d where w: "w = assigned_wave ?R ?D asg i" and i: "dget asg d = Some i" using h unfolding waves by blast
    have "length (rows_of_wave asg i) = card {d. dget asg d = Some i}"
      using rows_of_wave [OF wf, of i] by (metis distinct_card)
    moreover have "i < length ws" using po i by (auto simp: plan_ok_def)
    then have "card {d. dget asg d = Some i} \<le> snd (ws ! i)" "int (snd (ws ! i)) \<le> wave_size_of q"
      using po by (auto simp: plan_ok_def)
    ultimately show ?thesis by (simp add: w)
  qed
  have apart: "agent_domains t a \<inter> agent_domains t b = {}"
    if h: "w \<in> set (assigned_waves ?R ?D asg)" "a \<in> set (pw_devices w)" "b \<in> set (pw_devices w)" "a \<noteq> b" for w a b
  proof -
    obtain i where w: "w = assigned_wave ?R ?D asg i" using h(1) unfolding waves by blast
    have "\<exists>d. dget asg d = Some i \<and> dget ?R d = Some a" "\<exists>e. dget asg e = Some i \<and> dget ?R e = Some b"
      using h(2,3) unfolding w dev .
    then obtain d e where d: "dget asg d = Some i" "dget ?R d = Some a" and e: "dget asg e = Some i" "dget ?R e = Some b" by blast
    have "d \<noteq> e" using d e that(4) by auto
    then have "domains_of ?D d \<inter> domains_of ?D e = {}" using po d(1) e(1) unfolding plan_ok_def by blast
    moreover have "d \<in> set (dkeys ?R)" "e \<in> set (dkeys ?R)" using d(2) e(2) by (force dest: map_of_SomeD)+
    moreover have "agent_domains t a = set (dget_or (st_domains t) d [])" "agent_domains t b = set (dget_or (st_domains t) e [])"
      using d(2) e(2) unfolding dget_resolved [OF ok] by (auto simp: agent_domains_of)
    ultimately show ?thesis by (simp add: domains_by_device)
  qed
  have "set (unplannable_devices t (bs_id s) ?req) = set (pq_devices q) - at_site_devices t (bs_id s)"
    by (auto simp: unplannable_devices_def at_site_devices_def)
  then show ?thesis using p mem one size apart by (auto simp: disjoint_iff)
qed

definition some_tables :: site_tables where
  "some_tables = \<lparr>st_sites = [\<lparr>bs_cc = ''s1'', bs_id = ''x'', bs_status = ''active''\<rparr>],
     st_devices = [\<lparr>sd_id = ''1'', sd_agent = ''b'', sd_site = ''x''\<rparr>, \<lparr>sd_id = ''2'', sd_agent = ''a'', sd_site = ''x''\<rparr>,
       \<lparr>sd_id = ''3'', sd_agent = ''c'', sd_site = ''y''\<rparr>],
     st_domains = [(''1'', [''rack'']), (''2'', [''rack''])]\<rparr>"

definition some_request :: plan_request where
  "some_request = \<lparr>pq_campaign = ''c'', pq_version = 1, pq_site = ''s1'', pq_action = ''bmc_reset'', pq_devices = [''c'', ''b'', ''a''], pq_size = 0\<rparr>"

theorem site_plan_respects_domains_witness:
  "\<exists>p. plan_campaign_waves (\<lambda>_. ''h'') (\<lambda>_. []) some_tables some_request = Some p \<and> set (sp_unplannable p) = {''c''} \<and>
     (\<forall>w \<in> set (sp_waves p). \<not> (''a'' \<in> set (pw_devices w) \<and> ''b'' \<in> set (pw_devices w)))"
proof -
  have ok: "tables_ok some_tables" by (simp add: tables_ok_def some_tables_def)
  have s: "find (\<lambda>s. bs_cc s = pq_site some_request) (st_sites some_tables) = Some \<lparr>bs_cc = ''s1'', bs_id = ''x'', bs_status = ''active''\<rparr>"
    by (simp add: some_tables_def some_request_def)
  have "agent_domains some_tables ''a'' \<inter> agent_domains some_tables ''b'' \<noteq> {}"
    by (simp add: agent_domains_def some_tables_def dget_or_def)
  moreover have "set (pq_devices some_request) - at_site_devices some_tables ''x'' = {''c''}"
    by (auto simp: some_request_def at_site_devices_def device_of_agent_def some_tables_def)
  moreover obtain p where "plan_campaign_waves (\<lambda>_. ''h'') (\<lambda>_. []) some_tables some_request = Some p"
    and "set (sp_unplannable p) = set (pq_devices some_request) - at_site_devices some_tables (bs_id \<lparr>bs_cc = ''s1'', bs_id = ''x'', bs_status = ''active''\<rparr>)"
    and "\<forall>w \<in> set (sp_waves p). int (length (pw_devices w)) \<le> wave_size_of some_request \<and>
      (\<forall>a \<in> set (pw_devices w). \<forall>b \<in> set (pw_devices w). a \<noteq> b \<longrightarrow> agent_domains some_tables a \<inter> agent_domains some_tables b = {})"
    using site_plan_respects_domains [OF ok s bound_site.simps(3), of "\<lambda>_. ''h''" "\<lambda>_. []"] by (elim exE conjE) (rule that)
  moreover have "''a'' \<noteq> ''b''" by simp
  ultimately show ?thesis unfolding bound_site.simps by (intro exI [of _ p] conjI) (simp, simp, metis)
qed

subsection \<open>What a plan digest binds\<close>

lemma canonical_wave:
  "canonical (PyDict [(''wave_index'', PyInt n), (''device_agent_ids'', PyList (map PyStr ds))]) =
     PyDict [(''device_agent_ids'', PyList (map PyStr ds)), (''wave_index'', PyInt n)]"
proof -
  have "\<not> ''wave_index'' \<le> ''device_agent_ids''" by code_simp
  then show ?thesis by (simp add: comp_def)
qed

lemma map_eq_weaken:
  assumes "\<And>v w. f v = f w \<Longrightarrow> g v = g w" and "map f xs = map f ys"
  shows "map g xs = map g ys"
  using assms(2)
proof (induction xs arbitrary: ys)
  case (Cons x xs)
  then obtain y ys' where y: "ys = y # ys'" and "f x = f y" "map f xs = map f ys'" by (cases ys) auto
  then have "g x = g y" "map g xs = map g ys'" using assms(1) Cons.IH by blast+
  then show ?case by (simp add: y)
qed simp

lemma plan_content_inj:
  assumes "canonical (plan_content q a ws) = canonical (plan_content q' a' ws')"
  shows "pq_campaign q = pq_campaign q'" "pq_version q = pq_version q'" "pq_site q = pq_site q'"
    "map (\<lambda>w. (pw_index w, pw_devices w)) ws = map (\<lambda>w. (pw_index w, pw_devices w)) ws'"
proof -
  let ?wave = "\<lambda>w. PyDict [(''wave_index'', PyInt (int (pw_index w))), (''device_agent_ids'', PyList (map PyStr (pw_devices w)))]"
  let ?items = "\<lambda>q a ws. [(''campaign_id'', PyStr (pq_campaign q)), (''campaign_version'', PyInt (pq_version q)), (''site_id'', PyStr (pq_site q)),
       (''action_type'', PyStr a), (''waves'', PyList (map ?wave ws))]"
  let ?sorted = "\<lambda>q a ws. sort_key fst (map (\<lambda>(k, v). (k, canonical v)) (?items q a ws))"
  have eq: "?sorted q a ws = ?sorted q' a' ws'"
    using assms unfolding plan_content_def canonical.simps(2) by (simp only: pyval.inject)
  have get: "dget (?sorted q a ws) ''campaign_id'' = Some (PyStr (pq_campaign q))"
    "dget (?sorted q a ws) ''campaign_version'' = Some (PyInt (pq_version q))"
    "dget (?sorted q a ws) ''site_id'' = Some (PyStr (pq_site q))"
    "dget (?sorted q a ws) ''waves'' = Some (canonical (PyList (map ?wave ws)))" for q a ws
    by (subst dget_sort_items, simp, simp)+
  show "pq_campaign q = pq_campaign q'" using get(1) [of q a ws] get(1) [of q' a' ws'] unfolding eq by simp
  show "pq_version q = pq_version q'" using get(2) [of q a ws] get(2) [of q' a' ws'] unfolding eq by simp
  show "pq_site q = pq_site q'" using get(3) [of q a ws] get(3) [of q' a' ws'] unfolding eq by simp
  have "canonical (PyList (map ?wave ws)) = canonical (PyList (map ?wave ws'))"
    using get(4) [of q a ws] get(4) [of q' a' ws'] unfolding eq by simp
  then have w: "map (\<lambda>w. canonical (?wave w)) ws = map (\<lambda>w. canonical (?wave w)) ws'" by (simp add: comp_def)
  have inj: "canonical (?wave v) = canonical (?wave w) \<longleftrightarrow> (pw_index v, pw_devices v) = (pw_index w, pw_devices w)" for v w
    unfolding canonical_wave by (auto simp: inj_map_eq_map inj_def)
  show "map (\<lambda>w. (pw_index w, pw_devices w)) ws = map (\<lambda>w. (pw_index w, pw_devices w)) ws'"
    by (rule map_eq_weaken [OF _ w]) (simp only: inj)
qed

text \<open>The digest of a plan is taken of its content.\<close>

lemma planned_hash:
  assumes "plan_campaign_waves sha dumps t q = Some p" "sp_planned p"
  shows "sp_hash p = sha (dumps (canonical (plan_content q (upper (strip_text (pq_action q))) (sp_waves p))))"
  using assms by (auto simp: plan_campaign_waves_def Let_def split: option.splits if_splits)

text \<open>A plan holds only devices that were asked for.\<close>

lemma planned_devices_requested:
  assumes "tables_ok t" "plan_campaign_waves sha dumps t q = Some p" "w \<in> set (sp_waves p)"
  shows "set (pw_devices w) \<subseteq> set (pq_devices q)"
proof (cases "find (\<lambda>s. bs_cc s = pq_site q) (st_sites t)")
  case None
  then show ?thesis using assms by (auto simp: plan_campaign_waves_def)
next
  case (Some s)
  let ?R = "resolved_devices t (bs_id s) (sort (remdups (pq_devices q)))"
  show ?thesis
  proof (cases "bs_status s = ''active''")
    case False
    then show ?thesis using assms Some by (auto simp: plan_campaign_waves_def)
  next
    case True
    obtain asg ws where p: "plan_campaign_waves sha dumps t q = Some \<lparr>sp_planned = True,
        sp_waves = assigned_waves ?R (domains_by_device t (dkeys ?R)) asg,
        sp_unplannable = unplannable_devices t (bs_id s) (sort (remdups (pq_devices q))),
        sp_hash = sha (dumps (canonical (plan_content q (upper (strip_text (pq_action q)))
          (assigned_waves ?R (domains_by_device t (dkeys ?R)) asg))))\<rparr>"
      and po: "plan_ok (wave_size_of q) (domains_by_device t (dkeys ?R)) ws asg" and keys: "set (dkeys asg) = set (dkeys ?R)"
      using planned [OF Some True] .
    obtain i where "w = assigned_wave ?R (domains_by_device t (dkeys ?R)) asg i"
      using assms(2,3) unfolding p by (auto simp: assigned_waves_def)
    then show ?thesis using po assigned_devices [OF _ keys] unfolding plan_ok_def dget_resolved [OF assms(1)] by auto
  qed
qed

end
