(* ===== verification/Campaigns.thy ===== *)
theory Campaigns
  imports Approval_Ledger Capabilities Site_Plan
begin

text \<open>
  Campaigns of central command: one governed action run over many sites. This theory holds the rows of a
  campaign, the judgements of \<open>campaigns.py\<close>, and what happens before a campaign runs (\<open>campaign_runner.py\<close> and
  \<open>api/campaigns.py\<close>): preflight with the plans of the sites, the acknowledgement, the waves of a submission. Waves
  live in the one table the approval endpoints decide on. Reason texts, clock columns and audit entries are left out.
\<close>

subsection \<open>The rows\<close>

datatype run_status = CsDraft | CsPreflighted | CsAcknowledged | CsAwaiting | CsRunning | CsCompleted | CsHalted | CsCancelled

datatype applicability = Eligible | WarnNotPermitted | UnknownReach | ExcludedUnimplemented | ExcludedByOperator

datatype reval = RevalNone | RevalOk | LostCapability | NewlyDenied | DeviceAbsent | AuthorityLost | ExecutionWithheld

datatype fleet_target_status = TgPending | TgDispatched | TgCompleted | TgFailed | TgSkipped

datatype branch_status = BrPending | BrRunning | BrCompleted | BrHalted | BrSkipped

record fleet_campaign = campaign_row +
  ca_status :: run_status
  ca_preflighted :: bool
  ca_ack_by :: string
  ca_ack_version :: int
  ca_concurrency :: int
  ca_wave_size :: int

record fleet_target =
  ct_site :: string
  ct_agent :: string
  ct_class :: string
  ct_applicability :: applicability
  ct_status :: fleet_target_status
  ct_reval :: reval
  ct_outcome :: string

record site_branch =
  sb_site :: string
  sb_order :: nat
  sb_status :: branch_status
  sb_current :: int
  sb_count :: nat

record stored_plan =
  pl_version :: int
  pl_site :: string
  pl_hash :: string
  pl_waves :: "plan_wave list"
  pl_superseded :: bool

record dispatch_row =
  dr_version :: int
  dr_site :: string
  dr_agent :: string
  dr_wave :: int
  dr_plan :: string
  dr_auth :: string
  dr_accepted :: bool

text \<open>A campaign's rows, beside the tables of the approval endpoints; plans in the order they were received.\<close>

record book =
  bk_desk :: desk
  bk_campaign :: fleet_campaign
  bk_rules :: "grant_row list"
  bk_targets :: "fleet_target list"
  bk_branches :: "site_branch list"
  bk_plans :: "stored_plan list"
  bk_ledger :: "dispatch_row list"

text \<open>What the rest of the system answers during a call: the stop switch, the sites' planners (no answer is an exception),
  the assessments of the sites, the identity plane, the declarations in the fleet cache, the sites' acceptance of a
  dispatch, and the outcome rows in the order they arrived as (actor, device, outcome).\<close>

record world =
  wd_now :: time
  wd_stop :: bool
  wd_reach :: reach
  wd_site_name :: "string \<Rightarrow> string"
  wd_site_plan :: "string \<Rightarrow> plan_request \<Rightarrow> site_plan option"
  wd_local :: "string \<Rightarrow> string"
  wd_gate :: "string \<Rightarrow> bool"
  wd_realm :: string
  wd_identity :: "string \<Rightarrow> identity_answer option"
  wd_declared :: "fleet_row \<Rightarrow> capability_decl option"
  wd_accepts :: "string \<Rightarrow> string \<Rightarrow> bool"
  wd_outcomes :: "(string \<times> string \<times> string) list"

definition at_branch :: "string \<Rightarrow> (site_branch \<Rightarrow> site_branch) \<Rightarrow> book \<Rightarrow> book" where
  "at_branch i f bk = bk\<lparr>bk_branches := map (\<lambda>s. if sb_site s = i then f s else s) (bk_branches bk)\<rparr>"

definition at_target :: "string \<Rightarrow> (fleet_target \<Rightarrow> fleet_target) \<Rightarrow> book \<Rightarrow> book" where
  "at_target a f bk = bk\<lparr>bk_targets := map (\<lambda>t. if ct_agent t = a then f t else t) (bk_targets bk)\<rparr>"

definition campaign_waves :: "book \<Rightarrow> campaign_wave list" where
  "campaign_waves bk = filter (\<lambda>w. wv_campaign w = ca_id (bk_campaign bk)) (dk_waves (bk_desk bk))"

definition site_waves :: "book \<Rightarrow> string \<Rightarrow> campaign_wave list" where
  "site_waves bk i = filter (\<lambda>w. wv_site w = i) (campaign_waves bk)"

definition at_waves :: "(campaign_wave \<Rightarrow> bool) \<Rightarrow> (campaign_wave \<Rightarrow> campaign_wave) \<Rightarrow> book \<Rightarrow> book" where
  "at_waves P f bk = bk\<lparr>bk_desk := (bk_desk bk)\<lparr>dk_waves :=
     map (\<lambda>w. if wv_campaign w = ca_id (bk_campaign bk) \<and> P w then f w else w) (dk_waves (bk_desk bk))\<rparr>\<rparr>"

definition clear_waves :: "book \<Rightarrow> book" where
  "clear_waves bk = bk\<lparr>bk_desk := (bk_desk bk)\<lparr>dk_waves := filter (\<lambda>w. wv_campaign w \<noteq> ca_id (bk_campaign bk)) (dk_waves (bk_desk bk))\<rparr>\<rparr>"

subsection \<open>Judgements\<close>

definition dispatchable :: "applicability \<Rightarrow> bool" where
  "dispatchable a \<longleftrightarrow> a \<in> {Eligible, WarnNotPermitted, UnknownReach}"

definition needs_acknowledgement :: "applicability \<Rightarrow> bool" where
  "needs_acknowledgement a \<longleftrightarrow> a \<in> {WarnNotPermitted, UnknownReach}"

definition platform_implements :: "world \<Rightarrow> string \<Rightarrow> bool" where
  "platform_implements wd action = (case dget (action_facts (wd_reach wd)) action of None \<Rightarrow> False | Some f \<Rightarrow> af_implemented f)"

definition target_applicability :: "capability_decl option \<Rightarrow> string \<Rightarrow> bool \<Rightarrow> applicability" where
  "target_applicability decl action implemented =
     (if \<not> implemented then ExcludedUnimplemented
      else (case implemented_actions decl of None \<Rightarrow> UnknownReach
        | Some acts \<Rightarrow> if action \<notin> set acts then ExcludedUnimplemented
            else (case effective_actions decl of None \<Rightarrow> Eligible
              | Some ok \<Rightarrow> if action \<notin> set ok then WarnNotPermitted else Eligible)))"

definition revalidate_target :: "capability_decl option option \<Rightarrow> string \<Rightarrow> bool \<Rightarrow> bool \<Rightarrow> reval" where
  "revalidate_target device action implemented acknowledged =
     (case device of None \<Rightarrow> DeviceAbsent
      | Some decl \<Rightarrow>
          if \<not> implemented then LostCapability
          else if (case implemented_actions decl of None \<Rightarrow> False | Some acts \<Rightarrow> action \<notin> set acts) then LostCapability
          else if (case effective_actions decl of None \<Rightarrow> False | Some ok \<Rightarrow> action \<notin> set ok) \<and> \<not> acknowledged then NewlyDenied
          else RevalOk)"

definition narrow_only :: "string list \<Rightarrow> string list \<Rightarrow> string set" where
  "narrow_only approved revalidated = set approved \<inter> set revalidated"

definition acknowledgement_valid :: "fleet_campaign \<Rightarrow> bool" where
  "acknowledgement_valid c \<longleftrightarrow> ca_ack_by c \<noteq> [] \<and> ca_ack_version c = ca_version c"

definition acknowledgement_required :: "fleet_target list \<Rightarrow> fleet_target list" where
  "acknowledgement_required ts = filter (\<lambda>t. needs_acknowledgement (ct_applicability t)) ts"

definition can_seek_approval :: "fleet_campaign \<Rightarrow> fleet_target list \<Rightarrow> bool" where
  "can_seek_approval c ts \<longleftrightarrow> ca_status c \<in> {CsPreflighted, CsAcknowledged} \<and> ca_preflighted c \<and>
     (let live = filter (\<lambda>t. dispatchable (ct_applicability t)) ts
      in live \<noteq> [] \<and> (acknowledgement_required live = [] \<or> acknowledgement_valid c))"

text \<open>By name, then by identifier: the second, stable sort is by name.\<close>

definition plan_site_order :: "string set \<Rightarrow> (string \<Rightarrow> string) \<Rightarrow> string list" where
  "plan_site_order sites name = sort_key name (sorted_list_of_set sites)"

definition campaign_terminal_state :: "site_branch list \<Rightarrow> run_status option" where
  "campaign_terminal_state rows =
     (if rows = [] then None
      else if \<exists>r \<in> set rows. sb_status r \<in> {BrPending, BrRunning} then None
      else if \<exists>r \<in> set rows. sb_status r = BrHalted then Some CsHalted else Some CsCompleted)"

definition wave_runnable :: "string \<Rightarrow> bool" where
  "wave_runnable s \<longleftrightarrow> s = ''autonomous'' \<or> s = ''approved''"

definition wave_voidable :: "string \<Rightarrow> bool" where
  "wave_voidable s \<longleftrightarrow> s = ''autonomous'' \<or> s = ''pending_approval'' \<or> s = ''approved''"

definition wave_finished :: "string \<Rightarrow> bool" where
  "wave_finished s \<longleftrightarrow> s = ''completed'' \<or> s = ''failed'' \<or> s = ''denied'' \<or> s = ''voided''"

definition plan_is_current :: "string \<Rightarrow> string \<Rightarrow> bool" where
  "plan_is_current stored replanned \<longleftrightarrow> stored \<noteq> [] \<and> stored = replanned"

definition campaign_actor :: "fleet_campaign \<Rightarrow> string" where
  "campaign_actor c = ''campaign:'' @ ca_id c @ ''@v'' @
     (if ca_version c < 0 then ''-'' @ decimal (nat (- ca_version c)) else decimal (nat (ca_version c)))"

subsection \<open>Preflight\<close>

text \<open>\<open>operational_agent.resolve_scope\<close>: the devices a set of rules selects.\<close>

definition select_devices :: "grant_row list \<Rightarrow> string set \<Rightarrow> time \<Rightarrow> fleet_row list \<Rightarrow> fleet_row list" where
  "select_devices rules sites now devices =
     (let live = filter (grant_active now) rules;
          site_ids = set (map gr_sref (filter (\<lambda>r. gr_stype r = ''site'') live)) \<union> sites;
          classes = set (map (lower \<circ> gr_sref) (filter (\<lambda>r. gr_stype r = ''device_class'') live));
          ids = set (map gr_sref (filter (\<lambda>r. gr_stype r = ''device'') live))
      in if live = [] then []
         else filter (\<lambda>d. fr_agent d \<in> ids \<or> fr_site d \<in> site_ids \<or> fr_class d \<noteq> [] \<and> lower (fr_class d) \<in> classes) devices)"

definition preflight_row :: "world \<Rightarrow> string \<Rightarrow> fleet_row \<Rightarrow> fleet_target" where
  "preflight_row wd action d =
     \<lparr>ct_site = fr_site d, ct_agent = fr_agent d, ct_class = (if fr_class d = [] then ''server'' else fr_class d),
      ct_applicability = target_applicability (wd_declared wd d) action (platform_implements wd action),
      ct_status = TgPending, ct_reval = RevalNone, ct_outcome = []\<rparr>"

definition dispatchable_at :: "book \<Rightarrow> string \<Rightarrow> string list" where
  "dispatchable_at bk i = sort (map ct_agent (filter (\<lambda>t. ct_site t = i \<and> dispatchable (ct_applicability t)) (bk_targets bk)))"

definition site_registered :: "book \<Rightarrow> string \<Rightarrow> bool" where
  "site_registered bk i \<longleftrightarrow> (\<exists>c \<in> set (az_sites (dk_authz (bk_desk bk))). cs_id c = i)"

definition request_for :: "book \<Rightarrow> string \<Rightarrow> plan_request" where
  "request_for bk i = \<lparr>pq_campaign = ca_id (bk_campaign bk), pq_version = ca_version (bk_campaign bk), pq_site = i,
     pq_action = ca_action (bk_campaign bk), pq_devices = dispatchable_at bk i, pq_size = ca_wave_size (bk_campaign bk)\<rparr>"

text \<open>A plan is stored once; storing a known one changes nothing, not even that it was superseded.\<close>

definition store_plan :: "int \<Rightarrow> string \<Rightarrow> site_plan \<Rightarrow> stored_plan list \<Rightarrow> stored_plan list" where
  "store_plan version i p ps =
     (if \<exists>q \<in> set ps. pl_version q = version \<and> pl_site q = i \<and> pl_hash q = sp_hash p then ps
      else ps @ [\<lparr>pl_version = version, pl_site = i, pl_hash = sp_hash p, pl_waves = sp_waves p, pl_superseded = False\<rparr>])"

definition supersede_plans :: "string \<Rightarrow> string \<Rightarrow> stored_plan list \<Rightarrow> stored_plan list" where
  "supersede_plans i keep ps = map (\<lambda>q. if pl_site q = i \<and> pl_hash q \<noteq> keep then q\<lparr>pl_superseded := True\<rparr> else q) ps"

definition current_plan :: "book \<Rightarrow> string \<Rightarrow> stored_plan option" where
  "current_plan bk i = (case rev (filter (\<lambda>q. pl_site q = i \<and> \<not> pl_superseded q) (bk_plans bk)) of [] \<Rightarrow> None | q # _ \<Rightarrow> Some q)"

definition plan_devices :: "site_plan \<Rightarrow> string set" where
  "plan_devices p = set (concat (map pw_devices (sp_waves p)))"

definition plan_site :: "world \<Rightarrow> book \<Rightarrow> string \<Rightarrow> book" where
  "plan_site wd bk i =
     (let eligible = dispatchable_at bk i; skip = at_branch i (\<lambda>s. s\<lparr>sb_status := BrSkipped\<rparr>) bk in
      if \<not> site_registered bk i \<or> eligible = [] then skip
      else (case wd_site_plan wd i (request_for bk i) of
          None \<Rightarrow> at_branch i (\<lambda>s. s\<lparr>sb_status := BrPending\<rparr>) bk
        | Some p \<Rightarrow>
            if \<not> sp_planned p then skip
            else if \<not> plan_devices p \<subseteq> set eligible then skip
            else (let bk1 = bk\<lparr>bk_plans := supersede_plans i (sp_hash p)
                          (store_plan (ca_version (bk_campaign bk)) i p (bk_plans bk))\<rparr>;
                      bk2 = fold (\<lambda>a. at_target a (\<lambda>t. t\<lparr>ct_status := TgSkipped\<rparr>)) (sp_unplannable p) bk1
                  in at_branch i (\<lambda>s. s\<lparr>sb_count := length (sp_waves p), sb_current := 0, sb_status := BrPending\<rparr>) bk2)))"

definition plan_sites :: "world \<Rightarrow> book \<Rightarrow> book" where
  "plan_sites wd bk =
     clear_waves (fold (\<lambda>i b. plan_site wd b i) (map sb_site (filter (\<lambda>s. sb_status s \<noteq> BrSkipped) (bk_branches bk))) bk)"

text \<open>One row for a device of the campaign; two are refused by the table.\<close>

definition preflight :: "world \<Rightarrow> book \<Rightarrow> grant_row list \<Rightarrow> string set \<Rightarrow> read_reach \<Rightarrow> api_error + book" where
  "preflight wd bk rules sites reach =
     (let c = bk_campaign bk;
          devices = filter (\<lambda>d. rr_covers_device reach (fr_agent d) (fr_site d) (fr_class d))
                      (select_devices rules sites (wd_now wd) (dk_fleet (bk_desk bk)));
          rows = map (preflight_row wd (ca_action c)) devices;
          live = ct_site ` set (filter (\<lambda>t. dispatchable (ct_applicability t)) rows);
          order = plan_site_order live (wd_site_name wd)
      in if dget (action_facts (wd_reach wd)) (ca_action c) = None then Inl (Http 500 ''ValueError'')
         else if \<not> distinct (map ct_agent rows) then Inl (Http 500 ''IntegrityError'')
         else Inr (plan_sites wd (bk\<lparr>bk_targets := rows,
             bk_branches := map (\<lambda>(n, i). \<lparr>sb_site = i, sb_order = n, sb_status = BrPending, sb_current = 0, sb_count = 0\<rparr>) (enumerate 0 order),
             bk_campaign := c\<lparr>ca_status := CsPreflighted, ca_preflighted := True, ca_ack_by := [], ca_ack_version := 0\<rparr>\<rparr>)))"

definition editable :: "run_status \<Rightarrow> bool" where
  "editable s \<longleftrightarrow> s \<in> {CsDraft, CsPreflighted, CsAcknowledged}"

text \<open>\<open>_scope_rule_within\<close> and the ceiling: the caller holds the permission over every rule.\<close>

definition rule_within :: "resolved_scope \<Rightarrow> grant_row \<Rightarrow> string \<Rightarrow> scope_error + bool" where
  "rule_within s r p =
     (if gr_stype r = ''tenant'' then permits s p tenant_query
      else if gr_stype r = ''site'' then permits s p (site_query (gr_sref r))
      else if gr_stype r = ''org_unit'' then
        (let path = dget_or (rs_unit_paths s) (gr_sref r) [] in if path = [] then Inr False else permits s p (unit_query path))
      else if gr_stype r = ''device'' then permits s p (device_query [] (gr_sref r) [])
      else permits s p tenant_query)"

fun ceiling_ok :: "resolved_scope \<Rightarrow> grant_row list \<Rightarrow> api_error + unit" where
  "ceiling_ok s [] = Inr ()"
| "ceiling_ok s (r # rs) = (case rule_within s r ''site.manage'' of Inl _ \<Rightarrow> Inl ScopeMisused
     | Inr b \<Rightarrow> andthen (require b (Http 403 ''ceiling'')) (\<lambda>_. ceiling_ok s rs))"

definition rule_reach :: "book \<Rightarrow> string set" where
  "rule_reach bk = expand_rules_to_site_ids (bk_rules bk) (az_units (dk_authz (bk_desk bk))) (az_sites (dk_authz (bk_desk bk)))"

definition campaign_visible :: "resolved_scope \<Rightarrow> book \<Rightarrow> api_error + bool" where
  "campaign_visible s bk =
     (case read_reach_of s [''fleet.view''] of Inl _ \<Rightarrow> Inl ScopeMisused
      | Inr r \<Rightarrow> Inr (rr_tenant_wide r \<or>
          (if bk_branches bk \<noteq> [] then sb_site ` set (bk_branches bk) \<inter> rr_site_ids r \<noteq> {}
           else \<not> (\<exists>x \<in> set (bk_rules bk). gr_stype x = ''device'' \<or> gr_stype x = ''device_class'') \<and>
             rule_reach bk \<inter> rr_site_ids r \<noteq> {})))"

definition may_manage :: "user_ctx \<Rightarrow> bool" where
  "may_manage u \<longleftrightarrow> ''site.manage'' \<in> set (uc_perms u) \<or> ''*'' \<in> set (uc_perms u)"

text \<open>The gate of every endpoint that changes a campaign: permission of the route, visibility, then the ceiling.\<close>

definition require_operable :: "world \<Rightarrow> user_ctx \<Rightarrow> book \<Rightarrow> api_error + resolved_scope" where
  "require_operable wd u bk =
     (let s = load_scope (dk_authz (bk_desk bk)) u (wd_now wd) in
      andthen (require (may_manage u) (Http 403 ''permission'')) (\<lambda>_.
      andthen (campaign_visible s bk) (\<lambda>v.
      andthen (require v (Http 404 ''campaign'')) (\<lambda>_.
      andthen (ceiling_ok s (bk_rules bk)) (\<lambda>_. Inr s)))))"

definition preflight_campaign :: "world \<Rightarrow> user_ctx \<Rightarrow> book \<Rightarrow> api_error + book" where
  "preflight_campaign wd u bk =
     andthen (require (may_manage u) (Http 403 ''permission'')) (\<lambda>_.
     andthen (require (editable (ca_status (bk_campaign bk))) (Http 409 ''status'')) (\<lambda>_.
     andthen (require_operable wd u bk) (\<lambda>s.
     case read_reach_of s [''site.manage''] of Inl _ \<Rightarrow> Inl ScopeMisused
     | Inr r \<Rightarrow> preflight wd bk (bk_rules bk) (rule_reach bk) r)))"

subsection \<open>Acknowledgement\<close>

definition acknowledge :: "book \<Rightarrow> string list \<Rightarrow> string \<Rightarrow> book" where
  "acknowledge bk exclude actor =
     (let c = bk_campaign bk;
          targets = map (\<lambda>t. if ct_agent t \<in> set exclude \<and> dispatchable (ct_applicability t)
             then t\<lparr>ct_applicability := ExcludedByOperator\<rparr> else t) (bk_targets bk);
          live = ct_site ` set (filter (\<lambda>t. dispatchable (ct_applicability t)) targets)
      in bk\<lparr>bk_targets := targets,
            bk_campaign := c\<lparr>ca_ack_by := actor, ca_ack_version := ca_version c, ca_status := CsAcknowledged\<rparr>,
            bk_branches := map (\<lambda>s. if sb_site s \<notin> live \<and> sb_status s = BrPending then s\<lparr>sb_status := BrSkipped\<rparr> else s)
              (bk_branches bk)\<rparr>)"

definition acknowledge_campaign :: "world \<Rightarrow> user_ctx \<Rightarrow> book \<Rightarrow> string list \<Rightarrow> bool \<Rightarrow> api_error + book" where
  "acknowledge_campaign wd u bk exclude confirm =
     andthen (require_operable wd u bk) (\<lambda>_.
     andthen (require (editable (ca_status (bk_campaign bk))) (Http 409 ''status'')) (\<lambda>_.
     andthen (require (ca_preflighted (bk_campaign bk)) (Http 409 ''preflight'')) (\<lambda>_.
     andthen (require (confirm \<or> (\<forall>t \<in> set (acknowledgement_required (bk_targets bk)). ct_agent t \<in> set exclude)) (Http 400 ''confirm''))
       (\<lambda>_. Inr (acknowledge bk exclude (actor_name u))))))"

subsection \<open>Submission\<close>

definition wave_of :: "(bytes \<Rightarrow> string) \<Rightarrow> (pyval \<Rightarrow> bytes) \<Rightarrow> fleet_campaign \<Rightarrow> bool \<Rightarrow> stored_plan \<Rightarrow> plan_wave \<Rightarrow> campaign_wave" where
  "wave_of sha dumps c autonomous p w =
     (let devices = sort (pw_devices w) in
      \<lparr>wv_campaign = ca_id c, wv_version = ca_version c, wv_site = pl_site p, wv_index = int (pw_index w), wv_plan = pl_hash p,
       wv_devices = devices,
       wv_subject = (if autonomous then [] else
          wave_subject_ref sha dumps (ca_id c) (ca_version c) (pl_site p) (int (pw_index w)) devices (pl_hash p)),
       wv_status = (if autonomous then ''autonomous'' else ''pending_approval''), wv_decided_by = []\<rparr>)"

definition built_waves :: "(bytes \<Rightarrow> string) \<Rightarrow> (pyval \<Rightarrow> bytes) \<Rightarrow> book \<Rightarrow> bool \<Rightarrow> campaign_wave list" where
  "built_waves sha dumps bk autonomous =
     concat (map (\<lambda>s. if sb_status s = BrSkipped then []
         else (case current_plan bk (sb_site s) of None \<Rightarrow> []
           | Some p \<Rightarrow> map (wave_of sha dumps (bk_campaign bk) autonomous p) (filter (\<lambda>w. pw_devices w \<noteq> []) (pl_waves p))))
       (bk_branches bk))"

definition wave_key :: "campaign_wave \<Rightarrow> string \<times> int \<times> string \<times> int \<times> string" where
  "wave_key w = (wv_campaign w, wv_version w, wv_site w, wv_index w, wv_plan w)"

text \<open>Two rows with one key are refused by the table.\<close>

definition build_waves :: "(bytes \<Rightarrow> string) \<Rightarrow> (pyval \<Rightarrow> bytes) \<Rightarrow> book \<Rightarrow> bool \<Rightarrow> api_error + book" where
  "build_waves sha dumps bk autonomous =
     (let bk1 = clear_waves bk; new = built_waves sha dumps bk autonomous in
      if \<not> distinct (map wave_key new) then Inl (Http 500 ''IntegrityError'')
      else Inr (bk1\<lparr>bk_desk := (bk_desk bk1)\<lparr>dk_waves := dk_waves (bk_desk bk1) @ new\<rparr>\<rparr>))"

definition submit_campaign ::
  "(bytes \<Rightarrow> string) \<Rightarrow> (pyval \<Rightarrow> bytes) \<Rightarrow> world \<Rightarrow> user_ctx \<Rightarrow> book \<Rightarrow> string \<Rightarrow> api_error + book" where
  "submit_campaign sha dumps wd u bk disposition =
     andthen (require_operable wd u bk) (\<lambda>_.
     andthen (require (can_seek_approval (bk_campaign bk) (bk_targets bk)) (Http 409 ''approval'')) (\<lambda>_.
     andthen (require (disposition \<noteq> ''denied'') (Http 409 ''denied'')) (\<lambda>_.
     let autonomous = (disposition = ''autonomous'') in
     andthen (build_waves sha dumps bk autonomous) (\<lambda>bk'.
     andthen (require (campaign_waves bk' \<noteq> []) (Http 409 ''no plan'')) (\<lambda>_.
     Inr (bk'\<lparr>bk_campaign := (bk_campaign bk')\<lparr>ca_status := (if autonomous then CsRunning else CsAwaiting)\<rparr>\<rparr>))))))"

definition cancel_campaign :: "world \<Rightarrow> user_ctx \<Rightarrow> book \<Rightarrow> api_error + book" where
  "cancel_campaign wd u bk =
     andthen (require_operable wd u bk) (\<lambda>_.
     andthen (require (ca_status (bk_campaign bk) \<notin> {CsCompleted, CsHalted, CsCancelled}) (Http 409 ''already'')) (\<lambda>_.
     Inr (bk\<lparr>bk_campaign := (bk_campaign bk)\<lparr>ca_status := CsCancelled\<rparr>\<rparr>)))"

end
