(* ===== verification/Campaign_Runner.thy ===== *)
theory Campaign_Runner
  imports Campaigns
begin

text \<open>
  Running a campaign (\<open>campaign_runner.py\<close> and \<open>agent_activation.site_local_gate\<close>): settling dispatched waves from
  outcomes, halting a site, and one wave per site and pass behind its gates - the stop switch, the authorization of the
  wave, the plan, the authority of its approvers, the assessment of the site and the safety gate, and the devices.
  Reason texts, clock columns and audit entries are left out. The transport to a site is an input; an exception of it
  is a refused dispatch.
\<close>

subsection \<open>Halting\<close>

definition void_site_waves :: "string \<Rightarrow> book \<Rightarrow> book" where
  "void_site_waves i = at_waves (\<lambda>w. wv_site w = i \<and> wave_voidable (wv_status w)) (\<lambda>w. w\<lparr>wv_status := ''voided''\<rparr>)"

definition halt_site :: "string \<Rightarrow> book \<Rightarrow> book" where
  "halt_site i bk =
     (if i \<in> sb_site ` set (bk_branches bk) then void_site_waves i (at_branch i (\<lambda>s. s\<lparr>sb_status := BrHalted\<rparr>) bk) else bk)"

subsection \<open>Settling\<close>

definition last_outcome :: "world \<Rightarrow> string \<Rightarrow> string \<Rightarrow> string option" where
  "last_outcome wd actor a =
     (case rev (filter (\<lambda>(who, d, r). who = actor \<and> d = a) (wd_outcomes wd)) of [] \<Rightarrow> None | (_, _, r) # _ \<Rightarrow> Some (upper r))"

definition wave_rows :: "book \<Rightarrow> campaign_wave \<Rightarrow> dispatch_row list" where
  "wave_rows bk w = filter (\<lambda>d. dr_version d = ca_version (bk_campaign bk) \<and> dr_site d = wv_site w \<and> dr_wave d = wv_index w \<and> dr_plan d = wv_plan w)
     (bk_ledger bk)"

definition same_wave :: "campaign_wave \<Rightarrow> campaign_wave \<Rightarrow> bool" where
  "same_wave w v \<longleftrightarrow> wave_key w = wave_key v"

definition set_wave :: "campaign_wave \<Rightarrow> string \<Rightarrow> book \<Rightarrow> book" where
  "set_wave w st = at_waves (same_wave w) (\<lambda>v. v\<lparr>wv_status := st\<rparr>)"

definition settle_wave :: "world \<Rightarrow> book \<Rightarrow> campaign_wave \<Rightarrow> book" where
  "settle_wave wd bk w =
     (let rows = wave_rows bk w; actor = campaign_actor (bk_campaign bk);
          refused = map dr_agent (filter (\<lambda>d. \<not> dr_accepted d) rows);
          accepted = map dr_agent (filter dr_accepted rows);
          outcome = last_outcome wd actor
      in if accepted = [] then halt_site (wv_site w) (set_wave w ''failed'' bk)
         else if \<exists>d \<in> set accepted. outcome d = None then bk
         else (let failures = filter (\<lambda>d. case outcome d of None \<Rightarrow> False | Some r \<Rightarrow> r \<noteq> [] \<and> r \<noteq> ''SUCCESS'') accepted @ refused;
                   bk1 = fold (\<lambda>d. at_target d (\<lambda>t. t\<lparr>ct_outcome := (case outcome d of None \<Rightarrow> [] | Some r \<Rightarrow> r),
                            ct_status := (if outcome d = Some ''SUCCESS'' then TgCompleted else TgFailed)\<rparr>)) accepted bk
               in if failures \<noteq> [] then halt_site (wv_site w) (set_wave w ''failed'' bk1)
                  else at_branch (wv_site w) (\<lambda>s. s\<lparr>sb_current := wv_index w + 1\<rparr>) (set_wave w ''completed'' bk1)))"

definition settle_dispatched_waves :: "world \<Rightarrow> book \<Rightarrow> book" where
  "settle_dispatched_waves wd bk =
     fold (\<lambda>w b. settle_wave wd b w) (filter (\<lambda>w. wv_status w = ''dispatched'') (campaign_waves bk)) bk"

definition settle_campaign :: "book \<Rightarrow> book" where
  "settle_campaign bk =
     (case campaign_terminal_state (filter (\<lambda>s. sb_status s \<noteq> BrSkipped) (bk_branches bk)) of None \<Rightarrow> bk
      | Some st \<Rightarrow> bk\<lparr>bk_campaign := (bk_campaign bk)\<lparr>ca_status := st\<rparr>\<rparr>)"

subsection \<open>Dispatching one wave\<close>

definition device_row :: "book \<Rightarrow> string \<Rightarrow> string \<Rightarrow> fleet_row option" where
  "device_row bk i a = device_at_site (dk_fleet (bk_desk bk)) i a"

definition device_verdict :: "world \<Rightarrow> book \<Rightarrow> string \<Rightarrow> string \<Rightarrow> reval" where
  "device_verdict wd bk i a = revalidate_target (map_option (wd_declared wd) (device_row bk i a)) (ca_action (bk_campaign bk))
     (platform_implements wd (ca_action (bk_campaign bk))) (acknowledgement_valid (bk_campaign bk))"

definition note_verdict :: "world \<Rightarrow> book \<Rightarrow> string \<Rightarrow> string \<Rightarrow> book \<Rightarrow> book" where
  "note_verdict wd bk0 i a = at_target a (\<lambda>t. t\<lparr>ct_reval := device_verdict wd bk0 i a,
     ct_status := (if device_verdict wd bk0 i a = RevalOk then ct_status t else TgSkipped)\<rparr>)"

definition revalidate_wave :: "world \<Rightarrow> book \<Rightarrow> string \<Rightarrow> string list \<Rightarrow> book \<times> string list" where
  "revalidate_wave wd bk i approved =
     (fold (note_verdict wd bk i) approved bk,
      sorted_list_of_set (narrow_only approved (filter (\<lambda>a. device_verdict wd bk i a = RevalOk) approved)))"

definition already_dispatched :: "book \<Rightarrow> string \<Rightarrow> string \<Rightarrow> int \<Rightarrow> string \<Rightarrow> bool" where
  "already_dispatched bk i a n plan \<longleftrightarrow> (\<exists>d \<in> set (bk_ledger bk). dr_version d = ca_version (bk_campaign bk) \<and> dr_site d = i \<and> dr_agent d = a \<and>
     dr_wave d = n \<and> dr_plan d = plan)"

definition dispatch_device :: "world \<Rightarrow> campaign_wave \<Rightarrow> string \<Rightarrow> book \<Rightarrow> book" where
  "dispatch_device wd w a bk =
     (if already_dispatched bk (wv_site w) a (wv_index w) (wv_plan w) then bk
      else (let ok = wd_accepts wd (wv_site w) a in
        at_target a (\<lambda>t. t\<lparr>ct_status := (if ok then TgDispatched else TgFailed)\<rparr>)
          (bk\<lparr>bk_ledger := bk_ledger bk @ [\<lparr>dr_version = ca_version (bk_campaign bk), dr_site = wv_site w, dr_agent = a, dr_wave = wv_index w,
             dr_plan = wv_plan w, dr_auth = (if wv_status w = ''autonomous'' then ''autonomous_grant'' else ''human_approval''),
             dr_accepted = ok\<rparr>]\<rparr>)))"

subsection \<open>The gates\<close>

definition site_local_gate :: "string \<Rightarrow> bool \<Rightarrow> bool \<Rightarrow> bool" where
  "site_local_gate disposition suppressed autonomous =
     (if autonomous then disposition = ''autonomous'' \<and> \<not> suppressed else disposition \<noteq> ''denied'')"

definition eligible_now :: "world \<Rightarrow> campaign_wave \<Rightarrow> bool" where
  "eligible_now wd w \<longleftrightarrow> site_local_gate (wd_local wd (wv_site w)) False (wv_status w = ''autonomous'') \<and> wd_gate wd (wv_site w)"

definition authority_of :: "world \<Rightarrow> string \<Rightarrow> current_basis" where
  "authority_of wd who = approver_current_basis (wd_realm wd) who (wd_identity wd who)"

definition wave_authority ::
  "(bytes \<Rightarrow> string) \<Rightarrow> (pyval \<Rightarrow> bytes) \<Rightarrow> world \<Rightarrow> book \<Rightarrow> campaign_wave \<Rightarrow> target_error + wave_verdict" where
  "wave_authority sha dumps wd bk w =
     wave_dispatch_authority sha dumps (bk_desk bk) (wd_now wd) (campaign_row.truncate (bk_campaign bk)) w (authority_of wd)"

definition mark_wave_targets :: "campaign_wave \<Rightarrow> reval \<Rightarrow> book \<Rightarrow> book" where
  "mark_wave_targets w v bk = bk\<lparr>bk_targets := map (\<lambda>t. if ct_site t = wv_site w \<and> ct_agent t \<in> set (wv_devices w)
     then t\<lparr>ct_reval := v\<rparr> else t) (bk_targets bk)\<rparr>"

datatype bucket = Advanced | Blocked | Halted

definition next_wave :: "book \<Rightarrow> string \<Rightarrow> campaign_wave option" where
  "next_wave bk i = (case sort_key wv_index (filter (\<lambda>w. \<not> wave_finished (wv_status w)) (site_waves bk i)) of [] \<Rightarrow> None | w # _ \<Rightarrow> Some w)"

text \<open>Capability and policy narrow the wave, then it is handed to the site.\<close>

definition launch_wave :: "world \<Rightarrow> book \<Rightarrow> campaign_wave \<Rightarrow> book" where
  "launch_wave wd bk w =
     (let (bk1, final) = revalidate_wave wd bk (wv_site w) (wv_devices w) in
      if final = [] then at_branch (wv_site w) (\<lambda>s. s\<lparr>sb_current := wv_index w + 1\<rparr>) (set_wave w ''completed'' bk1)
      else (let bk2 = fold (dispatch_device wd w) final (at_branch (wv_site w) (\<lambda>s. s\<lparr>sb_status := BrRunning\<rparr>) bk1)
            in at_branch (wv_site w) (\<lambda>s. s\<lparr>sb_current := wv_index w\<rparr>) (set_wave w ''dispatched'' bk2)))"

definition advance_site ::
  "(bytes \<Rightarrow> string) \<Rightarrow> (pyval \<Rightarrow> bytes) \<Rightarrow> world \<Rightarrow> book \<Rightarrow> string \<Rightarrow> target_error + book \<times> bucket" where
  "advance_site sha dumps wd bk i =
     (case next_wave bk i of
        None \<Rightarrow> Inr (at_branch i (\<lambda>s. s\<lparr>sb_status := BrCompleted\<rparr>) bk, Advanced)
      | Some w \<Rightarrow>
          if \<not> wave_runnable (wv_status w) then Inr (bk, Blocked)
          else if \<not> site_registered bk i then Inr (halt_site i bk, Halted)
          else (case wd_site_plan wd i (request_for bk i) of
              None \<Rightarrow> Inr (halt_site i bk, Halted)
            | Some p \<Rightarrow>
                if \<not> sp_planned p \<or> \<not> plan_is_current (wv_plan w) (sp_hash p) then
                  Inr (at_branch i (\<lambda>s. s\<lparr>sb_status := BrPending\<rparr>)
                    (void_site_waves i (bk\<lparr>bk_plans := supersede_plans i (sp_hash p) (bk_plans bk)\<rparr>)), Blocked)
                else andthen (if wv_status w = ''approved'' then (case wave_authority sha dumps wd bk w of Inl e \<Rightarrow> Inl e | Inr v \<Rightarrow> Inr (wo_ok v)) else Inr True)
                  (\<lambda>ok. if \<not> ok then Inr (mark_wave_targets w AuthorityLost bk, Blocked)
                    else if \<not> eligible_now wd w then Inr (mark_wave_targets w ExecutionWithheld bk, Blocked)
                    else Inr (launch_wave wd bk w, Advanced))))"

fun advance_sites ::
  "(bytes \<Rightarrow> string) \<Rightarrow> (pyval \<Rightarrow> bytes) \<Rightarrow> world \<Rightarrow> string list \<Rightarrow> book \<Rightarrow> target_error + book" where
  "advance_sites sha dumps wd [] bk = Inr bk"
| "advance_sites sha dumps wd (i # is) bk = andthen (advance_site sha dumps wd bk i) (\<lambda>(bk', _). advance_sites sha dumps wd is bk')"

definition active_sites :: "book \<Rightarrow> string list" where
  "active_sites bk =
     (let running = filter (\<lambda>s. sb_status s = BrRunning) (bk_branches bk); startable = filter (\<lambda>s. sb_status s = BrPending) (bk_branches bk);
          concurrency = max 1 (if ca_concurrency (bk_campaign bk) = 0 then 1 else ca_concurrency (bk_campaign bk))
      in map sb_site (running @ take (nat (max 0 (concurrency - int (length running)))) startable))"

definition advance_campaign ::
  "(bytes \<Rightarrow> string) \<Rightarrow> (pyval \<Rightarrow> bytes) \<Rightarrow> world \<Rightarrow> book \<Rightarrow> target_error + book" where
  "advance_campaign sha dumps wd bk =
     (if wd_stop wd then Inr bk
      else (let bk1 = settle_dispatched_waves wd bk
            in andthen (advance_sites sha dumps wd (active_sites bk1) bk1) (\<lambda>bk2. Inr (settle_campaign bk2))))"

definition advance_endpoint ::
  "(bytes \<Rightarrow> string) \<Rightarrow> (pyval \<Rightarrow> bytes) \<Rightarrow> world \<Rightarrow> user_ctx \<Rightarrow> book \<Rightarrow> api_error + book" where
  "advance_endpoint sha dumps wd u bk =
     andthen (require_operable wd u bk) (\<lambda>_.
     andthen (require (ca_status (bk_campaign bk) \<in> {CsRunning, CsAwaiting}) (Http 409 ''status'')) (\<lambda>_.
     case advance_campaign sha dumps wd (bk\<lparr>bk_campaign := (bk_campaign bk)\<lparr>ca_status := CsRunning\<rparr>\<rparr>) of
       Inl _ \<Rightarrow> Inl (Http 500 ''raised'') | Inr bk' \<Rightarrow> Inr bk'))"

text \<open>A pass of the background loop over one campaign.\<close>

definition run_campaign ::
  "(bytes \<Rightarrow> string) \<Rightarrow> (pyval \<Rightarrow> bytes) \<Rightarrow> world \<Rightarrow> book \<Rightarrow> target_error + book" where
  "run_campaign sha dumps wd bk =
     (if ca_status (bk_campaign bk) \<in> {CsRunning, CsAwaiting} then advance_campaign sha dumps wd bk else Inr bk)"

text \<open>A pass that raises at one of its sites: the loop logs it and commits what the sites before that one left.\<close>

definition raised_pass ::
  "(bytes \<Rightarrow> string) \<Rightarrow> (pyval \<Rightarrow> bytes) \<Rightarrow> world \<Rightarrow> nat \<Rightarrow> book \<Rightarrow> book option" where
  "raised_pass sha dumps wd n bk =
     (let bk1 = settle_dispatched_waves wd bk; sites = active_sites bk1 in
      if wd_stop wd \<or> ca_status (bk_campaign bk) \<notin> {CsRunning, CsAwaiting} \<or> length sites \<le> n then None
      else (case advance_sites sha dumps wd (take n sites) bk1 of Inl _ \<Rightarrow> None
        | Inr bk2 \<Rightarrow> (case advance_site sha dumps wd bk2 (sites ! n) of Inl _ \<Rightarrow> Some bk2 | Inr _ \<Rightarrow> None)))"

subsection \<open>Waves over time\<close>

lemma campaign_waves_simps [simp]:
  "campaign_waves (at_branch i f bk) = campaign_waves bk" "campaign_waves (at_target a g bk) = campaign_waves bk"
  "campaign_waves (bk\<lparr>bk_plans := ps\<rparr>) = campaign_waves bk" "campaign_waves (bk\<lparr>bk_targets := ts\<rparr>) = campaign_waves bk"
  "campaign_waves (bk\<lparr>bk_ledger := l\<rparr>) = campaign_waves bk" "campaign_waves (bk\<lparr>bk_branches := b\<rparr>) = campaign_waves bk"
  "campaign_waves (clear_waves bk) = []"
  by (simp_all add: campaign_waves_def at_branch_def at_target_def clear_waves_def)

lemma filter_at: "(\<And>w. wv_campaign (f w) = wv_campaign w) \<Longrightarrow>
    filter (\<lambda>w. wv_campaign w = c) (map (\<lambda>w. if wv_campaign w = c \<and> P w then f w else w) ws) =
    map (\<lambda>w. if P w then f w else w) (filter (\<lambda>w. wv_campaign w = c) ws)"
  by (induction ws) auto

lemma campaign_waves_at:
  assumes "\<And>w. wv_campaign (f w) = wv_campaign w"
  shows "campaign_waves (at_waves P f bk) = map (\<lambda>w. if P w then f w else w) (campaign_waves bk)"
  using filter_at [OF assms] by (simp add: campaign_waves_def at_waves_def)

lemma at_rest [simp]:
  "bk_branches (at_waves P g bk) = bk_branches bk" "bk_branches (at_target a h bk) = bk_branches bk"
  "bk_branches (clear_waves bk) = bk_branches bk"
  "bk_ledger (at_waves P g bk) = bk_ledger bk" "bk_ledger (at_target a h bk) = bk_ledger bk" "bk_ledger (at_branch i f bk) = bk_ledger bk"
  "bk_ledger (clear_waves bk) = bk_ledger bk"
  "bk_campaign (at_waves P g bk) = bk_campaign bk" "bk_campaign (at_target a h bk) = bk_campaign bk" "bk_campaign (at_branch i f bk) = bk_campaign bk"
  "bk_campaign (clear_waves bk) = bk_campaign bk"
  by (simp_all add: at_waves_def at_target_def at_branch_def clear_waves_def)

definition wave_known :: "string \<Rightarrow> bool" where
  "wave_known s \<longleftrightarrow> wave_voidable s \<or> wave_finished s \<or> s = ''dispatched''"

lemma wave_status_simps [simp]:
  "wave_finished ''voided''" "wave_finished ''failed''" "wave_finished ''completed''" "wave_finished ''denied''"
  "wave_known ''voided''" "wave_known ''failed''" "wave_known ''completed''" "wave_known ''denied''" "wave_known ''dispatched''"
  "wave_known ''approved''" "wave_known ''autonomous''" "wave_known ''pending_approval''"
  "\<not> wave_finished ''dispatched''" "\<not> wave_finished ''approved''" "\<not> wave_finished ''autonomous''" "\<not> wave_finished ''pending_approval''"
  "\<not> wave_voidable ''dispatched''" "\<not> wave_runnable ''dispatched''" "wave_runnable ''approved''" "wave_runnable ''autonomous''"
  "\<not> wave_runnable ''pending_approval''"
  by (simp_all add: wave_finished_def wave_known_def wave_voidable_def wave_runnable_def)

lemma finished_not: "wave_finished s \<Longrightarrow> \<not> wave_runnable s \<and> \<not> wave_voidable s \<and> s \<noteq> ''dispatched'' \<and> s \<noteq> ''pending_approval''"
  by (auto simp: wave_finished_def wave_runnable_def wave_voidable_def)

lemma runnable_voidable: "wave_runnable s \<Longrightarrow> wave_voidable s"
  by (auto simp: wave_voidable_def wave_runnable_def)

text \<open>One row for a site and a wave number; a wave that runs is the first unfinished one of its site.\<close>

definition waves_ok :: "campaign_wave list \<Rightarrow> bool" where
  "waves_ok ws \<longleftrightarrow> distinct (map (\<lambda>w. (wv_site w, wv_index w)) ws) \<and> (\<forall>w \<in> set ws. wave_known (wv_status w)) \<and>
     (\<forall>w \<in> set ws. \<forall>v \<in> set ws. wv_status w = ''dispatched'' \<and> wv_site v = wv_site w \<and> \<not> wave_finished (wv_status v) \<longrightarrow>
        v = w \<or> wv_index w < wv_index v \<and> wv_status v \<noteq> ''dispatched'')"

lemma waves_ok_unique:
  assumes "waves_ok ws" "w \<in> set ws" "v \<in> set ws" "wv_site w = wv_site v" "wv_index w = wv_index v"
  shows "w = v"
  using assms by (auto simp: waves_ok_def distinct_map dest: inj_onD)

lemma same_wave_unique: "waves_ok ws \<Longrightarrow> w \<in> set ws \<Longrightarrow> v \<in> set ws \<Longrightarrow> same_wave w v \<longleftrightarrow> v = w"
  using waves_ok_unique [of ws w v] by (auto simp: same_wave_def wave_key_def)

lemma waves_ok_map:
  assumes ok: "waves_ok ws"
    and g: "\<And>w. w \<in> set ws \<Longrightarrow> wave_key (g w) = wave_key w \<and> wave_known (wv_status (g w)) \<and>
      (wv_status (g w) = ''dispatched'' \<longrightarrow> wv_status w = ''dispatched'') \<and> (wave_finished (wv_status w) \<longrightarrow> wave_finished (wv_status (g w)))"
  shows "waves_ok (map g ws)"
proof -
  have key: "wv_site (g w) = wv_site w \<and> wv_index (g w) = wv_index w" if "w \<in> set ws" for w
    using g [OF that] by (simp add: wave_key_def)
  have "map (\<lambda>w. (wv_site w, wv_index w)) (map g ws) = map (\<lambda>w. (wv_site w, wv_index w)) ws"
    using key by simp
  then have d: "distinct (map (\<lambda>w. (wv_site w, wv_index w)) (map g ws))" using ok unfolding waves_ok_def by metis
  have known: "\<forall>w \<in> set (map g ws). wave_known (wv_status w)" using g by auto
  have step: "g v = g w \<or> wv_index (g w) < wv_index (g v) \<and> wv_status (g v) \<noteq> ''dispatched''"
    if "w \<in> set ws" "v \<in> set ws" "wv_status (g w) = ''dispatched''" "wv_site (g v) = wv_site (g w)" "\<not> wave_finished (wv_status (g v))" for w v
  proof -
    have "v = w \<or> wv_index w < wv_index v \<and> wv_status v \<noteq> ''dispatched''"
      using ok that g [of w] g [of v] key [of w] key [of v] unfolding waves_ok_def by metis
    then show ?thesis using that(1,2) g [of v] key [of w] key [of v] by metis
  qed
  have "\<forall>w \<in> set (map g ws). \<forall>v \<in> set (map g ws). wv_status w = ''dispatched'' \<and> wv_site v = wv_site w \<and> \<not> wave_finished (wv_status v) \<longrightarrow>
        v = w \<or> wv_index w < wv_index v \<and> wv_status v \<noteq> ''dispatched''"
    unfolding set_map ball_simps using step by blast
  with d known show ?thesis unfolding waves_ok_def by blast
qed

lemma next_wave_Some:
  assumes "next_wave bk i = Some w"
  shows "w \<in> set (campaign_waves bk)" "wv_site w = i" "\<not> wave_finished (wv_status w)"
    "\<And>v. v \<in> set (campaign_waves bk) \<Longrightarrow> wv_site v = i \<Longrightarrow> \<not> wave_finished (wv_status v) \<Longrightarrow> wv_index w \<le> wv_index v"
proof -
  let ?ws = "filter (\<lambda>w. \<not> wave_finished (wv_status w)) (site_waves bk i)"
  obtain rest where s: "sort_key wv_index ?ws = w # rest"
    using assms by (auto simp: next_wave_def split: list.splits)
  then have "w \<in> set ?ws" by (metis list.set_intros(1) set_sort)
  then show "w \<in> set (campaign_waves bk)" "wv_site w = i" "\<not> wave_finished (wv_status w)"
    by (simp_all add: site_waves_def)
  fix v assume "v \<in> set (campaign_waves bk)" "wv_site v = i" "\<not> wave_finished (wv_status v)"
  then have "v \<in> set (w # rest)" unfolding s [symmetric] by (simp add: site_waves_def)
  moreover have "sorted (map wv_index (w # rest))" using sorted_sort_key [of wv_index ?ws] unfolding s .
  ultimately show "wv_index w \<le> wv_index v" by auto
qed

lemma next_wave_None: "next_wave bk i = None \<longleftrightarrow> (\<forall>w \<in> set (campaign_waves bk). wv_site w = i \<longrightarrow> wave_finished (wv_status w))"
proof -
  have "next_wave bk i = None \<longleftrightarrow> set (sort_key wv_index (filter (\<lambda>w. \<not> wave_finished (wv_status w)) (site_waves bk i))) = {}"
    unfolding next_wave_def set_empty by (simp split: list.splits)
  then show ?thesis by (auto simp: site_waves_def)
qed

lemma next_wave_alone:
  assumes "waves_ok (campaign_waves bk)" "next_wave bk i = Some w" "wv_status w \<noteq> ''dispatched''" "v \<in> set (campaign_waves bk)" "wv_site v = i"
  shows "wv_status v \<noteq> ''dispatched''"
proof
  assume d: "wv_status v = ''dispatched''"
  note n = next_wave_Some [OF assms(2)]
  have "wv_index w \<le> wv_index v" using n(4) [OF assms(4,5)] d by simp
  moreover have "w = v \<or> wv_index v < wv_index w"
    using assms(1,4,5) n(1-3) d unfolding waves_ok_def by metis
  ultimately show False using d assms(3) by auto
qed

lemma waves_ok_dispatch:
  assumes ok: "waves_ok (campaign_waves bk)" and n: "next_wave bk i = Some w" and r: "wv_status w \<noteq> ''dispatched''"
  shows "waves_ok (campaign_waves (set_wave w ''dispatched'' bk))"
proof -
  let ?g = "\<lambda>v. if same_wave w v then v\<lparr>wv_status := ''dispatched''\<rparr> else v"
  note w = next_wave_Some [OF n]
  have ws: "campaign_waves (set_wave w ''dispatched'' bk) = map ?g (campaign_waves bk)"
    unfolding set_wave_def by (rule campaign_waves_at) simp
  have g: "?g v = (if v = w then v\<lparr>wv_status := ''dispatched''\<rparr> else v)" if "v \<in> set (campaign_waves bk)" for v
    using same_wave_unique [OF ok w(1) that] by simp
  have later: "wv_index w < wv_index v" if "v \<in> set (campaign_waves bk)" "wv_site v = i" "\<not> wave_finished (wv_status v)" "v \<noteq> w" for v
    using w(4) [OF that(1-3)] waves_ok_unique [OF ok w(1) that(1)] that(2,4) w(2) by force
  have alone: "wv_status v \<noteq> ''dispatched''" if "v \<in> set (campaign_waves bk)" "wv_site v = i" for v
    using next_wave_alone [OF ok n r that] .
  have "map (\<lambda>w. (wv_site w, wv_index w)) (map ?g (campaign_waves bk)) = map (\<lambda>w. (wv_site w, wv_index w)) (campaign_waves bk)"
    by simp
  then have "distinct (map (\<lambda>w. (wv_site w, wv_index w)) (map ?g (campaign_waves bk)))" using ok unfolding waves_ok_def by metis
  moreover have "\<forall>v \<in> set (map ?g (campaign_waves bk)). wave_known (wv_status v)" using ok by (auto simp: waves_ok_def)
  moreover have "?g v = ?g u \<or> wv_index (?g u) < wv_index (?g v) \<and> wv_status (?g v) \<noteq> ''dispatched''"
    if u: "u \<in> set (campaign_waves bk)" and v: "v \<in> set (campaign_waves bk)" and d: "wv_status (?g u) = ''dispatched''"
      and "wv_site (?g v) = wv_site (?g u)" and f: "\<not> wave_finished (wv_status (?g v))" for u v
  proof -
    have site: "wv_site v = wv_site u" using that(4) by (simp split: if_splits)
    show ?thesis
    proof (cases "v = w")
      case vw: True
      show ?thesis
      proof (cases "u = w")
        case False
        then have "wv_status u = ''dispatched''" using d g [OF u] by simp
        then show ?thesis using alone [OF u] site vw w(2) by simp
      qed (simp add: vw)
    next
      case vw: False
      then have gv: "?g v = v" using g [OF v] by simp
      show ?thesis
      proof (cases "u = w")
        case True
        have "wv_site v = i" using site True w(2) by simp
        then show ?thesis using later [OF v _ _ vw] alone [OF v] f unfolding gv True by simp
      next
        case False
        then have gu: "?g u = u" using g [OF u] by simp
        show ?thesis using ok u v d f site unfolding gv gu waves_ok_def by blast
      qed
    qed
  qed
  ultimately show ?thesis unfolding ws waves_ok_def set_map ball_simps by blast
qed


subsection \<open>What every pass keeps\<close>

definition quiet :: "book \<Rightarrow> string \<Rightarrow> bool" where
  "quiet bk i \<longleftrightarrow> (\<forall>w \<in> set (campaign_waves bk). wv_site w = i \<longrightarrow> wave_finished (wv_status w))"

definition ledger_keys :: "book \<Rightarrow> (int \<times> string \<times> string \<times> int \<times> string) list" where
  "ledger_keys bk = map (\<lambda>d. (dr_version d, dr_site d, dr_agent d, dr_wave d, dr_plan d)) (bk_ledger bk)"

definition core_ok :: "book \<Rightarrow> bool" where
  "core_ok bk \<longleftrightarrow> distinct (map sb_site (bk_branches bk)) \<and> waves_ok (campaign_waves bk) \<and> distinct (ledger_keys bk) \<and>
     (\<forall>s \<in> set (bk_branches bk). sb_status s = BrHalted \<longrightarrow> quiet bk (sb_site s))"

definition running_sites :: "book \<Rightarrow> string set" where
  "running_sites bk = {i. \<exists>s \<in> set (bk_branches bk). sb_site s = i \<and> sb_status s = BrRunning}"

definition branch_status_of :: "book \<Rightarrow> string \<Rightarrow> branch_status set" where
  "branch_status_of bk i = sb_status ` {s \<in> set (bk_branches bk). sb_site s = i}"

lemma branch_status_at:
  assumes "\<And>s. sb_site (f s) = sb_site s"
  shows "branch_status_of (at_branch i f bk) j = (if j = i then (\<lambda>s. sb_status (f s)) ` {s \<in> set (bk_branches bk). sb_site s = i} else branch_status_of bk j)"
  using assms by (auto simp: branch_status_of_def at_branch_def image_iff)

lemma branch_status_at_const [simp]:
  assumes "\<And>s. sb_site (f s) = sb_site s" "\<And>s. sb_status (f s) = st"
  shows "branch_status_of (at_branch i f bk) j = (if j = i then (if branch_status_of bk i = {} then {} else {st}) else branch_status_of bk j)"
  unfolding branch_status_at [OF assms(1)] assms(2) by (auto simp: branch_status_of_def)

lemma branch_status_at_same [simp]:
  assumes "\<And>s. sb_site (f s) = sb_site s" "\<And>s. sb_status (f s) = sb_status s"
  shows "branch_status_of (at_branch i f bk) j = branch_status_of bk j"
  unfolding branch_status_at [OF assms(1)] assms(2) by (auto simp: branch_status_of_def)

lemma branch_status_rest [simp]:
  "branch_status_of (at_waves P g bk) i = branch_status_of bk i" "branch_status_of (at_target a h bk) i = branch_status_of bk i"
  "branch_status_of (bk\<lparr>bk_plans := ps\<rparr>) i = branch_status_of bk i" "branch_status_of (bk\<lparr>bk_targets := ts\<rparr>) i = branch_status_of bk i"
  "branch_status_of (bk\<lparr>bk_ledger := l\<rparr>) i = branch_status_of bk i" "branch_status_of (set_wave w st bk) i = branch_status_of bk i"
  by (simp_all add: branch_status_of_def set_wave_def)

lemma branch_status_iff: "st \<in> branch_status_of bk i \<longleftrightarrow> (\<exists>s \<in> set (bk_branches bk). sb_site s = i \<and> sb_status s = st)"
  by (auto simp: branch_status_of_def image_iff)

lemma running_status: "running_sites bk = {i. BrRunning \<in> branch_status_of bk i}"
  by (simp add: running_sites_def branch_status_iff)

lemma core_halted: "core_ok bk \<Longrightarrow> BrHalted \<in> branch_status_of bk i \<Longrightarrow> quiet bk i"
  by (auto simp: core_ok_def branch_status_iff)

lemma distinct_at_branch:
  assumes "\<And>s. sb_site (f s) = sb_site s"
  shows "map sb_site (bk_branches (at_branch i f bk)) = map sb_site (bk_branches bk)"
  using assms by (simp add: at_branch_def)

lemma waves_ok_known: "waves_ok ws \<Longrightarrow> w \<in> set ws \<Longrightarrow> wave_known (wv_status w)"
  by (simp add: waves_ok_def)

text \<open>A change keeps the invariant if it keeps the sites, the waves' order and the ledger's keys, and halts only quiet sites.\<close>

lemma core_okI:
  assumes "core_ok bk" "map sb_site (bk_branches bk') = map sb_site (bk_branches bk)" "waves_ok (campaign_waves bk')" "distinct (ledger_keys bk')"
    and "\<And>i. BrHalted \<in> branch_status_of bk' i \<Longrightarrow> quiet bk' i"
  shows "core_ok bk'"
  using assms unfolding core_ok_def branch_status_iff by auto

lemma ledger_keys_simps [simp]:
  "ledger_keys (at_waves P g bk) = ledger_keys bk" "ledger_keys (at_target a h bk) = ledger_keys bk" "ledger_keys (at_branch i f bk) = ledger_keys bk"
  "ledger_keys (bk\<lparr>bk_plans := ps\<rparr>) = ledger_keys bk" "ledger_keys (bk\<lparr>bk_targets := ts\<rparr>) = ledger_keys bk"
  "ledger_keys (set_wave w st bk) = ledger_keys bk"
  by (simp_all add: ledger_keys_def set_wave_def)

lemma set_wave_simps [simp]:
  "bk_branches (set_wave w st bk) = bk_branches bk" "bk_ledger (set_wave w st bk) = bk_ledger bk" "bk_campaign (set_wave w st bk) = bk_campaign bk"
  by (simp_all add: set_wave_def)

lemma quiet_simps [simp]:
  "quiet (at_branch i f bk) j = quiet bk j" "quiet (at_target a h bk) j = quiet bk j" "quiet (bk\<lparr>bk_plans := ps\<rparr>) j = quiet bk j"
  "quiet (bk\<lparr>bk_targets := ts\<rparr>) j = quiet bk j" "quiet (bk\<lparr>bk_ledger := l\<rparr>) j = quiet bk j"
  by (simp_all add: quiet_def)

lemma campaign_waves_set: "campaign_waves (set_wave w st bk) = map (\<lambda>v. if same_wave w v then v\<lparr>wv_status := st\<rparr> else v) (campaign_waves bk)"
  unfolding set_wave_def by (rule campaign_waves_at) simp

lemma campaign_waves_void: "campaign_waves (void_site_waves i bk) =
    map (\<lambda>w. if wv_site w = i \<and> wave_voidable (wv_status w) then w\<lparr>wv_status := ''voided''\<rparr> else w) (campaign_waves bk)"
  unfolding void_site_waves_def by (rule campaign_waves_at) simp

lemma void_simps [simp]:
  "bk_branches (void_site_waves i bk) = bk_branches bk" "bk_ledger (void_site_waves i bk) = bk_ledger bk"
  "bk_campaign (void_site_waves i bk) = bk_campaign bk" "ledger_keys (void_site_waves i bk) = ledger_keys bk"
  "branch_status_of (void_site_waves i bk) j = branch_status_of bk j"
  by (simp_all add: void_site_waves_def)

lemma void_ok: "waves_ok (campaign_waves bk) \<Longrightarrow> waves_ok (campaign_waves (void_site_waves i bk))"
  unfolding campaign_waves_void by (rule waves_ok_map) (auto simp: wave_key_def waves_ok_known)

lemma void_quiet:
  assumes "waves_ok (campaign_waves bk)"
  shows "quiet bk j \<Longrightarrow> quiet (void_site_waves i bk) j"
    and "(\<And>w. w \<in> set (campaign_waves bk) \<Longrightarrow> wv_site w = i \<Longrightarrow> wv_status w \<noteq> ''dispatched'') \<Longrightarrow> quiet (void_site_waves i bk) i"
proof -
  show "quiet bk j \<Longrightarrow> quiet (void_site_waves i bk) j" by (auto simp: quiet_def campaign_waves_void)
  assume a: "\<And>w. w \<in> set (campaign_waves bk) \<Longrightarrow> wv_site w = i \<Longrightarrow> wv_status w \<noteq> ''dispatched''"
  have e: "wave_finished (wv_status w)" if "w \<in> set (campaign_waves bk)" "wv_site w = i" "\<not> wave_voidable (wv_status w)" for w
    using waves_ok_known [OF assms that(1)] a [OF that(1,2)] that(3) by (simp add: wave_known_def)
  show "quiet (void_site_waves i bk) i" unfolding quiet_def campaign_waves_void set_map ball_simps
  proof (intro ballI impI)
    fix w assume w: "w \<in> set (campaign_waves bk)"
      "wv_site (if wv_site w = i \<and> wave_voidable (wv_status w) then w\<lparr>wv_status := ''voided''\<rparr> else w) = i"
    then have i: "wv_site w = i" by (simp split: if_splits)
    show "wave_finished (wv_status (if wv_site w = i \<and> wave_voidable (wv_status w) then w\<lparr>wv_status := ''voided''\<rparr> else w))"
      using e [OF w(1) i] i by (cases "wave_voidable (wv_status w)") simp_all
  qed
qed

lemma finish_ok:
  assumes "waves_ok (campaign_waves bk)" "wave_finished st"
  shows "waves_ok (campaign_waves (set_wave w st bk))" "quiet bk j \<Longrightarrow> quiet (set_wave w st bk) j"
proof -
  show "waves_ok (campaign_waves (set_wave w st bk))"
    unfolding campaign_waves_set by (rule waves_ok_map [OF assms(1)])
      (use assms(2) waves_ok_known [OF assms(1)] in \<open>auto simp: wave_key_def wave_known_def dest: finished_not\<close>)
  show "quiet bk j \<Longrightarrow> quiet (set_wave w st bk) j" using assms(2) by (auto simp: quiet_def campaign_waves_set)
qed

lemma core_at_branch:
  assumes "core_ok bk" "\<And>s. sb_site (f s) = sb_site s" "\<And>s. sb_status (f s) \<noteq> BrHalted \<or> sb_status s = BrHalted \<or> quiet bk i"
  shows "core_ok (at_branch i f bk)"
proof (rule core_okI [OF assms(1) distinct_at_branch])
  fix j assume h: "BrHalted \<in> branch_status_of (at_branch i f bk) j"
  have "quiet bk j"
  proof (cases "j = i")
    case True
    then obtain s where "s \<in> set (bk_branches bk)" "sb_site s = i" "sb_status (f s) = BrHalted"
      using h unfolding branch_status_at [OF assms(2)] by auto
    then show ?thesis using assms(1) assms(3) [of s] True by (auto simp: core_ok_def)
  next
    case False
    then show ?thesis using h core_halted [OF assms(1)] unfolding branch_status_at [OF assms(2)] by simp
  qed
  then show "quiet (at_branch i f bk) j" by simp
qed (use assms in \<open>simp_all add: core_ok_def\<close>)

lemma core_halt:
  assumes "core_ok bk" "\<And>w. w \<in> set (campaign_waves bk) \<Longrightarrow> wv_site w = i \<Longrightarrow> wv_status w \<noteq> ''dispatched''"
  shows "core_ok (halt_site i bk)"
proof (cases "i \<in> sb_site ` set (bk_branches bk)")
  case True
  let ?b = "at_branch i (\<lambda>s. s\<lparr>sb_status := BrHalted\<rparr>) bk"
  have ok: "waves_ok (campaign_waves ?b)" using assms(1) by (simp add: core_ok_def)
  have "core_ok (void_site_waves i ?b)"
  proof (rule core_okI [OF assms(1)])
    show "map sb_site (bk_branches (void_site_waves i ?b)) = map sb_site (bk_branches bk)"
      using distinct_at_branch [of "\<lambda>s. s\<lparr>sb_status := BrHalted\<rparr>" i bk] by simp
    show "waves_ok (campaign_waves (void_site_waves i ?b))" by (rule void_ok [OF ok])
    show "distinct (ledger_keys (void_site_waves i ?b))" using assms(1) by (simp add: core_ok_def)
    fix j assume "BrHalted \<in> branch_status_of (void_site_waves i ?b) j"
    then show "quiet (void_site_waves i ?b) j"
      using void_quiet(1) [OF ok, of j i] void_quiet(2) [OF ok, of i] core_halted [OF assms(1), of j] assms(2) by (cases "j = i") auto
  qed
  then show ?thesis using True by (simp add: halt_site_def)
next
  case False
  then show ?thesis using assms(1) by (simp add: halt_site_def)
qed

lemma fold_at_target: "\<exists>ts. fold (\<lambda>a. at_target a (h a)) as bk = bk\<lparr>bk_targets := ts\<rparr>"
proof (induction as arbitrary: bk)
  case Nil
  have "bk = bk\<lparr>bk_targets := bk_targets bk\<rparr>" by simp
  then show ?case by (metis fold_simps(1))
next
  case (Cons a as)
  obtain ts where "fold (\<lambda>a. at_target a (h a)) as (at_target a (h a) bk) = (at_target a (h a) bk)\<lparr>bk_targets := ts\<rparr>" using Cons by blast
  moreover have "(at_target a (h a) bk)\<lparr>bk_targets := ts\<rparr> = bk\<lparr>bk_targets := ts\<rparr>" by (simp add: at_target_def)
  ultimately show ?case by (metis fold_simps(2))
qed

lemma core_targets [simp]: "core_ok (bk\<lparr>bk_targets := ts\<rparr>) = core_ok bk" "core_ok (bk\<lparr>bk_plans := ps\<rparr>) = core_ok bk"
  by (simp_all add: core_ok_def ledger_keys_def)

lemma core_campaign:
  "ca_id c = ca_id (bk_campaign bk) \<Longrightarrow> core_ok (bk\<lparr>bk_campaign := c\<rparr>) = core_ok bk"
  by (simp add: core_ok_def ledger_keys_def quiet_def campaign_waves_def)

lemma halt_simps [simp]:
  "bk_campaign (halt_site i bk) = bk_campaign bk" "bk_ledger (halt_site i bk) = bk_ledger bk"
  "map sb_site (bk_branches (halt_site i bk)) = map sb_site (bk_branches bk)"
  "j \<noteq> i \<Longrightarrow> branch_status_of (halt_site i bk) j = branch_status_of bk j"
  by (simp_all add: halt_site_def distinct_at_branch)

lemma halt_status: "branch_status_of (halt_site i bk) i = (if branch_status_of bk i = {} then {} else {BrHalted})"
proof (cases "i \<in> sb_site ` set (bk_branches bk)")
  case False
  then have "branch_status_of bk i = {}" by (auto simp: branch_status_of_def)
  then show ?thesis using False by (simp add: halt_site_def)
qed (simp add: halt_site_def)

lemma core_finish:
  assumes "core_ok bk" "wave_finished st"
  shows "core_ok (set_wave w st bk)"
proof -
  have ok: "waves_ok (campaign_waves bk)" "distinct (ledger_keys bk)" using assms(1) by (simp_all add: core_ok_def)
  show ?thesis
    by (rule core_okI [OF assms(1)]) (simp_all add: ok finish_ok [OF ok(1) assms(2)] core_halted [OF assms(1)])
qed

text \<open>Settling a wave: its site halts, it is completed, or it still waits.\<close>

lemma settle_wave_cases:
  obtains (waits) "settle_wave wd bk w = bk"
  | (fails) ts where "settle_wave wd bk w = halt_site (wv_site w) (set_wave w ''failed'' (bk\<lparr>bk_targets := ts\<rparr>))"
  | (completes) ts where "settle_wave wd bk w =
      at_branch (wv_site w) (\<lambda>s. s\<lparr>sb_current := wv_index w + 1\<rparr>) (set_wave w ''completed'' (bk\<lparr>bk_targets := ts\<rparr>))"
proof -
  let ?rows = "wave_rows bk w" and ?out = "last_outcome wd (campaign_actor (bk_campaign bk))"
  let ?acc = "map dr_agent (filter dr_accepted ?rows)"
  let ?h = "\<lambda>d t. t\<lparr>ct_outcome := (case ?out d of None \<Rightarrow> [] | Some r \<Rightarrow> r), ct_status := (if ?out d = Some ''SUCCESS'' then TgCompleted else TgFailed)\<rparr>"
  obtain ts where ts: "fold (\<lambda>d. at_target d (?h d)) ?acc bk = bk\<lparr>bk_targets := ts\<rparr>"
    using fold_at_target [of ?h ?acc bk] by blast
  let ?fail = "filter (\<lambda>d. case ?out d of None \<Rightarrow> False | Some r \<Rightarrow> r \<noteq> [] \<and> r \<noteq> ''SUCCESS'') ?acc @ map dr_agent (filter (\<lambda>d. \<not> dr_accepted d) ?rows)"
  consider "?acc = []" | "?acc \<noteq> []" "\<exists>d \<in> set ?acc. ?out d = None" | "?acc \<noteq> []" "\<not> (\<exists>d \<in> set ?acc. ?out d = None)" "?fail \<noteq> []"
    | "?acc \<noteq> []" "\<not> (\<exists>d \<in> set ?acc. ?out d = None)" "?fail = []" by blast
  then show thesis
  proof cases
    case 1
    show ?thesis by (rule fails [of "bk_targets bk"]) (use 1 in \<open>simp add: settle_wave_def Let_def\<close>)
  next
    case 2
    show ?thesis by (rule waits) (simp only: settle_wave_def Let_def if_not_P [OF 2(1)] if_P [OF 2(2)])
  next
    case 3
    show ?thesis by (rule fails [of ts]) (simp only: settle_wave_def Let_def if_not_P [OF 3(1)] if_not_P [OF 3(2)] if_P [OF 3(3)] ts)
  next
    case 4
    have "\<not> ?fail \<noteq> []" using 4(3) by blast
    show ?thesis by (rule completes [of ts]) (simp only: settle_wave_def Let_def if_not_P [OF 4(1)] if_not_P [OF 4(2)] if_not_P [OF \<open>\<not> ?fail \<noteq> []\<close>] ts)
  qed
qed

lemma settle_wave_core:
  assumes core: "core_ok bk" and w: "w \<in> set (campaign_waves bk)" "wv_status w = ''dispatched''"
  shows "core_ok (settle_wave wd bk w)" "bk_campaign (settle_wave wd bk w) = bk_campaign bk" "bk_ledger (settle_wave wd bk w) = bk_ledger bk"
    "map sb_site (bk_branches (settle_wave wd bk w)) = map sb_site (bk_branches bk)"
    "\<And>j. branch_status_of (settle_wave wd bk w) j = branch_status_of bk j \<or> j = wv_site w \<and> branch_status_of (settle_wave wd bk w) j = {BrHalted}"
    "\<And>v. v \<in> set (campaign_waves bk) \<Longrightarrow> wv_status v = ''dispatched'' \<Longrightarrow> v \<noteq> w \<Longrightarrow> v \<in> set (campaign_waves (settle_wave wd bk w))"
proof -
  have ok: "waves_ok (campaign_waves bk)" using core by (simp add: core_ok_def)
  have one: "v = w" if "v \<in> set (campaign_waves bk)" "wv_site v = wv_site w" "wv_status v = ''dispatched''" for v
  proof -
    have "\<not> wave_finished (wv_status v)" using that(3) by simp
    then show ?thesis using ok w that unfolding waves_ok_def by blast
  qed
  have stay: "v \<in> set (campaign_waves (set_wave w st (bk\<lparr>bk_targets := ts\<rparr>)))" if "v \<in> set (campaign_waves bk)" "v \<noteq> w" for v st ts
    using that same_wave_unique [OF ok w(1) that(1)] unfolding campaign_waves_set by (auto simp: image_iff)
  have "core_ok (settle_wave wd bk w) \<and> bk_campaign (settle_wave wd bk w) = bk_campaign bk \<and> bk_ledger (settle_wave wd bk w) = bk_ledger bk \<and>
    map sb_site (bk_branches (settle_wave wd bk w)) = map sb_site (bk_branches bk) \<and>
    (\<forall>j. branch_status_of (settle_wave wd bk w) j = branch_status_of bk j \<or> j = wv_site w \<and> branch_status_of (settle_wave wd bk w) j = {BrHalted}) \<and>
    (\<forall>v. v \<in> set (campaign_waves bk) \<longrightarrow> wv_status v = ''dispatched'' \<longrightarrow> v \<noteq> w \<longrightarrow> v \<in> set (campaign_waves (settle_wave wd bk w)))"
  proof (cases rule: settle_wave_cases [of wd bk w])
    case waits
    then show ?thesis using core by simp
  next
    case (fails ts)
    let ?b = "set_wave w ''failed'' (bk\<lparr>bk_targets := ts\<rparr>)"
    have b: "core_ok ?b" by (rule core_finish) (simp_all add: core)
    have "wv_status v \<noteq> ''dispatched''" if v: "v \<in> set (campaign_waves ?b)" "wv_site v = wv_site w" for v
    proof -
      obtain u where u: "u \<in> set (campaign_waves bk)" "v = (if same_wave w u then u\<lparr>wv_status := ''failed''\<rparr> else u)"
        using v(1) unfolding campaign_waves_set by auto
      then show ?thesis using one [OF u(1)] v(2) same_wave_unique [OF ok w(1) u(1)] by (auto split: if_splits)
    qed
    then have "core_ok (halt_site (wv_site w) ?b)" by (rule core_halt [OF b])
    moreover have "v \<in> set (campaign_waves (halt_site (wv_site w) ?b))"
      if v: "v \<in> set (campaign_waves bk)" "wv_status v = ''dispatched''" "v \<noteq> w" for v
      using stay [OF v(1,3), of "''failed''" ts] v(2) by (auto simp: halt_site_def campaign_waves_void image_iff)
    moreover have "branch_status_of (halt_site (wv_site w) ?b) j = branch_status_of bk j \<or>
        j = wv_site w \<and> branch_status_of (halt_site (wv_site w) ?b) j = {BrHalted}" for j
      by (cases "j = wv_site w") (simp_all add: halt_status)
    ultimately show ?thesis unfolding fails by simp
  next
    case (completes ts)
    let ?b = "set_wave w ''completed'' (bk\<lparr>bk_targets := ts\<rparr>)"
    have "core_ok ?b" by (rule core_finish) (simp_all add: core)
    then have "core_ok (at_branch (wv_site w) (\<lambda>s. s\<lparr>sb_current := wv_index w + 1\<rparr>) ?b)" by (rule core_at_branch) simp_all
    then show ?thesis unfolding completes using stay by (simp add: distinct_at_branch)
  qed
  then show "core_ok (settle_wave wd bk w)" "bk_campaign (settle_wave wd bk w) = bk_campaign bk" "bk_ledger (settle_wave wd bk w) = bk_ledger bk"
    "map sb_site (bk_branches (settle_wave wd bk w)) = map sb_site (bk_branches bk)"
    "\<And>j. branch_status_of (settle_wave wd bk w) j = branch_status_of bk j \<or> j = wv_site w \<and> branch_status_of (settle_wave wd bk w) j = {BrHalted}"
    "\<And>v. v \<in> set (campaign_waves bk) \<Longrightarrow> wv_status v = ''dispatched'' \<Longrightarrow> v \<noteq> w \<Longrightarrow> v \<in> set (campaign_waves (settle_wave wd bk w))"
    by blast+
qed

lemma settle_all_core:
  fixes wd :: world
  assumes "core_ok bk" "set ws \<subseteq> set (campaign_waves bk)" "\<forall>w \<in> set ws. wv_status w = ''dispatched''" "distinct ws"
  defines "bk' \<equiv> fold (\<lambda>w b. settle_wave wd b w) ws bk"
  shows "core_ok bk' \<and> bk_campaign bk' = bk_campaign bk \<and> bk_ledger bk' = bk_ledger bk \<and> map sb_site (bk_branches bk') = map sb_site (bk_branches bk) \<and>
    (\<forall>j. branch_status_of bk' j = branch_status_of bk j \<or> branch_status_of bk' j = {BrHalted} \<and> (\<exists>w \<in> set ws. wv_site w = j))"
  using assms(1-4) unfolding bk'_def
proof (induction ws arbitrary: bk)
  case (Cons w ws)
  have w: "w \<in> set (campaign_waves bk)" "wv_status w = ''dispatched''" using Cons.prems(2,3) by auto
  note s = settle_wave_core [OF Cons.prems(1) w, where wd = wd]
  let ?b = "settle_wave wd bk w"
  have "set ws \<subseteq> set (campaign_waves ?b)"
  proof
    fix v assume "v \<in> set ws"
    then show "v \<in> set (campaign_waves ?b)" using s(6) [of v] Cons.prems(2-4) by auto
  qed
  moreover have "\<forall>v \<in> set ws. wv_status v = ''dispatched''" "distinct ws" using Cons.prems(3,4) by simp_all
  ultimately have ih: "core_ok (fold (\<lambda>w b. settle_wave wd b w) ws ?b) \<and> bk_campaign (fold (\<lambda>w b. settle_wave wd b w) ws ?b) = bk_campaign ?b \<and>
     bk_ledger (fold (\<lambda>w b. settle_wave wd b w) ws ?b) = bk_ledger ?b \<and>
     map sb_site (bk_branches (fold (\<lambda>w b. settle_wave wd b w) ws ?b)) = map sb_site (bk_branches ?b) \<and>
     (\<forall>j. branch_status_of (fold (\<lambda>w b. settle_wave wd b w) ws ?b) j = branch_status_of ?b j \<or>
       branch_status_of (fold (\<lambda>w b. settle_wave wd b w) ws ?b) j = {BrHalted} \<and> (\<exists>w \<in> set ws. wv_site w = j))"
    using Cons.IH [OF s(1)] by blast
  have "branch_status_of (fold (\<lambda>w b. settle_wave wd b w) ws ?b) j = branch_status_of bk j \<or>
      branch_status_of (fold (\<lambda>w b. settle_wave wd b w) ws ?b) j = {BrHalted} \<and> (\<exists>v \<in> set (w # ws). wv_site v = j)" for j
    using s(5) [of j] conjunct2 [OF conjunct2 [OF conjunct2 [OF conjunct2 [OF ih]]], rule_format, of j]
    by (metis list.set_intros(1) list.set_intros(2))
  then show ?case using ih s(2,3,4) by simp
qed simp

lemma settle_dispatched_core:
  assumes core: "core_ok bk"
  shows "core_ok (settle_dispatched_waves wd bk)" "bk_campaign (settle_dispatched_waves wd bk) = bk_campaign bk"
    "bk_ledger (settle_dispatched_waves wd bk) = bk_ledger bk"
    "map sb_site (bk_branches (settle_dispatched_waves wd bk)) = map sb_site (bk_branches bk)"
    "running_sites (settle_dispatched_waves wd bk) \<subseteq> running_sites bk"
    "BrHalted \<in> branch_status_of bk j \<Longrightarrow> branch_status_of (settle_dispatched_waves wd bk) j = branch_status_of bk j"
proof -
  let ?ws = "filter (\<lambda>w. wv_status w = ''dispatched'') (campaign_waves bk)"
  have "distinct (map (\<lambda>w. (wv_site w, wv_index w)) (campaign_waves bk))" using core by (simp add: core_ok_def waves_ok_def)
  then have d: "distinct ?ws" by (simp add: distinct_map)
  have "set ?ws \<subseteq> set (campaign_waves bk)" "\<forall>w \<in> set ?ws. wv_status w = ''dispatched''" by auto
  note all = settle_all_core [OF core this d, where wd = wd, folded settle_dispatched_waves_def]
  then show "core_ok (settle_dispatched_waves wd bk)" "bk_campaign (settle_dispatched_waves wd bk) = bk_campaign bk"
    "bk_ledger (settle_dispatched_waves wd bk) = bk_ledger bk"
    "map sb_site (bk_branches (settle_dispatched_waves wd bk)) = map sb_site (bk_branches bk)" by blast+
  have st: "branch_status_of (settle_dispatched_waves wd bk) j = branch_status_of bk j \<or>
      branch_status_of (settle_dispatched_waves wd bk) j = {BrHalted} \<and> (\<exists>w \<in> set ?ws. wv_site w = j)" for j using all by blast
  show "running_sites (settle_dispatched_waves wd bk) \<subseteq> running_sites bk"
  proof
    fix j assume "j \<in> running_sites (settle_dispatched_waves wd bk)"
    then show "j \<in> running_sites bk" using st [of j] by (auto simp: running_status)
  qed
  assume h: "BrHalted \<in> branch_status_of bk j"
  have "\<not> (\<exists>w \<in> set ?ws. wv_site w = j)"
  proof
    assume "\<exists>w \<in> set ?ws. wv_site w = j"
    then obtain w where "w \<in> set (campaign_waves bk)" "wv_status w = ''dispatched''" "wv_site w = j" by auto
    moreover have "quiet bk j" by (rule core_halted [OF core h])
    ultimately have "wave_finished ''dispatched''" unfolding quiet_def by metis
    then show False by simp
  qed
  then show "branch_status_of (settle_dispatched_waves wd bk) j = branch_status_of bk j" using st [of j] by blast
qed

subsection \<open>Launching\<close>

lemma fold_dispatch:
  "\<exists>ts rows. fold (dispatch_device wd w) as bk = bk\<lparr>bk_targets := ts, bk_ledger := bk_ledger bk @ rows\<rparr> \<and>
     (distinct (ledger_keys bk) \<longrightarrow> distinct (ledger_keys (bk\<lparr>bk_ledger := bk_ledger bk @ rows\<rparr>))) \<and>
     (\<forall>r \<in> set rows. dr_version r = ca_version (bk_campaign bk) \<and> dr_site r = wv_site w \<and> dr_agent r \<in> set as \<and>
        dr_wave r = wv_index w \<and> dr_plan r = wv_plan w)"
proof (induction as arbitrary: bk)
  case Nil
  show ?case by (rule exI [of _ "bk_targets bk"], rule exI [of _ "[]"]) simp
next
  case (Cons a as)
  obtain ts0 rows0 where b: "dispatch_device wd w a bk = bk\<lparr>bk_targets := ts0, bk_ledger := bk_ledger bk @ rows0\<rparr>"
    and d: "distinct (ledger_keys bk) \<longrightarrow> distinct (ledger_keys (bk\<lparr>bk_ledger := bk_ledger bk @ rows0\<rparr>))"
    and r: "\<forall>r \<in> set rows0. dr_version r = ca_version (bk_campaign bk) \<and> dr_site r = wv_site w \<and> dr_agent r = a \<and> dr_wave r = wv_index w \<and> dr_plan r = wv_plan w"
  proof (cases "already_dispatched bk (wv_site w) a (wv_index w) (wv_plan w)")
    case True
    show thesis by (rule that [of "[]" "bk_targets bk"]) (simp_all add: dispatch_device_def True)
  next
    case False
    let ?row = "\<lparr>dr_version = ca_version (bk_campaign bk), dr_site = wv_site w, dr_agent = a, dr_wave = wv_index w,
             dr_plan = wv_plan w, dr_auth = (if wv_status w = ''autonomous'' then ''autonomous_grant'' else ''human_approval''),
             dr_accepted = wd_accepts wd (wv_site w) a\<rparr>"
    show thesis
      by (rule that [of "[?row]" "bk_targets (at_target a (\<lambda>t. t\<lparr>ct_status := (if wd_accepts wd (wv_site w) a then TgDispatched else TgFailed)\<rparr>) bk)"])
        (use False in \<open>auto simp: dispatch_device_def Let_def at_target_def ledger_keys_def already_dispatched_def\<close>)
  qed
  let ?b = "bk\<lparr>bk_targets := ts0, bk_ledger := bk_ledger bk @ rows0\<rparr>"
  obtain ts rows where f: "fold (dispatch_device wd w) as ?b = ?b\<lparr>bk_targets := ts, bk_ledger := bk_ledger ?b @ rows\<rparr>"
    and d': "distinct (ledger_keys ?b) \<longrightarrow> distinct (ledger_keys (?b\<lparr>bk_ledger := bk_ledger ?b @ rows\<rparr>))"
    and r': "\<forall>r \<in> set rows. dr_version r = ca_version (bk_campaign ?b) \<and> dr_site r = wv_site w \<and> dr_agent r \<in> set as \<and>
        dr_wave r = wv_index w \<and> dr_plan r = wv_plan w" using Cons [of ?b] by blast
  show ?case
    by (rule exI [of _ ts], rule exI [of _ "rows0 @ rows"]) (use b d r f d' r' in \<open>auto simp: ledger_keys_def\<close>)
qed

text \<open>What the gates read, apart from the waves of the site itself: no pass changes it.\<close>

definition target_facts :: "book \<Rightarrow> (string \<times> string \<times> applicability) list" where
  "target_facts bk = map (\<lambda>t. (ct_site t, ct_agent t, ct_applicability t)) (bk_targets bk)"

definition wave_facts :: "book \<Rightarrow> ((string \<times> int \<times> string \<times> int \<times> string) \<times> string list \<times> string) list" where
  "wave_facts bk = map (\<lambda>w. (wave_key w, wv_devices w, wv_subject w)) (dk_waves (bk_desk bk))"

definition plan_facts :: "book \<Rightarrow> (string \<times> string \<times> plan_wave list) list" where
  "plan_facts bk = map (\<lambda>r. (pl_site r, pl_hash r, pl_waves r)) (bk_plans bk)"

definition ground where
  "ground bk = (bk_campaign bk, (bk_desk bk)\<lparr>dk_waves := []\<rparr>, target_facts bk, wave_facts bk, plan_facts bk)"

definition licensed :: "(bytes \<Rightarrow> string) \<Rightarrow> (pyval \<Rightarrow> bytes) \<Rightarrow> world \<Rightarrow> book \<Rightarrow> dispatch_row \<Rightarrow> bool" where
  "licensed sha dumps wd bk d \<longleftrightarrow>
     (\<exists>w \<in> set (site_waves bk (dr_site d)). wv_index w = dr_wave d \<and> wv_plan w = dr_plan d \<and> dr_agent d \<in> set (wv_devices w) \<and>
        wave_runnable (wv_status w) \<and>
        (\<forall>v \<in> set (site_waves bk (dr_site d)). wv_index v < wv_index w \<longrightarrow> wave_finished (wv_status v)) \<and>
        site_registered bk (dr_site d) \<and>
        (\<exists>p. wd_site_plan wd (dr_site d) (request_for bk (dr_site d)) = Some p \<and> sp_planned p \<and> sp_hash p = wv_plan w) \<and>
        (wv_status w = ''approved'' \<longrightarrow> (\<exists>v. wave_authority sha dumps wd bk w = Inr v \<and> wo_ok v)) \<and>
        eligible_now wd w \<and> device_verdict wd bk (dr_site d) (dr_agent d) = RevalOk)"

lemma dispatchable_facts:
  "dispatchable_at bk i = sort (map (\<lambda>(s, a, p). a) (filter (\<lambda>(s, a, p). s = i \<and> dispatchable p) (target_facts bk)))"
  by (simp add: dispatchable_at_def target_facts_def filter_map comp_def)

lemma authority_waves: "wave_dispatch_authority sha dumps (dk\<lparr>dk_waves := ws\<rparr>) now c w source = wave_dispatch_authority sha dumps dk now c w source"
proof -
  have f: "dk_groups (dk\<lparr>dk_waves := ws\<rparr>) = dk_groups dk" "dk_members (dk\<lparr>dk_waves := ws\<rparr>) = dk_members dk"
    "dk_tenant (dk\<lparr>dk_waves := ws\<rparr>) = dk_tenant dk" "dk_fleet (dk\<lparr>dk_waves := ws\<rparr>) = dk_fleet dk"
    "dk_authz (dk\<lparr>dk_waves := ws\<rparr>) = dk_authz dk" "dk_records (dk\<lparr>dk_waves := ws\<rparr>) = dk_records dk"
    "dk_policies (dk\<lparr>dk_waves := ws\<rparr>) = dk_policies dk" by simp_all
  have b: "bound_group (dk\<lparr>dk_waves := ws\<rparr>) p = bound_group dk p" for p
    unfolding bound_group_def f by (rule refl)
  have g: "governing_policy_for_targets (dk\<lparr>dk_waves := ws\<rparr>) a ts = governing_policy_for_targets dk a ts" for a ts
    unfolding governing_policy_for_targets_def f b by (rule refl)
  show ?thesis unfolding wave_dispatch_authority_def f g by (rule refl)
qed

lemma ground_same:
  assumes g: "ground b = ground b'"
  shows "bk_campaign b = bk_campaign b'" "dispatchable_at b i = dispatchable_at b' i" "request_for b i = request_for b' i"
    "site_registered b i = site_registered b' i" "device_verdict wd b i a = device_verdict wd b' i a"
    "wave_authority sha dumps wd b w = wave_authority sha dumps wd b' w"
proof -
  have c: "bk_campaign b = bk_campaign b'" and d: "(bk_desk b)\<lparr>dk_waves := []\<rparr> = (bk_desk b')\<lparr>dk_waves := []\<rparr>" and t: "target_facts b = target_facts b'"
    using g by (simp_all add: ground_def)
  show "bk_campaign b = bk_campaign b'" by (rule c)
  show "dispatchable_at b i = dispatchable_at b' i" unfolding dispatchable_facts t ..
  then show "request_for b i = request_for b' i" by (simp add: request_for_def c)
  have f: "dk_fleet (bk_desk b) = dk_fleet (bk_desk b')" "dk_authz (bk_desk b) = dk_authz (bk_desk b')"
    using arg_cong [OF d, of dk_fleet] arg_cong [OF d, of dk_authz] by simp_all
  show "site_registered b i = site_registered b' i" by (simp add: site_registered_def f)
  show "device_verdict wd b i a = device_verdict wd b' i a" by (simp add: device_verdict_def device_row_def f c)
  show "wave_authority sha dumps wd b w = wave_authority sha dumps wd b' w"
    unfolding wave_authority_def c by (metis authority_waves d)
qed

lemma licensed_same:
  assumes "ground b = ground b'" "site_waves b (dr_site d) = site_waves b' (dr_site d)"
  shows "licensed sha dumps wd b d = licensed sha dumps wd b' d"
  unfolding licensed_def assms(2) ground_same [OF assms(1)] ..

lemma target_facts_at:
  assumes "\<And>t. ct_site (f t) = ct_site t \<and> ct_agent (f t) = ct_agent t \<and> ct_applicability (f t) = ct_applicability t"
  shows "target_facts (at_target a f bk) = target_facts bk"
  using assms by (simp add: target_facts_def at_target_def)

lemma ground_at_waves:
  assumes "\<And>w. wave_key (f w) = wave_key w \<and> wv_devices (f w) = wv_devices w \<and> wv_subject (f w) = wv_subject w"
  shows "ground (at_waves P f bk) = ground bk"
proof -
  have "wave_facts (at_waves P f bk) = wave_facts bk" using assms by (simp add: wave_facts_def at_waves_def)
  then show ?thesis by (simp add: ground_def at_waves_def target_facts_def plan_facts_def)
qed

lemma ground_wave_simps [simp]: "ground (set_wave w st bk) = ground bk" "ground (void_site_waves i bk) = ground bk"
  unfolding set_wave_def void_site_waves_def by (rule ground_at_waves; simp add: wave_key_def)+

lemma ground_simps [simp]:
  "ground (at_branch i h bk) = ground bk"
  "ground (bk\<lparr>bk_plans := supersede_plans k keep (bk_plans bk)\<rparr>) = ground bk" "ground (bk\<lparr>bk_ledger := l\<rparr>) = ground bk"
  "ground (halt_site i bk) = ground bk" "ground (mark_wave_targets w v bk) = ground bk"
proof -
  show b: "ground (at_branch i h bk) = ground bk" for bk h by (simp add: ground_def target_facts_def wave_facts_def plan_facts_def at_branch_def)
  show "ground (halt_site i bk) = ground bk" by (simp add: halt_site_def b)
  have "map (\<lambda>r. (pl_site r, pl_hash r, pl_waves r)) (supersede_plans k keep ps) = map (\<lambda>r. (pl_site r, pl_hash r, pl_waves r)) ps" for ps
    by (simp add: supersede_plans_def)
  then show "ground (bk\<lparr>bk_plans := supersede_plans k keep (bk_plans bk)\<rparr>) = ground bk"
    by (simp add: ground_def target_facts_def wave_facts_def plan_facts_def)
qed (auto simp: ground_def target_facts_def wave_facts_def plan_facts_def mark_wave_targets_def)

lemma ground_at_target:
  assumes "\<And>t. ct_site (f t) = ct_site t \<and> ct_agent (f t) = ct_agent t \<and> ct_applicability (f t) = ct_applicability t"
  shows "ground (at_target a f bk) = ground bk"
  using target_facts_at [OF assms] by (simp add: ground_def wave_facts_def plan_facts_def at_target_def)

lemma ground_fold: "(\<And>a b. ground (h a b) = ground b) \<Longrightarrow> ground (fold h as bk) = ground bk"
  by (induction as arbitrary: bk) simp_all

lemma ground_note: "ground (note_verdict wd b0 i a b) = ground b"
  unfolding note_verdict_def by (rule ground_at_target) simp

lemma ground_dispatch: "ground (dispatch_device wd w a b) = ground b"
  by (simp add: dispatch_device_def Let_def ground_at_target)

lemma fold_note: "\<exists>ts. fold (note_verdict wd b0 i) as bk = bk\<lparr>bk_targets := ts\<rparr>"
  unfolding note_verdict_def by (rule fold_at_target)

lemma ground_settle_wave: "ground (settle_wave wd bk w) = ground bk"
proof -
  let ?out = "last_outcome wd (campaign_actor (bk_campaign bk))"
  let ?h = "\<lambda>d. at_target d (\<lambda>t. t\<lparr>ct_outcome := (case ?out d of None \<Rightarrow> [] | Some r \<Rightarrow> r), ct_status := (if ?out d = Some ''SUCCESS'' then TgCompleted else TgFailed)\<rparr>)"
  have "ground (?h a b) = ground b" for a b by (rule ground_at_target) simp
  then have "ground (fold ?h ds bk) = ground bk" for ds using ground_fold [of ?h ds bk] by blast
  then show ?thesis by (simp add: settle_wave_def Let_def)
qed

lemma ground_settle: "ground (settle_dispatched_waves wd bk) = ground bk"
proof -
  have "ground (fold (\<lambda>w b. settle_wave wd b w) ws bk) = ground bk" for ws
    by (induction ws arbitrary: bk) (simp_all add: ground_settle_wave)
  then show ?thesis by (simp add: settle_dispatched_waves_def)
qed

text \<open>Waves of another site.\<close>

lemma filter_site_at: "(\<And>w. P w \<Longrightarrow> wv_site w \<noteq> j \<and> wv_site (f w) \<noteq> j) \<Longrightarrow>
    filter (\<lambda>w. wv_site w = j) (map (\<lambda>w. if P w then f w else w) ws) = filter (\<lambda>w. wv_site w = j) ws"
  by (induction ws) auto

lemma site_waves_at: "(\<And>w. wv_campaign (f w) = wv_campaign w) \<Longrightarrow> (\<And>w. P w \<Longrightarrow> wv_site w \<noteq> j \<and> wv_site (f w) \<noteq> j) \<Longrightarrow> site_waves (at_waves P f bk) j = site_waves bk j"
  unfolding site_waves_def by (subst campaign_waves_at, blast, rule filter_site_at, blast)

lemma site_waves_other [simp]:
  "site_waves (at_branch i h bk) j = site_waves bk j" "site_waves (bk\<lparr>bk_plans := ps\<rparr>) j = site_waves bk j"
  "site_waves (bk\<lparr>bk_targets := ts\<rparr>) j = site_waves bk j" "site_waves (bk\<lparr>bk_ledger := l\<rparr>) j = site_waves bk j"
  "site_waves (mark_wave_targets w v bk) j = site_waves bk j"
  "wv_site w \<noteq> j \<Longrightarrow> site_waves (set_wave w st bk) j = site_waves bk j"
  "i \<noteq> j \<Longrightarrow> site_waves (void_site_waves i bk) j = site_waves bk j"
  "i \<noteq> j \<Longrightarrow> site_waves (halt_site i bk) j = site_waves bk j"
proof -
  show v: "i \<noteq> j \<Longrightarrow> site_waves (void_site_waves i bk) j = site_waves bk j" for bk
    unfolding void_site_waves_def by (rule site_waves_at) auto
  show "wv_site w \<noteq> j \<Longrightarrow> site_waves (set_wave w st bk) j = site_waves bk j"
    unfolding set_wave_def by (rule site_waves_at) (auto simp: same_wave_def wave_key_def)
  show b: "site_waves (at_branch i h bk) j = site_waves bk j" for bk h by (simp add: site_waves_def)
  show "i \<noteq> j \<Longrightarrow> site_waves (halt_site i bk) j = site_waves bk j" using v b by (simp add: halt_site_def)
qed (simp_all add: site_waves_def mark_wave_targets_def)

lemma quiet_site: "quiet bk j \<longleftrightarrow> (\<forall>w \<in> set (site_waves bk j). wave_finished (wv_status w))"
  by (auto simp: quiet_def site_waves_def)

definition passes_on :: "(bytes \<Rightarrow> string) \<Rightarrow> (pyval \<Rightarrow> bytes) \<Rightarrow> world \<Rightarrow> string \<Rightarrow> book \<Rightarrow> book \<Rightarrow> bool" where
  "passes_on sha dumps wd i bk bk' \<longleftrightarrow> core_ok bk' \<and> ground bk' = ground bk \<and> map sb_site (bk_branches bk') = map sb_site (bk_branches bk) \<and>
     (\<forall>j. j \<noteq> i \<longrightarrow> branch_status_of bk' j = branch_status_of bk j \<and> site_waves bk' j = site_waves bk j) \<and>
     (\<exists>rows. bk_ledger bk' = bk_ledger bk @ rows \<and> (\<forall>d \<in> set rows. dr_site d = i \<and> licensed sha dumps wd bk d))"

lemma passes_on_quietly:
  assumes "core_ok bk'" "ground bk' = ground bk" "map sb_site (bk_branches bk') = map sb_site (bk_branches bk)" "bk_ledger bk' = bk_ledger bk"
    "\<And>j. j \<noteq> i \<Longrightarrow> branch_status_of bk' j = branch_status_of bk j" "\<And>j. j \<noteq> i \<Longrightarrow> site_waves bk' j = site_waves bk j"
  shows "passes_on sha dumps wd i bk bk'"
  using assms by (simp add: passes_on_def)

lemma launch_empty:
  assumes core: "core_ok bk" and w: "wv_site w = i" and that: "ground (bk\<lparr>bk_targets := ts\<rparr>) = ground bk"
  shows "passes_on sha dumps wd i bk (at_branch i (\<lambda>s. s\<lparr>sb_current := n\<rparr>) (set_wave w ''completed'' (bk\<lparr>bk_targets := ts\<rparr>)))"
proof (rule passes_on_quietly)
  have "core_ok (set_wave w ''completed'' (bk\<lparr>bk_targets := ts\<rparr>))" by (rule core_finish) (simp_all add: core)
  then show "core_ok (at_branch i (\<lambda>s. s\<lparr>sb_current := n\<rparr>) (set_wave w ''completed'' (bk\<lparr>bk_targets := ts\<rparr>)))" by (rule core_at_branch) simp_all
qed (simp_all add: that distinct_at_branch w)

lemma launch_core:
  fixes m :: int
  assumes core: "core_ok bk" and n: "next_wave bk i = Some w" and r: "wave_runnable (wv_status w)"
    and g: "ground (bk\<lparr>bk_targets := ts, bk_ledger := l\<rparr>) = ground bk" and l: "distinct (ledger_keys (bk\<lparr>bk_ledger := l\<rparr>))"
  defines "bk' \<equiv> at_branch i (\<lambda>s. s\<lparr>sb_current := m\<rparr>) (set_wave w ''dispatched'' ((at_branch i (\<lambda>s. s\<lparr>sb_status := BrRunning\<rparr>) bk)\<lparr>bk_targets := ts, bk_ledger := l\<rparr>))"
  shows "core_ok bk'" "ground bk' = ground bk" "map sb_site (bk_branches bk') = map sb_site (bk_branches bk)"
    "j \<noteq> i \<Longrightarrow> branch_status_of bk' j = branch_status_of bk j" "j \<noteq> i \<Longrightarrow> site_waves bk' j = site_waves bk j"
proof -
  note w = next_wave_Some [OF n]
  let ?b = "(at_branch i (\<lambda>s. s\<lparr>sb_status := BrRunning\<rparr>) bk)\<lparr>bk_targets := ts, bk_ledger := l\<rparr>"
  have nd: "wv_status w \<noteq> ''dispatched''" using r by auto
  have sw: "site_waves ?b k = site_waves bk k" for k by simp
  have "next_wave ?b i = Some w" using n unfolding next_wave_def sw .
  moreover have "waves_ok (campaign_waves ?b)" using core by (simp add: core_ok_def)
  ultimately have ok: "waves_ok (campaign_waves (set_wave w ''dispatched'' ?b))" using waves_ok_dispatch nd by blast
  show st: "branch_status_of bk' j = branch_status_of bk j" if "j \<noteq> i" for j using that unfolding bk'_def by simp
  show si: "site_waves bk' j = site_waves bk j" if "j \<noteq> i" for j using that w(2) unfolding bk'_def by simp
  show sites: "map sb_site (bk_branches bk') = map sb_site (bk_branches bk)"
    unfolding bk'_def by (simp add: distinct_at_branch)
  have "ground bk' = ground ?b" unfolding bk'_def by simp
  also have "\<dots> = ground bk" using g by (simp add: ground_def target_facts_def wave_facts_def plan_facts_def at_branch_def)
  finally show "ground bk' = ground bk" .
  have "\<not> quiet bk i" using w(1-3) unfolding quiet_def by blast
  then have "BrHalted \<notin> branch_status_of bk i" using core_halted [OF core] by blast
  then have i: "BrHalted \<notin> branch_status_of bk' i" unfolding bk'_def by simp
  show "core_ok bk'"
  proof (rule core_okI [OF core sites])
    show "waves_ok (campaign_waves bk')" using ok unfolding bk'_def by simp
    show "distinct (ledger_keys bk')" using l unfolding bk'_def by (simp add: ledger_keys_def)
    fix k assume h: "BrHalted \<in> branch_status_of bk' k"
    then have "k \<noteq> i" using i by blast
    then show "quiet bk' k" using h core_halted [OF core, of k] st [of k] si [of k] unfolding quiet_site by simp
  qed
qed

lemma launch_passes:
  assumes core: "core_ok bk" and n: "next_wave bk i = Some w" and r: "wave_runnable (wv_status w)" and reg: "site_registered bk i"
    and p: "wd_site_plan wd i (request_for bk i) = Some p" and cur: "sp_planned p" "sp_hash p = wv_plan w"
    and au: "wv_status w = ''approved'' \<longrightarrow> (\<exists>v. wave_authority sha dumps wd bk w = Inr v \<and> wo_ok v)" and el: "eligible_now wd w"
  shows "passes_on sha dumps wd i bk (launch_wave wd bk w)"
proof -
  note w = next_wave_Some [OF n]
  obtain ts where ts: "fold (note_verdict wd bk i) (wv_devices w) bk = bk\<lparr>bk_targets := ts\<rparr>" using fold_note [of wd bk i] by blast
  have gt: "ground (bk\<lparr>bk_targets := ts\<rparr>) = ground bk"
    using ground_fold [of "note_verdict wd bk i" "wv_devices w" bk] ground_note unfolding ts by blast
  let ?final = "sorted_list_of_set (narrow_only (wv_devices w) (filter (\<lambda>a. device_verdict wd bk i a = RevalOk) (wv_devices w)))"
  have final: "set ?final = {a \<in> set (wv_devices w). device_verdict wd bk i a = RevalOk}" by (auto simp: narrow_only_def)
  show ?thesis
  proof (cases "?final = []")
    case True
    then have "launch_wave wd bk w = at_branch i (\<lambda>s. s\<lparr>sb_current := wv_index w + 1\<rparr>) (set_wave w ''completed'' (bk\<lparr>bk_targets := ts\<rparr>))"
      using ts w(2) by (simp add: launch_wave_def revalidate_wave_def)
    then show ?thesis using launch_empty [OF core w(2) gt] by simp
  next
    case ne: False
    let ?r = "at_branch i (\<lambda>s. s\<lparr>sb_status := BrRunning\<rparr>) (bk\<lparr>bk_targets := ts\<rparr>)"
    obtain ts' rows where f: "fold (dispatch_device wd w) ?final ?r = ?r\<lparr>bk_targets := ts', bk_ledger := bk_ledger ?r @ rows\<rparr>"
      and d: "distinct (ledger_keys ?r) \<longrightarrow> distinct (ledger_keys (?r\<lparr>bk_ledger := bk_ledger ?r @ rows\<rparr>))"
      and rows: "\<forall>x \<in> set rows. dr_version x = ca_version (bk_campaign ?r) \<and> dr_site x = wv_site w \<and> dr_agent x \<in> set ?final \<and>
        dr_wave x = wv_index w \<and> dr_plan x = wv_plan w"
      using fold_dispatch [of wd w ?final ?r] by blast
    have r': "?r\<lparr>bk_targets := ts', bk_ledger := bk_ledger ?r @ rows\<rparr> =
        (at_branch i (\<lambda>s. s\<lparr>sb_status := BrRunning\<rparr>) bk)\<lparr>bk_targets := ts', bk_ledger := bk_ledger bk @ rows\<rparr>"
      by (simp add: at_branch_def)
    have bk'': "launch_wave wd bk w = at_branch i (\<lambda>s. s\<lparr>sb_current := wv_index w\<rparr>) (set_wave w ''dispatched''
        ((at_branch i (\<lambda>s. s\<lparr>sb_status := BrRunning\<rparr>) bk)\<lparr>bk_targets := ts', bk_ledger := bk_ledger bk @ rows\<rparr>))"
      unfolding r' [symmetric] f [symmetric] using ts w(2) ne by (simp add: launch_wave_def revalidate_wave_def)
    have "ground (bk\<lparr>bk_targets := ts', bk_ledger := bk_ledger bk @ rows\<rparr>) = ground (?r\<lparr>bk_targets := ts', bk_ledger := bk_ledger ?r @ rows\<rparr>)"
      by (simp add: ground_def target_facts_def wave_facts_def plan_facts_def at_branch_def)
    also have "\<dots> = ground ?r" unfolding f [symmetric] by (rule ground_fold) (rule ground_dispatch)
    also have "\<dots> = ground bk" using gt by simp
    finally have g: "ground (bk\<lparr>bk_targets := ts', bk_ledger := bk_ledger bk @ rows\<rparr>) = ground bk" .
    have l: "distinct (ledger_keys (bk\<lparr>bk_ledger := bk_ledger bk @ rows\<rparr>))"
      using d core by (simp add: core_ok_def ledger_keys_def)
    note L = launch_core [OF core n r g l, where m = "wv_index w", folded bk'']
    have "licensed sha dumps wd bk x \<and> dr_site x = i" if "x \<in> set rows" for x
    proof -
      have x: "dr_site x = i" "dr_wave x = wv_index w" "dr_plan x = wv_plan w" "dr_agent x \<in> set (wv_devices w)"
        "device_verdict wd bk i (dr_agent x) = RevalOk" using rows that w(2) unfolding final by auto
      have "w \<in> set (site_waves bk i)" using w(1,2) by (simp add: site_waves_def)
      moreover have "wave_finished (wv_status v)" if "v \<in> set (site_waves bk i)" "wv_index v < wv_index w" for v
        using w(4) [of v] that by (auto simp: site_waves_def)
      moreover have "wv_status w = ''approved'' \<longrightarrow> (\<exists>v. wave_authority sha dumps wd bk w = Inr v \<and> wo_ok v)"
        using au by blast
      ultimately show ?thesis unfolding licensed_def x(1) using x r reg p cur el
          by (intro conjI bexI [of _ w] exI [of _ p] ballI impI) simp_all
    qed
    moreover have "bk_ledger (launch_wave wd bk w) = bk_ledger bk @ rows" unfolding bk'' by simp
    ultimately show ?thesis using L unfolding passes_on_def by blast
  qed
qed

lemma stale_passes:
  assumes core: "core_ok bk"
  shows "passes_on sha dumps wd i bk (at_branch i (\<lambda>s. s\<lparr>sb_status := BrPending\<rparr>) (void_site_waves i (bk\<lparr>bk_plans := supersede_plans k h (bk_plans bk)\<rparr>)))"
proof -
  let ?b = "bk\<lparr>bk_plans := supersede_plans k h (bk_plans bk)\<rparr>"
  let ?v = "void_site_waves i ?b"
  have ok: "waves_ok (campaign_waves ?b)" using core by (simp add: core_ok_def)
  have "core_ok ?v"
  proof (rule core_okI [OF core])
    show "waves_ok (campaign_waves ?v)" by (rule void_ok [OF ok])
    show "distinct (ledger_keys ?v)" using core by (simp add: core_ok_def)
    fix j assume "BrHalted \<in> branch_status_of ?v j"
    then have "quiet bk j" using core_halted [OF core] by simp
    then show "quiet ?v j" using void_quiet(1) [OF ok, of j i] by simp
  qed simp
  then have "core_ok (at_branch i (\<lambda>s. s\<lparr>sb_status := BrPending\<rparr>) ?v)" by (rule core_at_branch) simp_all
  then show ?thesis by (rule passes_on_quietly) (simp_all add: distinct_at_branch)
qed

lemma advance_site_passes:
  assumes core: "core_ok bk" and a: "advance_site sha dumps wd bk i = Inr (bk', b)"
  shows "passes_on sha dumps wd i bk bk'"
proof (cases "next_wave bk i")
  case None
  then have bk': "bk' = at_branch i (\<lambda>s. s\<lparr>sb_status := BrCompleted\<rparr>) bk" using a by (simp add: advance_site_def)
  have "core_ok bk'" unfolding bk' by (rule core_at_branch [OF core]) simp_all
  then show ?thesis by (rule passes_on_quietly) (simp_all add: bk' distinct_at_branch)
next
  case n: (Some w)
  note w = next_wave_Some [OF n]
  show ?thesis
  proof (cases "wave_runnable (wv_status w)")
    case False
    then have "bk' = bk" using a n by (simp add: advance_site_def)
    then show ?thesis using core by (simp add: passes_on_def)
  next
    case r: True
    have alone: "wv_status v \<noteq> ''dispatched''" if "v \<in> set (campaign_waves bk)" "wv_site v = i" for v
    proof -
      have "waves_ok (campaign_waves bk)" "wv_status w \<noteq> ''dispatched''" using core r by (auto simp: core_ok_def)
      then show ?thesis using next_wave_alone [OF _ n _ that] by blast
    qed
    have halt: "passes_on sha dumps wd i bk (halt_site i bk)"
      by (rule passes_on_quietly [OF core_halt [OF core alone]]) simp_all
    show ?thesis
    proof (cases "site_registered bk i")
      case False
      then have "bk' = halt_site i bk" using a n r by (simp add: advance_site_def)
      then show ?thesis using halt by simp
    next
      case reg: True
      show ?thesis
      proof (cases "wd_site_plan wd i (request_for bk i)")
        case None
        then have "bk' = halt_site i bk" using a n r reg by (simp add: advance_site_def)
        then show ?thesis using halt by simp
      next
        case p: (Some p)
        show ?thesis
        proof (cases "\<not> sp_planned p \<or> \<not> plan_is_current (wv_plan w) (sp_hash p)")
          case True
          have "bk' = at_branch i (\<lambda>s. s\<lparr>sb_status := BrPending\<rparr>)
              (void_site_waves i (bk\<lparr>bk_plans := supersede_plans i (sp_hash p) (bk_plans bk)\<rparr>))"
            using a n r reg p True by (simp add: advance_site_def)
          then show ?thesis using stale_passes [OF core] by simp
        next
          case False
          then have cur: "sp_planned p" "sp_hash p = wv_plan w" by (auto simp: plan_is_current_def)
          obtain ok where au: "(if wv_status w = ''approved'' then (case wave_authority sha dumps wd bk w of Inl e \<Rightarrow> Inl e | Inr v \<Rightarrow> Inr (wo_ok v)) else Inr True) = Inr ok"
            and rest: "(if \<not> ok then Inr (mark_wave_targets w AuthorityLost bk, Blocked)
                    else if \<not> eligible_now wd w then Inr (mark_wave_targets w ExecutionWithheld bk, Blocked)
                    else Inr (launch_wave wd bk w, Advanced)) = (Inr (bk', b) :: target_error + book \<times> bucket)"
            using a n r reg p False by (auto simp: advance_site_def andthen_eq_Inr)
          have mark: "passes_on sha dumps wd i bk (mark_wave_targets w v bk)" for v
            by (rule passes_on_quietly) (simp_all, simp_all add: mark_wave_targets_def core branch_status_of_def)
          show ?thesis
          proof (cases "ok \<and> eligible_now wd w")
            case False
            then show ?thesis using rest mark by (auto split: if_splits)
          next
            case go: True
            then have bk': "bk' = launch_wave wd bk w" using rest by simp
            show ?thesis unfolding bk' by (rule launch_passes [OF core n r reg p cur]) (use au go in \<open>auto split: sum.splits\<close>)
          qed
        qed
      qed
    qed
  qed
qed

subsection \<open>A pass over a campaign\<close>

lemma advance_sites_facts:
  assumes "core_ok bk" "distinct is" "advance_sites sha dumps wd is bk = Inr bk'"
  shows "core_ok bk' \<and> ground bk' = ground bk \<and> map sb_site (bk_branches bk') = map sb_site (bk_branches bk) \<and>
     (\<forall>j. j \<notin> set is \<longrightarrow> branch_status_of bk' j = branch_status_of bk j \<and> site_waves bk' j = site_waves bk j) \<and>
     (\<exists>rows. bk_ledger bk' = bk_ledger bk @ rows \<and> (\<forall>d \<in> set rows. dr_site d \<in> set is \<and> licensed sha dumps wd bk d))"
  using assms
proof (induction "is" arbitrary: bk)
  case (Cons i "is")
  obtain b c where a: "advance_site sha dumps wd bk i = Inr (b, c)" and r: "advance_sites sha dumps wd is b = Inr bk'"
    using Cons.prems(3) by (auto simp: andthen_eq_Inr)
  have p: "passes_on sha dumps wd i bk b" by (rule advance_site_passes [OF Cons.prems(1) a])
  then have core: "core_ok b" and g: "ground b = ground bk" and m: "map sb_site (bk_branches b) = map sb_site (bk_branches bk)"
    and o: "\<And>j. j \<noteq> i \<Longrightarrow> branch_status_of b j = branch_status_of bk j \<and> site_waves b j = site_waves bk j" by (auto simp: passes_on_def)
  obtain rows where rows: "bk_ledger b = bk_ledger bk @ rows" "\<forall>d \<in> set rows. dr_site d = i \<and> licensed sha dumps wd bk d"
    using p by (auto simp: passes_on_def)
  have "distinct is" "i \<notin> set is" using Cons.prems(2) by simp_all
  note ih = Cons.IH [OF core this(1) r]
  obtain rows' where rows': "bk_ledger bk' = bk_ledger b @ rows'" "\<forall>d \<in> set rows'. dr_site d \<in> set is \<and> licensed sha dumps wd b d"
    using ih by blast
  have "licensed sha dumps wd bk d" if "d \<in> set rows'" for d
  proof -
    have "dr_site d \<noteq> i" "licensed sha dumps wd b d" using rows'(2) that \<open>i \<notin> set is\<close> by auto
    then show ?thesis using licensed_same [OF g, of d sha dumps wd] o by simp
  qed
  then have "bk_ledger bk' = bk_ledger bk @ (rows @ rows') \<and> (\<forall>d \<in> set (rows @ rows'). dr_site d \<in> set (i # is) \<and> licensed sha dumps wd bk d)"
    using rows rows' by auto
  moreover have "\<forall>j. j \<notin> set (i # is) \<longrightarrow> branch_status_of bk' j = branch_status_of bk j \<and> site_waves bk' j = site_waves bk j"
    using ih o by simp
  ultimately show ?case using ih g m by metis
qed (auto simp: ground_def)

definition concurrency_limit :: "fleet_campaign \<Rightarrow> nat" where
  "concurrency_limit c = nat (max 1 (ca_concurrency c))"

lemma distinct_take_append: "distinct (xs @ ys) \<Longrightarrow> distinct (xs @ take n ys)"
  by (auto dest: in_set_takeD)

lemma active_facts:
  assumes "distinct (map sb_site (bk_branches bk))"
  shows "distinct (active_sites bk)" "running_sites bk \<subseteq> set (active_sites bk)"
    "card (set (active_sites bk)) \<le> max (concurrency_limit (bk_campaign bk)) (card (running_sites bk))"
    "\<And>i. i \<in> set (active_sites bk) \<Longrightarrow> BrHalted \<notin> branch_status_of bk i"
proof -
  let ?run = "filter (\<lambda>s. sb_status s = BrRunning) (bk_branches bk)" and ?start = "filter (\<lambda>s. sb_status s = BrPending) (bk_branches bk)"
  let ?k = "nat (max 0 (max 1 (if ca_concurrency (bk_campaign bk) = 0 then 1 else ca_concurrency (bk_campaign bk)) - int (length ?run)))"
  have act: "active_sites bk = map sb_site (?run @ take ?k ?start)" by (simp add: active_sites_def Let_def)
  have inj: "inj_on sb_site (set (bk_branches bk))" and db: "distinct (bk_branches bk)" using assms by (simp_all add: distinct_map)
  have "set (?run @ take ?k ?start) \<subseteq> set (bk_branches bk)" by (auto dest: in_set_takeD)
  then have "inj_on sb_site (set (?run @ take ?k ?start))" by (rule inj_on_subset [OF inj])
  moreover have "distinct (?run @ take ?k ?start)" using db by (intro distinct_take_append) auto
  ultimately show d: "distinct (active_sites bk)" unfolding act distinct_map by blast
  have run: "running_sites bk = set (map sb_site ?run)" by (auto simp: running_sites_def)
  then show "running_sites bk \<subseteq> set (active_sites bk)" unfolding act by auto
  have "inj_on sb_site (set ?run)" by (rule inj_on_subset [OF inj]) auto
  then have "distinct (map sb_site ?run)" using db unfolding distinct_map by simp
  then have r: "card (running_sites bk) = length ?run" unfolding run by (metis distinct_card length_map)
  have bound: "n + m \<le> max (nat (max 1 c)) n" if "m \<le> nat (max 0 (max 1 (if c = 0 then 1 else c) - int n))" for n m :: nat and c :: int
    using that by (simp split: if_splits)
  have "card (set (active_sites bk)) = length (active_sites bk)" by (rule distinct_card [OF d])
  also have "\<dots> = length ?run + length (take ?k ?start)" unfolding act by (simp only: length_map length_append)
  also have "\<dots> \<le> max (concurrency_limit (bk_campaign bk)) (card (running_sites bk))"
    unfolding r concurrency_limit_def by (rule bound) (simp only: length_take min.cobounded2)
  finally show "card (set (active_sites bk)) \<le> max (concurrency_limit (bk_campaign bk)) (card (running_sites bk))" .
  have sub: "set (take ?k ?start) \<subseteq> set ?start" by (rule set_take_subset)
  fix i assume "i \<in> set (active_sites bk)"
  then obtain s where "s \<in> set ?run \<union> set (take ?k ?start)" "sb_site s = i" unfolding act by auto
  then have "s \<in> set ?run \<union> set ?start" "sb_site s = i" using sub by blast+
  then obtain s where s: "s \<in> set (bk_branches bk)" "sb_site s = i" "sb_status s = BrRunning \<or> sb_status s = BrPending"
    by auto
  show "BrHalted \<notin> branch_status_of bk i"
  proof
    assume "BrHalted \<in> branch_status_of bk i"
    then obtain t where t: "t \<in> set (bk_branches bk)" "sb_site t = i" "sb_status t = BrHalted" by (auto simp: branch_status_iff)
    then have "t = s" using inj s(1,2) by (auto dest: inj_onD)
    then show False using s(3) t(3) by simp
  qed
qed

lemma settle_campaign_simps [simp]:
  "bk_branches (settle_campaign bk) = bk_branches bk" "bk_ledger (settle_campaign bk) = bk_ledger bk" "bk_desk (settle_campaign bk) = bk_desk bk"
  "ca_id (bk_campaign (settle_campaign bk)) = ca_id (bk_campaign bk)" "ca_concurrency (bk_campaign (settle_campaign bk)) = ca_concurrency (bk_campaign bk)"
  "bk_targets (settle_campaign bk) = bk_targets bk"
  by (simp_all add: settle_campaign_def split: option.splits)

lemma core_same:
  assumes "bk_branches b = bk_branches bk" "bk_ledger b = bk_ledger bk" "campaign_waves b = campaign_waves bk"
  shows "core_ok b = core_ok bk" "running_sites b = running_sites bk" "branch_status_of b = branch_status_of bk"
  using assms by (auto simp: core_ok_def ledger_keys_def quiet_def running_sites_def branch_status_of_def)

lemma settle_campaign_core [simp]:
  "core_ok (settle_campaign bk) = core_ok bk" "running_sites (settle_campaign bk) = running_sites bk"
  "branch_status_of (settle_campaign bk) = branch_status_of bk"
  by (rule core_same; simp add: campaign_waves_def)+

lemma settled_status: "ca_status (bk_campaign (settle_campaign bk)) \<in> {ca_status (bk_campaign bk), CsHalted, CsCompleted}"
  by (auto simp: settle_campaign_def campaign_terminal_state_def Let_def split: option.splits if_splits)

text \<open>The first sites of a pass: the invariant stays, at most as many sites run as the campaign allows, a halted site is left
  alone, and every new row of the ledger was licensed.\<close>

text \<open>What a campaign is about.\<close>

definition campaign_terms :: "fleet_campaign \<Rightarrow> string \<times> int \<times> string" where
  "campaign_terms c = (ca_id c, ca_version c, ca_action c)"

lemma campaign_terms_status [simp]:
  "campaign_terms (c\<lparr>ca_status := st\<rparr>) = campaign_terms c" "campaign_terms (bk_campaign (settle_campaign bk)) = campaign_terms (bk_campaign bk)"
  by (simp_all add: campaign_terms_def settle_campaign_def split: option.splits)

lemma settle_campaign_plans [simp]: "plan_facts (settle_campaign bk) = plan_facts bk"
  by (simp add: plan_facts_def settle_campaign_def split: option.splits)

lemma advance_first_facts:
  assumes core: "core_ok bk" and lim: "card (running_sites bk) \<le> concurrency_limit (bk_campaign bk)"
    and r: "advance_sites sha dumps wd (take n (active_sites (settle_dispatched_waves wd bk))) (settle_dispatched_waves wd bk) = Inr b2"
  shows "core_ok b2" "card (running_sites b2) \<le> concurrency_limit (bk_campaign bk)" "bk_campaign b2 = bk_campaign bk"
    "BrHalted \<in> branch_status_of bk j \<Longrightarrow> branch_status_of b2 j = branch_status_of bk j"
    "wave_facts b2 = wave_facts bk"
    "\<exists>rows. bk_ledger b2 = bk_ledger bk @ rows \<and> (\<forall>d \<in> set rows. dr_site d \<in> set (active_sites (settle_dispatched_waves wd bk)) \<and>
       licensed sha dumps wd (settle_dispatched_waves wd bk) d)"
    "plan_facts b2 = plan_facts bk"
proof -
  let ?b = "settle_dispatched_waves wd bk"
  let ?is = "take n (active_sites ?b)"
  note s = settle_dispatched_core [OF core, where wd = wd]
  have d: "distinct (map sb_site (bk_branches ?b))" using s(1) by (simp add: core_ok_def)
  note af = active_facts [OF d]
  have di: "distinct ?is" using af(1) by (rule distinct_take)
  have sub: "set ?is \<subseteq> set (active_sites ?b)" by (rule set_take_subset)
  note f = advance_sites_facts [OF s(1) di r]
  show camp: "bk_campaign b2 = bk_campaign bk" using f s(2) by (simp add: ground_def)
  show "core_ok b2" using f by blast
  have "ground b2 = ground bk" using f ground_settle [of wd bk] by simp
  then show "wave_facts b2 = wave_facts bk" "plan_facts b2 = plan_facts bk" by (simp_all add: ground_def)
  have "running_sites b2 \<subseteq> set (active_sites ?b)"
  proof
    fix j assume j: "j \<in> running_sites b2"
    show "j \<in> set (active_sites ?b)"
    proof (rule ccontr)
      assume n: "j \<notin> set (active_sites ?b)"
      then have "branch_status_of b2 j = branch_status_of ?b j" using f sub by blast
      then have "j \<in> running_sites ?b" using j by (simp add: running_status)
      then show False using af(2) n by blast
    qed
  qed
  then have "card (running_sites b2) \<le> card (set (active_sites ?b))" by (rule card_mono [OF finite_set])
  also have "\<dots> \<le> max (concurrency_limit (bk_campaign bk)) (card (running_sites ?b))" using af(3) s(2) by simp
  also have "\<dots> \<le> concurrency_limit (bk_campaign bk)"
  proof -
    have "finite (running_sites bk)" unfolding running_sites_def by simp
    then have "card (running_sites ?b) \<le> card (running_sites bk)" by (rule card_mono [OF _ s(5)])
    then show ?thesis using lim by simp
  qed
  finally show "card (running_sites b2) \<le> concurrency_limit (bk_campaign bk)" .
  show "branch_status_of b2 j = branch_status_of bk j" if "BrHalted \<in> branch_status_of bk j"
  proof -
    have e: "branch_status_of ?b j = branch_status_of bk j" by (rule s(6) [OF that])
    then have "j \<notin> set (active_sites ?b)" using af(4) [of j] that by metis
    then show ?thesis using f e sub by blast
  qed
  obtain rows where "bk_ledger b2 = bk_ledger ?b @ rows" "\<forall>d \<in> set rows. dr_site d \<in> set ?is \<and> licensed sha dumps wd ?b d"
    using f by blast
  then show "\<exists>rows. bk_ledger b2 = bk_ledger bk @ rows \<and> (\<forall>d \<in> set rows. dr_site d \<in> set (active_sites ?b) \<and> licensed sha dumps wd ?b d)"
    using s(3) sub by auto
qed

lemma advance_campaign_facts:
  assumes core: "core_ok bk" and lim: "card (running_sites bk) \<le> concurrency_limit (bk_campaign bk)"
    and a: "advance_campaign sha dumps wd bk = Inr bk'"
  shows "core_ok bk'" "card (running_sites bk') \<le> concurrency_limit (bk_campaign bk)"
    "ca_id (bk_campaign bk') = ca_id (bk_campaign bk)" "ca_concurrency (bk_campaign bk') = ca_concurrency (bk_campaign bk)"
    "ca_status (bk_campaign bk') \<in> {ca_status (bk_campaign bk), CsHalted, CsCompleted}"
    "BrHalted \<in> branch_status_of bk j \<Longrightarrow> branch_status_of bk' j = branch_status_of bk j"
    "wave_facts bk' = wave_facts bk"
    "\<exists>rows. bk_ledger bk' = bk_ledger bk @ rows \<and> (\<forall>d \<in> set rows. \<not> wd_stop wd \<and> dr_site d \<in> set (active_sites (settle_dispatched_waves wd bk)) \<and>
       licensed sha dumps wd (settle_dispatched_waves wd bk) d)"
    "plan_facts bk' = plan_facts bk" "campaign_terms (bk_campaign bk') = campaign_terms (bk_campaign bk)"
proof -
  let ?b = "settle_dispatched_waves wd bk"
  have "plan_facts bk' = plan_facts bk \<and> campaign_terms (bk_campaign bk') = campaign_terms (bk_campaign bk) \<and> core_ok bk' \<and> card (running_sites bk') \<le> concurrency_limit (bk_campaign bk) \<and>
    ca_id (bk_campaign bk') = ca_id (bk_campaign bk) \<and> ca_concurrency (bk_campaign bk') = ca_concurrency (bk_campaign bk) \<and>
    ca_status (bk_campaign bk') \<in> {ca_status (bk_campaign bk), CsHalted, CsCompleted} \<and>
    (\<forall>j. BrHalted \<in> branch_status_of bk j \<longrightarrow> branch_status_of bk' j = branch_status_of bk j) \<and> wave_facts bk' = wave_facts bk \<and>
    (\<exists>rows. bk_ledger bk' = bk_ledger bk @ rows \<and> (\<forall>d \<in> set rows. \<not> wd_stop wd \<and> dr_site d \<in> set (active_sites ?b) \<and> licensed sha dumps wd ?b d))"
  proof (cases "wd_stop wd")
    case True
    then have "bk' = bk" using a by (simp add: advance_campaign_def)
    then show ?thesis using core lim by simp
  next
    case False
    obtain b2 where r: "advance_sites sha dumps wd (active_sites ?b) ?b = Inr b2" and bk': "bk' = settle_campaign b2"
      using a False by (auto simp: advance_campaign_def Let_def andthen_eq_Inr)
    have r': "advance_sites sha dumps wd (take (length (active_sites ?b)) (active_sites ?b)) ?b = Inr b2" using r by simp
    note f = advance_first_facts [OF core lim r']
    have "ca_status (bk_campaign bk') \<in> {ca_status (bk_campaign bk), CsHalted, CsCompleted}"
      using settled_status [of b2] unfolding bk' f(3) .
    moreover have "wave_facts bk' = wave_facts bk" using f(5) unfolding bk' by (simp add: wave_facts_def)
    ultimately show ?thesis using f(1,2,3,4,6,7) False unfolding bk' by simp
  qed
  then show "core_ok bk'" "card (running_sites bk') \<le> concurrency_limit (bk_campaign bk)"
    "ca_id (bk_campaign bk') = ca_id (bk_campaign bk)" "ca_concurrency (bk_campaign bk') = ca_concurrency (bk_campaign bk)"
    "ca_status (bk_campaign bk') \<in> {ca_status (bk_campaign bk), CsHalted, CsCompleted}"
    "BrHalted \<in> branch_status_of bk j \<Longrightarrow> branch_status_of bk' j = branch_status_of bk j"
    "wave_facts bk' = wave_facts bk"
    "\<exists>rows. bk_ledger bk' = bk_ledger bk @ rows \<and> (\<forall>d \<in> set rows. \<not> wd_stop wd \<and> dr_site d \<in> set (active_sites ?b) \<and> licensed sha dumps wd ?b d)"
    "plan_facts bk' = plan_facts bk" "campaign_terms (bk_campaign bk') = campaign_terms (bk_campaign bk)"
    by blast+
qed

lemma raised_passD:
  assumes "raised_pass sha dumps wd n bk = Some bk'"
  shows "advance_sites sha dumps wd (take n (active_sites (settle_dispatched_waves wd bk))) (settle_dispatched_waves wd bk) = Inr bk'"
    "ca_status (bk_campaign bk) \<in> {CsRunning, CsAwaiting}" "\<not> wd_stop wd"
  using assms by (auto simp: raised_pass_def Let_def split: if_splits sum.splits)

end
