(* ===== verification/Campaign_Safety.thy ===== *)
theory Campaign_Safety
  imports Campaign_Runner
begin

text \<open>
  Campaigns over their whole life: preflight, acknowledgement, submission, decisions on waves by the approval endpoints,
  passes, and whatever else changes around them, in any order. What holds in every state that is reached, and what
  the rows of the dispatch ledger stand on.
\<close>

subsection \<open>Preparing a campaign\<close>

lemma fold_unplannable: "\<exists>ts. fold (\<lambda>a. at_target a h) as bk = bk\<lparr>bk_targets := ts\<rparr>"
  using fold_at_target [of "\<lambda>_. h" as bk] .

definition prepares :: "book \<Rightarrow> book \<Rightarrow> bool" where
  "prepares bk bk' \<longleftrightarrow> bk_desk bk' = bk_desk bk \<and> bk_campaign bk' = bk_campaign bk \<and> bk_ledger bk' = bk_ledger bk \<and>
     map sb_site (bk_branches bk') = map sb_site (bk_branches bk) \<and>
     (\<forall>j. branch_status_of bk' j \<subseteq> branch_status_of bk j \<union> {BrPending, BrSkipped})"

lemma prepares_refl: "prepares bk bk"
  by (auto simp: prepares_def)

lemma prepares_trans: "prepares a b \<Longrightarrow> prepares b c \<Longrightarrow> prepares a c"
  unfolding prepares_def by (intro conjI) (metis, metis, metis, metis, blast)

lemma prepares_branch:
  assumes "\<And>s. sb_site (f s) = sb_site s" "\<And>s. sb_status (f s) = st" "st = BrPending \<or> st = BrSkipped"
  shows "prepares bk (at_branch i f bk)"
  using assms by (auto simp: prepares_def distinct_at_branch) (simp_all add: at_branch_def)

lemma prepares_plans: "prepares bk (bk\<lparr>bk_plans := ps\<rparr>)" "prepares bk (bk\<lparr>bk_targets := ts\<rparr>)"
  by (auto simp: prepares_def)

lemma plan_site_prepares: "prepares bk (plan_site wd bk i)"
proof -
  have skip: "prepares b (at_branch i (\<lambda>s. s\<lparr>sb_status := st\<rparr>) b)" if "st = BrPending \<or> st = BrSkipped" for b st
    using that by (rule prepares_branch [rotated 2]) simp_all
  show ?thesis
  proof (cases "\<not> site_registered bk i \<or> dispatchable_at bk i = []")
    case True
    then show ?thesis by (simp add: plan_site_def skip)
  next
    case ready: False
    show ?thesis
    proof (cases "wd_site_plan wd i (request_for bk i)")
      case None
      then show ?thesis using ready by (simp add: plan_site_def skip)
    next
      case (Some p)
      show ?thesis
      proof (cases "\<not> sp_planned p \<or> \<not> plan_devices p \<subseteq> set (dispatchable_at bk i)")
        case True
        then show ?thesis using ready Some by (auto simp: plan_site_def Let_def intro: skip)
      next
        case False
        let ?b = "bk\<lparr>bk_plans := supersede_plans i (sp_hash p) (store_plan (ca_version (bk_campaign bk)) i p (bk_plans bk))\<rparr>"
        obtain ts where ts: "fold (\<lambda>a. at_target a (\<lambda>t. t\<lparr>ct_status := TgSkipped\<rparr>)) (sp_unplannable p) ?b = ?b\<lparr>bk_targets := ts\<rparr>"
          using fold_unplannable [of "\<lambda>t. t\<lparr>ct_status := TgSkipped\<rparr>" "sp_unplannable p" ?b] by blast
        have "plan_site wd bk i = at_branch i (\<lambda>s. s\<lparr>sb_count := length (sp_waves p), sb_current := 0, sb_status := BrPending\<rparr>) (?b\<lparr>bk_targets := ts\<rparr>)"
          using ready Some False ts by (simp add: plan_site_def Let_def)
        moreover have "prepares (?b\<lparr>bk_targets := ts\<rparr>) \<dots>" by (rule prepares_branch [where st = BrPending]) simp_all
        ultimately show ?thesis by (metis prepares_plans prepares_trans)
      qed
    qed
  qed
qed

lemma plan_sites_prepared:
  "\<exists>b. prepares bk b \<and> plan_sites wd bk = clear_waves b"
proof -
  have "prepares bk (fold (\<lambda>i b. plan_site wd b i) is bk)" for "is"
    by (induction "is" arbitrary: bk) (auto intro: prepares_refl prepares_trans plan_site_prepares)
  then show ?thesis unfolding plan_sites_def by blast
qed

lemma plan_site_order_distinct: "distinct (plan_site_order s name)"
  by (simp add: plan_site_order_def)

lemma preflight_facts:
  assumes "preflight wd bk rules sites reach = Inr bk'"
  shows "campaign_waves bk' = []" "bk_ledger bk' = bk_ledger bk" "distinct (map sb_site (bk_branches bk'))"
    "\<And>j. branch_status_of bk' j \<subseteq> {BrPending, BrSkipped}" "ca_id (bk_campaign bk') = ca_id (bk_campaign bk)"
    "ca_status (bk_campaign bk') = CsPreflighted" "ca_concurrency (bk_campaign bk') = ca_concurrency (bk_campaign bk)"
    "campaign_terms (bk_campaign bk') = campaign_terms (bk_campaign bk)"
proof -
  obtain rows order where bk': "bk' = plan_sites wd (bk\<lparr>bk_targets := rows,
      bk_branches := map (\<lambda>(n, i). \<lparr>sb_site = i, sb_order = n, sb_status = BrPending, sb_current = 0, sb_count = 0\<rparr>) (enumerate 0 order),
      bk_campaign := (bk_campaign bk)\<lparr>ca_status := CsPreflighted, ca_preflighted := True, ca_ack_by := [], ca_ack_version := 0\<rparr>\<rparr>)"
    and order: "distinct order"
  proof -
    have "if_then = Inr bk' \<Longrightarrow> if_then = (if a then Inl e else if b then Inl f else Inr c) \<Longrightarrow> bk' = c" for if_then a b e f c
      by (simp split: if_splits)
    from this [OF assms preflight_def [unfolded Let_def]] show thesis by (rule that) (rule plan_site_order_distinct)
  qed
  let ?b = "bk\<lparr>bk_targets := rows,
      bk_branches := map (\<lambda>(n, i). \<lparr>sb_site = i, sb_order = n, sb_status = BrPending, sb_current = 0, sb_count = 0\<rparr>) (enumerate 0 order),
      bk_campaign := (bk_campaign bk)\<lparr>ca_status := CsPreflighted, ca_preflighted := True, ca_ack_by := [], ca_ack_version := 0\<rparr>\<rparr>"
  obtain b where b: "prepares ?b b" "bk' = clear_waves b" using plan_sites_prepared [of ?b wd] bk' by blast
  have sites: "map sb_site (bk_branches ?b) = order"
    by (rule nth_equalityI) (simp_all add: nth_enumerate_eq split_beta)
  have st: "branch_status_of ?b j \<subseteq> {BrPending}" for j by (auto simp: branch_status_of_def)
  show "campaign_waves bk' = []" "bk_ledger bk' = bk_ledger bk" "ca_id (bk_campaign bk') = ca_id (bk_campaign bk)"
    "ca_status (bk_campaign bk') = CsPreflighted" "ca_concurrency (bk_campaign bk') = ca_concurrency (bk_campaign bk)"
    "campaign_terms (bk_campaign bk') = campaign_terms (bk_campaign bk)"
    using b by (simp_all add: prepares_def campaign_terms_def)
  show "distinct (map sb_site (bk_branches bk'))" using b sites order by (simp add: prepares_def)
  fix j
  have "branch_status_of bk' j = branch_status_of b j" unfolding b(2) by (simp add: branch_status_of_def)
  then show "branch_status_of bk' j \<subseteq> {BrPending, BrSkipped}" using b(1) st [of j] unfolding prepares_def by blast
qed

subsection \<open>Submission\<close>

lemma current_plan_site: "current_plan bk i = Some p \<Longrightarrow> pl_site p = i \<and> p \<in> set (bk_plans bk)"
proof -
  assume "current_plan bk i = Some p"
  then obtain rest where "rev (filter (\<lambda>q. pl_site q = i \<and> \<not> pl_superseded q) (bk_plans bk)) = p # rest"
    by (auto simp: current_plan_def split: list.splits)
  then have "p \<in> set (filter (\<lambda>q. pl_site q = i \<and> \<not> pl_superseded q) (bk_plans bk))" by (metis list.set_intros(1) set_rev)
  then show ?thesis by simp
qed

lemma built_waveD:
  assumes "w \<in> set (built_waves sha dumps bk autonomous)"
  obtains p x where "current_plan bk (wv_site w) = Some p" "x \<in> set (pl_waves p)" "w = wave_of sha dumps (bk_campaign bk) autonomous p x"
proof -
  obtain s :: site_branch where s: "w \<in> set (case current_plan bk (sb_site s) of None \<Rightarrow> []
      | Some p \<Rightarrow> map (wave_of sha dumps (bk_campaign bk) autonomous p) (filter (\<lambda>w. pw_devices w \<noteq> []) (pl_waves p)))"
  proof -
    obtain s :: site_branch where "w \<in> set (if sb_status s = BrSkipped then [] else case current_plan bk (sb_site s) of None \<Rightarrow> []
      | Some p \<Rightarrow> map (wave_of sha dumps (bk_campaign bk) autonomous p) (filter (\<lambda>w. pw_devices w \<noteq> []) (pl_waves p)))"
      using assms unfolding built_waves_def set_concat set_map image_image by (elim UN_E) (rule that)
    then show thesis using that by (simp split: if_splits)
  qed
  then obtain p where p: "current_plan bk (sb_site s) = Some p" by (cases "current_plan bk (sb_site s)") auto
  then obtain x where x: "x \<in> set (pl_waves p)" "w = wave_of sha dumps (bk_campaign bk) autonomous p x" using s by auto
  have "wv_site w = sb_site s" using current_plan_site [OF p] x(2) by (simp add: wave_of_def Let_def)
  then show thesis using that [OF _ x] p by simp
qed

lemma wave_of_simps [simp]:
  "wv_campaign (wave_of sha dumps c a p x) = ca_id c" "wv_version (wave_of sha dumps c a p x) = ca_version c" "wv_site (wave_of sha dumps c a p x) = pl_site p"
  "wv_index (wave_of sha dumps c a p x) = int (pw_index x)" "wv_plan (wave_of sha dumps c a p x) = pl_hash p" "wv_devices (wave_of sha dumps c a p x) = sort (pw_devices x)"
  "wv_status (wave_of sha dumps c a p x) = (if a then ''autonomous'' else ''pending_approval'')"
  by (simp_all add: wave_of_def Let_def)

lemma built_waves_ok:
  assumes "distinct (map wave_key (built_waves sha dumps bk a))"
  shows "waves_ok (built_waves sha dumps bk a)"
proof -
  let ?ws = "built_waves sha dumps bk a"
  have "inj_on (\<lambda>w. (wv_site w, wv_index w)) (set ?ws)"
  proof (rule inj_onI)
    fix w v assume w: "w \<in> set ?ws" and v: "v \<in> set ?ws" and e: "(wv_site w, wv_index w) = (wv_site v, wv_index v)"
    from w obtain p x where p: "current_plan bk (wv_site w) = Some p" "w = wave_of sha dumps (bk_campaign bk) a p x" by (rule built_waveD)
    from v obtain q y where q: "current_plan bk (wv_site v) = Some q" "v = wave_of sha dumps (bk_campaign bk) a q y" by (rule built_waveD)
    have "p = q" using p(1) q(1) e by simp
    moreover have "wv_index w = wv_index v" "wv_site w = wv_site v" using e by simp_all
    ultimately have "wave_key w = wave_key v" using p(2) q(2) by (simp add: wave_key_def)
    then show "w = v" using assms w v by (simp add: distinct_map inj_on_def)
  qed
  then have "distinct (map (\<lambda>w. (wv_site w, wv_index w)) ?ws)" using assms by (simp add: distinct_map)
  moreover have st: "wv_status w = ''autonomous'' \<or> wv_status w = ''pending_approval''" if "w \<in> set ?ws" for w
    using that by (rule built_waveD) simp
  ultimately show ?thesis unfolding waves_ok_def using st wave_status_simps(10-12) by fastforce
qed

lemma campaign_waves_built:
  assumes "build_waves sha dumps bk a = Inr bk'"
  shows "campaign_waves bk' = built_waves sha dumps bk a" "distinct (map wave_key (built_waves sha dumps bk a))"
    "bk_branches bk' = bk_branches bk" "bk_ledger bk' = bk_ledger bk" "bk_campaign bk' = bk_campaign bk" "bk_plans bk' = bk_plans bk"
proof -
  let ?new = "built_waves sha dumps bk a"
  have d: "distinct (map wave_key ?new)" and bk': "bk' = (clear_waves bk)\<lparr>bk_desk := (bk_desk (clear_waves bk))\<lparr>dk_waves := dk_waves (bk_desk (clear_waves bk)) @ ?new\<rparr>\<rparr>"
    using assms by (auto simp: build_waves_def Let_def split: if_splits)
  show "distinct (map wave_key ?new)" by (rule d)
  show "bk_branches bk' = bk_branches bk" "bk_ledger bk' = bk_ledger bk" "bk_campaign bk' = bk_campaign bk" "bk_plans bk' = bk_plans bk"
    by (simp_all add: bk' clear_waves_def)
  have "wv_campaign w = ca_id (bk_campaign bk)" if "w \<in> set ?new" for w using that by (rule built_waveD) simp
  then have "filter (\<lambda>w. wv_campaign w = ca_id (bk_campaign bk)) ?new = ?new" by (simp add: filter_id_conv)
  then show "campaign_waves bk' = ?new" by (simp add: campaign_waves_def bk' clear_waves_def)
qed

subsection \<open>Decisions\<close>

lemma decide_wave_pending:
  assumes "decide_wave sha dumps dk u now ref dec = Inr res"
  shows "\<exists>v. filter (\<lambda>w. wv_subject w = ref) (dk_waves dk) = [v] \<and> wv_status v = ''pending_approval''"
proof -
  obtain found where f: "one_or_none (filter (\<lambda>w. wv_subject w = ref) (dk_waves dk)) = Inr found"
    using assms unfolding decide_wave_def andthen_eq_Inr by blast
  note a = assms [unfolded decide_wave_def f andthen_Inr]
  show ?thesis
  proof (cases found)
    case None
    then show ?thesis using a by simp
  next
    case (Some w)
    obtain c where c: "find (\<lambda>c. ca_id c = wv_campaign w) (dk_campaigns dk) = Some c"
      using a Some by (cases "find (\<lambda>c. ca_id c = wv_campaign w) (dk_campaigns dk)") simp_all
    obtain x where "require (wv_status w = ''pending_approval'') (Http 409 ''already'') = Inr x"
      using a unfolding Some option.case c andthen_eq_Inr by blast
    then have "wv_status w = ''pending_approval''" by (simp add: require_def split: if_splits)
    then show ?thesis using f Some by (auto simp: one_or_none_Inr)
  qed
qed

lemma decided_waves:
  assumes "decide_subject sha dumps dk u now delivered i approve = Inr (dk', out)"
  obtains "dk_waves dk' = dk_waves dk"
  | ref st who where "dk_waves dk' = map (\<lambda>x. if wv_subject x = ref then x\<lparr>wv_status := st, wv_decided_by := who\<rparr> else x) (dk_waves dk)"
      "st = ''approved'' \<or> st = ''denied''" "\<And>x. x \<in> set (dk_waves dk) \<Longrightarrow> wv_subject x = ref \<Longrightarrow> wv_status x = ''pending_approval''"
proof -
  let ?dec = "if approve then d_approved else d_denied"
  obtain found where c: "(case found of Some r \<Rightarrow> decide_action dk u now delivered r ?dec
      | None \<Rightarrow> andthen (decide_activation dk u now i ?dec) (\<lambda>done'.
         case done' of Some res \<Rightarrow> Inr res | None \<Rightarrow> decide_wave sha dumps dk u now i ?dec)) = Inr (dk', out)"
    using assms by (auto simp: decide_subject_def route_decision_def andthen_eq_Inr)
  show thesis
  proof (cases found)
    case (Some r)
    have "decide_action dk u now delivered r ?dec = Inr (dk', out)" using c Some by simp
    then show thesis
    proof (cases rule: decide_actionD)
      case (1 records block)
      then have "dk_waves dk' = dk_waves dk" by (auto split: outcome.splits)
      then show thesis by (rule that(1))
    qed
  next
    case None
    then obtain done' where a: "decide_activation dk u now i ?dec = Inr done'"
      and w: "(case done' of Some res \<Rightarrow> Inr res | None \<Rightarrow> decide_wave sha dumps dk u now i ?dec) = Inr (dk', out)"
      using c by (auto simp: andthen_eq_Inr)
    show thesis
    proof (cases done')
      case (Some res)
      then have "decide_activation dk u now i ?dec = Inr (Some (dk', out))" using a w by simp
      then have "dk_waves dk' = dk_waves dk" by (auto simp: decide_activation_def andthen_pair split: option.splits)
      then show thesis by (rule that(1))
    next
      case None
      then have d: "decide_wave sha dumps dk u now i ?dec = Inr (dk', out)" using w by simp
      then show thesis
      proof (cases rule: decide_waveD)
        case (1 w c ts records block)
        show thesis
        proof (cases "conclude ?dec block")
          case (Pending b)
          then have "dk_waves dk' = dk_waves dk" using 1(9) by simp
          then show thesis by (rule that(1))
        next
          case (Decided dd b)
          then have m: "dk_waves dk' = map (\<lambda>x. if wv_subject x = i
              then x\<lparr>wv_status := (if dd = d_approved then ''approved'' else ''denied''), wv_decided_by := actor_name u\<rparr> else x) (dk_waves dk)"
            using 1(9) by simp
          obtain v where v: "filter (\<lambda>w. wv_subject w = i) (dk_waves dk) = [v]" "wv_status v = ''pending_approval''"
            using decide_wave_pending [OF d] by blast
          have "x = v" if "x \<in> set (dk_waves dk)" "wv_subject x = i" for x
          proof -
            have "x \<in> set (filter (\<lambda>w. wv_subject w = i) (dk_waves dk))" using that by simp
            then show ?thesis unfolding v(1) by simp
          qed
          then have "wv_status x = ''pending_approval''" if "x \<in> set (dk_waves dk)" "wv_subject x = i" for x using that v(2) by blast
          moreover have "(if dd = d_approved then ''approved'' else ''denied'') = ''approved'' \<or>
              (if dd = d_approved then ''approved'' else ''denied'') = ''denied''" by simp
          ultimately show thesis by (rule that(2) [OF m, rotated])
        qed
      qed
    qed
  qed
qed

subsection \<open>The life of a campaign\<close>

text \<open>Everything that can happen to a campaign: its endpoints, a decision about any subject, a pass of the background
  loop (one that raises on the way, too), and changes of the rest of the tables that leave the rows of the campaign alone. \<open>W\<close> says which answers of the
  rest of the system are considered.\<close>

inductive campaign_step :: "(bytes \<Rightarrow> string) \<Rightarrow> (pyval \<Rightarrow> bytes) \<Rightarrow> (world \<Rightarrow> bool) \<Rightarrow> book \<Rightarrow> book \<Rightarrow> bool"
  for sha :: "bytes \<Rightarrow> string" and dumps :: "pyval \<Rightarrow> bytes" and W :: "world \<Rightarrow> bool" where
  preflighted: "W wd \<Longrightarrow> preflight_campaign wd u bk = Inr bk' \<Longrightarrow> campaign_step sha dumps W bk bk'"
| acknowledged: "W wd \<Longrightarrow> acknowledge_campaign wd u bk exclude confirm = Inr bk' \<Longrightarrow> campaign_step sha dumps W bk bk'"
| submitted: "W wd \<Longrightarrow> submit_campaign sha dumps wd u bk disposition = Inr bk' \<Longrightarrow> campaign_step sha dumps W bk bk'"
| cancelled: "W wd \<Longrightarrow> cancel_campaign wd u bk = Inr bk' \<Longrightarrow> campaign_step sha dumps W bk bk'"
| decided: "decide_subject sha dumps (bk_desk bk) u now delivered i approve = Inr (dk', out) \<Longrightarrow>
    campaign_step sha dumps W bk (bk\<lparr>bk_desk := dk'\<rparr>)"
| pressed: "W wd \<Longrightarrow> advance_endpoint sha dumps wd u bk = Inr bk' \<Longrightarrow> campaign_step sha dumps W bk bk'"
| passed: "W wd \<Longrightarrow> run_campaign sha dumps wd bk = Inr bk' \<Longrightarrow> campaign_step sha dumps W bk bk'"
| broken_off: "W wd \<Longrightarrow> raised_pass sha dumps wd n bk = Some bk' \<Longrightarrow> campaign_step sha dumps W bk bk'"
| changed: "bk_campaign bk' = bk_campaign bk \<Longrightarrow> bk_targets bk' = bk_targets bk \<Longrightarrow> bk_branches bk' = bk_branches bk \<Longrightarrow>
    bk_plans bk' = bk_plans bk \<Longrightarrow> bk_ledger bk' = bk_ledger bk \<Longrightarrow> campaign_waves bk' = campaign_waves bk \<Longrightarrow>
    campaign_step sha dumps W bk bk'"

text \<open>A campaign as it is created.\<close>

definition draft_book :: "book \<Rightarrow> bool" where
  "draft_book bk \<longleftrightarrow> ca_status (bk_campaign bk) = CsDraft \<and> bk_branches bk = [] \<and> bk_plans bk = [] \<and> bk_ledger bk = [] \<and> campaign_waves bk = []"

definition campaign_sound :: "book \<Rightarrow> bool" where
  "campaign_sound bk \<longleftrightarrow> core_ok bk \<and> card (running_sites bk) \<le> concurrency_limit (bk_campaign bk) \<and>
     (editable (ca_status (bk_campaign bk)) \<longrightarrow> (\<forall>j. branch_status_of bk j \<subseteq> {BrPending, BrSkipped}))"

text \<open>Sites that plan by \<open>PlanCampaignWaves\<close>.\<close>

definition served :: "(bytes \<Rightarrow> string) \<Rightarrow> (pyval \<Rightarrow> bytes) \<Rightarrow> world \<Rightarrow> bool" where
  "served sha dumps wd \<longleftrightarrow> (\<forall>i q p. wd_site_plan wd i q = Some p \<longrightarrow> (\<exists>t. tables_ok t \<and> plan_campaign_waves sha dumps t q = Some p))"

text \<open>What the digest of a plan of the campaign for the site \<open>i\<close> is taken of.\<close>

definition plan_text :: "fleet_campaign \<Rightarrow> string \<Rightarrow> plan_wave list \<Rightarrow> pyval" where
  "plan_text c i ws = plan_content \<lparr>pq_campaign = ca_id c, pq_version = ca_version c, pq_site = i, pq_action = ca_action c,
     pq_devices = [], pq_size = 0\<rparr> (upper (strip_text (ca_action c))) ws"

lemma plan_text_request: "plan_content (request_for bk i) (upper (strip_text (pq_action (request_for bk i)))) ws = plan_text (bk_campaign bk) i ws"
  by (simp add: plan_text_def plan_content_def request_for_def)

lemma plan_text_terms: "campaign_terms c = campaign_terms c' \<Longrightarrow> plan_text c i ws = plan_text c' i ws"
  by (simp add: plan_text_def campaign_terms_def)

text \<open>Every stored plan has the digest of its content, and every wave is a wave of a stored plan.\<close>

definition made_plans :: "(bytes \<Rightarrow> string) \<Rightarrow> (pyval \<Rightarrow> bytes) \<Rightarrow> book \<Rightarrow> bool" where
  "made_plans sha dumps bk \<longleftrightarrow> (\<forall>r \<in> set (bk_plans bk).
     pl_hash r = sha (dumps (canonical (plan_text (bk_campaign bk) (pl_site r) (pl_waves r)))))"

definition made_waves :: "book \<Rightarrow> bool" where
  "made_waves bk \<longleftrightarrow> (\<forall>w \<in> set (campaign_waves bk). \<exists>r \<in> set (bk_plans bk). \<exists>x \<in> set (pl_waves r).
     pl_site r = wv_site w \<and> pl_hash r = wv_plan w \<and> int (pw_index x) = wv_index w \<and> set (pw_devices x) = set (wv_devices w))"

definition campaign_made :: "(bytes \<Rightarrow> string) \<Rightarrow> (pyval \<Rightarrow> bytes) \<Rightarrow> book \<Rightarrow> bool" where
  "campaign_made sha dumps bk \<longleftrightarrow> made_plans sha dumps bk \<and> made_waves bk"

lemma draft_ok: "draft_book bk \<Longrightarrow> campaign_sound bk"
  by (simp add: draft_book_def campaign_sound_def core_ok_def waves_ok_def ledger_keys_def running_sites_def branch_status_of_def)

lemma draft_made: "draft_book bk \<Longrightarrow> campaign_made sha dumps bk"
  by (simp add: draft_book_def campaign_made_def made_waves_def made_plans_def)

text \<open>What each operation comes down to.\<close>

lemma preflight_campaignD:
  assumes "preflight_campaign wd u bk = Inr bk'"
  obtains r where "editable (ca_status (bk_campaign bk))" "preflight wd bk (bk_rules bk) (rule_reach bk) r = Inr bk'"
proof -
  obtain s where e: "editable (ca_status (bk_campaign bk))"
    and c: "(case read_reach_of s [''site.manage''] of Inl _ \<Rightarrow> Inl ScopeMisused
     | Inr r \<Rightarrow> preflight wd bk (bk_rules bk) (rule_reach bk) r) = Inr bk'"
    using assms by (auto simp: preflight_campaign_def andthen_eq_Inr require_def split: if_splits)
  from c obtain r where "preflight wd bk (bk_rules bk) (rule_reach bk) r = Inr bk'"
    by (cases "read_reach_of s [''site.manage'']") auto
  with e show thesis by (rule that)
qed

lemma acknowledge_campaignD:
  "acknowledge_campaign wd u bk exclude confirm = Inr bk' \<Longrightarrow> editable (ca_status (bk_campaign bk)) \<and> bk' = acknowledge bk exclude (actor_name u)"
  by (auto simp: acknowledge_campaign_def andthen_eq_Inr require_def split: if_splits)

lemma submit_campaignD:
  assumes "submit_campaign sha dumps wd u bk d = Inr bk'"
  obtains b st where "editable (ca_status (bk_campaign bk))" "build_waves sha dumps bk (d = ''autonomous'') = Inr b"
    "bk' = b\<lparr>bk_campaign := (bk_campaign b)\<lparr>ca_status := st\<rparr>\<rparr>" "\<not> editable st"
proof -
  obtain b where s: "can_seek_approval (bk_campaign bk) (bk_targets bk)" and b: "build_waves sha dumps bk (d = ''autonomous'') = Inr b"
    and e: "bk' = b\<lparr>bk_campaign := (bk_campaign b)\<lparr>ca_status := (if d = ''autonomous'' then CsRunning else CsAwaiting)\<rparr>\<rparr>"
    using assms by (auto simp: submit_campaign_def andthen_eq_Inr require_def Let_def split: if_splits)
  have "editable (ca_status (bk_campaign bk))" using s by (auto simp: can_seek_approval_def editable_def)
  then show thesis by (rule that [OF _ b e]) (simp add: editable_def)
qed

lemma cancel_campaignD:
  "cancel_campaign wd u bk = Inr bk' \<Longrightarrow> bk' = bk\<lparr>bk_campaign := (bk_campaign bk)\<lparr>ca_status := CsCancelled\<rparr>\<rparr>"
  by (auto simp: cancel_campaign_def andthen_eq_Inr require_def split: if_splits)

lemma advance_endpointD:
  assumes "advance_endpoint sha dumps wd u bk = Inr bk'"
  shows "advance_campaign sha dumps wd (bk\<lparr>bk_campaign := (bk_campaign bk)\<lparr>ca_status := CsRunning\<rparr>\<rparr>) = Inr bk'"
    "\<not> editable (ca_status (bk_campaign bk))"
  using assms by (auto simp: advance_endpoint_def andthen_eq_Inr require_def editable_def split: if_splits sum.splits)

subsection \<open>What every step keeps\<close>

definition rows_at :: "book \<Rightarrow> string \<Rightarrow> dispatch_row list" where
  "rows_at bk j = filter (\<lambda>d. dr_site d = j) (bk_ledger bk)"

text \<open>The invariant stays, and a halted site stays halted and gets no further row of the ledger.\<close>

definition safe_step :: "book \<Rightarrow> book \<Rightarrow> bool" where
  "safe_step bk bk' \<longleftrightarrow> campaign_sound bk' \<and>
     (\<forall>j. BrHalted \<in> branch_status_of bk j \<longrightarrow> BrHalted \<in> branch_status_of bk' j \<and> rows_at bk' j = rows_at bk j)"

lemma not_halted: "campaign_sound bk \<Longrightarrow> editable (ca_status (bk_campaign bk)) \<Longrightarrow> BrHalted \<notin> branch_status_of bk j"
  unfolding campaign_sound_def by blast

lemma pending_or_skipped_runs_none:
  "(\<And>j. branch_status_of bk j \<subseteq> {BrPending, BrSkipped}) \<Longrightarrow> running_sites bk = {}"
  unfolding running_status by blast

lemma safe_editing:
  assumes "campaign_sound bk" "editable (ca_status (bk_campaign bk))" "core_ok bk'" "\<And>j. branch_status_of bk' j \<subseteq> {BrPending, BrSkipped}"
  shows "safe_step bk bk'"
  using assms(3,4) not_halted [OF assms(1,2)] pending_or_skipped_runs_none [of bk'] by (simp add: safe_step_def campaign_sound_def)

lemma core_calm:
  assumes "distinct (map sb_site (bk_branches bk))" "waves_ok (campaign_waves bk)" "distinct (ledger_keys bk)"
    "\<And>j. branch_status_of bk j \<subseteq> {BrPending, BrSkipped}"
  shows "core_ok bk"
proof -
  have "sb_status s \<noteq> BrHalted" if "s \<in> set (bk_branches bk)" for s
    using assms(4) [of "sb_site s"] that unfolding branch_status_of_def by auto
  then show ?thesis using assms(1-3) by (auto simp: core_ok_def)
qed

lemma safe_preflight:
  assumes ok: "campaign_sound bk" and a: "preflight_campaign wd u bk = Inr bk'"
  shows "safe_step bk bk'"
proof -
  obtain r where e: "editable (ca_status (bk_campaign bk))" and p: "preflight wd bk (bk_rules bk) (rule_reach bk) r = Inr bk'"
    using a by (rule preflight_campaignD)
  note f = preflight_facts [OF p]
  have "distinct (ledger_keys bk')" using ok f(2) by (simp add: campaign_sound_def core_ok_def ledger_keys_def)
  then have "core_ok bk'" using f(1,3,4) by (intro core_calm) (simp_all add: waves_ok_def)
  then show ?thesis using ok e f(4) by (intro safe_editing)
qed

lemma acknowledge_simps [simp]:
  "campaign_waves (acknowledge bk ex who) = campaign_waves bk" "bk_ledger (acknowledge bk ex who) = bk_ledger bk"
  "map sb_site (bk_branches (acknowledge bk ex who)) = map sb_site (bk_branches bk)" "bk_plans (acknowledge bk ex who) = bk_plans bk"
  by (simp_all add: acknowledge_def Let_def campaign_waves_def comp_def if_distrib [of sb_site])

lemma acknowledge_status: "branch_status_of (acknowledge bk ex who) j \<subseteq> branch_status_of bk j \<union> {BrSkipped}"
  by (auto simp: acknowledge_def Let_def branch_status_of_def)

lemma safe_acknowledge:
  assumes ok: "campaign_sound bk" and a: "acknowledge_campaign wd u bk ex confirm = Inr bk'"
  shows "safe_step bk bk'"
proof -
  have e: "editable (ca_status (bk_campaign bk))" and bk': "bk' = acknowledge bk ex (actor_name u)"
    using acknowledge_campaignD [OF a] by simp_all
  have st: "branch_status_of bk' j \<subseteq> {BrPending, BrSkipped}" for j
    using ok e acknowledge_status [of bk ex "actor_name u" j] unfolding bk' campaign_sound_def by blast
  have "core_ok bk'" using ok st unfolding bk' by (intro core_calm) (simp_all add: campaign_sound_def core_ok_def ledger_keys_def)
  then show ?thesis using ok e st by (intro safe_editing)
qed

lemma safe_submit:
  assumes ok: "campaign_sound bk" and a: "submit_campaign sha dumps wd u bk d = Inr bk'"
  shows "safe_step bk bk'"
proof -
  obtain b st where e: "editable (ca_status (bk_campaign bk))" and b: "build_waves sha dumps bk (d = ''autonomous'') = Inr b"
    and bk': "bk' = b\<lparr>bk_campaign := (bk_campaign b)\<lparr>ca_status := st\<rparr>\<rparr>"
    using a by (rule submit_campaignD)
  note f = campaign_waves_built [OF b]
  have w: "campaign_waves bk' = campaign_waves b" by (simp add: bk' campaign_waves_def)
  have br: "bk_branches bk' = bk_branches bk" "bk_ledger bk' = bk_ledger bk" using f by (simp_all add: bk')
  have calm: "branch_status_of bk' j \<subseteq> {BrPending, BrSkipped}" for j
    using ok e unfolding campaign_sound_def branch_status_of_def br by blast
  have "core_ok bk'"
    by (rule core_calm [OF _ _ _ calm]) (use ok built_waves_ok [OF f(2)] in \<open>simp_all add: br w f(1) campaign_sound_def core_ok_def ledger_keys_def\<close>)
  then show ?thesis using ok e calm by (intro safe_editing)
qed

lemma safe_cancel:
  assumes ok: "campaign_sound bk" and a: "cancel_campaign wd u bk = Inr bk'"
  shows "safe_step bk bk'"
proof -
  have bk': "bk' = bk\<lparr>bk_campaign := (bk_campaign bk)\<lparr>ca_status := CsCancelled\<rparr>\<rparr>" by (rule cancel_campaignD [OF a])
  have "core_ok bk'" "running_sites bk' = running_sites bk" "branch_status_of bk' = branch_status_of bk"
    using ok unfolding bk' by (simp_all add: campaign_sound_def core_campaign running_sites_def branch_status_of_def fun_eq_iff)
  then show ?thesis using ok by (simp add: safe_step_def campaign_sound_def bk' editable_def concurrency_limit_def rows_at_def)
qed

lemma safe_rows:
  assumes core: "core_ok bk" and h: "BrHalted \<in> branch_status_of bk j"
    and r: "bk_ledger bk' = bk_ledger bk @ rows" "\<forall>d \<in> set rows. dr_site d \<in> set (active_sites (settle_dispatched_waves wd bk))"
  shows "rows_at bk' j = rows_at bk j"
proof -
  let ?b = "settle_dispatched_waves wd bk"
  note s = settle_dispatched_core [OF core, where wd = wd]
  have "distinct (map sb_site (bk_branches ?b))" using s(1) by (simp add: core_ok_def)
  then have "j \<notin> set (active_sites ?b)" using active_facts(4) [of ?b j] h s(6) [OF h] by metis
  then have "filter (\<lambda>d. dr_site d = j) rows = []" using r(2) by (auto simp: filter_empty_conv)
  then show ?thesis by (simp add: rows_at_def r(1))
qed

lemma safe_pass:
  assumes core: "core_ok bk" and lim: "card (running_sites bk) \<le> concurrency_limit (bk_campaign bk)"
    and st: "\<not> editable (ca_status (bk_campaign bk))" and a: "advance_campaign sha dumps wd bk = Inr bk'"
  shows "safe_step bk bk'"
proof -
  note f = advance_campaign_facts [OF core lim a]
  have "\<not> editable (ca_status (bk_campaign bk'))" using f(5) st by (auto simp: editable_def)
  moreover have "rows_at bk' j = rows_at bk j" if "BrHalted \<in> branch_status_of bk j" for j
    using f(8) safe_rows [OF core that] by blast
  moreover have "concurrency_limit (bk_campaign bk') = concurrency_limit (bk_campaign bk)"
    using f(4) by (simp add: concurrency_limit_def)
  ultimately show ?thesis using f(1,2,6) by (simp add: safe_step_def campaign_sound_def)
qed

lemma safe_raise:
  assumes ok: "campaign_sound bk" and a: "raised_pass sha dumps wd n bk = Some bk'"
  shows "safe_step bk bk'"
proof -
  have core: "core_ok bk" "card (running_sites bk) \<le> concurrency_limit (bk_campaign bk)" using ok by (simp_all add: campaign_sound_def)
  note r = raised_passD [OF a]
  note f = advance_first_facts [OF core r(1)]
  have "\<not> editable (ca_status (bk_campaign bk'))" using f(3) r(2) by (auto simp: editable_def)
  moreover have "rows_at bk' j = rows_at bk j" if "BrHalted \<in> branch_status_of bk j" for j
    using f(6) safe_rows [OF core(1) that] by blast
  ultimately show ?thesis using f(1-4) by (simp add: safe_step_def campaign_sound_def)
qed

lemma safe_same:
  assumes ok: "campaign_sound bk" and s: "bk_campaign bk' = bk_campaign bk" "bk_branches bk' = bk_branches bk" "bk_ledger bk' = bk_ledger bk"
    and c: "core_ok bk'"
  shows "safe_step bk bk'"
proof -
  have "running_sites bk' = running_sites bk" "branch_status_of bk' = branch_status_of bk"
    unfolding running_sites_def branch_status_of_def s by simp_all
  then show ?thesis using ok c s by (simp add: safe_step_def campaign_sound_def rows_at_def)
qed

definition decided_from :: "campaign_wave \<Rightarrow> campaign_wave \<Rightarrow> bool" where
  "decided_from w v \<longleftrightarrow> v = w \<or> wv_status w = ''pending_approval'' \<and>
     (\<exists>st who. (st = ''approved'' \<or> st = ''denied'') \<and> v = w\<lparr>wv_status := st, wv_decided_by := who\<rparr>)"

lemma decided_campaign_waves:
  assumes "decide_subject sha dumps (bk_desk bk) u now delivered i approve = Inr (dk', out)"
  obtains g where "campaign_waves (bk\<lparr>bk_desk := dk'\<rparr>) = map g (campaign_waves bk)"
    "\<forall>w \<in> set (campaign_waves bk). decided_from w (g w)"
  using assms
proof (cases rule: decided_waves)
  case 1
  then have "campaign_waves (bk\<lparr>bk_desk := dk'\<rparr>) = map id (campaign_waves bk)" by (simp add: campaign_waves_def)
  then show thesis by (rule that) (simp add: decided_from_def)
next
  case (2 ref st who)
  let ?g = "\<lambda>x. if wv_subject x = ref then x\<lparr>wv_status := st, wv_decided_by := who\<rparr> else x"
  have "filter (\<lambda>w. wv_campaign w = c) (map ?g ws) = map ?g (filter (\<lambda>w. wv_campaign w = c) ws)" for c ws
    by (induction ws) auto
  then have m: "campaign_waves (bk\<lparr>bk_desk := dk'\<rparr>) = map ?g (campaign_waves bk)" using 2(1) by (simp add: campaign_waves_def)
  show thesis
  proof (rule that [OF m], rule ballI)
    fix w assume "w \<in> set (campaign_waves bk)"
    then have "w \<in> set (dk_waves (bk_desk bk))" by (simp add: campaign_waves_def)
    then show "decided_from w (?g w)" using 2(2,3) by (auto simp: decided_from_def)
  qed
qed

lemma safe_decision:
  assumes ok: "campaign_sound bk" and a: "decide_subject sha dumps (bk_desk bk) u now delivered i approve = Inr (dk', out)"
  shows "safe_step bk (bk\<lparr>bk_desk := dk'\<rparr>)"
proof -
  let ?b = "bk\<lparr>bk_desk := dk'\<rparr>"
  have core: "core_ok bk" using ok by (simp add: campaign_sound_def)
  obtain g where m: "campaign_waves ?b = map g (campaign_waves bk)"
    and g: "\<forall>w \<in> set (campaign_waves bk). decided_from w (g w)"
    using a by (rule decided_campaign_waves)
  have w: "waves_ok (campaign_waves ?b)" unfolding m
  proof (rule waves_ok_map)
    show "waves_ok (campaign_waves bk)" using core by (simp add: core_ok_def)
    fix w assume h: "w \<in> set (campaign_waves bk)"
    then have "wave_known (wv_status w)" using core by (simp add: core_ok_def waves_ok_def)
    then show "wave_key (g w) = wave_key w \<and> wave_known (wv_status (g w)) \<and>
      (wv_status (g w) = ''dispatched'' \<longrightarrow> wv_status w = ''dispatched'') \<and> (wave_finished (wv_status w) \<longrightarrow> wave_finished (wv_status (g w)))"
      using bspec [OF g h] by (auto simp: wave_key_def decided_from_def)
  qed
  have q: "quiet ?b j" if "BrHalted \<in> branch_status_of ?b j" for j
  proof -
    have "branch_status_of ?b j = branch_status_of bk j" by (simp add: branch_status_of_def)
    then have "quiet bk j" using core_halted [OF core] that by simp
    moreover have "wv_site (g w) = wv_site w \<and> (wave_finished (wv_status w) \<longrightarrow> wave_finished (wv_status (g w)))" if "w \<in> set (campaign_waves bk)" for w
      using bspec [OF g that] by (auto simp: decided_from_def)
    ultimately show ?thesis unfolding quiet_def m by auto
  qed
  have "core_ok ?b" by (rule core_okI [OF core _ w _ q]) (use core in \<open>simp_all add: core_ok_def ledger_keys_def\<close>)
  then show ?thesis by (intro safe_same [OF ok]) simp_all
qed

lemma step_safe:
  assumes "campaign_step sha dumps W bk bk'" "campaign_sound bk"
  shows "safe_step bk bk'"
  using assms
proof (induction rule: campaign_step.induct)
  case (preflighted wd u bk bk')
  then show ?case by (intro safe_preflight)
next
  case (acknowledged wd u bk exclude confirm bk')
  then show ?case by (intro safe_acknowledge)
next
  case (submitted wd u bk disposition bk')
  then show ?case by (intro safe_submit)
next
  case (cancelled wd u bk bk')
  then show ?case by (intro safe_cancel)
next
  case (decided bk u now delivered i approve dk' out)
  then show ?case by (intro safe_decision)
next
  case (pressed wd u bk bk')
  let ?b = "bk\<lparr>bk_campaign := (bk_campaign bk)\<lparr>ca_status := CsRunning\<rparr>\<rparr>"
  have c: "core_ok ?b" "running_sites ?b = running_sites bk" "branch_status_of ?b = branch_status_of bk" "rows_at ?b = rows_at bk"
    using pressed.prems by (simp_all add: campaign_sound_def core_campaign running_sites_def branch_status_of_def fun_eq_iff rows_at_def)
  have "safe_step ?b bk'"
    using pressed.prems c(1,2) advance_endpointD(1) [OF pressed.hyps(2)]
    by (intro safe_pass) (simp_all add: campaign_sound_def concurrency_limit_def editable_def)
  then show ?case unfolding safe_step_def c(3,4) .
next
  case (passed wd bk bk')
  show ?case
  proof (cases "ca_status (bk_campaign bk) \<in> {CsRunning, CsAwaiting}")
    case True
    then have "advance_campaign sha dumps wd bk = Inr bk'" "\<not> editable (ca_status (bk_campaign bk))"
      using passed.hyps by (auto simp: run_campaign_def editable_def)
    then show ?thesis using passed.prems by (intro safe_pass) (simp_all add: campaign_sound_def)
  next
    case False
    then have "bk' = bk" using passed.hyps by (simp add: run_campaign_def)
    then show ?thesis using passed.prems by (simp add: safe_step_def)
  qed
next
  case (broken_off wd n bk bk')
  then show ?case by (intro safe_raise)
next
  case (changed bk' bk)
  have "core_ok bk" using changed.prems by (simp only: campaign_sound_def)
  then have "core_ok bk'" unfolding core_same(1) [OF changed.hyps(3,5,6)] .
  then show ?case by (rule safe_same [OF changed.prems changed.hyps(1,3,5)])
qed

lemma steps_safe:
  assumes "(campaign_step sha dumps W)\<^sup>*\<^sup>* bk bk'" "campaign_sound bk"
  shows "safe_step bk bk'"
  using assms
proof (induction rule: rtranclp_induct)
  case base
  then show ?case by (simp add: safe_step_def)
next
  case (step b c)
  then have "safe_step bk b" by simp
  moreover from this have "safe_step b c" using step_safe [OF step.hyps(2)] by (simp add: safe_step_def)
  ultimately show ?case by (simp add: safe_step_def)
qed

subsection \<open>Where the devices of a wave come from\<close>

lemma store_plan_mem: "q \<in> set (store_plan v i p ps) \<Longrightarrow> q \<in> set ps \<or> pl_site q = i \<and> pl_hash q = sp_hash p \<and> pl_waves q = sp_waves p"
  by (auto simp: store_plan_def split: if_splits)

lemma made_plans_stored:
  assumes "\<And>q. q \<in> set ps \<Longrightarrow> P (pl_site q) (pl_hash q) (pl_waves q)" "P j (sp_hash p) (sp_waves p)"
    and "q \<in> set (supersede_plans i h (store_plan v j p ps))"
  shows "P (pl_site q) (pl_hash q) (pl_waves q)"
proof -
  obtain r where r: "r \<in> set (store_plan v j p ps)" "pl_site q = pl_site r" "pl_hash q = pl_hash r" "pl_waves q = pl_waves r"
    using assms(3) by (auto simp: supersede_plans_def)
  then show ?thesis using store_plan_mem [OF r(1)] assms(1,2) by auto
qed

lemma plans_of_fold: "bk_plans (fold (\<lambda>a. at_target a h) as bk) = bk_plans bk"
  using fold_at_target [of "\<lambda>_. h" as bk] by auto

lemma plans_at_branch [simp]: "bk_plans (at_branch i f bk) = bk_plans bk"
  by (simp add: at_branch_def)

lemma plan_site_made:
  assumes wd: "served sha dumps wd" and bk: "made_plans sha dumps bk"
  shows "made_plans sha dumps (plan_site wd bk i) \<and> bk_campaign (plan_site wd bk i) = bk_campaign bk"
proof -
  have c: "bk_campaign (plan_site wd bk i) = bk_campaign bk" using plan_site_prepares [of bk wd i] by (simp add: prepares_def)
  show ?thesis
  proof (cases "\<not> site_registered bk i \<or> dispatchable_at bk i = []")
    case True
    then show ?thesis using bk c by (simp add: plan_site_def made_plans_def)
  next
    case ready: False
    show ?thesis
    proof (cases "wd_site_plan wd i (request_for bk i)")
      case None
      then show ?thesis using ready bk c by (simp add: plan_site_def made_plans_def)
    next
      case (Some p)
      show ?thesis
      proof (cases "\<not> sp_planned p \<or> \<not> plan_devices p \<subseteq> set (dispatchable_at bk i)")
        case True
        then have "bk_plans (plan_site wd bk i) = bk_plans bk" using ready Some by (auto simp: plan_site_def Let_def)
        then show ?thesis using bk c by (simp add: made_plans_def)
      next
        case False
        obtain t where "plan_campaign_waves sha dumps t (request_for bk i) = Some p" using wd Some unfolding served_def by blast
        then have new: "sp_hash p = sha (dumps (canonical (plan_text (bk_campaign bk) i (sp_waves p))))"
          using planned_hash False unfolding plan_text_request [symmetric] by blast
        have ps: "bk_plans (plan_site wd bk i) =
            supersede_plans i (sp_hash p) (store_plan (ca_version (bk_campaign bk)) i p (bk_plans bk))"
          using ready Some False by (simp add: plan_site_def Let_def plans_of_fold)
        show ?thesis
          using made_plans_stored [of "bk_plans bk" "\<lambda>k h ws. h = sha (dumps (canonical (plan_text (bk_campaign bk) k ws)))", OF _ new] bk c
          unfolding made_plans_def ps by metis
      qed
    qed
  qed
qed

lemma preflight_made:
  assumes wd: "served sha dumps wd" and bk: "made_plans sha dumps bk" and p: "preflight wd bk rules sites reach = Inr bk'"
  shows "made_plans sha dumps bk'"
proof -
  have all: "made_plans sha dumps (fold (\<lambda>i b. plan_site wd b i) is b)" if "made_plans sha dumps b" for b "is"
    using that by (induction "is" arbitrary: b) (simp_all add: plan_site_made [OF wd])
  have sites: "made_plans sha dumps (plan_sites wd b)" if "made_plans sha dumps b" for b
    using all [OF that] by (simp add: made_plans_def plan_sites_def clear_waves_def)
  obtain c where c: "bk' = plan_sites wd c" "bk_plans c = bk_plans bk" "campaign_terms (bk_campaign c) = campaign_terms (bk_campaign bk)"
    using p by (auto simp: preflight_def Let_def campaign_terms_def split: if_splits)
  have "made_plans sha dumps c" using bk c(2) plan_text_terms [OF c(3)] by (simp add: made_plans_def)
  then show ?thesis unfolding c(1) by (rule sites)
qed

lemma built_made:
  assumes "campaign_waves bk' = built_waves sha dumps bk a" "bk_plans bk' = bk_plans bk"
  shows "made_waves bk'"
  unfolding made_waves_def assms
proof
  fix w assume "w \<in> set (built_waves sha dumps bk a)"
  then obtain p x where p: "current_plan bk (wv_site w) = Some p" and x: "x \<in> set (pl_waves p)" and w: "w = wave_of sha dumps (bk_campaign bk) a p x"
    by (rule built_waveD)
  have "pl_site p = wv_site w" "pl_hash p = wv_plan w" "int (pw_index x) = wv_index w" "set (pw_devices x) = set (wv_devices w)"
    unfolding w by simp_all
  then show "\<exists>r \<in> set (bk_plans bk). \<exists>x \<in> set (pl_waves r).
     pl_site r = wv_site w \<and> pl_hash r = wv_plan w \<and> int (pw_index x) = wv_index w \<and> set (pw_devices x) = set (wv_devices w)"
    using current_plan_site [OF p] x by blast
qed

text \<open>Passes and decisions change only what a wave has come to.\<close>

lemma campaign_made_facts:
  assumes "wave_facts bk' = wave_facts bk" "plan_facts bk' = plan_facts bk"
    "campaign_terms (bk_campaign bk') = campaign_terms (bk_campaign bk)"
  shows "campaign_made sha dumps bk' = campaign_made sha dumps bk"
proof -
  let ?P = "\<lambda>ps ((c, v, i, n, h), ds, s). c = ca_id (bk_campaign bk) \<longrightarrow>
      (\<exists>(i', h', ws) \<in> set ps. \<exists>x \<in> set ws. i' = i \<and> h' = h \<and> int (pw_index x) = n \<and> set (pw_devices x) = set ds)"
  have w: "made_waves b \<longleftrightarrow> (\<forall>w \<in> set (wave_facts b). ?P (plan_facts b) w)" if "ca_id (bk_campaign b) = ca_id (bk_campaign bk)" for b
    unfolding wave_facts_def plan_facts_def set_map ball_simps bex_simps using that by (auto simp: made_waves_def campaign_waves_def wave_key_def)
  have p: "made_plans sha dumps b \<longleftrightarrow> (\<forall>(i, h, ws) \<in> set (plan_facts b). h = sha (dumps (canonical (plan_text (bk_campaign b) i ws))))" for b
    by (auto simp: made_plans_def plan_facts_def)
  have "made_waves bk' = made_waves bk" using w [of bk] w [of bk'] assms by (simp add: campaign_terms_def)
  moreover have "made_plans sha dumps bk' = made_plans sha dumps bk"
    unfolding p assms(2) plan_text_terms [OF assms(3)] ..
  ultimately show ?thesis by (simp add: campaign_made_def)
qed

lemma campaign_made_same:
  assumes "campaign_waves bk' = campaign_waves bk" "bk_plans bk' = bk_plans bk" "campaign_terms (bk_campaign bk') = campaign_terms (bk_campaign bk)"
  shows "campaign_made sha dumps bk' = campaign_made sha dumps bk"
  unfolding campaign_made_def made_plans_def made_waves_def assms(1,2) plan_text_terms [OF assms(3)] ..

lemma step_made:
  assumes "campaign_step sha dumps W bk bk'" "W \<le> served sha dumps" "campaign_sound bk" "campaign_made sha dumps bk"
  shows "campaign_made sha dumps bk'"
  using assms
proof (induction rule: campaign_step.induct)
  case (preflighted wd u bk bk')
  have wd: "served sha dumps wd" using preflighted by blast
  obtain r where e: "editable (ca_status (bk_campaign bk))" and p: "preflight wd bk (bk_rules bk) (rule_reach bk) r = Inr bk'"
    using preflighted.hyps(2) by (rule preflight_campaignD)
  have "made_plans sha dumps bk'" using preflight_made [OF wd _ p] preflighted.prems by (simp add: campaign_made_def)
  then show ?case using preflight_facts(1) [OF p] by (simp add: campaign_made_def made_waves_def)
next
  case (acknowledged wd u bk exclude confirm bk')
  have bk': "bk' = acknowledge bk exclude (actor_name u)" using acknowledge_campaignD [OF acknowledged.hyps(2)] by simp
  have "campaign_terms (bk_campaign bk') = campaign_terms (bk_campaign bk)" by (simp add: bk' acknowledge_def Let_def campaign_terms_def)
  then show ?case using campaign_made_same [of bk' bk] acknowledged.prems by (simp add: bk')
next
  case (submitted wd u bk d bk')
  obtain b st where b: "build_waves sha dumps bk (d = ''autonomous'') = Inr b"
    and bk': "bk' = b\<lparr>bk_campaign := (bk_campaign b)\<lparr>ca_status := st\<rparr>\<rparr>"
    using submitted.hyps(2) by (rule submit_campaignD)
  note f = campaign_waves_built [OF b]
  have "campaign_waves bk' = built_waves sha dumps bk (d = ''autonomous'')"
    using f(1) by (simp add: bk' campaign_waves_def)
  then have "made_waves bk'" by (rule built_made) (simp add: bk' f(6))
  moreover have t: "campaign_terms (bk_campaign bk') = campaign_terms (bk_campaign bk)" by (simp add: bk' f(5))
  have "made_plans sha dumps bk'"
    using submitted.prems unfolding campaign_made_def made_plans_def plan_text_terms [OF t] by (simp add: bk' f(6))
  ultimately show ?case by (simp add: campaign_made_def)
next
  case (cancelled wd u bk bk')
  have "bk' = bk\<lparr>bk_campaign := (bk_campaign bk)\<lparr>ca_status := CsCancelled\<rparr>\<rparr>" using cancelled.hyps(2) by (rule cancel_campaignD)
  then show ?case using campaign_made_same [of bk' bk] cancelled.prems by (simp add: campaign_waves_def)
next
  case (decided bk u now delivered i approve dk' out)
  obtain g where m: "campaign_waves (bk\<lparr>bk_desk := dk'\<rparr>) = map g (campaign_waves bk)" and g: "\<forall>w \<in> set (campaign_waves bk). decided_from w (g w)"
    using decided.hyps by (rule decided_campaign_waves)
  have "wv_site (g w) = wv_site w \<and> wv_plan (g w) = wv_plan w \<and> wv_index (g w) = wv_index w \<and> wv_devices (g w) = wv_devices w"
    if "w \<in> set (campaign_waves bk)" for w using g that by (auto simp: decided_from_def)
  then have "made_waves (bk\<lparr>bk_desk := dk'\<rparr>)" using decided.prems by (simp add: campaign_made_def made_waves_def m)
  then show ?case using decided.prems by (simp add: campaign_made_def made_plans_def)
next
  case (pressed wd u bk bk')
  let ?b = "bk\<lparr>bk_campaign := (bk_campaign bk)\<lparr>ca_status := CsRunning\<rparr>\<rparr>"
  note a = advance_endpointD [OF pressed.hyps(2)]
  have "core_ok ?b" "card (running_sites ?b) \<le> concurrency_limit (bk_campaign ?b)"
    using pressed.prems by (simp_all add: campaign_sound_def core_campaign running_sites_def concurrency_limit_def)
  note f = advance_campaign_facts [OF this a(1)]
  have "campaign_made sha dumps ?b" using campaign_made_same [of ?b bk] pressed.prems by (simp add: campaign_waves_def)
  then show ?case unfolding campaign_made_facts [OF f(7,9,10)] .
next
  case (passed wd bk bk')
  show ?case
  proof (cases "ca_status (bk_campaign bk) \<in> {CsRunning, CsAwaiting}")
    case True
    then have a: "advance_campaign sha dumps wd bk = Inr bk'" using passed.hyps by (simp add: run_campaign_def)
    have "core_ok bk" "card (running_sites bk) \<le> concurrency_limit (bk_campaign bk)" using passed.prems by (simp_all add: campaign_sound_def)
    note f = advance_campaign_facts [OF this a]
    show ?thesis unfolding campaign_made_facts [OF f(7,9,10)] using passed.prems by simp
  next
    case False
    then show ?thesis using passed.hyps passed.prems by (simp add: run_campaign_def)
  qed
next
  case (broken_off wd n bk bk')
  have core: "core_ok bk" "card (running_sites bk) \<le> concurrency_limit (bk_campaign bk)" using broken_off.prems by (simp_all add: campaign_sound_def)
  note f = advance_first_facts [OF core raised_passD(1) [OF broken_off.hyps(2)]]
  have "campaign_terms (bk_campaign bk') = campaign_terms (bk_campaign bk)" using f(3) by simp
  then show ?case unfolding campaign_made_facts [OF f(5,7) \<open>campaign_terms _ = _\<close>] using broken_off.prems by simp
next
  case (changed bk' bk)
  have "campaign_terms (bk_campaign bk') = campaign_terms (bk_campaign bk)" using changed.hyps(1) by simp
  then show ?case using campaign_made_same [OF changed.hyps(6,4)] changed.prems by simp
qed

lemma steps_made:
  assumes "(campaign_step sha dumps W)\<^sup>*\<^sup>* bk bk'" "W \<le> served sha dumps" "campaign_sound bk" "campaign_made sha dumps bk"
  shows "campaign_sound bk' \<and> campaign_made sha dumps bk'"
  using assms
proof (induction rule: rtranclp_induct)
  case (step b c)
  then have "campaign_sound b" "campaign_made sha dumps b" by simp_all
  then show ?case using step_safe [OF step.hyps(2)] step_made [OF step.hyps(2) step.prems(1)] by (simp add: safe_step_def)
qed simp

text \<open>A wave whose plan the site still makes holds only devices that may be dispatched to now, unless the plan it was taken from
  and the plan of now differ under one digest.\<close>

lemma current_wave_dispatchable:
  assumes r: "x \<in> set ws" "set (pw_devices x) = ds" "h = sha (dumps (canonical (plan_text (bk_campaign bk) i ws)))"
    and t: "tables_ok t" "plan_campaign_waves sha dumps t (request_for bk i) = Some p" "sp_planned p" "sp_hash p = h"
    and nc: "\<not> digests_clash sha dumps (plan_text (bk_campaign bk) i ws) (plan_text (bk_campaign bk) i (sp_waves p))"
  shows "ds \<subseteq> set (dispatchable_at bk i)"
proof -
  have "sp_hash p = sha (dumps (canonical (plan_text (bk_campaign bk) i (sp_waves p))))"
    using planned_hash [OF t(2,3)] unfolding plan_text_request .
  then have "canonical (plan_text (bk_campaign bk) i ws) = canonical (plan_text (bk_campaign bk) i (sp_waves p))"
    using nc r(3) t(4) by (simp add: digests_clash_def)
  then have "map (\<lambda>w. (pw_index w, pw_devices w)) ws = map (\<lambda>w. (pw_index w, pw_devices w)) (sp_waves p)"
    unfolding plan_text_def by (rule plan_content_inj(4))
  then have "(pw_index x, pw_devices x) \<in> (\<lambda>w. (pw_index w, pw_devices w)) ` set (sp_waves p)"
    using r(1) by (metis (no_types, lifting) image_eqI set_map)
  then obtain y where "y \<in> set (sp_waves p)" "pw_devices y = pw_devices x" by auto
  then have "ds \<subseteq> set (pq_devices (request_for bk i))" using planned_devices_requested [OF t(1,2)] r(2) by metis
  then show ?thesis by (simp add: request_for_def)
qed

subsection \<open>Properties\<close>

text \<open>A campaign at the start of a pass; the endpoint sets the status before the pass.\<close>

definition with_status :: "run_status \<Rightarrow> book \<Rightarrow> book" where
  "with_status st bk = bk\<lparr>bk_campaign := (bk_campaign bk)\<lparr>ca_status := st\<rparr>\<rparr>"

lemma with_status_core:
  assumes "campaign_sound bk"
  shows "core_ok (with_status st bk)" "card (running_sites (with_status st bk)) \<le> concurrency_limit (bk_campaign (with_status st bk))"
  using assms by (simp_all add: campaign_sound_def core_campaign running_sites_def concurrency_limit_def with_status_def)

text \<open>A pass, also one that raises at a site.\<close>

definition passes_to :: "(bytes \<Rightarrow> string) \<Rightarrow> (pyval \<Rightarrow> bytes) \<Rightarrow> world \<Rightarrow> book \<Rightarrow> book \<Rightarrow> bool" where
  "passes_to sha dumps wd bk bk' \<longleftrightarrow> advance_campaign sha dumps wd bk = Inr bk' \<or> (\<exists>n. raised_pass sha dumps wd n bk = Some bk')"

lemma pass_licensed:
  assumes ok: "campaign_sound bk" and a: "passes_to sha dumps wd (with_status st bk) bk'"
    and d: "d \<in> set (bk_ledger bk')" "d \<notin> set (bk_ledger bk)"
  shows "\<not> wd_stop wd \<and> licensed sha dumps wd (settle_dispatched_waves wd (with_status st bk)) d"
proof -
  let ?c = "with_status st bk"
  note core = with_status_core [OF ok, of st]
  have "\<exists>rows. bk_ledger bk' = bk_ledger ?c @ rows \<and> (\<forall>d \<in> set rows. \<not> wd_stop wd \<and> licensed sha dumps wd (settle_dispatched_waves wd ?c) d)"
    using a unfolding passes_to_def
  proof
    assume "advance_campaign sha dumps wd ?c = Inr bk'"
    then show ?thesis using advance_campaign_facts(8) [OF core] by blast
  next
    assume "\<exists>n. raised_pass sha dumps wd n ?c = Some bk'"
    then obtain n where n: "raised_pass sha dumps wd n ?c = Some bk'" by blast
    show ?thesis using advance_first_facts(6) [OF core raised_passD(1) [OF n]] raised_passD(3) [OF n] by blast
  qed
  then show ?thesis using d by (auto simp: with_status_def)
qed

lemma reached_ok: "draft_book b0 \<Longrightarrow> (campaign_step sha dumps W)\<^sup>*\<^sup>* b0 bk \<Longrightarrow> campaign_sound bk"
  using steps_safe draft_ok unfolding safe_step_def by blast

text \<open>C2: Whatever happens to a campaign once a site of it has been halted - decisions, cancellations, passes, another
  preflight or submission - the site stays halted and nothing more is dispatched to it.\<close>

theorem halted_site_is_final:
  assumes "draft_book b0" "(campaign_step sha dumps W)\<^sup>*\<^sup>* b0 bk" and h: "BrHalted \<in> branch_status_of bk i"
    and s: "(campaign_step sha dumps W)\<^sup>*\<^sup>* bk bk'"
  shows "BrHalted \<in> branch_status_of bk' i \<and> filter (\<lambda>d. dr_site d = i) (bk_ledger bk') = filter (\<lambda>d. dr_site d = i) (bk_ledger bk)"
  using steps_safe [OF s reached_ok [OF assms(1,2)]] h unfolding safe_step_def rows_at_def by blast

text \<open>C8: In every state a campaign reaches, no device was dispatched to twice for one wave of one plan, no more sites run at a
  time than the campaign allows (at least one), and a site has at most one wave in flight, its first unfinished one.\<close>

theorem campaign_within_bounds:
  assumes "draft_book b0" "(campaign_step sha dumps W)\<^sup>*\<^sup>* b0 bk"
  shows "distinct (map (\<lambda>d. (dr_version d, dr_site d, dr_agent d, dr_wave d, dr_plan d)) (bk_ledger bk)) \<and>
    int (card (running_sites bk)) \<le> max 1 (ca_concurrency (bk_campaign bk)) \<and>
    (\<forall>w \<in> set (campaign_waves bk). \<forall>v \<in> set (campaign_waves bk).
       wv_status w = ''dispatched'' \<and> wv_site v = wv_site w \<and> \<not> wave_finished (wv_status v) \<longrightarrow> v = w \<or> wv_index w < wv_index v)"
proof -
  have ok: "core_ok bk" "card (running_sites bk) \<le> concurrency_limit (bk_campaign bk)"
    using reached_ok [OF assms] by (simp_all add: campaign_sound_def)
  then have "int (card (running_sites bk)) \<le> max 1 (ca_concurrency (bk_campaign bk))" by (simp add: concurrency_limit_def)
  then show ?thesis using ok(1) unfolding core_ok_def ledger_keys_def waves_ok_def by blast
qed

text \<open>C1: Every dispatch of a pass is licensed at that moment: no stop switch; a wave that is approved or autonomous and holds the
  device, with all earlier waves of the site finished; a registered site that makes the same plan again; standing authority
  of the approvers of an approved wave; the assessment of the site and the safety gate; and a device that passed revalidation.\<close>

theorem dispatch_is_licensed:
  assumes "draft_book b0" "(campaign_step sha dumps W)\<^sup>*\<^sup>* b0 b"
    and "passes_to sha dumps wd (with_status st b) bk'" and "d \<in> set (bk_ledger bk')" "d \<notin> set (bk_ledger b)"
  shows "\<not> wd_stop wd \<and> (\<exists>bk w p. bk = settle_dispatched_waves wd (with_status st b) \<and> w \<in> set (site_waves bk (dr_site d)) \<and>
     wv_index w = dr_wave d \<and> wv_plan w = dr_plan d \<and> dr_agent d \<in> set (wv_devices w) \<and>
     (wv_status w = ''autonomous'' \<or> wv_status w = ''approved'' \<and> (\<exists>v. wave_authority sha dumps wd bk w = Inr v \<and> wo_ok v)) \<and>
     (\<forall>v \<in> set (site_waves bk (dr_site d)). wv_index v < wv_index w \<longrightarrow> wave_finished (wv_status v)) \<and>
     site_registered bk (dr_site d) \<and>
     wd_site_plan wd (dr_site d) (request_for bk (dr_site d)) = Some p \<and> sp_planned p \<and> sp_hash p = wv_plan w \<and>
     site_local_gate (wd_local wd (dr_site d)) False (wv_status w = ''autonomous'') \<and> wd_gate wd (dr_site d) \<and>
     device_verdict wd bk (dr_site d) (dr_agent d) = RevalOk)"
proof -
  let ?b = "settle_dispatched_waves wd (with_status st b)"
  have l: "\<not> wd_stop wd" "licensed sha dumps wd ?b d"
    using pass_licensed [OF reached_ok [OF assms(1,2)] assms(3-5)] by simp_all
  then obtain w where w: "w \<in> set (site_waves ?b (dr_site d))" "wv_index w = dr_wave d" "wv_plan w = dr_plan d" "dr_agent d \<in> set (wv_devices w)"
    "wave_runnable (wv_status w)" "\<forall>v \<in> set (site_waves ?b (dr_site d)). wv_index v < wv_index w \<longrightarrow> wave_finished (wv_status v)"
    "site_registered ?b (dr_site d)"
    "\<exists>p. wd_site_plan wd (dr_site d) (request_for ?b (dr_site d)) = Some p \<and> sp_planned p \<and> sp_hash p = wv_plan w"
    "wv_status w = ''approved'' \<longrightarrow> (\<exists>v. wave_authority sha dumps wd ?b w = Inr v \<and> wo_ok v)"
    "eligible_now wd w" "device_verdict wd ?b (dr_site d) (dr_agent d) = RevalOk"
    unfolding licensed_def by blast
  have "wv_site w = dr_site d" using w(1) by (simp add: site_waves_def)
  then have e: "site_local_gate (wd_local wd (dr_site d)) False (wv_status w = ''autonomous'')" "wd_gate wd (dr_site d)"
    using w(10) by (simp_all add: eligible_now_def)
  have "wv_status w = ''autonomous'' \<or> wv_status w = ''approved'' \<and> (\<exists>v. wave_authority sha dumps wd ?b w = Inr v \<and> wo_ok v)"
    using w(5,9) by (auto simp: wave_runnable_def)
  then show ?thesis using l(1) w(1-4,6-8,11) e by blast
qed

text \<open>C7: With sites that plan by \<open>PlanCampaignWaves\<close>, whatever a pass dispatches goes to a device that preflight found dispatchable
  and no operator excluded - unless the very plan stored for this dispatch and the different plan that the site made for
  the devices of this pass have one digest.\<close>

theorem excluded_never_dispatched:
  assumes b0: "draft_book b0" "(campaign_step sha dumps (served sha dumps))\<^sup>*\<^sup>* b0 b" and wd: "served sha dumps wd"
    and a: "passes_to sha dumps wd (with_status st b) bk'" and d: "d \<in> set (bk_ledger bk')" "d \<notin> set (bk_ledger b)"
  shows "(\<exists>t \<in> set (bk_targets b). ct_site t = dr_site d \<and> ct_agent t = dr_agent d \<and> dispatchable (ct_applicability t)) \<or>
    (\<exists>r \<in> set (bk_plans b). \<exists>p. pl_site r = dr_site d \<and> pl_hash r = dr_plan d \<and>
       wd_site_plan wd (dr_site d) (request_for b (dr_site d)) = Some p \<and>
       digests_clash sha dumps (plan_text (bk_campaign b) (dr_site d) (pl_waves r)) (plan_text (bk_campaign b) (dr_site d) (sp_waves p)))"
proof -
  let ?c = "with_status st b"
  let ?b = "settle_dispatched_waves wd ?c"
  note steps = steps_made [OF b0(2) order_refl draft_ok [OF b0(1)] draft_made [OF b0(1)]]
  have ok: "campaign_sound b" and made: "campaign_made sha dumps b" using steps by simp_all
  have g: "ground ?b = ground ?c" by (rule ground_settle)
  have c: "campaign_waves ?c = campaign_waves b" "bk_plans ?c = bk_plans b" "campaign_terms (bk_campaign ?c) = campaign_terms (bk_campaign b)"
    "plan_facts ?c = plan_facts b"
    by (simp_all add: with_status_def campaign_waves_def plan_facts_def)
  have f: "wave_facts ?b = wave_facts ?c" "plan_facts ?b = plan_facts ?c" "bk_campaign ?b = bk_campaign ?c"
    using g by (simp_all add: ground_def)
  have "campaign_terms (bk_campaign ?b) = campaign_terms (bk_campaign ?c)" by (simp add: f(3))
  then have mb: "campaign_made sha dumps ?b"
    using campaign_made_facts [OF f(1,2)] campaign_made_same [OF c(1-3)] made by simp
  have t: "campaign_terms (bk_campaign ?b) = campaign_terms (bk_campaign b)" using f(3) c(3) by simp
  have q: "request_for ?b i = request_for b i" for i
    using ground_same(3) [OF g, of i] by (simp add: with_status_def request_for_def dispatchable_at_def)
  have "licensed sha dumps wd ?b d" using pass_licensed [OF ok a d] by simp
  then obtain w p where w: "w \<in> set (site_waves ?b (dr_site d))" "dr_agent d \<in> set (wv_devices w)" "wv_plan w = dr_plan d"
    and p: "wd_site_plan wd (dr_site d) (request_for ?b (dr_site d)) = Some p" "sp_planned p" "sp_hash p = wv_plan w"
    unfolding licensed_def by blast
  obtain tb where tb: "tables_ok tb" "plan_campaign_waves sha dumps tb (request_for ?b (dr_site d)) = Some p"
    using wd p(1) unfolding served_def by blast
  have "w \<in> set (campaign_waves ?b)" "wv_site w = dr_site d" using w(1) by (simp_all add: site_waves_def)
  then obtain r x where r: "r \<in> set (bk_plans ?b)" "x \<in> set (pl_waves r)" "pl_site r = dr_site d" "pl_hash r = wv_plan w"
    "set (pw_devices x) = set (wv_devices w)"
    using mb unfolding campaign_made_def made_waves_def by metis
  have h: "pl_hash r = sha (dumps (canonical (plan_text (bk_campaign ?b) (dr_site d) (pl_waves r))))"
    using mb r(1,3) by (auto simp: campaign_made_def made_plans_def)
  show ?thesis
  proof (cases "digests_clash sha dumps (plan_text (bk_campaign ?b) (dr_site d) (pl_waves r)) (plan_text (bk_campaign ?b) (dr_site d) (sp_waves p))")
    case False
    have "set (wv_devices w) \<subseteq> set (dispatchable_at ?b (dr_site d))"
      by (rule current_wave_dispatchable [OF r(2,5) h tb p(2) _ False]) (simp add: p(3) r(4))
    then have "dr_agent d \<in> set (dispatchable_at ?c (dr_site d))" using w(2) by (auto simp: ground_same(2) [OF g])
    then show ?thesis by (auto simp: dispatchable_at_def with_status_def)
  next
    case True
    have "(pl_site r, pl_hash r, pl_waves r) \<in> set (plan_facts ?b)" using r(1) unfolding plan_facts_def by force
    then have "(pl_site r, pl_hash r, pl_waves r) \<in> set (plan_facts b)" unfolding f(2) c(4) .
    then obtain r' where "r' \<in> set (bk_plans b)" "pl_site r' = dr_site d" "pl_hash r' = dr_plan d" "pl_waves r' = pl_waves r"
      using r(3,4) w(3) by (auto simp: plan_facts_def)
    then show ?thesis using True p(1) unfolding q plan_text_terms [OF t] by metis
  qed
qed

text \<open>C20: A site whose plan has changed since it was approved has its waves voided, to be planned and approved again; but the next
  pass finds no open wave and records the site as completed, although nothing was dispatched.\<close>

theorem stale_plan_ends_completed:
  assumes reach: "draft_book b0" "(campaign_step sha dumps W)\<^sup>*\<^sup>* b0 bk"
    and n: "next_wave bk i = Some w" "wave_runnable (wv_status w)" "site_registered bk i"
    and p: "wd_site_plan wd i (request_for bk i) = Some p" "sp_hash p \<noteq> wv_plan w"
  shows "\<exists>b b'. advance_site sha dumps wd bk i = Inr (b, Blocked) \<and> advance_site sha dumps wd' b i = Inr (b', Advanced) \<and>
    branch_status_of b' i \<subseteq> {BrCompleted} \<and> bk_ledger b' = bk_ledger bk"
proof -
  let ?v = "void_site_waves i (bk\<lparr>bk_plans := supersede_plans i (sp_hash p) (bk_plans bk)\<rparr>)"
  let ?b = "at_branch i (\<lambda>s. s\<lparr>sb_status := BrPending\<rparr>) ?v"
  have ok: "waves_ok (campaign_waves bk)" using reached_ok [OF reach] by (simp add: campaign_sound_def core_ok_def)
  have first: "advance_site sha dumps wd bk i = Inr (?b, Blocked)" using n p by (simp add: advance_site_def plan_is_current_def)
  have "wv_status w \<noteq> ''dispatched''" using n(2) by (auto simp: wave_runnable_def)
  then have "wv_status v \<noteq> ''dispatched''" if "v \<in> set (campaign_waves bk)" "wv_site v = i" for v
    using next_wave_alone [OF ok n(1) _ that] by blast
  then have "quiet ?v i" using void_quiet(2) [of "bk\<lparr>bk_plans := supersede_plans i (sp_hash p) (bk_plans bk)\<rparr>" i] ok by simp
  then have "next_wave ?b i = None" unfolding next_wave_None by (simp add: quiet_def)
  then have "advance_site sha dumps wd' ?b i = Inr (at_branch i (\<lambda>s. s\<lparr>sb_status := BrCompleted\<rparr>) ?b, Advanced)"
    by (simp add: advance_site_def)
  moreover have "branch_status_of (at_branch i (\<lambda>s. s\<lparr>sb_status := BrCompleted\<rparr>) ?b) i \<subseteq> {BrCompleted}"
    by simp
  moreover have "bk_ledger (at_branch i (\<lambda>s. s\<lparr>sb_status := BrCompleted\<rparr>) ?b) = bk_ledger bk" by simp
  ultimately show ?thesis using first by blast
qed

subsection \<open>A small campaign\<close>

definition example_tables :: site_tables where
  "example_tables = \<lparr>st_sites = [\<lparr>bs_cc = ''s1'', bs_id = ''x'', bs_status = ''active''\<rparr>],
     st_devices = [\<lparr>sd_id = ''1'', sd_agent = ''d1'', sd_site = ''x''\<rparr>], st_domains = []\<rparr>"

definition example_world :: world where
  "example_world = \<lparr>wd_now = 0, wd_stop = False, wd_reach = (\<lambda>_. Some [''BMC_RESET'']), wd_site_name = id,
     wd_site_plan = (\<lambda>i q. if i = ''s1'' then plan_campaign_waves (\<lambda>_. ''h'') (\<lambda>_. []) example_tables q else None),
     wd_local = (\<lambda>_. ''autonomous''), wd_gate = (\<lambda>_. True), wd_realm = ''t1'', wd_identity = (\<lambda>_. None),
     wd_declared = (\<lambda>_. Some \<lparr>dc_version = 1, dc_protocol = ''redfish'', dc_class = ''server'', dc_allow = [''BMC_RESET''],
       dc_implemented = Some [''BMC_RESET''], dc_effective = Some [''BMC_RESET''], dc_known = True\<rparr>), wd_accepts = (\<lambda>_ _. True), wd_outcomes = []\<rparr>"

definition example_manager :: user_ctx where
  "example_manager = \<lparr>uc_id = ''ada'', uc_email = [], uc_role = ''tenant_owner'', uc_perms = [''site.manage'']\<rparr>"

definition example_draft :: book where
  "example_draft = \<lparr>bk_desk = example_desk\<lparr>dk_waves := [], dk_fleet := [\<lparr>fr_site = ''s1'', fr_agent = ''d1'', fr_class = ''server''\<rparr>]\<rparr>,
     bk_campaign = \<lparr>ca_id = ''c'', ca_version = 1, ca_action = ''BMC_RESET'', ca_status = CsDraft, ca_preflighted = False, ca_ack_by = [],
       ca_ack_version = 0, ca_concurrency = 1, ca_wave_size = 5\<rparr>,
     bk_rules = [example_admin ''r'' ''c''], bk_targets = [], bk_branches = [], bk_plans = [], bk_ledger = []\<rparr>"

abbreviation example_step where
  "example_step \<equiv> campaign_step (\<lambda>_. ''h'') (\<lambda>_. []) (served (\<lambda>_. ''h'') (\<lambda>_. []))"

definition example_unreachable :: world where
  "example_unreachable = example_world\<lparr>wd_site_plan := \<lambda>_ _. None\<rparr>"

definition example_wave_row :: "string \<Rightarrow> campaign_wave" where
  "example_wave_row st = \<lparr>wv_campaign = ''c'', wv_version = 1, wv_site = ''s1'', wv_index = 0, wv_plan = ''h'', wv_devices = [''d1''],
     wv_subject = [], wv_status = st, wv_decided_by = []\<rparr>"

definition example_dispatch :: dispatch_row where
  "example_dispatch = \<lparr>dr_version = 1, dr_site = ''s1'', dr_agent = ''d1'', dr_wave = 0, dr_plan = ''h'', dr_auth = ''autonomous_grant'', dr_accepted = True\<rparr>"

definition example_preflighted :: book where
  "example_preflighted = example_draft\<lparr>bk_campaign := (bk_campaign example_draft)\<lparr>ca_status := CsPreflighted, ca_preflighted := True\<rparr>,
     bk_targets := [\<lparr>ct_site = ''s1'', ct_agent = ''d1'', ct_class = ''server'', ct_applicability = Eligible, ct_status = TgPending,
       ct_reval = RevalNone, ct_outcome = []\<rparr>],
     bk_branches := [\<lparr>sb_site = ''s1'', sb_order = 0, sb_status = BrPending, sb_current = 0, sb_count = 1\<rparr>],
     bk_plans := [\<lparr>pl_version = 1, pl_site = ''s1'', pl_hash = ''h'', pl_waves = [\<lparr>pw_index = 0, pw_devices = [''d1''], pw_span = 0\<rparr>],
       pl_superseded = False\<rparr>]\<rparr>"

definition example_submitted :: book where
  "example_submitted = with_status CsRunning (example_preflighted\<lparr>bk_desk := (bk_desk example_draft)\<lparr>dk_waves := [example_wave_row ''autonomous'']\<rparr>\<rparr>)"

definition example_dispatched :: book where
  "example_dispatched = at_target ''d1'' (\<lambda>t. t\<lparr>ct_status := TgDispatched, ct_reval := RevalOk\<rparr>)
     (at_branch ''s1'' (\<lambda>s. s\<lparr>sb_status := BrRunning\<rparr>)
       (example_submitted\<lparr>bk_desk := (bk_desk example_draft)\<lparr>dk_waves := [example_wave_row ''dispatched'']\<rparr>, bk_ledger := [example_dispatch]\<rparr>))"

definition example_halted :: book where
  "example_halted = with_status CsHalted (at_branch ''s1'' (\<lambda>s. s\<lparr>sb_status := BrHalted\<rparr>)
     (example_submitted\<lparr>bk_desk := (bk_desk example_draft)\<lparr>dk_waves := [example_wave_row ''voided'']\<rparr>\<rparr>))"

lemma example_served: "served (\<lambda>_. ''h'') (\<lambda>_. []) example_world" "served (\<lambda>_. ''h'') (\<lambda>_. []) example_unreachable"
proof -
  have "tables_ok example_tables" by (simp add: tables_ok_def example_tables_def)
  then show "served (\<lambda>_. ''h'') (\<lambda>_. []) example_world" unfolding served_def example_world_def by (auto split: if_splits)
  show "served (\<lambda>_. ''h'') (\<lambda>_. []) example_unreachable" by (simp add: served_def example_unreachable_def)
qed

lemma example_moves:
  "case preflight_campaign example_world example_manager example_draft of Inr b \<Rightarrow> b = example_preflighted | Inl _ \<Rightarrow> False"
  "case submit_campaign (\<lambda>_. ''h'') (\<lambda>_. []) example_world example_manager example_preflighted ''autonomous'' of
     Inr b \<Rightarrow> b = example_submitted | Inl _ \<Rightarrow> False"
  "case run_campaign (\<lambda>_. ''h'') (\<lambda>_. []) example_world example_submitted of Inr b \<Rightarrow> b = example_dispatched | Inl _ \<Rightarrow> False"
  "case run_campaign (\<lambda>_. ''h'') (\<lambda>_. []) example_unreachable example_submitted of Inr b \<Rightarrow> b = example_halted | Inl _ \<Rightarrow> False"
  by code_simp+

lemma case_Inr: "(case r of Inr b \<Rightarrow> b = c | Inl _ \<Rightarrow> False) \<longleftrightarrow> r = Inr c"
  by (cases r) auto

lemmas campaign_calls = example_moves [unfolded case_Inr]

lemma example_campaign: "example_step\<^sup>*\<^sup>* example_draft example_submitted" "example_step\<^sup>*\<^sup>* example_draft example_halted"
    "draft_book example_draft"
proof -
  have 1: "example_step example_draft example_preflighted" by (rule preflighted, rule example_served(1), rule campaign_calls(1))
  have 2: "example_step example_preflighted example_submitted" by (rule submitted, rule example_served(1), rule campaign_calls(2))
  have 3: "example_step example_submitted example_halted" by (rule passed, rule example_served(2), rule campaign_calls(4))
  show s: "example_step\<^sup>*\<^sup>* example_draft example_submitted" using 1 2 by (meson converse_rtranclp_into_rtranclp rtranclp.rtrancl_refl)
  show "example_step\<^sup>*\<^sup>* example_draft example_halted" using s 3 by (rule rtranclp.rtrancl_into_rtrancl)
  show "draft_book example_draft" by (simp add: draft_book_def example_draft_def campaign_waves_def)
qed

lemma example_pass: "passes_to (\<lambda>_. ''h'') (\<lambda>_. []) example_world (with_status CsRunning example_submitted) example_dispatched"
proof -
  have "with_status CsRunning example_submitted = example_submitted" by (simp add: example_submitted_def with_status_def)
  then show ?thesis using campaign_calls(3) by (simp add: passes_to_def run_campaign_def example_submitted_def with_status_def)
qed

lemma example_ledgers: "bk_ledger example_submitted = []" "bk_ledger example_dispatched = [example_dispatch]" "bk_ledger example_halted = []"
  "branch_status_of example_halted ''s1'' = {BrHalted}"
  by (simp_all add: example_submitted_def example_dispatched_def example_halted_def example_preflighted_def example_draft_def with_status_def
      branch_status_of_def at_branch_def Collect_conv_if)

theorem halted_site_is_final_witness:
  "BrHalted \<in> branch_status_of example_halted ''s1'' \<and> filter (\<lambda>d. dr_site d = ''s1'') (bk_ledger example_halted) = []"
  using halted_site_is_final [OF example_campaign(3,2) _ rtranclp.rtrancl_refl, of "''s1''"] example_ledgers(3,4) by simp

theorem campaign_within_bounds_witness: "int (card (running_sites example_submitted)) \<le> 1"
  using campaign_within_bounds [OF example_campaign(3,1)]
  by (simp add: example_submitted_def example_preflighted_def example_draft_def with_status_def)

theorem dispatch_is_licensed_witness:
  "\<exists>w \<in> set (site_waves (settle_dispatched_waves example_world (with_status CsRunning example_submitted)) ''s1'').
     ''d1'' \<in> set (wv_devices w) \<and> wv_index w = 0"
proof -
  have d: "example_dispatch \<in> set (bk_ledger example_dispatched)" "example_dispatch \<notin> set (bk_ledger example_submitted)" using example_ledgers by simp_all
  show ?thesis using dispatch_is_licensed [OF example_campaign(3,1) example_pass d] by (auto simp: example_dispatch_def)
qed

theorem excluded_never_dispatched_witness:
  "\<exists>t \<in> set (bk_targets example_submitted). ct_agent t = ''d1'' \<and> dispatchable (ct_applicability t)"
proof -
  have d: "example_dispatch \<in> set (bk_ledger example_dispatched)" "example_dispatch \<notin> set (bk_ledger example_submitted)" using example_ledgers by simp_all
  let ?q = "request_for example_submitted ''s1''"
  have "case wd_site_plan example_world ''s1'' ?q of None \<Rightarrow> False | Some p \<Rightarrow>
      (\<forall>r \<in> set (bk_plans example_submitted). pl_waves r = sp_waves p)" by code_simp
  then have "pl_waves r = sp_waves p" if "wd_site_plan example_world ''s1'' ?q = Some p" "r \<in> set (bk_plans example_submitted)" for p r
    using that by simp
  then have "\<not> digests_clash sha dumps (plan_text c i (pl_waves r)) (plan_text c i (sp_waves p))"
    if "wd_site_plan example_world ''s1'' ?q = Some p" "r \<in> set (bk_plans example_submitted)" for sha dumps c i p r
    using that by (simp add: digests_clash_def)
  then show ?thesis
    using excluded_never_dispatched [OF example_campaign(3,1) example_served(1) example_pass d] by (auto simp: example_dispatch_def)
qed

definition example_replanned :: world where
  "example_replanned = example_world\<lparr>wd_site_plan := \<lambda>_ _. Some \<lparr>sp_planned = True, sp_waves = [], sp_unplannable = [], sp_hash = ''i''\<rparr>\<rparr>"

theorem stale_plan_ends_completed_witness:
  "\<exists>b b'. advance_site (\<lambda>_. ''h'') (\<lambda>_. []) example_replanned example_submitted ''s1'' = Inr (b, Blocked) \<and>
     advance_site (\<lambda>_. ''h'') (\<lambda>_. []) example_world b ''s1'' = Inr (b', Advanced) \<and>
     branch_status_of b' ''s1'' \<subseteq> {BrCompleted} \<and> bk_ledger b' = bk_ledger example_submitted"
proof (rule stale_plan_ends_completed [OF example_campaign(3,1)])
  show "next_wave example_submitted ''s1'' = Some (example_wave_row ''autonomous'')" by code_simp
  show "wave_runnable (wv_status (example_wave_row ''autonomous''))" by code_simp
  show "site_registered example_submitted ''s1''" by code_simp
  show "wd_site_plan example_replanned ''s1'' (request_for example_submitted ''s1'') =
      Some \<lparr>sp_planned = True, sp_waves = [], sp_unplannable = [], sp_hash = ''i''\<rparr>" by (simp add: example_replanned_def)
  show "sp_hash \<lparr>sp_planned = True, sp_waves = [], sp_unplannable = [], sp_hash = ''i''\<rparr> \<noteq> wv_plan (example_wave_row ''autonomous'')"
    by (simp add: example_wave_row_def)
qed

end
