(* ===== verification/Spec2Isabelle.thy ===== *)
theory Spec2Isabelle
  imports Agent_State Action_Queue Auth_Lease Budgets Blast_Radius Network_Safety Peer_Protocol
    Liveness Suspicion Preconditions Action_Executor Verification Gate Playbooks
    Skill_Engine Audit_Chain Resources Capabilities Provenance Versions Firmware_Campaign Stop_Switch
    Suppression Org_Units Read_Reach Campaign_Safety
begin

text \<open>
  HarkenIQ watches and repairs data-center hardware. An agent (\<open>src/src/harkeniq\<close>) runs beside every
  server and switch: it polls the device, judges the readings with skills, proposes actions, and executes
  those a gate lets through. Agents of a rack talk to each other over a mesh, so that exactly one of them
  owns an incident. A site manager (\<open>src/services/site_manager\<close>) correlates the reports of its agents,
  holds the stop switches, signs leases and runs firmware campaigns. Central command
  (\<open>src/services/central_command\<close>) governs many sites. The console is not modelled.

  The theories, from the bottom.
  \<^item> \<open>Prelude\<close>: Python's ordered dictionaries as association lists, list slices, two interfaces. The locale
    \<open>inv_system\<close> (a step function, an invariant, a condition on the inputs) carries invariants along runs;
    \<open>rate_gate\<close> (ask, then note) is the contract of every rate limiter. \<open>Values\<close>: dynamically typed Python
    values with their truth, equality and order. \<open>Models\<close>: enumerations and data classes of \<open>models.py\<close>.
  \<^item> Readings to proposals. \<open>Expression\<close>: the condition language (tokenizer, parser, evaluator).
    \<open>Debounce\<close>: the N-of-M filter. \<open>Trending\<close>, \<open>Trends\<close>: baselines and projections. \<open>Skill_Engine\<close>: one poll
    through them all, ending in proposals. \<open>Action_Queue\<close>: approval and denial of proposals.
  \<^item> Proposals to executions. \<open>Auth_Lease\<close>, \<open>Budgets\<close>, \<open>Blast_Radius\<close>, \<open>Network_Safety\<close>, \<open>Preconditions\<close>,
    \<open>Capabilities\<close>: what may run. \<open>Agent_State\<close>: the state machine. \<open>Action_Executor\<close>: the requests an action
    sends and what it reads back. \<open>Gate\<close>: \<open>agent.py\<close>'s composition of them. \<open>Playbooks\<close>: several steps with
    rollback. \<open>Verification\<close>: what is concluded after an action. \<open>Resources\<close>: self-limiting of the agent.
  \<^item> The mesh. \<open>Claims\<close>, \<open>Claim_Manager\<close>, \<open>Claim_Exchange\<close>, \<open>Peer_Protocol\<close>: ownership of incidents, with
    the locale \<open>claim_arbiter\<close> between the protocol and the manager. \<open>Peer_Tracker\<close>, \<open>Liveness\<close>,
    \<open>Suspicion\<close>: who is alive and which component explains the failing paths.
  \<^item> The site manager. \<open>Firmware_Waves\<close>, \<open>Firmware_Campaign\<close>: planning and running upgrades.
    \<open>Stop_Switch\<close>: halts and the decision to dispatch. \<open>Suppression\<close>: correlated conclusions. \<open>Site_Plan\<close>: how the
    devices of a campaign of central command are batched.
  \<^item> Shared by the services. \<open>Audit_Chain\<close>: the hash chain of audit trails. \<open>Provenance\<close>: who may see what was
    generated from which sites. \<open>Versions\<close>: firmware version comparison.
  \<^item> Central command. \<open>Org_Tree\<close>, \<open>Org_Units\<close>: the organizational tree with materialized paths and the
    handlers that change it. \<open>Scope\<close>: grants, their resolution and the decision. \<open>Read_Reach\<close>: row filters of
    listings. \<open>Grant_Integrity\<close>: how grants are made and taken away, and the administrator that always stays.
    \<open>Approval_Policy\<close>: which policy governs a subject and when a decision is complete. \<open>Approval_Ledger\<close>: decisions
    on actions, activations and campaign waves, and the authority asked again when a wave is dispatched. \<open>Campaigns\<close>: one action over many
    sites, up to its submission; \<open>Campaign_Runner\<close>: its passes; \<open>Campaign_Safety\<close>: what holds in every state it reaches.

  Correspondence. A class is a \<open>record\<close> of the attributes its methods read or write and a method a function
  that returns the updated record; an enumeration is a \<open>datatype\<close>; a dictionary is an association list in
  insertion order; a raised exception is \<open>Inl\<close> of an error, an early return a branch. A clock reading is an
  argument of the call that takes it, an identifier drawn at random too. Floating-point numbers are \<open>real\<close>
  (exact, where the program rounds); Python integers are \<open>int\<close>; texts are lists of characters, with a
  character class for Latin-1 only.

  What is a parameter. Code outside the repository: digests, signatures, PEM and JSON codecs (where a
  theorem rests on a digest telling two contents apart, it names the two that may share one), devices (a function from
  requests to answers or faults), the updater of a campaign (it may raise), and the order in which Python
  iterates over a set.

  Loops. Every loop is a terminating function, but for the wave planner's inner loop, which does not return
  for a wave size of zero: it is a \<open>partial_function (option)\<close> whose value \<open>None\<close> means that the call never
  returns, and \<open>plan_respects_domains\<close> shows that it returns for positive sizes. There is no fuel.

  The lemmas. Each theory proves an invariant of its state and that every operation keeps it, interprets
  \<open>inv_system\<close> on its own step function where operations follow each other in any order, and then shows the
  behaviour of each operation on its branches. The properties, in \<open>text\<close> blocks that start with an
  identifier, are the statements a reader should look at; the witness after one applies it to concrete data.

  Not modelled. Input and output around these components (protocol clients, sockets, REST and RPC handlers,
  SQL repositories, YAML and protobuf), the vendor tables that normalise device payloads, language-model
  calls, the simulators and the user interfaces. Log lines and message texts are left out unless a decision
  reads them. Concurrency is modelled where the code has it as interleaving of whole operations; the
  methods of one object never overlap in the program's single event loop unless they await.
\<close>

end
